(* ===== verification/Beam_Prelude.thy ===== *)
theory Beam_Prelude
  imports Main "HOL-Library.Word"
begin

text \<open>
  Shared vocabulary of the Filebeam development: the Rust integer widths and their checked,
  saturating and clamping arithmetic on machine words, \<open>Result\<close> values as sums, operations
  with a state that succeed or fail (\<open>st\<close>) and may still be running (\<open>run\<close>), triples and the
  properties such operations keep (\<open>keeps\<close>), Rust strings as lists of Unicode scalar values with
  their UTF-8 and UTF-16 measures, and the collections of rewrite rules (\<open>rust_arith\<close>,
  \<open>rust_str\<close>) the component proofs use. Three generic
  interfaces live here as well: \<open>guarded_machine\<close>, a component whose operations keep an
  invariant, \<open>step_refinement\<close>, a component whose steps are steps of another, and
  \<open>partial_codec\<close>, an encoder with a checking decoder.
\<close>

named_theorems rust_arith \<open>rewriting Rust integer operations to arithmetic on nat\<close>
named_theorems rust_str \<open>rewriting Rust string operations\<close>

type_synonym u8 = "8 word"
type_synonym u16 = "16 word"
type_synonym u32 = "32 word"
type_synonym u64 = "64 word"

section \<open>Results\<close>

text \<open>\<open>Result<T, E>\<close> is a sum, \<open>Inl\<close> the error; \<open>?\<close> is \<open>and_then\<close>.\<close>

type_synonym ('a, 'e) result = "'e + 'a"

abbreviation Ok :: "'a \<Rightarrow> ('a, 'e) result" where "Ok \<equiv> Inr"
abbreviation Err :: "'e \<Rightarrow> ('a, 'e) result" where "Err \<equiv> Inl"

definition and_then :: "('a, 'e) result \<Rightarrow> ('a \<Rightarrow> ('b, 'e) result) \<Rightarrow> ('b, 'e) result" where
  "and_then r f = (case r of Inl e \<Rightarrow> Inl e | Inr x \<Rightarrow> f x)"

definition map_err :: "('e \<Rightarrow> 'f) \<Rightarrow> ('a, 'e) result \<Rightarrow> ('a, 'f) result" where
  "map_err f r = (case r of Inl e \<Rightarrow> Inl (f e) | Inr x \<Rightarrow> Inr x)"

definition ok_or :: "'e \<Rightarrow> 'a option \<Rightarrow> ('a, 'e) result" where
  "ok_or e x = (case x of None \<Rightarrow> Inl e | Some y \<Rightarrow> Inr y)"

definition is_ok :: "('a, 'e) result \<Rightarrow> bool" where
  "is_ok r = (case r of Inl _ \<Rightarrow> False | Inr _ \<Rightarrow> True)"

lemma and_then_simps [simp]:
  "and_then (Inl e) f = Inl e" "and_then (Inr x) f = f x"
  by (simp_all add: and_then_def)

lemma and_then_eq_Inr [simp]:
  "and_then r f = Inr y \<longleftrightarrow> (\<exists>x. r = Inr x \<and> f x = Inr y)"
  by (cases r) simp_all

lemma and_then_eq_Inl:
  "and_then r f = Inl e \<longleftrightarrow> r = Inl e \<or> (\<exists>x. r = Inr x \<and> f x = Inl e)"
  by (cases r) simp_all

lemma map_err_simps [simp]:
  "map_err f (Inl e) = Inl (f e)" "map_err f (Inr x) = Inr x"
  by (simp_all add: map_err_def)

lemma map_err_eq_Inr [simp]: "map_err f r = Inr y \<longleftrightarrow> r = Inr y"
  by (cases r) simp_all

lemma ok_or_simps [simp]: "ok_or e None = Inl e" "ok_or e (Some x) = Inr x"
  by (simp_all add: ok_or_def)

lemma ok_or_eq_Inr [simp]: "ok_or e x = Inr y \<longleftrightarrow> x = Some y"
  by (cases x) simp_all

lemma is_ok_simps [simp]: "is_ok (Inl e) = False" "is_ok (Inr x) = True"
  by (simp_all add: is_ok_def)

lemma case_OkI: "(\<And>x. r = Inr x \<Longrightarrow> P x) \<Longrightarrow> case r of Inl _ \<Rightarrow> True | Inr x \<Rightarrow> P x"
  by (cases r) simp_all

lemma is_ok_iff: "is_ok r \<longleftrightarrow> (\<exists>x. r = Inr x)"
  by (cases r) simp_all

text \<open>Fallible operations on a state: the state survives an error, as it does in the code.\<close>

type_synonym ('s, 'a, 'e) st = "'s \<Rightarrow> ('a, 'e) result \<times> 's"

definition bind_st :: "('s, 'a, 'e) st \<Rightarrow> ('a \<Rightarrow> ('s, 'b, 'e) st) \<Rightarrow> ('s, 'b, 'e) st" where
  "bind_st m f s = (case m s of (Inl e, s') \<Rightarrow> (Err e, s') | (Inr x, s') \<Rightarrow> f x s')"

definition lift_st :: "('a, 'e) result \<Rightarrow> ('s, 'a, 'e) st" where
  "lift_st r s = (r, s)"

lemma bind_st_Inr:
  "bind_st m f s = (Inr y, s') \<longleftrightarrow> (\<exists>x s1. m s = (Inr x, s1) \<and> f x s1 = (Inr y, s'))"
  by (auto simp: bind_st_def split: prod.splits sum.splits)

lemma bind_st_Inl:
  "bind_st m f s = (Inl e, s') \<longleftrightarrow>
     m s = (Inl e, s') \<or> (\<exists>x s1. m s = (Inr x, s1) \<and> f x s1 = (Inl e, s'))"
  by (auto simp: bind_st_def split: prod.splits sum.splits)

lemma lift_st_eq [simp]: "lift_st r s = (r', s') \<longleftrightarrow> r = r' \<and> s' = s"
  by (auto simp: lift_st_def)

lemma bind_lift [simp]:
  "bind_st (lift_st (Inr x)) f = f x" "bind_st (lift_st (Inl e)) f = lift_st (Inl e)"
  by (simp_all add: bind_st_def lift_st_def fun_eq_iff)

lemma snd_lift_st [simp]: "snd (lift_st r s) = s"
  by (simp add: lift_st_def)

text \<open>Triples for such operations: from a state in \<open>P\<close>, a success ends in \<open>Q\<close> and an error in \<open>E\<close>.\<close>

definition triple :: "('s \<Rightarrow> bool) \<Rightarrow> ('s, 'a, 'e) st \<Rightarrow> ('a \<Rightarrow> 's \<Rightarrow> bool) \<Rightarrow> ('e \<Rightarrow> 's \<Rightarrow> bool) \<Rightarrow> bool" where
  "triple P m Q E \<longleftrightarrow> (\<forall>s. P s \<longrightarrow> (case m s of (Inr x, s') \<Rightarrow> Q x s' | (Inl e, s') \<Rightarrow> E e s'))"

lemma tripleD_Ok: "triple P m Q E \<Longrightarrow> P s \<Longrightarrow> m s = (Inr x, s') \<Longrightarrow> Q x s'"
  by (force simp: triple_def)

lemma tripleD_Err: "triple P m Q E \<Longrightarrow> P s \<Longrightarrow> m s = (Inl e, s') \<Longrightarrow> E e s'"
  by (force simp: triple_def)

lemma triple_bind:
  assumes "triple P m R E" and "\<And>x. triple (R x) (f x) Q E"
  shows "triple P (bind_st m f) Q E"
  unfolding triple_def
proof (intro allI impI)
  fix s assume "P s"
  obtain r s1 where m: "m s = (r, s1)" by force
  show "case bind_st m f s of (Inr x, s') \<Rightarrow> Q x s' | (Inl e, s') \<Rightarrow> E e s'"
  proof (cases r)
    case (Inl e)
    then show ?thesis using tripleD_Err [OF assms(1) \<open>P s\<close>] m by (simp add: bind_st_def)
  next
    case (Inr x)
    then have "R x s1" using tripleD_Ok [OF assms(1) \<open>P s\<close>] m by simp
    with assms(2) [of x] show ?thesis using m Inr by (simp add: bind_st_def triple_def)
  qed
qed

lemma triple_lift:
  "(\<And>s x. P s \<Longrightarrow> r = Inr x \<Longrightarrow> Q x s) \<Longrightarrow> (\<And>s e. P s \<Longrightarrow> r = Inl e \<Longrightarrow> E e s) \<Longrightarrow> triple P (lift_st r) Q E"
  by (cases r) (auto simp: triple_def lift_st_def)

lemma triple_if:
  "(b \<Longrightarrow> triple P m Q E) \<Longrightarrow> (\<not> b \<Longrightarrow> triple P n Q E) \<Longrightarrow> triple P (if b then m else n) Q E"
  by simp

lemma triple_conseq:
  assumes "triple P' m Q' E'" and "\<And>s. P s \<Longrightarrow> P' s"
    and "\<And>x s. Q' x s \<Longrightarrow> Q x s" and "\<And>e s. E' e s \<Longrightarrow> E e s"
  shows "triple P m Q E"
  using assms by (fastforce simp: triple_def split: prod.splits sum.splits)

lemma triple_frame:
  "triple P m Q E \<Longrightarrow> triple (\<lambda>s. P s \<and> C) m (\<lambda>x s. Q x s \<and> C) (\<lambda>e s. E e s \<and> C)"
  by (cases C) (simp_all add: triple_def)

text \<open>An operation keeps a property of the state, whether it succeeds or fails.\<close>

definition keeps :: "('s \<Rightarrow> bool) \<Rightarrow> ('s, 'a, 'e) st \<Rightarrow> bool" where
  "keeps I m \<longleftrightarrow> triple I m (\<lambda>_. I) (\<lambda>_. I)"

named_theorems keeps_intro \<open>rules for operations that keep a property of the state\<close>

lemma keepsI: "(\<And>s. I s \<Longrightarrow> I (snd (m s))) \<Longrightarrow> keeps I m"
  by (auto simp: keeps_def triple_def split: prod.split sum.split) (metis snd_conv)+

lemma keepsD: "keeps I m \<Longrightarrow> I s \<Longrightarrow> I (snd (m s))"
  by (auto simp: keeps_def triple_def split: prod.splits sum.splits) (metis snd_conv sum.exhaust surj_pair)

lemma keepsD_run: "keeps I m \<Longrightarrow> m s = (r, s') \<Longrightarrow> I s \<Longrightarrow> I s'"
  using keepsD [of I m s] by simp

lemma keeps_lift [keeps_intro]: "keeps I (lift_st r)"
  by (rule keepsI) simp

lemma keeps_bind [keeps_intro]: "keeps I m \<Longrightarrow> (\<And>x. keeps I (f x)) \<Longrightarrow> keeps I (bind_st m f)"
  unfolding keeps_def by (rule triple_bind)

lemma keeps_if [keeps_intro]: "(c \<Longrightarrow> keeps I m) \<Longrightarrow> (\<not> c \<Longrightarrow> keeps I n) \<Longrightarrow> keeps I (if c then m else n)"
  by simp

lemma triple_keeps: "keeps I m \<Longrightarrow> triple I m (\<lambda>_. I) (\<lambda>_. I)"
  by (simp add: keeps_def)

text \<open>An operation that awaits its environment; \<open>None\<close> means that it is still running.\<close>

type_synonym ('s, 'a, 'e) run = "'s \<Rightarrow> (('a, 'e) result \<times> 's) option"

definition at_once :: "('s, 'a, 'e) st \<Rightarrow> ('s, 'a, 'e) run" where
  "at_once m s = Some (m s)"

definition and_run :: "('s, 'a, 'e) run \<Rightarrow> ('a \<Rightarrow> ('s, 'b, 'e) run) \<Rightarrow> ('s, 'b, 'e) run" where
  "and_run m f s =
     (case m s of None \<Rightarrow> None | Some (Inl e, s') \<Rightarrow> Some (Err e, s') | Some (Inr a, s') \<Rightarrow> f a s')"

lemma and_run_Inr: "and_run m f s = Some (Inr b, s') \<longleftrightarrow> (\<exists>a s1. m s = Some (Inr a, s1) \<and> f a s1 = Some (Inr b, s'))"
  by (auto simp: and_run_def split: option.splits prod.splits sum.splits)

lemma and_run_pair:
  assumes "and_run m (\<lambda>(a, b). f a b) s = Some (Inr y, s')"
  shows "\<exists>a b s1. m s = Some (Inr (a, b), s1) \<and> f a b s1 = Some (Inr y, s')"
  using assms unfolding and_run_Inr by auto

lemma at_once_Inr: "at_once m s = Some (Inr a, s') \<longleftrightarrow> m s = (Inr a, s')"
  by (simp add: at_once_def)

section \<open>Integer arithmetic of Rust\<close>

definition checked_add :: "'a::len word \<Rightarrow> 'a word \<Rightarrow> 'a word option" where
  "checked_add a b = (if unat a + unat b < 2 ^ LENGTH('a) then Some (a + b) else None)"

definition checked_mul :: "'a::len word \<Rightarrow> 'a word \<Rightarrow> 'a word option" where
  "checked_mul a b = (if unat a * unat b < 2 ^ LENGTH('a) then Some (a * b) else None)"

definition checked_sub :: "'a::len word \<Rightarrow> 'a word \<Rightarrow> 'a word option" where
  "checked_sub a b = (if b \<le> a then Some (a - b) else None)"

definition saturating_add :: "'a::len word \<Rightarrow> 'a word \<Rightarrow> 'a word" where
  "saturating_add a b = (case checked_add a b of Some c \<Rightarrow> c | None \<Rightarrow> - 1)"

definition saturating_mul :: "'a::len word \<Rightarrow> 'a word \<Rightarrow> 'a word" where
  "saturating_mul a b = (case checked_mul a b of Some c \<Rightarrow> c | None \<Rightarrow> - 1)"

definition saturating_sub :: "'a::len word \<Rightarrow> 'a word \<Rightarrow> 'a word" where
  "saturating_sub a b = (if b \<le> a then a - b else 0)"

text \<open>\<open>u64::div_ceil\<close> computes from the quotient and the remainder, so it cannot overflow.\<close>

definition div_ceil :: "'a::len word \<Rightarrow> 'a word \<Rightarrow> 'a word" where
  "div_ceil a b = (if a mod b > 0 then a div b + 1 else a div b)"

text \<open>\<open>Ord::clamp\<close>; the calls of the model all have \<open>lo \<le> hi\<close>, where Rust does not panic.\<close>

definition clamp :: "'a::linorder \<Rightarrow> 'a \<Rightarrow> 'a \<Rightarrow> 'a" where
  "clamp lo hi x = (if x < lo then lo else if hi < x then hi else x)"

definition u32_try_from :: "u64 \<Rightarrow> u32 option" where
  "u32_try_from x = (if x < 2 ^ 32 then Some (ucast x) else None)"

lemma unat_max_word: "unat (- 1 :: 'a::len word) = 2 ^ LENGTH('a) - 1"
  by (simp add: unsigned_minus_1_eq_mask mask_eq_exp_minus_1)

lemma unat_less_2p: "unat (x :: 'a::len word) < 2 ^ LENGTH('a)"
  by (rule unsigned_less)

lemma checked_add_Some [rust_arith]:
  "checked_add a b = Some c \<longleftrightarrow> unat c = unat a + unat b" for a b c :: "'a::len word"
proof
  assume "checked_add a b = Some c"
  then show "unat c = unat a + unat b"
    by (auto simp: checked_add_def unat_word_ariths split: if_splits)
next
  assume eq: "unat c = unat a + unat b"
  then have lt: "unat a + unat b < 2 ^ LENGTH('a)"
    using unat_less_2p [of c] by simp
  then have "unat (a + b) = unat c"
    by (simp add: eq unat_word_ariths)
  with lt show "checked_add a b = Some c"
    by (simp add: checked_add_def word_unat_eq_iff)
qed

lemma checked_add_None [rust_arith]:
  "checked_add a b = None \<longleftrightarrow> 2 ^ LENGTH('a) \<le> unat a + unat b" for a b :: "'a::len word"
  by (auto simp: checked_add_def)

lemma checked_mul_Some [rust_arith]:
  "checked_mul a b = Some c \<longleftrightarrow> unat c = unat a * unat b" for a b c :: "'a::len word"
proof
  assume "checked_mul a b = Some c"
  then show "unat c = unat a * unat b"
    by (auto simp: checked_mul_def unat_word_ariths split: if_splits)
next
  assume eq: "unat c = unat a * unat b"
  then have lt: "unat a * unat b < 2 ^ LENGTH('a)"
    using unat_less_2p [of c] by simp
  then have "unat (a * b) = unat c"
    by (simp add: eq unat_word_ariths)
  with lt show "checked_mul a b = Some c"
    by (simp add: checked_mul_def word_unat_eq_iff)
qed

lemma checked_mul_None [rust_arith]:
  "checked_mul a b = None \<longleftrightarrow> 2 ^ LENGTH('a) \<le> unat a * unat b" for a b :: "'a::len word"
  by (auto simp: checked_mul_def)

lemma checked_sub_Some [rust_arith]:
  "checked_sub a b = Some c \<longleftrightarrow> unat b \<le> unat a \<and> unat c = unat a - unat b"
  by (auto simp: checked_sub_def word_le_nat_alt unat_sub word_unat_eq_iff)

lemma unat_saturating_add [rust_arith]:
  "unat (saturating_add a b) = min (unat a + unat b) (2 ^ LENGTH('a) - 1)" for a b :: "'a::len word"
proof (cases "checked_add a b")
  case None
  then have "2 ^ LENGTH('a) \<le> unat a + unat b" by (simp add: checked_add_None)
  then show ?thesis using None
    by (simp add: saturating_add_def unat_max_word)
next
  case (Some c)
  then have "unat c = unat a + unat b" by (simp add: checked_add_Some)
  moreover have "unat c < 2 ^ LENGTH('a)" by (rule unat_less_2p)
  ultimately show ?thesis using Some by (simp add: saturating_add_def)
qed

lemma unat_saturating_mul [rust_arith]:
  "unat (saturating_mul a b) = min (unat a * unat b) (2 ^ LENGTH('a) - 1)" for a b :: "'a::len word"
proof (cases "checked_mul a b")
  case None
  then have "2 ^ LENGTH('a) \<le> unat a * unat b" by (simp add: checked_mul_None)
  then show ?thesis using None
    by (simp add: saturating_mul_def unat_max_word)
next
  case (Some c)
  then have "unat c = unat a * unat b" by (simp add: checked_mul_Some)
  moreover have "unat c < 2 ^ LENGTH('a)" by (rule unat_less_2p)
  ultimately show ?thesis using Some by (simp add: saturating_mul_def)
qed

lemma unat_saturating_sub [rust_arith]: "unat (saturating_sub a b) = unat a - unat b"
  by (auto simp: saturating_sub_def word_le_nat_alt unat_sub)

text \<open>The ceiling of a quotient of naturals, kept folded in the proofs.\<close>

definition ceil_div :: "nat \<Rightarrow> nat \<Rightarrow> nat" where
  "ceil_div n c = (n + (c - 1)) div c"

lemma ceil_div_le_iff: "0 < b \<Longrightarrow> ceil_div a b \<le> k \<longleftrightarrow> a \<le> k * b"
proof -
  assume b: "0 < b"
  have "ceil_div a b \<le> k \<longleftrightarrow> (a + (b - 1)) div b < Suc k" by (simp only: ceil_div_def less_Suc_eq_le)
  also have "\<dots> \<longleftrightarrow> a + (b - 1) < Suc k * b" using b by (rule div_less_iff_less_mult)
  also have "\<dots> \<longleftrightarrow> a \<le> k * b" using b by auto
  finally show ?thesis .
qed

lemma ceil_div_0 [simp]: "ceil_div 0 c = 0"
  by (cases c) (simp_all add: ceil_div_def)

lemma ceil_div_eq_0 [simp]: "0 < c \<Longrightarrow> ceil_div n c = 0 \<longleftrightarrow> n = 0"
  using ceil_div_le_iff [of c n 0] by simp

lemma ceil_div_step: "0 < c \<Longrightarrow> c \<le> n \<Longrightarrow> ceil_div n c = Suc (ceil_div (n - c) c)"
proof -
  assume c: "0 < c" "c \<le> n"
  then have "n + (c - 1) = (n - c + (c - 1)) + c" by simp
  then show ?thesis using c by (simp only: ceil_div_def div_add_self2)
qed

lemma ceil_div_small: "0 < n \<Longrightarrow> n \<le> c \<Longrightarrow> ceil_div n c = 1"
  unfolding ceil_div_def by (rule div_nat_eqI) auto

lemma ceil_div_mono: "m \<le> n \<Longrightarrow> ceil_div m c \<le> ceil_div n c"
  by (simp add: ceil_div_def div_le_mono)

lemma ceil_div_covers: "0 < c \<Longrightarrow> n \<le> ceil_div n c * c"
  using ceil_div_le_iff [of c n "ceil_div n c"] by simp

lemma unat_div_ceil [rust_arith]:
  fixes a b :: "'a::len word"
  assumes "b \<noteq> 0"
  shows "unat (div_ceil a b) = ceil_div (unat a) (unat b)"
proof -
  have b: "0 < unat b" using assms by (simp add: unat_gt_0)
  define q r where "q = unat a div unat b" and "r = unat a mod unat b"
  have a: "unat a = q * unat b + r" by (simp add: q_def r_def)
  have r: "r < unat b" using b by (simp add: r_def)
  have mod_pos: "a mod b > 0 \<longleftrightarrow> 0 < r"
    by (simp add: word_less_nat_alt unat_mod r_def)
  have "q + 1 < 2 ^ LENGTH('a)" if "0 < r"
  proof -
    have "q * 1 \<le> q * unat b" using b by (intro mult_le_mono) auto
    then have "q + 1 \<le> unat a" using a that by linarith
    then show ?thesis using unat_less_2p [of a] by (rule le_less_trans)
  qed
  moreover have "q < 2 ^ LENGTH('a)"
    unfolding q_def using unat_less_2p [of a] by (rule le_less_trans [OF div_le_dividend])
  ultimately have lhs: "unat (div_ceil a b) = (if 0 < r then q + 1 else q)"
    by (simp add: div_ceil_def mod_pos unat_word_ariths q_def)
  have "(unat a + (unat b - 1)) div unat b = q + (r + (unat b - 1)) div unat b"
  proof -
    have "unat a + (unat b - 1) = (r + (unat b - 1)) + q * unat b"
      by (simp only: a ac_simps)
    then show ?thesis using b by (simp only: div_mult_self1 neq0_conv)
  qed
  also have "(r + (unat b - 1)) div unat b = (if 0 < r then 1 else 0)"
  proof (cases "0 < r")
    case True
    then have "unat b \<le> r + (unat b - 1)" "r + (unat b - 1) < 2 * unat b" using r by auto
    then show ?thesis using True b by (simp add: div_nat_eqI)
  next
    case False
    then show ?thesis using b by simp
  qed
  finally show ?thesis unfolding ceil_div_def by (simp add: lhs)
qed

lemma clamp_bounds: "lo \<le> hi \<Longrightarrow> lo \<le> clamp lo hi x \<and> clamp lo hi x \<le> hi"
  by (auto simp: clamp_def)

lemma clamp_id [simp]: "lo \<le> x \<Longrightarrow> x \<le> hi \<Longrightarrow> clamp lo hi x = x"
  by (auto simp: clamp_def)

lemma clamp_mono: "lo \<le> hi \<Longrightarrow> x \<le> y \<Longrightarrow> clamp lo hi x \<le> clamp lo hi y"
  by (auto simp: clamp_def)

lemma unat_clamp [rust_arith]: "unat (clamp lo hi x) = clamp (unat lo) (unat hi) (unat x)"
  by (simp add: clamp_def word_less_nat_alt)

lemma unat_min_word [rust_arith]: "unat (min a b) = min (unat a) (unat b)"
  by (simp add: min_def word_le_nat_alt)

lemma unat_max_of_words [rust_arith]: "unat (max a b) = max (unat a) (unat b)"
  by (simp add: max_def word_le_nat_alt)

lemma unat_ucast_up_32_64 [rust_arith]: "unat (ucast (x :: u32) :: u64) = unat x"
  proof -
  have "unat x < 2 ^ 64" using unat_less_2p [of x] by simp
  then show ?thesis by (simp add: unsigned_ucast_eq take_bit_nat_eq_self)
qed

lemma u32_try_from_Some [rust_arith]:
  "u32_try_from x = Some y \<longleftrightarrow> unat y = unat x"
proof
  assume "u32_try_from x = Some y"
  then have "unat x < 2 ^ 32" "y = ucast x"
    by (auto simp: u32_try_from_def word_less_nat_alt split: if_splits)
  then show "unat y = unat x" by (simp add: unsigned_ucast_eq take_bit_nat_eq_self)
next
  assume eq: "unat y = unat x"
  have "unat y < 2 ^ 32" using unat_less_2p [of y] by simp
  then have lt: "unat x < 2 ^ 32" using eq by simp
  then have "unat (ucast x :: u32) = unat y"
    by (simp add: eq unsigned_ucast_eq take_bit_nat_eq_self)
  with lt show "u32_try_from x = Some y"
    by (simp add: u32_try_from_def word_less_nat_alt word_unat_eq_iff)
qed

lemma u32_try_from_None [rust_arith]: "u32_try_from x = None \<longleftrightarrow> 2 ^ 32 \<le> unat x"
  by (simp add: u32_try_from_def word_less_nat_alt not_less)

lemma unat_of_nat_less: "n < 2 ^ LENGTH('a) \<Longrightarrow> unat (of_nat n :: 'a::len word) = n"
  by (simp add: unat_of_nat)

section \<open>Strings\<close>

text \<open>
  A Rust \<open>str\<close> is a list of Unicode scalar values; \<open>len\<close> and \<open>bytes\<close> read its UTF-8
  encoding, \<open>encode_utf16().count()\<close> its UTF-16 length and \<open>chars().count()\<close> its length as a
  list. ASCII literals are written with \<open>lit\<close>.
\<close>

type_synonym rstr = "nat list"

abbreviation lit :: "string \<Rightarrow> rstr" where "lit s \<equiv> map of_char s"

definition scalar :: "nat \<Rightarrow> bool" where
  "scalar c \<longleftrightarrow> c < 0xD800 \<or> (0xE000 \<le> c \<and> c < 0x110000)"

definition utf8_char :: "nat \<Rightarrow> u8 list" where
  "utf8_char c =
     (if c < 0x80 then [of_nat c]
      else if c < 0x800 then [of_nat (0xC0 + c div 64), of_nat (0x80 + c mod 64)]
      else if c < 0x10000
        then [of_nat (0xE0 + c div 4096), of_nat (0x80 + c div 64 mod 64), of_nat (0x80 + c mod 64)]
      else [of_nat (0xF0 + c div 262144), of_nat (0x80 + c div 4096 mod 64),
            of_nat (0x80 + c div 64 mod 64), of_nat (0x80 + c mod 64)])"

definition bytes :: "rstr \<Rightarrow> u8 list" where
  "bytes s = concat (map utf8_char s)"

definition str_len :: "rstr \<Rightarrow> nat" where
  "str_len s = length (bytes s)"

definition utf16_len :: "rstr \<Rightarrow> nat" where
  "utf16_len s = sum_list (map (\<lambda>c. if c < 0x10000 then 1 else 2) s)"

text \<open>\<open>std::str::from_utf8\<close>: the lead byte gives the width and the payload bits the scalar value;
  requiring that the value encodes to the very bytes read rejects overlong forms, surrogates and
  bad continuation bytes.\<close>

definition utf8_width :: "u8 \<Rightarrow> nat" where
  "utf8_width b = (if unat b < 0x80 then 1 else if unat b < 0xE0 then 2
                   else if unat b < 0xF0 then 3 else 4)"

definition utf8_value :: "u8 list \<Rightarrow> nat" where
  "utf8_value bs =
     (case bs of [] \<Rightarrow> 0
      | b # rest \<Rightarrow>
          foldl (\<lambda>acc x. acc * 64 + unat x mod 64)
            (unat b mod (if unat b < 0x80 then 128 else 2 ^ (7 - utf8_width b))) rest)"

definition utf8_next :: "u8 list \<Rightarrow> (nat \<times> u8 list) option" where
  "utf8_next bs =
     (case bs of [] \<Rightarrow> None
      | b # _ \<Rightarrow>
          let n = utf8_width b; c = utf8_value (take n bs) in
          if scalar c \<and> utf8_char c = take n bs then Some (c, drop n bs) else None)"

lemma utf8_next_shorter: "utf8_next bs = Some (c, rest) \<Longrightarrow> length rest < length bs"
  by (auto simp: utf8_next_def Let_def utf8_width_def split: list.splits if_splits)

function from_utf8 :: "u8 list \<Rightarrow> rstr option" where
  "from_utf8 bs =
     (if bs = [] then Some []
      else case utf8_next bs of None \<Rightarrow> None
           | Some (c, rest) \<Rightarrow> map_option (\<lambda>s. c # s) (from_utf8 rest))"
  by auto
termination by (relation "measure length") (auto dest: utf8_next_shorter)

declare from_utf8.simps [simp del]

definition ascii_digit :: "nat \<Rightarrow> bool" where
  "ascii_digit c \<longleftrightarrow> 48 \<le> c \<and> c \<le> 57"

definition ascii_upper :: "nat \<Rightarrow> bool" where
  "ascii_upper c \<longleftrightarrow> 65 \<le> c \<and> c \<le> 90"

definition ascii_lower :: "nat \<Rightarrow> bool" where
  "ascii_lower c \<longleftrightarrow> 97 \<le> c \<and> c \<le> 122"

definition ascii_alphanumeric :: "nat \<Rightarrow> bool" where
  "ascii_alphanumeric c \<longleftrightarrow> ascii_digit c \<or> ascii_upper c \<or> ascii_lower c"

definition ascii_hexdigit :: "nat \<Rightarrow> bool" where
  "ascii_hexdigit c \<longleftrightarrow> ascii_digit c \<or> (65 \<le> c \<and> c \<le> 70) \<or> (97 \<le> c \<and> c \<le> 102)"

definition to_ascii_uppercase :: "rstr \<Rightarrow> rstr" where
  "to_ascii_uppercase = map (\<lambda>c. if ascii_lower c then c - 32 else c)"

definition to_ascii_lowercase :: "rstr \<Rightarrow> rstr" where
  "to_ascii_lowercase = map (\<lambda>c. if ascii_upper c then c + 32 else c)"

text \<open>The Unicode property \<open>White_Space\<close>, as \<open>char::is_whitespace\<close> and \<open>str::trim\<close> use it.\<close>

definition is_whitespace :: "nat \<Rightarrow> bool" where
  "is_whitespace c \<longleftrightarrow> (9 \<le> c \<and> c \<le> 13) \<or> c = 32 \<or> c = 0x85 \<or> c = 0xA0 \<or> c = 0x1680 \<or>
     (0x2000 \<le> c \<and> c \<le> 0x200A) \<or> c = 0x2028 \<or> c = 0x2029 \<or> c = 0x202F \<or> c = 0x205F \<or> c = 0x3000"

text \<open>\<open>char::is_control\<close>: the general category \<open>Cc\<close>.\<close>

definition is_control :: "nat \<Rightarrow> bool" where
  "is_control c \<longleftrightarrow> c < 32 \<or> (127 \<le> c \<and> c < 160)"

definition trim_start_matches :: "(nat \<Rightarrow> bool) \<Rightarrow> rstr \<Rightarrow> rstr" where
  "trim_start_matches p s = dropWhile p s"

definition trim_end_matches :: "(nat \<Rightarrow> bool) \<Rightarrow> rstr \<Rightarrow> rstr" where
  "trim_end_matches p s = rev (dropWhile p (rev s))"

definition trim_matches :: "(nat \<Rightarrow> bool) \<Rightarrow> rstr \<Rightarrow> rstr" where
  "trim_matches p s = trim_end_matches p (trim_start_matches p s)"

definition trim :: "rstr \<Rightarrow> rstr" where
  "trim = trim_matches is_whitespace"

text \<open>\<open>split_once\<close> and \<open>rsplit_once\<close> for a one-character pattern, and the latter for a
  string pattern.\<close>

fun split_once :: "nat \<Rightarrow> rstr \<Rightarrow> (rstr \<times> rstr) option" where
  "split_once c [] = None"
| "split_once c (x # xs) =
     (if x = c then Some ([], xs)
      else map_option (\<lambda>(a, b). (x # a, b)) (split_once c xs))"

definition rsplit_once :: "nat \<Rightarrow> rstr \<Rightarrow> (rstr \<times> rstr) option" where
  "rsplit_once c s = map_option (\<lambda>(a, b). (rev b, rev a)) (split_once c (rev s))"

text \<open>\<open>str::split\<close> at a character, and \<open>eq_ignore_ascii_case\<close>.\<close>

fun split_char :: "nat \<Rightarrow> rstr \<Rightarrow> rstr list" where
  "split_char c [] = [[]]"
| "split_char c (x # xs) =
     (if x = c then [] # split_char c xs
      else case split_char c xs of [] \<Rightarrow> [[x]] | p # ps \<Rightarrow> (x # p) # ps)"

definition eq_ignore_ascii_case :: "rstr \<Rightarrow> rstr \<Rightarrow> bool" where
  "eq_ignore_ascii_case a b \<longleftrightarrow> to_ascii_lowercase a = to_ascii_lowercase b"

definition strip_prefix :: "rstr \<Rightarrow> rstr \<Rightarrow> rstr option" where
  "strip_prefix p s = (if take (length p) s = p then Some (drop (length p) s) else None)"

definition starts_with :: "'a list \<Rightarrow> 'a list \<Rightarrow> bool" where
  "starts_with s p \<longleftrightarrow> take (length p) s = p"

definition ends_with :: "'a list \<Rightarrow> 'a list \<Rightarrow> bool" where
  "ends_with s p \<longleftrightarrow> take (length p) (rev s) = rev p"

fun rsplit_once_str :: "rstr \<Rightarrow> rstr \<Rightarrow> (rstr \<times> rstr) option" where
  "rsplit_once_str p [] = (if p = [] then Some ([], []) else None)"
| "rsplit_once_str p (x # xs) =
     (case rsplit_once_str p xs of
        Some (a, b) \<Rightarrow> Some (x # a, b)
      | None \<Rightarrow> map_option (\<lambda>b. ([], b)) (strip_prefix p (x # xs)))"

fun contains :: "rstr \<Rightarrow> rstr \<Rightarrow> bool" where
  "contains [] p = (p = [])"
| "contains (x # xs) p = (starts_with (x # xs) p \<or> contains xs p)"

text \<open>Big-endian integers, \<open>to_be_bytes\<close> and \<open>from_be_bytes\<close>.\<close>

definition be32 :: "u32 \<Rightarrow> u8 list" where
  "be32 x = [ucast (drop_bit 24 x), ucast (drop_bit 16 x), ucast (drop_bit 8 x), ucast x]"

definition from_be :: "u8 list \<Rightarrow> 'a::len word" where
  "from_be = foldl (\<lambda>acc b. push_bit 8 acc + ucast b) 0"

definition be64 :: "u64 \<Rightarrow> u8 list" where
  "be64 x = be32 (ucast (drop_bit 32 x)) @ be32 (ucast x)"

lemma length_be [simp]: "length (be32 x) = 4" "length (be64 y) = 8"
  by (simp_all add: be32_def be64_def)

lemma utf8_char_not_Nil [simp]: "utf8_char c \<noteq> []"
  by (simp add: utf8_char_def)

lemma bytes_simps [simp]: "bytes [] = []" "bytes (c # s) = utf8_char c @ bytes s"
  "bytes (s @ t) = bytes s @ bytes t"
  by (simp_all add: bytes_def)

lemma bytes_eq_Nil [simp]: "bytes s = [] \<longleftrightarrow> s = []"
  by (cases s) simp_all

lemma str_len_0 [simp]: "str_len s = 0 \<longleftrightarrow> s = []"
  by (simp add: str_len_def)

text \<open>A byte below 128 comes only from an ASCII character, so a predicate that accepts only
  ASCII bytes sees the characters themselves.\<close>

lemma utf8_char_ascii:
  "c < 0x80 \<Longrightarrow> utf8_char c = [of_nat c]"
  by (simp add: utf8_char_def)

lemma unat_high_byte: "0x80 \<le> n \<Longrightarrow> n < 256 \<Longrightarrow> 0x80 \<le> unat (of_nat n :: u8)"
  by (simp add: unat_of_nat)

lemma utf8_char_high:
  assumes "scalar c" "\<not> c < 0x80" "b \<in> set (utf8_char c)"
  shows "0x80 \<le> unat b"
proof -
  have "0xF0 + c div 262144 < 256"
    using assms(1) by (auto simp: scalar_def)
  moreover have "0xE0 + c div 4096 < 256" if "c < 0x10000" using that by auto
  moreover have "0xC0 + c div 64 < 256" if "c < 0x800" using that by auto
  moreover have "0x80 + k mod 64 < 256" for k :: nat
    using mod_less_divisor [of 64 k] by linarith
  ultimately show ?thesis using assms(2,3)
    by (auto simp: utf8_char_def simp del: of_nat_add intro!: unat_high_byte split: if_splits)
qed

lemma bytes_ascii:
  assumes "\<forall>c \<in> set s. scalar c" "\<forall>b \<in> set (bytes s). unat b < 0x80"
  shows "bytes s = map of_nat s \<and> (\<forall>c \<in> set s. c < 0x80)"
  using assms
proof (induction s)
  case Nil
  then show ?case by simp
next
  case (Cons c s)
  have "c < 0x80"
  proof (rule ccontr)
    assume high: "\<not> c < 0x80"
    then obtain b where b: "b \<in> set (utf8_char c)"
      using utf8_char_not_Nil [of c] by (cases "utf8_char c") auto
    with high Cons.prems have "0x80 \<le> unat b"
      by (intro utf8_char_high [of c]) auto
    with b Cons.prems(2) show False by force
  qed
  with Cons show ?case by (simp add: utf8_char_ascii)
qed

text \<open>Decoding inverts encoding on every string of scalar values.\<close>

lemma utf8_lead:
  "0xC0 \<le> unat a \<Longrightarrow> unat a < 0xE0 \<Longrightarrow>
     utf8_width a = 2 \<and> utf8_value [a, b] = unat a mod 32 * 64 + unat b mod 64"
  "0xE0 \<le> unat a \<Longrightarrow> unat a < 0xF0 \<Longrightarrow>
     utf8_width a = 3 \<and>
     utf8_value [a, b, d] = (unat a mod 16 * 64 + unat b mod 64) * 64 + unat d mod 64"
  "0xF0 \<le> unat a \<Longrightarrow>
     utf8_width a = 4 \<and> utf8_value [a, b, d, e] =
       ((unat a mod 8 * 64 + unat b mod 64) * 64 + unat d mod 64) * 64 + unat e mod 64"
  by (simp_all add: utf8_width_def utf8_value_def)

lemma unat_utf8_cont: "unat (of_nat (0x80 + k mod 64) :: u8) mod 64 = k mod 64" for k :: nat
proof -
  have "unat (of_nat (0x80 + k mod 64) :: u8) = 0x80 + k mod 64"
    using mod_less_divisor [of 64 k] by (intro unat_of_nat_less) simp
  moreover have "(0x80 + k mod 64) mod 64 = k mod 64"
    using mod_add_left_eq [of 128 64 "k mod 64"] by simp
  ultimately show ?thesis by simp
qed

lemma unat_utf8_lead:
  "k < 32 \<Longrightarrow> unat (of_nat (0xC0 + k) :: u8) = 0xC0 + k"
  "k < 16 \<Longrightarrow> unat (of_nat (0xE0 + k) :: u8) = 0xE0 + k"
  "k < 8 \<Longrightarrow> unat (of_nat (0xF0 + k) :: u8) = 0xF0 + k"
  by (rule unat_of_nat_less, simp)+

lemma lead_mod: "k < 32 \<Longrightarrow> (0xC0 + k) mod 32 = k" "k < 16 \<Longrightarrow> (0xE0 + k) mod 16 = k"
  "k < 8 \<Longrightarrow> (0xF0 + k) mod 8 = (k :: nat)"
  using mod_add_left_eq [of 192 32 k] mod_add_left_eq [of 224 16 k] mod_add_left_eq [of 240 8 k]
  by simp_all

lemma nat_split64:
  "(c div 4096 * 64 + c div 64 mod 64) * 64 + c mod 64 = (c :: nat)"
  "((c div 262144 * 64 + c div 4096 mod 64) * 64 + c div 64 mod 64) * 64 + c mod 64 = c"
proof -
  have d: "c div 4096 = c div 64 div 64" "c div 262144 = c div 64 div 64 div 64"
    by (simp_all add: div_mult2_eq [symmetric])
  show "(c div 4096 * 64 + c div 64 mod 64) * 64 + c mod 64 = c"
    unfolding d by (simp only: div_mult_mod_eq)
  show "((c div 262144 * 64 + c div 4096 mod 64) * 64 + c div 64 mod 64) * 64 + c mod 64 = c"
    unfolding d by (simp only: div_mult_mod_eq)
qed

lemma utf8_value_char:
  assumes "scalar c" "0x80 \<le> c"
  shows "utf8_value (utf8_char c) = c \<and> utf8_width (hd (utf8_char c)) = length (utf8_char c)"
proof -
  have c: "c < 0x110000" using assms by (auto simp: scalar_def)
  consider "c < 0x800" | "0x800 \<le> c" "c < 0x10000" | "0x10000 \<le> c" by linarith
  then show ?thesis
  proof cases
    case 1
    then have lt: "c div 64 < 32" by (simp add: div_less_iff_less_mult)
    show ?thesis
      using 1 assms lt utf8_lead(1) [of "of_nat (0xC0 + c div 64)" "of_nat (0x80 + c mod 64)"]
      by (simp add: utf8_char_def unat_utf8_cont unat_utf8_lead lead_mod del: of_nat_add)
  next
    case 2
    then have lt: "c div 4096 < 16" by (simp add: div_less_iff_less_mult)
    show ?thesis
      using 2 assms lt nat_split64(1) [of c]
        utf8_lead(2) [of "of_nat (0xE0 + c div 4096)" "of_nat (0x80 + c div 64 mod 64)"
          "of_nat (0x80 + c mod 64)"]
      by (simp add: utf8_char_def unat_utf8_cont unat_utf8_lead lead_mod del: of_nat_add)
  next
    case 3
    then have lt: "c div 262144 < 8" using c by (simp add: div_less_iff_less_mult)
    show ?thesis
      using 3 assms lt nat_split64(2) [of c]
        utf8_lead(3) [of "of_nat (0xF0 + c div 262144)" "of_nat (0x80 + c div 4096 mod 64)"
          "of_nat (0x80 + c div 64 mod 64)" "of_nat (0x80 + c mod 64)"]
      by (simp add: utf8_char_def unat_utf8_cont unat_utf8_lead lead_mod del: of_nat_add)
  qed
qed

lemma utf8_next_encoded:
  assumes "scalar c"
  shows "utf8_next (utf8_char c @ rest) = Some (c, rest)"
proof (cases "c < 0x80")
  case True
  then have "unat (of_nat c :: u8) = c" by (intro unat_of_nat_less) simp
  then show ?thesis using True assms
    by (simp add: utf8_next_def utf8_char_def utf8_width_def utf8_value_def)
next
  case False
  obtain b bs where b: "utf8_char c = b # bs" by (cases "utf8_char c") auto
  have "utf8_value (utf8_char c) = c" "utf8_width b = length (b # bs)"
    using utf8_value_char [OF assms] False b by simp_all
  then show ?thesis using assms b by (simp add: utf8_next_def)
qed

lemma from_utf8_bytes [rust_str]: "list_all scalar s \<Longrightarrow> from_utf8 (bytes s) = Some s"
proof (induction s)
  case Nil
  then show ?case by (simp add: from_utf8.simps)
next
  case (Cons c s)
  then show ?case
    by (subst from_utf8.simps) (simp add: utf8_next_encoded)
qed

text \<open>The big-endian encodings are inverse to the decoder, and it to them on four bytes.\<close>

lemma unat_byte_of_u32: "unat (ucast (drop_bit k x) :: u8) = unat (x :: u32) div 2 ^ k mod 256"
  using unat_less_2p [of x]
  by (simp add: unsigned_ucast_eq unsigned_drop_bit_eq take_bit_nat_def drop_bit_nat_def)

lemma base256: "d < 256 \<Longrightarrow> (m * 256 + d) div 256 = m" "d < 256 \<Longrightarrow> (m * 256 + d) mod 256 = (d :: nat)"
  by simp_all

lemma div_pow256: "n div 2 ^ 8 = n div 256" "n div 2 ^ 16 = n div 256 div 256"
  "n div 2 ^ 24 = n div 256 div 256 div (256 :: nat)"
  by (simp_all add: div_mult2_eq [symmetric])

lemma nat_digits256:
  "(n :: nat) < 2 ^ 32 \<Longrightarrow>
     ((n div 2 ^ 24 mod 256 * 256 + n div 2 ^ 16 mod 256) * 256 + n div 2 ^ 8 mod 256) * 256
       + n mod 256 = n"
proof -
  assume "n < 2 ^ 32"
  then have "n div 256 div 256 div 256 < 256" by (simp add: div_less_iff_less_mult)
  then show ?thesis unfolding div_pow256 by (simp only: mod_less div_mult_mod_eq)
qed

lemma unat_shift_in:
  "unat acc < 2 ^ 24 \<Longrightarrow> unat (push_bit 8 (acc :: u32) + ucast (b :: u8)) = unat acc * 256 + unat b"
proof -
  assume "unat acc < 2 ^ 24"
  then have "unat acc * 256 < 2 ^ 32" by simp
  then have "unat (push_bit 8 acc) = unat acc * 256"
    by (simp add: unsigned_push_bit_eq push_bit_nat_def take_bit_nat_eq_self)
  moreover have "unat (ucast b :: u32) = unat b"
    using unat_less_2p [of b] by (simp add: unsigned_ucast_eq take_bit_nat_eq_self)
  moreover have "unat acc * 256 + unat b < 2 ^ 32"
    using \<open>unat acc < 2 ^ 24\<close> unat_less_2p [of b] by simp
  ultimately show ?thesis by (simp add: unat_word_ariths)
qed

lemma unat_from_be4:
  "unat (from_be [a, b, c, d] :: u32) = ((unat a * 256 + unat b) * 256 + unat c) * 256 + unat d"
proof -
  have "unat a < 256" "unat b < 256" "unat c < 256" "unat d < 256"
    using unat_less_2p [of a] unat_less_2p [of b] unat_less_2p [of c] unat_less_2p [of d] by simp_all
  moreover have "unat (ucast a :: u32) = unat a"
    using unat_less_2p [of a] by (simp add: unsigned_ucast_eq take_bit_nat_eq_self)
  ultimately show ?thesis
    by (simp add: from_be_def unat_shift_in)
qed

lemma from_be_be32 [simp]: "from_be (be32 x) = x"
proof -
  have "unat x < 2 ^ 32" using unat_less_2p [of x] by simp
  moreover have "unat (ucast x :: u8) = unat x mod 256"
    using unat_byte_of_u32 [of 0 x] by simp
  ultimately have "unat (from_be (be32 x) :: u32) = unat x"
    unfolding be32_def unat_from_be4 by (simp only: unat_byte_of_u32 nat_digits256)
  then show ?thesis by (simp add: word_unat_eq_iff)
qed

lemma be32_from_be:
  assumes "length bs = 4"
  shows "be32 (from_be bs) = bs"
proof -
  obtain a b c d where bs: "bs = [a, b, c, d]"
    using assms by (auto simp: length_Suc_conv numeral_eq_Suc)
  have lt: "unat a < 256" "unat b < 256" "unat c < 256" "unat d < 256"
    using unat_less_2p [of a] unat_less_2p [of b] unat_less_2p [of c] unat_less_2p [of d] by simp_all
  define n where "n = unat (from_be bs :: u32)"
  have n: "n = ((unat a * 256 + unat b) * 256 + unat c) * 256 + unat d"
    by (simp add: n_def bs unat_from_be4)
  have "n div 2 ^ 24 mod 256 = unat a" "n div 2 ^ 16 mod 256 = unat b"
    "n div 2 ^ 8 mod 256 = unat c" "n mod 256 = unat d"
    unfolding n div_pow256 using lt by (simp_all only: base256 mod_less)
  then show ?thesis
    using unat_byte_of_u32 [of 0 "from_be bs"]
    by (simp add: be32_def bs n_def word_unat_eq_iff unat_byte_of_u32)
qed

lemma be32_inj [simp]: "be32 x = be32 y \<longleftrightarrow> x = y"
  by (metis from_be_be32)

lemma be64_inj [simp]: "be64 x = be64 y \<longleftrightarrow> x = y"
proof
  assume "be64 x = be64 y"
  then have hi: "ucast (drop_bit 32 x) = (ucast (drop_bit 32 y) :: u32)"
    and lo: "ucast x = (ucast y :: u32)"
    by (simp_all add: be64_def)
  have split: "unat z = unat (ucast (drop_bit 32 z) :: u32) * 2 ^ 32 + unat (ucast z :: u32)"
    for z :: u64
  proof -
    have "unat z div 2 ^ 32 < 2 ^ 32"
      using unat_less_2p [of z] by (simp add: div_less_iff_less_mult)
    then show ?thesis
      by (simp add: unsigned_ucast_eq unsigned_drop_bit_eq take_bit_nat_def drop_bit_nat_def)
  qed
  from split [of x] split [of y] hi lo show "x = y"
    by (simp add: word_unat_eq_iff)
qed simp

section \<open>Interfaces shared by the components\<close>

text \<open>
  A component whose operations move between states: every operation keeps the invariant, so
  every run from an initial state satisfies it. Operations that fail leave the state alone and
  are steps too.
\<close>

locale guarded_machine =
  fixes inv :: "'s \<Rightarrow> bool"
    and step :: "'s \<Rightarrow> 'op \<Rightarrow> 's"
  assumes step_inv: "inv s \<Longrightarrow> inv (step s op)"
begin

lemma foldl_inv: "inv s \<Longrightarrow> inv (foldl step s ops)"
  by (induction ops arbitrary: s) (simp_all add: step_inv)

lemma foldl_mono:
  fixes f :: "'s \<Rightarrow> 'b::preorder"
  assumes "inv s" and "\<And>s op. inv s \<Longrightarrow> f s \<le> f (step s op)"
  shows "f s \<le> f (foldl step s ops)"
  using assms(1)
proof (induction ops arbitrary: s)
  case Nil
  then show ?case by simp
next
  case (Cons op ops)
  have "f s \<le> f (step s op)" using Cons.prems by (rule assms(2))
  also have "\<dots> \<le> f (foldl step (step s op) ops)"
    using Cons.prems by (intro Cons.IH step_inv)
  finally show ?case by simp
qed

end

text \<open>A component that drives another: each of its steps is a step of the other or does nothing,
  so its runs are runs of the other.\<close>

locale step_refinement =
  fixes concrete :: "'s \<Rightarrow> 'c \<Rightarrow> 's" and abstract :: "'s \<Rightarrow> 'a \<Rightarrow> 's"
  assumes refines: "concrete s c = s \<or> (\<exists>op. concrete s c = abstract s op)"
begin

lemma run_refines: "\<exists>ops. foldl concrete s cs = foldl abstract s ops \<and> length ops \<le> length cs"
proof (induction cs arbitrary: s)
  case (Cons c cs)
  obtain ops where ops: "foldl concrete (concrete s c) cs = foldl abstract (concrete s c) ops"
      "length ops \<le> length cs"
    using Cons.IH by blast
  from refines [of s c] show ?case
  proof
    assume "concrete s c = s"
    then show ?thesis using ops by (intro exI [of _ ops]) simp
  next
    assume "\<exists>op. concrete s c = abstract s op"
    then obtain op where "concrete s c = abstract s op" by blast
    then show ?thesis using ops by (intro exI [of _ "op # ops"]) simp
  qed
qed simp

end

text \<open>
  An encoder with a checking decoder: what the encoder accepts decodes to itself, and what the
  decoder accepts is the encoding of its result. The consequences are proved once.
\<close>

locale partial_codec =
  fixes enc :: "'a \<Rightarrow> ('b, 'e) result"
    and dec :: "'b \<Rightarrow> ('a, 'f) result"
  assumes dec_enc: "enc x = Inr b \<Longrightarrow> dec b = Inr x"
    and enc_dec: "dec b = Inr x \<Longrightarrow> enc x = Inr b"
begin

lemma enc_inj: "enc x = Inr b \<Longrightarrow> enc y = Inr b \<Longrightarrow> x = y"
  using dec_enc [of x b] dec_enc [of y b] by simp

lemma dec_inj: "dec a = Inr x \<Longrightarrow> dec b = Inr x \<Longrightarrow> a = b"
  using enc_dec [of a x] enc_dec [of b x] by simp

lemma dec_iff: "dec b = Inr x \<longleftrightarrow> enc x = Inr b"
  using dec_enc enc_dec by blast

end

end
