(* ===== verification/Ice.thy ===== *)
theory Ice
  imports Beam_Prelude
begin

text \<open>
  ICE policy and session descriptions: \<open>crates/transfer-native/src/ice.rs\<close> (the per-transfer
  override of the server's ICE servers, with credentials from host storage) and the validation
  of descriptions, ICE servers and data channels in \<open>webrtc.rs\<close>. The credential resolver is a
  host callback and stays a parameter. Shown: an accepted policy contains the servers it says
  and no TURN server without credentials, and relay-only mode keeps exactly the UDP TURN URLs.
\<close>

section \<open>Policy\<close>

record ice_server =
  ice_urls :: "rstr list"
  ice_username :: "rstr option"
  ice_password :: "rstr option"

datatype ice_source = SourceServer | SourceMerge | SourceReplace

record configured_ice_server =
  conf_url :: rstr
  conf_credential_ref :: "rstr option"

record ice_credential =
  cred_username :: rstr
  cred_password :: rstr

type_synonym credential_resolver = "rstr \<Rightarrow> (ice_credential, string) result"

record ice_override =
  ov_source :: ice_source
  ov_servers :: "configured_ice_server list"
  ov_resolver :: "credential_resolver option"

definition override_new :: "ice_source \<Rightarrow> configured_ice_server list \<Rightarrow> ice_override" where
  "override_new source servers = \<lparr>ov_source = source, ov_servers = servers, ov_resolver = None\<rparr>"

definition with_credential_resolver :: "credential_resolver \<Rightarrow> ice_override \<Rightarrow> ice_override" where
  "with_credential_resolver resolver o' = o'\<lparr>ov_resolver := Some resolver\<rparr>"

definition ice_scheme :: "rstr \<Rightarrow> bool" where
  "ice_scheme scheme \<longleftrightarrow>
     to_ascii_lowercase scheme \<in> {lit ''stun'', lit ''stuns'', lit ''turn'', lit ''turns''}"

definition turn_scheme :: "rstr \<Rightarrow> bool" where
  "turn_scheme scheme \<longleftrightarrow> to_ascii_lowercase scheme \<in> {lit ''turn'', lit ''turns''}"

text \<open>The host of \<open>authority.trim_start_matches('/')\<close>: the first piece of the split at
  \<open>/\<close>, \<open>?\<close> and \<open>:\<close>, which always exists.\<close>

definition authority_host :: "rstr \<Rightarrow> rstr" where
  "authority_host authority =
     takeWhile (\<lambda>c. c \<notin> set (lit ''/?:'')) (trim_start_matches (\<lambda>c. c = of_char (CHR ''/'')) authority)"

definition ice_credential_of ::
  "credential_resolver option \<Rightarrow> rstr option \<Rightarrow> bool \<Rightarrow> (ice_credential option, string) result" where
  "ice_credential_of resolver credential_ref is_turn =
     (case credential_ref of
        Some reference \<Rightarrow>
          if trim reference = [] then Err ''configured ICE credential_ref must not be empty''
          else
            and_then (ok_or ''configured ICE credential_ref requires a host credential resolver'' resolver)
              (\<lambda>resolve. and_then (resolve reference) (\<lambda>cred. Ok (Some cred)))
      | None \<Rightarrow>
          if is_turn then Err ''configured TURN ICE server requires credential_ref'' else Ok None)"

definition resolve_configured ::
  "credential_resolver option \<Rightarrow> configured_ice_server \<Rightarrow> (ice_server, string) result" where
  "resolve_configured resolver configured =
     and_then (ok_or ''configured ICE URL is invalid''
                 (split_once (of_char (CHR '':'')) (conf_url configured))) (\<lambda>(scheme, authority).
     if \<not> ice_scheme scheme \<or> authority_host authority = []
     then Err ''configured ICE URL must use stun, stuns, turn, or turns with a host''
     else
       and_then (ice_credential_of resolver (conf_credential_ref configured) (turn_scheme scheme))
         (\<lambda>cred. Ok \<lparr>ice_urls = [conf_url configured],
                      ice_username = map_option cred_username cred,
                      ice_password = map_option cred_password cred\<rparr>))"

fun resolve_all ::
  "credential_resolver option \<Rightarrow> configured_ice_server list \<Rightarrow> ice_server list
     \<Rightarrow> (ice_server list, string) result" where
  "resolve_all resolver [] servers = Ok servers"
| "resolve_all resolver (configured # rest) servers =
     and_then (resolve_configured resolver configured) (\<lambda>s.
       resolve_all resolver rest (servers @ [s]))"

definition ice_resolve :: "ice_override \<Rightarrow> ice_server list \<Rightarrow> (ice_server list, string) result" where
  "ice_resolve policy server_servers =
     (case ov_source policy of
        SourceServer \<Rightarrow> Ok server_servers
      | SourceMerge \<Rightarrow> resolve_all (ov_resolver policy) (ov_servers policy) server_servers
      | SourceReplace \<Rightarrow> resolve_all (ov_resolver policy) (ov_servers policy) [])"

section \<open>Relay-only filtering\<close>

record rtc_ice_server =
  rtc_urls :: "rstr list"
  rtc_username :: rstr
  rtc_credential :: rstr

definition is_turn_udp_url :: "rstr \<Rightarrow> bool" where
  "is_turn_udp_url url =
     (case split_once (of_char (CHR '':'')) url of
        None \<Rightarrow> False
      | Some (scheme, remainder) \<Rightarrow>
          if \<not> eq_ignore_ascii_case scheme (lit ''turn'') then False
          else case split_once (of_char (CHR ''?'')) remainder of
                 None \<Rightarrow> True
               | Some (_, query) \<Rightarrow>
                   list_all (\<lambda>parameter.
                     case split_once (of_char (CHR ''='')) parameter of
                       None \<Rightarrow> True
                     | Some (name, v) \<Rightarrow>
                         \<not> eq_ignore_ascii_case name (lit ''transport'')
                         \<or> eq_ignore_ascii_case v (lit ''udp''))
                     (split_char (of_char (CHR ''&'')) query))"

definition usable_urls :: "bool \<Rightarrow> ice_server \<Rightarrow> rstr list" where
  "usable_urls relay_only server =
     (if relay_only then filter is_turn_udp_url (ice_urls server) else ice_urls server)"

text \<open>The closure of the \<open>filter_map\<close>: no entry for a server without usable URLs.\<close>

definition rtc_entry :: "bool \<Rightarrow> ice_server \<Rightarrow> rtc_ice_server list" where
  "rtc_entry relay_only server =
     (let urls = usable_urls relay_only server in
      if urls \<noteq> []
      then [\<lparr>rtc_urls = urls,
             rtc_username = (case ice_username server of None \<Rightarrow> [] | Some u \<Rightarrow> u),
             rtc_credential = (case ice_password server of None \<Rightarrow> [] | Some c \<Rightarrow> c)\<rparr>]
      else [])"

definition rtc_ice_servers :: "ice_server list \<Rightarrow> bool \<Rightarrow> (rtc_ice_server list, string) result" where
  "rtc_ice_servers servers relay_only =
     (let usable_turn_urls = sum_list (map (\<lambda>s. length (usable_urls relay_only s)) servers) in
      if relay_only \<and> usable_turn_urls = 0
      then Err ''WebRTC relay-only requires a turn: UDP ICE URL; webrtc 0.20.5 does not support TURN over TCP or TLS''
      else Ok (concat (map (rtc_entry relay_only) servers)))"

section \<open>Descriptions and channels\<close>

record description =
  desc_kind :: rstr
  desc_sdp :: rstr

definition sdp_byte :: "u8 \<Rightarrow> bool" where
  "sdp_byte b \<longleftrightarrow> b = 9 \<or> b = 10 \<or> b = 13 \<or> (32 \<le> b \<and> b \<le> 126)"

datatype description_error = InvalidSdp rstr | NoCandidates rstr

definition description_validate :: "description \<Rightarrow> rstr \<Rightarrow> (unit, description_error) result" where
  "description_validate d kind =
     (if desc_kind d \<noteq> kind \<or> desc_sdp d = [] \<or> 65536 < str_len (desc_sdp d)
         \<or> \<not> list_all sdp_byte (bytes (desc_sdp d))
        then Err (InvalidSdp kind)
      else if \<not> contains (desc_sdp d) (lit ''a=candidate:'') then Err (NoCandidates kind)
      else Ok ())"

record channel_info =
  chan_label :: rstr
  chan_ordered :: bool
  chan_max_retransmits :: "u16 option"
  chan_max_packet_life_time :: "u16 option"
  chan_negotiated :: bool

definition validate_channel :: "channel_info \<Rightarrow> (unit, string) result" where
  "validate_channel c =
     (if chan_label c \<noteq> lit ''filebeam'' then Err ''unexpected WebRTC data channel label''
      else if \<not> chan_ordered c \<or> chan_max_retransmits c \<noteq> None
              \<or> chan_max_packet_life_time c \<noteq> None \<or> chan_negotiated c
        then Err ''WebRTC data channel must be reliable, ordered, and in-band''
      else Ok ())"

section \<open>Results\<close>

lemma resolve_configured_Ok:
  assumes "resolve_configured resolver c = Inr s"
  shows "ice_urls s = [conf_url c]
    \<and> (case split_once (of_char (CHR '':'')) (conf_url c) of
         None \<Rightarrow> False
       | Some (scheme, authority) \<Rightarrow>
           ice_scheme scheme \<and> authority_host authority \<noteq> []
           \<and> (if turn_scheme scheme then ice_username s \<noteq> None \<and> ice_password s \<noteq> None else True))"
  using assms
  by (auto simp: resolve_configured_def ice_credential_of_def split: if_splits option.splits)

lemma resolve_all_Ok:
  "resolve_all resolver confs servers = Inr out \<longleftrightarrow>
     (\<exists>rs. out = servers @ rs \<and> list_all2 (\<lambda>c s. resolve_configured resolver c = Inr s) confs rs)"
  by (induction resolver confs servers rule: resolve_all.induct) (auto simp: list_all2_Cons1)

text \<open>The servers a policy starts from, before its configured servers.\<close>

fun base_servers :: "ice_source \<Rightarrow> ice_server list \<Rightarrow> ice_server list" where
  "base_servers SourceReplace servers = []"
| "base_servers _ servers = servers"

definition extra_servers :: "ice_override \<Rightarrow> configured_ice_server list" where
  "extra_servers policy = (if ov_source policy = SourceServer then [] else ov_servers policy)"

text \<open>A resolved ICE policy is the server's list (dropped under \<open>Replace\<close>) followed by one
  entry per configured server in order (none under \<open>Server\<close>). Every configured entry keeps its
  URL, has an ICE scheme and a host, and a TURN entry always carries a user name and a
  password.\<close>

theorem ice_policy_resolution:
  "case ice_resolve policy server_servers of
     Inl _ \<Rightarrow> True
   | Inr out \<Rightarrow>
       \<exists>own. out = base_servers (ov_source policy) server_servers @ own
         \<and> list_all2 (\<lambda>c s.
             ice_urls s = [conf_url c]
             \<and> (case split_once (of_char (CHR '':'')) (conf_url c) of
                  None \<Rightarrow> False
                | Some (scheme, authority) \<Rightarrow>
                    ice_scheme scheme \<and> authority_host authority \<noteq> []
                    \<and> (if turn_scheme scheme then ice_username s \<noteq> None \<and> ice_password s \<noteq> None
                       else True)))
             (extra_servers policy) own"
proof (cases "ice_resolve policy server_servers")
  case (Inr out)
  then obtain own where "out = base_servers (ov_source policy) server_servers @ own"
    "list_all2 (\<lambda>c s. resolve_configured (ov_resolver policy) c = Inr s) (extra_servers policy) own"
    by (cases "ov_source policy") (auto simp: ice_resolve_def extra_servers_def resolve_all_Ok)
  then show ?thesis using Inr
    by (auto elim!: list_all2_mono dest: resolve_configured_Ok)
qed simp

lemma sum_list_0_iff: "sum_list (map f xs) = (0 :: nat) \<longleftrightarrow> (\<forall>x \<in> set xs. f x = 0)"
  by (induction xs) auto

text \<open>Relay-only mode never hands the WebRTC stack a URL it would relay over TCP or TLS: every
  server it keeps has URLs and all of them are UDP TURN URLs of the input, no usable URL is lost,
  and if there is none it fails instead of connecting without a relay.\<close>

theorem relay_only_uses_udp_turn:
  "case rtc_ice_servers servers True of
     Inl _ \<Rightarrow> concat (map (\<lambda>s. filter is_turn_udp_url (ice_urls s)) servers) = []
   | Inr out \<Rightarrow>
       out \<noteq> [] \<and> list_all (\<lambda>s. rtc_urls s \<noteq> [] \<and> list_all is_turn_udp_url (rtc_urls s)) out
       \<and> concat (map rtc_urls out)
           = concat (map (\<lambda>s. filter is_turn_udp_url (ice_urls s)) servers)"
proof -
  have "concat (map rtc_urls (rtc_entry True s)) = filter is_turn_udp_url (ice_urls s)" for s
    by (simp add: rtc_entry_def usable_urls_def Let_def)
  then have all: "concat (map rtc_urls (concat (map (rtc_entry True) ss)))
      = concat (map (\<lambda>s. filter is_turn_udp_url (ice_urls s)) ss)" for ss
    by (induction ss) simp_all
  have "list_all (\<lambda>s. rtc_urls s \<noteq> [] \<and> list_all is_turn_udp_url (rtc_urls s)) (rtc_entry True s)" for s
    by (auto simp: rtc_entry_def usable_urls_def Let_def list_all_iff)
  then have good: "list_all (\<lambda>s. rtc_urls s \<noteq> [] \<and> list_all is_turn_udp_url (rtc_urls s))
      (concat (map (rtc_entry True) ss))" for ss
    by (induction ss) simp_all
  have "concat (map (rtc_entry True) servers) \<noteq> []"
    if "sum_list (map (\<lambda>s. length (usable_urls True s)) servers) \<noteq> 0"
    using that by (auto simp: sum_list_0_iff rtc_entry_def Let_def)
  then show ?thesis using all [of servers] good [of servers]
    by (auto simp: rtc_ice_servers_def Let_def sum_list_0_iff usable_urls_def)
qed

end
