(* ===== verification/F64.thy ===== *)
theory F64
  imports Complex_Main "HOL-Library.Log_Nat" Beam_Prelude
begin

text \<open>
  The 64-bit floating point numbers of Rust as the transfer policy uses them: finite values are
  the rationals they denote, and every arithmetic result is rounded to the nearest
  representable value, ties to even, with 53 bits of precision, gradual underflow below
  \<open>2 ^ -1022\<close> and overflow to infinity. The two zeros are one value: the policy divides only
  by values it has found positive and never inspects the sign of a zero. The lemmas show that
  rounding is monotone and exact on the integers up to \<open>2 ^ 53\<close> and on powers of two; this is
  what the bounds of the sizing decisions rest on.
\<close>

section \<open>Values and rounding\<close>

datatype f64 = NaN | PInf | NInf | Fin rat

definition pow2 :: "int \<Rightarrow> rat" where
  "pow2 n = power_int 2 n"

text \<open>Round to the nearest integer, ties to even.\<close>

definition rne :: "rat \<Rightarrow> int" where
  "rne x = (let f = \<lfloor>x\<rfloor>; d = x - of_int f in
     if d < 1 / 2 then f else if 1 / 2 < d then f + 1 else if even f then f else f + 1)"

text \<open>The binary exponent of a positive rational, \<open>2 ^ e \<le> x < 2 ^ (e + 1)\<close>.\<close>

definition ilog2 :: "rat \<Rightarrow> int" where
  "ilog2 x = (let (p, q) = quotient_of x; e = bitlen p - bitlen q in
     if pow2 e \<le> x then e else e - 1)"

definition ulp_exp :: "rat \<Rightarrow> int" where
  "ulp_exp x = max (ilog2 x - 52) (- 1074)"

definition round_pos :: "rat \<Rightarrow> rat" where
  "round_pos x = of_int (rne (x / pow2 (ulp_exp x))) * pow2 (ulp_exp x)"

definition rnd :: "rat \<Rightarrow> f64" where
  "rnd x =
     (if x = 0 then Fin 0
      else if 0 < x then (if round_pos x < pow2 1024 then Fin (round_pos x) else PInf)
      else (if round_pos (- x) < pow2 1024 then Fin (- round_pos (- x)) else NInf))"

section \<open>Operations\<close>

fun is_finite :: "f64 \<Rightarrow> bool" where
  "is_finite (Fin x) = True"
| "is_finite _ = False"

fun fmul :: "f64 \<Rightarrow> f64 \<Rightarrow> f64" where
  "fmul (Fin x) (Fin y) = rnd (x * y)"
| "fmul NaN _ = NaN"
| "fmul _ NaN = NaN"
| "fmul (Fin x) PInf = (if x = 0 then NaN else if 0 < x then PInf else NInf)"
| "fmul (Fin x) NInf = (if x = 0 then NaN else if 0 < x then NInf else PInf)"
| "fmul PInf (Fin x) = (if x = 0 then NaN else if 0 < x then PInf else NInf)"
| "fmul NInf (Fin x) = (if x = 0 then NaN else if 0 < x then NInf else PInf)"
| "fmul PInf PInf = PInf"
| "fmul PInf NInf = NInf"
| "fmul NInf PInf = NInf"
| "fmul NInf NInf = PInf"

fun fadd :: "f64 \<Rightarrow> f64 \<Rightarrow> f64" where
  "fadd (Fin x) (Fin y) = rnd (x + y)"
| "fadd NaN _ = NaN"
| "fadd _ NaN = NaN"
| "fadd PInf NInf = NaN"
| "fadd NInf PInf = NaN"
| "fadd PInf _ = PInf"
| "fadd _ PInf = PInf"
| "fadd NInf _ = NInf"
| "fadd _ NInf = NInf"

fun fdiv :: "f64 \<Rightarrow> f64 \<Rightarrow> f64" where
  "fdiv (Fin x) (Fin y) =
     (if y = 0 then (if x = 0 then NaN else if 0 < x then PInf else NInf) else rnd (x / y))"
| "fdiv NaN _ = NaN"
| "fdiv _ NaN = NaN"
| "fdiv (Fin x) PInf = Fin 0"
| "fdiv (Fin x) NInf = Fin 0"
| "fdiv PInf (Fin y) = (if 0 \<le> y then PInf else NInf)"
| "fdiv NInf (Fin y) = (if 0 \<le> y then NInf else PInf)"
| "fdiv _ _ = NaN"

text \<open>Comparisons are false when an operand is not a number.\<close>

fun flt :: "f64 \<Rightarrow> f64 \<Rightarrow> bool" where
  "flt (Fin x) (Fin y) = (x < y)"
| "flt NaN _ = False"
| "flt _ NaN = False"
| "flt NInf NInf = False"
| "flt NInf _ = True"
| "flt _ PInf = True"
| "flt PInf _ = False"
| "flt _ NInf = False"

fun fle :: "f64 \<Rightarrow> f64 \<Rightarrow> bool" where
  "fle NaN _ = False"
| "fle _ NaN = False"
| "fle x y = (\<not> flt y x)"

fun ffloor :: "f64 \<Rightarrow> f64" where
  "ffloor (Fin x) = Fin (of_int \<lfloor>x\<rfloor>)"
| "ffloor x = x"

definition fclamp :: "f64 \<Rightarrow> f64 \<Rightarrow> f64 \<Rightarrow> f64" where
  "fclamp lo hi x = (if flt x lo then lo else if flt hi x then hi else x)"

text \<open>\<open>as f64\<close> rounds, \<open>as u64\<close> truncates and saturates and sends \<open>NaN\<close> to 0.\<close>

definition f64_of_u64 :: "u64 \<Rightarrow> f64" where
  "f64_of_u64 w = rnd (of_nat (unat w))"

fun u64_of_f64 :: "f64 \<Rightarrow> u64" where
  "u64_of_f64 (Fin x) = (if x < 0 then 0 else if 2 ^ 64 \<le> x then - 1 else of_int \<lfloor>x\<rfloor>)"
| "u64_of_f64 PInf = - 1"
| "u64_of_f64 NInf = 0"
| "u64_of_f64 NaN = 0"

text \<open>\<open>value.fract() != 0.0\<close>: the value is not an integer; \<open>NaN\<close> and the infinities have the
  fractional part \<open>NaN\<close>, which differs from zero.\<close>

fun has_fract :: "f64 \<Rightarrow> bool" where
  "has_fract (Fin x) = (x \<noteq> of_int \<lfloor>x\<rfloor>)"
| "has_fract _ = True"

section \<open>Powers of two and the exponent\<close>

lemma pow2_pos [simp]: "0 < pow2 n"
  by (simp add: pow2_def)

lemma pow2_add: "pow2 (m + n) = pow2 m * pow2 n"
  by (simp add: pow2_def power_int_add)

lemma pow2_nat: "pow2 (int n) = 2 ^ n"
  by (simp add: pow2_def)

lemma pow2_0 [simp]: "pow2 0 = 1"
  by (simp add: pow2_def)

lemma pow2_1: "pow2 1 = 2"
  by (simp add: pow2_def)

lemma pow2_mono: "m \<le> n \<Longrightarrow> pow2 m \<le> pow2 n"
  by (simp add: pow2_def power_int_increasing)

lemma pow2_strict_mono: "m < n \<Longrightarrow> pow2 m < pow2 n"
  by (simp add: pow2_def power_int_strict_increasing)

lemma pow2_diff: "pow2 (m - n) = pow2 m / pow2 n"
  by (simp add: pow2_def power_int_diff)

lemma pow2_less_iff: "pow2 m < pow2 n \<longleftrightarrow> m < n"
  by (meson linorder_not_less pow2_mono pow2_strict_mono)

lemma pow2_div_int: "n \<le> m \<Longrightarrow> pow2 m / pow2 n = of_int (2 ^ nat (m - n))"
  by (simp add: pow2_diff [symmetric]) (metis int_nat_eq diff_ge_0_iff_ge pow2_nat of_int_numeral of_int_power)

lemma bitlen_pow2_bounds:
  assumes "0 < x"
  shows "pow2 (bitlen x - 1) \<le> of_int x \<and> of_int x < pow2 (bitlen x)"
proof -
  have pos: "1 \<le> bitlen x"
    using assms bitlen_eq_zero_iff [of x] bitlen_nonneg [of x] by linarith
  have "pow2 (bitlen x - 1) = of_int (2 ^ nat (bitlen x - 1))"
    "pow2 (bitlen x) = of_int (2 ^ nat (bitlen x))"
    using pow2_div_int [of 0 "bitlen x - 1"] pow2_div_int [of 0 "bitlen x"] pos by simp_all
  then show ?thesis using bitlen_bounds [OF assms] by (simp only: of_int_le_iff of_int_less_iff)
qed

lemma ilog2_bounds:
  assumes "0 < x"
  shows "pow2 (ilog2 x) \<le> x \<and> x < pow2 (ilog2 x + 1)"
proof -
  obtain p q where pq: "quotient_of x = (p, q)" by (cases "quotient_of x")
  have q: "0 < q" using pq by (rule quotient_of_denom_pos)
  have x: "x = of_int p / of_int q" using pq by (rule quotient_of_div)
  have p: "0 < p" using assms x q by (simp add: zero_less_divide_iff)
  define e where "e = bitlen p - bitlen q"
  note P = bitlen_pow2_bounds [OF p] and Q = bitlen_pow2_bounds [OF q]
  have qpos: "(0 :: rat) < of_int q" using q by simp
  have "of_int p / of_int q < pow2 (bitlen p) / pow2 (bitlen q - 1)"
    using P Q qpos by (intro frac_less) (auto simp: less_imp_le p)
  also have "\<dots> = pow2 (e + 1)"
    by (simp add: pow2_diff [symmetric] e_def algebra_simps)
  finally have up: "x < pow2 (e + 1)" by (simp add: x)
  have "pow2 (e - 1) = pow2 (bitlen p - 1) / pow2 (bitlen q)"
    by (simp add: pow2_diff [symmetric] e_def algebra_simps)
  also have "\<dots> \<le> of_int p / of_int q"
    using P Q qpos by (intro frac_le) (auto simp: less_imp_le p)
  finally have lo: "pow2 (e - 1) \<le> x" by (simp add: x)
  show ?thesis using up lo by (auto simp: ilog2_def pq e_def [symmetric] not_le)
qed

lemma ilog2_unique: "pow2 e \<le> x \<Longrightarrow> x < pow2 (e + 1) \<Longrightarrow> ilog2 x = e"
proof -
  assume e: "pow2 e \<le> x" "x < pow2 (e + 1)"
  then have "0 < x" using pow2_pos [of e] by linarith
  note b = ilog2_bounds [OF this]
  have "pow2 e < pow2 (ilog2 x + 1)" "pow2 (ilog2 x) < pow2 (e + 1)" using e b by linarith+
  then show ?thesis by (simp add: pow2_less_iff)
qed

lemma ilog2_mono: "0 < x \<Longrightarrow> x \<le> y \<Longrightarrow> ilog2 x \<le> ilog2 y"
proof -
  assume "0 < x" "x \<le> y"
  then have "pow2 (ilog2 x) < pow2 (ilog2 y + 1)"
    using ilog2_bounds [of x] ilog2_bounds [of y] by linarith
  then show ?thesis by (simp add: pow2_less_iff)
qed

section \<open>Rounding is monotone and exact on small integers\<close>

lemma rne_mono: "x \<le> y \<Longrightarrow> rne x \<le> rne y"
proof -
  assume le: "x \<le> y"
  then have f: "\<lfloor>x\<rfloor> \<le> \<lfloor>y\<rfloor>" by (rule floor_mono)
  have bounds: "\<lfloor>z\<rfloor> \<le> rne z \<and> rne z \<le> \<lfloor>z\<rfloor> + 1" for z
    by (simp add: rne_def Let_def)
  show ?thesis
  proof (cases "\<lfloor>x\<rfloor> = \<lfloor>y\<rfloor>")
    case True
    then show ?thesis using le by (simp add: rne_def Let_def)
  next
    case False
    then show ?thesis using f bounds [of x] bounds [of y] by linarith
  qed
qed

lemma rne_of_int [simp]: "rne (of_int k) = k"
  by (simp add: rne_def)

lemma rne_nonneg: "0 \<le> x \<Longrightarrow> 0 \<le> rne x"
  using rne_mono [of 0 x] rne_of_int [of 0] by simp

lemma round_pos_nonneg: "0 < x \<Longrightarrow> 0 \<le> round_pos x"
  by (simp add: round_pos_def rne_nonneg less_imp_le)

text \<open>A multiple of a power of two, at or above the unit in the last place, is a fixed point.\<close>

lemma round_pos_fixed:
  assumes "0 < x" and "x = of_int k * pow2 n" and "ulp_exp x \<le> n"
  shows "round_pos x = x"
proof -
  have "x / pow2 (ulp_exp x) = of_int k * (pow2 n / pow2 (ulp_exp x))"
    using assms(2) by simp
  also have "\<dots> = of_int (k * 2 ^ nat (n - ulp_exp x))"
    using pow2_div_int [OF assms(3)] by simp
  finally have eq: "x / pow2 (ulp_exp x) = of_int (k * 2 ^ nat (n - ulp_exp x))" .
  have "pow2 (ulp_exp x) \<noteq> 0" using pow2_pos [of "ulp_exp x"] by linarith
  then have "of_int (k * 2 ^ nat (n - ulp_exp x)) * pow2 (ulp_exp x) = x"
    using eq by (simp add: nonzero_divide_eq_eq)
  then show ?thesis unfolding round_pos_def eq rne_of_int .
qed

lemma round_pos_le_pow2:
  assumes "0 < x" and "x \<le> pow2 n" and "ulp_exp x \<le> n"
  shows "round_pos x \<le> pow2 n"
proof -
  let ?u = "pow2 (ulp_exp x)"
  have u: "0 < ?u" by simp
  have "x / ?u \<le> pow2 n / ?u" using assms(2) u by (simp add: divide_right_mono less_imp_le)
  also have "\<dots> = of_int (2 ^ nat (n - ulp_exp x))" by (rule pow2_div_int [OF assms(3)])
  finally have "rne (x / ?u) \<le> 2 ^ nat (n - ulp_exp x)"
    using rne_mono rne_of_int by metis
  then have "of_int (rne (x / ?u)) \<le> pow2 n / ?u"
    using pow2_div_int [OF assms(3)] by (metis of_int_le_iff)
  then show ?thesis using u by (simp add: round_pos_def pos_le_divide_eq)
qed

lemma pow2_le_round_pos:
  assumes "pow2 n \<le> x" and "ulp_exp x \<le> n"
  shows "pow2 n \<le> round_pos x"
proof -
  let ?u = "pow2 (ulp_exp x)"
  have u: "0 < ?u" by simp
  have "of_int (2 ^ nat (n - ulp_exp x)) = pow2 n / ?u" by (rule pow2_div_int [OF assms(2), symmetric])
  also have "\<dots> \<le> x / ?u" using assms(1) u by (simp add: divide_right_mono less_imp_le)
  finally have "2 ^ nat (n - ulp_exp x) \<le> rne (x / ?u)"
    using rne_mono rne_of_int by metis
  then have "pow2 n / ?u \<le> of_int (rne (x / ?u))"
    using pow2_div_int [OF assms(2)] by (metis of_int_le_iff)
  then show ?thesis using u by (simp add: round_pos_def pos_divide_le_eq)
qed

lemma round_pos_mono:
  assumes "0 < x" and "x \<le> y"
  shows "round_pos x \<le> round_pos y"
proof (cases "ulp_exp x = ulp_exp y")
  case True
  have "rne (x / pow2 (ulp_exp y)) \<le> rne (y / pow2 (ulp_exp y))"
    using assms(2) by (intro rne_mono) (simp add: divide_right_mono less_imp_le)
  then show ?thesis using True by (simp add: round_pos_def mult_right_mono less_imp_le)
next
  case False
  have y: "0 < y" using assms by linarith
  have "ilog2 x \<le> ilog2 y" using assms by (rule ilog2_mono)
  with False have lt: "ilog2 x + 1 \<le> ilog2 y" and uy: "ulp_exp y = ilog2 y - 52"
    and ux: "ulp_exp x \<le> ilog2 y" by (auto simp: ulp_exp_def max_def split: if_splits)
  have "x \<le> pow2 (ilog2 y)"
    using ilog2_bounds [OF assms(1)] pow2_mono [OF lt] by linarith
  then have "round_pos x \<le> pow2 (ilog2 y)"
    using assms(1) ux by (intro round_pos_le_pow2)
  also have "\<dots> \<le> round_pos y"
    using ilog2_bounds [OF y] uy by (intro pow2_le_round_pos) auto
  finally show ?thesis .
qed

lemma round_pos_pow2: "- 1074 \<le> n \<Longrightarrow> round_pos (pow2 n) = pow2 n"
proof -
  assume n: "- 1074 \<le> n"
  have "ilog2 (pow2 n) = n" by (rule ilog2_unique) (simp_all add: pow2_strict_mono)
  then show ?thesis using n by (intro round_pos_fixed [of _ 1 n]) (auto simp: ulp_exp_def)
qed

lemma round_pos_int: "0 < k \<Longrightarrow> k \<le> 2 ^ 53 \<Longrightarrow> round_pos (of_int k) = of_int k"
proof (cases "k = 2 ^ 53")
  case True
  then show ?thesis using round_pos_pow2 [of 53] by (simp add: pow2_def)
next
  case False
  assume k: "0 < k" "k \<le> 2 ^ 53"
  with False have "(of_int k :: rat) < of_int (2 ^ 53)" by (simp only: of_int_less_iff)
  then have "of_int k < pow2 53" by (simp add: pow2_def)
  moreover have "pow2 (ilog2 (of_int k)) \<le> of_int k" using ilog2_bounds [of "of_int k"] k by simp
  ultimately have "pow2 (ilog2 (of_int k)) < pow2 53" by linarith
  then have "ulp_exp (of_int k) \<le> 0" by (simp add: pow2_less_iff ulp_exp_def)
  then show ?thesis using k by (intro round_pos_fixed [of _ k 0]) auto
qed

section \<open>Rounded values\<close>

definition fval :: "f64 \<Rightarrow> rat" where
  "fval v = (case v of Fin x \<Rightarrow> x | _ \<Rightarrow> 0)"

lemma pow2_1024_big: "n \<le> 1023 \<Longrightarrow> pow2 n < pow2 1024"
  by (simp add: pow2_less_iff)

text \<open>A non-negative result at most a power of two stays so after rounding.\<close>

lemma rnd_bounded:
  assumes "0 \<le> x" and "x \<le> pow2 n" and "- 1074 \<le> n" and "n \<le> 1023"
  obtains y where "rnd x = Fin y" "0 \<le> y" "y \<le> pow2 n"
proof (cases "x = 0")
  case True
  then show ?thesis using that [of 0] by (simp add: rnd_def less_imp_le)
next
  case False
  with assms(1) have x: "0 < x" by simp
  have le: "round_pos x \<le> pow2 n"
    using round_pos_mono [OF x assms(2)] round_pos_pow2 [OF assms(3)] by simp
  with pow2_1024_big [OF assms(4)] have "round_pos x < pow2 1024" by linarith
  with x le show ?thesis using that [of "round_pos x"] by (simp add: rnd_def round_pos_nonneg)
qed

lemma rnd_ge_pow2:
  assumes "pow2 n \<le> x" and "- 1074 \<le> n"
  shows "rnd x = PInf \<or> (\<exists>y. rnd x = Fin y \<and> pow2 n \<le> y)"
proof -
  have x: "0 < x" using assms(1) pow2_pos [of n] by linarith
  have "pow2 n \<le> round_pos x"
    using round_pos_mono [OF pow2_pos assms(1)] round_pos_pow2 [OF assms(2)] by simp
  with x show ?thesis by (simp add: rnd_def)
qed

lemma rnd_of_nat: "n \<le> 2 ^ 53 \<Longrightarrow> rnd (of_nat n) = Fin (of_nat n)"
proof (cases "n = 0")
  case True
  then show ?thesis by (simp add: rnd_def)
next
  case False
  assume "n \<le> 2 ^ 53"
  then have r: "round_pos (of_nat n) = of_nat n"
    using round_pos_int [of "int n"] False by simp
  have "(of_nat n :: rat) \<le> of_nat (2 ^ 53)" using \<open>n \<le> 2 ^ 53\<close> by (simp only: of_nat_le_iff)
  also have "\<dots> = pow2 53" by (simp add: pow2_def)
  also have "\<dots> < pow2 1024" by (rule pow2_1024_big) simp
  finally show ?thesis using r False by (simp add: rnd_def)
qed

lemma f64_of_u64_exact: "unat w \<le> 2 ^ 53 \<Longrightarrow> f64_of_u64 w = Fin (of_nat (unat w))"
  unfolding f64_of_u64_def by (rule rnd_of_nat)

lemma f64_of_u64_bounded:
  obtains y where "f64_of_u64 w = Fin y" "0 \<le> y" "y \<le> pow2 64"
proof -
  have "unat w \<le> 2 ^ 64" using unat_less_2p [of w] by simp
  then have "(of_nat (unat w) :: rat) \<le> of_nat (2 ^ 64)" by (simp only: of_nat_le_iff)
  also have "\<dots> = pow2 64" by (simp add: pow2_def)
  finally have le: "(of_nat (unat w) :: rat) \<le> pow2 64" .
  show ?thesis
    by (rule rnd_bounded [OF of_nat_0_le_iff le]) (auto intro: that simp only: f64_of_u64_def)
qed

lemma f64_of_u64_ge_1:
  assumes "w \<noteq> 0"
  obtains y where "f64_of_u64 w = Fin y" "1 \<le> y" "y \<le> pow2 64"
proof -
  obtain y where y: "f64_of_u64 w = Fin y" "0 \<le> y" "y \<le> pow2 64" by (rule f64_of_u64_bounded)
  have "1 \<le> unat w" using assms by (simp add: Suc_leI unat_gt_0)
  then have "(of_nat 1 :: rat) \<le> of_nat (unat w)" by (simp only: of_nat_le_iff)
  then have "pow2 0 \<le> of_nat (unat w)" by simp
  from rnd_ge_pow2 [OF this] y(1) have "1 \<le> y" by (auto simp: f64_of_u64_def)
  with y show ?thesis using that by blast
qed

lemma unat_u64_of_f64_int: "n < 2 ^ 64 \<Longrightarrow> u64_of_f64 (Fin (of_nat n)) = of_nat n"
proof -
  assume "n < 2 ^ 64"
  then have "(of_nat n :: rat) < of_nat (2 ^ 64)" by (simp only: of_nat_less_iff)
  then show ?thesis by simp
qed

text \<open>Truncating a finite value between two integers stays between them.\<close>

lemma u64_of_f64_between:
  assumes "of_nat a \<le> x" and "x \<le> of_nat b" and "b < 2 ^ 64"
  shows "a \<le> unat (u64_of_f64 (Fin x)) \<and> unat (u64_of_f64 (Fin x)) \<le> b"
proof -
  have "(of_nat b :: rat) < of_nat (2 ^ 64)" using assms(3) by (simp only: of_nat_less_iff)
  then have lt: "x < 2 ^ 64" using assms(2) by simp
  have nonneg: "0 \<le> x" using assms(1) of_nat_0_le_iff [of a] by (meson order_trans)
  have fl: "int a \<le> \<lfloor>x\<rfloor>" "\<lfloor>x\<rfloor> \<le> int b"
    using assms(1,2) by (simp_all add: le_floor_iff) linarith
  define n where "n = nat \<lfloor>x\<rfloor>"
  have "0 \<le> \<lfloor>x\<rfloor>" using fl(1) by linarith
  then have n: "\<lfloor>x\<rfloor> = int n" by (simp only: n_def int_nat_eq if_True)
  have "n \<le> b" "a \<le> n" using fl n by simp_all
  moreover have "u64_of_f64 (Fin x) = of_nat n" using lt nonneg by (simp add: n)
  ultimately show ?thesis using assms(3) by (simp add: unat_of_nat)
qed

end
