(* ===== verification/Adaptive.thy ===== *)
theory Adaptive
  imports F64 "HOL-Library.AList_Mapping"
begin

text \<open>
  The adaptive concurrency controller and the memory model of \<open>crates/transfer/src/lib.rs\<close>:
  the controller's state with \<open>sample\<close>, \<open>forget\<close>, \<open>observe\<close>, \<open>congested\<close> and their
  helpers, and the number of slots a memory budget admits. The invariant says that the limit
  stays between one and the configured maximum, that the retired request keys are a bounded
  queue without repetitions, disjoint from the live requests, and that the measured rate is a
  finite non-negative number.
\<close>

section \<open>Constants\<close>

definition AEAD_TAG_BYTES :: u64 where "AEAD_TAG_BYTES = 16"
definition MAX_CIPHERTEXT_BYTES :: u64 where "MAX_CIPHERTEXT_BYTES = 25000000"
definition MAX_CHUNKS :: u64 where "MAX_CHUNKS = 65535"
definition MAX_CONCURRENCY :: u32 where "MAX_CONCURRENCY = 8"
definition SAMPLE_WINDOW_MS :: u64 where "SAMPLE_WINDOW_MS = 2000"
definition PROBE_MIN_RATE :: f64 where
  "PROBE_MIN_RATE = fdiv (fmul (Fin 256) (Fin 1024)) (Fin 1000)"
definition PROBE_COOLDOWN_MS :: u64 where "PROBE_COOLDOWN_MS = 2000"
definition CONGESTION_COOLDOWN_MS :: u64 where "CONGESTION_COOLDOWN_MS = 8000"
definition DEFAULT_FIXED_MEMORY_BYTES :: u64 where "DEFAULT_FIXED_MEMORY_BYTES = 8 * 1024 * 1024"
definition RETIRED_REQUEST_IDS :: nat where "RETIRED_REQUEST_IDS = 1024"

section \<open>The controller\<close>

record adaptive =
  ac_current :: u32
  ac_maximum :: u32
  ac_requests :: "(rstr, u64) mapping"
  ac_retired :: "rstr set"
  ac_retired_order :: "rstr list"
  ac_window_start :: "u64 option"
  ac_window_bytes :: u64
  ac_events :: u32
  ac_rate :: f64
  ac_probe :: "f64 option"
  ac_cooldown_until :: u64
  ac_successes :: u32

definition adaptive_new :: "u32 \<Rightarrow> adaptive" where
  "adaptive_new maximum =
     \<lparr>ac_current = 1, ac_maximum = clamp 1 MAX_CONCURRENCY maximum, ac_requests = Mapping.empty,
      ac_retired = {}, ac_retired_order = [], ac_window_start = None, ac_window_bytes = 0,
      ac_events = 0, ac_rate = Fin 0, ac_probe = None, ac_cooldown_until = 0, ac_successes = 0\<rparr>"

definition record_rate :: "f64 \<Rightarrow> adaptive \<Rightarrow> adaptive" where
  "record_rate rate s =
     (if \<not> is_finite rate \<or> fle rate (Fin 0) then s
      else s\<lparr>ac_rate := (if ac_rate s = Fin 0 then rate
              else fadd (fmul (ac_rate s) (Fin (1/2))) (fmul rate (Fin (1/2))))\<rparr>)"

definition learn_aggregate :: "f64 \<Rightarrow> u64 \<Rightarrow> adaptive \<Rightarrow> adaptive" where
  "learn_aggregate rate now_ms s0 =
     (let s = record_rate rate s0 in
      if \<not> is_finite rate \<or> fle rate (Fin 0) \<or> now_ms < ac_cooldown_until s then s
      else (case ac_probe s of
          None \<Rightarrow> s
        | Some probe \<Rightarrow>
            let s1 = s\<lparr>ac_probe := None\<rparr>;
                s2 = (if flt rate (fmul probe (rnd (11/10)))
                      then s1\<lparr>ac_current := max (saturating_sub (ac_current s1) 1) 1,
                              ac_cooldown_until := saturating_add now_ms CONGESTION_COOLDOWN_MS\<rparr>
                      else s1\<lparr>ac_cooldown_until := saturating_add now_ms PROBE_COOLDOWN_MS\<rparr>)
            in s2\<lparr>ac_successes := 0\<rparr>))"

text \<open>\<open>sample\<close>: a late callback of a retired request is dropped, a zero sample revives its key.\<close>

definition sample_count :: "rstr \<Rightarrow> u64 \<Rightarrow> u64 \<Rightarrow> adaptive \<Rightarrow> adaptive" where
  "sample_count key loaded now_ms s =
     (let previous = Mapping.lookup_default 0 (ac_requests s) key;
          s1 = s\<lparr>ac_requests := Mapping.update key loaded (ac_requests s)\<rparr>
      in if loaded < previous then s1
         else let delta = loaded - previous in
           if delta = 0 then s1
           else
             let start = (case ac_window_start s1 of None \<Rightarrow> now_ms | Some t \<Rightarrow> t);
                 s2 = s1\<lparr>ac_window_start := Some start,
                         ac_window_bytes := saturating_add (ac_window_bytes s1) delta,
                         ac_events := saturating_add (ac_events s1) 1\<rparr>;
                 elapsed = saturating_sub now_ms start
             in if SAMPLE_WINDOW_MS \<le> elapsed \<and> 3 \<le> ac_events s2
                then (learn_aggregate (fdiv (f64_of_u64 (ac_window_bytes s2)) (f64_of_u64 elapsed))
                        now_ms s2)
                       \<lparr>ac_window_start := Some now_ms, ac_window_bytes := 0, ac_events := 0\<rparr>
                else s2)"

definition sample :: "rstr \<Rightarrow> u64 \<Rightarrow> u64 \<Rightarrow> adaptive \<Rightarrow> adaptive" where
  "sample key loaded now_ms s =
     (if key \<in> ac_retired s then
        (if loaded \<noteq> 0 then s
         else sample_count key loaded now_ms
                (s\<lparr>ac_retired := ac_retired s - {key},
                   ac_retired_order := filter (\<lambda>retired. retired \<noteq> key) (ac_retired_order s)\<rparr>))
      else sample_count key loaded now_ms s)"

definition retire :: "rstr \<Rightarrow> adaptive \<Rightarrow> adaptive" where
  "retire key s =
     (let order = ac_retired_order s @ [key]; retired = insert key (ac_retired s) in
      if RETIRED_REQUEST_IDS < length order
      then (case order of
              [] \<Rightarrow> s\<lparr>ac_retired := retired, ac_retired_order := order\<rparr>
            | oldest # rest \<Rightarrow> s\<lparr>ac_retired := retired - {oldest}, ac_retired_order := rest\<rparr>)
      else s\<lparr>ac_retired := retired, ac_retired_order := order\<rparr>)"

definition forget :: "rstr \<Rightarrow> adaptive \<Rightarrow> adaptive" where
  "forget key s =
     (let present = (Mapping.lookup (ac_requests s) key \<noteq> None);
          s1 = s\<lparr>ac_requests := Mapping.delete key (ac_requests s)\<rparr>;
          s2 = (if present \<and> key \<notin> ac_retired s1 then retire key s1 else s1)
      in if Mapping.is_empty (ac_requests s2)
         then s2\<lparr>ac_window_start := None, ac_window_bytes := 0, ac_events := 0\<rparr>
         else s2)"

definition observe :: "u64 \<Rightarrow> u64 \<Rightarrow> u64 \<Rightarrow> adaptive \<Rightarrow> adaptive" where
  "observe bytes_done elapsed_ms now_ms s =
     (if bytes_done = 0 \<or> elapsed_ms = 0 then s
      else
        let s1 = record_rate (fdiv (f64_of_u64 bytes_done) (f64_of_u64 elapsed_ms)) s;
            s2 = s1\<lparr>ac_successes := saturating_add (ac_successes s1) 1\<rparr>
        in if ac_cooldown_until s2 \<le> now_ms
              \<and> saturating_mul (ac_current s2) 2 \<le> ac_successes s2
              \<and> fle PROBE_MIN_RATE (ac_rate s2)
              \<and> 1 < ac_maximum s2 \<and> ac_current s2 < ac_maximum s2
           then s2\<lparr>ac_probe := Some (ac_rate s2),
                   ac_cooldown_until := saturating_add now_ms PROBE_COOLDOWN_MS,
                   ac_current := ac_current s2 + 1, ac_successes := 0\<rparr>
           else s2)"

definition congested :: "u64 \<Rightarrow> adaptive \<Rightarrow> adaptive" where
  "congested now_ms s =
     s\<lparr>ac_probe := None, ac_successes := 0,
       ac_cooldown_until := saturating_add now_ms CONGESTION_COOLDOWN_MS,
       ac_current := max (ac_current s div 2) 1\<rparr>"

text \<open>The calls of an adapter, in the order they arrive.\<close>

datatype adaptive_op = Sample rstr u64 u64 | Forget rstr | Observe u64 u64 u64 | Congested u64

fun adaptive_step :: "adaptive \<Rightarrow> adaptive_op \<Rightarrow> adaptive" where
  "adaptive_step s (Sample key loaded now_ms) = sample key loaded now_ms s"
| "adaptive_step s (Forget key) = forget key s"
| "adaptive_step s (Observe n elapsed_ms now_ms) = observe n elapsed_ms now_ms s"
| "adaptive_step s (Congested now_ms) = congested now_ms s"

section \<open>Memory model\<close>

record memory_budget =
  total_bytes :: u64
  fixed_overhead_bytes :: u64
  plaintext_copies :: u32
  ciphertext_copies :: u32

definition budget_standard :: "u64 \<Rightarrow> memory_budget" where
  "budget_standard n =
     \<lparr>total_bytes = n, fixed_overhead_bytes = DEFAULT_FIXED_MEMORY_BYTES,
      plaintext_copies = 1, ciphertext_copies = 1\<rparr>"

definition slot_bytes :: "memory_budget \<Rightarrow> u64 \<Rightarrow> u64 option" where
  "slot_bytes m plaintext_chunk_bytes =
     Option.bind (checked_add plaintext_chunk_bytes AEAD_TAG_BYTES) (\<lambda>ciphertext.
     Option.bind (checked_mul plaintext_chunk_bytes (ucast (plaintext_copies m))) (\<lambda>plain.
     Option.bind (checked_mul ciphertext (ucast (ciphertext_copies m))) (\<lambda>sealed.
     checked_add plain sealed)))"

definition concurrency_limit_with_memory :: "u32 \<Rightarrow> u64 \<Rightarrow> memory_budget \<Rightarrow> u32 \<Rightarrow> u32" where
  "concurrency_limit_with_memory configured chunk_bytes memory platform_limit =
     (let requested = min (clamp 1 MAX_CONCURRENCY configured) (clamp 1 MAX_CONCURRENCY platform_limit);
          available = saturating_sub (total_bytes memory) (fixed_overhead_bytes memory);
          memory_slots =
            (case slot_bytes memory chunk_bytes of
               None \<Rightarrow> 1
             | Some slot \<Rightarrow> ucast (clamp 1 (ucast MAX_CONCURRENCY) (available div max slot 1)))
      in max (min requested memory_slots) 1)"

definition concurrency_limit :: "u32 \<Rightarrow> u64 \<Rightarrow> u64 \<Rightarrow> u32 \<Rightarrow> u32" where
  "concurrency_limit configured chunk_bytes memory_budget platform_limit =
     concurrency_limit_with_memory configured chunk_bytes (budget_standard memory_budget) platform_limit"

section \<open>The invariant\<close>

definition rate_ok :: "f64 \<Rightarrow> bool" where
  "rate_ok r \<longleftrightarrow> (case r of Fin x \<Rightarrow> 0 \<le> x \<and> x \<le> pow2 64 | _ \<Rightarrow> False)"

definition retired_ok :: "adaptive \<Rightarrow> bool" where
  "retired_ok s \<longleftrightarrow> distinct (ac_retired_order s) \<and> set (ac_retired_order s) = ac_retired s
     \<and> length (ac_retired_order s) \<le> RETIRED_REQUEST_IDS
     \<and> (\<forall>k \<in> ac_retired s. Mapping.lookup (ac_requests s) k = None)"

definition limit_ok :: "adaptive \<Rightarrow> bool" where
  "limit_ok s \<longleftrightarrow> 1 \<le> ac_current s \<and> ac_current s \<le> ac_maximum s \<and> ac_maximum s \<le> MAX_CONCURRENCY"

definition adaptive_inv :: "adaptive \<Rightarrow> bool" where
  "adaptive_inv s \<longleftrightarrow> limit_ok s \<and> retired_ok s \<and> rate_ok (ac_rate s)"

lemmas limit_arith = word_le_nat_alt word_less_nat_alt unat_word_ariths rust_arith

lemma rate_ok_E: "rate_ok r \<Longrightarrow> (\<And>x. r = Fin x \<Longrightarrow> 0 \<le> x \<Longrightarrow> x \<le> pow2 64 \<Longrightarrow> P) \<Longrightarrow> P"
  by (cases r) (auto simp: rate_ok_def)

lemma rate_ok_rnd: "0 \<le> x \<Longrightarrow> x \<le> pow2 64 \<Longrightarrow> rate_ok (rnd x)"
  by (rule rnd_bounded [of x 64]) (auto simp: rate_ok_def)

text \<open>A quotient of two counters is a rate, and so is the average of two rates.\<close>

lemma rate_of_counters: "b \<noteq> 0 \<Longrightarrow> rate_ok (fdiv (f64_of_u64 a) (f64_of_u64 b))"
proof -
  assume "b \<noteq> 0"
  then obtain y where y: "f64_of_u64 b = Fin y" "1 \<le> y" "y \<le> pow2 64" by (rule f64_of_u64_ge_1)
  obtain x where x: "f64_of_u64 a = Fin x" "0 \<le> x" "x \<le> pow2 64" by (rule f64_of_u64_bounded)
  have "x / y \<le> x / 1" using x(2) y(2) by (intro divide_left_mono) auto
  then have "x / y \<le> pow2 64" using x(3) by simp
  moreover have "0 \<le> x / y" using x(2) y(2) by simp
  ultimately show ?thesis using x y by (simp add: rate_ok_rnd)
qed

lemma rate_half:
  assumes "rate_ok r"
  obtains y where "fmul r (Fin (1/2)) = Fin y" "0 \<le> y" "y \<le> pow2 63"
proof -
  obtain x where x: "r = Fin x" "0 \<le> x" "x \<le> pow2 64" using assms by (rule rate_ok_E)
  have "x * (1/2) \<le> pow2 64 * (1/2)" using x(3) by (intro mult_right_mono) auto
  also have "\<dots> = pow2 63" using pow2_add [of 63 1] pow2_1 by simp
  finally have "x * (1/2) \<le> pow2 63" .
  then show ?thesis using x that by (auto intro: rnd_bounded [of "x * (1/2)" 63])
qed

lemma rate_average:
  assumes "rate_ok a" and "rate_ok b"
  shows "rate_ok (fadd (fmul a (Fin (1/2))) (fmul b (Fin (1/2))))"
proof -
  obtain x where x: "fmul a (Fin (1/2)) = Fin x" "0 \<le> x" "x \<le> pow2 63"
    using assms(1) by (rule rate_half)
  obtain y where y: "fmul b (Fin (1/2)) = Fin y" "0 \<le> y" "y \<le> pow2 63"
    using assms(2) by (rule rate_half)
  have "x + y \<le> pow2 64" using x y pow2_add [of 63 1] pow2_1 by simp
  moreover have "0 \<le> x + y" using x y by simp
  ultimately show ?thesis using x y by (simp add: rate_ok_rnd)
qed

lemma record_rate_inv:
  "adaptive_inv s \<Longrightarrow> rate_ok rate \<Longrightarrow> adaptive_inv (record_rate rate s)"
  by (auto simp: adaptive_inv_def record_rate_def limit_ok_def retired_ok_def rate_average)

lemma record_rate_frame [simp]:
  "ac_current (record_rate r s) = ac_current s" "ac_maximum (record_rate r s) = ac_maximum s"
  "ac_cooldown_until (record_rate r s) = ac_cooldown_until s"
  "ac_successes (record_rate r s) = ac_successes s" "ac_probe (record_rate r s) = ac_probe s"
  by (simp_all add: record_rate_def)

lemma limit_step_down: "limit_ok s \<Longrightarrow> max (saturating_sub (ac_current s) 1) 1 \<le> ac_current s"
  by (simp add: limit_ok_def limit_arith)

text \<open>What a probe's verdict does to the other fields: only the limit, the cooldown, the probe
  and the success count move, and the limit moves down.\<close>

lemma learn_aggregate_inv:
  assumes "adaptive_inv s" and "rate_ok rate"
  shows "adaptive_inv (learn_aggregate rate now_ms s)"
proof -
  define t where "t = record_rate rate s"
  have t: "adaptive_inv t" unfolding t_def using assms by (rule record_rate_inv)
  then have "max (saturating_sub (ac_current t) 1) 1 \<le> ac_current t"
    by (intro limit_step_down) (simp add: adaptive_inv_def)
  with t show ?thesis
    unfolding learn_aggregate_def t_def [symmetric] Let_def
    by (auto simp: adaptive_inv_def limit_ok_def retired_ok_def split: option.splits)
qed

lemma learn_aggregate_limit: "limit_ok s \<Longrightarrow> ac_current (learn_aggregate rate now_ms s) \<le> ac_current s"
  using limit_step_down [of s]
  by (auto simp: learn_aggregate_def Let_def split: option.splits)

lemma learn_aggregate_cooldown:
  "now_ms < ac_cooldown_until s \<Longrightarrow>
     ac_current (learn_aggregate rate now_ms s) = ac_current s \<and>
     ac_cooldown_until (learn_aggregate rate now_ms s) = ac_cooldown_until s"
  by (simp add: learn_aggregate_def Let_def)

text \<open>Only the window, the counters and the verdict change when a sample is counted.\<close>

lemma adaptive_inv_window [simp]:
  "adaptive_inv (s\<lparr>ac_window_start := a, ac_window_bytes := b, ac_events := c\<rparr>) = adaptive_inv s"
  by (simp add: adaptive_inv_def limit_ok_def retired_ok_def)

lemma adaptive_inv_requests:
  "adaptive_inv s \<Longrightarrow> key \<notin> ac_retired s \<Longrightarrow>
     adaptive_inv (s\<lparr>ac_requests := Mapping.update key loaded (ac_requests s)\<rparr>)"
  by (auto simp: adaptive_inv_def limit_ok_def retired_ok_def lookup_update')

lemma sample_window_pos: "SAMPLE_WINDOW_MS \<le> e \<Longrightarrow> e \<noteq> 0"
  by (auto simp: SAMPLE_WINDOW_MS_def)

lemma sample_count_inv:
  assumes "adaptive_inv s" and "key \<notin> ac_retired s"
  shows "adaptive_inv (sample_count key loaded now_ms s)"
proof -
  define s1 where "s1 = s\<lparr>ac_requests := Mapping.update key loaded (ac_requests s)\<rparr>"
  have s1: "adaptive_inv s1" unfolding s1_def using assms by (rule adaptive_inv_requests)
  then show ?thesis
    unfolding sample_count_def s1_def [symmetric] Let_def
    by (auto intro!: learn_aggregate_inv rate_of_counters simp del: fdiv.simps
          dest!: sample_window_pos)
qed

lemma revive_inv:
  "adaptive_inv s \<Longrightarrow>
     adaptive_inv (s\<lparr>ac_retired := ac_retired s - {key},
                     ac_retired_order := filter (\<lambda>retired. retired \<noteq> key) (ac_retired_order s)\<rparr>)"
  by (auto simp: adaptive_inv_def limit_ok_def retired_ok_def intro: le_trans [OF length_filter_le])

lemma sample_inv: "adaptive_inv s \<Longrightarrow> adaptive_inv (sample key loaded now_ms s)"
  by (simp add: sample_def sample_count_inv revive_inv)

lemma retire_inv:
  assumes "adaptive_inv s" and "key \<notin> ac_retired s" and "Mapping.lookup (ac_requests s) key = None"
  shows "adaptive_inv (retire key s)"
  using assms
  by (cases "ac_retired_order s")
    (auto simp: retire_def Let_def adaptive_inv_def limit_ok_def retired_ok_def RETIRED_REQUEST_IDS_def)

lemma lookup_delete_if: "Mapping.lookup (Mapping.delete k m) j = (if j = k then None else Mapping.lookup m j)"
  by (cases "j = k") (simp_all add: lookup_delete lookup_delete_neq)

lemma adaptive_inv_delete:
  "adaptive_inv s \<Longrightarrow> adaptive_inv (s\<lparr>ac_requests := Mapping.delete key (ac_requests s)\<rparr>)"
  by (auto simp: adaptive_inv_def limit_ok_def retired_ok_def lookup_delete_if)

lemma forget_inv: "adaptive_inv s \<Longrightarrow> adaptive_inv (forget key s)"
  by (simp add: forget_def Let_def adaptive_inv_delete retire_inv)

lemma observe_inv:
  assumes "adaptive_inv s"
  shows "adaptive_inv (observe n elapsed_ms now_ms s)"
proof (cases "n = 0 \<or> elapsed_ms = 0")
  case True
  then show ?thesis using assms by (auto simp: observe_def)
next
  case False
  define s1 where "s1 = record_rate (fdiv (f64_of_u64 n) (f64_of_u64 elapsed_ms)) s"
  have s1: "adaptive_inv s1" unfolding s1_def
    using assms False by (intro record_rate_inv rate_of_counters) auto
  then have "1 \<le> ac_current s1 + 1 \<and> ac_current s1 + 1 \<le> ac_maximum s1"
    if "ac_current s1 < ac_maximum s1"
    using that by (simp add: adaptive_inv_def limit_ok_def limit_arith MAX_CONCURRENCY_def)
  with s1 show ?thesis using False
    unfolding observe_def s1_def [symmetric] Let_def
    by (auto simp: adaptive_inv_def limit_ok_def retired_ok_def)
qed

lemma congested_inv: "adaptive_inv s \<Longrightarrow> adaptive_inv (congested now_ms s)"
  by (auto simp: congested_def adaptive_inv_def limit_ok_def retired_ok_def limit_arith)

interpretation ac: guarded_machine adaptive_inv adaptive_step
proof
  fix s op assume "adaptive_inv s"
  then show "adaptive_inv (adaptive_step s op)"
    by (cases op) (simp_all add: sample_inv forget_inv observe_inv congested_inv)
qed

lemma adaptive_new_inv: "adaptive_inv (adaptive_new m)"
  by (simp add: adaptive_new_def adaptive_inv_def limit_ok_def retired_ok_def rate_ok_def
      MAX_CONCURRENCY_def limit_arith clamp_def less_imp_le)

section \<open>Frame and cooldown facts\<close>

lemma learn_aggregate_maximum [simp]: "ac_maximum (learn_aggregate r t s) = ac_maximum s"
  by (simp add: learn_aggregate_def Let_def split: option.splits)

lemma retire_frame [simp]:
  "ac_maximum (retire key s) = ac_maximum s" "ac_current (retire key s) = ac_current s"
  "ac_cooldown_until (retire key s) = ac_cooldown_until s"
  "ac_requests (retire key s) = ac_requests s"
  by (simp_all add: retire_def Let_def split: list.splits)

lemma sample_count_maximum [simp]: "ac_maximum (sample_count key loaded now_ms s) = ac_maximum s"
  by (simp add: sample_count_def Let_def)

lemma adaptive_step_maximum: "ac_maximum (adaptive_step s op) = ac_maximum s"
  by (cases op) (simp_all add: sample_def forget_def observe_def congested_def Let_def)

lemma adaptive_run_maximum: "ac_maximum (foldl adaptive_step s ops) = ac_maximum s"
  by (induction ops arbitrary: s) (simp_all add: adaptive_step_maximum)

text \<open>While the clock is before the cooldown's end, counting samples changes neither the limit
  nor the cooldown.\<close>

lemma sample_count_cooldown:
  "now_ms < ac_cooldown_until s \<Longrightarrow>
     ac_current (sample_count key loaded now_ms s) = ac_current s \<and>
     ac_cooldown_until (sample_count key loaded now_ms s) = ac_cooldown_until s"
  by (simp add: sample_count_def Let_def learn_aggregate_cooldown)

lemma sample_cooldown:
  "now_ms < ac_cooldown_until s \<Longrightarrow>
     ac_current (sample key loaded now_ms s) = ac_current s \<and>
     ac_cooldown_until (sample key loaded now_ms s) = ac_cooldown_until s"
  by (simp add: sample_def sample_count_cooldown)

lemma forget_frame [simp]:
  "ac_current (forget key s) = ac_current s" "ac_cooldown_until (forget key s) = ac_cooldown_until s"
  by (simp_all add: forget_def Let_def)

lemma observe_cooldown:
  "now_ms < ac_cooldown_until s \<Longrightarrow>
     ac_current (observe n elapsed_ms now_ms s) = ac_current s \<and>
     ac_cooldown_until (observe n elapsed_ms now_ms s) = ac_cooldown_until s"
  by (auto simp: observe_def Let_def)

lemma congested_limit: "limit_ok s \<Longrightarrow> ac_current (congested t s) \<le> ac_current s"
  by (auto simp: congested_def limit_ok_def limit_arith)

fun op_time :: "adaptive_op \<Rightarrow> u64 option" where
  "op_time (Sample _ _ t) = Some t"
| "op_time (Forget _) = None"
| "op_time (Observe _ _ t) = Some t"
| "op_time (Congested t) = Some t"

definition op_within :: "u64 \<Rightarrow> u64 \<Rightarrow> adaptive_op \<Rightarrow> bool" where
  "op_within a b op = (case op_time op of None \<Rightarrow> True | Some t \<Rightarrow> a \<le> t \<and> t < b)"

lemma cooldown_step:
  assumes "adaptive_inv s" and "b \<le> ac_cooldown_until s" and "op_within a b op"
    and "b = saturating_add a CONGESTION_COOLDOWN_MS"
  shows "ac_current (adaptive_step s op) \<le> ac_current s \<and> b \<le> ac_cooldown_until (adaptive_step s op)"
proof (cases op)
  case (Sample key loaded t)
  then have "t < ac_cooldown_until s" using assms by (auto simp: op_within_def)
  then show ?thesis using sample_cooldown Sample assms by simp
next
  case (Observe n e t)
  then have "t < ac_cooldown_until s" using assms by (auto simp: op_within_def)
  then show ?thesis using observe_cooldown Observe assms by simp
next
  case (Congested t)
  then have "a \<le> t" using assms(3) by (simp add: op_within_def)
  then have "b \<le> ac_cooldown_until (congested t s)"
    by (simp add: assms(4) congested_def word_le_nat_alt rust_arith min_def)
  then show ?thesis
    using congested_limit [of s t] Congested assms(1) by (simp add: adaptive_inv_def)
qed (use assms in simp)

lemma cooldown_run:
  assumes "adaptive_inv s" and "b \<le> ac_cooldown_until s" and "\<forall>op \<in> set ops. op_within a b op"
    and "b = saturating_add a CONGESTION_COOLDOWN_MS"
  shows "ac_current (foldl adaptive_step s ops) \<le> ac_current s"
  using assms(1-3)
proof (induction ops arbitrary: s)
  case Nil
  then show ?case by simp
next
  case (Cons op ops)
  note st = cooldown_step [OF Cons.prems(1,2) _ assms(4), of op]
  have "ac_current (foldl adaptive_step (adaptive_step s op) ops) \<le> ac_current (adaptive_step s op)"
    using Cons.prems st by (intro Cons.IH ac.step_inv) auto
  also have "\<dots> \<le> ac_current s" using st Cons.prems by simp
  finally show ?case by simp
qed

section \<open>Memory accounting\<close>

lemma slot_bytes_Some:
  "slot_bytes m p = Some n \<Longrightarrow>
     unat n = unat p * unat (plaintext_copies m) + (unat p + 16) * unat (ciphertext_copies m)"
  by (auto simp: slot_bytes_def bind_eq_Some_conv rust_arith AEAD_TAG_BYTES_def)

lemma memory_slots_bound:
  fixes available slot :: u64
  defines "slots \<equiv> ucast (clamp 1 (ucast MAX_CONCURRENCY) (available div max slot 1)) :: u32"
  shows "unat slots \<le> 8" and "1 < unat slots \<Longrightarrow> unat slots * unat slot \<le> unat available"
proof -
  define q where "q = unat available div max (unat slot) 1"
  have "unat (available div max slot 1) = q"
    by (simp add: q_def unat_div rust_arith)
  moreover have "unat (ucast MAX_CONCURRENCY :: u64) = 8" by (simp add: MAX_CONCURRENCY_def)
  ultimately have c: "unat (clamp 1 (ucast MAX_CONCURRENCY) (available div max slot 1)) = clamp 1 8 q"
    by (simp add: unat_clamp)
  moreover have "clamp 1 8 q \<le> 8" using clamp_bounds [of 1 8 q] by simp
  ultimately have slots: "unat slots = clamp 1 8 q"
    unfolding slots_def by (simp add: unsigned_ucast_eq take_bit_nat_eq_self)
  then show "unat slots \<le> 8" using clamp_bounds [of 1 8 q] by simp
  assume "1 < unat slots"
  then have "unat slots \<le> q" by (simp add: slots clamp_def split: if_splits)
  then have "unat slots * unat slot \<le> q * max (unat slot) 1" by (intro mult_le_mono) auto
  also have "\<dots> \<le> unat available" by (simp add: q_def)
  finally show "unat slots * unat slot \<le> unat available" .
qed

section \<open>Properties\<close>

text \<open>C1. Whatever calls an adapter makes, in whatever order and at whatever times, a controller
  created with a maximum keeps its concurrency limit between one and that maximum clamped to
  eight, keeps a finite non-negative measured rate, and remembers at most 1024 retired request
  keys, none of which is a live request.\<close>

theorem adaptive_limit_always_bounded:
  fixes ops :: "adaptive_op list" and maximum :: u32
  defines "s \<equiv> foldl adaptive_step (adaptive_new maximum) ops"
  shows "1 \<le> ac_current s \<and> ac_current s \<le> clamp 1 MAX_CONCURRENCY maximum
    \<and> (\<exists>r. ac_rate s = Fin r \<and> 0 \<le> r)
    \<and> distinct (ac_retired_order s) \<and> length (ac_retired_order s) \<le> 1024
    \<and> {k. Mapping.lookup (ac_requests s) k \<noteq> None} \<inter> set (ac_retired_order s) = {}"
proof -
  have inv: "adaptive_inv s" unfolding s_def by (intro ac.foldl_inv adaptive_new_inv)
  moreover have "ac_maximum s = clamp 1 MAX_CONCURRENCY maximum"
    unfolding s_def adaptive_run_maximum by (simp add: adaptive_new_def)
  ultimately show ?thesis
    by (auto simp: adaptive_inv_def limit_ok_def retired_ok_def RETIRED_REQUEST_IDS_def elim: rate_ok_E)
qed

text \<open>After congestion at time \<open>t\<close> the limit is halved, but never below one, and no call
  whose clock lies in the eight seconds of cooldown raises it again: no completion, no sample
  and no further congestion.\<close>

theorem congestion_holds_the_limit_down:
  assumes "adaptive_inv s"
    and "\<forall>op \<in> set ops. op_within t (saturating_add t CONGESTION_COOLDOWN_MS) op"
  shows "ac_current (foldl adaptive_step (congested t s) ops) \<le> max (ac_current s div 2) 1"
proof -
  have "ac_current (foldl adaptive_step (congested t s) ops) \<le> ac_current (congested t s)"
    using assms congested_inv by (intro cooldown_run) (simp_all add: congested_def)
  then show ?thesis by (simp add: congested_def)
qed

theorem congestion_holds_the_limit_down_witness:
  "ac_current (foldl adaptive_step (congested 5 (adaptive_new 4))
     [Observe 900000 1 6, Observe 900000 1 7, Observe 900000 1 8]) \<le> max (1 div 2) 1"
  using congestion_holds_the_limit_down [OF adaptive_new_inv [of 4], of
      "[Observe 900000 1 6, Observe 900000 1 7, Observe 900000 1 8]" 5]
  by (simp add: op_within_def saturating_add_def checked_add_def CONGESTION_COOLDOWN_MS_def
      adaptive_new_def)

text \<open>Once a live request is forgotten, a late progress callback for its key changes
  nothing, and a zero sample starts a new request under that key.\<close>

theorem forgotten_request_is_inert:
  assumes "adaptive_inv s" and "Mapping.lookup (ac_requests s) key = Some v" and "loaded \<noteq> 0"
  shows "sample key loaded t (forget key s) = forget key s
    \<and> Mapping.lookup (ac_requests (sample key 0 t (forget key s))) key = Some 0
    \<and> key \<notin> ac_retired (sample key 0 t (forget key s))"
proof -
  have fresh: "key \<notin> ac_retired s"
    using assms(1,2) by (auto simp: adaptive_inv_def retired_ok_def)
  have "key \<in> ac_retired (retire key u)" if "retired_ok u" "key \<notin> ac_retired u" for u
    using that by (cases "ac_retired_order u") (auto simp: retire_def Let_def retired_ok_def RETIRED_REQUEST_IDS_def)
  moreover have "retired_ok (s\<lparr>ac_requests := Mapping.delete key (ac_requests s)\<rparr>)"
    using adaptive_inv_delete [OF assms(1)] by (simp add: adaptive_inv_def)
  ultimately have ret: "key \<in> ac_retired (forget key s)"
    using assms(2) fresh by (simp add: forget_def Let_def)
  have "Mapping.lookup (ac_requests (forget key s)) key = None"
    by (simp add: forget_def Let_def)
  then show ?thesis using assms(3) ret
    by (simp add: sample_def sample_count_def Let_def lookup_default_def)
qed

theorem forgotten_request_is_inert_witness:
  "sample [97] 7 3 (forget [97] (sample [97] 5 1 (adaptive_new 4)))
     = forget [97] (sample [97] 5 1 (adaptive_new 4))"
proof -
  have "Mapping.lookup (ac_requests (sample [97] 5 1 (adaptive_new 4))) [97] = Some 5"
    by (simp add: sample_def sample_count_def adaptive_new_def Let_def SAMPLE_WINDOW_MS_def
        lookup_default_def saturating_add_def saturating_sub_def checked_add_def)
  then show ?thesis
    using forgotten_request_is_inert [OF sample_inv [OF adaptive_new_inv [of 4]], of "[97]" 5 1 "[97]" 5 7 3]
    by simp
qed

text \<open>The number of slots a memory budget admits lies between one and eight, respects the
  configured and the platform limit (each read as at least one), and when it exceeds one the
  fixed reservation plus that many slots, each with all its plaintext and ciphertext copies,
  fits in the budget.\<close>

theorem concurrency_limit_fits_memory:
  fixes configured platform_limit :: u32 and chunk_bytes :: u64 and m :: memory_budget
  defines "n \<equiv> unat (concurrency_limit_with_memory configured chunk_bytes m platform_limit)"
  shows "1 \<le> n \<and> n \<le> 8 \<and> n \<le> max 1 (unat configured) \<and> n \<le> max 1 (unat platform_limit)
    \<and> (n = 1 \<or> unat (fixed_overhead_bytes m)
          + n * (unat chunk_bytes * unat (plaintext_copies m)
                 + (unat chunk_bytes + 16) * unat (ciphertext_copies m)) \<le> unat (total_bytes m))"
proof -
  define avail where "avail = saturating_sub (total_bytes m) (fixed_overhead_bytes m)"
  define slots :: u32 where "slots = (case slot_bytes m chunk_bytes of None \<Rightarrow> 1
      | Some slot \<Rightarrow> ucast (clamp 1 (ucast MAX_CONCURRENCY) (avail div max slot 1)))"
  define want where "want = min (clamp 1 8 (unat configured)) (clamp 1 8 (unat platform_limit))"
  have n: "n = max (min want (unat slots)) 1"
    unfolding n_def concurrency_limit_with_memory_def Let_def avail_def [symmetric]
      slots_def [symmetric] want_def
    by (simp add: rust_arith MAX_CONCURRENCY_def)
  have want: "want \<le> 8" "want \<le> max 1 (unat configured)" "want \<le> max 1 (unat platform_limit)"
    by (auto simp: want_def clamp_def)
  have "n = 1 \<or> unat (fixed_overhead_bytes m) + n * (unat chunk_bytes * unat (plaintext_copies m)
                 + (unat chunk_bytes + 16) * unat (ciphertext_copies m)) \<le> unat (total_bytes m)"
  proof (cases "slot_bytes m chunk_bytes")
    case None
    then have "n = 1" by (simp add: n slots_def)
    then show ?thesis ..
  next
    case (Some slot)
    then have slots: "slots = ucast (clamp 1 (ucast MAX_CONCURRENCY) (avail div max slot 1))"
      by (simp add: slots_def)
    have avail: "unat avail = unat (total_bytes m) - unat (fixed_overhead_bytes m)"
      by (simp add: avail_def rust_arith)
    show ?thesis
    proof (cases "n = 1")
      case False
      then have le: "1 < unat slots" "n \<le> unat slots" by (auto simp: n)
      then have "n * unat slot \<le> unat avail"
        using memory_slots_bound(2) [of avail slot] slots by (meson le_trans mult_le_mono1)
      moreover have "0 < unat avail"
      proof (rule ccontr)
        assume "\<not> 0 < unat avail"
        then have "avail = 0" by (simp add: unat_eq_0)
        then have "unat slots = 1"
          by (simp add: slots clamp_def word_less_nat_alt MAX_CONCURRENCY_def)
        with le show False by simp
      qed
      ultimately have "unat (fixed_overhead_bytes m) + n * unat slot \<le> unat (total_bytes m)"
        using avail by linarith
      then show ?thesis unfolding slot_bytes_Some [OF Some] ..
    qed simp
  qed
  with want show ?thesis by (auto simp: n)
qed

end
