(* ===== verification/Transport.thy ===== *)
theory Transport
  imports Adaptive
begin

text \<open>
  The upload transport policy of \<open>crates/transfer/src/lib.rs\<close>: validation of the server's
  policy, part sizing for staged uploads, the decisions to stage or to abandon a direct
  request, part counting, the HTTP retry decisions and the layout of encrypted chunks. The
  lemmas show that every sizing decision stays inside the validated policy, that part counts
  are exact ceilings and never overflow, and that the ciphertext length is the sum over the
  chunks.
\<close>

section \<open>The policy\<close>

definition MAX_RETRY_DELAY_MS :: u64 where "MAX_RETRY_DELAY_MS = 60000"

record upload_transport =
  ut_version :: u8
  part_min_bytes :: u64
  part_max_bytes :: u64
  request_target_ms :: u64
  request_budget_ms :: u64
  part_max_count :: "u32 option"

definition transport_validate :: "upload_transport \<Rightarrow> (unit, string) result" where
  "transport_validate t =
     (if ut_version t \<noteq> 1 then Err ''unsupported upload transport version''
      else if part_min_bytes t = 0 \<or> part_max_bytes t < part_min_bytes t
              \<or> MAX_CIPHERTEXT_BYTES < part_max_bytes t
        then Err ''invalid upload part bounds''
      else if request_target_ms t = 0 \<or> request_budget_ms t < request_target_ms t
        then Err ''invalid upload request timing''
      else if part_max_count t = Some 0 then Err ''invalid upload part count''
      else Ok ())"

definition part_bytes :: "upload_transport \<Rightarrow> f64 \<Rightarrow> u64" where
  "part_bytes t bytes_per_ms =
     (if \<not> is_ok (transport_validate t) then 0
      else
        let estimate =
          (if is_finite bytes_per_ms \<and> flt (Fin 0) bytes_per_ms
           then ffloor (fmul (fmul bytes_per_ms (f64_of_u64 (request_target_ms t))) (Fin (3/4)))
           else f64_of_u64 (part_min_bytes t))
        in u64_of_f64 (fclamp (f64_of_u64 (part_min_bytes t)) (f64_of_u64 (part_max_bytes t)) estimate))"

definition initial_part_bytes :: "upload_transport \<Rightarrow> f64 \<Rightarrow> u64" where
  "initial_part_bytes t bytes_per_ms = part_bytes t bytes_per_ms"

definition grow_part :: "upload_transport \<Rightarrow> u64 \<Rightarrow> u64 \<Rightarrow> u64 \<Rightarrow> u64" where
  "grow_part t previous bytes_sent elapsed_ms =
     (if \<not> is_ok (transport_validate t) then 0
      else
        let target = (if elapsed_ms = 0 then previous
                      else part_bytes t (fdiv (f64_of_u64 bytes_sent) (f64_of_u64 elapsed_ms)))
        in clamp (part_min_bytes t) (part_max_bytes t) (min target (saturating_mul previous 3 div 2)))"

definition shrink_part :: "upload_transport \<Rightarrow> u64 \<Rightarrow> u64" where
  "shrink_part t previous =
     (if \<not> is_ok (transport_validate t) then 0
      else clamp (part_min_bytes t) (part_max_bytes t) (previous div 2))"

definition should_stage :: "upload_transport \<Rightarrow> u64 \<Rightarrow> f64 \<Rightarrow> bool" where
  "should_stage t n bytes_per_ms \<longleftrightarrow>
     is_ok (transport_validate t) \<and> is_finite bytes_per_ms \<and> flt (Fin 0) bytes_per_ms
     \<and> flt (fmul (f64_of_u64 (request_budget_ms t)) (Fin (3/4))) (fdiv (f64_of_u64 n) bytes_per_ms)"

definition should_abandon_direct :: "upload_transport \<Rightarrow> u64 \<Rightarrow> u64 \<Rightarrow> u64 \<Rightarrow> bool" where
  "should_abandon_direct t n loaded elapsed_ms \<longleftrightarrow>
     is_ok (transport_validate t) \<and> 3000 \<le> elapsed_ms \<and> 0 < loaded \<and> loaded < n
     \<and> flt (fmul (f64_of_u64 (request_budget_ms t)) (rnd (4/5)))
          (fdiv (f64_of_u64 n) (fdiv (f64_of_u64 loaded) (f64_of_u64 elapsed_ms)))"

definition validate_part_count :: "upload_transport \<Rightarrow> u64 \<Rightarrow> u64 \<Rightarrow> (unit, string) result" where
  "validate_part_count t ciphertext_len part_len =
     and_then (transport_validate t) (\<lambda>_.
       if ciphertext_len = 0 \<or> MAX_CIPHERTEXT_BYTES < ciphertext_len
         then Err ''invalid staged ciphertext size''
       else if part_len < part_min_bytes t \<or> part_max_bytes t < part_len
         then Err ''invalid staged part size''
       else
         let count = div_ceil ciphertext_len part_len in
         if (case part_max_count t of None \<Rightarrow> False | Some maximum \<Rightarrow> ucast maximum < count)
         then Err ''staged part count exceeds transport policy'' else Ok ())"

definition remaining_part_count :: "upload_transport \<Rightarrow> u64 \<Rightarrow> u64 \<Rightarrow> u64 \<Rightarrow> (u32, string) result" where
  "remaining_part_count t ciphertext_len offset part_len =
     and_then (validate_part_count t ciphertext_len part_len) (\<lambda>_.
       if ciphertext_len < offset then Err ''staged offset exceeds ciphertext size''
       else ok_or ''staged part count exceeds u32''
              (u32_try_from (div_ceil (ciphertext_len - offset) part_len)))"

section \<open>Retries and chunk layout\<close>

definition retryable_status :: "u16 \<Rightarrow> bool \<Rightarrow> bool" where
  "retryable_status status staging \<longleftrightarrow>
     status = 408 \<or> status = 429 \<or> 500 \<le> status \<or> (staging \<and> status = 423)"

definition retry_delay_ms :: "u32 \<Rightarrow> u64 option \<Rightarrow> u64 \<Rightarrow> u64" where
  "retry_delay_ms attempt retry_after_ms jitter_ms =
     (case retry_after_ms of
        Some delay \<Rightarrow> min delay MAX_RETRY_DELAY_MS
      | None \<Rightarrow>
          let exponent = min attempt 16 in
          min (saturating_add (saturating_mul 250 (push_bit (unat exponent) 1)) jitter_ms)
              MAX_RETRY_DELAY_MS)"

definition chunk_count :: "u64 \<Rightarrow> u64 \<Rightarrow> (u64, string) result" where
  "chunk_count plaintext_bytes chunk_bytes =
     (if chunk_bytes = 0 \<or> MAX_CIPHERTEXT_BYTES - AEAD_TAG_BYTES < chunk_bytes
      then Err ''invalid plaintext chunk size''
      else
        let count = div_ceil plaintext_bytes chunk_bytes in
        if MAX_CHUNKS < count then Err ''chunk count exceeds limit'' else Ok count)"

definition ciphertext_bytes :: "u64 \<Rightarrow> u64 \<Rightarrow> (u64, string) result" where
  "ciphertext_bytes plaintext_bytes chunk_bytes =
     and_then (chunk_count plaintext_bytes chunk_bytes) (\<lambda>count.
     and_then (ok_or ''ciphertext size overflow'' (checked_mul count AEAD_TAG_BYTES)) (\<lambda>tags.
     ok_or ''ciphertext size overflow'' (checked_add plaintext_bytes tags)))"

text \<open>The reference layout: the plaintext cut into pieces of \<open>c\<close> bytes, the last one shorter.\<close>

function pieces :: "nat \<Rightarrow> nat \<Rightarrow> nat list" where
  "pieces n c = (if n = 0 \<or> c = 0 then [] else min n c # pieces (n - c) c)"
  by pat_completeness auto
termination
  by (relation "measure fst") auto

declare pieces.simps [simp del]

section \<open>Sizing stays inside the policy\<close>

lemma transport_validate_Ok:
  "is_ok (transport_validate t) \<longleftrightarrow>
     ut_version t = 1 \<and> 0 < part_min_bytes t \<and> part_min_bytes t \<le> part_max_bytes t
     \<and> part_max_bytes t \<le> MAX_CIPHERTEXT_BYTES \<and> 0 < request_target_ms t
     \<and> request_target_ms t \<le> request_budget_ms t \<and> part_max_count t \<noteq> Some 0"
  by (auto simp: transport_validate_def word_gt_0 not_less)

lemma validate_eq_Ok: "transport_validate t = Inr u \<longleftrightarrow> is_ok (transport_validate t)"
  by (cases "transport_validate t") auto

lemma valid_part_range:
  assumes "is_ok (transport_validate t)"
  shows "0 < unat (part_min_bytes t)" "unat (part_min_bytes t) \<le> unat (part_max_bytes t)"
    "unat (part_max_bytes t) \<le> 25000000"
  using assms by (auto simp: transport_validate_Ok MAX_CIPHERTEXT_BYTES_def word_le_nat_alt word_less_nat_alt)

text \<open>Whatever the estimate, short of \<open>NaN\<close>, clamping it to exact bounds and truncating it gives
  a value between the bounds.\<close>

lemma clamp_truncate:
  assumes "lo \<le> hi" and "hi \<le> 25000000" and "v \<noteq> NaN"
  shows "lo \<le> unat (u64_of_f64 (fclamp (Fin (of_nat lo)) (Fin (of_nat hi)) v))
    \<and> unat (u64_of_f64 (fclamp (Fin (of_nat lo)) (Fin (of_nat hi)) v)) \<le> hi"
proof -
  have "\<exists>x. fclamp (Fin (of_nat lo)) (Fin (of_nat hi)) v = Fin x \<and> of_nat lo \<le> x \<and> x \<le> of_nat hi"
    using assms by (cases v) (auto simp: fclamp_def)
  then obtain x where "fclamp (Fin (of_nat lo)) (Fin (of_nat hi)) v = Fin x"
    "of_nat lo \<le> x" "x \<le> of_nat hi" by blast
  then show ?thesis using u64_of_f64_between [of lo x hi] assms(2) by simp
qed

lemma fmul_pos_not_NaN:
  "is_finite a \<Longrightarrow> flt (Fin 0) a \<Longrightarrow> 0 < y \<Longrightarrow> fmul a (Fin y) \<noteq> NaN \<and> fmul a (Fin y) \<noteq> NInf"
  by (cases a) (auto simp: rnd_def)

lemma estimate_not_NaN:
  assumes "is_finite r" "flt (Fin 0) r" "0 < y"
  shows "ffloor (fmul (fmul r (Fin y)) (Fin (3/4))) \<noteq> NaN"
proof -
  have "fmul r (Fin y) \<noteq> NaN \<and> fmul r (Fin y) \<noteq> NInf" using assms by (rule fmul_pos_not_NaN)
  then show ?thesis by (cases "fmul r (Fin y)") (auto simp: rnd_def)
qed

lemma part_bytes_range:
  assumes ok: "is_ok (transport_validate t)"
  shows "unat (part_min_bytes t) \<le> unat (part_bytes t r)
    \<and> unat (part_bytes t r) \<le> unat (part_max_bytes t)"
proof -
  note range = valid_part_range [OF ok]
  have "request_target_ms t \<noteq> 0" using ok by (auto simp: transport_validate_Ok)
  then obtain y where y: "f64_of_u64 (request_target_ms t) = Fin y" "1 \<le> y"
    by (rule f64_of_u64_ge_1)
  have lo: "f64_of_u64 (part_min_bytes t) = Fin (of_nat (unat (part_min_bytes t)))"
    by (rule f64_of_u64_exact) (use range in simp)
  have hi: "f64_of_u64 (part_max_bytes t) = Fin (of_nat (unat (part_max_bytes t)))"
    by (rule f64_of_u64_exact) (use range in simp)
  define v where "v = (if is_finite r \<and> flt (Fin 0) r
    then ffloor (fmul (fmul r (f64_of_u64 (request_target_ms t))) (Fin (3/4)))
    else f64_of_u64 (part_min_bytes t))"
  have nn: "v \<noteq> NaN" using estimate_not_NaN [of r y] y lo by (auto simp: v_def)
  have eq: "part_bytes t r
      = u64_of_f64 (fclamp (f64_of_u64 (part_min_bytes t)) (f64_of_u64 (part_max_bytes t)) v)"
    using ok by (simp only: part_bytes_def v_def Let_def not_True_eq_False if_False)
  show ?thesis unfolding eq lo hi by (rule clamp_truncate [OF range(2,3) nn])
qed

lemma clamp_between: "lo \<le> hi \<Longrightarrow> unat lo \<le> unat (clamp lo hi x) \<and> unat (clamp lo hi x) \<le> unat hi"
  using clamp_bounds [of lo hi x] by (simp add: word_le_nat_alt)

section \<open>Counting parts and chunks\<close>

lemma pieces_0 [simp]: "pieces 0 c = []"
  by (simp add: pieces.simps [of 0 c])

lemma pieces_rec: "0 < n \<Longrightarrow> 0 < c \<Longrightarrow> pieces n c = min n c # pieces (n - c) c"
  by (simp add: pieces.simps [of n c])

lemma length_pieces: "0 < c \<Longrightarrow> length (pieces n c) = ceil_div n c"
proof (induction n c rule: pieces.induct)
  case (1 n c)
  show ?case
  proof (cases "n = 0")
    case False
    then have IH: "length (pieces (n - c) c) = ceil_div (n - c) c" using 1 by simp
    show ?thesis
      by (cases "c \<le> n") (use IH False 1 in \<open>simp_all add: pieces_rec [of n c] ceil_div_step ceil_div_small\<close>)
  qed simp
qed

lemma pieces_props: "0 < c \<Longrightarrow> sum_list (pieces n c) = n \<and> (\<forall>p \<in> set (pieces n c). 0 < p \<and> p \<le> c)"
proof (induction n c rule: pieces.induct)
  case (1 n c)
  show ?case
  proof (cases "n = 0")
    case False
    with 1 have "sum_list (pieces (n - c) c) = n - c \<and> (\<forall>p \<in> set (pieces (n - c) c). 0 < p \<and> p \<le> c)"
      by simp
    with False 1(2) show ?thesis by (simp add: pieces_rec [of n c])
  qed simp
qed

lemma sum_add_const: "sum_list (map (\<lambda>p. p + k) ps) = sum_list ps + k * length (ps :: nat list)"
  by (induction ps) auto

lemma unat_max_chunk: "unat (MAX_CIPHERTEXT_BYTES - AEAD_TAG_BYTES) = 24999984"
  by (simp add: MAX_CIPHERTEXT_BYTES_def AEAD_TAG_BYTES_def)

lemma chunk_count_Ok:
  "chunk_count p c = Inr n \<longleftrightarrow>
     0 < unat c \<and> unat c \<le> 24999984 \<and> unat n = ceil_div (unat p) (unat c) \<and> unat n \<le> 65535"
proof -
  have "MAX_CIPHERTEXT_BYTES - AEAD_TAG_BYTES < c \<longleftrightarrow> 24999984 < unat c"
    by (simp add: word_less_nat_alt unat_max_chunk)
  moreover have "MAX_CHUNKS < div_ceil p c \<longleftrightarrow> 65535 < ceil_div (unat p) (unat c)" if "c \<noteq> 0"
    using that by (simp add: word_less_nat_alt MAX_CHUNKS_def unat_div_ceil)
  moreover have "div_ceil p c = n \<longleftrightarrow> unat n = ceil_div (unat p) (unat c)" if "c \<noteq> 0"
    using that by (metis unat_div_ceil word_unat_eq_iff)
  moreover have "c \<noteq> 0 \<longleftrightarrow> 0 < unat c" by (simp add: unat_gt_0)
  ultimately show ?thesis by (auto simp: chunk_count_def Let_def)
qed

section \<open>Properties\<close>

text \<open>With a valid policy every part size the sizing functions return, for any measured rate
  (infinite, negative or not a number included), any previous size and any timing, lies
  between the policy's minimum and maximum; growth is at most one and a half times the
  previous size, or the minimum; an invalid policy always yields zero.\<close>

theorem part_sizes_respect_policy:
  "if is_ok (transport_validate t)
   then part_min_bytes t \<le> part_bytes t rate \<and> part_bytes t rate \<le> part_max_bytes t
     \<and> part_min_bytes t \<le> grow_part t prev n ms \<and> grow_part t prev n ms \<le> part_max_bytes t
     \<and> unat (grow_part t prev n ms) \<le> max (unat (part_min_bytes t)) (unat prev * 3 div 2)
     \<and> part_min_bytes t \<le> shrink_part t prev \<and> shrink_part t prev \<le> part_max_bytes t
   else part_bytes t rate = 0 \<and> grow_part t prev n ms = 0 \<and> shrink_part t prev = 0"
proof (cases "is_ok (transport_validate t)")
  case True
  then have le: "part_min_bytes t \<le> part_max_bytes t" by (simp add: transport_validate_Ok)
  define target where "target = (if ms = 0 then prev
    else part_bytes t (fdiv (f64_of_u64 n) (f64_of_u64 ms)))"
  have grow: "grow_part t prev n ms
      = clamp (part_min_bytes t) (part_max_bytes t) (min target (saturating_mul prev 3 div 2))"
    using True by (simp add: grow_part_def target_def)
  have "unat (saturating_mul prev 3 div 2) \<le> unat prev * 3 div 2"
    by (simp add: unat_div rust_arith div_le_mono)
  moreover have "unat (clamp lo hi x) \<le> max (unat lo) (unat x)" for lo hi x :: u64
    by (auto simp: clamp_def word_less_nat_alt)
  ultimately have "unat (grow_part t prev n ms) \<le> max (unat (part_min_bytes t)) (unat prev * 3 div 2)"
    unfolding grow unat_min_word by (smt (verit) le_max_iff_disj min.cobounded2 order_trans unat_min_word)
  then show ?thesis
    using True part_bytes_range [OF True, of rate] clamp_bounds [OF le] grow
    by (simp add: word_le_nat_alt [symmetric] shrink_part_def)
next
  case False
  then show ?thesis by (simp add: part_bytes_def grow_part_def shrink_part_def)
qed

text \<open>A staged layout that passes \<open>validate_part_count\<close> has an exact number of remaining
  requests at every offset inside the ciphertext: the ceiling of the remaining bytes over the
  part size, at most the policy's count, zero exactly at the end. The conversion to \<open>u32\<close>
  never fails.\<close>

theorem remaining_parts_exact:
  assumes "validate_part_count t len part = Ok ()" and "off \<le> len"
  shows "\<exists>n. remaining_part_count t len off part = Ok n
    \<and> unat n = ceil_div (unat len - unat off) (unat part)
    \<and> (n = 0 \<longleftrightarrow> off = len)
    \<and> (case part_max_count t of None \<Rightarrow> True | Some k \<Rightarrow> n \<le> k)"
proof -
  have ok: "is_ok (transport_validate t)" and len: "unat len \<le> 25000000"
    and part: "part_min_bytes t \<le> part"
    and cnt: "\<not> (case part_max_count t of None \<Rightarrow> False | Some k \<Rightarrow> ucast k < div_ceil len part)"
    using assms(1)
    by (auto simp: validate_part_count_def validate_eq_Ok Let_def not_less word_le_nat_alt
        MAX_CIPHERTEXT_BYTES_def split: if_splits)
  have pos: "0 < unat part"
    using part valid_part_range(1) [OF ok] by (simp add: word_le_nat_alt)
  then have part0: "part \<noteq> 0" by auto
  define m where "m = ceil_div (unat len - unat off) (unat part)"
  have dc: "unat (div_ceil (len - off) part) = m"
    using assms(2) part0 by (simp add: m_def unat_div_ceil unat_sub)
  have "m \<le> ceil_div (unat len) (unat part)" by (simp add: m_def ceil_div_mono)
  moreover have "ceil_div (unat len) (unat part) \<le> 25000000"
  proof -
    have "unat len * 1 \<le> 25000000 * unat part" using len pos by (intro mult_le_mono) auto
    then show ?thesis using pos by (simp add: ceil_div_le_iff)
  qed
  ultimately have m: "m < 2 ^ 32" and mlen: "m \<le> ceil_div (unat len) (unat part)" by simp_all
  then obtain n where n: "u32_try_from (div_ceil (len - off) part) = Some n" and un: "unat n = m"
    using dc by (cases "u32_try_from (div_ceil (len - off) part)") (auto simp: rust_arith)
  have "remaining_part_count t len off part = Ok n"
    using assms n by (simp add: remaining_part_count_def not_less)
  moreover have "n = 0 \<longleftrightarrow> off = len"
    using un pos assms(2) by (auto simp: m_def unat_eq_0 [symmetric] word_le_nat_alt word_unat_eq_iff)
  moreover have "case part_max_count t of None \<Rightarrow> True | Some k \<Rightarrow> n \<le> k"
    using cnt mlen un part0
    by (auto simp: word_le_nat_alt word_less_nat_alt not_less unat_div_ceil unat_ucast_up_32_64
        split: option.splits)
  ultimately show ?thesis using un m_def by blast
qed

definition example_transport :: upload_transport where
  "example_transport = \<lparr>ut_version = 1, part_min_bytes = 100, part_max_bytes = 1000,
     request_target_ms = 100, request_budget_ms = 200, part_max_count = Some 8\<rparr>"

theorem remaining_parts_exact_witness:
  "\<exists>n. remaining_part_count example_transport 800 300 100 = Ok n \<and> unat n = ceil_div 500 100"
  using remaining_parts_exact [of example_transport 800 100 300]
  by (auto simp: validate_part_count_def transport_validate_def example_transport_def
      MAX_CIPHERTEXT_BYTES_def div_ceil_def)

text \<open>The retry delay never exceeds a minute; without a \<open>Retry-After\<close> it is the doubled base
  of 250 ms plus the jitter, capped at a minute, with the exponent capped at 16, and it never
  decreases from one attempt to the next.\<close>

theorem retry_delay_bounded_backoff:
  "unat (retry_delay_ms attempt after jitter) \<le> 60000
   \<and> unat (retry_delay_ms attempt None jitter)
       = min (250 * 2 ^ min (unat attempt) 16 + unat jitter) 60000
   \<and> retry_delay_ms attempt None jitter \<le> retry_delay_ms (max attempt later) None jitter"
proof -
  have shift: "unat (push_bit k (1 :: u64)) = 2 ^ k" if "k \<le> 16" for k
  proof -
    have "(2 :: nat) ^ k \<le> 2 ^ 16" using that by (rule power_increasing) simp
    then have "unat (of_nat (2 ^ k) :: u64) = 2 ^ k" by (intro unat_of_nat_less) simp
    then show ?thesis by simp
  qed
  have val: "unat (retry_delay_ms a None j) = min (250 * 2 ^ min (unat a) 16 + unat j) 60000" for a j
  proof -
    define k where "k = min (unat a) 16"
    have k: "unat (min a 16) = k" by (simp add: k_def unat_min_word)
    have "(2 :: nat) ^ k \<le> 2 ^ 16" unfolding k_def by (rule power_increasing) simp_all
    then have "250 * 2 ^ k \<le> (2 ^ 64 - 1 :: nat)" by simp
    then show ?thesis
      using shift [of k] unfolding k_def [symmetric]
      by (simp add: retry_delay_ms_def Let_def rust_arith k MAX_RETRY_DELAY_MS_def k_def)
  qed
  have "(2 :: nat) ^ min (unat attempt) 16 \<le> 2 ^ min (unat (max attempt later)) 16"
    by (intro power_increasing) (auto simp: rust_arith)
  moreover have "min (250 * x + unat jitter) 60000 \<le> min (250 * y + unat jitter) 60000"
    if "x \<le> y" for x y using that by auto
  ultimately have "retry_delay_ms attempt None jitter \<le> retry_delay_ms (max attempt later) None jitter"
    unfolding word_le_nat_alt val by blast
  moreover have "unat (retry_delay_ms attempt after jitter) \<le> 60000"
    by (cases after) (simp_all add: val retry_delay_ms_def unat_min_word MAX_RETRY_DELAY_MS_def)
  ultimately show ?thesis using val by blast
qed

text \<open>The encrypted size is that of the chunk layout: whenever the chunk count is accepted,
  the count is the number of pieces of the plaintext, the ciphertext size is the sum of the
  pieces each with its 16-byte tag, no arithmetic overflows, and every encrypted chunk is at
  most 25,000,000 bytes; otherwise both functions fail.\<close>

theorem ciphertext_size_is_sum_of_chunks:
  "case chunk_count p c of
     Inl e \<Rightarrow> ciphertext_bytes p c = Err e
   | Inr n \<Rightarrow> unat n = length (pieces (unat p) (unat c))
       \<and> (\<exists>m. ciphertext_bytes p c = Ok m
            \<and> unat m = sum_list (map (\<lambda>piece. piece + 16) (pieces (unat p) (unat c))))
       \<and> list_all (\<lambda>piece. 0 < piece \<and> piece + 16 \<le> 25000000) (pieces (unat p) (unat c))"
proof (cases "chunk_count p c")
  case (Inl e)
  then show ?thesis by (simp add: ciphertext_bytes_def)
next
  case (Inr n)
  then have c: "0 < unat c" "unat c \<le> 24999984" and n: "unat n = ceil_div (unat p) (unat c)" "unat n \<le> 65535"
    by (auto simp: chunk_count_Ok)
  have "unat p \<le> unat n * unat c" using ceil_div_covers [OF c(1)] n by simp
  also have "\<dots> \<le> 65535 * 24999984" using n c by (intro mult_le_mono) auto
  finally have p: "unat p \<le> 65535 * 24999984" .
  have "unat (of_nat (16 * unat n) :: u64) = 16 * unat n"
    using n by (intro unat_of_nat_less) simp
  then have tags: "checked_mul n AEAD_TAG_BYTES = Some (of_nat (16 * unat n))"
    by (simp only: checked_mul_Some AEAD_TAG_BYTES_def) simp
  have total: "unat (of_nat (unat p + 16 * unat n) :: u64) = unat p + 16 * unat n"
    using p n by (intro unat_of_nat_less) simp
  have "checked_add p (of_nat (16 * unat n)) = Some (of_nat (unat p + 16 * unat n))"
    using total \<open>unat (of_nat (16 * unat n) :: u64) = 16 * unat n\<close> by (simp only: checked_add_Some)
  with tags Inr have "ciphertext_bytes p c = Ok (of_nat (unat p + 16 * unat n))"
    by (simp only: ciphertext_bytes_def and_then_simps ok_or_simps)
  moreover note pr = pieces_props [OF c(1), of "unat p"]
  moreover have "unat n = length (pieces (unat p) (unat c))" using n c by (simp add: length_pieces)
  ultimately show ?thesis using total c Inr by (fastforce simp: sum_add_const list_all_iff)
qed

end
