(* ===== verification/Wire.thy ===== *)
theory Wire
  imports Transport
begin

text \<open>
  The WebRTC wire formats of \<open>crates/transfer/src/lib.rs\<close>: JSON control messages and binary
  \<open>FBCH\<close> frames. JSON itself is the \<open>serde_json\<close> crate, which is a parameter (\<open>json_api\<close>);
  what the derived serialiser hands to it is \<open>control_fields\<close>. The frame codec is shown to be
  a bijection between the frames it accepts and the byte strings it accepts, and every control
  message a peer can make the parser return satisfies the protocol's bounds.
\<close>

section \<open>Control messages\<close>

definition WEBRTC_CONTROL_LIMIT :: nat where "WEBRTC_CONTROL_LIMIT = 1024"
definition WEBRTC_MAX_ITEM_ID_UNITS :: nat where "WEBRTC_MAX_ITEM_ID_UNITS = 256"
definition WEBRTC_FRAME_HEADER_BYTES :: nat where "WEBRTC_FRAME_HEADER_BYTES = 16"
definition WEBRTC_FRAME_PAYLOAD_BYTES :: nat where "WEBRTC_FRAME_PAYLOAD_BYTES = 16 * 1024"
definition WEBRTC_FRAME_MAGIC :: u32 where "WEBRTC_FRAME_MAGIC = 0x46424348"
definition MAX_SAFE_INTEGER :: u64 where "MAX_SAFE_INTEGER = 9007199254740991"

lemmas wire_consts = WEBRTC_CONTROL_LIMIT_def WEBRTC_MAX_ITEM_ID_UNITS_def
  WEBRTC_FRAME_HEADER_BYTES_def WEBRTC_FRAME_PAYLOAD_BYTES_def WEBRTC_FRAME_MAGIC_def

datatype webrtc_control =
    Request u32 rstr u64
  | Chunk u32 rstr u64 u64
  | Ack u32

text \<open>What \<open>derive(Serialize)\<close> with \<open>tag = "type"\<close> and the renamed fields emits: the tag first,
  then the fields in declaration order.\<close>

datatype json_leaf = JStr rstr | JNum u64

fun control_fields :: "webrtc_control \<Rightarrow> (rstr \<times> json_leaf) list" where
  "control_fields (Request seq item_id index) =
     [(lit ''type'', JStr (lit ''request'')), (lit ''seq'', JNum (ucast seq)),
      (lit ''itemId'', JStr item_id), (lit ''index'', JNum index)]"
| "control_fields (Chunk seq item_id index len) =
     [(lit ''type'', JStr (lit ''chunk'')), (lit ''seq'', JNum (ucast seq)),
      (lit ''itemId'', JStr item_id), (lit ''index'', JNum index), (lit ''length'', JNum len)]"
| "control_fields (Ack seq) =
     [(lit ''type'', JStr (lit ''ack'')), (lit ''seq'', JNum (ucast seq))]"

text \<open>The operations of \<open>serde_json\<close> the code calls, over an opaque type of JSON values.\<close>

record 'v json_api =
  json_from_str :: "rstr \<Rightarrow> 'v option"
  json_as_object :: "'v \<Rightarrow> (rstr \<rightharpoonup> 'v) option"
  json_as_str :: "'v \<Rightarrow> rstr option"
  json_as_u64 :: "'v \<Rightarrow> u64 option"
  json_as_f64 :: "'v \<Rightarrow> f64 option"
  json_to_string :: "(rstr \<times> json_leaf) list \<Rightarrow> rstr option"

definition validate_item_id :: "rstr \<Rightarrow> (unit, string) result" where
  "validate_item_id item_id =
     (if item_id = [] \<or> WEBRTC_MAX_ITEM_ID_UNITS < utf16_len item_id
      then Err ''invalid WebRTC item ID'' else Ok ())"

definition validate_safe_integer :: "u64 \<Rightarrow> (unit, string) result" where
  "validate_safe_integer v =
     (if MAX_SAFE_INTEGER < v then Err ''invalid WebRTC integer'' else Ok ())"

fun control_validate :: "webrtc_control \<Rightarrow> (unit, string) result" where
  "control_validate (Request seq item_id index) =
     and_then (validate_item_id item_id) (\<lambda>_. validate_safe_integer index)"
| "control_validate (Chunk seq item_id index len) =
     and_then (validate_item_id item_id) (\<lambda>_.
       and_then (validate_safe_integer index) (\<lambda>_.
         if \<not> (AEAD_TAG_BYTES \<le> len \<and> len \<le> MAX_CIPHERTEXT_BYTES)
         then Err ''invalid WebRTC chunk length'' else Ok ()))"
| "control_validate (Ack seq) = Ok ()"

definition control_request :: "u32 \<Rightarrow> rstr \<Rightarrow> u64 \<Rightarrow> (webrtc_control, string) result" where
  "control_request seq item_id index =
     (let message = Request seq item_id index in
      and_then (control_validate message) (\<lambda>_. Ok message))"

definition control_chunk :: "u32 \<Rightarrow> rstr \<Rightarrow> u64 \<Rightarrow> u64 \<Rightarrow> (webrtc_control, string) result" where
  "control_chunk seq item_id index len =
     (let message = Chunk seq item_id index len in
      and_then (control_validate message) (\<lambda>_. Ok message))"

definition control_ack :: "u32 \<Rightarrow> webrtc_control" where
  "control_ack seq = Ack seq"

definition control_item_id :: "'v json_api \<Rightarrow> 'v option \<Rightarrow> (rstr, string) result" where
  "control_item_id api v = ok_or ''invalid WebRTC item ID'' (Option.bind v (json_as_str api))"

definition integer_of_f64 :: "f64 \<Rightarrow> u64 option" where
  "integer_of_f64 number =
     (if is_finite number \<and> fle (Fin 0) number \<and> fle number (f64_of_u64 MAX_SAFE_INTEGER)
         \<and> \<not> has_fract number
      then Some (u64_of_f64 number) else None)"

definition control_integer :: "'v json_api \<Rightarrow> 'v option \<Rightarrow> (u64, string) result" where
  "control_integer api v =
     and_then (ok_or ''invalid WebRTC integer'' v) (\<lambda>w.
     and_then (ok_or ''invalid WebRTC integer''
                 (case json_as_u64 api w of
                    Some n \<Rightarrow> Some n
                  | None \<Rightarrow> Option.bind (json_as_f64 api w) integer_of_f64)) (\<lambda>integer.
     and_then (validate_safe_integer integer) (\<lambda>_. Ok integer)))"

definition control_u32 :: "'v json_api \<Rightarrow> 'v option \<Rightarrow> (u32, string) result" where
  "control_u32 api v =
     and_then (control_integer api v) (\<lambda>n. ok_or ''invalid WebRTC sequence'' (u32_try_from n))"

definition control_of_object ::
  "'v json_api \<Rightarrow> (rstr \<rightharpoonup> 'v) \<Rightarrow> rstr \<Rightarrow> u32 \<Rightarrow> (webrtc_control, string) result" where
  "control_of_object api object kind seq =
     (if kind = lit ''request'' then
        and_then (control_item_id api (object (lit ''itemId''))) (\<lambda>item_id.
        and_then (control_integer api (object (lit ''index''))) (\<lambda>index.
        control_request seq item_id index))
      else if kind = lit ''chunk'' then
        and_then (control_item_id api (object (lit ''itemId''))) (\<lambda>item_id.
        and_then (control_integer api (object (lit ''index''))) (\<lambda>index.
        and_then (control_integer api (object (lit ''length''))) (\<lambda>len.
        control_chunk seq item_id index len)))
      else if kind = lit ''ack'' then Ok (control_ack seq)
      else Err ''unknown WebRTC control frame type'')"

definition parse_webrtc_control :: "'v json_api \<Rightarrow> rstr \<Rightarrow> (webrtc_control, string) result" where
  "parse_webrtc_control api txt =
     (if WEBRTC_CONTROL_LIMIT < utf16_len txt then Err ''WebRTC control frame is too large''
      else
        and_then (ok_or ''invalid WebRTC control frame'' (json_from_str api txt)) (\<lambda>v.
        and_then (ok_or ''invalid WebRTC control frame'' (json_as_object api v)) (\<lambda>object.
        and_then (ok_or ''invalid WebRTC control frame''
                    (Option.bind (object (lit ''type'')) (json_as_str api))) (\<lambda>kind.
        and_then (control_u32 api (object (lit ''seq''))) (\<lambda>seq.
        control_of_object api object kind seq)))))"

definition encode_webrtc_control :: "'v json_api \<Rightarrow> webrtc_control \<Rightarrow> (rstr, string) result" where
  "encode_webrtc_control api message =
     and_then (control_validate message) (\<lambda>_.
     and_then (ok_or ''unable to encode WebRTC control frame''
                 (json_to_string api (control_fields message))) (\<lambda>txt.
     if WEBRTC_CONTROL_LIMIT < utf16_len txt then Err ''WebRTC control frame is too large''
     else Ok txt))"

section \<open>Binary frames\<close>

record webrtc_frame =
  fr_seq :: u32
  fr_offset :: u32
  fr_payload :: "u8 list"

definition validate_frame_payload :: "u8 list \<Rightarrow> (unit, string) result" where
  "validate_frame_payload payload =
     (if payload = [] \<or> WEBRTC_FRAME_PAYLOAD_BYTES < length payload
      then Err ''invalid WebRTC frame payload length'' else Ok ())"

definition frame_new :: "u32 \<Rightarrow> u32 \<Rightarrow> u8 list \<Rightarrow> (webrtc_frame, string) result" where
  "frame_new seq offset payload =
     and_then (validate_frame_payload payload) (\<lambda>_.
       Ok \<lparr>fr_seq = seq, fr_offset = offset, fr_payload = payload\<rparr>)"

definition validate_for_chunk :: "webrtc_frame \<Rightarrow> u32 \<Rightarrow> u64 \<Rightarrow> u64 \<Rightarrow> (unit, string) result" where
  "validate_for_chunk frame expected_seq received expected_bytes =
     (if \<not> (AEAD_TAG_BYTES \<le> expected_bytes \<and> expected_bytes \<le> MAX_CIPHERTEXT_BYTES)
        then Err ''invalid expected WebRTC chunk length''
      else if fr_seq frame \<noteq> expected_seq \<or> ucast (fr_offset frame) \<noteq> received
        then Err ''unexpected WebRTC frame sequence or offset''
      else
        and_then (ok_or ''WebRTC frame offset overflow''
                    (checked_add received (of_nat (length (fr_payload frame))))) (\<lambda>end_offset.
        if expected_bytes < end_offset then Err ''WebRTC frame exceeds chunk bounds'' else Ok ()))"

text \<open>\<open>u32::try_from\<close> of a length (a \<open>usize\<close>, here a natural number).\<close>

definition u32_try_from_usize :: "nat \<Rightarrow> u32 option" where
  "u32_try_from_usize n = (if n < 2 ^ 32 then Some (of_nat n) else None)"

definition encode_webrtc_frame :: "webrtc_frame \<Rightarrow> (u8 list, string) result" where
  "encode_webrtc_frame frame =
     and_then (validate_frame_payload (fr_payload frame)) (\<lambda>_.
     and_then (ok_or ''WebRTC frame payload is too large''
                 (u32_try_from_usize (length (fr_payload frame)))) (\<lambda>len.
     Ok (be32 WEBRTC_FRAME_MAGIC @ be32 (fr_seq frame) @ be32 (fr_offset frame) @ be32 len
         @ fr_payload frame)))"

text \<open>\<open>bytes[a..b]\<close>; the calls are guarded by the length check above them.\<close>

definition subslice :: "nat \<Rightarrow> nat \<Rightarrow> 'a list \<Rightarrow> 'a list" where
  "subslice a b xs = take (b - a) (drop a xs)"

definition parse_webrtc_frame :: "u8 list \<Rightarrow> (webrtc_frame, string) result" where
  "parse_webrtc_frame bs =
     (if length bs \<le> WEBRTC_FRAME_HEADER_BYTES
         \<or> WEBRTC_FRAME_HEADER_BYTES + WEBRTC_FRAME_PAYLOAD_BYTES < length bs
        then Err ''invalid WebRTC binary frame length''
      else if from_be (subslice 0 4 bs) \<noteq> WEBRTC_FRAME_MAGIC
        then Err ''invalid WebRTC binary frame magic''
      else
        let seq = from_be (subslice 4 8 bs); offset = from_be (subslice 8 12 bs);
            len = from_be (subslice 12 16 bs) :: u32;
            payload = drop WEBRTC_FRAME_HEADER_BYTES bs
        in if unat len \<noteq> length payload
           then Err ''WebRTC frame length does not match payload''
           else frame_new seq offset payload)"

section \<open>Control messages are validated\<close>

text \<open>The bounds every control message must satisfy, as the protocol states them.\<close>

fun control_in_bounds :: "webrtc_control \<Rightarrow> bool" where
  "control_in_bounds (Request seq item_id index) \<longleftrightarrow>
     item_id \<noteq> [] \<and> utf16_len item_id \<le> 256 \<and> unat index < 2 ^ 53"
| "control_in_bounds (Chunk seq item_id index len) \<longleftrightarrow>
     item_id \<noteq> [] \<and> utf16_len item_id \<le> 256 \<and> unat index < 2 ^ 53
     \<and> 16 \<le> unat len \<and> unat len \<le> 25000000"
| "control_in_bounds (Ack seq) \<longleftrightarrow> True"

lemma unat_MAX_SAFE_INTEGER: "unat MAX_SAFE_INTEGER = 2 ^ 53 - 1"
  by (simp add: MAX_SAFE_INTEGER_def)

lemma validate_item_id_Ok [simp]:
  "validate_item_id s = Inr u \<longleftrightarrow> s \<noteq> [] \<and> utf16_len s \<le> WEBRTC_MAX_ITEM_ID_UNITS"
  by (auto simp: validate_item_id_def)

lemma validate_safe_integer_Ok [simp]: "validate_safe_integer v = Inr u \<longleftrightarrow> unat v < 2 ^ 53"
  by (auto simp: validate_safe_integer_def word_less_nat_alt unat_MAX_SAFE_INTEGER)

lemma control_validate_iff: "control_validate m = Inr u \<longleftrightarrow> control_in_bounds m"
  by (cases m) (auto simp: wire_consts AEAD_TAG_BYTES_def MAX_CIPHERTEXT_BYTES_def word_le_nat_alt)

lemma control_request_Ok [simp]:
  "control_request seq i n = Inr m \<longleftrightarrow> m = Request seq i n \<and> control_in_bounds m"
  unfolding control_request_def Let_def
  by (simp add: control_validate_iff del: control_validate.simps control_in_bounds.simps) blast

lemma control_chunk_Ok [simp]:
  "control_chunk seq i n l = Inr m \<longleftrightarrow> m = Chunk seq i n l \<and> control_in_bounds m"
  unfolding control_chunk_def Let_def
  by (simp add: control_validate_iff del: control_validate.simps control_in_bounds.simps) blast

lemma control_of_object_Ok:
  "control_of_object api ob kind seq = Inr m \<Longrightarrow> control_in_bounds m"
  by (auto simp: control_of_object_def control_ack_def simp del: control_in_bounds.simps
      split: if_splits) simp_all

lemma parse_webrtc_control_Ok:
  "parse_webrtc_control api t = Inr m \<Longrightarrow> control_in_bounds m \<and> utf16_len t \<le> 1024"
  by (auto simp: parse_webrtc_control_def wire_consts dest: control_of_object_Ok split: if_splits)

text \<open>C33. Whatever text a peer sends and whatever JSON parser is underneath, a control message
  that the parser returns is inside the protocol bounds: an item id of 1 to 256 UTF-16 units, a
  chunk index below \<open>2^53\<close>, a declared ciphertext length between the tag size and the maximum
  ciphertext size; and the text it came from has at most 1024 UTF-16 units.\<close>

theorem control_parser_enforces_bounds:
  "case parse_webrtc_control api txt of
     Inl _ \<Rightarrow> True
   | Inr m \<Rightarrow> control_in_bounds m \<and> utf16_len txt \<le> 1024"
  using parse_webrtc_control_Ok [of api "txt"] by (auto split: sum.split)

section \<open>Control messages round trip\<close>

text \<open>What the code relies on from \<open>serde_json\<close> for one message: the serialised object parses
  back to an object with the same members.\<close>

definition leaf_reads :: "'v json_api \<Rightarrow> 'v \<Rightarrow> json_leaf \<Rightarrow> bool" where
  "leaf_reads api v leaf \<longleftrightarrow>
     (case leaf of JStr s \<Rightarrow> json_as_str api v = Some s | JNum n \<Rightarrow> json_as_u64 api v = Some n)"

definition json_faithful :: "'v json_api \<Rightarrow> (rstr \<times> json_leaf) list \<Rightarrow> rstr \<Rightarrow> bool" where
  "json_faithful api fs txt \<longleftrightarrow>
     (case Option.bind (json_from_str api txt) (json_as_object api) of
        None \<Rightarrow> False
      | Some object \<Rightarrow>
          list_all (\<lambda>(key, leaf). case object key of None \<Rightarrow> False | Some v \<Rightarrow> leaf_reads api v leaf)
            fs)"

lemma json_faithfulE:
  assumes "json_faithful api fs t"
  obtains v ob where "json_from_str api t = Some v" "json_as_object api v = Some ob"
    "\<And>k leaf. (k, leaf) \<in> set fs \<Longrightarrow> \<exists>w. ob k = Some w \<and> leaf_reads api w leaf"
proof -
  from assms obtain v ob where v: "json_from_str api t = Some v" "json_as_object api v = Some ob"
    and all: "list_all (\<lambda>(key, leaf). case ob key of None \<Rightarrow> False
                                   | Some v \<Rightarrow> leaf_reads api v leaf) fs"
    by (auto simp: json_faithful_def split: option.splits bind_splits)
  have "\<exists>w. ob k = Some w \<and> leaf_reads api w leaf" if "(k, leaf) \<in> set fs" for k leaf
    using all that by (auto simp: list_all_iff split: option.splits dest: bspec)
  then show thesis using v by (rule that [rotated -1])
qed

lemma control_integer_reads:
  "leaf_reads api w (JNum n) \<Longrightarrow> unat n < 2 ^ 53 \<Longrightarrow> control_integer api (Some w) = Inr n"
  by (simp add: leaf_reads_def control_integer_def)

lemma u32_try_from_ucast [simp]: "u32_try_from (ucast (x :: u32)) = Some x"
  by (simp add: u32_try_from_Some unat_ucast_up_32_64)

lemma control_u32_reads:
  assumes "leaf_reads api w (JNum (ucast (seq :: u32)))"
  shows "control_u32 api (Some w) = Inr seq"
proof -
  have "unat (ucast seq :: u64) < 2 ^ 53"
    using unat_less_2p [of seq] by (simp add: unat_ucast_up_32_64)
  with assms show ?thesis by (simp add: control_u32_def control_integer_reads)
qed

lemma control_item_id_reads:
  "leaf_reads api w (JStr s) \<Longrightarrow> control_item_id api (Some w) = Inr s"
  by (simp add: leaf_reads_def control_item_id_def)

lemma kind_reads: "leaf_reads api w (JStr s) \<Longrightarrow> json_as_str api w = Some s"
  by (simp add: leaf_reads_def)

lemmas json_reads = control_integer_reads control_u32_reads control_item_id_reads kind_reads

lemma parse_encoded:
  assumes "encode_webrtc_control api m = Inr t" "json_faithful api (control_fields m) t"
  shows "parse_webrtc_control api t = Inr m"
proof -
  from assms(1) have ok: "control_in_bounds m" "\<not> WEBRTC_CONTROL_LIMIT < utf16_len t"
    by (auto simp: encode_webrtc_control_def control_validate_iff simp del: control_in_bounds.simps
        split: if_splits)
  from assms(2) obtain v ob where v: "json_from_str api t = Some v" "json_as_object api v = Some ob"
    and fields: "\<And>k leaf. (k, leaf) \<in> set (control_fields m)
                    \<Longrightarrow> \<exists>w. ob k = Some w \<and> leaf_reads api w leaf"
    by (rule json_faithfulE) blast
  show ?thesis
  proof (cases m)
    case (Request seq i n)
    from fields [of "lit ''type''"] fields [of "lit ''seq''"] fields [of "lit ''itemId''"]
      fields [of "lit ''index''"]
    show ?thesis using ok v
      by (auto simp: Request parse_webrtc_control_def control_of_object_def json_reads)
  next
    case (Chunk seq i n l)
    from fields [of "lit ''type''"] fields [of "lit ''seq''"] fields [of "lit ''itemId''"]
      fields [of "lit ''index''"] fields [of "lit ''length''"]
    show ?thesis using ok v
      by (auto simp: Chunk parse_webrtc_control_def control_of_object_def json_reads)
  next
    case (Ack seq)
    from fields [of "lit ''type''"] fields [of "lit ''seq''"]
    show ?thesis using ok v
      by (auto simp: Ack parse_webrtc_control_def control_of_object_def json_reads control_ack_def)
  qed
qed

text \<open>A JSON implementation given by the table of the texts it knows, for concrete runs.\<close>

type_synonym table_value = "json_leaf + (rstr \<times> json_leaf) list"

definition table_json :: "(webrtc_control \<times> rstr) list \<Rightarrow> table_value json_api" where
  "table_json table =
     \<lparr>json_from_str = (\<lambda>t. map_option Inr (map_of (map (\<lambda>(m, t). (t, control_fields m)) table) t)),
      json_as_object = (\<lambda>v. case v of Inl _ \<Rightarrow> None
                               | Inr fs \<Rightarrow> Some (\<lambda>k. map_option Inl (map_of fs k))),
      json_as_str = (\<lambda>v. case v of Inl (JStr s) \<Rightarrow> Some s | _ \<Rightarrow> None),
      json_as_u64 = (\<lambda>v. case v of Inl (JNum n) \<Rightarrow> Some n | _ \<Rightarrow> None),
      json_as_f64 = (\<lambda>_. None),
      json_to_string = map_of (map (\<lambda>(m, t). (control_fields m, t)) table)\<rparr>"

text \<open>A control message that the encoder accepts is parsed back to itself by the peer, as
  long as the JSON library parses the serialised object to an object with the same members.\<close>

theorem control_message_round_trip:
  assumes "encode_webrtc_control api m = Ok t" "json_faithful api (control_fields m) t"
  shows "parse_webrtc_control api t = Ok m"
  using assms by (rule parse_encoded)

theorem control_message_round_trip_witness:
  "let m = Chunk 7 (lit ''photo'') 3 4112;
       t = lit ''{\"type\":\"chunk\",\"seq\":7,\"itemId\":\"photo\",\"index\":3,\"length\":4112}'' in
   encode_webrtc_control (table_json [(m, t)]) m = Ok t
   \<and> parse_webrtc_control (table_json [(m, t)]) t = Ok m"
proof -
  define m where "m = Chunk 7 (lit ''photo'') 3 4112"
  define t where
    "t = lit ''{\"type\":\"chunk\",\"seq\":7,\"itemId\":\"photo\",\"index\":3,\"length\":4112}''"
  have enc: "encode_webrtc_control (table_json [(m, t)]) m = Ok t"
    by (simp add: encode_webrtc_control_def m_def t_def table_json_def validate_item_id_def
        validate_safe_integer_def wire_consts MAX_SAFE_INTEGER_def utf16_len_def
        AEAD_TAG_BYTES_def MAX_CIPHERTEXT_BYTES_def)
  have "json_faithful (table_json [(m, t)]) (control_fields m) t"
    by (simp add: json_faithful_def table_json_def m_def leaf_reads_def)
  with enc have "parse_webrtc_control (table_json [(m, t)]) t = Ok m"
    by (rule control_message_round_trip)
  with enc show ?thesis by (simp only: Let_def m_def t_def)
qed

section \<open>Frames round trip\<close>

lemma frame_new_Ok [simp]:
  "frame_new seq off p = Inr f \<longleftrightarrow>
     f = \<lparr>fr_seq = seq, fr_offset = off, fr_payload = p\<rparr> \<and> p \<noteq> [] \<and> length p \<le> 16384"
  by (auto simp: frame_new_def validate_frame_payload_def wire_consts split: if_splits)

lemma encode_webrtc_frame_Ok:
  "encode_webrtc_frame f = Inr bs \<longleftrightarrow>
     fr_payload f \<noteq> [] \<and> length (fr_payload f) \<le> 16384 \<and>
     bs = be32 WEBRTC_FRAME_MAGIC @ be32 (fr_seq f) @ be32 (fr_offset f)
          @ be32 (of_nat (length (fr_payload f))) @ fr_payload f"
  by (auto simp: encode_webrtc_frame_def validate_frame_payload_def wire_consts
      u32_try_from_usize_def split: if_splits)

lemma slice_first: "length a = k \<Longrightarrow> subslice 0 k (a @ b) = a"
  by (simp add: subslice_def)

lemma slice_skip: "length a = k \<Longrightarrow> k \<le> m \<Longrightarrow> subslice m n (a @ b) = subslice (m - k) (n - k) b"
  by (simp add: subslice_def)

lemma slice_split:
  "m \<le> n \<Longrightarrow> n \<le> length xs \<Longrightarrow> drop m xs = subslice m n xs @ drop n xs"
  by (simp add: subslice_def) (metis append_take_drop_id drop_drop le_add_diff_inverse2)

lemma length_subslice [simp]: "m \<le> n \<Longrightarrow> n \<le> length xs \<Longrightarrow> length (subslice m n xs) = n - m"
  by (simp add: subslice_def)

lemma parse_encoded_frame:
  assumes "encode_webrtc_frame f = Inr bs"
  shows "parse_webrtc_frame bs = Inr f"
proof -
  from assms have p: "fr_payload f \<noteq> []" "length (fr_payload f) \<le> 16384"
    and bs: "bs = be32 WEBRTC_FRAME_MAGIC @ be32 (fr_seq f) @ be32 (fr_offset f)
          @ be32 (of_nat (length (fr_payload f))) @ fr_payload f"
    by (simp_all add: encode_webrtc_frame_Ok)
  have "unat (of_nat (length (fr_payload f)) :: u32) = length (fr_payload f)"
    using p by (intro unat_of_nat_less) simp
  with p show ?thesis
    by (simp add: bs parse_webrtc_frame_def slice_first slice_skip wire_consts)
qed

lemma encode_parsed_frame:
  assumes "parse_webrtc_frame bs = Inr f"
  shows "encode_webrtc_frame f = Inr bs"
proof -
  from assms have len: "16 < length bs"
    and magic: "from_be (subslice 0 4 bs) = WEBRTC_FRAME_MAGIC"
    and l: "unat (from_be (subslice 12 16 bs) :: u32) = length (drop 16 bs)"
    and f: "f = \<lparr>fr_seq = from_be (subslice 4 8 bs), fr_offset = from_be (subslice 8 12 bs),
                fr_payload = drop 16 bs\<rparr>"
    and p: "drop 16 bs \<noteq> []" "length (drop 16 bs) \<le> 16384"
    by (auto simp: parse_webrtc_frame_def wire_consts Let_def split: if_splits)
  have "of_nat (length (drop 16 bs)) = (from_be (subslice 12 16 bs) :: u32)"
    unfolding l [symmetric] by (simp only: of_nat_unat ucast_id)
  moreover have "bs = subslice 0 4 bs @ subslice 4 8 bs @ subslice 8 12 bs @ subslice 12 16 bs @ drop 16 bs"
    using len slice_split [of 0 4 bs] slice_split [of 4 8 bs] slice_split [of 8 12 bs]
      slice_split [of 12 16 bs] by simp
  ultimately show ?thesis
    using len p by (simp add: encode_webrtc_frame_Ok f magic [symmetric] be32_from_be)
qed

interpretation frame: partial_codec encode_webrtc_frame parse_webrtc_frame
  by unfold_locales (fact parse_encoded_frame encode_parsed_frame)+

text \<open>C24. The frame parser accepts exactly the encodings of the frames the encoder accepts, and
  returns the frame that was encoded: a byte string has at most one reading, a frame at most one
  byte string, and nothing else is accepted.\<close>

theorem frame_codec_is_exact:
  "parse_webrtc_frame bs = Ok f \<longleftrightarrow> encode_webrtc_frame f = Ok bs"
  by (rule frame.dec_iff)

end
