(* ===== verification/Channel.thy ===== *)
theory Channel
  imports Wire
begin

text \<open>
  The chunk exchange of \<open>crates/transfer-native/src/webrtc.rs\<close> over one data channel: the
  sender's \<open>serve_channel\<close> and the receiver's \<open>request_chunk\<close>. The channel is the \<open>webrtc\<close>
  crate; the model gives the sequence of outcomes of \<open>poll\<close> and of the sends as data, so every
  theorem is for every such sequence. Shown: whatever the peer sends, a returned chunk has the
  declared length and nothing was acknowledged early; a sender never has two chunks in flight;
  and the two ends composed deliver the stored ciphertext.
\<close>

section \<open>The channel\<close>

definition CONTROL_LIMIT :: nat where "CONTROL_LIMIT = 1024"
definition FRAME_PAYLOAD_BYTES :: nat where "FRAME_PAYLOAD_BYTES = 16 * 1024"

record dc_message =
  is_string :: bool
  msg_data :: "u8 list"

datatype dc_event = OnMessage dc_message | OnOpen | OnClose | OnOther

text \<open>One \<open>poll\<close> under a timeout: it elapses, the stream has ended (\<open>None\<close>), or it yields an
  event.\<close>

datatype poll = Elapsed | Ended | Event dc_event

text \<open>What the process has done with the channel: the messages sent, the outcomes of the sends to
  come (no entry left means success) and whether it closed the channel.\<close>

record chan =
  sent :: "dc_message list"
  send_fails :: "bool list"
  closed :: bool

definition open_chan :: chan where
  "open_chan = \<lparr>sent = [], send_fails = [], closed = False\<rparr>"

type_synonym 'a chan_op = "(chan, 'a, string) st"

definition chan_send :: "dc_message \<Rightarrow> unit chan_op" where
  "chan_send m ch =
     (case send_fails ch of
        True # rest \<Rightarrow> (Err ''send WebRTC message'', ch\<lparr>send_fails := rest\<rparr>)
      | rest \<Rightarrow> (Ok (), ch\<lparr>sent := sent ch @ [m], send_fails := tl rest\<rparr>))"

definition text_message :: "rstr \<Rightarrow> dc_message" where
  "text_message t = \<lparr>is_string = True, msg_data = bytes t\<rparr>"

definition binary_message :: "u8 list \<Rightarrow> dc_message" where
  "binary_message bs = \<lparr>is_string = False, msg_data = bs\<rparr>"

definition send_control :: "'v json_api \<Rightarrow> webrtc_control \<Rightarrow> unit chan_op" where
  "send_control api m = bind_st (lift_st (encode_webrtc_control api m)) (\<lambda>t. chan_send (text_message t))"

definition chan_close :: "chan \<Rightarrow> chan" where
  "chan_close ch = ch\<lparr>closed := True\<rparr>"

text \<open>Decoding a text message, the same code on both sides.\<close>

definition read_control :: "'v json_api \<Rightarrow> u8 list \<Rightarrow> (webrtc_control, string) result" where
  "read_control api msg =
     and_then (ok_or ''invalid WebRTC control UTF-8'' (from_utf8 msg)) (\<lambda>t.
       if CONTROL_LIMIT < str_len t then Err ''WebRTC control frame is too large''
       else parse_webrtc_control api t)"

section \<open>The sender\<close>

text \<open>\<open>slice::chunks\<close>.\<close>

function slice_chunks :: "nat \<Rightarrow> 'a list \<Rightarrow> 'a list list" where
  "slice_chunks n xs = (if xs = [] \<or> n = 0 then [] else take n xs # slice_chunks n (drop n xs))"
  by auto
termination by (relation "measure (\<lambda>(n, xs). length xs)") auto

declare slice_chunks.simps [simp del]

fun send_frames :: "u32 \<Rightarrow> nat \<Rightarrow> u8 list list \<Rightarrow> unit chan_op" where
  "send_frames seq k [] = lift_st (Ok ())"
| "send_frames seq k (payload # rest) =
     bind_st (lift_st (ok_or ''out of range integral type conversion attempted''
                        (u32_try_from_usize (k * FRAME_PAYLOAD_BYTES)))) (\<lambda>offset.
     bind_st (lift_st (frame_new seq offset payload)) (\<lambda>frame.
     bind_st (lift_st (encode_webrtc_frame frame)) (\<lambda>bs.
     bind_st (chan_send (binary_message bs)) (\<lambda>_.
     send_frames seq (Suc k) rest))))"

type_synonym chunk_store = "rstr \<times> u64 \<rightharpoonup> u8 list"

definition serve_request :: "'v json_api \<Rightarrow> chunk_store \<Rightarrow> u32 \<Rightarrow> rstr \<Rightarrow> u64 \<Rightarrow> unit chan_op" where
  "serve_request api chunks seq item_id index =
     bind_st (lift_st (ok_or ''unknown WebRTC chunk request'' (chunks (item_id, index)))) (\<lambda>ciphertext.
     bind_st (lift_st (control_chunk seq item_id index (of_nat (length ciphertext)))) (\<lambda>chunk.
     bind_st (send_control api chunk) (\<lambda>_.
     send_frames seq 0 (slice_chunks FRAME_PAYLOAD_BYTES ciphertext))))"

text \<open>One control message at the sender; the result is the sequence number awaiting its
  acknowledgement.\<close>

definition serve_control ::
  "'v json_api \<Rightarrow> chunk_store \<Rightarrow> u32 option \<Rightarrow> webrtc_control \<Rightarrow> u32 option chan_op" where
  "serve_control api chunks pending m =
     (case m of
        Request seq item_id index \<Rightarrow>
          if pending = None
          then bind_st (serve_request api chunks seq item_id index) (\<lambda>_. lift_st (Ok (Some seq)))
          else lift_st (Err ''unexpected WebRTC control frame'')
      | Ack seq \<Rightarrow>
          if pending = Some seq then lift_st (Ok None)
          else lift_st (Err ''unexpected WebRTC control frame'')
      | Chunk _ _ _ _ \<Rightarrow> lift_st (Err ''unexpected WebRTC control frame''))"

fun serve_channel_inner ::
  "'v json_api \<Rightarrow> chunk_store \<Rightarrow> u32 option \<Rightarrow> poll list \<Rightarrow> unit chan_op" where
  "serve_channel_inner api chunks pending [] = lift_st (Ok ())"
| "serve_channel_inner api chunks pending (Ended # polls) = lift_st (Ok ())"
| "serve_channel_inner api chunks pending (Elapsed # polls) =
     (if pending \<noteq> None then lift_st (Err ''WebRTC chunk acknowledgement timed out'')
      else serve_channel_inner api chunks pending polls)"
| "serve_channel_inner api chunks pending (Event OnClose # polls) = lift_st (Ok ())"
| "serve_channel_inner api chunks pending (Event OnOther # polls) =
     serve_channel_inner api chunks pending polls"
| "serve_channel_inner api chunks pending (Event OnOpen # polls) =
     serve_channel_inner api chunks pending polls"
| "serve_channel_inner api chunks pending (Event (OnMessage m) # polls) =
     (if is_string m then
        bind_st (lift_st (read_control api (msg_data m))) (\<lambda>control.
        bind_st (serve_control api chunks pending control) (\<lambda>pending'.
        serve_channel_inner api chunks pending' polls))
      else serve_channel_inner api chunks pending polls)"

definition close_on_error :: "'a chan_op \<Rightarrow> 'a chan_op" where
  "close_on_error m ch =
     (case m ch of (Inl e, ch') \<Rightarrow> (Err e, chan_close ch') | (Inr x, ch') \<Rightarrow> (Ok x, ch'))"

definition serve_channel :: "'v json_api \<Rightarrow> chunk_store \<Rightarrow> poll list \<Rightarrow> unit chan_op" where
  "serve_channel api chunks polls = close_on_error (serve_channel_inner api chunks None polls)"

section \<open>The receiver\<close>

fun receive_chunk ::
  "'v json_api \<Rightarrow> u32 \<Rightarrow> rstr \<Rightarrow> u64 \<Rightarrow> u64 \<Rightarrow> bool \<Rightarrow> u8 list \<Rightarrow> poll list \<Rightarrow> u8 list chan_op"
where
  "receive_chunk api seq item_id index expected announced acc [] =
     lift_st (Err ''WebRTC data channel closed'')"
| "receive_chunk api seq item_id index expected announced acc (Ended # polls) =
     lift_st (Err ''WebRTC data channel closed'')"
| "receive_chunk api seq item_id index expected announced acc (Elapsed # polls) =
     lift_st (Err ''WebRTC chunk response timed out'')"
| "receive_chunk api seq item_id index expected announced acc (Event OnClose # polls) =
     lift_st (Err ''WebRTC data channel closed'')"
| "receive_chunk api seq item_id index expected announced acc (Event OnOther # polls) =
     receive_chunk api seq item_id index expected announced acc polls"
| "receive_chunk api seq item_id index expected announced acc (Event OnOpen # polls) =
     receive_chunk api seq item_id index expected announced acc polls"
| "receive_chunk api seq item_id index expected announced acc (Event (OnMessage m) # polls) =
     (if is_string m then
        bind_st (lift_st (read_control api (msg_data m))) (\<lambda>control.
          if \<not> announced \<and> control = Chunk seq item_id index expected
          then receive_chunk api seq item_id index expected True acc polls
          else lift_st (Err ''unexpected WebRTC chunk response''))
      else if \<not> announced then
        lift_st (Err ''WebRTC binary frame arrived before chunk declaration'')
      else
        bind_st (lift_st (parse_webrtc_frame (msg_data m))) (\<lambda>frame.
        bind_st (lift_st (validate_for_chunk frame seq (of_nat (length acc)) expected)) (\<lambda>_.
        let acc' = acc @ fr_payload frame in
        if of_nat (length acc') = expected
        then bind_st (send_control api (control_ack seq)) (\<lambda>_. lift_st (Ok acc'))
        else receive_chunk api seq item_id index expected announced acc' polls)))"

definition request_chunk ::
  "'v json_api \<Rightarrow> u32 \<Rightarrow> rstr \<Rightarrow> u64 \<Rightarrow> u64 \<Rightarrow> poll list \<Rightarrow> u8 list chan_op" where
  "request_chunk api seq item_id index expected polls =
     bind_st (lift_st (control_request seq item_id index)) (\<lambda>request.
     close_on_error
       (bind_st (send_control api request) (\<lambda>_.
        receive_chunk api seq item_id index expected False [] polls)))"

text \<open>Waiting for the channel to open; the model's \<open>Elapsed\<close> is the connect timeout.\<close>

fun wait_for_open :: "poll list \<Rightarrow> (unit, string) result" where
  "wait_for_open [] = Err ''WebRTC data channel closed before opening''"
| "wait_for_open (Ended # polls) = Err ''WebRTC data channel closed before opening''"
| "wait_for_open (Elapsed # polls) = Err ''timed out opening WebRTC data channel''"
| "wait_for_open (Event OnClose # polls) = Err ''WebRTC data channel closed before opening''"
| "wait_for_open (Event OnOpen # polls) = Ok ()"
| "wait_for_open (Event OnOther # polls) = wait_for_open polls"
| "wait_for_open (Event (OnMessage m) # polls) = wait_for_open polls"

section \<open>What the receiver accepts\<close>

lemma chan_send_Inr:
  "chan_send m ch = (Inr u, ch') \<Longrightarrow> sent ch' = sent ch @ [m] \<and> closed ch' = closed ch"
  by (auto simp: chan_send_def split: list.splits bool.splits)

lemma chan_send_Inl: "chan_send m ch = (Inl e, ch') \<Longrightarrow> sent ch' = sent ch \<and> closed ch' = closed ch"
  by (auto simp: chan_send_def split: list.splits bool.splits)

lemma send_control_Inr:
  "send_control api m ch = (Inr u, ch') \<Longrightarrow>
     \<exists>t. encode_webrtc_control api m = Inr t \<and> sent ch' = sent ch @ [text_message t]
         \<and> closed ch' = closed ch"
  by (auto simp: send_control_def bind_st_Inr dest: chan_send_Inr)

lemma send_control_Inl:
  "send_control api m ch = (Inl e, ch') \<Longrightarrow> sent ch' = sent ch \<and> closed ch' = closed ch"
  by (auto simp: send_control_def bind_st_Inl dest: chan_send_Inl)

lemma validate_for_chunk_Ok:
  assumes "validate_for_chunk f seq (of_nat n) expected = Inr u" "n < 2 ^ 64"
    "length (fr_payload f) < 2 ^ 64"
  shows "n + length (fr_payload f) \<le> unat expected \<and> unat expected \<le> 25000000
    \<and> 16 \<le> unat expected \<and> fr_seq f = seq \<and> unat (fr_offset f) = n"
proof -
  from assms(1) obtain c where
    b: "AEAD_TAG_BYTES \<le> expected" "expected \<le> MAX_CIPHERTEXT_BYTES" "fr_seq f = seq"
      "ucast (fr_offset f) = (of_nat n :: u64)" "c \<le> expected"
    and c: "checked_add (of_nat n) (of_nat (length (fr_payload f))) = Some c"
    by (auto simp: validate_for_chunk_def not_less split: if_splits)
  have "unat c = n + length (fr_payload f)"
    using c assms(2,3) by (simp add: checked_add_Some unat_of_nat_less)
  moreover have "unat (fr_offset f) = n"
    using arg_cong [OF b(4), of unat] assms(2)
    by (simp only: unat_ucast_up_32_64) (simp add: unat_of_nat_less)
  ultimately show ?thesis
    using b by (simp add: word_le_nat_alt AEAD_TAG_BYTES_def MAX_CIPHERTEXT_BYTES_def)
qed

text \<open>The bytes the peer's binary messages carry, in order.\<close>

fun payloads :: "poll list \<Rightarrow> u8 list" where
  "payloads [] = []"
| "payloads (Event (OnMessage m) # polls) =
     (if is_string m then [] else case parse_webrtc_frame (msg_data m) of Inl _ \<Rightarrow> [] | Inr f \<Rightarrow> fr_payload f)
     @ payloads polls"
| "payloads (_ # polls) = payloads polls"

lemma parse_webrtc_frame_payload:
  "parse_webrtc_frame bs = Inr f \<Longrightarrow> fr_payload f \<noteq> [] \<and> length (fr_payload f) \<le> 16384"
  using frame.enc_dec [of bs f] by (simp add: encode_webrtc_frame_Ok)

lemma frame_step:
  assumes "parse_webrtc_frame d = Inr f" "validate_for_chunk f seq (of_nat (length acc)) expected = Inr u"
    "length acc \<le> 25000000"
  shows "length (acc @ fr_payload f) \<le> unat expected \<and> unat expected \<le> 25000000
    \<and> 16 \<le> unat expected
    \<and> (of_nat (length (acc @ fr_payload f)) = expected \<longleftrightarrow> length (acc @ fr_payload f) = unat expected)"
proof -
  have p: "length (fr_payload f) \<le> 16384"
    using parse_webrtc_frame_payload [OF assms(1)] by simp
  have v: "length acc + length (fr_payload f) \<le> unat expected" "unat expected \<le> 25000000"
    "16 \<le> unat expected"
    using validate_for_chunk_Ok [OF assms(2)] assms(3) p by simp_all
  define n where "n = length (acc @ fr_payload f)"
  have "unat (of_nat n :: u64) = n" using v by (intro unat_of_nat_less) (simp add: n_def)
  then have "of_nat n = expected \<longleftrightarrow> n = unat expected" by (simp add: word_unat_eq_iff)
  with v show ?thesis by (simp add: n_def del: of_nat_add)
qed

lemma receive_chunk_Ok:
  assumes "receive_chunk api seq i n expected announced acc polls ch = (Inr bs, ch')"
    "length acc \<le> 25000000"
  shows "length bs = unat expected \<and> 16 \<le> unat expected \<and> unat expected \<le> 25000000
    \<and> (\<exists>rest. acc @ payloads polls = bs @ rest)
    \<and> (\<exists>t. encode_webrtc_control api (Ack seq) = Inr t \<and> sent ch' = sent ch @ [text_message t])
    \<and> closed ch' = closed ch"
  using assms
proof (induction api seq i n expected announced acc polls arbitrary: ch
       rule: receive_chunk.induct)
  case (7 api seq item_id index expected announced acc m polls)
  show ?case
  proof (cases "is_string m")
    case True
    from 7(3) True obtain c where c: "read_control api (msg_data m) = Inr c" "\<not> announced"
      "c = Chunk seq item_id index expected"
      "receive_chunk api seq item_id index expected True acc polls ch = (Inr bs, ch')"
      by (auto simp: bind_st_Inr split: if_splits)
    from 7(1) [OF True _ c(4) 7(4)] c(2,3) True show ?thesis by simp
  next
    case False
    with 7(3) have ann: "announced" by (auto split: if_splits)
    from 7(3) False ann obtain f u where f: "parse_webrtc_frame (msg_data m) = Inr f"
      "validate_for_chunk f seq (of_nat (length acc)) expected = Inr u"
      by (auto simp: bind_st_Inr split: if_splits)
    note st = frame_step [OF f 7(4)]
    show ?thesis
    proof (cases "of_nat (length (acc @ fr_payload f)) = expected")
      case fin: True
      from 7(3) False ann f fin obtain v where
        v: "send_control api (control_ack seq) ch = (Inr v, ch')" "bs = acc @ fr_payload f"
        by (auto simp: bind_st_Inr Let_def)
      from send_control_Inr [OF v(1)] st fin v(2) f False show ?thesis
        by (auto simp: control_ack_def)
    next
      case more: False
      from 7(3) False ann f more have
        r: "receive_chunk api seq item_id index expected announced (acc @ fr_payload f) polls ch
              = (Inr bs, ch')"
        by (simp add: Let_def)
      have "length (acc @ fr_payload f) \<le> 25000000" using st by simp
      from 7(2) [OF False _ refl more r this] ann False f show ?thesis by simp
    qed
  qed
qed (simp_all del: append_assoc)

lemma receive_chunk_Err:
  assumes "receive_chunk api seq i n expected announced acc polls ch = (Inl e, ch')"
  shows "sent ch' = sent ch"
  using assms
proof (induction api seq i n expected announced acc polls arbitrary: ch
       rule: receive_chunk.induct)
  case (7 api seq item_id index expected announced acc m polls)
  then show ?case
    by (auto simp: bind_st_Inl Let_def split: if_splits dest: send_control_Inl)
qed simp_all

lemma close_on_error_cases:
  "close_on_error m ch = (r, ch') \<Longrightarrow>
     (\<exists>x. r = Inr x \<and> m ch = (Inr x, ch')) \<or>
     (\<exists>e ch1. r = Inl e \<and> m ch = (Inl e, ch1) \<and> ch' = chan_close ch1)"
  by (auto simp: close_on_error_def split: prod.splits sum.splits)

lemma request_chunk_Ok:
  assumes "request_chunk api seq i n expected polls ch = (Inr bs, ch')"
  shows "length bs = unat expected \<and> 16 \<le> unat expected \<and> unat expected \<le> 25000000
    \<and> (\<exists>rest. payloads polls = bs @ rest)
    \<and> (\<exists>t u. encode_webrtc_control api (Request seq i n) = Inr t
          \<and> encode_webrtc_control api (Ack seq) = Inr u
          \<and> sent ch' = sent ch @ [text_message t, text_message u])
    \<and> closed ch' = closed ch"
proof -
  from assms obtain u ch1 where
    s: "send_control api (Request seq i n) ch = (Inr u, ch1)"
    and r: "receive_chunk api seq i n expected False [] polls ch1 = (Inr bs, ch')"
    by (auto simp: request_chunk_def bind_st_Inr dest!: close_on_error_cases)
  show ?thesis using send_control_Inr [OF s] receive_chunk_Ok [OF r] by auto
qed

lemma request_chunk_Err:
  assumes "request_chunk api seq i n expected polls ch = (Inl e, ch')"
  shows "(sent ch' = sent ch \<or> (\<exists>t. encode_webrtc_control api (Request seq i n) = Inr t
            \<and> sent ch' = sent ch @ [text_message t]))
    \<and> (closed ch' \<or> \<not> control_in_bounds (Request seq i n))"
proof (cases "control_in_bounds (Request seq i n)")
  case True
  then have "control_request seq i n = Inr (Request seq i n)" by simp
  with assms obtain ch1 where "ch' = chan_close ch1"
    "bind_st (send_control api (Request seq i n))
       (\<lambda>_. receive_chunk api seq i n expected False [] polls) ch = (Inl e, ch1)"
    by (auto simp: request_chunk_def dest!: close_on_error_cases)
  then show ?thesis
    by (auto simp: bind_st_Inl chan_close_def dest!: send_control_Inl send_control_Inr
        receive_chunk_Err)
next
  case False
  have "\<exists>e. control_request seq i n = Inl e"
    using False by (cases "control_request seq i n") auto
  then show ?thesis using assms False by (auto simp: request_chunk_def)
qed

text \<open>C29. Whatever the peer sends and whenever sends fail, a chunk request ends in one of two
  ways. It returns exactly the declared number of bytes, between the tag size and the maximum
  ciphertext size, which are the leading payload bytes of the peer's frames, after sending the
  request and one acknowledgement; or it fails having sent at most the request, never an
  acknowledgement, and the channel is closed (unless the request itself was invalid, when nothing
  was sent).\<close>

theorem requested_chunk_is_whole:
  "case request_chunk api seq item_id index expected polls ch of
     (Inr bs, ch') \<Rightarrow>
       length bs = unat expected \<and> 16 \<le> length bs \<and> length bs \<le> 25000000
       \<and> take (length bs) (payloads polls) = bs
       \<and> (\<exists>t u. encode_webrtc_control api (Request seq item_id index) = Ok t
             \<and> encode_webrtc_control api (Ack seq) = Ok u
             \<and> sent ch' = sent ch @ [text_message t, text_message u])
   | (Inl e, ch') \<Rightarrow>
       (sent ch' = sent ch
        \<or> (\<exists>t. encode_webrtc_control api (Request seq item_id index) = Ok t
               \<and> sent ch' = sent ch @ [text_message t]))
       \<and> (if control_in_bounds (Request seq item_id index) then closed ch'
          else sent ch' = sent ch)"
proof (cases "request_chunk api seq item_id index expected polls ch")
  case (Pair r ch')
  show ?thesis
  proof (cases r)
    case (Inl e)
    have "sent ch' = sent ch" if "\<not> control_in_bounds (Request seq item_id index)"
    proof -
      have "\<exists>e. control_request seq item_id index = Inl e"
        using that by (cases "control_request seq item_id index") auto
      then show ?thesis using Pair Inl by (auto simp: request_chunk_def)
    qed
    then show ?thesis
      using request_chunk_Err [of api seq item_id index expected polls ch e ch'] Pair Inl
      by (auto simp del: control_in_bounds.simps)
  next
    case (Inr bs)
    then show ?thesis
      using request_chunk_Ok [of api seq item_id index expected polls ch bs ch'] Pair by auto
  qed
qed

section \<open>The sender's flow control\<close>

definition announcements :: "chan \<Rightarrow> nat" where
  "announcements ch = length (filter is_string (sent ch))"

text \<open>The acknowledgements among what the peer sent.\<close>

fun is_ack_poll :: "'v json_api \<Rightarrow> poll \<Rightarrow> bool" where
  "is_ack_poll api (Event (OnMessage m)) \<longleftrightarrow>
     is_string m \<and> (case read_control api (msg_data m) of Inr (Ack _) \<Rightarrow> True | _ \<Rightarrow> False)"
| "is_ack_poll api _ \<longleftrightarrow> False"

lemma chan_send_announcements:
  "announcements (snd (chan_send m ch)) \<le> announcements ch + (if is_string m then 1 else 0)"
  by (auto simp: chan_send_def announcements_def split: list.splits bool.splits)

lemma send_frames_announcements: "announcements (snd (send_frames seq k ps ch)) \<le> announcements ch"
proof (induction seq k ps arbitrary: ch rule: send_frames.induct)
  case (1 seq k)
  then show ?case by (simp add: lift_st_def)
next
  case (2 seq k p ps)
  have "announcements (snd (chan_send (binary_message bs) ch)) \<le> announcements ch" for bs
    using chan_send_announcements [of "binary_message bs" ch] by (simp add: binary_message_def)
  then show ?case using 2
    by (auto simp: bind_st_def lift_st_def split: prod.splits sum.splits)
       (metis le_trans snd_conv)+
qed

lemma serve_request_announcements:
  "announcements (snd (serve_request api chunks seq i n ch)) \<le> announcements ch + 1"
proof -
  have "announcements (snd (chan_send (text_message t) ch)) \<le> announcements ch + 1" for t
    using chan_send_announcements [of "text_message t" ch] by (simp add: text_message_def)
  then have "announcements (snd (send_control api m ch)) \<le> announcements ch + 1" for m
    by (auto simp: send_control_def bind_st_def lift_st_def split: sum.splits)
  then show ?thesis
    using send_frames_announcements [of seq 0 _]
    by (auto simp: serve_request_def bind_st_def lift_st_def split: prod.splits sum.splits)
       (metis le_trans snd_conv)+
qed

lemma serve_control_announcements:
  assumes "serve_control api chunks pending c ch = (r, ch')"
  shows "announcements ch' + (if r = Inr None then 1 else 0)
    \<le> announcements ch + (if pending = None then 1 else 0) + (case c of Ack _ \<Rightarrow> 1 | _ \<Rightarrow> 0)"
proof (cases c)
  case (Request seq i n)
  with assms serve_request_announcements [of api chunks seq i n ch] show ?thesis
    by (auto simp: serve_control_def bind_st_def split: if_splits prod.splits sum.splits)
next
  case (Chunk seq i n l)
  with assms show ?thesis by (auto simp: serve_control_def)
next
  case (Ack seq)
  with assms show ?thesis by (auto simp: serve_control_def split: if_splits)
qed

lemma serve_inner_announcements:
  "announcements (snd (serve_channel_inner api chunks pending polls ch))
     \<le> announcements ch + (if pending = None then 1 else 0) + length (filter (is_ack_poll api) polls)"
proof (induction api chunks pending polls arbitrary: ch rule: serve_channel_inner.induct)
  case (7 api chunks pending m polls)
  show ?case
  proof (cases "is_string m")
    case False
    then show ?thesis using 7(2) [of ch] by simp
  next
    case True
    show ?thesis
    proof (cases "read_control api (msg_data m)")
      case (Inl e)
      then show ?thesis using True by (simp add: lift_st_def)
    next
      case (Inr c)
      obtain r ch1 where s: "serve_control api chunks pending c ch = (r, ch1)" by fastforce
      note bound = serve_control_announcements [OF s]
      show ?thesis
      proof (cases r)
        case e: (Inl e)
        have "announcements ch1 \<le> announcements ch + (if pending = None then 1 else 0)
                + (case c of Ack _ \<Rightarrow> 1 | _ \<Rightarrow> 0)"
          using bound e by simp
        then show ?thesis using True Inr s e
          by (cases c) (simp_all add: bind_st_def split: if_splits)
      next
        case p: (Inr p)
        from 7(1) [OF True, of p ch1] bound True Inr s p show ?thesis
          by (cases c) (auto simp: bind_st_def split: if_splits)
      qed
    qed
  qed
qed (simp_all add: lift_st_def)

text \<open>A sender never has more than one chunk unacknowledged: on every sequence of peer
  messages, timeouts and send failures, the announced chunks are at most one more than the
  acknowledgements the peer sent.\<close>

theorem sender_has_one_chunk_in_flight:
  "length (filter is_string (sent (snd (serve_channel api chunks polls open_chan))))
     \<le> 1 + length (filter (is_ack_poll api) polls)"
proof -
  have "sent (snd (serve_channel api chunks polls open_chan))
          = sent (snd (serve_channel_inner api chunks None polls open_chan))"
    by (auto simp: serve_channel_def close_on_error_def chan_close_def split: prod.splits sum.splits)
  then show ?thesis
    using serve_inner_announcements [of api chunks None polls open_chan]
    by (simp add: announcements_def open_chan_def)
qed

section \<open>Both ends composed\<close>

text \<open>A message that the channel carries: the encoder accepts it, the JSON library is faithful on
  its text, and the text fits the byte limit of a control message.\<close>

definition carried :: "'v json_api \<Rightarrow> webrtc_control \<Rightarrow> rstr \<Rightarrow> bool" where
  "carried api m t \<longleftrightarrow>
     encode_webrtc_control api m = Ok t \<and> json_faithful api (control_fields m) t
     \<and> list_all scalar t \<and> str_len t \<le> CONTROL_LIMIT"

lemma read_carried: "carried api m t \<Longrightarrow> read_control api (bytes t) = Inr m"
  by (simp add: carried_def read_control_def from_utf8_bytes parse_encoded)

lemma carried_in_bounds: "carried api m t \<Longrightarrow> control_in_bounds m"
  by (auto simp: carried_def encode_webrtc_control_def control_validate_iff)

lemma send_open: "send_fails ch = [] \<Longrightarrow> chan_send m ch = (Inr (), ch\<lparr>sent := sent ch @ [m]\<rparr>)"
  by (cases ch) (simp add: chan_send_def)

lemma send_carried:
  "carried api m t \<Longrightarrow> send_fails ch = [] \<Longrightarrow>
     send_control api m ch = (Inr (), ch\<lparr>sent := sent ch @ [text_message t]\<rparr>)"
  by (simp add: carried_def send_control_def send_open)

definition frame_message :: "u32 \<Rightarrow> nat \<Rightarrow> u8 list \<Rightarrow> dc_message" where
  "frame_message seq k p =
     binary_message (be32 WEBRTC_FRAME_MAGIC @ be32 seq @ be32 (of_nat (k * FRAME_PAYLOAD_BYTES))
                     @ be32 (of_nat (length p)) @ p)"

fun frame_messages :: "u32 \<Rightarrow> nat \<Rightarrow> u8 list list \<Rightarrow> dc_message list" where
  "frame_messages seq k [] = []"
| "frame_messages seq k (p # ps) = frame_message seq k p # frame_messages seq (Suc k) ps"

lemma send_frames_messages:
  assumes "send_fails ch = []" "list_all (\<lambda>p. p \<noteq> [] \<and> length p \<le> 16384) ps"
    "(k + length ps) * 16384 < 2 ^ 32"
  shows "send_frames seq k ps ch = (Inr (), ch\<lparr>sent := sent ch @ frame_messages seq k ps\<rparr>)"
  using assms
proof (induction seq k ps arbitrary: ch rule: send_frames.induct)
  case (1 seq k)
  then show ?case by (simp add: lift_st_def)
next
  case (2 seq k p ps)
  have k: "u32_try_from_usize (k * FRAME_PAYLOAD_BYTES) = Some (of_nat (k * FRAME_PAYLOAD_BYTES))"
    using 2(4) by (simp add: u32_try_from_usize_def FRAME_PAYLOAD_BYTES_def)
  define f where "f = \<lparr>fr_seq = seq, fr_offset = of_nat (k * FRAME_PAYLOAD_BYTES), fr_payload = p\<rparr>"
  define bs where "bs = msg_data (frame_message seq k p)"
  have f: "frame_new seq (of_nat (k * FRAME_PAYLOAD_BYTES)) p = Inr f"
    using 2(3) by (simp add: f_def)
  have bs: "encode_webrtc_frame f = Inr bs"
    using 2(3) by (simp add: encode_webrtc_frame_Ok f_def bs_def frame_message_def binary_message_def)
  have "send_frames seq k (p # ps) ch
      = send_frames seq (Suc k) ps (ch\<lparr>sent := sent ch @ [binary_message bs]\<rparr>)"
    using 2(2) by (simp add: k f bs bind_st_def [where m = "chan_send _"] send_open del: of_nat_mult)
  also have "\<dots> = (Inr (), ch\<lparr>sent := sent ch @ frame_messages seq k (p # ps)\<rparr>)"
    using 2 by (simp add: bs_def frame_message_def binary_message_def)
  finally show ?case .
qed

lemma slice_chunks_ok:
  "list_all (\<lambda>p. p \<noteq> [] \<and> length p \<le> n) (slice_chunks n xs)"
proof (induction n xs rule: slice_chunks.induct)
  case (1 n xs)
  then show ?case by (subst slice_chunks.simps) simp
qed

lemma length_slice_chunks: "0 < n \<Longrightarrow> length (slice_chunks n xs) = ceil_div (length xs) n"
proof (induction n xs rule: slice_chunks.induct)
  case (1 n xs)
  show ?case
  proof (cases "xs = []")
    case True
    then show ?thesis by (simp add: slice_chunks.simps)
  next
    case False
    have "ceil_div (length xs) n = Suc (ceil_div (length xs - n) n)"
    proof (cases "n \<le> length xs")
      case True
      then show ?thesis using 1 by (intro ceil_div_step) simp_all
    next
      case short: False
      then show ?thesis using ceil_div_small [of "length xs" n] \<open>xs \<noteq> []\<close> by simp
    qed
    then show ?thesis using 1 False by (subst slice_chunks.simps) simp
  qed
qed

lemma parse_frame_message:
  assumes "p \<noteq> []" "length p \<le> 16384"
  shows "parse_webrtc_frame (msg_data (frame_message seq k p)) =
    Inr \<lparr>fr_seq = seq, fr_offset = of_nat (k * FRAME_PAYLOAD_BYTES), fr_payload = p\<rparr>"
  using assms
  by (intro parse_encoded_frame) (simp add: encode_webrtc_frame_Ok frame_message_def binary_message_def)

lemma receive_frames:
  assumes "xs \<noteq> []" "length acc = k * 16384" "length acc + length xs = unat expected"
    "16 \<le> unat expected" "unat expected \<le> 25000000" "carried api (Ack seq) u" "send_fails ch = []"
  shows "receive_chunk api seq i n expected True acc
      (map (Event \<circ> OnMessage) (frame_messages seq k (slice_chunks 16384 xs))) ch
    = (Inr (acc @ xs), ch\<lparr>sent := sent ch @ [text_message u]\<rparr>)"
  using assms
proof (induction "length xs" arbitrary: xs acc k rule: less_induct)
  case less
  define p where "p = take 16384 xs"
  define rest where "rest = drop 16384 xs"
  define f where "f = \<lparr>fr_seq = seq, fr_offset = of_nat (k * FRAME_PAYLOAD_BYTES), fr_payload = p\<rparr>"
  have p: "p \<noteq> []" "length p \<le> 16384" using less.prems(1) by (simp_all add: p_def)
  have split: "length xs = length p + length rest" "xs = p @ rest" by (simp_all add: p_def rest_def)
  have chunks: "slice_chunks 16384 xs = p # slice_chunks 16384 rest"
    using less.prems(1) by (subst slice_chunks.simps) (simp add: p_def rest_def)
  have parse: "parse_webrtc_frame (msg_data (frame_message seq k p)) = Inr f"
    using p by (simp add: parse_frame_message f_def)
  have off: "unat (of_nat (k * FRAME_PAYLOAD_BYTES) :: u32) = length acc"
    using less.prems by (subst unat_of_nat_less) (simp_all add: FRAME_PAYLOAD_BYTES_def)
  have acc64: "unat (of_nat (length acc) :: u64) = length acc"
    using less.prems by (intro unat_of_nat_less) simp
  have p64: "unat (of_nat (length p) :: u64) = length p"
    using p by (intro unat_of_nat_less) simp
  have eq_off: "ucast (of_nat (k * FRAME_PAYLOAD_BYTES) :: u32) = (of_nat (length acc) :: u64)"
    by (simp only: word_unat_eq_iff unat_ucast_up_32_64 off acc64)
  have add: "checked_add (of_nat (length acc)) (of_nat (length p)) = Some (of_nat (length acc + length p) :: u64)"
    using less.prems split p64 acc64 by (simp only: checked_add_Some) (subst unat_of_nat_less, simp_all)
  have le: "of_nat (length acc + length p) \<le> expected"
    using less.prems split by (simp only: word_le_nat_alt) (subst unat_of_nat_less, simp_all)
  have valid: "validate_for_chunk f seq (of_nat (length acc)) expected = Inr ()"
    using less.prems(4,5) le add eq_off
    by (simp add: validate_for_chunk_def f_def word_le_nat_alt AEAD_TAG_BYTES_def
        MAX_CIPHERTEXT_BYTES_def not_less del: of_nat_add of_nat_mult)
  have fin: "of_nat (length (acc @ p)) = expected \<longleftrightarrow> rest = []"
  proof -
    have "of_nat (length (acc @ p)) = expected \<longleftrightarrow> length (acc @ p) = unat expected"
      using frame_step [OF parse valid] less.prems(3,5) by (simp add: f_def)
    moreover have "length (acc @ p) = unat expected \<longleftrightarrow> length rest = 0"
      unfolding less.prems(3) [symmetric] split(1) by simp
    ultimately show ?thesis by simp
  qed
  have msg: "\<not> is_string (frame_message seq k p)"
    by (simp add: frame_message_def binary_message_def)
  show ?case
  proof (cases "rest = []")
    case True
    have "slice_chunks 16384 rest = []" using True by (simp add: slice_chunks.simps)
    then show ?thesis unfolding chunks using True msg parse valid fin less.prems(6,7) split(2)
      by (simp add: Let_def f_def bind_st_def [where m = "send_control _ _"] send_carried
          lift_st_def control_ack_def)
  next
    case False
    have "length p = 16384" using False by (simp add: p_def rest_def)
    then have "receive_chunk api seq i n expected True (acc @ p)
      (map (Event \<circ> OnMessage) (frame_messages seq (Suc k) (slice_chunks 16384 rest))) ch
        = (Inr ((acc @ p) @ rest), ch\<lparr>sent := sent ch @ [text_message u]\<rparr>)"
      using False less.prems split p by (intro less.hyps) simp_all
    then show ?thesis unfolding chunks using False msg parse valid fin split(2)
      by (simp add: Let_def f_def)
  qed
qed

lemma serve_request_run:
  assumes "chunks (i, n) = Some cs" "16 \<le> length cs" "length cs \<le> 25000000"
    "carried api (Chunk seq i n (of_nat (length cs))) tc" "send_fails ch = []"
  shows "serve_request api chunks seq i n ch = (Inr (),
    ch\<lparr>sent := sent ch @ text_message tc # frame_messages seq 0 (slice_chunks 16384 cs)\<rparr>)"
proof -
  have "control_in_bounds (Chunk seq i n (of_nat (length cs)))"
    using assms(4) by (rule carried_in_bounds)
  then have c: "control_chunk seq i n (of_nat (length cs)) = Inr (Chunk seq i n (of_nat (length cs)))"
    by simp
  have "ceil_div (length cs) 16384 \<le> 1526"
    using assms(3) by (simp add: ceil_div_le_iff)
  then have "length (slice_chunks 16384 cs) * 16384 < 2 ^ 32"
    by (simp add: length_slice_chunks)
  then show ?thesis using assms slice_chunks_ok [of 16384 cs]
    by (simp add: c serve_request_def FRAME_PAYLOAD_BYTES_def bind_st_def [where m = "send_control _ _"]
        send_carried send_frames_messages)
qed

lemma exchange_run:
  assumes "chunks (item_id, index) = Some cs" "16 \<le> length cs" "length cs \<le> 25000000"
    and "carried api (Request seq item_id index) treq"
    and "carried api (Chunk seq item_id index (of_nat (length cs))) tchunk"
    and "carried api (Ack seq) tack"
    and "out = text_message tchunk # frame_messages seq 0 (slice_chunks 16384 cs)"
  shows "serve_channel api chunks
      [Event (OnMessage (text_message treq)), Event (OnMessage (text_message tack))] open_chan
      = (Ok (), open_chan\<lparr>sent := out\<rparr>)
    \<and> request_chunk api seq item_id index (of_nat (length cs)) (map (Event \<circ> OnMessage) out) open_chan
      = (Ok cs, open_chan\<lparr>sent := [text_message treq, text_message tack]\<rparr>)"
proof -
  have len: "unat (of_nat (length cs) :: u64) = length cs"
    using assms(3) by (intro unat_of_nat_less) simp
  have req: "serve_request api chunks seq item_id index open_chan = (Inr (), open_chan\<lparr>sent := out\<rparr>)"
    using serve_request_run [of chunks item_id index cs api seq tchunk open_chan] assms(1-3,5,7)
    by (simp add: open_chan_def)
  have "serve_channel_inner api chunks None
      [Event (OnMessage (text_message treq)), Event (OnMessage (text_message tack))] open_chan
      = (Inr (), open_chan\<lparr>sent := out\<rparr>)"
    using read_carried [OF assms(4)] read_carried [OF assms(6)] req
    by (simp add: text_message_def serve_control_def bind_st_def [where m = "bind_st _ _"]
        bind_st_def [where m = "serve_request _ _ _ _ _"] lift_st_def
        bind_st_def [where m = "lift_st _"])
  then have served: "serve_channel api chunks
      [Event (OnMessage (text_message treq)), Event (OnMessage (text_message tack))] open_chan
      = (Inr (), open_chan\<lparr>sent := out\<rparr>)"
    by (simp add: serve_channel_def close_on_error_def)
  have "control_in_bounds (Request seq item_id index)"
    using assms(4) by (rule carried_in_bounds)
  then have r: "control_request seq item_id index = Inr (Request seq item_id index)" by simp
  define ch1 where "ch1 = open_chan\<lparr>sent := [text_message treq]\<rparr>"
  have "receive_chunk api seq item_id index (of_nat (length cs)) False []
      (map (Event \<circ> OnMessage) out) ch1 =
      receive_chunk api seq item_id index (of_nat (length cs)) True []
      (map (Event \<circ> OnMessage) (frame_messages seq 0 (slice_chunks 16384 cs))) ch1"
    using read_carried [OF assms(5)] by (simp add: assms(7) text_message_def)
  also have "\<dots> = (Inr ([] @ cs), ch1\<lparr>sent := sent ch1 @ [text_message tack]\<rparr>)"
    using assms len by (intro receive_frames) (auto simp: ch1_def open_chan_def)
  finally have "request_chunk api seq item_id index (of_nat (length cs))
      (map (Event \<circ> OnMessage) out) open_chan
      = (Inr cs, open_chan\<lparr>sent := [text_message treq, text_message tack]\<rparr>)"
    using send_carried [OF assms(4), of open_chan]
    by (simp add: r request_chunk_def close_on_error_def bind_st_def [where m = "send_control _ _"]
        ch1_def open_chan_def)
  with served show ?thesis by simp
qed

text \<open>C4. The two ends composed over a reliable ordered channel transfer a chunk: a sender that
  stores the ciphertext, fed the receiver's request and acknowledgement, ends without error; and
  the receiver, fed exactly what that sender sent, returns the stored ciphertext having sent
  exactly that request and acknowledgement.\<close>

theorem chunk_exchange_delivers_ciphertext:
  assumes "chunks (item_id, index) = Some cs" "16 \<le> length cs" "length cs \<le> 25000000"
    and "carried api (Request seq item_id index) treq"
    and "carried api (Chunk seq item_id index (of_nat (length cs))) tchunk"
    and "carried api (Ack seq) tack"
  shows "let (served, sender) = serve_channel api chunks
                 [Event (OnMessage (text_message treq)), Event (OnMessage (text_message tack))] open_chan;
             (received, receiver) = request_chunk api seq item_id index (of_nat (length cs))
                 (map (Event \<circ> OnMessage) (sent sender)) open_chan
         in served = Ok () \<and> received = Ok cs \<and> \<not> closed sender \<and> \<not> closed receiver
            \<and> sent receiver = [text_message treq, text_message tack]"
  using exchange_run [of chunks item_id index, OF assms refl] by (simp add: open_chan_def)

text \<open>The texts of a short exchange, as the browser and the native client write them.\<close>

definition example_request :: webrtc_control where "example_request = Request 1 (lit ''probe'') 0"
definition example_chunk :: webrtc_control where "example_chunk = Chunk 1 (lit ''probe'') 0 17"
definition example_ack :: webrtc_control where "example_ack = Ack 1"

definition example_json :: "table_value json_api" where
  "example_json = table_json
     [(example_request, lit ''{\"type\":\"request\",\"seq\":1,\"itemId\":\"probe\",\"index\":0}''),
      (example_chunk, lit ''{\"type\":\"chunk\",\"seq\":1,\"itemId\":\"probe\",\"index\":0,\"length\":17}''),
      (example_ack, lit ''{\"type\":\"ack\",\"seq\":1}'')]"

lemmas example_run_simps = carried_def example_json_def example_request_def example_chunk_def
  example_ack_def encode_webrtc_control_def table_json_def validate_item_id_def
  validate_safe_integer_def wire_consts MAX_SAFE_INTEGER_def utf16_len_def AEAD_TAG_BYTES_def
  MAX_CIPHERTEXT_BYTES_def json_faithful_def leaf_reads_def scalar_def str_len_def utf8_char_def
  CONTROL_LIMIT_def

lemma example_carried:
  "carried example_json (Request 1 (lit ''probe'') 0)
     (lit ''{\"type\":\"request\",\"seq\":1,\"itemId\":\"probe\",\"index\":0}'')"
  "carried example_json (Chunk 1 (lit ''probe'') 0 (of_nat (length (replicate 17 (5 :: u8)))))
     (lit ''{\"type\":\"chunk\",\"seq\":1,\"itemId\":\"probe\",\"index\":0,\"length\":17}'')"
  "carried example_json (Ack 1) (lit ''{\"type\":\"ack\",\"seq\":1}'')"
  by (simp_all add: example_run_simps)

theorem chunk_exchange_delivers_ciphertext_witness:
  "let (served, sender) = serve_channel example_json [(lit ''probe'', 0) \<mapsto> replicate 17 5]
           [Event (OnMessage (text_message
              (lit ''{\"type\":\"request\",\"seq\":1,\"itemId\":\"probe\",\"index\":0}''))),
            Event (OnMessage (text_message (lit ''{\"type\":\"ack\",\"seq\":1}'')))] open_chan;
       (received, receiver) = request_chunk example_json 1 (lit ''probe'') 0
           (of_nat (length (replicate 17 (5 :: u8)))) (map (Event \<circ> OnMessage) (sent sender)) open_chan
   in served = Ok () \<and> received = Ok (replicate 17 5) \<and> \<not> closed sender \<and> \<not> closed receiver
      \<and> sent receiver =
          [text_message (lit ''{\"type\":\"request\",\"seq\":1,\"itemId\":\"probe\",\"index\":0}''),
           text_message (lit ''{\"type\":\"ack\",\"seq\":1}'')]"
  by (rule chunk_exchange_delivers_ciphertext [OF _ _ _ example_carried]) simp_all

end
