(* ===== verification/Signaling.thy ===== *)
theory Signaling
  imports Ice Channel
begin

text \<open>
  Signaling and connection setup of \<open>crates/transfer-native/src/webrtc.rs\<close>: the requests of
  \<open>Signaling\<close>, the description exchange of \<open>NativePeer\<close>, and \<open>connect_receiver\<close> and
  \<open>connect_sender\<close> with their races against cancellation and the deadline. HTTP (\<open>reqwest\<close>) and
  the WebRTC stack (\<open>webrtc\<close>) are given by the outcomes of their calls, arbitrary data of every
  theorem. Shown: which request each operation sends with which credential, and exactly when a
  failed connection attempt closes the peer it created.
\<close>

section \<open>Requests\<close>

datatype http_method = GET | PUT | POST | PATCH

datatype sig_payload =
    NoPayload
  | ManifestPayload rstr
  | EmptyPayload
  | DescriptionPayload description
  | StatusPayload rstr u8

record sig_request =
  rq_method :: http_method
  rq_url :: rstr
  rq_header :: "rstr \<times> rstr"
  rq_payload :: sig_payload

record sender_session =
  ss_id :: rstr
  ss_offer :: "description option"
  ss_status :: rstr
  ss_progress :: u8

record receiver_session =
  rs_id :: rstr
  rs_token :: rstr
  rs_ice_servers :: "ice_server list"

text \<open>The decoded response bodies, one constructor per wire type the code deserialises.\<close>

datatype sig_body =
    SessionsBody "sender_session list" "ice_server list"
  | RegisteredBody receiver_session
  | PollBody "description option" rstr

datatype sig_reply = BodyElapsed | BodyInvalid | BodyJson sig_body

datatype exchange = SendElapsed | SendFailed | Responded u16 sig_reply

datatype sig_error =
    Msg string
  | Status string u16
  | BadDescription description_error
  | SessionEnded rstr

record signaling =
  sg_instance :: rstr
  sg_transfer_id :: rstr

text \<open>The network: what was sent and the outcomes to come (a send fails when none is left).\<close>

record net =
  net_log :: "sig_request list"
  net_script :: "exchange list"

type_synonym 'a net_op = "(net, 'a, sig_error) st"

definition signaling_new :: "rstr \<Rightarrow> rstr \<Rightarrow> (signaling, sig_error) result" where
  "signaling_new inst transfer_id =
     (if inst = [] \<or> transfer_id = [] then Err (Msg ''invalid WebRTC signaling target'')
      else Ok \<lparr>sg_instance = trim_end_matches (\<lambda>c. c = of_char (CHR ''/'')) inst,
               sg_transfer_id = transfer_id\<rparr>)"

definition endpoint :: "signaling \<Rightarrow> rstr \<Rightarrow> rstr" where
  "endpoint s suffix =
     sg_instance s @ lit ''/api/v1/transfers/'' @ sg_transfer_id s @ lit ''/webrtc'' @ suffix"

text \<open>\<open>Signaling::send\<close> and \<open>Signaling::json\<close>.\<close>

definition sig_send :: "sig_request \<Rightarrow> (u16 \<times> sig_reply) net_op" where
  "sig_send request n =
     (let n' = n\<lparr>net_log := net_log n @ [request], net_script := tl (net_script n)\<rparr> in
      case net_script n of
        Responded status reply # _ \<Rightarrow> (Ok (status, reply), n')
      | SendElapsed # _ \<Rightarrow> (Err (Msg ''WebRTC signaling request timed out''), n')
      | _ \<Rightarrow> (Err (Msg ''send WebRTC signaling request''), n'))"

definition sig_json :: "(sig_body \<Rightarrow> 'a option) \<Rightarrow> sig_reply \<Rightarrow> ('a, sig_error) result" where
  "sig_json decode reply =
     (case reply of
        BodyElapsed \<Rightarrow> Err (Msg ''WebRTC signaling response body timed out'')
      | BodyInvalid \<Rightarrow> Err (Msg ''read WebRTC signaling response body'')
      | BodyJson b \<Rightarrow> ok_or (Msg ''read WebRTC signaling response body'') (decode b))"

definition is_success :: "u16 \<Rightarrow> bool" where
  "is_success status \<longleftrightarrow> 200 \<le> status \<and> status < 300"

definition upload_header :: "rstr \<Rightarrow> rstr \<times> rstr" where
  "upload_header token = (lit ''X-Filebeam-Upload-Token'', token)"

definition session_header :: "receiver_session \<Rightarrow> rstr \<times> rstr" where
  "session_header s = (lit ''X-Filebeam-Session-Token'', rs_token s)"

definition publish :: "signaling \<Rightarrow> rstr \<Rightarrow> rstr \<Rightarrow> unit net_op" where
  "publish sg upload_token encrypted_manifest =
     bind_st (sig_send \<lparr>rq_method = PUT, rq_url = endpoint sg (lit ''/publish''),
                        rq_header = upload_header upload_token,
                        rq_payload = ManifestPayload encrypted_manifest\<rparr>) (\<lambda>(status, _).
     lift_st (if \<not> is_success status then Err (Status ''could not publish live transfer'' status)
              else Ok ()))"

definition sender_sessions :: "signaling \<Rightarrow> rstr \<Rightarrow> (sender_session list \<times> ice_server list) net_op" where
  "sender_sessions sg upload_token =
     bind_st (sig_send \<lparr>rq_method = GET, rq_url = endpoint sg (lit ''/sessions''),
                        rq_header = upload_header upload_token, rq_payload = NoPayload\<rparr>) (\<lambda>(status, reply).
     lift_st (if \<not> is_success status
              then Err (Status ''could not poll live receiver sessions'' status)
              else sig_json (\<lambda>b. case b of SessionsBody sessions servers \<Rightarrow> Some (sessions, servers)
                                   | _ \<Rightarrow> None) reply))"

definition sig_answer :: "signaling \<Rightarrow> rstr \<Rightarrow> rstr \<Rightarrow> description \<Rightarrow> unit net_op" where
  "sig_answer sg upload_token session_id answer =
     bind_st (lift_st (map_err BadDescription (description_validate answer (lit ''answer'')))) (\<lambda>_.
     bind_st (sig_send \<lparr>rq_method = PUT,
                        rq_url = endpoint sg (lit ''/sessions/'' @ session_id @ lit ''/answer''),
                        rq_header = upload_header upload_token,
                        rq_payload = DescriptionPayload answer\<rparr>) (\<lambda>(status, _).
     lift_st (if status \<noteq> 204 then Err (Status ''could not publish WebRTC answer'' status) else Ok ())))"

definition register :: "signaling \<Rightarrow> rstr \<Rightarrow> receiver_session net_op" where
  "register sg join_token =
     bind_st (sig_send \<lparr>rq_method = POST, rq_url = endpoint sg (lit ''/sessions''),
                        rq_header = (lit ''X-Filebeam-Join-Token'', join_token),
                        rq_payload = EmptyPayload\<rparr>) (\<lambda>(status, reply).
     lift_st (if status \<noteq> 201 then Err (Status ''could not register WebRTC receiver'' status)
              else sig_json (\<lambda>b. case b of RegisteredBody s \<Rightarrow> Some s | _ \<Rightarrow> None) reply))"

definition sig_offer :: "signaling \<Rightarrow> receiver_session \<Rightarrow> description \<Rightarrow> unit net_op" where
  "sig_offer sg session offer =
     bind_st (lift_st (map_err BadDescription (description_validate offer (lit ''offer'')))) (\<lambda>_.
     bind_st (sig_send \<lparr>rq_method = PUT,
                        rq_url = endpoint sg (lit ''/sessions/'' @ rs_id session @ lit ''/offer''),
                        rq_header = session_header session,
                        rq_payload = DescriptionPayload offer\<rparr>) (\<lambda>(status, _).
     lift_st (if status \<noteq> 204 then Err (Status ''could not publish WebRTC offer'' status) else Ok ())))"

definition receiver_status :: "signaling \<Rightarrow> receiver_session \<Rightarrow> (description option \<times> rstr) net_op" where
  "receiver_status sg session =
     bind_st (sig_send \<lparr>rq_method = GET, rq_url = endpoint sg (lit ''/sessions/'' @ rs_id session),
                        rq_header = session_header session, rq_payload = NoPayload\<rparr>) (\<lambda>(status, reply).
     lift_st (if \<not> is_success status then Err (Status ''live sender is unavailable'' status)
              else sig_json (\<lambda>b. case b of PollBody answer st \<Rightarrow> Some (answer, st) | _ \<Rightarrow> None) reply))"

definition report :: "signaling \<Rightarrow> receiver_session \<Rightarrow> rstr \<Rightarrow> u8 \<Rightarrow> unit net_op" where
  "report sg session status progress =
     (if status \<notin> {lit ''active'', lit ''completed'', lit ''cancelled'', lit ''failed''}
      then lift_st (Err (Msg ''invalid WebRTC receiver status''))
      else
        bind_st (sig_send \<lparr>rq_method = PATCH, rq_url = endpoint sg (lit ''/sessions/'' @ rs_id session),
                           rq_header = session_header session,
                           rq_payload = StatusPayload status progress\<rparr>) (\<lambda>(code, _).
        lift_st (if code \<noteq> 204 then Err (Status ''could not report WebRTC receiver status'' code)
                 else Ok ())))"

definition sig_end :: "signaling \<Rightarrow> rstr \<Rightarrow> unit net_op" where
  "sig_end sg upload_token =
     bind_st (sig_send \<lparr>rq_method = POST, rq_url = endpoint sg (lit ''/end''),
                        rq_header = upload_header upload_token, rq_payload = EmptyPayload\<rparr>) (\<lambda>(status, _).
     lift_st (if status \<noteq> 204 then Err (Status ''could not end live transfer'' status) else Ok ()))"

section \<open>The peer\<close>

text \<open>The outcomes of the WebRTC stack's calls for one peer connection. \<open>None\<close> and \<open>False\<close> are
  errors of the call.\<close>

record rtc_outcomes =
  rtc_build :: bool
  rtc_created_channel :: "channel_info option"
  rtc_create_offer :: bool
  rtc_create_answer :: bool
  rtc_set_local :: bool
  rtc_set_remote :: bool
  rtc_gathered :: bool
  rtc_local_sdp :: "rstr option"
  rtc_incoming :: "channel_info option option"
  rtc_polls :: "poll list"

definition rtc_call :: "string \<Rightarrow> bool \<Rightarrow> (unit, sig_error) result" where
  "rtc_call what ok = (if ok then Ok () else Err (Msg what))"

definition peer_new :: "rtc_outcomes \<Rightarrow> ice_server list \<Rightarrow> bool \<Rightarrow> (unit, sig_error) result" where
  "peer_new rtc servers relay_only =
     and_then (map_err Msg (rtc_ice_servers servers relay_only)) (\<lambda>_.
       rtc_call ''create WebRTC peer connection'' (rtc_build rtc))"

definition peer_local :: "rtc_outcomes \<Rightarrow> rstr \<Rightarrow> (description, sig_error) result" where
  "peer_local rtc kind =
     and_then (rtc_call ''timed out gathering ICE candidates'' (rtc_gathered rtc)) (\<lambda>_.
     and_then (ok_or (Msg ''local WebRTC SDP is unavailable'') (rtc_local_sdp rtc)) (\<lambda>sdp.
     let d = \<lparr>desc_kind = kind, desc_sdp = sdp\<rparr> in
     and_then (map_err BadDescription (description_validate d kind)) (\<lambda>_. Ok d)))"

definition offer_channel :: "rtc_outcomes \<Rightarrow> (description \<times> channel_info, sig_error) result" where
  "offer_channel rtc =
     and_then (ok_or (Msg ''create data channel'') (rtc_created_channel rtc)) (\<lambda>channel.
     and_then (map_err Msg (validate_channel channel)) (\<lambda>_.
     and_then (rtc_call ''create offer'' (rtc_create_offer rtc)) (\<lambda>_.
     and_then (rtc_call ''set local description'' (rtc_set_local rtc)) (\<lambda>_.
     and_then (peer_local rtc (lit ''offer'')) (\<lambda>d. Ok (d, channel))))))"

definition peer_answer :: "rtc_outcomes \<Rightarrow> description \<Rightarrow> (description, sig_error) result" where
  "peer_answer rtc offer =
     and_then (map_err BadDescription (description_validate offer (lit ''offer''))) (\<lambda>_.
     and_then (rtc_call ''set remote description'' (rtc_set_remote rtc)) (\<lambda>_.
     and_then (rtc_call ''create answer'' (rtc_create_answer rtc)) (\<lambda>_.
     and_then (rtc_call ''set local description'' (rtc_set_local rtc)) (\<lambda>_.
     peer_local rtc (lit ''answer'')))))"

definition accept_answer :: "rtc_outcomes \<Rightarrow> description \<Rightarrow> (unit, sig_error) result" where
  "accept_answer rtc answer =
     and_then (map_err BadDescription (description_validate answer (lit ''answer''))) (\<lambda>_.
     rtc_call ''set remote description'' (rtc_set_remote rtc))"

definition receiver_channel :: "rtc_outcomes \<Rightarrow> (channel_info, sig_error) result" where
  "receiver_channel rtc =
     and_then (ok_or (Msg ''timed out waiting for WebRTC data channel'') (rtc_incoming rtc)) (\<lambda>c.
     and_then (ok_or (Msg ''WebRTC peer closed before opening a data channel'') c) (\<lambda>channel.
     and_then (map_err Msg (validate_channel channel)) (\<lambda>_. Ok channel)))"

section \<open>Connecting\<close>

text \<open>How one \<open>tokio::select!\<close> resolves: the operation finishes first, or cancellation or the
  deadline wins, having let the operation's effects happen or not.\<close>

datatype wake = Ready | CancelWins bool | DeadlineWins bool

datatype peer_state = NoPeer | PeerOpen | PeerClosed

record conn =
  conn_net :: net
  conn_peer :: peer_state
  conn_wakes :: "wake list"

text \<open>Errors of the connect functions; \<open>Timeout\<close> is the error \<open>timed out connecting WebRTC
  receiver\<close> of an elapsed deadline.\<close>

datatype stop = Failed sig_error | Timeout

type_synonym 'a conn_op = "(conn, 'a, stop) st"

definition on_net :: "'a net_op \<Rightarrow> 'a conn_op" where
  "on_net m c = (case m (conn_net c) of (r, n) \<Rightarrow> (map_err Failed r, c\<lparr>conn_net := n\<rparr>))"

definition on_rtc :: "('a, sig_error) result \<Rightarrow> 'a conn_op" where
  "on_rtc r = lift_st (map_err Failed r)"

definition next_wake :: "conn \<Rightarrow> wake \<times> conn" where
  "next_wake c = (case conn_wakes c of [] \<Rightarrow> (DeadlineWins False, c)
                  | w # ws \<Rightarrow> (w, c\<lparr>conn_wakes := ws\<rparr>))"

definition race :: "'a conn_op \<Rightarrow> 'a conn_op" where
  "race m c =
     (case next_wake c of
        (Ready, c') \<Rightarrow> m c'
      | (CancelWins started, c') \<Rightarrow>
          (Err (Failed (Msg ''Transfer cancelled'')), if started then snd (m c') else c')
      | (DeadlineWins started, c') \<Rightarrow> (Err Timeout, if started then snd (m c') else c'))"

text \<open>The races of \<open>connect_sender\<close> are against cancellation only.\<close>

definition race_cancel :: "'a conn_op \<Rightarrow> 'a conn_op" where
  "race_cancel m c =
     (case conn_wakes c of
        CancelWins started # ws \<Rightarrow>
          (let c' = c\<lparr>conn_wakes := ws\<rparr> in
           (Err (Failed (Msg ''Transfer cancelled'')), if started then snd (m c') else c'))
      | ws \<Rightarrow> m (c\<lparr>conn_wakes := tl ws\<rparr>))"

text \<open>The polling loop of \<open>connect_receiver\<close>. Every turn takes at least one wake-up, so the fuel
  of the caller, one more than the wake-ups, is never the reason to stop: without wake-ups left
  the deadline fires first.\<close>

fun await_answer ::
  "nat \<Rightarrow> rtc_outcomes \<Rightarrow> signaling \<Rightarrow> receiver_session \<Rightarrow> channel_info \<Rightarrow> channel_info conn_op" where
  "await_answer 0 rtc sg session channel = lift_st (Err Timeout)"
| "await_answer (Suc fuel) rtc sg session channel =
     bind_st (race (on_net (receiver_status sg session))) (\<lambda>(answer, status).
       case answer of
         Some d \<Rightarrow>
           bind_st (race (on_rtc (accept_answer rtc d))) (\<lambda>_.
           bind_st (race (on_rtc (map_err Msg (wait_for_open (rtc_polls rtc))))) (\<lambda>_.
           lift_st (Ok channel)))
       | None \<Rightarrow>
           if status \<in> {lit ''cancelled'', lit ''completed'', lit ''failed''}
           then lift_st (Err (Failed (SessionEnded status)))
           else bind_st (race (lift_st (Ok ()))) (\<lambda>_. await_answer fuel rtc sg session channel))"

definition exchange_offer ::
  "rtc_outcomes \<Rightarrow> signaling \<Rightarrow> receiver_session \<Rightarrow> channel_info conn_op" where
  "exchange_offer rtc sg session =
     bind_st (race (on_rtc (offer_channel rtc))) (\<lambda>(offer, channel).
     bind_st (race (on_net (sig_offer sg session offer))) (\<lambda>_.
     (\<lambda>c. await_answer (Suc (length (conn_wakes c))) rtc sg session channel c)))"

definition peer_created :: "conn \<Rightarrow> conn" where
  "peer_created c = c\<lparr>conn_peer := PeerOpen\<rparr>"

definition peer_close :: "conn \<Rightarrow> conn" where
  "peer_close c = c\<lparr>conn_peer := PeerClosed\<rparr>"

text \<open>Creating the peer inside a race: a peer dropped by an abandoned race never reached the
  caller, so it does not count as open.\<close>

definition create_peer :: "rtc_outcomes \<Rightarrow> ice_server list \<Rightarrow> bool \<Rightarrow> unit conn_op" where
  "create_peer rtc servers relay_only c =
     (case race (on_rtc (peer_new rtc servers relay_only)) c of
        (Inl e, c') \<Rightarrow> (Err e, c') | (Inr u, c') \<Rightarrow> (Ok u, peer_created c'))"

definition resolve_servers :: "ice_override option \<Rightarrow> ice_server list \<Rightarrow> (ice_server list, sig_error) result" where
  "resolve_servers ov servers =
     (case ov of None \<Rightarrow> Ok servers | Some policy \<Rightarrow> map_err Msg (ice_resolve policy servers))"

definition connect_receiver_setup ::
  "rtc_outcomes \<Rightarrow> signaling \<Rightarrow> rstr \<Rightarrow> bool \<Rightarrow> ice_override option \<Rightarrow> receiver_session conn_op" where
  "connect_receiver_setup rtc sg join_token relay_only ov =
     bind_st (race (on_net (register sg join_token))) (\<lambda>session.
     bind_st (on_rtc (resolve_servers ov (rs_ice_servers session))) (\<lambda>servers.
     bind_st (create_peer rtc servers relay_only) (\<lambda>_. lift_st (Ok session))))"

definition connect_receiver ::
  "rtc_outcomes \<Rightarrow> signaling \<Rightarrow> rstr \<Rightarrow> bool \<Rightarrow> ice_override option
     \<Rightarrow> (receiver_session \<times> channel_info) conn_op" where
  "connect_receiver rtc sg join_token relay_only ov c =
     (case connect_receiver_setup rtc sg join_token relay_only ov c of
        (Inl s, c1) \<Rightarrow> (Err s, c1)
      | (Inr session, c1) \<Rightarrow>
          (case exchange_offer rtc sg session c1 of
             (Inl Timeout, c2) \<Rightarrow> (Err Timeout, c2)
           | (Inl (Failed e), c2) \<Rightarrow> (Err (Failed e), peer_close c2)
           | (Inr channel, c2) \<Rightarrow> (Ok (session, channel), c2)))"

definition connect_sender ::
  "rtc_outcomes \<Rightarrow> signaling \<Rightarrow> rstr \<Rightarrow> sender_session \<Rightarrow> ice_server list \<Rightarrow> bool
     \<Rightarrow> channel_info conn_op" where
  "connect_sender rtc sg upload_token session servers relay_only c =
     (case ss_offer session of
        None \<Rightarrow> (Err (Failed (Msg ''receiver has not published an offer'')), c)
      | Some offer \<Rightarrow>
          (case peer_new rtc servers relay_only of
             Inl e \<Rightarrow> (Err (Failed e), c)
           | Inr _ \<Rightarrow>
               (case bind_st (race_cancel (on_rtc (peer_answer rtc offer))) (\<lambda>answer.
                     bind_st (race_cancel (on_net (sig_answer sg upload_token (ss_id session) answer))) (\<lambda>_.
                     race_cancel (on_rtc (receiver_channel rtc)))) (peer_created c) of
                  (Inl s, c') \<Rightarrow> (Err s, peer_close c')
                | (Inr channel, c') \<Rightarrow> (Ok channel, c'))))"

section \<open>When a failed attempt closes the peer\<close>

definition keeps_peer :: "'a conn_op \<Rightarrow> bool" where
  "keeps_peer m \<longleftrightarrow> (\<forall>c. conn_peer (snd (m c)) = conn_peer c)"

lemma keeps_peerD: "keeps_peer m \<Longrightarrow> m c = (r, c') \<Longrightarrow> conn_peer c' = conn_peer c"
  by (metis keeps_peer_def snd_conv)

lemma peer_kept_lift [intro!]: "keeps_peer (lift_st r)" "keeps_peer (on_rtc q)"
  by (simp_all add: keeps_peer_def on_rtc_def)

lemma keeps_net [intro!]: "keeps_peer (on_net m)"
  by (simp add: keeps_peer_def on_net_def split: prod.split)

lemma peer_kept_bind [intro!]:
  "keeps_peer m \<Longrightarrow> (\<And>x. keeps_peer (f x)) \<Longrightarrow> keeps_peer (bind_st m f)"
  by (auto simp: keeps_peer_def bind_st_def split: prod.splits sum.splits) (metis snd_conv)+

lemma keeps_race [intro!]: "keeps_peer m \<Longrightarrow> keeps_peer (race m)"
  by (auto simp: keeps_peer_def race_def next_wake_def split: list.splits wake.splits)

lemma keeps_race_cancel [intro!]: "keeps_peer m \<Longrightarrow> keeps_peer (race_cancel m)"
  by (auto simp: keeps_peer_def race_cancel_def Let_def split: list.splits wake.splits)

lemma keeps_await: "keeps_peer (await_answer fuel rtc sg session channel)"
proof (induction fuel)
  case (Suc fuel)
  then show ?case
    by (auto intro!: peer_kept_bind keeps_race peer_kept_lift keeps_net split: option.splits)
qed auto

lemma keeps_exchange: "keeps_peer (exchange_offer rtc sg session)"
proof -
  have "keeps_peer (\<lambda>c. await_answer (f c) rtc sg session channel c)" for f channel
    using keeps_await by (simp add: keeps_peer_def)
  then show ?thesis
    unfolding exchange_offer_def split_beta by (intro peer_kept_bind keeps_race peer_kept_lift keeps_net)
qed

lemma setup_peer:
  assumes "connect_receiver_setup rtc sg join relay ov c = (r, c')" "conn_peer c = NoPeer"
  shows "conn_peer c' = (case r of Inl _ \<Rightarrow> NoPeer | Inr _ \<Rightarrow> PeerOpen)"
proof -
  have reg: "conn_peer c1 = NoPeer" if "race (on_net (register sg join)) c = (r1, c1)" for r1 c1
    using keeps_peerD [of "race (on_net (register sg join))", OF _ that] assms(2) by auto
  have mk: "conn_peer c2 = conn_peer c1"
    if "race (on_rtc (peer_new rtc servers relay)) c1 = (r2, c2)" for servers c1 r2 c2
    using keeps_peerD [of "race (on_rtc (peer_new rtc servers relay))", OF _ that] by auto
  show ?thesis using assms(1) reg mk
    by (auto simp: connect_receiver_setup_def bind_st_def [of "race _"] on_rtc_def bind_st_def
        create_peer_def peer_created_def lift_st_def split: prod.splits sum.splits)
qed

text \<open>\<open>connect_receiver\<close> returns an open peer only on success, and closes the peer on every
  failure of the exchange (cancellation included) except one: when the deadline elapses after the
  peer was created, it returns the timeout error and the peer is never closed, although its
  documentation promises that a timeout closes it.\<close>

theorem receiver_peer_closed_except_on_timeout:
  "case connect_receiver rtc sg join_token relay_only ov
          \<lparr>conn_net = n, conn_peer = NoPeer, conn_wakes = wakes\<rparr> of
     (Inr _, c) \<Rightarrow> conn_peer c = PeerOpen
   | (Inl e, c) \<Rightarrow>
       if e = Timeout then conn_peer c = NoPeer \<or> conn_peer c = PeerOpen
       else conn_peer c = NoPeer \<or> conn_peer c = PeerClosed"
proof -
  obtain r c1 where s: "connect_receiver_setup rtc sg join_token relay_only ov
      \<lparr>conn_net = n, conn_peer = NoPeer, conn_wakes = wakes\<rparr> = (r, c1)" by fastforce
  note p1 = setup_peer [OF s]
  show ?thesis
  proof (cases r)
    case (Inl e)
    then show ?thesis using s p1 by (simp add: connect_receiver_def)
  next
    case (Inr session)
    obtain r2 c2 where x: "exchange_offer rtc sg session c1 = (r2, c2)" by fastforce
    have "conn_peer c2 = PeerOpen" using keeps_peerD [OF keeps_exchange x] p1 Inr by simp
    then show ?thesis using s x Inr
      by (auto simp: connect_receiver_def peer_close_def split: sum.splits stop.splits)
  qed
qed

lemma connect_sender_peer:
  assumes "connect_sender rtc sg tok session servers relay c = (r, c')" "conn_peer c = NoPeer"
  shows "case r of Inr _ \<Rightarrow> conn_peer c' = PeerOpen
    | Inl _ \<Rightarrow> conn_peer c' = NoPeer \<or> conn_peer c' = PeerClosed"
proof -
  define body where "body = (\<lambda>offer.
    bind_st (race_cancel (on_rtc (peer_answer rtc offer))) (\<lambda>answer.
    bind_st (race_cancel (on_net (sig_answer sg tok (ss_id session) answer))) (\<lambda>_.
    race_cancel (on_rtc (receiver_channel rtc)))))"
  have "keeps_peer (body offer)" for offer
    unfolding body_def by (intro peer_kept_bind keeps_race_cancel peer_kept_lift keeps_net)
  then have "conn_peer c2 = PeerOpen" if "body offer (peer_created c) = (r2, c2)" for offer r2 c2
    using keeps_peerD [of "body offer", OF _ that] by (simp add: peer_created_def)
  then show ?thesis using assms unfolding connect_sender_def body_def
    by (auto simp: peer_close_def split: option.splits sum.splits prod.splits)
qed

section \<open>Which credential goes where\<close>

text \<open>An operation sends only requests that satisfy \<open>ok\<close>.\<close>

definition logs :: "(sig_request \<Rightarrow> bool) \<Rightarrow> 'a conn_op \<Rightarrow> bool" where
  "logs ok m \<longleftrightarrow>
     (\<forall>c. \<exists>rs. net_log (conn_net (snd (m c))) = net_log (conn_net c) @ rs \<and> list_all ok rs)"

lemma logsE:
  assumes "logs ok m" "m c = (r, c')"
  obtains rs where "net_log (conn_net c') = net_log (conn_net c) @ rs" "list_all ok rs"
  using assms by (metis logs_def snd_conv)

lemma logs_lift [intro!]: "logs ok (lift_st r)" "logs ok (on_rtc q)"
  by (simp_all add: logs_def on_rtc_def)

lemma logs_bind [intro!]:
  assumes "logs ok m" "\<And>x. logs ok (f x)"
  shows "logs ok (bind_st m f)"
  unfolding logs_def
proof
  fix c
  obtain r c1 where m: "m c = (r, c1)" by fastforce
  obtain rs where rs: "net_log (conn_net c1) = net_log (conn_net c) @ rs" "list_all ok rs"
    using logsE [OF assms(1) m] .
  show "\<exists>rs. net_log (conn_net (snd (bind_st m f c))) = net_log (conn_net c) @ rs \<and> list_all ok rs"
  proof (cases r)
    case (Inl e)
    then show ?thesis using m rs by (simp add: bind_st_def)
  next
    case (Inr x)
    obtain rs2 where "net_log (conn_net (snd (f x c1))) = net_log (conn_net c1) @ rs2" "list_all ok rs2"
      using assms(2) [of x] by (auto simp: logs_def)
    then have "net_log (conn_net (snd (bind_st m f c))) = net_log (conn_net c) @ (rs @ rs2)"
      "list_all ok (rs @ rs2)"
      using m rs Inr by (simp_all add: bind_st_def)
    then show ?thesis by blast
  qed
qed

lemma logs_race [intro!]: "logs ok m \<Longrightarrow> logs ok (race m)"
  by (auto simp: logs_def race_def next_wake_def split: list.splits wake.splits)
     (metis (no_types, lifting) conn.select_convs(1) conn.surjective conn.update_convs(3))+

lemma logs_on_net:
  assumes "\<And>n. \<exists>rs. net_log (snd (m n)) = net_log n @ rs \<and> list_all ok rs"
  shows "logs ok (on_net m)"
  using assms by (auto simp: logs_def on_net_def split: prod.split) (metis snd_conv)

lemma net_log_sig_send: "net_log (snd (sig_send rq n)) = net_log n @ [rq]"
  by (auto simp: sig_send_def Let_def split: list.split exchange.split)

lemma net_log_send_then: "net_log (snd (bind_st (sig_send rq) (\<lambda>x. lift_st (f x)) n)) = net_log n @ [rq]"
  using net_log_sig_send [of rq n] by (auto simp: bind_st_def split: prod.split sum.split)

lemma logs_send_then [intro]:
  "ok rq \<Longrightarrow> logs ok (on_net (bind_st (sig_send rq) (\<lambda>x. lift_st (f x))))"
  by (rule logs_on_net) (simp add: net_log_send_then)

text \<open>The requests a receiver may send: to the sessions of its own transfer, with the join token
  to register and with its session token for everything else.\<close>

definition receiver_request :: "signaling \<Rightarrow> rstr \<Rightarrow> sig_request \<Rightarrow> bool" where
  "receiver_request sg join_token r \<longleftrightarrow>
     starts_with (rq_url r) (endpoint sg (lit ''/sessions''))
     \<and> (if rq_method r = POST then rq_header r = (lit ''X-Filebeam-Join-Token'', join_token)
        else fst (rq_header r) = lit ''X-Filebeam-Session-Token'')"

lemma endpoint_append: "endpoint sg (a @ b) = endpoint sg a @ b"
  by (simp only: endpoint_def append_assoc)

lemma starts_with_append [simp]: "starts_with (a @ b) a" "starts_with a a"
  by (simp_all add: starts_with_def)

lemma session_url: "starts_with (endpoint sg (lit ''/sessions/'' @ x)) (endpoint sg (lit ''/sessions''))"
proof -
  have "lit ''/sessions/'' = lit ''/sessions'' @ lit ''/''" by simp
  then show ?thesis by (simp only: endpoint_append append_assoc starts_with_append)
qed

lemma session_request:
  "m \<noteq> POST \<Longrightarrow> receiver_request sg join
     \<lparr>rq_method = m, rq_url = endpoint sg (lit ''/sessions/'' @ x), rq_header = session_header s,
      rq_payload = p\<rparr>"
  using session_url [of sg x] unfolding receiver_request_def session_header_def
  by (simp only: sig_request.simps fst_conv if_False simp_thms)

lemma logs_register: "logs (receiver_request sg join) (on_net (register sg join))"
  unfolding register_def split_beta by (rule logs_send_then) (simp add: receiver_request_def)

lemma logs_status: "logs (receiver_request sg join) (on_net (receiver_status sg session))"
  unfolding receiver_status_def split_beta
  by (rule logs_send_then) (simp only: session_request http_method.distinct not_False_eq_True)

lemma logs_offer: "logs (receiver_request sg join) (on_net (sig_offer sg session d))"
proof (rule logs_on_net)
  fix n
  have "receiver_request sg join
    \<lparr>rq_method = PUT, rq_url = endpoint sg (lit ''/sessions/'' @ rs_id session @ lit ''/offer''),
     rq_header = session_header session, rq_payload = DescriptionPayload d\<rparr>"
    by (rule session_request) simp
  then show "\<exists>rs. net_log (snd (sig_offer sg session d n)) = net_log n @ rs
      \<and> list_all (receiver_request sg join) rs"
    unfolding sig_offer_def split_beta
    by (cases "description_validate d (lit ''offer'')") (simp_all add: net_log_send_then)
qed

lemma logs_await: "logs (receiver_request sg join) (await_answer fuel rtc sg session channel)"
proof (induction fuel)
  case (Suc fuel)
  then show ?case
    by (auto intro!: logs_bind logs_race logs_lift logs_status split: option.splits)
qed auto

lemma logs_exchange: "logs (receiver_request sg join) (exchange_offer rtc sg session)"
proof -
  have "logs (receiver_request sg join) (\<lambda>c. await_answer (f c) rtc sg session channel c)" for f channel
    using logs_await [of sg join] by (simp add: logs_def)
  then show ?thesis
    unfolding exchange_offer_def split_beta by (intro logs_bind logs_race logs_lift logs_offer)
qed

lemma logs_create: "logs ok (create_peer rtc servers relay)"
  using logs_race [OF logs_lift(2), of ok "peer_new rtc servers relay"]
  by (auto simp: logs_def create_peer_def peer_created_def split: prod.splits sum.splits) (metis snd_conv)+

lemma logs_setup: "logs (receiver_request sg join) (connect_receiver_setup rtc sg join relay ov)"
  unfolding connect_receiver_setup_def by (intro logs_bind logs_race logs_lift logs_register logs_create)

text \<open>However the server, the WebRTC stack, the user and the clock behave, a connecting
  receiver talks only to the sessions endpoint of its own transfer; it shows the join token only
  to register, its session token afterwards, and no other credential.\<close>

theorem receiver_presents_only_its_credentials:
  "list_all (receiver_request sg join_token)
     (net_log (conn_net (snd (connect_receiver rtc sg join_token relay_only ov
        \<lparr>conn_net = \<lparr>net_log = [], net_script = script\<rparr>, conn_peer = NoPeer, conn_wakes = wakes\<rparr>))))"
proof -
  define c0 where
    "c0 = \<lparr>conn_net = \<lparr>net_log = [], net_script = script\<rparr>, conn_peer = NoPeer, conn_wakes = wakes\<rparr>"
  obtain r c1 where s: "connect_receiver_setup rtc sg join_token relay_only ov c0 = (r, c1)" by fastforce
  have l1: "list_all (receiver_request sg join_token) (net_log (conn_net c1))"
    using logsE [OF logs_setup s] by (auto simp: c0_def)
  show ?thesis
  proof (cases r)
    case (Inl e)
    then show ?thesis using s l1 by (simp add: connect_receiver_def c0_def)
  next
    case (Inr session)
    obtain r2 c2 where x: "exchange_offer rtc sg session c1 = (r2, c2)" by fastforce
    have "list_all (receiver_request sg join_token) (net_log (conn_net c2))"
      using logsE [OF logs_exchange x] l1 by (metis list_all_append)
    then show ?thesis using s x Inr
      by (auto simp: connect_receiver_def c0_def peer_close_def split: sum.splits stop.splits)
  qed
qed

end
