(* ===== verification/Share_Link.thy ===== *)
theory Share_Link
  imports Beam_Prelude
begin

text \<open>
  Share links, \<open>crates/transfer/src/link.rs\<close>: cleaning a pasted link, extracting and checking
  the transfer id (a ULID) and the share key (unpadded base64url of 32 bytes). The check of the
  key is compared with a reference encoder, and links built by the clients are shown to parse
  back.
\<close>

section \<open>The parser\<close>

definition base64url_value :: "u8 \<Rightarrow> u8 option" where
  "base64url_value byte =
     (if 65 \<le> byte \<and> byte \<le> 90 then Some (byte - 65)
      else if 97 \<le> byte \<and> byte \<le> 122 then Some (byte - 97 + 26)
      else if 48 \<le> byte \<and> byte \<le> 57 then Some (byte - 48 + 52)
      else if byte = 45 then Some 62
      else if byte = 95 then Some 63
      else None)"

definition base64url_byte :: "u8 \<Rightarrow> bool" where
  "base64url_byte b \<longleftrightarrow> ascii_alphanumeric (unat b) \<or> b = 45 \<or> b = 95"

definition valid_base64url :: "rstr \<Rightarrow> nat \<Rightarrow> u8 \<Rightarrow> bool" where
  "valid_base64url v len unused_bits \<longleftrightarrow>
     str_len v = len \<and> list_all base64url_byte (bytes v)
     \<and> (case base64url_value (last (bytes v)) of None \<Rightarrow> False | Some l \<Rightarrow> and l unused_bits = 0)"

definition ulid_byte :: "u8 \<Rightarrow> bool" where
  "ulid_byte c \<longleftrightarrow> (48 \<le> c \<and> c \<le> 57) \<or> (65 \<le> c \<and> c \<le> 72) \<or> (74 \<le> c \<and> c \<le> 75)
     \<or> (77 \<le> c \<and> c \<le> 78) \<or> (80 \<le> c \<and> c \<le> 84) \<or> (86 \<le> c \<and> c \<le> 90)"

definition is_ulid :: "rstr \<Rightarrow> bool" where
  "is_ulid v \<longleftrightarrow>
     str_len v = 26 \<and> 48 \<le> hd (bytes v) \<and> hd (bytes v) \<le> 55 \<and> list_all ulid_byte (tl (bytes v))"

text \<open>The condition as written: the conjunction binds tighter, so a hexadecimal digit is accepted
  at the dash positions too.\<close>

definition is_uuid :: "rstr \<Rightarrow> bool" where
  "is_uuid v \<longleftrightarrow>
     str_len v = 36 \<and>
     list_all (\<lambda>(i, c). (i \<in> {8, 13, 18, 23} \<and> c = 45) \<or> ascii_hexdigit (unat c))
       (enumerate 0 (bytes v))"

record share_link =
  link_id :: rstr
  link_key :: "rstr option"

text \<open>The trimmed characters: apostrophe, quotation mark, backtick, angle brackets; and these with
  square brackets.\<close>

definition quote_chars :: "nat list" where
  "quote_chars = [0x27, 0x22, 0x60, 0x3C, 0x3E]"

definition bracket_chars :: "nat list" where
  "bracket_chars = [0x27, 0x22, 0x60, 0x3C, 0x3E, 0x5B, 0x5D]"

definition clean_link :: "rstr \<Rightarrow> rstr" where
  "clean_link input =
     (let v = trim_matches (\<lambda>c. c \<in> set bracket_chars) (trim input);
          v = (case rsplit_once_str (lit '']('') v of
                 None \<Rightarrow> v
               | Some (_, markdown) \<Rightarrow>
                   trim (trim_end_matches (\<lambda>c. c = of_char (CHR '')'')) (trim markdown)));
          v = trim_matches (\<lambda>c. c \<in> set quote_chars) v
      in trim_start_matches (\<lambda>c. c = of_char (CHR ''/''))
           (case rsplit_once (of_char (CHR ''/'')) v of None \<Rightarrow> v | Some (_, path) \<Rightarrow> path))"

definition parse_share_key :: "rstr \<Rightarrow> (rstr, string) result" where
  "parse_share_key fragment =
     (let f = (case strip_prefix (lit ''k='') fragment of None \<Rightarrow> fragment | Some r \<Rightarrow> r) in
      and_then (ok_or ''share key must use v1.<base64url>'' (strip_prefix (lit ''v1.'') f)) (\<lambda>key.
      if \<not> valid_base64url key 43 3 then Err ''share key must decode to 32 bytes'' else Ok key))"

definition parse_share_link :: "rstr \<Rightarrow> (share_link, string) result" where
  "parse_share_link input =
     (let v = clean_link input;
          (raw_id, fragment) =
            (case split_once (of_char (CHR ''#'')) v of None \<Rightarrow> (v, None) | Some (a, b) \<Rightarrow> (a, Some b))
      in
      if raw_id = [] \<or> of_char (CHR ''/'') \<in> set raw_id \<or> of_char (CHR ''?'') \<in> set raw_id
        then Err ''transfer link has an invalid path''
      else if is_uuid raw_id
        then Err ''UUIDs are not Filebeam transfer IDs; provide a 26-character ULID''
      else
        let tid = to_ascii_uppercase raw_id in
        if \<not> is_ulid tid then Err ''transfer ID must be a canonical 26-character ULID''
        else
          and_then (case fragment of None \<Rightarrow> Ok None
                    | Some f \<Rightarrow> and_then (parse_share_key f) (\<lambda>key. Ok (Some key))) (\<lambda>key.
          Ok \<lparr>link_id = tid, link_key = key\<rparr>))"

section \<open>Keys are exactly the encodings of 32 bytes\<close>

text \<open>The reference: RFC 4648 base64url without padding.\<close>

definition b64_char :: "nat \<Rightarrow> nat" where
  "b64_char v = (if v < 26 then 65 + v else if v < 52 then 71 + v else if v < 62 then v - 4
                 else if v = 62 then 45 else 95)"

fun b64_encode :: "nat list \<Rightarrow> rstr" where
  "b64_encode (a # b # c # rest) =
     [b64_char (a div 4), b64_char (a mod 4 * 16 + b div 16),
      b64_char (b mod 16 * 4 + c div 64), b64_char (c mod 64)] @ b64_encode rest"
| "b64_encode [a, b] =
     [b64_char (a div 4), b64_char (a mod 4 * 16 + b div 16), b64_char (b mod 16 * 4)]"
| "b64_encode [a] = [b64_char (a div 4), b64_char (a mod 4 * 16)]"
| "b64_encode [] = []"

definition b64_val :: "nat \<Rightarrow> nat" where
  "b64_val c = (if 65 \<le> c \<and> c \<le> 90 then c - 65 else if 97 \<le> c \<and> c \<le> 122 then c - 71
                else if 48 \<le> c \<and> c \<le> 57 then c + 4 else if c = 45 then 62 else 63)"

definition b64_ok :: "nat \<Rightarrow> bool" where
  "b64_ok c \<longleftrightarrow> ascii_alphanumeric c \<or> c = 45 \<or> c = 95"

lemmas ascii_defs = ascii_alphanumeric_def ascii_digit_def ascii_upper_def ascii_lower_def
  ascii_hexdigit_def

lemma b64_val_less: "b64_ok c \<Longrightarrow> b64_val c < 64"
  by (auto simp: b64_ok_def b64_val_def ascii_defs)

lemma b64_char_val: "b64_ok c \<Longrightarrow> b64_char (b64_val c) = c"
  by (auto simp: b64_ok_def b64_val_def b64_char_def ascii_defs)

lemma b64_val_char: "v < 64 \<Longrightarrow> b64_val (b64_char v) = v"
  by (auto simp: b64_val_def b64_char_def)

lemma b64_ok_char: "v < 64 \<Longrightarrow> b64_ok (b64_char v)"
  by (auto simp: b64_ok_def b64_char_def ascii_defs)

lemma b64_ok_ascii: "b64_ok c \<Longrightarrow> c < 128"
  by (auto simp: b64_ok_def ascii_defs)

text \<open>Characters and bytes coincide on strings whose bytes are all base64url characters.\<close>

lemma base64url_bytes:
  assumes "\<forall>c \<in> set v. scalar c"
  shows "list_all base64url_byte (bytes v) \<longleftrightarrow> list_all b64_ok v"
    and "list_all b64_ok v \<Longrightarrow> bytes v = map of_nat v"
proof -
  show by_chars: "bytes v = map of_nat v" if "list_all b64_ok v"
    using that
  proof (induction v)
    case (Cons c v)
    then show ?case using b64_ok_ascii [of c] by (simp add: utf8_char_ascii)
  qed simp
  have unat_c: "unat (of_nat c :: u8) = c" if "c < 128" for c
    using that by (intro unat_of_nat_less) simp
  have byte_c: "base64url_byte (of_nat c) \<longleftrightarrow> b64_ok c" if "c < 128" for c
    using unat_c [OF that] by (simp add: base64url_byte_def b64_ok_def word_unat_eq_iff)
  show "list_all base64url_byte (bytes v) \<longleftrightarrow> list_all b64_ok v"
  proof
    assume ok: "list_all b64_ok v"
    then have "\<And>c. c \<in> set v \<Longrightarrow> c < 128 \<and> b64_ok c" by (auto simp: list_all_iff dest: b64_ok_ascii)
    then show "list_all base64url_byte (bytes v)"
      using byte_c by (auto simp: by_chars [OF ok] list_all_iff)
  next
    assume all: "list_all base64url_byte (bytes v)"
    then have "\<forall>b \<in> set (bytes v). unat b < 0x80"
      by (auto simp: list_all_iff base64url_byte_def ascii_defs)
    then have "bytes v = map of_nat v" and low: "\<forall>c \<in> set v. c < 0x80"
      using bytes_ascii [OF assms] by simp_all
    then show "list_all b64_ok v" using all byte_c by (auto simp: list_all_iff)
  qed
qed

lemma base64url_value_char:
  assumes "b64_ok c"
  shows "base64url_value (of_nat c) = Some (of_nat (b64_val c))"
proof -
  have u: "unat (of_nat c :: u8) = c"
    using b64_ok_ascii [OF assms] by (intro unat_of_nat_less) simp
  have le: "(of_nat c :: u8) \<le> numeral n \<longleftrightarrow> c \<le> unat (numeral n :: u8)"
    "(numeral n :: u8) \<le> of_nat c \<longleftrightarrow> unat (numeral n :: u8) \<le> c" for n
    by (simp_all only: word_le_nat_alt u)
  have eq: "(of_nat c :: u8) = numeral n \<longleftrightarrow> c = unat (numeral n :: u8)" for n
    by (simp only: word_unat_eq_iff u)
  consider "65 \<le> c" "c \<le> 90" | "97 \<le> c" "c \<le> 122" | "48 \<le> c" "c \<le> 57" | "c = 45" | "c = 95"
    using assms by (auto simp: b64_ok_def ascii_defs)
  then show ?thesis
    by cases (simp_all add: base64url_value_def b64_val_def le eq of_nat_diff)
qed

text \<open>The decoder of the reference, on whole groups and the two kinds of rest.\<close>

fun b64_decode :: "rstr \<Rightarrow> nat list" where
  "b64_decode (p # q # r # s # rest) =
     [b64_val p * 4 + b64_val q div 16, b64_val q mod 16 * 16 + b64_val r div 4,
      b64_val r mod 4 * 64 + b64_val s] @ b64_decode rest"
| "b64_decode [p, q, r] = [b64_val p * 4 + b64_val q div 16, b64_val q mod 16 * 16 + b64_val r div 4]"
| "b64_decode [p, q] = [b64_val p * 4 + b64_val q div 16]"
| "b64_decode _ = []"

definition rest_bits_clear :: "rstr \<Rightarrow> bool" where
  "rest_bits_clear v \<longleftrightarrow>
     length v mod 4 = 0 \<or> (length v mod 4 = 3 \<and> b64_val (last v) mod 4 = 0)
     \<or> (length v mod 4 = 2 \<and> b64_val (last v) mod 16 = 0)"

lemma rest_bits_clear_group: "rest_bits_clear (p # q # r # s # rest) \<longleftrightarrow> rest_bits_clear rest"
proof (cases "rest = []")
  case True
  then show ?thesis by (simp add: rest_bits_clear_def)
next
  case False
  have "length (p # q # r # s # rest) mod 4 = length rest mod 4" by simp
  moreover have "last (p # q # r # s # rest) = last rest" using False by simp
  ultimately show ?thesis by (simp only: rest_bits_clear_def)
qed

lemma mult_add_div_less: "d < n \<Longrightarrow> (m * n + d) div n = m" "d < n \<Longrightarrow> (m * n + d) mod n = (d :: nat)"
  by simp_all

lemma group_first:
  fixes p q :: nat
  assumes "p < 64" "q < 64"
  shows "(p * 4 + q div 16) div 4 = p" "(p * 4 + q div 16) mod 4 = q div 16" "p * 4 + q div 16 < 256"
  using assms mult_add_div_less [of "q div 16" 4 p] by auto

lemma group_second:
  fixes q r :: nat
  assumes "q < 64" "r < 64"
  shows "(q mod 16 * 16 + r div 4) div 16 = q mod 16" "(q mod 16 * 16 + r div 4) mod 16 = r div 4"
    "q mod 16 * 16 + r div 4 < 256"
proof -
  have "r div 4 < 16" "q mod 16 < 16" using assms by auto
  then show "(q mod 16 * 16 + r div 4) div 16 = q mod 16"
    "(q mod 16 * 16 + r div 4) mod 16 = r div 4" "q mod 16 * 16 + r div 4 < 256"
    using mult_add_div_less [of "r div 4" 16 "q mod 16"] by (blast, blast, linarith)
qed

lemma group_third:
  fixes r s :: nat
  assumes "s < 64"
  shows "(r mod 4 * 64 + s) div 64 = r mod 4" "(r mod 4 * 64 + s) mod 64 = s" "r mod 4 * 64 + s < 256"
proof -
  have "r mod 4 < 4" by simp
  then show "(r mod 4 * 64 + s) div 64 = r mod 4" "(r mod 4 * 64 + s) mod 64 = s"
    "r mod 4 * 64 + s < 256"
    using assms mult_add_div_less [of s 64 "r mod 4"] by (blast, blast, linarith)
qed

lemma b64_encode_decode:
  assumes "list_all b64_ok v" "rest_bits_clear v"
  shows "b64_encode (b64_decode v) = v \<and> list_all (\<lambda>b. b < 256) (b64_decode v)"
  using assms
proof (induction v rule: b64_decode.induct)
  case (1 p q r s rest)
  have lt: "b64_val p < 64" "b64_val q < 64" "b64_val r < 64" "b64_val s < 64"
    using 1(2) by (simp_all add: b64_val_less)
  have "rest_bits_clear rest"
    using 1(3) by (simp only: rest_bits_clear_group)
  then show ?case using 1 lt
    by (simp add: group_first group_second group_third b64_char_val)
next
  case (2 p q r)
  then have lt: "b64_val p < 64" "b64_val q < 64" "b64_val r < 64"
    by (simp_all add: b64_val_less)
  have "b64_val r div 4 * 4 = b64_val r"
    using 2(2) by (auto simp: rest_bits_clear_def elim: dvdE)
  then show ?case using 2 lt by (simp add: group_first group_second b64_char_val)
next
  case (3 p q)
  then have lt: "b64_val p < 64" "b64_val q < 64"
    by (simp_all add: b64_val_less)
  have "b64_val q div 16 * 16 = b64_val q"
    using 3(2) by (auto simp: rest_bits_clear_def elim: dvdE)
  then show ?case using 3 lt by (simp add: group_first b64_char_val)
qed (simp_all add: rest_bits_clear_def)

lemma b64_encode_shape:
  assumes "list_all (\<lambda>b. b < 256) bs"
  shows "list_all b64_ok (b64_encode bs)" "rest_bits_clear (b64_encode bs)"
    "length (b64_encode bs) = (4 * length bs + 2) div 3"
proof -
  have sixbits: "a div 4 < 64" "a mod 4 * 16 + b div 16 < 64" "b mod 16 * 4 + a div 64 < 64"
    "a mod 4 * 16 < 64" "b mod 16 * 4 < 64" if "a < 256" "b < 256" for a b :: nat
  proof -
    have "a mod 4 < 4" "b mod 16 < 16" "b div 16 < 16" "a div 64 < 4" "a div 4 < 64" using that by auto
    then show "a div 4 < 64" "a mod 4 * 16 + b div 16 < 64" "b mod 16 * 4 + a div 64 < 64"
      "a mod 4 * 16 < 64" "b mod 16 * 4 < 64" by linarith+
  qed
  show "list_all b64_ok (b64_encode bs)"
    using assms by (induction bs rule: b64_encode.induct) (auto intro!: b64_ok_char sixbits)
  show len: "length (b64_encode bs) = (4 * length bs + 2) div 3" for bs
    by (induction bs rule: b64_encode.induct) simp_all
  show "rest_bits_clear (b64_encode bs)"
    using assms
  proof (induction bs rule: b64_encode.induct)
    case (1 a b c rest)
    then have "rest_bits_clear (b64_encode rest)" by simp
    then show ?case by (simp add: rest_bits_clear_group)
  next
    case (2 a b)
    then show ?case using sixbits [of b b] by (simp add: rest_bits_clear_def b64_val_char)
  next
    case (3 a)
    then show ?case using sixbits [of a a] by (simp add: rest_bits_clear_def b64_val_char)
  qed (simp add: rest_bits_clear_def)
qed

lemma and_mask_clear:
  "n < 64 \<Longrightarrow> and (of_nat n :: u8) 3 = 0 \<longleftrightarrow> n mod 4 = 0"
  "n < 64 \<Longrightarrow> and (of_nat n :: u8) 15 = 0 \<longleftrightarrow> n mod 16 = 0"
proof -
  assume "n < 64"
  then have u: "unat (of_nat n :: u8) = n" by (intro unat_of_nat_less) simp
  have m: "(3 :: u8) = mask 2" "(15 :: u8) = mask 4" by (simp_all add: mask_eq_exp_minus_1)
  show "and (of_nat n :: u8) 3 = 0 \<longleftrightarrow> n mod 4 = 0"
    unfolding m take_bit_eq_mask [symmetric]
    by (simp add: word_unat_eq_iff unsigned_take_bit_eq u take_bit_nat_def)
  show "and (of_nat n :: u8) 15 = 0 \<longleftrightarrow> n mod 16 = 0"
    unfolding m take_bit_eq_mask [symmetric]
    by (simp add: word_unat_eq_iff unsigned_take_bit_eq u take_bit_nat_def)
qed

lemma valid_base64url_chars:
  assumes "list_all scalar v" "0 < n"
  shows "valid_base64url v n bits \<longleftrightarrow>
    list_all b64_ok v \<and> length v = n \<and> and (of_nat (b64_val (last v))) bits = 0"
proof -
  have sc: "\<forall>c \<in> set v. scalar c" using assms(1) by (simp add: list_all_iff)
  have "list_all b64_ok v \<Longrightarrow> v \<noteq> [] \<Longrightarrow> last (bytes v) = of_nat (last v)"
    using base64url_bytes(2) [OF sc] by (simp add: last_map)
  moreover have "list_all b64_ok v \<Longrightarrow> v \<noteq> [] \<Longrightarrow>
      base64url_value (of_nat (last v)) = Some (of_nat (b64_val (last v)))"
    by (intro base64url_value_char) (auto simp: list_all_iff)
  ultimately show ?thesis
    using assms(2) base64url_bytes [OF sc]
    by (cases "v = []") (auto simp: valid_base64url_def str_len_def)
qed

lemma byte_list: "list_all (\<lambda>b. b < 256) ns \<Longrightarrow> map unat (map of_nat ns :: u8 list) = ns"
  by (induction ns) (simp_all add: unat_of_nat)

lemma valid_base64url_encodes:
  assumes "list_all scalar v" and shape: "n = 43 \<and> bits = 3 \<and> k = 32 \<or> n = 22 \<and> bits = 15 \<and> k = 16"
  shows "valid_base64url v n bits \<longleftrightarrow> (\<exists>bs :: u8 list. length bs = k \<and> v = b64_encode (map unat bs))"
proof
  have n: "0 < n" using shape by auto
  assume "valid_base64url v n bits"
  then have v: "list_all b64_ok v" "length v = n" "and (of_nat (b64_val (last v))) bits = 0"
    using valid_base64url_chars [OF assms(1) n] by simp_all
  have "v \<noteq> []" using v(2) n by auto
  then have "b64_val (last v) < 64" using v(1) by (intro b64_val_less) (auto simp: list_all_iff)
  then have "rest_bits_clear v"
    using shape v(2,3) by (auto simp: rest_bits_clear_def and_mask_clear)
  then have enc: "b64_encode (b64_decode v) = v" "list_all (\<lambda>b. b < 256) (b64_decode v)"
    using b64_encode_decode [OF v(1)] by simp_all
  have "length (b64_decode v) = k"
    using b64_encode_shape(3) [OF enc(2)] shape v(2) enc(1) by auto
  then show "\<exists>bs :: u8 list. length bs = k \<and> v = b64_encode (map unat bs)"
    using enc byte_list [OF enc(2)] by (intro exI [of _ "map of_nat (b64_decode v)"]) simp
next
  have n: "0 < n" using shape by auto
  assume "\<exists>bs :: u8 list. length bs = k \<and> v = b64_encode (map unat bs)"
  then obtain bs :: "u8 list" where bs: "length bs = k" "v = b64_encode (map unat bs)" by blast
  have lt: "list_all (\<lambda>b. b < 256) (map unat bs)"
    using unat_less_2p [where 'a = 8] by (auto simp: list_all_iff)
  note sh = b64_encode_shape [OF lt]
  have len: "length v = n" using sh(3) bs shape by auto
  then have "v \<noteq> []" using n by auto
  then have "b64_val (last v) < 64" using sh(1) bs by (intro b64_val_less) (auto simp: list_all_iff)
  then have "and (of_nat (b64_val (last v))) bits = 0"
    using sh(2) shape bs len by (auto simp: rest_bits_clear_def and_mask_clear)
  then show "valid_base64url v n bits"
    using valid_base64url_chars [OF assms(1) n] sh(1) bs len by simp
qed

section \<open>What the parser returns\<close>

lemma set_trims:
  "set (trim_start_matches p s) \<subseteq> set s" "set (trim_end_matches p s) \<subseteq> set s"
  by (auto simp: trim_start_matches_def trim_end_matches_def dest: set_dropWhileD)

lemma set_trim_matches: "set (trim_matches p s) \<subseteq> set s" "set (trim s) \<subseteq> set s"
  unfolding trim_def trim_matches_def
  using set_trims(1) [of _ s] set_trims(2) by (meson order_trans)+

lemma split_once_Some: "split_once c s = Some (a, b) \<Longrightarrow> s = a @ c # b \<and> c \<notin> set a"
  by (induction s arbitrary: a) (auto split: if_splits)

lemma split_once_None: "split_once c s = None \<longleftrightarrow> c \<notin> set s"
  by (induction s) auto

lemma rsplit_once_Some: "rsplit_once c s = Some (a, b) \<Longrightarrow> s = a @ c # b \<and> c \<notin> set b"
proof -
  assume "rsplit_once c s = Some (a, b)"
  then have "split_once c (rev s) = Some (rev b, rev a)" by (auto simp: rsplit_once_def)
  then have "rev s = rev b @ c # rev a" "c \<notin> set (rev b)" using split_once_Some by blast+
  then show ?thesis by (metis append.assoc append_Cons append_Nil rev.simps(2) rev_append rev_rev_ident set_rev)
qed

lemma rsplit_once_str_set: "rsplit_once_str p s = Some (a, b) \<Longrightarrow> set b \<subseteq> set s"
proof (induction p s arbitrary: a b rule: rsplit_once_str.induct)
  case (2 p x xs)
  show ?case
  proof (cases "rsplit_once_str p xs")
    case None
    with 2(2) have "b = drop (length p) (x # xs)" by (auto simp: strip_prefix_def split: if_splits)
    then show ?thesis using set_drop_subset by metis
  next
    case (Some ab)
    then obtain a' where "rsplit_once_str p xs = Some (a', b)" using 2(2) by (cases ab) auto
    then show ?thesis using 2(1) by auto
  qed
qed (auto split: if_splits)

lemma set_clean_link: "set (clean_link s) \<subseteq> set s"
proof -
  define v1 where "v1 = trim_matches (\<lambda>c. c \<in> set bracket_chars) (trim s)"
  define v2 where "v2 = (case rsplit_once_str (lit '']('') v1 of None \<Rightarrow> v1
      | Some (_, m) \<Rightarrow> trim (trim_end_matches (\<lambda>c. c = of_char (CHR '')'')) (trim m)))"
  define v3 where "v3 = trim_matches (\<lambda>c. c \<in> set quote_chars) v2"
  define v4 where "v4 = (case rsplit_once (of_char (CHR ''/'')) v3 of None \<Rightarrow> v3 | Some (_, path) \<Rightarrow> path)"
  have 1: "set v1 \<subseteq> set s" unfolding v1_def using set_trim_matches by (meson order_trans)
  have "set (trim (trim_end_matches p (trim m))) \<subseteq> set m" for p m
    using set_trim_matches set_trims by (meson order_trans)
  then have md: "set (trim (trim_end_matches p (trim m))) \<subseteq> set v1"
    if "rsplit_once_str (lit '']('') v1 = Some (a, m)" for p a m
    using rsplit_once_str_set [OF that] by (meson order_trans)
  have "set v2 \<subseteq> set v1"
  proof (cases "rsplit_once_str (lit '']('') v1")
    case None
    then show ?thesis by (simp add: v2_def)
  next
    case (Some am)
    then obtain a m where am: "rsplit_once_str (lit '']('') v1 = Some (a, m)" by (cases am) simp
    then show ?thesis using md [OF am] by (simp only: v2_def option.case prod.case)
  qed
  moreover have "set v3 \<subseteq> set v2" unfolding v3_def by (rule set_trim_matches)
  moreover have "set v4 \<subseteq> set v3" unfolding v4_def by (auto split: option.splits dest: rsplit_once_Some)
  moreover have "set (clean_link s) \<subseteq> set v4"
    unfolding clean_link_def Let_def v1_def [symmetric] v2_def [symmetric] v3_def [symmetric]
      v4_def [symmetric] by (rule set_trims)
  ultimately show ?thesis using 1 by blast
qed

definition crockford :: rstr where
  "crockford = lit ''0123456789ABCDEFGHJKMNPQRSTVWXYZ''"

lemma ulid_byte_char: "c < 128 \<Longrightarrow> ulid_byte (of_nat c) \<Longrightarrow> c \<in> set crockford"
proof -
  assume c: "c < 128" and u: "ulid_byte (of_nat c)"
  have "unat (of_nat c :: u8) = c" using c by (intro unat_of_nat_less) simp
  then have "(48 \<le> c \<and> c \<le> 57) \<or> (65 \<le> c \<and> c \<le> 72) \<or> (74 \<le> c \<and> c \<le> 75)
     \<or> (77 \<le> c \<and> c \<le> 78) \<or> (80 \<le> c \<and> c \<le> 84) \<or> (86 \<le> c \<and> c \<le> 90)"
    using u by (simp add: ulid_byte_def word_le_nat_alt)
  then have "c \<in> set ([48..<58] @ [65..<73] @ [74..<76] @ [77..<79] @ [80..<85] @ [86..<91])"
    by (simp only: set_append Un_iff set_upt atLeastLessThan_iff) linarith
  moreover have "set ([48..<58] @ [65..<73] @ [74..<76] @ [77..<79] @ [80..<85] @ [86..<91])
      = set crockford" unfolding crockford_def by code_simp
  ultimately show ?thesis by (simp only:)
qed

lemma is_ulid_chars:
  assumes "list_all scalar v" "is_ulid v"
  shows "length v = 26 \<and> 48 \<le> hd v \<and> hd v \<le> 55 \<and> set v \<subseteq> set crockford"
proof -
  obtain b bs where bytes: "bytes v = b # bs"
    using assms(2) by (cases "bytes v") (auto simp: is_ulid_def str_len_def)
  have b: "48 \<le> b" "b \<le> 55" and bs: "list_all ulid_byte bs" and len: "length (b # bs) = 26"
    using assms(2) bytes by (simp_all add: is_ulid_def str_len_def)
  have "ulid_byte b" using b by (simp add: ulid_byte_def word_le_nat_alt)
  then have all: "list_all ulid_byte (bytes v)" using bs bytes by simp
  have "unat x < 0x80" if "ulid_byte x" for x
    using that by (auto simp: ulid_byte_def word_le_nat_alt)
  then have "\<forall>x \<in> set (bytes v). unat x < 0x80" using all by (auto simp: list_all_iff)
  then have v: "bytes v = map of_nat v" and low: "\<forall>c \<in> set v. c < 128"
    using bytes_ascii [of v] assms(1) by (simp_all add: list_all_iff)
  then obtain c cs where c: "v = c # cs" "b = of_nat c" using bytes by (cases v) auto
  have "unat (of_nat c :: u8) = c" using low c by (intro unat_of_nat_less) simp
  then have "48 \<le> c" "c \<le> 55" using b c by (simp_all add: word_le_nat_alt)
  moreover have "length v = 26" using len bytes v by (metis length_map)
  moreover have "set v \<subseteq> set crockford"
    using all low ulid_byte_char by (auto simp: v list_all_iff)
  ultimately show ?thesis using c by simp
qed

lemma scalar_upper: "list_all scalar v \<Longrightarrow> list_all scalar (to_ascii_uppercase v)"
  by (induction v) (auto simp: to_ascii_uppercase_def scalar_def ascii_lower_def)

lemma scalar_subset: "list_all scalar s \<Longrightarrow> set t \<subseteq> set s \<Longrightarrow> list_all scalar t"
  by (auto simp: list_all_iff)

lemma strip_prefix_Some: "strip_prefix p s = Some r \<longleftrightarrow> s = p @ r"
  by (auto simp: strip_prefix_def) (metis append_take_drop_id)

lemma parse_share_key_Ok:
  assumes "parse_share_key f = Inr k"
  shows "valid_base64url k 43 3 \<and> set k \<subseteq> set f"
  using assms by (auto simp: parse_share_key_def Let_def strip_prefix_Some split: option.splits if_splits)

text \<open>Whatever text is pasted, a link that parses has a canonical transfer id (26 characters
  of Crockford's alphabet, the first at most 7) and, if it has a key, a key that is the unpadded
  base64url encoding of exactly 32 bytes.\<close>

theorem share_link_is_canonical:
  assumes "list_all scalar input" "parse_share_link input = Ok link"
  shows "length (link_id link) = 26 \<and> 48 \<le> hd (link_id link) \<and> hd (link_id link) \<le> 55
    \<and> set (link_id link) \<subseteq> set crockford
    \<and> (case link_key link of None \<Rightarrow> True
       | Some key \<Rightarrow> \<exists>bs :: u8 list. length bs = 32 \<and> key = b64_encode (map unat bs))"
proof -
  define v where "v = clean_link input"
  have v: "list_all scalar v" unfolding v_def using assms(1) set_clean_link by (rule scalar_subset)
  obtain raw f where split: "(case split_once (of_char (CHR ''#'')) v of None \<Rightarrow> (v, None)
      | Some (a, b) \<Rightarrow> (a, Some b)) = (raw, f)" by fastforce
  then have sub: "set raw \<subseteq> set v" "\<And>x. f = Some x \<Longrightarrow> set x \<subseteq> set v"
    by (auto split: option.splits dest: split_once_Some)
  have ok: "is_ulid (to_ascii_uppercase raw)" "link_id link = to_ascii_uppercase raw"
    "case link_key link of None \<Rightarrow> True | Some k \<Rightarrow> \<exists>x. f = Some x \<and> parse_share_key x = Inr k"
    using assms(2) unfolding parse_share_link_def v_def [symmetric] split Let_def
    by (auto split: if_splits option.splits)
  have "list_all scalar (link_id link)"
    using scalar_upper scalar_subset [OF v sub(1)] ok(2) by simp
  moreover have "\<exists>bs :: u8 list. length bs = 32 \<and> key = b64_encode (map unat bs)"
    if k: "link_key link = Some key" for key
  proof -
    obtain x where x: "f = Some x" "parse_share_key x = Inr key" using ok(3) k by auto
    then have "valid_base64url key 43 3" "list_all scalar key"
      using parse_share_key_Ok [OF x(2)] sub(2) [OF x(1)] v by (blast intro: scalar_subset)+
    then show ?thesis using valid_base64url_encodes [of key 43 3 32] by simp
  qed
  ultimately show ?thesis using is_ulid_chars [of "link_id link"] ok by (simp split: option.split)
qed

section \<open>Links of the clients parse back\<close>

text \<open>Characters that no trimming step removes.\<close>

definition plain :: "nat \<Rightarrow> bool" where
  "plain c \<longleftrightarrow> \<not> is_whitespace c \<and> c \<notin> set bracket_chars \<and> c \<noteq> of_char (CHR '')'')"

lemma plain_b64: "b64_ok c \<Longrightarrow> plain c"
  by (auto simp: plain_def b64_ok_def ascii_defs is_whitespace_def bracket_chars_def)

lemma plain_crockford: "c \<in> set crockford \<Longrightarrow> plain c"
  by (auto simp: crockford_def plain_def is_whitespace_def bracket_chars_def)

lemma trim_end_keeps: "s \<noteq> [] \<Longrightarrow> \<not> p (last s) \<Longrightarrow> trim_end_matches p s = s"
  by (cases s rule: rev_cases) (simp_all add: trim_end_matches_def)

lemma dropWhile_append_keep: "\<not> p x \<Longrightarrow> dropWhile p (a @ x # b) = dropWhile p a @ x # b"
  by (induction a) auto

lemma trim_matches_keeps:
  assumes "\<not> p x" "\<not> p (last (x # rest))"
  shows "trim_matches p (a @ x # rest) = dropWhile p a @ x # rest"
  using assms by (simp add: trim_matches_def trim_start_matches_def dropWhile_append_keep trim_end_keeps)

lemma split_once_append: "c \<notin> set a \<Longrightarrow> split_once c (a @ c # b) = Some (a, b)"
  by (induction a) auto

lemma rsplit_once_append: "c \<notin> set b \<Longrightarrow> rsplit_once c (a @ c # b) = Some (a, b)"
  using split_once_append [of c "rev b" "rev a"] by (simp add: rsplit_once_def)

lemma rsplit_once_str_absent: "x \<notin> set s \<Longrightarrow> rsplit_once_str (x # p) s = None"
  by (induction s) (auto simp: strip_prefix_def)

definition link_prefix :: "rstr \<Rightarrow> bool" where
  "link_prefix pre \<longleftrightarrow>
     (pre = [] \<or> last pre = of_char (CHR ''/'')) \<and> of_char (CHR '']'') \<notin> set pre"

lemma link_prefix_dropWhile: "link_prefix pre \<Longrightarrow> link_prefix (dropWhile p pre)"
proof -
  assume pre: "link_prefix pre"
  have "dropWhile p pre = [] \<or> last (dropWhile p pre) = last pre"
    by (metis last_append takeWhile_dropWhile_id)
  then show ?thesis using pre by (cases "pre = []") (auto simp: link_prefix_def dest: set_dropWhileD)
qed

lemma clean_link_prefixed:
  assumes "link_prefix pre" "plain x" "plain (last (x # rest))"
    "of_char (CHR ''/'') \<notin> set (x # rest)" "of_char (CHR '']'') \<notin> set (x # rest)"
  shows "clean_link (pre @ x # rest) = x # rest"
proof -
  define p1 where "p1 = dropWhile (\<lambda>c. c \<in> set bracket_chars) (dropWhile is_whitespace pre)"
  define p2 where "p2 = dropWhile (\<lambda>c. c \<in> set quote_chars) p1"
  have p2: "link_prefix p2" "link_prefix p1"
    using assms(1) by (simp_all add: p1_def p2_def link_prefix_dropWhile)
  have quote: "y \<notin> set quote_chars" if "y \<notin> set bracket_chars" for y
    using that by (simp add: quote_chars_def bracket_chars_def)
  have 1: "trim_matches (\<lambda>c. c \<in> set bracket_chars) (trim (pre @ x # rest)) = p1 @ x # rest"
    using assms(2,3) by (simp only: trim_def trim_matches_keeps plain_def p1_def not_False_eq_True simp_thms)
  have 2: "rsplit_once_str (lit '']('') (p1 @ x # rest) = None"
    using rsplit_once_str_absent [of "of_char (CHR '']'')" "p1 @ x # rest" "lit ''(''"] p2(2) assms(5)
    by (simp add: link_prefix_def)
  have 3: "trim_matches (\<lambda>c. c \<in> set quote_chars) (p1 @ x # rest) = p2 @ x # rest"
    unfolding p2_def using assms(2,3) quote by (intro trim_matches_keeps) (simp_all only: plain_def simp_thms)
  have 4: "(case rsplit_once (of_char (CHR ''/'')) (p2 @ x # rest) of None \<Rightarrow> p2 @ x # rest
      | Some (_, path) \<Rightarrow> path) = x # rest"
  proof (cases p2 rule: rev_cases)
    case Nil
    then have "split_once (of_char (CHR ''/'')) (rev (x # rest)) = None"
      using assms(4) by (simp only: split_once_None set_rev simp_thms)
    then show ?thesis using Nil by (simp add: rsplit_once_def)
  next
    case (snoc q y)
    then have "p2 @ x # rest = q @ of_char (CHR ''/'') # x # rest" using p2(1) by (simp add: link_prefix_def)
    then show ?thesis using rsplit_once_append [OF assms(4), of q] by simp
  qed
  show ?thesis
    unfolding clean_link_def Let_def 1 2 option.case 3 4
    using assms(4) by (simp add: trim_start_matches_def)
qed

lemma upper_crockford: "set v \<subseteq> set crockford \<Longrightarrow> to_ascii_uppercase v = v"
proof (induction v)
  case (Cons c v)
  have "\<not> ascii_lower c" using Cons.prems by (auto simp: crockford_def ascii_lower_def)
  with Cons show ?case by (simp add: to_ascii_uppercase_def)
qed (simp add: to_ascii_uppercase_def)

lemma crockford_no_marks:
  "set v \<subseteq> set crockford \<Longrightarrow> c \<in> set (lit ''#/?]'') \<Longrightarrow> c \<notin> set v"
  by (auto simp: crockford_def)

lemma b64_no_marks: "list_all b64_ok v \<Longrightarrow> c \<in> set (lit ''#/?]'') \<Longrightarrow> c \<notin> set v"
  by (auto simp: list_all_iff b64_ok_def ascii_defs)

lemma parse_cleaned:
  assumes "clean_link s = tid @ frag" "list_all scalar tid" "is_ulid tid"
    "frag = [] \<and> k = Inr None \<or> (\<exists>f. frag = of_char (CHR ''#'') # f
       \<and> k = and_then (parse_share_key f) (\<lambda>key. Ok (Some key)))"
  shows "parse_share_link s = and_then k (\<lambda>key. Ok \<lparr>link_id = tid, link_key = key\<rparr>)"
proof -
  have chars: "length tid = 26" "set tid \<subseteq> set crockford"
    using is_ulid_chars [OF assms(2,3)] by simp_all
  note no = crockford_no_marks [OF chars(2)]
  have "\<not> is_uuid tid" using assms(3) by (simp add: is_uuid_def is_ulid_def)
  moreover have "tid \<noteq> []" using chars by auto
  moreover have "split_once (of_char (CHR ''#'')) tid = None"
    using no by (simp add: split_once_None)
  moreover have "split_once (of_char (CHR ''#'')) (tid @ of_char (CHR ''#'') # f) = Some (tid, f)" for f
    using no by (intro split_once_append) simp
  ultimately show ?thesis
    using assms(1,3,4) no upper_crockford [OF chars(2)] by (auto simp: parse_share_link_def Let_def)
qed

lemma parse_share_key_encoded:
  assumes "length (bs :: u8 list) = 32" "key = b64_encode (map unat bs)"
  shows "parse_share_key (lit ''v1.'' @ key) = Inr key" "parse_share_key (lit ''k=v1.'' @ key) = Inr key"
    "list_all b64_ok key" "key \<noteq> []"
proof -
  have lt: "list_all (\<lambda>b. b < 256) (map unat bs)"
    using unat_less_2p [where 'a = 8] by (auto simp: list_all_iff)
  then show ok: "list_all b64_ok key" "key \<noteq> []"
    using b64_encode_shape(1,3) [OF lt] assms by auto
  then have "list_all scalar key"
    by (auto simp: list_all_iff scalar_def dest!: b64_ok_ascii)
  then have "valid_base64url key 43 3"
    using valid_base64url_encodes [of key 43 3 32] assms by blast
  then show "parse_share_key (lit ''v1.'' @ key) = Inr key" "parse_share_key (lit ''k=v1.'' @ key) = Inr key"
    by (simp_all add: parse_share_key_def strip_prefix_def)
qed

text \<open>A link the clients hand out parses back to its transfer and key: any prefix (an
  instance URL and path ending in a slash, with quotes or blanks before it, or nothing), the
  transfer id, and optionally the key fragment in either of its spellings.\<close>

theorem share_link_round_trip:
  assumes "link_prefix pre" "list_all scalar tid" "is_ulid tid"
    and "length (bs :: u8 list) = 32" "key = b64_encode (map unat bs)"
  shows "parse_share_link (pre @ tid) = Ok \<lparr>link_id = tid, link_key = None\<rparr>
    \<and> parse_share_link (pre @ tid @ lit ''#v1.'' @ key) = Ok \<lparr>link_id = tid, link_key = Some key\<rparr>
    \<and> parse_share_link (pre @ tid @ lit ''#k=v1.'' @ key) = Ok \<lparr>link_id = tid, link_key = Some key\<rparr>"
proof -
  have chars: "length tid = 26" "set tid \<subseteq> set crockford"
    using is_ulid_chars [OF assms(2,3)] by simp_all
  obtain x xs where tid: "tid = x # xs" using chars(1) by (cases tid) auto
  note key = parse_share_key_encoded [OF assms(4,5)]
  have clean: "clean_link (pre @ tid @ frag) = tid @ frag"
    if "frag = [] \<or> plain (last frag)" "of_char (CHR ''/'') \<notin> set frag" "of_char (CHR '']'') \<notin> set frag" for frag
  proof -
    have "plain x" "plain (last (x # xs))"
      using chars(2) tid plain_crockford by (metis last_in_set list.set_intros(1) list.simps(3) subsetD)+
    then have "plain (last (x # xs @ frag))" using that(1) by (cases "frag = []") auto
    moreover have "of_char (CHR ''/'') \<notin> set (x # xs @ frag)" "of_char (CHR '']'') \<notin> set (x # xs @ frag)"
      using crockford_no_marks [OF chars(2)] tid that(2,3) by auto
    ultimately show ?thesis
      using clean_link_prefixed [OF assms(1) \<open>plain x\<close>, of "xs @ frag"] tid by simp
  qed
  have last_key: "plain (last key)"
    using key(3,4) by (intro plain_b64) (auto simp: list_all_iff)
  have "parse_share_link (pre @ tid @ []) = Inr \<lparr>link_id = tid, link_key = None\<rparr>"
    by (subst parse_cleaned [OF clean assms(2,3)]) auto
  moreover have "parse_share_link (pre @ tid @ of_char (CHR ''#'') # f) = Inr \<lparr>link_id = tid, link_key = Some key\<rparr>"
    if "f = lit ''v1.'' @ key \<or> f = lit ''k=v1.'' @ key" for f
  proof -
    have f: "parse_share_key f = Inr key" using that key(1,2) by blast
    have "of_char (CHR ''/'') \<notin> set key" "of_char (CHR '']'') \<notin> set key"
      by (rule b64_no_marks [OF key(3)], simp)+
    then have marks: "of_char (CHR ''/'') \<notin> set f" "of_char (CHR '']'') \<notin> set f"
      "last (of_char (CHR ''#'') # f) = last key"
      using that key(4) by (elim disjE; simp)+
    have "clean_link (pre @ tid @ of_char (CHR ''#'') # f) = tid @ of_char (CHR ''#'') # f"
      using marks last_key by (intro clean) simp_all
    then show ?thesis
      using parse_cleaned [of "pre @ tid @ of_char (CHR ''#'') # f" tid "of_char (CHR ''#'') # f"] assms(2,3) f
      by simp
  qed
  ultimately show ?thesis by simp
qed

text \<open>The identifier and the instance of the repository's examples.\<close>

theorem share_link_round_trip_witness:
  "parse_share_link (lit ''https://filebeam.io/'' @ lit ''01ARZ3NDEKTSV4RRFFQ69G5FAV'' @ lit ''#k=v1.''
       @ b64_encode (map unat (replicate 32 (7 :: u8))))
     = Ok \<lparr>link_id = lit ''01ARZ3NDEKTSV4RRFFQ69G5FAV'',
           link_key = Some (lit ''BwcHBwcHBwcHBwcHBwcHBwcHBwcHBwcHBwcHBwcHBwc'')\<rparr>"
proof -
  have "link_prefix (lit ''https://filebeam.io/'')" by (simp add: link_prefix_def)
  moreover have "list_all scalar (lit ''01ARZ3NDEKTSV4RRFFQ69G5FAV'')" by (simp add: scalar_def)
  moreover have "is_ulid (lit ''01ARZ3NDEKTSV4RRFFQ69G5FAV'')"
    by (simp add: is_ulid_def str_len_def utf8_char_def ulid_byte_def)
  moreover have "length (replicate 32 (7 :: u8)) = 32" by simp
  ultimately have "parse_share_link (lit ''https://filebeam.io/'' @ lit ''01ARZ3NDEKTSV4RRFFQ69G5FAV''
      @ lit ''#k=v1.'' @ b64_encode (map unat (replicate 32 (7 :: u8))))
    = Ok \<lparr>link_id = lit ''01ARZ3NDEKTSV4RRFFQ69G5FAV'',
          link_key = Some (b64_encode (map unat (replicate 32 (7 :: u8))))\<rparr>"
    using share_link_round_trip [OF _ _ _ _ refl] by blast
  moreover have "b64_encode (map unat (replicate 32 (7 :: u8)))
      = lit ''BwcHBwcHBwcHBwcHBwcHBwcHBwcHBwcHBwcHBwcHBwc''"
    by code_simp
  ultimately show ?thesis by simp
qed

theorem share_link_is_canonical_witness:
  "\<exists>link. parse_share_link (lit ''01ARZ3NDEKTSV4RRFFQ69G5FAV'') = Ok link
     \<and> length (link_id link) = 26 \<and> set (link_id link) \<subseteq> set crockford"
proof -
  define s where "s = lit ''01ARZ3NDEKTSV4RRFFQ69G5FAV''"
  have sc: "list_all scalar s" by (simp add: s_def scalar_def)
  have "is_ulid s" by (simp add: s_def is_ulid_def str_len_def utf8_char_def ulid_byte_def)
  moreover have "clean_link s = s"
    using clean_link_prefixed [of "[]" 48 "tl s"] plain_crockford
    by (simp add: s_def link_prefix_def crockford_def)
  ultimately have "parse_share_link s = Ok \<lparr>link_id = s, link_key = None\<rparr>"
    using parse_cleaned [of s s "[]"] sc by simp
  with share_link_is_canonical [OF sc this] show ?thesis by (auto simp: s_def)
qed

end
