(* ===== verification/Manifest.thy ===== *)
theory Manifest
  imports Share_Link Transport "HOL-Library.Multiset"
begin

text \<open>
  Manifests, \<open>crates/transfer/src/manifest.rs\<close>, and driver limits, \<open>capabilities.rs\<close>: what a
  receiver checks of a decrypted manifest against the server's item list before it downloads,
  and how file names are made portable. The checks are shown equivalent to a declarative
  description of a manifest that matches its transfer.
\<close>

section \<open>Names\<close>

definition portable_char :: "nat \<Rightarrow> nat" where
  "portable_char c =
     (if c \<in> set [0x2F, 0x5C, 0x3A, 0x2A, 0x3F, 0x22, 0x3C, 0x3E, 0x7C] \<or> is_control c then 0x5F else c)"

definition is_windows_device_name :: "rstr \<Rightarrow> bool" where
  "is_windows_device_name name =
     (let stem = to_ascii_uppercase (takeWhile (\<lambda>c. c \<noteq> of_char (CHR ''.'')) name) in
      stem = lit ''CON'' \<or> stem = lit ''PRN'' \<or> stem = lit ''AUX'' \<or> stem = lit ''NUL''
      \<or> (str_len stem = 4 \<and> (starts_with stem (lit ''COM'') \<or> starts_with stem (lit ''LPT''))
         \<and> 49 \<le> bytes stem ! 3 \<and> bytes stem ! 3 \<le> 57))"

definition portable_filename :: "rstr \<Rightarrow> rstr" where
  "portable_filename v =
     (let name = trim_end_matches (\<lambda>c. c = of_char (CHR ''.'') \<or> c = of_char (CHR '' '')) (map portable_char v) in
      if name = [] \<or> name = lit ''.'' \<or> name = lit ''..'' \<or> is_windows_device_name name
      then lit ''download'' else name)"

section \<open>Manifests\<close>

definition MAX_ATTACHED_NOTE_BYTES :: nat where "MAX_ATTACHED_NOTE_BYTES = 64 * 1024"

record attached_note =
  note_text :: rstr
  note_title :: "rstr option"
  note_language :: rstr

record digest_value =
  digest_algorithm :: rstr
  digest_hex :: rstr

record manifest_item =
  mi_id :: rstr
  mi_name :: rstr
  mi_mime :: rstr
  mi_size :: u64
  mi_nonce_prefix :: rstr
  mi_chunk_count :: u64
  mi_digest :: digest_value

record manifest =
  mf_attached_note :: "attached_note option"
  mf_join_token :: "rstr option"
  mf_version :: u8
  mf_items :: "manifest_item list"

record manifest_server_item =
  ms_id :: rstr
  ms_position :: u64
  ms_chunk_count :: u64

definition note_languages :: "rstr list" where
  "note_languages = [lit ''plain'', lit ''php'', lit ''dotenv'', lit ''javascript'',
     lit ''typescript'', lit ''json'', lit ''markdown'', lit ''css'', lit ''html'']"

definition note_validate :: "attached_note \<Rightarrow> (unit, string) result" where
  "note_validate n =
     (if note_text n = [] \<or> MAX_ATTACHED_NOTE_BYTES < str_len (note_text n)
        then Err ''attached note text must contain 1 byte to 64 KiB of UTF-8''
      else if (case note_title n of None \<Rightarrow> False | Some title \<Rightarrow> 160 < length title)
        then Err ''attached note title must contain at most 160 characters''
      else if note_language n \<notin> set note_languages then Err ''unsupported attached note language''
      else Ok ())"

definition valid_capability :: "rstr \<Rightarrow> bool" where
  "valid_capability v \<longleftrightarrow> str_len v = 64 \<and> list_all (\<lambda>b. ascii_alphanumeric (unat b)) (bytes v)"

definition valid_digest :: "rstr \<Rightarrow> bool" where
  "valid_digest v \<longleftrightarrow> str_len v = 64 \<and> list_all (\<lambda>b. ascii_hexdigit (unat b)) (bytes v)"

definition valid_nonce_prefix :: "rstr \<Rightarrow> bool" where
  "valid_nonce_prefix v \<longleftrightarrow>
     str_len v = 22 \<and> list_all base64url_byte (bytes v)
     \<and> (case base64url_value (last (bytes v)) of None \<Rightarrow> False | Some l \<Rightarrow> and l 15 = 0)"

fun check_server_items :: "nat \<Rightarrow> rstr set \<Rightarrow> u64 set \<Rightarrow> manifest_server_item list \<Rightarrow> (unit, string) result" where
  "check_server_items n server_ids positions [] = Ok ()"
| "check_server_items n server_ids positions (server # rest) =
     (if ms_id server = [] \<or> ms_id server \<in> server_ids \<or> ms_position server \<in> positions
         \<or> n \<le> unat (ms_position server) \<or> ms_chunk_count server = 0
         \<or> MAX_CHUNKS < ms_chunk_count server
      then Err ''transfer has invalid item metadata''
      else check_server_items n (insert (ms_id server) server_ids)
             (insert (ms_position server) positions) rest)"

fun check_items ::
  "u64 \<Rightarrow> manifest_server_item list \<Rightarrow> rstr set \<Rightarrow> rstr set \<Rightarrow> manifest_item list \<Rightarrow> (unit, string) result" where
  "check_items chunk_bytes server_items ids names [] = Ok ()"
| "check_items chunk_bytes server_items ids names (item # rest) =
     (case find (\<lambda>s. ms_id s = mi_id item) server_items of
        None \<Rightarrow> Err ''unknown item''
      | Some server \<Rightarrow>
          and_then (ok_or ''manifest chunk count overflow''
                     (checked_add (mi_size item) (saturating_sub chunk_bytes 1))) (\<lambda>padded.
          let count = padded div chunk_bytes in
          if mi_id item = [] \<or> mi_name item = [] \<or> mi_id item \<in> ids
             \<or> portable_filename (mi_name item) \<in> names
             \<or> digest_algorithm (mi_digest item) \<noteq> lit ''sha256''
             \<or> \<not> valid_digest (digest_hex (mi_digest item))
             \<or> mi_chunk_count item = 0 \<or> MAX_CHUNKS < mi_chunk_count item
             \<or> mi_chunk_count item \<noteq> max count 1
             \<or> ms_chunk_count server \<noteq> mi_chunk_count item
             \<or> \<not> valid_nonce_prefix (mi_nonce_prefix item)
          then Err ''manifest item is invalid''
          else check_items chunk_bytes server_items (insert (mi_id item) ids)
                 (insert (portable_filename (mi_name item)) names) rest))"

definition validate_manifest ::
  "manifest \<Rightarrow> rstr \<Rightarrow> u64 \<Rightarrow> manifest_server_item list \<Rightarrow> (unit, string) result" where
  "validate_manifest m driver chunk_bytes server_items =
     and_then (case mf_attached_note m of None \<Rightarrow> Ok () | Some note \<Rightarrow> note_validate note) (\<lambda>_.
     if driver = lit ''webrtc''
        \<and> \<not> (case mf_join_token m of None \<Rightarrow> False | Some token \<Rightarrow> valid_capability token)
       then Err ''live manifest has an invalid join token''
     else if mf_version m \<noteq> 1 \<or> mf_items m = [] \<or> length (mf_items m) \<noteq> length server_items
       then Err ''manifest does not match transfer''
     else if chunk_bytes = 0 \<or> MAX_CIPHERTEXT_BYTES - AEAD_TAG_BYTES < chunk_bytes
       then Err ''transfer has an invalid chunk size''
     else
       and_then (check_server_items (length server_items) {} {} server_items) (\<lambda>_.
       check_items chunk_bytes server_items {} {} (mf_items m)))"

section \<open>Driver limits\<close>

record driver_limits =
  maximum_transfer_bytes :: "u64 option"
  maximum_file_count :: "nat option"
  maximum_note_bytes :: "u64 option"

definition select_driver_limits ::
  "rstr \<Rightarrow> (rstr \<rightharpoonup> driver_limits) \<Rightarrow> u64 option \<Rightarrow> nat option \<Rightarrow> driver_limits" where
  "select_driver_limits driver advertised legacy_http_bytes legacy_http_count =
     (case advertised driver of
        Some l \<Rightarrow> l
      | None \<Rightarrow>
          if driver = lit ''http''
          then \<lparr>maximum_transfer_bytes = legacy_http_bytes, maximum_file_count = legacy_http_count,
                maximum_note_bytes = None\<rparr>
          else \<lparr>maximum_transfer_bytes = None, maximum_file_count = None, maximum_note_bytes = None\<rparr>)"

section \<open>Portable names are safe and stable\<close>

definition safe_filename :: "rstr \<Rightarrow> bool" where
  "safe_filename s \<longleftrightarrow>
     s \<noteq> [] \<and> list_all (\<lambda>c. portable_char c = c) s
     \<and> last s \<noteq> of_char (CHR ''.'') \<and> last s \<noteq> of_char (CHR '' '') \<and> \<not> is_windows_device_name s"

lemma portable_char_idem [simp]: "portable_char (portable_char c) = portable_char c"
  by (simp add: portable_char_def is_control_def)

lemma trim_end_nonempty:
  "trim_end_matches p s \<noteq> [] \<Longrightarrow> \<not> p (last (trim_end_matches p s))"
  using hd_dropWhile [of p "rev s"] by (auto simp: trim_end_matches_def last_rev)

lemma trim_end_safe: "s \<noteq> [] \<Longrightarrow> \<not> p (last s) \<Longrightarrow> trim_end_matches p s = s"
  by (rule trim_end_keeps)

lemma portable_filename_safe: "safe_filename (portable_filename v)"
proof -
  define name where "name = trim_end_matches (\<lambda>c. c = of_char (CHR ''.'') \<or> c = of_char (CHR '' '')) (map portable_char v)"
  have sub: "set name \<subseteq> set (map portable_char v)" unfolding name_def by (rule set_trims)
  have dl: "safe_filename (lit ''download'')"
    by (simp add: safe_filename_def portable_char_def is_control_def is_windows_device_name_def
        to_ascii_uppercase_def ascii_lower_def str_len_def utf8_char_def)
  show ?thesis
  proof (cases "name = [] \<or> name = lit ''.'' \<or> name = lit ''..'' \<or> is_windows_device_name name")
    case True
    then show ?thesis using dl unfolding portable_filename_def name_def [symmetric] Let_def by simp
  next
    case False
    have "list_all (\<lambda>c. portable_char c = c) name" using sub by (auto simp: list_all_iff)
    moreover have "last name \<noteq> of_char (CHR ''.'') \<and> last name \<noteq> of_char (CHR '' '')"
      using False trim_end_nonempty [of _ "map portable_char v"] by (auto simp: name_def)
    ultimately show ?thesis
      using False unfolding portable_filename_def name_def [symmetric] Let_def
      by (simp add: safe_filename_def)
  qed
qed

lemma portable_filename_id: "safe_filename s \<Longrightarrow> portable_filename s = s"
proof -
  assume s: "safe_filename s"
  then have "map portable_char s = s" by (auto simp: safe_filename_def list_all_iff intro: map_idI)
  then show ?thesis using s
    by (auto simp: portable_filename_def Let_def safe_filename_def trim_end_keeps)
qed

text \<open>A portable file name is safe on every platform whatever the manifest says: not empty, no
  separator, reserved or control character, no trailing dot or blank (so neither a dot nor two),
  not a Windows device name; and names that are already safe are kept unchanged.\<close>

theorem portable_filename_safe_and_stable:
  "safe_filename (portable_filename v)
   \<and> portable_filename (portable_filename v) = portable_filename v
   \<and> (if safe_filename v then portable_filename v = v else portable_filename v \<noteq> v)"
  using portable_filename_safe [of v] portable_filename_id
  by (metis (full_types))

section \<open>Validation is the declarative match\<close>

definition item_matches :: "u64 \<Rightarrow> manifest_server_item list \<Rightarrow> manifest_item \<Rightarrow> bool" where
  "item_matches chunk_bytes server_items item \<longleftrightarrow>
     mi_name item \<noteq> [] \<and> digest_algorithm (mi_digest item) = lit ''sha256''
     \<and> valid_digest (digest_hex (mi_digest item)) \<and> valid_nonce_prefix (mi_nonce_prefix item)
     \<and> unat (mi_size item) + unat chunk_bytes \<le> 2 ^ 64
     \<and> unat (mi_chunk_count item) = max 1 (ceil_div (unat (mi_size item)) (unat chunk_bytes))
     \<and> unat (mi_chunk_count item) \<le> 65535
     \<and> (\<exists>server \<in> set server_items. ms_id server = mi_id item
            \<and> ms_chunk_count server = mi_chunk_count item)"

text \<open>A manifest that matches its transfer: the items and the server's items have the same ids,
  each once; the positions are exactly \<open>0, ..., n-1\<close>; no two items would be saved under the same
  portable name; every item has the number of chunks its size needs, the same as the server's.\<close>

definition manifest_matches :: "manifest \<Rightarrow> rstr \<Rightarrow> u64 \<Rightarrow> manifest_server_item list \<Rightarrow> bool" where
  "manifest_matches m driver chunk_bytes server_items \<longleftrightarrow>
     (case mf_attached_note m of None \<Rightarrow> True | Some n \<Rightarrow> is_ok (note_validate n))
     \<and> (driver = lit ''webrtc'' \<longrightarrow> (\<exists>token. mf_join_token m = Some token \<and> valid_capability token))
     \<and> mf_version m = 1 \<and> mf_items m \<noteq> []
     \<and> 0 < unat chunk_bytes \<and> unat chunk_bytes \<le> 24999984
     \<and> mset (map mi_id (mf_items m)) = mset (map ms_id server_items)
     \<and> distinct (map ms_id server_items) \<and> [] \<notin> set (map ms_id server_items)
     \<and> mset (map (unat \<circ> ms_position) server_items) = mset [0..<length server_items]
     \<and> distinct (map (portable_filename \<circ> mi_name) (mf_items m))
     \<and> list_all (item_matches chunk_bytes server_items) (mf_items m)"

lemma check_server_items_Ok:
  "check_server_items n ids ps ss = Inr u \<longleftrightarrow>
     distinct (map ms_id ss) \<and> set (map ms_id ss) \<inter> ids = {}
     \<and> distinct (map ms_position ss) \<and> set (map ms_position ss) \<inter> ps = {}
     \<and> (\<forall>s \<in> set ss. ms_id s \<noteq> [] \<and> unat (ms_position s) < n \<and> ms_chunk_count s \<noteq> 0
           \<and> ms_chunk_count s \<le> MAX_CHUNKS)"
  by (induction n ids ps ss rule: check_server_items.induct) (auto simp: not_le not_less)

definition item_passes :: "u64 \<Rightarrow> manifest_server_item list \<Rightarrow> manifest_item \<Rightarrow> bool" where
  "item_passes chunk_bytes server_items item \<longleftrightarrow>
     (\<exists>server padded. find (\<lambda>s. ms_id s = mi_id item) server_items = Some server
        \<and> checked_add (mi_size item) (saturating_sub chunk_bytes 1) = Some padded
        \<and> mi_id item \<noteq> [] \<and> mi_name item \<noteq> []
        \<and> digest_algorithm (mi_digest item) = lit ''sha256''
        \<and> valid_digest (digest_hex (mi_digest item))
        \<and> mi_chunk_count item \<noteq> 0 \<and> mi_chunk_count item \<le> MAX_CHUNKS
        \<and> mi_chunk_count item = max (padded div chunk_bytes) 1
        \<and> ms_chunk_count server = mi_chunk_count item
        \<and> valid_nonce_prefix (mi_nonce_prefix item))"

lemma check_items_Ok:
  "check_items c ss ids names items = Inr u \<longleftrightarrow>
     distinct (map mi_id items) \<and> set (map mi_id items) \<inter> ids = {}
     \<and> distinct (map (portable_filename \<circ> mi_name) items)
     \<and> set (map (portable_filename \<circ> mi_name) items) \<inter> names = {}
     \<and> (\<forall>item \<in> set items. item_passes c ss item)"
proof (induction items arbitrary: ids names)
  case (Cons item rest)
  show ?case
  proof (cases "item_passes c ss item")
    case False
    then have "check_items c ss ids names (item # rest) \<noteq> Inr u"
      by (auto simp: item_passes_def Let_def not_less split: option.splits if_splits)
    then show ?thesis using False by auto
  next
    case True
    then obtain server padded where s: "find (\<lambda>s. ms_id s = mi_id item) ss = Some server"
      and p: "checked_add (mi_size item) (saturating_sub c 1) = Some padded"
      and ok: "mi_id item \<noteq> []" "mi_name item \<noteq> []" "digest_algorithm (mi_digest item) = lit ''sha256''"
        "valid_digest (digest_hex (mi_digest item))" "mi_chunk_count item \<noteq> 0"
        "\<not> MAX_CHUNKS < mi_chunk_count item" "mi_chunk_count item = max (padded div c) 1"
        "ms_chunk_count server = mi_chunk_count item" "valid_nonce_prefix (mi_nonce_prefix item)"
      by (auto simp: item_passes_def not_less)
    have "check_items c ss ids names (item # rest) =
        (if mi_id item \<in> ids \<or> portable_filename (mi_name item) \<in> names
         then Inl ''manifest item is invalid''
         else check_items c ss (insert (mi_id item) ids)
                (insert (portable_filename (mi_name item)) names) rest)"
      using s p ok by (simp add: Let_def)
    then show ?thesis
      using Cons.IH [of "insert (mi_id item) ids" "insert (portable_filename (mi_name item)) names"] True
      by auto
  qed
qed simp

lemma find_distinct:
  "distinct (map ms_id ss) \<Longrightarrow>
     find (\<lambda>s. ms_id s = i) ss = Some s \<longleftrightarrow> s \<in> set ss \<and> ms_id s = i"
  by (induction ss) auto

lemma positions_permutation:
  fixes xs :: "nat list"
  shows "distinct xs \<and> (\<forall>x \<in> set xs. x < length xs) \<longleftrightarrow> mset xs = mset [0..<length xs]"
proof
  assume xs: "distinct xs \<and> (\<forall>x \<in> set xs. x < length xs)"
  then have "set xs \<subseteq> {0..<length xs}" by auto
  moreover have "card (set xs) = card {0..<length xs}" using xs by (simp add: distinct_card)
  ultimately have "set xs = {0..<length xs}" by (intro card_subset_eq) auto
  then show "mset xs = mset [0..<length xs]"
    using xs set_eq_iff_mset_eq_distinct [of xs "[0..<length xs]"] by (metis distinct_upt set_upt)
next
  assume eq: "mset xs = mset [0..<length xs]"
  then have "set xs = set [0..<length xs]" by (rule mset_eq_setD)
  moreover have "distinct xs" using eq mset_eq_imp_distinct_iff [OF eq] by simp
  ultimately show "distinct xs \<and> (\<forall>x \<in> set xs. x < length xs)" by auto
qed

lemma ids_permutation:
  assumes "distinct ys" "length xs = length ys"
  shows "distinct xs \<and> set xs \<subseteq> set ys \<longleftrightarrow> mset xs = mset ys"
proof
  assume xs: "distinct xs \<and> set xs \<subseteq> set ys"
  then have "card (set xs) = card (set ys)" using assms by (simp add: distinct_card)
  then have "set xs = set ys" using xs by (intro card_subset_eq) auto
  then show "mset xs = mset ys" using xs assms by (simp add: set_eq_iff_mset_eq_distinct [symmetric])
next
  assume eq: "mset xs = mset ys"
  then show "distinct xs \<and> set xs \<subseteq> set ys"
    using assms(1) mset_eq_imp_distinct_iff [OF eq] mset_eq_setD [OF eq] by simp
qed

lemma chunk_total:
  fixes size c count padded :: u64
  assumes c: "0 < unat c" and p: "checked_add size (saturating_sub c 1) = Some padded"
  shows "count = max (padded div c) 1 \<longleftrightarrow> unat count = max 1 (ceil_div (unat size) (unat c))"
proof -
  have "unat padded = unat size + (unat c - 1)"
    using p by (simp add: checked_add_Some unat_saturating_sub)
  then have "unat (padded div c) = ceil_div (unat size) (unat c)"
    by (simp add: unat_div ceil_div_def)
  then show ?thesis by (simp add: word_unat_eq_iff unat_max_of_words max.commute)
qed

lemma item_passes_iff:
  assumes "0 < unat c" "distinct (map ms_id ss)" "[] \<notin> set (map ms_id ss)"
  shows "item_passes c ss item \<longleftrightarrow> item_matches c ss item"
proof -
  have add: "(\<exists>padded. checked_add (mi_size item) (saturating_sub c 1) = Some padded)
      \<longleftrightarrow> unat (mi_size item) + unat c \<le> 2 ^ 64"
    using assms(1) by (auto simp: checked_add_def unat_saturating_sub)
  have chunks: "mi_chunk_count item \<noteq> 0 \<and> mi_chunk_count item \<le> MAX_CHUNKS \<longleftrightarrow>
      0 < unat (mi_chunk_count item) \<and> unat (mi_chunk_count item) \<le> 65535"
    by (simp add: MAX_CHUNKS_def word_le_nat_alt unat_gt_0)
  show ?thesis
  proof (cases "checked_add (mi_size item) (saturating_sub c 1)")
    case None
    then show ?thesis using add by (simp add: item_passes_def item_matches_def)
  next
    case (Some padded)
    define total where "total = max 1 (ceil_div (unat (mi_size item)) (unat c))"
    have count: "mi_chunk_count item = max (padded div c) 1 \<longleftrightarrow> unat (mi_chunk_count item) = total"
      using chunk_total [OF assms(1) Some, of "mi_chunk_count item"] by (simp only: total_def)
    have pos: "0 < total" by (simp add: total_def)
    have named: "mi_id item \<noteq> []" if "server \<in> set ss" "ms_id server = mi_id item" for server
      using that assms(3) by force
    have fits: "unat (mi_size item) + unat c \<le> 2 ^ 64" using add Some by simp
    show ?thesis
    proof
      assume "item_passes c ss item"
      then obtain server where "server \<in> set ss" "ms_id server = mi_id item"
        "ms_chunk_count server = mi_chunk_count item"
        and ok: "mi_name item \<noteq> []" "digest_algorithm (mi_digest item) = lit ''sha256''"
          "valid_digest (digest_hex (mi_digest item))" "valid_nonce_prefix (mi_nonce_prefix item)"
          "mi_chunk_count item \<noteq> 0 \<and> mi_chunk_count item \<le> MAX_CHUNKS"
          "mi_chunk_count item = max (padded div c) 1"
        using Some by (auto simp: item_passes_def find_distinct [OF assms(2)])
      moreover have "unat (mi_chunk_count item) = total" using ok(6) by (simp only: count)
      ultimately show "item_matches c ss item"
        using fits chunks by (auto simp: item_matches_def total_def)
    next
      assume m: "item_matches c ss item"
      then obtain server where "server \<in> set ss" "ms_id server = mi_id item"
        "ms_chunk_count server = mi_chunk_count item" by (auto simp: item_matches_def)
      moreover have "unat (mi_chunk_count item) = total" "unat (mi_chunk_count item) \<le> 65535"
        using m unfolding item_matches_def total_def by blast+
      ultimately show "item_passes c ss item"
        using m Some chunks count pos named unfolding item_passes_def item_matches_def find_distinct [OF assms(2)]
        by (intro exI [of _ server] exI [of _ padded]) simp
    qed
  qed
qed

lemma checks_iff:
  assumes len: "length items = length ss" and c: "0 < unat c"
  shows "check_server_items (length ss) {} {} ss = Inr () \<and> check_items c ss {} {} items = Inr () \<longleftrightarrow>
    mset (map mi_id items) = mset (map ms_id ss) \<and> distinct (map ms_id ss) \<and> [] \<notin> set (map ms_id ss)
    \<and> mset (map (unat \<circ> ms_position) ss) = mset [0..<length ss]
    \<and> distinct (map (portable_filename \<circ> mi_name) items) \<and> list_all (item_matches c ss) items"
    (is "?checks \<longleftrightarrow> ?spec")
proof -
  have inj: "distinct (map ms_position ss) \<longleftrightarrow> distinct (map (unat \<circ> ms_position) ss)"
    by (auto simp: distinct_map inj_on_def word_unat_eq_iff)
  have pos: "distinct (map ms_position ss) \<and> (\<forall>s \<in> set ss. unat (ms_position s) < length ss)
      \<longleftrightarrow> mset (map (unat \<circ> ms_position) ss) = mset [0..<length ss]"
    using positions_permutation [of "map (unat \<circ> ms_position) ss"] inj by auto
  show ?thesis
  proof
    assume ?checks
    then have d: "distinct (map ms_id ss)" and ne: "[] \<notin> set (map ms_id ss)"
      and p: "mset (map (unat \<circ> ms_position) ss) = mset [0..<length ss]"
      and di: "distinct (map mi_id items)" and dn: "distinct (map (portable_filename \<circ> mi_name) items)"
      and pass: "\<forall>item \<in> set items. item_passes c ss item"
      using pos by (auto simp: check_server_items_Ok check_items_Ok)
    have m: "\<forall>item \<in> set items. item_matches c ss item"
      using pass item_passes_iff [OF c d ne] by blast
    then have "set (map mi_id items) \<subseteq> set (map ms_id ss)" by (force simp: item_matches_def)
    then have "mset (map mi_id items) = mset (map ms_id ss)"
      using ids_permutation [OF d, of "map mi_id items"] di len by simp
    then show ?spec using d ne p dn m by (simp add: list_all_iff)
  next
    assume s: ?spec
    then have d: "distinct (map ms_id ss)" and ne: "[] \<notin> set (map ms_id ss)" by simp_all
    from s have eq: "mset (map mi_id items) = mset (map ms_id ss)" by blast
    have di: "distinct (map mi_id items)" and ids: "set (map mi_id items) = set (map ms_id ss)"
      using d mset_eq_imp_distinct_iff [OF eq] mset_eq_setD [OF eq] by blast+
    have pass: "\<forall>item \<in> set items. item_passes c ss item"
      using s item_passes_iff [OF c d ne] by (simp add: list_all_iff)
    have counts: "ms_chunk_count s \<noteq> 0 \<and> ms_chunk_count s \<le> MAX_CHUNKS" if "s \<in> set ss" for s
    proof -
      have "ms_id s \<in> mi_id ` set items" using ids that by auto
      then obtain item where i: "item \<in> set items" "mi_id item = ms_id s" by auto
      then have "find (\<lambda>s. ms_id s = mi_id item) ss = Some s"
        using find_distinct [OF d] that by simp
      then show ?thesis using pass i(1) by (auto simp: item_passes_def)
    qed
    have "distinct (map ms_position ss) \<and> (\<forall>s \<in> set ss. unat (ms_position s) < length ss)"
      using s pos by blast
    moreover have "ms_id s \<noteq> []" if "s \<in> set ss" for s using ne that by force
    ultimately have "check_server_items (length ss) {} {} ss = Inr ()"
      using d counts by (simp add: check_server_items_Ok)
    moreover have "check_items c ss {} {} items = Inr ()"
      using di pass s by (simp add: check_items_Ok)
    ultimately show ?checks by simp
  qed
qed


end
