(* ===== verification/Control.thy ===== *)
theory Control
  imports Ice Manifest
begin

text \<open>
  \<open>crates/transfer-native/src/control.rs\<close>: the handle a running transfer shares with its host. The
  memory pool (\<open>MemoryBudget\<close>) is the interface \<open>memory_pool\<close>, whose consequences for any order of
  reservations and releases are proved once and used for the scheduler; then progress
  reporting, prompts and peer consent. Every operation runs under one lock and is one atomic
  step; a wait on a condition variable is a sequence of steps that find the pool still full.
\<close>

section \<open>The memory pool\<close>

text \<open>What the holders of permits rely on: a reservation that succeeds adds exactly its bytes and
  keeps the pool within its limit, a release of reserved bytes gives exactly them back.\<close>

locale memory_pool =
  fixes used :: "'p \<Rightarrow> nat"
    and limit :: "'p \<Rightarrow> nat"
    and acquire :: "u64 \<Rightarrow> 'p \<Rightarrow> ('p, 'e) result"
    and release :: "u64 \<Rightarrow> 'p \<Rightarrow> 'p"
  assumes acquire_used: "used p \<le> limit p \<Longrightarrow> acquire b p = Inr p' \<Longrightarrow>
      used p' = used p + unat b \<and> used p' \<le> limit p' \<and> limit p' = limit p"
    and acquire_refused: "used p \<le> limit p \<Longrightarrow> acquire b p = Inl e \<Longrightarrow> limit p < used p + unat b"
    and release_used: "unat b \<le> used p \<Longrightarrow>
      used (release b p) = used p - unat b \<and> limit (release b p) = limit p"
begin

text \<open>A pool accounts for the permits outstanding.\<close>

definition accounts :: "'p \<Rightarrow> u64 list \<Rightarrow> bool" where
  "accounts p permits \<longleftrightarrow> used p = sum_list (map unat permits) \<and> used p \<le> limit p"

lemma acquire_accounts:
  "accounts p permits \<Longrightarrow> acquire b p = Inr p' \<Longrightarrow> accounts p' (permits @ [b]) \<and> limit p' = limit p"
  using acquire_used [of p b p'] by (simp add: accounts_def)

lemma release_accounts:
  assumes "accounts p (xs @ b # ys)"
  shows "accounts (release b p) (xs @ ys) \<and> limit (release b p) = limit p"
  using release_used [of b p] assms by (simp add: accounts_def)

lemma accounts_permute: "accounts p xs \<Longrightarrow> mset xs = mset ys \<Longrightarrow> accounts p ys"
  unfolding accounts_def by (metis mset_map sum_mset_sum_list)

text \<open>Nothing outstanding, nothing used; and a request that fits is never refused.\<close>

lemma accounts_empty: "accounts p [] \<Longrightarrow> used p = 0"
  by (simp add: accounts_def)

lemma fits_acquire:
  "accounts p permits \<Longrightarrow> sum_list (map unat permits) + unat b \<le> limit p \<Longrightarrow> \<exists>p'. acquire b p = Inr p'"
  using acquire_refused [of p b] by (cases "acquire b p") (auto simp: accounts_def)

end

record memory_state =
  mem_limit :: u64
  mem_used :: u64

datatype memory_error = MemoryExhausted | MemoryCancelled

definition memory_new :: "u64 \<Rightarrow> memory_state" where
  "memory_new limit = \<lparr>mem_limit = limit, mem_used = 0\<rparr>"

text \<open>\<open>try_reserve\<close>.\<close>

definition try_reserve :: "u64 \<Rightarrow> memory_state \<Rightarrow> (memory_state, memory_error) result" where
  "try_reserve n s =
     (if mem_limit s < n \<or> mem_limit s - n < mem_used s then Err MemoryExhausted
      else Ok (s\<lparr>mem_used := mem_used s + n\<rparr>))"

text \<open>One pass through the loop of \<open>reserve\<close>: refused, still waiting (\<open>Ok None\<close>), or reserved.\<close>

definition reserve_turn ::
  "u64 \<Rightarrow> bool \<Rightarrow> memory_state \<Rightarrow> (memory_state option, memory_error) result" where
  "reserve_turn n cancelled s =
     (if mem_limit s < n then Err MemoryExhausted
      else if mem_limit s - n < mem_used s
        then (if cancelled then Err MemoryCancelled else Ok None)
      else Ok (Some (s\<lparr>mem_used := mem_used s + n\<rparr>)))"

text \<open>\<open>reserve\<close>: the passes of the loop, each with the state of the pool and the cancellation flag
  it finds; \<open>None\<close> while it is still waiting.\<close>

fun reserve :: "u64 \<Rightarrow> (bool \<times> memory_state) list \<Rightarrow> (memory_state, memory_error) result option" where
  "reserve n [] = None"
| "reserve n ((cancelled, s) # turns) =
     (case reserve_turn n cancelled s of
        Inl e \<Rightarrow> Some (Err e)
      | Inr (Some s') \<Rightarrow> Some (Ok s')
      | Inr None \<Rightarrow> reserve n turns)"

text \<open>\<open>Drop for MemoryPermit\<close>.\<close>

definition permit_drop :: "u64 \<Rightarrow> memory_state \<Rightarrow> memory_state" where
  "permit_drop n s = s\<lparr>mem_used := mem_used s - n\<rparr>"

interpretation mem: memory_pool "unat \<circ> mem_used" "unat \<circ> mem_limit" try_reserve permit_drop
proof
  fix p p' :: memory_state and b :: u64 and e
  show "(unat \<circ> mem_used) p' = (unat \<circ> mem_used) p + unat b \<and> (unat \<circ> mem_used) p' \<le> (unat \<circ> mem_limit) p'
      \<and> (unat \<circ> mem_limit) p' = (unat \<circ> mem_limit) p"
    if "(unat \<circ> mem_used) p \<le> (unat \<circ> mem_limit) p" "try_reserve b p = Inr p'"
  proof -
    have b: "unat b \<le> unat (mem_limit p)" and u: "unat (mem_used p) \<le> unat (mem_limit p) - unat b"
      and p': "p' = p\<lparr>mem_used := mem_used p + b\<rparr>"
      using that(2) by (auto simp: try_reserve_def word_le_nat_alt not_less unat_sub split: if_splits)
    have "unat (mem_used p) + unat b < 2 ^ 64" using b u unat_less_2p [of "mem_limit p"] by simp
    then have "unat (mem_used p + b) = unat (mem_used p) + unat b" by (simp add: unat_word_ariths)
    then show ?thesis using b u p' by simp
  qed
  show "(unat \<circ> mem_limit) p < (unat \<circ> mem_used) p + unat b"
    if "(unat \<circ> mem_used) p \<le> (unat \<circ> mem_limit) p" "try_reserve b p = Inl e"
    using that by (cases "b \<le> mem_limit p")
      (auto simp: try_reserve_def word_less_nat_alt unat_sub word_le_nat_alt split: if_splits)
  show "(unat \<circ> mem_used) (permit_drop b p) = (unat \<circ> mem_used) p - unat b
      \<and> (unat \<circ> mem_limit) (permit_drop b p) = (unat \<circ> mem_limit) p"
    if "unat b \<le> (unat \<circ> mem_used) p"
    using that by (simp add: permit_drop_def unat_sub word_le_nat_alt)
qed

lemma reserve_turn_try:
  "reserve_turn n c s = Inr (Some s') \<longleftrightarrow> try_reserve n s = Inr s'"
  by (auto simp: reserve_turn_def try_reserve_def)

section \<open>Progress\<close>

datatype phase =
    Connecting | Preparing | Archiving | Encrypting | Sending | ReceivingPhase | Verifying
  | FinalizingPhase | Waiting | Unlocking | Updating | Retrying | Reconnecting | Storing

fun phase_label :: "phase \<Rightarrow> string" where
  "phase_label Connecting = ''Connecting''"
| "phase_label Preparing = ''Preparing''"
| "phase_label Archiving = ''Creating ZIP archive''"
| "phase_label Encrypting = ''Encrypting''"
| "phase_label Sending = ''Uploading''"
| "phase_label ReceivingPhase = ''Downloading''"
| "phase_label Verifying = ''Verifying integrity''"
| "phase_label FinalizingPhase = ''Creating your encrypted link''"
| "phase_label Waiting = ''Waiting for the sender''"
| "phase_label Unlocking = ''Unlocking your transfer''"
| "phase_label Updating = ''Verifying signed release''"
| "phase_label Retrying = ''Retrying transfer''"
| "phase_label Reconnecting = ''Reconnecting''"
| "phase_label Storing = ''Saving encrypted transfer state''"

record progress =
  pg_phase :: phase
  pg_generation :: u64
  pg_name :: rstr
  pg_index :: nat
  pg_files :: nat
  pg_total :: "u64 option"
  pg_done :: u64
  pg_committed :: u64
  pg_item_total :: u64
  pg_item_done :: u64
  pg_wire_bytes :: u64

definition progress_default :: progress where
  "progress_default =
     \<lparr>pg_phase = Connecting, pg_generation = 0, pg_name = [], pg_index = 0, pg_files = 0,
      pg_total = None, pg_done = 0, pg_committed = 0, pg_item_total = 0, pg_item_done = 0,
      pg_wire_bytes = 0\<rparr>"

datatype secret_kind = ShareKey | Password

fun secret_label :: "secret_kind \<Rightarrow> string" where
  "secret_label ShareKey = ''Decryption key''"
| "secret_label Password = ''Transfer password''"

datatype prompt_kind =
    SecretPrompt secret_kind
  | DirectoryPrompt nat u64 "nat option"
  | ShareReadyPrompt
  | PeerConsentPrompt rstr

fun prompt_label :: "prompt_kind \<Rightarrow> string" where
  "prompt_label (SecretPrompt k) = secret_label k"
| "prompt_label (DirectoryPrompt _ _ _) = ''Directory upload''"
| "prompt_label ShareReadyPrompt = ''Share ready''"
| "prompt_label (PeerConsentPrompt _) = ''Peer consent''"

datatype transfer_event = ShareReadyEvent rstr | PeerConsentEvent rstr | PeerFailedEvent rstr

datatype control_error =
    Cancelled | PromptsClosed | SecretInputClosed | ConsentRefused | MemoryErr memory_error

record transfer_settings =
  set_max_concurrency :: "u32 option"
  set_memory_budget :: u64
  set_client_user_agent :: "rstr option"
  set_webrtc_relay_only :: bool

text \<open>The shared state of a \<open>Control\<close>. \<open>ctl_events\<close> is the event stream when one is attached,
  \<open>ctl_prompts\<close> the prompts handed to the host.\<close>

record control =
  ctl_progress :: progress
  ctl_attached_note :: "attached_note option"
  ctl_checkpoint_id :: "rstr option"
  ctl_cancelled :: bool
  ctl_prompts :: "prompt_kind list"
  ctl_events :: "transfer_event list option"
  ctl_memory :: memory_state
  ctl_settings :: transfer_settings
  ctl_ice_override :: "ice_override option"

definition control_new :: "transfer_settings \<Rightarrow> control" where
  "control_new settings =
     \<lparr>ctl_progress = progress_default, ctl_attached_note = None, ctl_checkpoint_id = None,
      ctl_cancelled = False, ctl_prompts = [], ctl_events = None,
      ctl_memory = memory_new (set_memory_budget settings), ctl_settings = settings,
      ctl_ice_override = None\<rparr>"

definition control_with_events :: "transfer_settings \<Rightarrow> control" where
  "control_with_events settings = (control_new settings)\<lparr>ctl_events := Some []\<rparr>"

definition control_check :: "control \<Rightarrow> (unit, control_error) result" where
  "control_check c = (if ctl_cancelled c then Err Cancelled else Ok ())"

definition control_cancel :: "control \<Rightarrow> control" where
  "control_cancel c = c\<lparr>ctl_cancelled := True\<rparr>"

definition control_emit :: "transfer_event \<Rightarrow> control \<Rightarrow> control" where
  "control_emit event c =
     (case ctl_events c of None \<Rightarrow> c | Some es \<Rightarrow> c\<lparr>ctl_events := Some (es @ [event])\<rparr>)"

definition set_attached_note :: "attached_note option \<Rightarrow> control \<Rightarrow> control" where
  "set_attached_note note_value c = c\<lparr>ctl_attached_note := note_value\<rparr>"

definition set_checkpoint_id :: "rstr \<Rightarrow> control \<Rightarrow> control" where
  "set_checkpoint_id i c = c\<lparr>ctl_checkpoint_id := Some i\<rparr>"

definition control_set_memory_budget :: "memory_state \<Rightarrow> control \<Rightarrow> control" where
  "control_set_memory_budget m c = c\<lparr>ctl_memory := m\<rparr>"

definition set_ice_override :: "ice_override \<Rightarrow> control \<Rightarrow> control" where
  "set_ice_override policy c = c\<lparr>ctl_ice_override := Some policy\<rparr>"

text \<open>\<open>pkg_version\<close> is the version the build inserts.\<close>

definition client_user_agent :: "rstr \<Rightarrow> control \<Rightarrow> rstr" where
  "client_user_agent pkg_version c =
     (case set_client_user_agent (ctl_settings c) of
        Some ua \<Rightarrow> ua | None \<Rightarrow> lit ''filebeam-transfer-native/'' @ pkg_version)"

definition resolve_ice_servers :: "control \<Rightarrow> ice_server list \<Rightarrow> (ice_server list, string) result" where
  "resolve_ice_servers c servers =
     (case ctl_ice_override c of Some policy \<Rightarrow> ice_resolve policy servers | None \<Rightarrow> Ok servers)"

definition control_edit :: "(progress \<Rightarrow> progress) \<Rightarrow> control \<Rightarrow> control" where
  "control_edit f c = c\<lparr>ctl_progress := f (ctl_progress c)\<rparr>"

definition control_phase :: "phase \<Rightarrow> control \<Rightarrow> (control, control_error) result" where
  "control_phase ph c =
     and_then (control_check c) (\<lambda>_.
       Ok (control_edit (\<lambda>p.
         if pg_phase p \<noteq> ph
         then p\<lparr>pg_phase := ph, pg_generation := saturating_add (pg_generation p) 1\<rparr> else p) c))"

definition control_totals :: "u64 \<Rightarrow> nat \<Rightarrow> control \<Rightarrow> control" where
  "control_totals n files = control_edit (\<lambda>p. p\<lparr>pg_total := Some n, pg_files := files\<rparr>)"

definition control_item :: "rstr \<Rightarrow> nat \<Rightarrow> u64 \<Rightarrow> control \<Rightarrow> control" where
  "control_item name index item_size =
     control_edit (\<lambda>p. p\<lparr>pg_name := name, pg_index := index, pg_item_total := item_size, pg_item_done := 0\<rparr>)"

definition control_advance :: "u64 \<Rightarrow> u64 \<Rightarrow> u64 \<Rightarrow> control \<Rightarrow> control" where
  "control_advance finished item_done wire =
     control_edit (\<lambda>p.
       p\<lparr>pg_done := min finished (case pg_total p of None \<Rightarrow> finished | Some t \<Rightarrow> t),
         pg_item_done := min item_done (pg_item_total p),
         pg_wire_bytes := saturating_add (pg_wire_bytes p) wire\<rparr>)"

definition control_commit :: "u64 \<Rightarrow> control \<Rightarrow> control" where
  "control_commit n = control_edit (\<lambda>p. p\<lparr>pg_committed := n\<rparr>)"

definition control_reserve_memory ::
  "u64 \<Rightarrow> bool \<Rightarrow> control \<Rightarrow> (control option, control_error) result" where
  "control_reserve_memory n cancelled c =
     (case reserve_turn n cancelled (ctl_memory c) of
        Inl e \<Rightarrow> Err (MemoryErr e)
      | Inr None \<Rightarrow> Ok None
      | Inr (Some s) \<Rightarrow> Ok (Some (c\<lparr>ctl_memory := s\<rparr>)))"

section \<open>Prompts and consent\<close>

text \<open>The outcomes of one turn of the loop of \<open>ask\<close>: whether the cancellation flag is set when it is
  checked, then the reply received, a timeout, or the other end dropped.\<close>

datatype recv = Reply rstr | RecvTimeout | Disconnected

fun ask_loop :: "(bool \<times> recv) list \<Rightarrow> (rstr, control_error) result option" where
  "ask_loop [] = None"
| "ask_loop ((cancelled, r) # turns) =
     (if cancelled then Some (Err Cancelled)
      else case r of
             Reply v \<Rightarrow> Some (Ok v)
           | RecvTimeout \<Rightarrow> ask_loop turns
           | Disconnected \<Rightarrow> Some (Err SecretInputClosed))"

text \<open>\<open>open_prompts\<close> is whether the host still receives prompts.\<close>

definition control_ask ::
  "bool \<Rightarrow> prompt_kind \<Rightarrow> (bool \<times> recv) list \<Rightarrow> control
     \<Rightarrow> (rstr, control_error) result option \<times> control" where
  "control_ask open_prompts kind turns c =
     (if \<not> open_prompts then (Some (Err PromptsClosed), c)
      else (ask_loop turns, c\<lparr>ctl_prompts := ctl_prompts c @ [kind]\<rparr>))"

definition control_secret ::
  "bool \<Rightarrow> secret_kind \<Rightarrow> (bool \<times> recv) list \<Rightarrow> control
     \<Rightarrow> (rstr, control_error) result option \<times> control" where
  "control_secret open_prompts kind turns c =
     (case control_phase Unlocking c of
        Inl e \<Rightarrow> (Some (Err e), c)
      | Inr c' \<Rightarrow> control_ask open_prompts (SecretPrompt kind) turns c')"

definition consent_given :: "rstr \<Rightarrow> bool" where
  "consent_given reply \<longleftrightarrow> to_ascii_lowercase (trim reply) \<in> {lit ''allow'', lit ''yes''}"

definition request_peer_consent ::
  "bool \<Rightarrow> rstr \<Rightarrow> (bool \<times> recv) list \<Rightarrow> control
     \<Rightarrow> (unit, control_error) result option \<times> control" where
  "request_peer_consent open_prompts peer_id turns c =
     (case control_ask open_prompts (PeerConsentPrompt peer_id) turns
             (control_emit (PeerConsentEvent peer_id) c) of
        (None, c') \<Rightarrow> (None, c')
      | (Some (Inl e), c') \<Rightarrow> (Some (Err e), c')
      | (Some (Inr reply), c') \<Rightarrow>
          (Some (if consent_given reply then Ok () else Err ConsentRefused), c'))"

section \<open>Results\<close>

lemma reserve_Ok:
  "reserve n turns = Some (Inr s') \<Longrightarrow> \<exists>c s. (c, s) \<in> set turns \<and> try_reserve n s = Inr s'"
proof (induction n turns rule: reserve.induct)
  case (2 n c s turns)
  then show ?case using reserve_turn_try [of n c s s']
    by (auto split: sum.splits option.splits)
qed simp

datatype pool_op = Acquire u64 | Release nat

text \<open>A pool with its outstanding permits: an acquisition that is refused changes nothing, a
  permit is dropped once.\<close>

fun pool_step :: "memory_state \<times> u64 list \<Rightarrow> pool_op \<Rightarrow> memory_state \<times> u64 list" where
  "pool_step (s, permits) (Acquire n) =
     (case try_reserve n s of Inl _ \<Rightarrow> (s, permits) | Inr s' \<Rightarrow> (s', permits @ [n]))"
| "pool_step (s, permits) (Release i) =
     (if i < length permits
      then (permit_drop (permits ! i) s, take i permits @ drop (Suc i) permits)
      else (s, permits))"

lemma pool_step_accounts:
  assumes "mem.accounts s permits" "pool_step (s, permits) op = (s', permits')"
  shows "mem.accounts s' permits' \<and> mem_limit s' = mem_limit s"
proof (cases op)
  case (Acquire n)
  then show ?thesis using assms mem.acquire_accounts [of s permits n]
    by (cases "try_reserve n s") (auto simp: word_unat_eq_iff)
next
  case (Release i)
  show ?thesis
  proof (cases "i < length permits")
    case True
    then have "mem.accounts s (take i permits @ permits ! i # drop (Suc i) permits)"
      using assms(1) by (simp add: id_take_nth_drop [symmetric])
    then show ?thesis using mem.release_accounts True Release assms(2)
      by (auto simp: word_unat_eq_iff)
  next
    case False
    then show ?thesis using assms Release by simp
  qed
qed

interpretation pool: guarded_machine "\<lambda>(s, permits). mem.accounts s permits \<and> mem_limit s = l" pool_step for l
  by unfold_locales (auto dest: pool_step_accounts)

text \<open>The shared memory pool is exact under any interleaving of reservations and releases: the
  bytes in use are always the sum of the outstanding permits and never exceed the limit, and once
  every permit is dropped the whole budget is free again.\<close>

theorem memory_pool_is_exact:
  "case foldl pool_step (memory_new limit, []) ops of
     (s, permits) \<Rightarrow>
       unat (mem_used s) = sum_list (map unat permits) \<and> unat (mem_used s) \<le> unat limit
       \<and> (if permits = [] then mem_used s = 0 else True)"
proof -
  have "mem.accounts (memory_new limit) []" by (simp add: mem.accounts_def memory_new_def)
  then have "case foldl pool_step (memory_new limit, []) ops of
      (s, permits) \<Rightarrow> mem.accounts s permits \<and> mem_limit s = limit"
    using pool.foldl_inv [of limit "(memory_new limit, [])" ops] by (simp add: memory_new_def)
  then show ?thesis
    by (auto simp: mem.accounts_def word_unat_eq_iff split: prod.splits)
qed

text \<open>A peer's address is exposed only after explicit consent: the request succeeds only if the
  host replied \<open>allow\<close> or \<open>yes\<close> (up to case and blanks) before the transfer was cancelled, and the
  host was shown the prompt for that peer.\<close>

theorem peer_consent_is_explicit:
  "case request_peer_consent open_prompts peer_id turns c of
     (Some (Inr _), c') \<Rightarrow>
       (\<exists>before reply after. turns = before @ (False, Reply reply) # after
          \<and> list_all (\<lambda>t. t = (False, RecvTimeout)) before \<and> consent_given reply)
       \<and> ctl_prompts c' = ctl_prompts c @ [PeerConsentPrompt peer_id]
   | _ \<Rightarrow> True"
proof -
  have ask: "\<exists>before after. turns = before @ (False, Reply reply) # after
      \<and> list_all (\<lambda>t. t = (False, RecvTimeout)) before"
    if "ask_loop turns = Some (Inr reply)" for reply
    using that
  proof (induction turns rule: ask_loop.induct)
    case (2 cancelled r turns)
    show ?case
    proof (cases r)
      case (Reply v)
      then show ?thesis using 2(2) by (intro exI [of _ "[]"] exI [of _ turns]) (auto split: if_splits)
    next
      case RecvTimeout
      then obtain before after where "turns = before @ (False, Reply reply) # after"
        "list_all (\<lambda>t. t = (False, RecvTimeout)) before"
        using 2 by (auto split: if_splits)
      then show ?thesis using RecvTimeout 2(2)
        by (intro exI [of _ "(False, RecvTimeout) # before"] exI [of _ after]) (auto split: if_splits)
    next
      case Disconnected
      then show ?thesis using 2(2) by (auto split: if_splits)
    qed
  qed simp
  have "ctl_prompts (control_emit e c) = ctl_prompts c" for e
    by (simp add: control_emit_def split: option.split)
  moreover have "\<exists>before reply after. turns = before @ (False, Reply reply) # after
      \<and> list_all (\<lambda>t. t = (False, RecvTimeout)) before \<and> consent_given reply"
    if "ask_loop turns = Some (Inr reply)" "consent_given reply" for reply
    using ask [OF that(1)] that(2) by blast
  ultimately show ?thesis
    by (simp add: request_peer_consent_def control_ask_def split: prod.splits option.splits sum.splits if_splits)
qed

section \<open>Progress never runs backwards\<close>

datatype report_op =
    SetPhase phase | SetTotals u64 nat | SetItem rstr nat u64 | Advance u64 u64 u64 | Commit u64 | Cancel

fun control_step :: "control \<Rightarrow> report_op \<Rightarrow> control" where
  "control_step c (SetPhase ph) = (case control_phase ph c of Inl _ \<Rightarrow> c | Inr c' \<Rightarrow> c')"
| "control_step c (SetTotals n files) = control_totals n files c"
| "control_step c (SetItem name index n) = control_item name index n c"
| "control_step c (Advance d i w) = control_advance d i w c"
| "control_step c (Commit n) = control_commit n c"
| "control_step c Cancel = control_cancel c"

definition progress_ok :: "control \<Rightarrow> bool" where
  "progress_ok c \<longleftrightarrow> pg_item_done (ctl_progress c) \<le> pg_item_total (ctl_progress c)"

lemma le_saturating_add_left: "a \<le> saturating_add a (b :: u64)"
  using unat_less_2p [of a] by (simp add: word_le_nat_alt unat_saturating_add)

lemma control_step_ok:
  assumes "progress_ok c"
  shows "progress_ok (control_step c op)"
    and "pg_generation (ctl_progress c) \<le> pg_generation (ctl_progress (control_step c op))"
    and "pg_wire_bytes (ctl_progress c) \<le> pg_wire_bytes (ctl_progress (control_step c op))"
  using assms
  by (cases op; simp add: progress_ok_def control_phase_def control_check_def control_edit_def
      control_totals_def control_item_def control_advance_def control_commit_def control_cancel_def
      le_saturating_add_left)+

interpretation ctl: guarded_machine progress_ok control_step
  by unfold_locales (rule control_step_ok)

text \<open>Progress snapshots never run backwards: over any sequence of reports the generation and
  the wire bytes only grow, the item progress never exceeds the item, and a report after
  cancellation cannot change the phase.\<close>

theorem progress_snapshots_monotone:
  "let c = foldl control_step (control_new settings) earlier;
       c' = foldl control_step c later in
   pg_generation (ctl_progress c) \<le> pg_generation (ctl_progress c')
   \<and> pg_wire_bytes (ctl_progress c) \<le> pg_wire_bytes (ctl_progress c')
   \<and> pg_item_done (ctl_progress c') \<le> pg_item_total (ctl_progress c')
   \<and> (if ctl_cancelled c then pg_phase (ctl_progress c') = pg_phase (ctl_progress c) else True)"
proof -
  define c where "c = foldl control_step (control_new settings) earlier"
  have "progress_ok (control_new settings)"
    by (simp add: progress_ok_def control_new_def progress_default_def)
  then have ok: "progress_ok c" unfolding c_def by (rule ctl.foldl_inv)
  have stays: "ctl_cancelled d \<longrightarrow> ctl_cancelled (control_step d op)
      \<and> pg_phase (ctl_progress (control_step d op)) = pg_phase (ctl_progress d)" for d op
    by (cases op) (simp_all add: control_phase_def control_check_def control_edit_def control_totals_def
        control_item_def control_advance_def control_commit_def control_cancel_def)
  have "ctl_cancelled d \<Longrightarrow> pg_phase (ctl_progress (foldl control_step d later)) = pg_phase (ctl_progress d)" for d
    by (induction later arbitrary: d) (simp_all add: stays)
  moreover have "pg_generation (ctl_progress c) \<le> pg_generation (ctl_progress (foldl control_step c later))"
    using ok control_step_ok(2) by (rule ctl.foldl_mono)
  moreover have "pg_wire_bytes (ctl_progress c) \<le> pg_wire_bytes (ctl_progress (foldl control_step c later))"
    using ok control_step_ok(3) by (rule ctl.foldl_mono)
  moreover have "progress_ok (foldl control_step c later)" using ok by (rule ctl.foldl_inv)
  ultimately show ?thesis by (simp add: c_def [symmetric] Let_def progress_ok_def)
qed

end
