(* ===== verification/Scheduler.thy ===== *)
theory Scheduler
  imports Control
begin

text \<open>
  The application's scheduler, \<open>crates/client-core/src/scheduler.rs\<close>: admission of transfers under
  shared worker and memory limits, with cancellation, lowering of the limits and exclusion of a
  saved transfer that is already running. Threads interleave between the critical sections, so
  the model is a machine over all of them: one operation per critical section, the list of
  tasks recording where each call stands. The starting checks and the first test of the wait
  loop share a critical section in the code and are two operations here, which only adds
  interleavings. An admitted job reserves from the same pool (\<open>control.set_memory_budget\<close>); its
  reservations are the same operation as a service's. The theorems hold for every sequence of
  operations.
\<close>

section \<open>The machine\<close>

definition RUNTIME_ALLOWANCE_BYTES :: u64 where "RUNTIME_ALLOWANCE_BYTES = 4 * 1024 * 1024"
definition TRANSIENT_MEMORY_ALLOWANCE_BYTES :: u64 where
  "TRANSIENT_MEMORY_ALLOWANCE_BYTES = 64 * 1024 * 1024"

datatype sched_error = ResourceExhausted string | SchedCancelled

text \<open>Where a call stands: waiting in the loop of \<open>admit\<close>; counted against the limits; holding its
  permit of the pool as well; admitted; a plain permit (of a service call, of a running job, or
  what remains of an admission while its fields are dropped); returned.\<close>

datatype task =
    AdmitWaiting u64 "rstr option"
  | AdmitCounted u64 "rstr option"
  | AdmitPermitted u64 "rstr option"
  | Admitted u64 "rstr option"
  | Holding u64
  | Returned
  | Failed sched_error

record sched =
  sc_workers :: nat
  sc_used_workers :: nat
  sc_memory_bytes :: u64
  sc_used_memory :: u64
  sc_active_resumes :: "rstr set"
  sc_pool :: memory_state
  sc_tasks :: "task list"

definition limits_error :: sched_error where
  "limits_error = ResourceExhausted
     ''scheduler limits must allow at least one worker and its runtime overhead''"

definition budget_error :: sched_error where
  "budget_error = ResourceExhausted
     ''transfer needs more bytes than the shared scheduler budget''"

definition running_error :: sched_error where
  "running_error = ResourceExhausted ''saved transfer is still stopping or running''"

definition scheduler_new :: "nat \<Rightarrow> u64 \<Rightarrow> (sched, sched_error) result" where
  "scheduler_new workers memory_bytes =
     (if workers = 0 \<or> memory_bytes < RUNTIME_ALLOWANCE_BYTES then Err limits_error
      else Ok \<lparr>sc_workers = workers, sc_used_workers = 0, sc_memory_bytes = memory_bytes,
               sc_used_memory = 0, sc_active_resumes = {}, sc_pool = memory_new memory_bytes,
               sc_tasks = []\<rparr>)"

definition reconfigure_limits :: "nat \<Rightarrow> u64 \<Rightarrow> sched \<Rightarrow> (bool \<times> sched, sched_error) result" where
  "reconfigure_limits workers memory_bytes s =
     (if workers = 0 \<or> memory_bytes < RUNTIME_ALLOWANCE_BYTES then Err limits_error
      else
        let restart_required = sc_workers s < workers \<or> sc_memory_bytes s < memory_bytes in
        Ok (restart_required,
            if restart_required then s
            else s\<lparr>sc_workers := workers, sc_memory_bytes := memory_bytes\<rparr>))"

definition resume_active :: "rstr option \<Rightarrow> sched \<Rightarrow> bool" where
  "resume_active resume_id s =
     (case resume_id of None \<Rightarrow> False | Some i \<Rightarrow> i \<in> sc_active_resumes s)"

text \<open>The checks at the start of \<open>admit\<close>.\<close>

definition admit_start :: "u64 \<Rightarrow> rstr option \<Rightarrow> sched \<Rightarrow> task" where
  "admit_start memory_budget resume_id s =
     (case checked_add memory_budget RUNTIME_ALLOWANCE_BYTES of
        None \<Rightarrow> Failed (ResourceExhausted ''transfer memory budget overflows scheduler accounting'')
      | Some requested \<Rightarrow>
          if sc_memory_bytes s < requested then Failed budget_error
          else if resume_active resume_id s then Failed running_error
          else AdmitWaiting requested resume_id)"

definition set_task :: "nat \<Rightarrow> task \<Rightarrow> sched \<Rightarrow> sched" where
  "set_task i t s = s\<lparr>sc_tasks := (sc_tasks s)[i := t]\<rparr>"

definition uncount :: "u64 \<Rightarrow> sched \<Rightarrow> sched" where
  "uncount requested s =
     s\<lparr>sc_used_workers := sc_used_workers s - 1, sc_used_memory := sc_used_memory s - requested\<rparr>"

text \<open>One test of the wait loop and, when it leaves the loop, the accounting after it.\<close>

definition admit_turn :: "nat \<Rightarrow> bool \<Rightarrow> u64 \<Rightarrow> rstr option \<Rightarrow> sched \<Rightarrow> sched" where
  "admit_turn i cancelled requested resume_id s =
     (if sc_workers s \<le> sc_used_workers s
         \<or> sc_memory_bytes s < saturating_add (sc_used_memory s) requested
      then (if cancelled then set_task i (Failed SchedCancelled) s else s)
      else if cancelled then set_task i (Failed SchedCancelled) s
      else set_task i (AdmitCounted requested resume_id)
             (s\<lparr>sc_used_workers := sc_used_workers s + 1,
                sc_used_memory := sc_used_memory s + requested\<rparr>))"

text \<open>One pass of \<open>self.memory.reserve\<close> and the handling of its error.\<close>

definition admit_reserve :: "nat \<Rightarrow> bool \<Rightarrow> u64 \<Rightarrow> rstr option \<Rightarrow> sched \<Rightarrow> sched" where
  "admit_reserve i cancelled requested resume_id s =
     (case reserve_turn requested cancelled (sc_pool s) of
        Inl MemoryExhausted \<Rightarrow> set_task i (Failed budget_error) (uncount requested s)
      | Inl MemoryCancelled \<Rightarrow> set_task i (Failed SchedCancelled) (uncount requested s)
      | Inr None \<Rightarrow> s
      | Inr (Some pool) \<Rightarrow> set_task i (AdmitPermitted requested resume_id) (s\<lparr>sc_pool := pool\<rparr>))"

text \<open>The second look at the running transfers; refused, the call still holds its permit until its
  locals are dropped.\<close>

definition admit_confirm :: "nat \<Rightarrow> u64 \<Rightarrow> rstr option \<Rightarrow> sched \<Rightarrow> sched" where
  "admit_confirm i requested resume_id s =
     (if resume_active resume_id s then set_task i (Holding requested) (uncount requested s)
      else set_task i (Admitted requested resume_id)
             (s\<lparr>sc_active_resumes := set_option resume_id \<union> sc_active_resumes s\<rparr>))"

text \<open>\<open>Drop for Admission\<close>; its permit is dropped after it.\<close>

definition admission_drop :: "nat \<Rightarrow> u64 \<Rightarrow> rstr option \<Rightarrow> sched \<Rightarrow> sched" where
  "admission_drop i requested resume_id s =
     set_task i (Holding requested)
       ((uncount requested s)\<lparr>sc_active_resumes := sc_active_resumes s - set_option resume_id\<rparr>)"

definition try_reserve_service_memory :: "u64 \<Rightarrow> sched \<Rightarrow> sched" where
  "try_reserve_service_memory n s =
     (case try_reserve n (sc_pool s) of
        Inl _ \<Rightarrow> s\<lparr>sc_tasks := sc_tasks s @
                    [Failed (ResourceExhausted ''shared scheduler memory budget is exhausted'')]\<rparr>
      | Inr pool \<Rightarrow> s\<lparr>sc_pool := pool, sc_tasks := sc_tasks s @ [Holding n]\<rparr>)"

definition release_permit :: "nat \<Rightarrow> u64 \<Rightarrow> sched \<Rightarrow> sched" where
  "release_permit i n s = set_task i Returned (s\<lparr>sc_pool := permit_drop n (sc_pool s)\<rparr>)"

datatype sched_op =
    Admit u64 "rstr option"
  | Turn nat bool
  | DropTask nat
  | Service u64
  | Reconfigure nat u64

text \<open>One operation of any thread: a new call, the next critical section of a call in progress, the
  drop of an admission or permit, a service or job reservation, new limits.\<close>

definition turn_task :: "nat \<Rightarrow> bool \<Rightarrow> sched \<Rightarrow> sched" where
  "turn_task i cancelled s =
     (if i < length (sc_tasks s) then
        (case sc_tasks s ! i of
           AdmitWaiting r d \<Rightarrow> admit_turn i cancelled r d s
         | AdmitCounted r d \<Rightarrow> admit_reserve i cancelled r d s
         | AdmitPermitted r d \<Rightarrow> admit_confirm i r d s
         | _ \<Rightarrow> s)
      else s)"

definition drop_task :: "nat \<Rightarrow> sched \<Rightarrow> sched" where
  "drop_task i s =
     (if i < length (sc_tasks s) then
        (case sc_tasks s ! i of
           Admitted r d \<Rightarrow> admission_drop i r d s
         | Holding n \<Rightarrow> release_permit i n s
         | _ \<Rightarrow> s)
      else s)"

fun sched_step :: "sched \<Rightarrow> sched_op \<Rightarrow> sched" where
  "sched_step s (Admit budget d) = s\<lparr>sc_tasks := sc_tasks s @ [admit_start budget d s]\<rparr>"
| "sched_step s (Turn i cancelled) = turn_task i cancelled s"
| "sched_step s (DropTask i) = drop_task i s"
| "sched_step s (Service n) = try_reserve_service_memory n s"
| "sched_step s (Reconfigure w m) =
     (case reconfigure_limits w m s of Inl _ \<Rightarrow> s | Inr (_, s') \<Rightarrow> s')"

section \<open>The invariant\<close>

fun counted :: "task \<Rightarrow> u64 list" where
  "counted (AdmitCounted r d) = [r]"
| "counted (AdmitPermitted r d) = [r]"
| "counted (Admitted r d) = [r]"
| "counted _ = []"

fun permits :: "task \<Rightarrow> u64 list" where
  "permits (AdmitPermitted r d) = [r]"
| "permits (Admitted r d) = [r]"
| "permits (Holding r) = [r]"
| "permits _ = []"

fun running :: "task \<Rightarrow> rstr list" where
  "running (Admitted r (Some i)) = [i]"
| "running _ = []"

definition byte_sum :: "u64 list \<Rightarrow> nat" where "byte_sum ns = sum_list (map unat ns)"

definition collect :: "(task \<Rightarrow> 'a list) \<Rightarrow> sched \<Rightarrow> 'a list" where
  "collect f s = concat (map f (sc_tasks s))"

text \<open>The accounting of a scheduler created with \<open>w\<close> workers and \<open>l\<close> bytes.\<close>

definition sched_inv :: "nat \<Rightarrow> nat \<Rightarrow> sched \<Rightarrow> bool" where
  "sched_inv w l s \<longleftrightarrow>
     sc_used_workers s = length (collect counted s) \<and> sc_used_workers s \<le> w \<and> sc_workers s \<le> w
     \<and> unat (sc_used_memory s) = byte_sum (collect counted s) \<and> unat (sc_used_memory s) \<le> l
     \<and> unat (sc_memory_bytes s) \<le> l
     \<and> unat (mem_used (sc_pool s)) = byte_sum (collect permits s) \<and> unat (mem_used (sc_pool s)) \<le> l
     \<and> unat (mem_limit (sc_pool s)) = l
     \<and> distinct (collect running s) \<and> sc_active_resumes s = set (collect running s)"

lemma byte_sum_simps [simp]: "byte_sum [] = 0" "byte_sum (n # ns) = unat n + byte_sum ns" "byte_sum (xs @ ys) = byte_sum xs + byte_sum ys"
  by (simp_all add: byte_sum_def)

lemma collect_set_task:
  assumes "sc_tasks s = ps @ t # qs"
  shows "collect f (set_task (length ps) t' s) = concat (map f ps) @ f t' @ concat (map f qs)"
  using assms by (simp add: collect_def set_task_def)

lemma task_split:
  assumes "i < length (sc_tasks s)"
  obtains ps qs where "sc_tasks s = ps @ sc_tasks s ! i # qs" "i = length ps"
  using id_take_nth_drop [OF assms] assms by (metis length_take min.absorb2 less_imp_le that)

lemma set_task_simps [simp]:
  "sc_workers (set_task i t s) = sc_workers s" "sc_used_workers (set_task i t s) = sc_used_workers s"
  "sc_memory_bytes (set_task i t s) = sc_memory_bytes s" "sc_used_memory (set_task i t s) = sc_used_memory s"
  "sc_active_resumes (set_task i t s) = sc_active_resumes s" "sc_pool (set_task i t s) = sc_pool s"
  by (simp_all add: set_task_def)

lemma uncount_simps [simp]:
  "sc_workers (uncount r s) = sc_workers s" "sc_tasks (uncount r s) = sc_tasks s"
  "sc_memory_bytes (uncount r s) = sc_memory_bytes s" "sc_used_workers (uncount r s) = sc_used_workers s - 1"
  "sc_active_resumes (uncount r s) = sc_active_resumes s" "sc_pool (uncount r s) = sc_pool s"
  "sc_used_memory (uncount r s) = sc_used_memory s - r"
  by (simp_all add: uncount_def)

lemma unat_minus_counted: "unat b \<le> unat a \<Longrightarrow> unat (a - b :: u64) = unat a - unat b"
  by (simp add: unat_sub word_le_nat_alt)

lemma pool_reserve:
  assumes "try_reserve n p = Inr p'" "unat (mem_used p) \<le> l" "unat (mem_limit p) = l"
  shows "unat (mem_used p') = unat (mem_used p) + unat n \<and> unat (mem_used p') \<le> l \<and> unat (mem_limit p') = l"
  using mem.acquire_used [of p n p'] assms by simp

lemma pool_release:
  assumes "unat n \<le> unat (mem_used p)" "unat (mem_limit p) = l"
  shows "unat (mem_used (permit_drop n p)) = unat (mem_used p) - unat n \<and> unat (mem_limit (permit_drop n p)) = l"
  using mem.release_used [of n p] assms by simp

lemma inv_start: "sched_inv w l s \<Longrightarrow> sched_inv w l (s\<lparr>sc_tasks := sc_tasks s @ [admit_start b d s]\<rparr>)"
proof -
  have "counted (admit_start b d s) = []" "permits (admit_start b d s) = []" "running (admit_start b d s) = []"
    by (simp_all add: admit_start_def split: option.split)
  then show "sched_inv w l s \<Longrightarrow> ?thesis" by (simp add: sched_inv_def collect_def)
qed

lemma inv_replace:
  assumes "sched_inv w l s" "sc_tasks s = ps @ t # qs"
    "counted t' = counted t" "permits t' = permits t" "running t' = running t"
  shows "sched_inv w l (set_task (length ps) t' s)"
proof -
  have "collect counted (set_task (length ps) t' s) = collect counted s"
    "collect permits (set_task (length ps) t' s) = collect permits s"
    "collect running (set_task (length ps) t' s) = collect running s"
    using assms(2-5) by (simp_all add: collect_def set_task_def)
  then show ?thesis using assms(1) by (simp add: sched_inv_def)
qed

lemma inv_turn:
  assumes "sched_inv w l s" "sc_tasks s = ps @ AdmitWaiting r d # qs" "l < 2 ^ 64 - 1"
  shows "sched_inv w l (admit_turn (length ps) c r d s)"
proof (cases "sc_workers s \<le> sc_used_workers s \<or> sc_memory_bytes s < saturating_add (sc_used_memory s) r \<or> c")
  case True
  then have "admit_turn (length ps) c r d s = s
      \<or> admit_turn (length ps) c r d s = set_task (length ps) (Failed SchedCancelled) s"
    by (auto simp: admit_turn_def)
  moreover have "sched_inv w l (set_task (length ps) (Failed SchedCancelled) s)"
    using assms(1,2) by (rule inv_replace) simp_all
  ultimately show ?thesis using assms(1) by auto
next
  case False
  then have "min (unat (sc_used_memory s) + unat r) (2 ^ 64 - 1) \<le> l"
    using assms(1) by (auto simp: sched_inv_def word_less_nat_alt unat_saturating_add not_less)
  then have fits: "unat (sc_used_memory s) + unat r \<le> l" using assms(3) by (simp add: min_def split: if_splits)
  then have "unat (sc_used_memory s + r) = unat (sc_used_memory s) + unat r"
    using assms(3) by (simp add: unat_word_ariths)
  then show ?thesis using False fits assms(1,2)
    by (simp add: admit_turn_def sched_inv_def collect_set_task) (simp add: collect_def)
qed

lemma inv_uncount:
  assumes "sched_inv w l s" "sc_tasks s = ps @ t # qs" "counted t = [r]" "counted t' = []"
    "permits t' = permits t" "running t' = []" "running t = []"
  shows "sched_inv w l (set_task (length ps) t' (uncount r s))"
proof -
  have "unat r \<le> unat (sc_used_memory s)" using assms by (simp add: sched_inv_def collect_def)
  then show ?thesis using assms
    by (simp add: sched_inv_def collect_set_task unat_minus_counted) (simp add: collect_def)
qed

lemma inv_reserve:
  assumes "sched_inv w l s" "sc_tasks s = ps @ AdmitCounted r d # qs"
  shows "sched_inv w l (admit_reserve (length ps) c r d s)"
proof (cases "reserve_turn r c (sc_pool s)")
  case (Inl e)
  then show ?thesis using assms
    by (cases e) (simp_all add: admit_reserve_def inv_uncount)
next
  case (Inr out)
  show ?thesis
  proof (cases out)
    case None
    then show ?thesis using assms Inr by (simp add: admit_reserve_def)
  next
    case (Some pool)
    then have "try_reserve r (sc_pool s) = Inr pool" using Inr by (simp add: reserve_turn_try)
    from pool_reserve [OF this, of l] show ?thesis using assms Inr Some
      by (simp add: admit_reserve_def sched_inv_def collect_set_task) (simp add: collect_def)
  qed
qed

lemma inv_confirm:
  assumes "sched_inv w l s" "sc_tasks s = ps @ AdmitPermitted r d # qs"
  shows "sched_inv w l (admit_confirm (length ps) r d s)"
proof (cases "resume_active d s")
  case True
  then show ?thesis using assms by (simp add: admit_confirm_def inv_uncount)
next
  case False
  then show ?thesis using assms
    by (cases d) (auto simp: admit_confirm_def resume_active_def sched_inv_def set_task_def collect_def)
qed

lemma inv_admission_drop:
  assumes "sched_inv w l s" "sc_tasks s = ps @ Admitted r d # qs"
  shows "sched_inv w l (admission_drop (length ps) r d s)"
proof -
  have "unat r \<le> unat (sc_used_memory s)" using assms by (simp add: sched_inv_def collect_def)
  then show ?thesis using assms
    by (cases d) (auto simp: admission_drop_def sched_inv_def set_task_def unat_minus_counted collect_def)
qed

lemma inv_release:
  assumes "sched_inv w l s" "sc_tasks s = ps @ Holding n # qs"
  shows "sched_inv w l (release_permit (length ps) n s)"
proof -
  have "unat n \<le> unat (mem_used (sc_pool s))" using assms by (simp add: sched_inv_def collect_def)
  from pool_release [OF this, of l] show ?thesis using assms
    by (simp add: release_permit_def sched_inv_def collect_set_task) (simp add: collect_def)
qed

lemma inv_service: "sched_inv w l s \<Longrightarrow> sched_inv w l (try_reserve_service_memory n s)"
  using pool_reserve [of n "sc_pool s" _ l]
  by (cases "try_reserve n (sc_pool s)")
     (simp_all add: try_reserve_service_memory_def sched_inv_def collect_def)

lemma inv_reconfigure: "sched_inv w l s \<Longrightarrow> reconfigure_limits w' m s = Inr (b, s') \<Longrightarrow> sched_inv w l s'"
  by (auto simp: reconfigure_limits_def sched_inv_def Let_def collect_def word_less_nat_alt not_less
      split: if_splits)

lemma inv_turn_task:
  assumes "sched_inv w l s" "l < 2 ^ 64 - 1"
  shows "sched_inv w l (turn_task i c s)"
proof (cases "i < length (sc_tasks s)")
  case True
  then obtain ps qs where "sc_tasks s = ps @ sc_tasks s ! i # qs" "i = length ps" by (rule task_split)
  then show ?thesis using assms True inv_turn inv_reserve inv_confirm
    by (cases "sc_tasks s ! i") (simp_all add: turn_task_def)
qed (simp add: turn_task_def assms)

lemma inv_drop_task: "sched_inv w l s \<Longrightarrow> sched_inv w l (drop_task i s)"
proof (cases "i < length (sc_tasks s)")
  case True
  assume "sched_inv w l s"
  moreover obtain ps qs where "sc_tasks s = ps @ sc_tasks s ! i # qs" "i = length ps"
    using True by (rule task_split)
  ultimately show ?thesis using True inv_admission_drop inv_release
    by (cases "sc_tasks s ! i") (simp_all add: drop_task_def)
qed (simp add: drop_task_def)

lemma inv_sched_step: "sched_inv w l s \<Longrightarrow> l < 2 ^ 64 - 1 \<Longrightarrow> sched_inv w l (sched_step s op)"
  by (cases op) (auto simp: inv_start inv_turn_task inv_drop_task inv_service split: sum.split
      dest: inv_reconfigure)

interpretation sched: guarded_machine "\<lambda>s. sched_inv w l s \<and> l < 2 ^ 64 - 1" sched_step for w l
  by unfold_locales (simp add: inv_sched_step)

lemma inv_new: "scheduler_new w m = Inr s \<Longrightarrow> sched_inv w (unat m) s"
  by (auto simp: scheduler_new_def sched_inv_def collect_def memory_new_def split: if_splits)

text \<open>C6. The scheduler's accounting is exact under every interleaving of admissions,
  cancellations, releases, service reservations and lowered limits: the workers and bytes it
  counts are those of the calls that hold them, within the limits it was created with; the
  pool's bytes are the outstanding permits; no subtraction underflows; and a saved transfer is
  never running twice. (The memory limit must be below the largest 64-bit integer, where the
  saturating test of the wait loop can no longer see an excess.)\<close>

theorem scheduler_accounting_is_exact:
  assumes "scheduler_new workers memory_bytes = Ok s0" "memory_bytes \<noteq> - 1"
  shows "let s = foldl sched_step s0 ops in
    sc_used_workers s = length (collect counted s) \<and> sc_used_workers s \<le> workers
    \<and> unat (sc_used_memory s) = byte_sum (collect counted s) \<and> unat (sc_used_memory s) \<le> unat memory_bytes
    \<and> unat (mem_used (sc_pool s)) = byte_sum (collect permits s)
    \<and> unat (mem_used (sc_pool s)) \<le> unat memory_bytes
    \<and> distinct (collect running s) \<and> sc_active_resumes s = set (collect running s)"
proof -
  have "unat memory_bytes \<noteq> 2 ^ 64 - 1" using assms(2) by (simp add: word_unat_eq_iff unat_max_word)
  then have "unat memory_bytes < 2 ^ 64 - 1" using unat_less_2p [of memory_bytes] by simp
  then have "sched_inv workers (unat memory_bytes) (foldl sched_step s0 ops)"
    using sched.foldl_inv [of workers "unat memory_bytes" s0 ops] inv_new [OF assms(1)] by simp
  then show ?thesis by (simp add: sched_inv_def Let_def)
qed

lemmas sched_eval = scheduler_new_def memory_new_def admit_start_def resume_active_def turn_task_def
  admit_turn_def admit_reserve_def admit_confirm_def reserve_turn_def drop_task_def admission_drop_def
  release_permit_def permit_drop_def uncount_def set_task_def reconfigure_limits_def Let_def
  checked_add_def saturating_add_def RUNTIME_ALLOWANCE_BYTES_def

text \<open>Two saved transfers, one of them resumed twice, share two workers.\<close>

definition example_ops :: "sched_op list" where
  "example_ops = [Admit 10 (Some (lit ''a'')), Turn 0 False, Turn 0 False, Turn 0 False,
     Admit 5 (Some (lit ''a'')), Admit 5 (Some (lit ''b'')), Turn 2 False, Turn 2 False, Turn 2 False]"

theorem scheduler_accounting_is_exact_witness:
  "\<exists>s0. scheduler_new 2 10000000 = Ok s0
     \<and> sc_used_workers (foldl sched_step s0 example_ops) = 2
     \<and> distinct (collect running (foldl sched_step s0 example_ops))
     \<and> unat (sc_used_memory (foldl sched_step s0 example_ops)) \<le> 10000000"
proof -
  obtain s0 where s0: "scheduler_new 2 10000000 = Ok s0"
    by (simp add: scheduler_new_def RUNTIME_ALLOWANCE_BYTES_def)
  moreover have "(10000000 :: u64) \<noteq> - 1" by simp
  ultimately have ex: "distinct (collect running (foldl sched_step s0 example_ops))"
    "unat (sc_used_memory (foldl sched_step s0 example_ops)) \<le> 10000000"
    using scheduler_accounting_is_exact [of 2 10000000 s0 example_ops] by (simp_all add: Let_def)
  have "(case scheduler_new 2 10000000 of Inl _ \<Rightarrow> False
      | Inr s \<Rightarrow> sc_used_workers (foldl sched_step s example_ops) = 2)"
    by (simp add: sched_eval example_ops_def)
  then show ?thesis using s0 ex by auto
qed

section \<open>Lowered limits and waiting calls\<close>

text \<open>A call waits for more than the limit allows.\<close>

definition stuck :: "nat \<Rightarrow> sched \<Rightarrow> bool" where
  "stuck i s \<longleftrightarrow>
     (i < length (sc_tasks s) \<and>
      (case sc_tasks s ! i of AdmitWaiting r d \<Rightarrow> sc_memory_bytes s < r | _ \<Rightarrow> False))"

definition cancelled_task :: "nat \<Rightarrow> sched \<Rightarrow> bool" where
  "cancelled_task i s \<longleftrightarrow> (i < length (sc_tasks s) \<and> sc_tasks s ! i = Failed SchedCancelled)"

definition starved :: "nat \<Rightarrow> sched \<Rightarrow> bool" where
  "starved i s \<longleftrightarrow> stuck i s \<or> cancelled_task i s"

lemma le_saturating_add: "r \<le> saturating_add u (r :: u64)"
  using unat_less_2p [of r] by (simp add: word_le_nat_alt unat_saturating_add)

lemma starved_cong:
  assumes "starved i s" "sc_memory_bytes s' \<le> sc_memory_bytes s" "i < length (sc_tasks s')"
    "sc_tasks s' ! i = sc_tasks s ! i"
  shows "starved i s'"
  using assms by (auto simp: starved_def stuck_def cancelled_task_def split: task.splits)

lemma starved_set_task: "starved i s \<Longrightarrow> j \<noteq> i \<Longrightarrow> sc_memory_bytes s' = sc_memory_bytes s \<Longrightarrow>
    sc_tasks s' = sc_tasks s \<Longrightarrow> starved i (set_task j t s')"
  by (rule starved_cong [of i s]) (auto simp: set_task_def starved_def stuck_def cancelled_task_def)

lemma starved_turn: "starved i s \<Longrightarrow> starved i (turn_task j c s)"
proof (cases "j = i")
  case True
  assume "starved i s"
  then consider r d where "i < length (sc_tasks s)" "sc_tasks s ! i = AdmitWaiting r d" "sc_memory_bytes s < r"
    | "i < length (sc_tasks s)" "sc_tasks s ! i = Failed SchedCancelled"
    by (auto simp: starved_def stuck_def cancelled_task_def split: task.splits)
  then show ?thesis
  proof cases
    case 1
    have "sc_memory_bytes s < saturating_add (sc_used_memory s) r"
      using 1(3) le_saturating_add [of r "sc_used_memory s"] by (rule less_le_trans)
    then have "turn_task j c s = (if c then set_task i (Failed SchedCancelled) s else s)"
      using 1 True by (simp add: turn_task_def admit_turn_def)
    then show ?thesis using 1 by (auto simp: starved_def stuck_def cancelled_task_def set_task_def)
  next
    case 2
    then show ?thesis using True by (simp add: turn_task_def starved_def cancelled_task_def)
  qed
next
  case False
  assume "starved i s"
  then show ?thesis using False
    by (auto simp: turn_task_def admit_turn_def admit_reserve_def admit_confirm_def starved_set_task
        split: task.split sum.split option.split memory_error.split)
qed

lemma starved_drop: "starved i s \<Longrightarrow> starved i (drop_task j s)"
proof (cases "j = i")
  case True
  assume "starved i s"
  then show ?thesis using True
    by (auto simp: drop_task_def starved_def stuck_def cancelled_task_def split: task.splits)
next
  case False
  assume "starved i s"
  then show ?thesis using False
    by (auto simp: drop_task_def admission_drop_def release_permit_def starved_set_task split: task.split)
qed

lemma starved_length: "starved i s \<Longrightarrow> i < length (sc_tasks s)"
  by (auto simp: starved_def stuck_def cancelled_task_def)

lemma starved_step: "starved i s \<Longrightarrow> starved i (sched_step s op)"
proof (cases op)
  case (Reconfigure w m)
  assume s: "starved i s"
  show ?thesis
  proof (cases "reconfigure_limits w m s")
    case (Inl e)
    then show ?thesis using Reconfigure s by simp
  next
    case (Inr r)
    obtain b s' where r: "r = (b, s')" by (cases r)
    have "sc_memory_bytes s' \<le> sc_memory_bytes s \<and> sc_tasks s' = sc_tasks s"
      using Inr r by (auto simp: reconfigure_limits_def Let_def not_less split: if_splits)
    then show ?thesis using starved_cong [OF s] starved_length [OF s] Reconfigure Inr r by simp
  qed
next
  case (Admit b d)
  assume s: "starved i s"
  then show ?thesis using Admit starved_length [OF s] by (auto intro: starved_cong simp: nth_append)
next
  case (Service n)
  assume s: "starved i s"
  then show ?thesis using Service starved_length [OF s]
    by (auto intro: starved_cong simp: nth_append try_reserve_service_memory_def split: sum.split)
qed (simp_all add: starved_turn starved_drop)

text \<open>Lowering the memory limit below what a waiting call needs leaves that call waiting for
  ever: limits can only be lowered further, so under every later sequence of operations it is
  never admitted and never refused; only its own cancellation ends the wait. (A call that
  arrives after the change is refused at once.)\<close>

theorem lowered_limit_starves_waiting_call:
  assumes "stuck i s"
  shows "stuck i (foldl sched_step s ops) \<or> cancelled_task i (foldl sched_step s ops)"
proof -
  have "starved i s \<Longrightarrow> starved i (foldl sched_step s ops)"
    by (induction ops arbitrary: s) (simp_all add: starved_step)
  then show ?thesis using assms by (simp add: starved_def)
qed

text \<open>One worker is taken, a second call waits for it, and the limit drops below its need.\<close>

definition lowered_ops :: "sched_op list" where
  "lowered_ops = [Admit 10 None, Turn 0 False, Turn 0 False, Turn 0 False, Admit 1000000 None,
     Reconfigure 1 5000000, DropTask 0, DropTask 0]"

theorem lowered_limit_starves_waiting_call_witness:
  "case scheduler_new 1 10000000 of
     Inl _ \<Rightarrow> False
   | Inr s0 \<Rightarrow>
       (let s = foldl sched_step s0 lowered_ops in
        sc_used_workers s = 0 \<and> stuck 1 s
        \<and> (stuck 1 (sched_step s (Turn 1 False)) \<or> cancelled_task 1 (sched_step s (Turn 1 False))))"
proof -
  obtain s0 where s0: "scheduler_new 1 10000000 = Ok s0"
    by (simp add: scheduler_new_def RUNTIME_ALLOWANCE_BYTES_def)
  have "(case scheduler_new 1 10000000 of Inl _ \<Rightarrow> False
      | Inr s \<Rightarrow> sc_used_workers (foldl sched_step s lowered_ops) = 0 \<and> stuck 1 (foldl sched_step s lowered_ops))"
    by (simp add: sched_eval lowered_ops_def stuck_def)
  then have "sc_used_workers (foldl sched_step s0 lowered_ops) = 0" "stuck 1 (foldl sched_step s0 lowered_ops)"
    using s0 by simp_all
  then show ?thesis
    using s0 lowered_limit_starves_waiting_call [of 1 "foldl sched_step s0 lowered_ops" "[Turn 1 False]"]
    by (simp add: Let_def)
qed

end
