(* ===== verification/Managed_Job.thy ===== *)
theory Managed_Job
  imports Scheduler
begin

text \<open>
  The non-blocking facade a host polls, \<open>crates/client-core/src/managed.rs\<close>, with the outcome of a
  worker (\<open>Job\<close> in \<open>lib.rs\<close>) and the error categories. What the worker's channels yield during a
  call is the argument of \<open>snapshot\<close>, so every race between host and worker is covered. A reply
  channel that the facade lets go unanswered is recorded as dropped: the worker then fails with
  \<open>Secret input was closed\<close>. Shown: answers reach a prompt only in the form its kind allows,
  finished jobs stay finished, and what an answer of the wrong kind does.
\<close>

section \<open>Data\<close>

datatype job_state = Running | Pausing | Paused | CompleteState | FailedState

datatype job_error_kind =
    KCancelled | KResourceExhausted | KInvalidInput | KNetwork | KRemote | KStorage | KCrypto | KInternal

fun job_error_kind_name :: "job_error_kind \<Rightarrow> string" where
  "job_error_kind_name KCancelled = ''cancelled''"
| "job_error_kind_name KResourceExhausted = ''resource-exhausted''"
| "job_error_kind_name KInvalidInput = ''invalid-input''"
| "job_error_kind_name KNetwork = ''network''"
| "job_error_kind_name KRemote = ''remote''"
| "job_error_kind_name KStorage = ''storage''"
| "job_error_kind_name KCrypto = ''crypto''"
| "job_error_kind_name KInternal = ''internal''"

text \<open>An \<open>anyhow::Error\<close> as far as the code looks into it: whether it can be downcast to
  \<open>JobError\<close> (with that error's kind), \<open>MemoryExhausted\<close> and \<open>Cancelled\<close>, its outermost message
  (\<open>to_string\<close>) and the message with its chain of causes (\<open>{error:#}\<close>).\<close>

record any_error =
  ae_job :: "job_error_kind option"
  ae_memory_exhausted :: bool
  ae_cancelled :: bool
  ae_message :: rstr
  ae_chain :: rstr

definition plain_error :: "rstr \<Rightarrow> any_error" where
  "plain_error m = \<lparr>ae_job = None, ae_memory_exhausted = False, ae_cancelled = False, ae_message = m, ae_chain = m\<rparr>"

text \<open>\<open>JobError::resource\<close> and \<open>Cancelled\<close>, converted to \<open>anyhow::Error\<close>.\<close>

definition job_error_resource :: "rstr \<Rightarrow> any_error" where
  "job_error_resource m = (plain_error m)\<lparr>ae_job := Some KResourceExhausted\<rparr>"

definition cancelled_error :: any_error where
  "cancelled_error = (plain_error (lit ''Transfer cancelled''))\<lparr>ae_cancelled := True\<rparr>"

definition error_kind :: "any_error \<Rightarrow> job_error_kind" where
  "error_kind e =
     (case ae_job e of
        Some k \<Rightarrow> k
      | None \<Rightarrow>
          if ae_memory_exhausted e then KResourceExhausted
          else
            let message = to_ascii_lowercase (ae_message e); has = (\<lambda>w. contains message (lit w)) in
            if has ''scheduler'' \<or> has ''shared scheduler'' then KResourceExhausted
            else if has ''invalid'' \<or> has ''must '' \<or> has ''provide '' then KInvalidInput
            else if has ''network'' \<or> has ''connection'' \<or> has ''timeout'' then KNetwork
            else if has ''server returned'' \<or> has ''http status'' then KRemote
            else if has ''checkpoint'' \<or> has ''read '' \<or> has ''write '' then KStorage
            else if has ''decrypt'' \<or> has ''encrypt'' \<or> has ''key'' then KCrypto
            else KInternal)"

datatype prompt_type = PTShareKey | PTPassword | PTPeerConsent | PTDirectory | PTShareReady

datatype secret_retry_kind = RetryShareKey | RetryPassword | RetryGeneric

record directory_prompt =
  dp_files :: nat
  dp_bytes :: u64
  dp_maximum_files :: "nat option"

record pending_prompt =
  pp_id :: u64
  pp_kind :: prompt_type
  pp_peer :: "rstr option"
  pp_directory :: "directory_prompt option"

record job_snapshot =
  js_state :: job_state
  js_checkpoint_id :: "rstr option"
  js_progress :: progress
  js_prompt :: "pending_prompt option"
  js_share_url :: "rstr option"
  js_results :: "rstr list"
  js_error :: "rstr option"
  js_error_kind :: "job_error_kind option"
  js_peer_warning :: "rstr option"
  js_secret_retry :: "secret_retry_kind option"

text \<open>A prompt with the identity of its reply channel.\<close>

record prompt =
  pr_kind :: prompt_kind
  pr_channel :: nat

record managed_job =
  mj_snapshot :: job_snapshot
  mj_reply :: "prompt option"
  mj_next_prompt :: u64
  mj_last_secret_kind :: "secret_retry_kind option"
  mj_cancelled :: bool
  mj_sent :: "(prompt \<times> rstr) list"
  mj_dropped :: "prompt list"

text \<open>What the worker's side yields during one \<open>snapshot\<close>: the sampled progress and checkpoint, the
  drained events, a prompt, the result of \<open>poll\<close>, and the second samples after it.\<close>

record observed =
  ob_progress :: progress
  ob_checkpoint :: "rstr option"
  ob_events :: "transfer_event list"
  ob_prompt :: "prompt option"
  ob_result :: "(rstr list, any_error) result option"
  ob_progress_after :: progress
  ob_checkpoint_after :: "rstr option"
  ob_events_after :: "transfer_event list"

section \<open>The worker's outcome\<close>

text \<open>The closure of \<open>Job::spawn_in_with_ice_override\<close>: the admission's result, the run, and the
  cancellation flag read after it.\<close>

definition worker_outcome ::
  "(unit, any_error) result \<Rightarrow> (rstr list, any_error) result \<Rightarrow> bool \<Rightarrow> (rstr list, any_error) result" where
  "worker_outcome admission run cancelled =
     (let outcome = and_then admission (\<lambda>_. run) in
      if cancelled \<and> \<not> is_ok outcome then Err cancelled_error else outcome)"

datatype try_recv = Received "(rstr list, any_error) result" | Empty | DisconnectedResult

definition job_poll :: "try_recv \<Rightarrow> (rstr list, any_error) result option" where
  "job_poll r =
     (case r of
        Received v \<Rightarrow> Some v
      | Empty \<Rightarrow> None
      | DisconnectedResult \<Rightarrow> Some (Err (plain_error (lit ''Transfer worker stopped unexpectedly''))))"

section \<open>Operations\<close>

definition managed_new :: managed_job where
  "managed_new =
     \<lparr>mj_snapshot =
        \<lparr>js_state = Running, js_checkpoint_id = None, js_progress = progress_default, js_prompt = None,
         js_share_url = None, js_results = [], js_error = None, js_error_kind = None,
         js_peer_warning = None, js_secret_retry = None\<rparr>,
      mj_reply = None, mj_next_prompt = 1, mj_last_secret_kind = None, mj_cancelled = False,
      mj_sent = [], mj_dropped = []\<rparr>"

definition edit_snapshot :: "(job_snapshot \<Rightarrow> job_snapshot) \<Rightarrow> managed_job \<Rightarrow> managed_job" where
  "edit_snapshot f m = m\<lparr>mj_snapshot := f (mj_snapshot m)\<rparr>"

fun apply_event :: "transfer_event \<Rightarrow> job_snapshot \<Rightarrow> job_snapshot" where
  "apply_event (ShareReadyEvent url) s = s\<lparr>js_share_url := Some url\<rparr>"
| "apply_event (PeerFailedEvent message) s = s\<lparr>js_peer_warning := Some message\<rparr>"
| "apply_event (PeerConsentEvent _) s = s"

definition drain_events :: "transfer_event list \<Rightarrow> managed_job \<Rightarrow> managed_job" where
  "drain_events events m = edit_snapshot (fold apply_event events) m"

fun describe_prompt :: "prompt_kind \<Rightarrow> prompt_type \<times> rstr option \<times> directory_prompt option" where
  "describe_prompt (SecretPrompt ShareKey) = (PTShareKey, None, None)"
| "describe_prompt (SecretPrompt Password) = (PTPassword, None, None)"
| "describe_prompt (PeerConsentPrompt peer) = (PTPeerConsent, Some peer, None)"
| "describe_prompt (DirectoryPrompt files n maximum) =
     (PTDirectory, None, Some \<lparr>dp_files = files, dp_bytes = n, dp_maximum_files = maximum\<rparr>)"
| "describe_prompt ShareReadyPrompt = (PTShareReady, None, None)"

text \<open>Letting the reply go: assigning \<open>None\<close> drops the sender of the channel.\<close>

definition drop_reply :: "managed_job \<Rightarrow> managed_job" where
  "drop_reply m = m\<lparr>mj_reply := None, mj_dropped := mj_dropped m @ (case mj_reply m of None \<Rightarrow> [] | Some p \<Rightarrow> [p])\<rparr>"

definition take_prompt :: "prompt option \<Rightarrow> managed_job \<Rightarrow> managed_job" where
  "take_prompt received m =
     (if mj_reply m = None \<and> js_state (mj_snapshot m) = Running then
        (case received of
           None \<Rightarrow> m
         | Some p \<Rightarrow>
             (case describe_prompt (pr_kind p) of (kind, peer, directory) \<Rightarrow>
                edit_snapshot (\<lambda>s. s\<lparr>js_prompt := Some \<lparr>pp_id = mj_next_prompt m, pp_kind = kind,
                                       pp_peer = peer, pp_directory = directory\<rparr>\<rparr>)
                  (m\<lparr>mj_next_prompt := mj_next_prompt m + 1, mj_reply := Some p\<rparr>)))
      else m)"

definition finish_job :: "(rstr list, any_error) result \<Rightarrow> managed_job \<Rightarrow> managed_job" where
  "finish_job r m =
     edit_snapshot (\<lambda>s.
       case r of
         Inr results \<Rightarrow> s\<lparr>js_state := CompleteState, js_results := results\<rparr>
       | Inl e \<Rightarrow>
           if ae_cancelled e then s\<lparr>js_state := Paused, js_error_kind := Some KCancelled\<rparr>
           else
             s\<lparr>js_state := FailedState, js_error_kind := Some (error_kind e), js_error := Some (ae_chain e),
               js_secret_retry :=
                 (if error_kind e = KCrypto
                  then Some (case mj_last_secret_kind m of None \<Rightarrow> RetryGeneric | Some k \<Rightarrow> k)
                  else js_secret_retry s)\<rparr>) m"

definition snapshot :: "observed \<Rightarrow> managed_job \<Rightarrow> managed_job" where
  "snapshot ob m =
     (if js_state (mj_snapshot m) \<in> {Running, Pausing} then
        let m1 = edit_snapshot (\<lambda>s. s\<lparr>js_progress := ob_progress ob, js_checkpoint_id := ob_checkpoint ob\<rparr>) m;
            m2 = take_prompt (ob_prompt ob) (drain_events (ob_events ob) m1)
        in case ob_result ob of
             None \<Rightarrow> m2
           | Some r \<Rightarrow>
               let m3 = edit_snapshot (\<lambda>s. s\<lparr>js_progress := ob_progress_after ob,
                                           js_checkpoint_id := ob_checkpoint_after ob\<rparr>) m2;
                   m4 = edit_snapshot (\<lambda>s. s\<lparr>js_prompt := None\<rparr>) (drop_reply m3)
               in finish_job r (drain_events (ob_events_after ob) m4)
      else m)"

definition prompt_current :: "u64 \<Rightarrow> managed_job \<Rightarrow> bool" where
  "prompt_current i m \<longleftrightarrow> map_option pp_id (js_prompt (mj_snapshot m)) = Some i"

text \<open>Sending the answer: the reply is taken either way; \<open>alive\<close> is whether the worker still
  listens.\<close>

definition send_reply :: "prompt \<Rightarrow> rstr \<Rightarrow> bool \<Rightarrow> managed_job \<Rightarrow> (unit, string) result \<times> managed_job" where
  "send_reply p v alive m =
     (if alive then (Ok (), m\<lparr>mj_reply := None, mj_sent := mj_sent m @ [(p, v)]\<rparr>)
      else (Err ''Transfer prompt is closed'', m\<lparr>mj_reply := None\<rparr>))"

definition respond :: "u64 \<Rightarrow> rstr \<Rightarrow> bool \<Rightarrow> managed_job \<Rightarrow> (unit, string) result \<times> managed_job" where
  "respond i v alive m =
     (if \<not> prompt_current i m then (Err ''This transfer prompt is no longer active'', m)
      else case mj_reply m of
             None \<Rightarrow> (Err ''Transfer prompt is closed'', m)
           | Some p \<Rightarrow>
               (case pr_kind p of
                  DirectoryPrompt _ _ _ \<Rightarrow>
                    (Err ''Directory prompts require an explicit ZIP or individual-files choice'', m)
                | PeerConsentPrompt _ \<Rightarrow>
                    (Err ''Directory prompts require an explicit ZIP or individual-files choice'', m)
                | kind \<Rightarrow>
                    send_reply p v alive
                      (edit_snapshot (\<lambda>s. s\<lparr>js_prompt := None\<rparr>)
                        (m\<lparr>mj_last_secret_kind :=
                           (case kind of SecretPrompt ShareKey \<Rightarrow> Some RetryShareKey
                            | SecretPrompt Password \<Rightarrow> Some RetryPassword | _ \<Rightarrow> None)\<rparr>))))"

text \<open>\<open>self.reply.take()\<close> comes first: an answer of the wrong kind drops the channel.\<close>

definition respond_directory :: "u64 \<Rightarrow> bool \<Rightarrow> bool \<Rightarrow> managed_job \<Rightarrow> (unit, string) result \<times> managed_job" where
  "respond_directory i as_zip alive m =
     (if \<not> prompt_current i m then (Err ''This transfer prompt is no longer active'', m)
      else case mj_reply m of
             None \<Rightarrow> (Err ''Transfer prompt is closed'', m)
           | Some p \<Rightarrow>
               (case pr_kind p of
                  DirectoryPrompt _ _ _ \<Rightarrow>
                    send_reply p (if as_zip then lit ''zip'' else lit ''individual'') alive
                      (edit_snapshot (\<lambda>s. s\<lparr>js_prompt := None\<rparr>) (m\<lparr>mj_last_secret_kind := None\<rparr>))
                | _ \<Rightarrow> (Err ''This transfer prompt does not accept a directory choice'', drop_reply m)))"

definition respond_consent :: "u64 \<Rightarrow> bool \<Rightarrow> bool \<Rightarrow> managed_job \<Rightarrow> (unit, string) result \<times> managed_job" where
  "respond_consent i allowed alive m =
     (if \<not> prompt_current i m then (Err ''This transfer prompt is no longer active'', m)
      else case mj_reply m of
             None \<Rightarrow> (Err ''Transfer prompt is closed'', m)
           | Some p \<Rightarrow>
               (case pr_kind p of
                  PeerConsentPrompt _ \<Rightarrow>
                    send_reply p (if allowed then lit ''allow'' else lit ''deny'') alive
                      (edit_snapshot (\<lambda>s. s\<lparr>js_prompt := None\<rparr>) m)
                | _ \<Rightarrow> (Err ''This transfer prompt does not accept peer consent'', drop_reply m)))"

definition pause :: "managed_job \<Rightarrow> managed_job" where
  "pause m =
     (if js_state (mj_snapshot m) = Running
      then drop_reply (edit_snapshot (\<lambda>s. s\<lparr>js_state := Pausing, js_prompt := None\<rparr>) (m\<lparr>mj_cancelled := True\<rparr>))
      else m)"

fun phase_name :: "phase \<Rightarrow> string" where
  "phase_name Connecting = ''connecting''"
| "phase_name Preparing = ''preparing''"
| "phase_name Archiving = ''archiving''"
| "phase_name Encrypting = ''encrypting''"
| "phase_name Sending = ''sending''"
| "phase_name ReceivingPhase = ''receiving''"
| "phase_name Verifying = ''verifying''"
| "phase_name FinalizingPhase = ''finalizing''"
| "phase_name Waiting = ''waiting''"
| "phase_name Unlocking = ''unlocking''"
| "phase_name Updating = ''updating''"
| "phase_name Retrying = ''retrying''"
| "phase_name Reconnecting = ''reconnecting''"
| "phase_name Storing = ''storing''"

datatype job_op =
    Snapshot observed
  | Respond u64 rstr bool
  | RespondDirectory u64 bool bool
  | RespondConsent u64 bool bool
  | Pause

fun job_step :: "managed_job \<Rightarrow> job_op \<Rightarrow> managed_job" where
  "job_step m (Snapshot ob) = snapshot ob m"
| "job_step m (Respond i v alive) = snd (respond i v alive m)"
| "job_step m (RespondDirectory i as_zip alive) = snd (respond_directory i as_zip alive m)"
| "job_step m (RespondConsent i allowed alive) = snd (respond_consent i allowed alive m)"
| "job_step m Pause = pause m"

section \<open>Answers fit their prompts\<close>

fun answer_fits :: "prompt_kind \<Rightarrow> rstr \<Rightarrow> bool" where
  "answer_fits (PeerConsentPrompt _) v \<longleftrightarrow> v = lit ''allow'' \<or> v = lit ''deny''"
| "answer_fits (DirectoryPrompt _ _ _) v \<longleftrightarrow> v = lit ''zip'' \<or> v = lit ''individual''"
| "answer_fits _ v \<longleftrightarrow> True"

definition replies_fit :: "managed_job \<Rightarrow> bool" where
  "replies_fit m \<longleftrightarrow> list_all (\<lambda>(p, v). answer_fits (pr_kind p) v) (mj_sent m)"

lemma sent_simps [simp]:
  "mj_sent (edit_snapshot f m) = mj_sent m" "mj_sent (drain_events es m) = mj_sent m"
  "mj_sent (drop_reply m) = mj_sent m" "mj_sent (take_prompt p m) = mj_sent m"
  "mj_sent (finish_job r m) = mj_sent m" "mj_sent (pause m) = mj_sent m"
  by (simp_all add: edit_snapshot_def drain_events_def drop_reply_def take_prompt_def finish_job_def
      pause_def split: option.split prod.split)

lemma sent_snapshot [simp]: "mj_sent (snapshot ob m) = mj_sent m"
  by (simp add: snapshot_def Let_def split: option.split)

lemma sent_send_reply:
  "mj_sent (snd (send_reply p v alive m)) = mj_sent m @ (if alive then [(p, v)] else [])"
  by (simp add: send_reply_def)

lemma replies_fit_step: "replies_fit m \<Longrightarrow> replies_fit (job_step m op)"
  by (cases op)
     (auto simp: replies_fit_def respond_def respond_directory_def respond_consent_def sent_send_reply
       split: option.split prompt_kind.split secret_kind.split)

interpretation job: guarded_machine replies_fit job_step
  by unfold_locales (rule replies_fit_step)

text \<open>Whatever the host calls and whatever the worker does, a peer-consent prompt is only ever
  answered \<open>allow\<close> or \<open>deny\<close> and a directory prompt only \<open>zip\<close> or \<open>individual\<close>: free text cannot
  answer them. With the worker's reading of the answer, a peer is admitted exactly by an explicit
  \<open>allow\<close>.\<close>

theorem replies_fit_their_prompts:
  "list_all (\<lambda>(p, v). answer_fits (pr_kind p) v) (mj_sent (foldl job_step managed_new ops))
   \<and> consent_given (lit ''allow'') \<and> \<not> consent_given (lit ''deny'')"
proof -
  have "replies_fit managed_new" by (simp add: replies_fit_def managed_new_def)
  then have "replies_fit (foldl job_step managed_new ops)" by (rule job.foldl_inv)
  moreover have "consent_given (lit ''allow'')" "\<not> consent_given (lit ''deny'')"
    by (simp_all add: consent_given_def trim_def trim_matches_def trim_start_matches_def
        trim_end_matches_def is_whitespace_def to_ascii_lowercase_def ascii_upper_def)
  ultimately show ?thesis by (simp add: replies_fit_def)
qed

section \<open>Finished jobs stay finished\<close>

definition finished :: "managed_job \<Rightarrow> bool" where
  "finished m \<longleftrightarrow> js_state (mj_snapshot m) \<in> {Paused, CompleteState, FailedState}"

text \<open>What a finished job must keep: no prompt and no reply are left.\<close>

definition settled :: "managed_job \<Rightarrow> bool" where
  "settled m \<longleftrightarrow> (finished m \<or> js_state (mj_snapshot m) = Pausing \<longrightarrow> js_prompt (mj_snapshot m) = None \<and> mj_reply m = None)"

lemma state_take_prompt [simp]: "js_state (mj_snapshot (take_prompt p m)) = js_state (mj_snapshot m)"
  by (simp add: take_prompt_def edit_snapshot_def split: option.split prod.split)

lemma fold_apply_event [simp]:
  "js_state (fold apply_event es s) = js_state s" "js_prompt (fold apply_event es s) = js_prompt s"
proof (induction es arbitrary: s)
  case (Cons e es)
  { case 1 then show ?case using Cons by (cases e) simp_all }
  { case 2 then show ?case using Cons by (cases e) simp_all }
qed simp_all

lemma finish_job_simps:
  "js_prompt (mj_snapshot (finish_job r m)) = js_prompt (mj_snapshot m)"
  "mj_reply (finish_job r m) = mj_reply m"
  "finished (finish_job r m)"
  by (simp_all add: finish_job_def edit_snapshot_def finished_def split: sum.split)

lemma settled_snapshot: "settled m \<Longrightarrow> settled (snapshot ob m)"
proof (cases "ob_result ob")
  case None
  assume "settled m"
  then show ?thesis using None
    by (auto simp: settled_def finished_def snapshot_def Let_def edit_snapshot_def drain_events_def
        take_prompt_def split: option.split prod.split)
next
  case (Some r)
  assume "settled m"
  then show ?thesis using Some
    by (auto simp: settled_def snapshot_def Let_def finish_job_simps)
       (simp_all add: drain_events_def edit_snapshot_def drop_reply_def)
qed

lemma send_reply_simps:
  "mj_snapshot (snd (send_reply p v alive m)) = mj_snapshot m" "mj_reply (snd (send_reply p v alive m)) = None"
  by (simp_all add: send_reply_def)

lemma edit_drop_simps [simp]:
  "mj_snapshot (edit_snapshot f m) = f (mj_snapshot m)" "mj_reply (edit_snapshot f m) = mj_reply m"
  "mj_snapshot (drop_reply m) = mj_snapshot m" "mj_reply (drop_reply m) = None"
  by (simp_all add: edit_snapshot_def drop_reply_def)

lemma settled_cleared: "js_prompt (mj_snapshot m) = None \<Longrightarrow> mj_reply m = None \<Longrightarrow> settled m"
  by (simp add: settled_def)

lemma settled_drop: "settled m \<Longrightarrow> settled (drop_reply m)"
  by (simp add: settled_def finished_def)

lemma settled_send_reply: "js_prompt (mj_snapshot m) = None \<Longrightarrow> settled (snd (send_reply p v alive m))"
  by (rule settled_cleared) (simp_all add: send_reply_simps)

lemma settled_respond: "settled m \<Longrightarrow> settled (snd (respond i v alive m))"
  by (simp add: respond_def settled_send_reply split: option.split prompt_kind.split)

lemma settled_respond_directory: "settled m \<Longrightarrow> settled (snd (respond_directory i as_zip alive m))"
  by (simp add: respond_directory_def settled_send_reply settled_drop split: option.split prompt_kind.split)

lemma settled_respond_consent: "settled m \<Longrightarrow> settled (snd (respond_consent i allowed alive m))"
  by (simp add: respond_consent_def settled_send_reply settled_drop split: option.split prompt_kind.split)

lemma settled_pause: "settled m \<Longrightarrow> settled (pause m)"
  by (simp add: pause_def settled_cleared)

lemma settled_step: "settled m \<Longrightarrow> settled (job_step m op)"
  by (cases op)
     (simp_all add: settled_snapshot settled_respond settled_respond_directory settled_respond_consent settled_pause)

interpretation settled: guarded_machine settled job_step
  by unfold_locales (rule settled_step)

lemma finished_step: "settled m \<Longrightarrow> finished m \<Longrightarrow> mj_snapshot (job_step m op) = mj_snapshot m"
  by (cases op)
     (auto simp: settled_def finished_def snapshot_def pause_def respond_def respond_directory_def
       respond_consent_def prompt_current_def)

text \<open>A job that has completed, failed or paused is final: after any history, whatever is called
  next, its snapshot stays the same, no prompt is shown and no reply channel is held.\<close>

theorem finished_job_is_final:
  "let m = foldl job_step managed_new earlier in
   if finished m
   then mj_snapshot (foldl job_step m later) = mj_snapshot m \<and> js_prompt (mj_snapshot m) = None
        \<and> mj_reply m = None
   else True"
proof -
  define m where "m = foldl job_step managed_new earlier"
  have "settled managed_new" by (simp add: settled_def finished_def managed_new_def)
  then have m: "settled m" unfolding m_def by (rule settled.foldl_inv)
  have "settled m \<Longrightarrow> finished m \<Longrightarrow> mj_snapshot (foldl job_step m later) = mj_snapshot m" for m
  proof (induction later arbitrary: m)
    case (Cons op ops)
    have "mj_snapshot (job_step m op) = mj_snapshot m" using Cons.prems by (rule finished_step)
    moreover have "settled (job_step m op)" using Cons.prems(1) by (rule settled_step)
    moreover have "finished (job_step m op)" using Cons.prems(2) calculation(1) by (simp add: finished_def)
    ultimately show ?case using Cons.IH [of "job_step m op"] by simp
  qed simp
  with m show ?thesis by (simp add: m_def [symmetric] Let_def settled_def)
qed

section \<open>An answer of the wrong kind\<close>

text \<open>Answering a shown prompt with the call for another kind loses the prompt: the call fails,
  the reply channel is dropped unanswered although the prompt is still shown, and every later
  answer to it, of any kind, fails too. (\<open>respond\<close> checks the kind before it takes the reply.)\<close>

theorem wrong_kind_answer_strands_prompt:
  assumes "prompt_current i m" "mj_reply m = Some p" "pr_kind p = SecretPrompt k"
  shows "let m1 = snd (respond_directory i as_zip True m) in
    fst (respond_directory i as_zip True m) = Err ''This transfer prompt does not accept a directory choice''
    \<and> prompt_current i m1 \<and> mj_reply m1 = None \<and> mj_dropped m1 = mj_dropped m @ [p]
    \<and> fst (respond i v True m1) = Err ''Transfer prompt is closed''
    \<and> mj_sent (snd (respond i v True m1)) = mj_sent m"
  using assms
  by (simp add: respond_directory_def respond_def Let_def drop_reply_def prompt_current_def)

theorem wrong_kind_answer_strands_prompt_witness:
  "let m = snapshot \<lparr>ob_progress = progress_default, ob_checkpoint = None, ob_events = [],
             ob_prompt = Some \<lparr>pr_kind = SecretPrompt Password, pr_channel = 0\<rparr>, ob_result = None,
             ob_progress_after = progress_default, ob_checkpoint_after = None, ob_events_after = []\<rparr> managed_new;
       m1 = snd (respond_directory 1 True True m)
   in prompt_current 1 m1 \<and> fst (respond 1 (lit ''secret'') True m1) = Err ''Transfer prompt is closed''"
proof -
  define m where "m = snapshot \<lparr>ob_progress = progress_default, ob_checkpoint = None, ob_events = [],
             ob_prompt = Some \<lparr>pr_kind = SecretPrompt Password, pr_channel = 0\<rparr>, ob_result = None,
             ob_progress_after = progress_default, ob_checkpoint_after = None, ob_events_after = []\<rparr> managed_new"
  have "prompt_current 1 m" "mj_reply m = Some \<lparr>pr_kind = SecretPrompt Password, pr_channel = 0\<rparr>"
    by (simp_all add: m_def snapshot_def managed_new_def take_prompt_def drain_events_def edit_snapshot_def
        prompt_current_def Let_def)
  then show ?thesis
    using wrong_kind_answer_strands_prompt [of 1 m "\<lparr>pr_kind = SecretPrompt Password, pr_channel = 0\<rparr>" Password
        True "lit ''secret''"]
    by (simp add: Let_def m_def [symmetric])
qed

end
