(* ===== verification/Loopback.thy ===== *)
theory Loopback
  imports Channel Encryption
begin

text \<open>
  The on-device self test of \<open>crates/transfer-native/src/webrtc.rs\<close>, \<open>loopback_self_test\<close>, from the
  moment both data channels are open: the one place of the crate where encryption, the sending and
  the receiving end meet. The network between the two channels is an argument.
\<close>

text \<open>\<open>network\<close> turns what the sender sent into what the receiver polls, \<open>requests\<close> is what the
  sender polls. The result of the serving task is discarded, as in the code.\<close>

definition loopback_self_test ::
  "'v json_api \<Rightarrow> crypto \<Rightarrow> rng \<Rightarrow> poll list \<Rightarrow> (dc_message list \<Rightarrow> poll list) \<Rightarrow> (bool, string) result" where
  "loopback_self_test api cr getrandom requests network =
     and_then (generate_transfer_key getrandom) (\<lambda>key.
     and_then (generate_nonce_prefix getrandom) (\<lambda>pre.
     let plain = replicate (FRAME_PAYLOAD_BYTES + 17) 0x59 in
     and_then (encrypt_chunk cr key pre 0 plain (byte_lit ''native-self-test'')) (\<lambda>ciphertext.
     let sending = snd (serve_channel api [(lit ''probe'', 0) \<mapsto> ciphertext] requests open_chan) in
     and_then
       (fst (request_chunk api 1 (lit ''probe'') 0 (of_nat (length ciphertext)) (network (sent sending)) open_chan))
       (\<lambda>received.
     and_then (decrypt_chunk cr key pre 0 received (byte_lit ''native-self-test'')) (\<lambda>decrypted.
     Ok (decrypted = plain))))))"

text \<open>A chunk that was encrypted, stored, served and requested decrypts to its plaintext.\<close>

lemma encrypted_exchange_run:
  assumes "aead_correct cr" "encrypt_chunk cr key pre k plaintext ad = Ok cs"
    and "chunks (item_id, index) = Some cs"
    and "carried api (Request seq item_id index) treq"
    and "carried api (Chunk seq item_id index (of_nat (length cs))) tchunk"
    and "carried api (Ack seq) tack"
  shows "\<exists>sender. serve_channel api chunks
       [Event (OnMessage (text_message treq)), Event (OnMessage (text_message tack))] open_chan = (Ok (), sender)
     \<and> fst (request_chunk api seq item_id index (of_nat (length cs))
         (map (Event \<circ> OnMessage) (sent sender)) open_chan) = Ok cs
     \<and> decrypt_chunk cr key pre k cs ad = Ok plaintext"
proof -
  have e: "decrypt_chunk cr key pre k cs ad = Ok plaintext" "16 \<le> length cs" "length cs \<le> 25000000"
    using encrypted_chunk_decrypts [OF assms(1,2)] by simp_all
  show ?thesis using exchange_run [of chunks item_id index, OF assms(3) e(2,3) assms(4-6) refl] e(1) by (simp add: open_chan_def)
qed

text \<open>Over a network that delivers what is sent, in order, the self test passes.\<close>

lemma loopback_self_test_passes:
  assumes "aead_correct cr" "getrandom KEY_BYTES = Ok key" "getrandom NONCE_PREFIX_BYTES = Ok pre"
    and "encrypt_chunk cr key pre 0 (replicate (FRAME_PAYLOAD_BYTES + 17) 0x59) (byte_lit ''native-self-test'') = Ok cs"
    and "carried api (Request 1 (lit ''probe'') 0) treq"
    and "carried api (Chunk 1 (lit ''probe'') 0 (of_nat (length cs))) tchunk"
    and "carried api (Ack 1) tack"
  shows "loopback_self_test api cr getrandom
     [Event (OnMessage (text_message treq)), Event (OnMessage (text_message tack))] (map (Event \<circ> OnMessage)) = Ok True"
proof -
  have "[(lit ''probe'', 0 :: u64) \<mapsto> cs] (lit ''probe'', 0) = Some cs" by simp
  from encrypted_exchange_run [where chunks = "[(lit ''probe'', 0) \<mapsto> cs]" and item_id = "lit ''probe''" and index = 0, OF assms(1,4) this assms(5-7)] obtain sender where
    "serve_channel api [(lit ''probe'', 0) \<mapsto> cs]
       [Event (OnMessage (text_message treq)), Event (OnMessage (text_message tack))] open_chan = (Ok (), sender)"
    "fst (request_chunk api 1 (lit ''probe'') 0 (of_nat (length cs)) (map (Event \<circ> OnMessage) (sent sender)) open_chan) = Ok cs"
    "decrypt_chunk cr key pre 0 cs (byte_lit ''native-self-test'') = Ok (replicate (FRAME_PAYLOAD_BYTES + 17) 0x59)"
    by blast
  then show ?thesis using assms(2-4)
    by (simp only: loopback_self_test_def generate_transfer_key_def generate_nonce_prefix_def random_bytes_def
        Let_def and_then_simps snd_conv simp_thms)
qed

end
