(* ===== verification/Staging.thy ===== *)
theory Staging
  imports Transport
begin

text \<open>
  Staged uploads and progress accounting of \<open>crates/transfer/src/lib.rs\<close>: \<open>StageSession\<close>, which
  reconciles a client's view of a staged upload with untrusted server statuses, and
  \<open>TransferProgress\<close>. A method with \<open>&mut self\<close> that returns a \<open>Result\<close> becomes a function
  to a result of the answer and the new state: each of them checks before it writes, so an
  error leaves the state as it was. The lemmas show the session invariant, that progress never
  moves backwards between resets, and that recovery is bounded.
\<close>

section \<open>Stage sessions\<close>

definition MAX_STAGE_RETRIES :: u32 where "MAX_STAGE_RETRIES = 8"
definition MAX_STAGE_RESETS :: u32 where "MAX_STAGE_RESETS = 2"

datatype stage_state = Receiving | Finalizing | Complete

record stage_status =
  st_id :: rstr
  st_state :: stage_state
  st_offset :: u64
  st_ciphertext_bytes :: u64
  st_checksum :: rstr

datatype stage_action = Continue u64 | ActFinalizing | ActComplete

record stage_session =
  ss_id :: rstr
  ss_ciphertext_bytes :: u64
  ss_checksum :: rstr
  ss_offset :: u64
  ss_state :: stage_state
  ss_retries :: u32
  ss_resets :: u32
  ss_reprobe_allowed :: bool

fun stage_state_rank :: "stage_state \<Rightarrow> nat" where
  "stage_state_rank Receiving = 0"
| "stage_state_rank Finalizing = 1"
| "stage_state_rank Complete = 2"

definition session_new :: "rstr \<Rightarrow> u64 \<Rightarrow> rstr \<Rightarrow> (stage_session, string) result" where
  "session_new i n checksum =
     (if i = [] \<or> checksum = [] \<or> n = 0 \<or> MAX_CIPHERTEXT_BYTES < n
      then Err ''invalid stage identity''
      else Ok \<lparr>ss_id = i, ss_ciphertext_bytes = n, ss_checksum = checksum, ss_offset = 0,
               ss_state = Receiving, ss_retries = 0, ss_resets = 0, ss_reprobe_allowed = False\<rparr>)"

definition validate_status :: "stage_session \<Rightarrow> stage_status \<Rightarrow> (unit, string) result" where
  "validate_status s st =
     (if st_id st \<noteq> ss_id s \<or> st_ciphertext_bytes st \<noteq> ss_ciphertext_bytes s
         \<or> st_checksum st \<noteq> ss_checksum s
      then Err ''stage identity mismatch''
      else if ss_ciphertext_bytes s < st_offset st
              \<or> (st_state st \<noteq> Receiving \<and> st_offset st \<noteq> ss_ciphertext_bytes s)
        then Err ''invalid stage offset''
      else if st_offset st < ss_offset s then Err ''stage offset moved backwards''
      else if stage_state_rank (st_state st) < stage_state_rank (ss_state s)
        then Err ''stage state moved backwards''
      else Ok ())"

definition action_of :: "stage_status \<Rightarrow> stage_action" where
  "action_of st = (case st_state st of
     Receiving \<Rightarrow> Continue (st_offset st) | Finalizing \<Rightarrow> ActFinalizing | Complete \<Rightarrow> ActComplete)"

definition reconcile :: "stage_session \<Rightarrow> stage_status \<Rightarrow> (stage_action \<times> stage_session, string) result" where
  "reconcile s st =
     and_then (validate_status s st) (\<lambda>_.
       Ok (action_of st, s\<lparr>ss_offset := st_offset st, ss_state := st_state st\<rparr>))"

definition acknowledge_part ::
  "stage_session \<Rightarrow> u64 \<Rightarrow> u64 \<Rightarrow> stage_status \<Rightarrow> (stage_action \<times> stage_session, string) result" where
  "acknowledge_part s start n st =
     and_then (ok_or ''part offset overflow'' (checked_add start n)) (\<lambda>expected.
       if start \<noteq> ss_offset s \<or> n = 0 \<or> ss_ciphertext_bytes s < expected
       then Err ''invalid staged part range''
       else and_then (validate_status s st) (\<lambda>_.
         if st_offset st \<noteq> expected then Err ''stage did not acknowledge requested part''
         else Ok (action_of st,
                  s\<lparr>ss_offset := st_offset st, ss_state := st_state st, ss_retries := 0,
                    ss_reprobe_allowed := True\<rparr>)))"

definition record_retry :: "stage_session \<Rightarrow> (stage_session, string) result" where
  "record_retry s =
     (if MAX_STAGE_RETRIES \<le> ss_retries s then Err ''staged upload retry limit exceeded''
      else Ok (s\<lparr>ss_retries := ss_retries s + 1\<rparr>))"

definition stage_reset :: "stage_session \<Rightarrow> rstr \<Rightarrow> (stage_session, string) result" where
  "stage_reset s i =
     (if i = [] then Err ''invalid stage identity''
      else if MAX_STAGE_RESETS \<le> ss_resets s then Err ''staged upload reset limit exceeded''
      else Ok (s\<lparr>ss_resets := ss_resets s + 1, ss_id := i, ss_offset := 0, ss_state := Receiving,
                 ss_retries := 0, ss_reprobe_allowed := False\<rparr>))"

definition reprobe_after_recovery :: "stage_session \<Rightarrow> bool \<times> stage_session" where
  "reprobe_after_recovery s = (ss_reprobe_allowed s, s\<lparr>ss_reprobe_allowed := False\<rparr>)"

datatype stage_op =
    Reconcile stage_status | AckPart u64 u64 stage_status | RecordRetry | ResetStage rstr | Reprobe

text \<open>One call of the adapter: the answer is dropped, an error leaves the session alone.\<close>

fun stage_try :: "stage_session \<Rightarrow> stage_op \<Rightarrow> (stage_session, string) result" where
  "stage_try s (Reconcile st) = and_then (reconcile s st) (\<lambda>(_, s'). Ok s')"
| "stage_try s (AckPart start n st) = and_then (acknowledge_part s start n st) (\<lambda>(_, s'). Ok s')"
| "stage_try s RecordRetry = record_retry s"
| "stage_try s (ResetStage i) = stage_reset s i"
| "stage_try s Reprobe = Ok (snd (reprobe_after_recovery s))"

definition stage_step :: "stage_session \<Rightarrow> stage_op \<Rightarrow> stage_session" where
  "stage_step s op = (case stage_try s op of Inl _ \<Rightarrow> s | Inr s' \<Rightarrow> s')"

section \<open>Progress\<close>

record transfer_progress =
  tp_plaintext_total :: u64
  tp_ciphertext_total :: u64
  tp_completed :: u64
  tp_active :: u64

definition progress_new :: "u64 \<Rightarrow> u64 \<Rightarrow> (transfer_progress, string) result" where
  "progress_new plaintext ciphertext =
     (if ciphertext < plaintext then Err ''ciphertext total is smaller than plaintext total''
      else Ok \<lparr>tp_plaintext_total = plaintext, tp_ciphertext_total = ciphertext,
               tp_completed = 0, tp_active = 0\<rparr>)"

definition set_active :: "transfer_progress \<Rightarrow> u64 \<Rightarrow> (transfer_progress, string) result" where
  "set_active p n =
     (if saturating_sub (tp_ciphertext_total p) (tp_completed p) < n
      then Err ''active progress exceeds remaining bytes'' else Ok (p\<lparr>tp_active := n\<rparr>))"

definition progress_complete :: "transfer_progress \<Rightarrow> u64 \<Rightarrow> (transfer_progress, string) result" where
  "progress_complete p n =
     and_then (ok_or ''progress overflow'' (checked_add (tp_completed p) n)) (\<lambda>total.
       if tp_ciphertext_total p < total then Err ''completed progress exceeds total''
       else Ok (p\<lparr>tp_completed := total, tp_active := 0\<rparr>))"

datatype progress_op = SetActive u64 | CompleteBytes u64

fun progress_try :: "transfer_progress \<Rightarrow> progress_op \<Rightarrow> (transfer_progress, string) result" where
  "progress_try p (SetActive n) = set_active p n"
| "progress_try p (CompleteBytes n) = progress_complete p n"

definition progress_step :: "transfer_progress \<Rightarrow> progress_op \<Rightarrow> transfer_progress" where
  "progress_step p op = (case progress_try p op of Inl _ \<Rightarrow> p | Inr p' \<Rightarrow> p')"

section \<open>Invariants\<close>

definition stage_inv :: "stage_session \<Rightarrow> bool" where
  "stage_inv s \<longleftrightarrow> ss_id s \<noteq> [] \<and> ss_checksum s \<noteq> [] \<and> 0 < ss_ciphertext_bytes s
     \<and> ss_ciphertext_bytes s \<le> MAX_CIPHERTEXT_BYTES \<and> ss_offset s \<le> ss_ciphertext_bytes s
     \<and> (ss_state s \<noteq> Receiving \<longrightarrow> ss_offset s = ss_ciphertext_bytes s)
     \<and> ss_retries s \<le> MAX_STAGE_RETRIES \<and> ss_resets s \<le> MAX_STAGE_RESETS"

definition progress_inv :: "transfer_progress \<Rightarrow> bool" where
  "progress_inv p \<longleftrightarrow> tp_plaintext_total p \<le> tp_ciphertext_total p
     \<and> unat (tp_completed p) + unat (tp_active p) \<le> unat (tp_ciphertext_total p)"

lemma validate_status_Ok:
  "validate_status s st = Inr u \<longleftrightarrow>
     st_id st = ss_id s \<and> st_ciphertext_bytes st = ss_ciphertext_bytes s
     \<and> st_checksum st = ss_checksum s \<and> st_offset st \<le> ss_ciphertext_bytes s
     \<and> (st_state st \<noteq> Receiving \<longrightarrow> st_offset st = ss_ciphertext_bytes s)
     \<and> ss_offset s \<le> st_offset st \<and> stage_state_rank (ss_state s) \<le> stage_state_rank (st_state st)"
  by (auto simp: validate_status_def not_less)

lemma reconcile_Ok:
  "reconcile s st = Inr (a, s') \<longleftrightarrow> validate_status s st = Inr () \<and> a = action_of st
     \<and> s' = s\<lparr>ss_offset := st_offset st, ss_state := st_state st\<rparr>"
  by (auto simp: reconcile_def)

lemma acknowledge_part_Ok:
  "acknowledge_part s start n st = Inr (a, s') \<longleftrightarrow>
     unat start + unat n < 2 ^ 64 \<and> start = ss_offset s \<and> n \<noteq> 0 \<and> start + n \<le> ss_ciphertext_bytes s
     \<and> validate_status s st = Inr () \<and> st_offset st = start + n \<and> a = action_of st
     \<and> s' = s\<lparr>ss_offset := st_offset st, ss_state := st_state st, ss_retries := 0,
              ss_reprobe_allowed := True\<rparr>"
  by (auto simp: acknowledge_part_def checked_add_def not_less split: if_splits)

lemma record_retry_Ok:
  "record_retry s = Inr s' \<longleftrightarrow> ss_retries s < MAX_STAGE_RETRIES \<and> s' = s\<lparr>ss_retries := ss_retries s + 1\<rparr>"
  by (auto simp: record_retry_def)

lemma stage_reset_Ok:
  "stage_reset s i = Inr s' \<longleftrightarrow> i \<noteq> [] \<and> ss_resets s < MAX_STAGE_RESETS
     \<and> s' = s\<lparr>ss_resets := ss_resets s + 1, ss_id := i, ss_offset := 0, ss_state := Receiving,
              ss_retries := 0, ss_reprobe_allowed := False\<rparr>"
  by (auto simp: stage_reset_def)

lemmas stage_ok = reconcile_Ok acknowledge_part_Ok record_retry_Ok stage_reset_Ok validate_status_Ok

lemma small_succ: "n < k \<Longrightarrow> k \<le> 8 \<Longrightarrow> n + 1 \<le> k \<and> unat (n + 1) = unat n + 1" for n k :: u32
  by (simp add: word_less_nat_alt word_le_nat_alt unat_word_ariths)

lemma retry_limits: "MAX_STAGE_RETRIES \<le> 8" "MAX_STAGE_RESETS \<le> 8"
  by (simp_all add: MAX_STAGE_RETRIES_def MAX_STAGE_RESETS_def)

lemma stage_try_inv: "stage_inv s \<Longrightarrow> stage_try s op = Inr s' \<Longrightarrow> stage_inv s'"
  using small_succ retry_limits
  by (cases op) (auto simp: stage_ok stage_inv_def reprobe_after_recovery_def MAX_STAGE_RETRIES_def)

interpretation stage: guarded_machine stage_inv stage_step
  by unfold_locales (auto simp: stage_step_def split: sum.splits dest: stage_try_inv)

lemma session_new_inv: "session_new i n c = Inr s \<Longrightarrow> stage_inv s"
  by (auto simp: session_new_def stage_inv_def not_less word_gt_0 MAX_STAGE_RETRIES_def
      MAX_STAGE_RESETS_def split: if_splits)

lemma progress_try_inv: "progress_inv p \<Longrightarrow> progress_try p op = Inr p' \<Longrightarrow> progress_inv p'"
  by (cases op)
    (auto simp: set_active_def progress_complete_def progress_inv_def rust_arith word_less_nat_alt
      not_less split: if_splits)

interpretation progress: guarded_machine progress_inv progress_step
  by unfold_locales (auto simp: progress_step_def split: sum.splits dest: progress_try_inv)

lemma progress_new_inv: "progress_new p c = Inr s \<Longrightarrow> progress_inv s"
  by (auto simp: progress_new_def progress_inv_def not_less split: if_splits)

section \<open>Progress and bounded recovery\<close>

definition is_reset :: "stage_op \<Rightarrow> bool" where
  "is_reset op = (case op of ResetStage _ \<Rightarrow> True | _ \<Rightarrow> False)"

text \<open>Without a reset neither the offset nor the state of a session moves backwards, and its
  identity stays.\<close>

lemma stage_try_forward:
  "stage_try s op = Inr s' \<Longrightarrow> \<not> is_reset op \<Longrightarrow>
     ss_offset s \<le> ss_offset s' \<and> stage_state_rank (ss_state s) \<le> stage_state_rank (ss_state s')
     \<and> ss_id s' = ss_id s \<and> ss_resets s' = ss_resets s"
  by (cases op) (auto simp: is_reset_def stage_ok reprobe_after_recovery_def)

lemma stage_step_forward:
  "\<not> is_reset op \<Longrightarrow>
     ss_offset s \<le> ss_offset (stage_step s op)
     \<and> stage_state_rank (ss_state s) \<le> stage_state_rank (ss_state (stage_step s op))
     \<and> ss_id (stage_step s op) = ss_id s \<and> ss_resets (stage_step s op) = ss_resets s"
  by (cases "stage_try s op") (simp_all add: stage_step_def stage_try_forward)

lemma stage_try_bytes: "stage_try s op = Inr s' \<Longrightarrow> ss_ciphertext_bytes s' = ss_ciphertext_bytes s"
  by (cases op) (auto simp: stage_ok reprobe_after_recovery_def)

lemma progress_try_mono: "progress_try p op = Inr p' \<Longrightarrow> tp_completed p \<le> tp_completed p'"
  by (cases op)
    (auto simp: set_active_def progress_complete_def rust_arith word_le_nat_alt split: if_splits)

text \<open>A count of the successful calls of a kind along a run.\<close>

fun successes :: "(stage_op \<Rightarrow> bool) \<Rightarrow> stage_session \<Rightarrow> stage_op list \<Rightarrow> nat" where
  "successes p s [] = 0"
| "successes p s (op # ops) =
     (if p op \<and> is_ok (stage_try s op) then 1 else 0) + successes p (stage_step s op) ops"

definition is_retry :: "stage_op \<Rightarrow> bool" where "is_retry op \<longleftrightarrow> op = RecordRetry"
definition is_ack :: "stage_op \<Rightarrow> bool" where
  "is_ack op = (case op of AckPart _ _ _ \<Rightarrow> True | _ \<Rightarrow> False)"

text \<open>The potential of a session: retries left now, and a full allowance for every
  acknowledgement or reset to come.\<close>

lemma stage_try_counts:
  assumes "stage_try s op = Inr s'" and "unat (ss_retries s) \<le> 8"
  shows "(if is_retry op then 1 else 0) + unat (ss_retries s)
      \<le> unat (ss_retries s') + 8 * ((if is_ack op then 1 else 0) + (if is_reset op then 1 else 0))
    \<and> (if is_reset op then 1 else 0) + unat (ss_resets s) = unat (ss_resets s')"
  using assms small_succ retry_limits
  by (cases op)
    (auto simp: is_retry_def is_ack_def is_reset_def stage_ok reprobe_after_recovery_def)

lemma stage_inv_retries: "stage_inv s \<Longrightarrow> unat (ss_retries s) \<le> 8"
  by (simp add: stage_inv_def MAX_STAGE_RETRIES_def word_le_nat_alt)

lemma successes_bound:
  "stage_inv s \<Longrightarrow>
     successes is_retry s ops + unat (ss_retries s)
       \<le> 8 * (1 + successes is_ack s ops + successes is_reset s ops)
     \<and> successes is_reset s ops + unat (ss_resets s) = unat (ss_resets (foldl stage_step s ops))"
proof (induction ops arbitrary: s)
  case Nil
  then show ?case by (simp add: stage_inv_retries)
next
  case (Cons op ops)
  note IH = Cons.IH [OF stage.step_inv [OF Cons.prems, of op]]
  show ?case
  proof (cases "stage_try s op")
    case (Inl e)
    then have "stage_step s op = s" by (simp add: stage_step_def)
    then show ?thesis using IH Inl by simp
  next
    case (Inr s')
    then have "stage_step s op = s'" by (simp add: stage_step_def)
    moreover note stage_try_counts [OF Inr stage_inv_retries [OF Cons.prems]]
    ultimately show ?thesis using IH Inr by (simp split: if_splits)
  qed
qed

section \<open>Properties\<close>

text \<open>C8. However the server answers and whatever the adapter calls, a stage session stays well
  formed: the offset never passes the ciphertext, a finalizing or complete session has received
  every byte, and at most eight retries and two resets are recorded.\<close>

theorem stage_session_well_formed:
  assumes "session_new i n checksum = Ok s0"
  shows "stage_inv (foldl stage_step s0 ops)
    \<and> unat (ss_offset (foldl stage_step s0 ops)) \<le> unat n
    \<and> (ss_state (foldl stage_step s0 ops) = Receiving \<or> ss_offset (foldl stage_step s0 ops) = n)"
proof -
  have inv: "stage_inv (foldl stage_step s0 ops)"
    using assms by (intro stage.foldl_inv session_new_inv)
  have "ss_ciphertext_bytes s0 = n" using assms by (auto simp: session_new_def split: if_splits)
  moreover have "ss_ciphertext_bytes (stage_step s op) = ss_ciphertext_bytes s" for s op
    by (cases "stage_try s op") (simp_all add: stage_step_def stage_try_bytes)
  then have "ss_ciphertext_bytes (foldl stage_step s ops) = ss_ciphertext_bytes s" for s
    by (induction ops arbitrary: s) simp_all
  ultimately show ?thesis using inv by (auto simp: stage_inv_def word_le_nat_alt)
qed

theorem stage_session_well_formed_witness:
  "\<exists>s0. session_new [97] 100 [98] = Ok s0 \<and>
     stage_inv (foldl stage_step s0 [RecordRetry, ResetStage [99], ResetStage [], Reprobe])"
proof -
  obtain s0 where s0: "session_new [97] 100 [98] = Ok s0"
    by (simp add: session_new_def MAX_CIPHERTEXT_BYTES_def)
  then show ?thesis
    using stage_session_well_formed [OF s0, of "[RecordRetry, ResetStage [99], ResetStage [], Reprobe]"] by blast
qed

text \<open>Between resets a session only moves forward: over any calls without a reset, neither
  the acknowledged offset nor the stage (receiving, finalizing, complete) goes back, so a lost
  acknowledgement is recovered but a server cannot rewind the upload.\<close>

theorem stage_never_moves_backwards:
  assumes "list_all (\<lambda>op. \<not> is_reset op) ops"
  shows "ss_offset s \<le> ss_offset (foldl stage_step s ops)
    \<and> stage_state_rank (ss_state s) \<le> stage_state_rank (ss_state (foldl stage_step s ops))
    \<and> ss_id (foldl stage_step s ops) = ss_id s"
  using assms
proof (induction ops arbitrary: s)
  case Nil
  then show ?case by simp
next
  case (Cons op ops)
  then have "\<not> is_reset op" "list_all (\<lambda>op. \<not> is_reset op) ops" by simp_all
  then show ?case using stage_step_forward [of op s] Cons.IH [of "stage_step s op"] by auto
qed

definition example_session :: stage_session where
  "example_session = \<lparr>ss_id = [97], ss_ciphertext_bytes = 100, ss_checksum = [98], ss_offset = 25,
     ss_state = Receiving, ss_retries = 0, ss_resets = 0, ss_reprobe_allowed = False\<rparr>"

definition example_status :: stage_status where
  "example_status = \<lparr>st_id = [97], st_state = Receiving, st_offset = 60, st_ciphertext_bytes = 100,
     st_checksum = [98]\<rparr>"

theorem stage_never_moves_backwards_witness:
  "ss_offset example_session
     \<le> ss_offset (foldl stage_step example_session [Reconcile example_status, RecordRetry])"
  using stage_never_moves_backwards [of "[Reconcile example_status, RecordRetry]" example_session]
  by (simp add: is_reset_def)

text \<open>C15. Recovery is bounded: along any run at most two resets succeed after creation, and the
  retries that succeed number at most eight for each acknowledged part, each reset and the
  start; a session that makes no progress runs out of retries.\<close>

theorem stage_recovery_bounded:
  assumes "stage_inv s" and "ss_resets s = 0"
  shows "successes is_reset s ops \<le> 2
    \<and> successes is_retry s ops \<le> 8 * (1 + successes is_ack s ops + successes is_reset s ops)"
proof -
  have "stage_inv (foldl stage_step s ops)" using assms(1) by (rule stage.foldl_inv)
  then have "unat (ss_resets (foldl stage_step s ops)) \<le> 2"
    by (simp add: stage_inv_def MAX_STAGE_RESETS_def word_le_nat_alt)
  then show ?thesis using successes_bound [OF assms(1), of ops] assms(2) by simp
qed

theorem stage_recovery_bounded_witness:
  "successes is_reset example_session [ResetStage [99], RecordRetry] \<le> 2"
  using stage_recovery_bounded [of example_session "[ResetStage [99], RecordRetry]"]
  by (simp add: example_session_def stage_inv_def MAX_CIPHERTEXT_BYTES_def MAX_STAGE_RETRIES_def
      MAX_STAGE_RESETS_def)

text \<open>Progress accounting never overruns: after any updates on a fresh progress record the
  completed and the active ciphertext together stay within the declared total, without
  overflow, and completed bytes never decrease.\<close>

theorem progress_never_overruns:
  assumes "progress_new plaintext ciphertext = Ok p0"
  shows "unat (tp_completed (foldl progress_step p0 ops)) + unat (tp_active (foldl progress_step p0 ops))
      \<le> unat (tp_ciphertext_total (foldl progress_step p0 ops))
    \<and> tp_completed (foldl progress_step p0 ops)
        \<le> tp_completed (foldl progress_step (foldl progress_step p0 ops) later)"
proof -
  have inv: "progress_inv (foldl progress_step p0 ops)"
    using assms by (intro progress.foldl_inv progress_new_inv)
  have "tp_completed p \<le> tp_completed (progress_step p op)" for p op
    by (cases "progress_try p op") (simp_all add: progress_step_def progress_try_mono)
  then have "tp_completed (foldl progress_step p0 ops)
      \<le> tp_completed (foldl progress_step (foldl progress_step p0 ops) later)"
    using inv by (intro progress.foldl_mono)
  with inv show ?thesis by (simp add: progress_inv_def)
qed

theorem progress_never_overruns_witness:
  "\<exists>p0. progress_new 10 58 = Ok p0 \<and>
     unat (tp_completed (foldl progress_step p0 [SetActive 20, CompleteBytes 26]))
       + unat (tp_active (foldl progress_step p0 [SetActive 20, CompleteBytes 26]))
       \<le> unat (tp_ciphertext_total (foldl progress_step p0 [SetActive 20, CompleteBytes 26]))"
proof -
  obtain p0 where "progress_new 10 58 = Ok p0" by (simp add: progress_new_def)
  then show ?thesis using progress_never_overruns [of 10 58 p0 "[SetActive 20, CompleteBytes 26]"] by blast
qed

end
