(* ===== verification/Browser.thy ===== *)
theory Browser
  imports Staging Wire Manifest
begin

text \<open>
  The adapter through which browsers call the transfer core, \<open>crates/transfer-wasm/src/lib.rs\<close>:
  numbers arrive as doubles and are checked at the boundary, objects arrive as JavaScript values.
  Their conversion (the \<open>serde_wasm_bindgen\<close> crate) is the parameter \<open>js_api\<close>; an operation of a
  controller gives its result and the controller afterwards. Shown: which doubles the boundary
  accepts and as which integers, and that whatever scripts call, the controllers only make steps
  of the core, so its invariants hold for them.
\<close>

record 'j js_api =
  js_transport :: "'j \<Rightarrow> (upload_transport, string) result"
  js_stage_status :: "'j \<Rightarrow> (stage_status, string) result"
  js_manifest :: "'j \<Rightarrow> (manifest, string) result"
  js_manifest_validation :: "'j \<Rightarrow> (rstr \<times> u64 \<times> manifest_server_item list, string) result"
  js_driver_limits :: "'j \<Rightarrow> (rstr \<rightharpoonup> driver_limits, string) result"
  js_of_control :: "webrtc_control \<Rightarrow> ('j, string) result"
  js_of_session :: "stage_session \<Rightarrow> ('j, string) result"
  js_of_link :: "rstr \<times> rstr option \<Rightarrow> ('j, string) result"
  js_of_limits :: "driver_limits \<Rightarrow> ('j, string) result"

section \<open>Numbers\<close>

definition integer :: "f64 \<Rightarrow> (u64, string) result" where
  "integer v =
     (if \<not> is_finite v \<or> flt v (Fin 0) \<or> flt (f64_of_u64 (- 1)) v \<or> has_fract v
      then Err ''expected a non-negative integer'' else Ok (u64_of_f64 v))"

definition u32_integer :: "f64 \<Rightarrow> (u32, string) result" where
  "u32_integer v = and_then (integer v) (\<lambda>n. ok_or ''expected a u32 integer'' (u32_try_from n))"

definition optional_integer :: "f64 option \<Rightarrow> (u64 option, string) result" where
  "optional_integer v = (case v of None \<Rightarrow> Ok None | Some x \<Rightarrow> and_then (integer x) (\<lambda>n. Ok (Some n)))"

section \<open>Control messages and frames\<close>

definition wasm_validate_for_chunk :: "webrtc_frame \<Rightarrow> f64 \<Rightarrow> f64 \<Rightarrow> f64 \<Rightarrow> (unit, string) result" where
  "wasm_validate_for_chunk inner expected_seq received expected_bytes =
     and_then (u32_integer expected_seq) (\<lambda>s.
     and_then (integer received) (\<lambda>r.
     and_then (integer expected_bytes) (\<lambda>e. validate_for_chunk inner s r e)))"

definition wasm_parse_webrtc_control :: "'v json_api \<Rightarrow> 'j js_api \<Rightarrow> rstr \<Rightarrow> ('j, string) result" where
  "wasm_parse_webrtc_control api js s = and_then (parse_webrtc_control api s) (js_of_control js)"

definition wasm_encode_webrtc_request :: "'v json_api \<Rightarrow> f64 \<Rightarrow> rstr \<Rightarrow> f64 \<Rightarrow> (rstr, string) result" where
  "wasm_encode_webrtc_request api seq item_id index =
     and_then (u32_integer seq) (\<lambda>s.
     and_then (integer index) (\<lambda>i.
     and_then (control_request s item_id i) (encode_webrtc_control api)))"

definition wasm_encode_webrtc_chunk ::
  "'v json_api \<Rightarrow> f64 \<Rightarrow> rstr \<Rightarrow> f64 \<Rightarrow> f64 \<Rightarrow> (rstr, string) result" where
  "wasm_encode_webrtc_chunk api seq item_id index len =
     and_then (u32_integer seq) (\<lambda>s.
     and_then (integer index) (\<lambda>i.
     and_then (integer len) (\<lambda>l.
     and_then (control_chunk s item_id i l) (encode_webrtc_control api))))"

definition wasm_encode_webrtc_ack :: "'v json_api \<Rightarrow> f64 \<Rightarrow> (rstr, string) result" where
  "wasm_encode_webrtc_ack api seq =
     and_then (u32_integer seq) (\<lambda>s. encode_webrtc_control api (control_ack s))"

definition wasm_encode_webrtc_frame :: "f64 \<Rightarrow> f64 \<Rightarrow> u8 list \<Rightarrow> (u8 list, string) result" where
  "wasm_encode_webrtc_frame seq offset payload =
     and_then (u32_integer seq) (\<lambda>s.
     and_then (u32_integer offset) (\<lambda>p.
     and_then (frame_new s p payload) encode_webrtc_frame))"

definition wasm_parse_webrtc_frame :: "u8 list \<Rightarrow> (webrtc_frame, string) result" where
  "wasm_parse_webrtc_frame bs = parse_webrtc_frame bs"

section \<open>Controllers\<close>

definition wasm_sample :: "rstr \<Rightarrow> f64 \<Rightarrow> f64 \<Rightarrow> (adaptive, unit, string) st" where
  "wasm_sample key loaded now_ms =
     bind_st (lift_st (integer loaded)) (\<lambda>l.
     bind_st (lift_st (integer now_ms)) (\<lambda>now s. (Ok (), sample key l now s)))"

definition wasm_forget :: "rstr \<Rightarrow> (adaptive, unit, string) st" where
  "wasm_forget key s = (Ok (), forget key s)"

definition wasm_observe :: "f64 \<Rightarrow> f64 \<Rightarrow> f64 \<Rightarrow> (adaptive, unit, string) st" where
  "wasm_observe n elapsed_ms now_ms =
     bind_st (lift_st (integer n)) (\<lambda>b.
     bind_st (lift_st (integer elapsed_ms)) (\<lambda>e.
     bind_st (lift_st (integer now_ms)) (\<lambda>now s. (Ok (), observe b e now s))))"

definition wasm_congested :: "f64 \<Rightarrow> (adaptive, unit, string) st" where
  "wasm_congested now_ms = bind_st (lift_st (integer now_ms)) (\<lambda>now s. (Ok (), congested now s))"

definition wasm_stage_new :: "rstr \<Rightarrow> f64 \<Rightarrow> rstr \<Rightarrow> (stage_session, string) result" where
  "wasm_stage_new i n checksum = and_then (integer n) (\<lambda>b. session_new i b checksum)"

text \<open>A core operation of the session that fails leaves it as it was.\<close>

definition on_session :: "(stage_session \<Rightarrow> ('a \<times> stage_session, string) result) \<Rightarrow> (stage_session, 'a, string) st" where
  "on_session f s = (case f s of Inl e \<Rightarrow> (Err e, s) | Inr (x, s') \<Rightarrow> (Ok x, s'))"

definition wasm_reconcile_status :: "'j js_api \<Rightarrow> 'j \<Rightarrow> (stage_session, 'j, string) st" where
  "wasm_reconcile_status js v =
     bind_st (lift_st (js_stage_status js v)) (\<lambda>status.
     bind_st (on_session (\<lambda>s. reconcile s status)) (\<lambda>_ s. (js_of_session js s, s)))"

definition wasm_acknowledge_part :: "'j js_api \<Rightarrow> f64 \<Rightarrow> f64 \<Rightarrow> 'j \<Rightarrow> (stage_session, 'j, string) st" where
  "wasm_acknowledge_part js start n v =
     bind_st (lift_st (js_stage_status js v)) (\<lambda>status.
     bind_st (lift_st (integer start)) (\<lambda>a.
     bind_st (lift_st (integer n)) (\<lambda>b.
     bind_st (on_session (\<lambda>s. acknowledge_part s a b status)) (\<lambda>_ s. (js_of_session js s, s)))))"

definition wasm_record_retry :: "(stage_session, unit, string) st" where
  "wasm_record_retry = on_session (\<lambda>s. and_then (record_retry s) (\<lambda>s'. Ok ((), s')))"

definition wasm_reset :: "rstr \<Rightarrow> (stage_session, unit, string) st" where
  "wasm_reset i = on_session (\<lambda>s. and_then (stage_reset s i) (\<lambda>s'. Ok ((), s')))"

definition wasm_reprobe_after_recovery :: "(stage_session, bool, string) st" where
  "wasm_reprobe_after_recovery s = (case reprobe_after_recovery s of (b, s') \<Rightarrow> (Ok b, s'))"

section \<open>Policy\<close>

definition wasm_concurrency_limit :: "u32 \<Rightarrow> f64 \<Rightarrow> f64 \<Rightarrow> u32 \<Rightarrow> u32" where
  "wasm_concurrency_limit configured chunk_bytes memory platform_limit =
     (case (integer chunk_bytes, integer memory) of
        (Inr c, Inr m) \<Rightarrow> concurrency_limit configured c m platform_limit
      | _ \<Rightarrow> 1)"

definition wasm_retryable_status :: "u16 \<Rightarrow> bool \<Rightarrow> bool" where
  "wasm_retryable_status status staging = retryable_status status staging"

definition wasm_retry_delay_ms :: "u32 \<Rightarrow> f64 option \<Rightarrow> f64 \<Rightarrow> (f64, string) result" where
  "wasm_retry_delay_ms attempt retry_after_ms jitter_ms =
     and_then (optional_integer retry_after_ms) (\<lambda>after.
     and_then (integer jitter_ms) (\<lambda>jitter. Ok (f64_of_u64 (retry_delay_ms attempt after jitter))))"

definition wasm_chunk_count :: "f64 \<Rightarrow> f64 \<Rightarrow> (f64, string) result" where
  "wasm_chunk_count plaintext_bytes chunk_bytes =
     and_then (integer plaintext_bytes) (\<lambda>p.
     and_then (integer chunk_bytes) (\<lambda>c.
     and_then (chunk_count p c) (\<lambda>n. Ok (f64_of_u64 n))))"

definition wasm_ciphertext_bytes :: "f64 \<Rightarrow> f64 \<Rightarrow> (f64, string) result" where
  "wasm_ciphertext_bytes plaintext_bytes chunk_bytes =
     and_then (integer plaintext_bytes) (\<lambda>p.
     and_then (integer chunk_bytes) (\<lambda>c.
     and_then (ciphertext_bytes p c) (\<lambda>n. Ok (f64_of_u64 n))))"

definition validate_upload_transport :: "'j js_api \<Rightarrow> 'j \<Rightarrow> (unit, string) result" where
  "validate_upload_transport js v = and_then (js_transport js v) transport_validate"

definition wasm_initial_part_bytes :: "'j js_api \<Rightarrow> 'j \<Rightarrow> f64 \<Rightarrow> (f64, string) result" where
  "wasm_initial_part_bytes js v bytes_per_ms =
     and_then (js_transport js v) (\<lambda>t. Ok (f64_of_u64 (initial_part_bytes t bytes_per_ms)))"

definition wasm_part_bytes :: "'j js_api \<Rightarrow> 'j \<Rightarrow> f64 \<Rightarrow> (f64, string) result" where
  "wasm_part_bytes js v bytes_per_ms =
     and_then (js_transport js v) (\<lambda>t. Ok (f64_of_u64 (part_bytes t bytes_per_ms)))"

definition wasm_grow_part :: "'j js_api \<Rightarrow> 'j \<Rightarrow> f64 \<Rightarrow> f64 \<Rightarrow> f64 \<Rightarrow> (f64, string) result" where
  "wasm_grow_part js v previous n elapsed_ms =
     and_then (js_transport js v) (\<lambda>t.
     and_then (integer previous) (\<lambda>p.
     and_then (integer n) (\<lambda>b.
     and_then (integer elapsed_ms) (\<lambda>e. Ok (f64_of_u64 (grow_part t p b e))))))"

definition wasm_shrink_part :: "'j js_api \<Rightarrow> 'j \<Rightarrow> f64 \<Rightarrow> (f64, string) result" where
  "wasm_shrink_part js v previous =
     and_then (js_transport js v) (\<lambda>t.
     and_then (integer previous) (\<lambda>p. Ok (f64_of_u64 (shrink_part t p))))"

definition wasm_should_stage :: "'j js_api \<Rightarrow> 'j \<Rightarrow> f64 \<Rightarrow> f64 \<Rightarrow> (bool, string) result" where
  "wasm_should_stage js v n bytes_per_ms =
     and_then (js_transport js v) (\<lambda>t.
     and_then (integer n) (\<lambda>b. Ok (should_stage t b bytes_per_ms)))"

definition wasm_should_abandon_direct :: "'j js_api \<Rightarrow> 'j \<Rightarrow> f64 \<Rightarrow> f64 \<Rightarrow> f64 \<Rightarrow> (bool, string) result" where
  "wasm_should_abandon_direct js v n loaded elapsed_ms =
     and_then (js_transport js v) (\<lambda>t.
     and_then (integer n) (\<lambda>b.
     and_then (integer loaded) (\<lambda>l.
     and_then (integer elapsed_ms) (\<lambda>e. Ok (should_abandon_direct t b l e)))))"

definition wasm_validate_part_count :: "'j js_api \<Rightarrow> 'j \<Rightarrow> f64 \<Rightarrow> f64 \<Rightarrow> (unit, string) result" where
  "wasm_validate_part_count js v ciphertext_len part_len =
     and_then (js_transport js v) (\<lambda>t.
     and_then (integer ciphertext_len) (\<lambda>c.
     and_then (integer part_len) (\<lambda>p. validate_part_count t c p)))"

definition wasm_parse_share_link :: "'j js_api \<Rightarrow> rstr \<Rightarrow> ('j, string) result" where
  "wasm_parse_share_link js v =
     and_then (parse_share_link v) (\<lambda>l. js_of_link js (link_id l, link_key l))"

definition wasm_validate_manifest :: "'j js_api \<Rightarrow> 'j \<Rightarrow> 'j \<Rightarrow> (unit, string) result" where
  "wasm_validate_manifest js m t =
     and_then (js_manifest js m) (\<lambda>manifest.
     and_then (js_manifest_validation js t) (\<lambda>(driver, chunk_bytes, items).
     validate_manifest manifest driver chunk_bytes items))"

text \<open>The adapter is compiled for 32-bit targets, so a \<open>usize\<close> has 32 bits here.\<close>

definition optional_usize :: "u64 option \<Rightarrow> (nat option, string) result" where
  "optional_usize v =
     (case v of
        None \<Rightarrow> Ok None
      | Some n \<Rightarrow> if n < 2 ^ 32 then Ok (Some (unat n)) else Err ''maximum file count is too large'')"

definition wasm_select_driver_limits ::
  "'j js_api \<Rightarrow> rstr \<Rightarrow> 'j \<Rightarrow> f64 option \<Rightarrow> f64 option \<Rightarrow> ('j, string) result" where
  "wasm_select_driver_limits js driver advertised legacy_bytes legacy_count =
     and_then (js_driver_limits js advertised) (\<lambda>limits.
     and_then (optional_integer legacy_bytes) (\<lambda>b.
     and_then (optional_integer legacy_count) (\<lambda>c.
     and_then (optional_usize c) (\<lambda>count.
     js_of_limits js (select_driver_limits driver limits b count)))))"

section \<open>Which numbers pass the boundary\<close>

lemma f64_of_u64_max: "f64_of_u64 (- 1) = Fin (2 ^ 64)"
proof -
  have il: "ilog2 (2 ^ 64 - 1) = 63"
    by (rule ilog2_unique) (simp_all add: pow2_def)
  have "\<lfloor>18446744073709551615 / 2048 :: rat\<rfloor> = 9007199254740991" by (rule floor_unique) simp_all
  then have "round_pos (2 ^ 64 - 1) = 2 ^ 64"
    unfolding round_pos_def ulp_exp_def il by (simp add: pow2_def rne_def)
  then have "rnd (2 ^ 64 - 1) = Fin (2 ^ 64)" by (simp add: rnd_def pow2_def)
  moreover have "of_nat (unat (- 1 :: u64)) = (2 ^ 64 - 1 :: rat)" unfolding unat_max_word by simp
  ultimately show ?thesis by (simp only: f64_of_u64_def)
qed

text \<open>The boundary accepts exactly the doubles that are integers from 0 to \<open>2 ^ 64\<close>, and hands
  each on unchanged, except that \<open>2 ^ 64\<close> itself, which no \<open>u64\<close> holds, is let through as
  \<open>2 ^ 64 - 1\<close>: the limit it is compared with, \<open>u64::MAX as f64\<close>, rounds up. As a \<open>u32\<close> exactly the
  integers below \<open>2 ^ 32\<close> are accepted.\<close>

theorem boundary_integers_exact:
  "integer v =
     (case v of
        Fin x \<Rightarrow>
          if x = of_int \<lfloor>x\<rfloor> \<and> 0 \<le> x \<and> x < 2 ^ 64 then Ok (of_int \<lfloor>x\<rfloor>)
          else if x = 2 ^ 64 then Ok (- 1)
          else Err ''expected a non-negative integer''
      | _ \<Rightarrow> Err ''expected a non-negative integer'')
   \<and> (is_ok (u32_integer v) \<longleftrightarrow>
        (case v of Fin x \<Rightarrow> x = of_int \<lfloor>x\<rfloor> \<and> 0 \<le> x \<and> x < 2 ^ 32 | _ \<Rightarrow> False))"
proof (cases v)
  case (Fin x)
  have i: "integer v =
      (if x = of_int \<lfloor>x\<rfloor> \<and> 0 \<le> x \<and> x < 2 ^ 64 then Ok (of_int \<lfloor>x\<rfloor>)
       else if x = 2 ^ 64 then Ok (- 1) else Err ''expected a non-negative integer'')"
    by (auto simp: Fin integer_def f64_of_u64_max)
  have "is_ok (u32_integer v) \<longleftrightarrow> x = of_int \<lfloor>x\<rfloor> \<and> 0 \<le> x \<and> x < 2 ^ 32"
  proof (cases "x = of_int \<lfloor>x\<rfloor> \<and> 0 \<le> x \<and> x < 2 ^ 64")
    case True
    then obtain n where n: "x = of_nat n" by (metis of_int_of_nat_eq nonneg_int_cases of_int_0_le_iff)
    have "n < 2 ^ 64" using True by (simp add: n)
    then have "(of_nat n :: u64) < 2 ^ 32 \<longleftrightarrow> n < 2 ^ 32"
      by (simp add: word_less_nat_alt unat_of_nat_less)
    then show ?thesis using True
      by (auto simp: u32_integer_def i n u32_try_from_def is_ok_def)
  next
    case False
    then show ?thesis
      by (auto simp: u32_integer_def i u32_try_from_def is_ok_def)
  qed
  then show ?thesis using i Fin by simp
qed (simp_all add: integer_def u32_integer_def)

section \<open>Controllers refine the core\<close>

datatype adaptive_call = CallSample rstr f64 f64 | CallForget rstr | CallObserve f64 f64 f64 | CallCongested f64

fun adaptive_call_step :: "adaptive \<Rightarrow> adaptive_call \<Rightarrow> adaptive" where
  "adaptive_call_step s (CallSample key loaded now) = snd (wasm_sample key loaded now s)"
| "adaptive_call_step s (CallForget key) = snd (wasm_forget key s)"
| "adaptive_call_step s (CallObserve n elapsed now) = snd (wasm_observe n elapsed now s)"
| "adaptive_call_step s (CallCongested now) = snd (wasm_congested now s)"

datatype 'j stage_call =
    CallReconcile 'j | CallAcknowledge f64 f64 'j | CallRecordRetry | CallReset rstr | CallReprobe

fun stage_call_step :: "'j js_api \<Rightarrow> stage_session \<Rightarrow> 'j stage_call \<Rightarrow> stage_session" where
  "stage_call_step js s (CallReconcile v) = snd (wasm_reconcile_status js v s)"
| "stage_call_step js s (CallAcknowledge a b v) = snd (wasm_acknowledge_part js a b v s)"
| "stage_call_step js s CallRecordRetry = snd (wasm_record_retry s)"
| "stage_call_step js s (CallReset i) = snd (wasm_reset i s)"
| "stage_call_step js s CallReprobe = snd (wasm_reprobe_after_recovery s)"

lemma snd_bind_lift: "snd (bind_st (lift_st r) f s) = (case r of Inl _ \<Rightarrow> s | Inr x \<Rightarrow> snd (f x s))"
  by (cases r) (simp_all add: lift_st_def)

lemma snd_bind_session:
  "snd (bind_st (on_session f) (\<lambda>_ s. (g s, s)) s) = snd (on_session f s)"
  by (simp add: bind_st_def split: prod.split sum.split)

lemma snd_on_session: "snd (on_session f s) = (case f s of Inl _ \<Rightarrow> s | Inr (_, s') \<Rightarrow> s')"
  by (simp add: on_session_def split: sum.split prod.split)

lemma adaptive_call_refines:
  "adaptive_call_step s c = s \<or> (\<exists>op. adaptive_call_step s c = adaptive_step s op)"
proof (cases c)
  case (CallSample key l t)
  then show ?thesis
    by (cases "integer l"; cases "integer t")
       (auto simp: wasm_sample_def snd_bind_lift intro: exI [of _ "Sample key _ _"])
next
  case (CallForget key)
  then show ?thesis by (auto simp: wasm_forget_def intro: exI [of _ "Forget key"])
next
  case (CallObserve n e t)
  then show ?thesis
    by (cases "integer n"; cases "integer e"; cases "integer t")
       (auto simp: wasm_observe_def snd_bind_lift intro: exI [of _ "Observe _ _ _"])
next
  case (CallCongested t)
  then show ?thesis
    by (cases "integer t") (auto simp: wasm_congested_def snd_bind_lift intro: exI [of _ "Congested _"])
qed

lemma stage_call_refines:
  "stage_call_step js s c = s \<or> (\<exists>op. stage_call_step js s c = stage_step s op)"
proof (cases c)
  case (CallReconcile v)
  show ?thesis
  proof (cases "js_stage_status js v")
    case (Inr st)
    then have "stage_call_step js s c = stage_step s (Reconcile st)"
      by (auto simp: CallReconcile wasm_reconcile_status_def snd_bind_lift snd_bind_session snd_on_session
          stage_step_def split: sum.split prod.split)
    then show ?thesis by blast
  qed (simp add: CallReconcile wasm_reconcile_status_def snd_bind_lift)
next
  case (CallAcknowledge a b v)
  show ?thesis
  proof (cases "\<exists>st x y. js_stage_status js v = Inr st \<and> integer a = Inr x \<and> integer b = Inr y")
    case True
    then obtain st x y where "js_stage_status js v = Inr st" "integer a = Inr x" "integer b = Inr y" by blast
    then have "stage_call_step js s c = stage_step s (AckPart x y st)"
      by (auto simp: CallAcknowledge wasm_acknowledge_part_def snd_bind_lift snd_bind_session snd_on_session
          stage_step_def split: sum.split prod.split)
    then show ?thesis by blast
  next
    case False
    then show ?thesis
      by (auto simp: CallAcknowledge wasm_acknowledge_part_def snd_bind_lift split: sum.split)
  qed
next
  case CallRecordRetry
  then have "stage_call_step js s c = stage_step s RecordRetry"
    by (auto simp: wasm_record_retry_def snd_on_session stage_step_def split: sum.split)
  then show ?thesis by blast
next
  case (CallReset i)
  then have "stage_call_step js s c = stage_step s (ResetStage i)"
    by (auto simp: wasm_reset_def snd_on_session stage_step_def split: sum.split)
  then show ?thesis by blast
next
  case CallReprobe
  then have "stage_call_step js s c = stage_step s Reprobe"
    by (auto simp: wasm_reprobe_after_recovery_def stage_step_def split: prod.split)
  then show ?thesis by blast
qed

interpretation web_adaptive: step_refinement adaptive_call_step adaptive_step
  by unfold_locales (rule adaptive_call_refines)

interpretation web_stage: step_refinement "stage_call_step js" stage_step
  by unfold_locales (rule stage_call_refines)


end
