(* ===== verification/File_System.thy ===== *)
theory File_System
  imports Beam_Prelude
begin

text \<open>
  The part of \<open>std::fs\<close> and of the operating system that the private state of the native client
  uses, on Unix: a tree of nodes with owner and mode, advisory locks, and system calls that may
  fail. Every call consumes one entry of a fault plan, so a theorem for all plans covers failures at
  every point; as the code returns at the first failure, it covers a crash at every point as well.
  A failing write may have written a prefix and a failing recursive removal may have removed some
  of the entries. Absolute paths are lists of components; the root directory is the empty list.
\<close>

section \<open>State\<close>

type_synonym path = "rstr list"

record meta =
  m_uid :: nat
  m_mode :: nat

datatype node = Dir meta | Regular meta "u8 list" | Special meta

fun node_meta :: "node \<Rightarrow> meta" where
  "node_meta (Dir m) = m"
| "node_meta (Regular m _) = m"
| "node_meta (Special m) = m"

fun is_dir :: "node \<Rightarrow> bool" where
  "is_dir (Dir _) = True"
| "is_dir _ = False"

fun is_file :: "node \<Rightarrow> bool" where
  "is_file (Regular _ _) = True"
| "is_file _ = False"

fun node_len :: "node \<Rightarrow> nat" where
  "node_len (Regular _ c) = length c"
| "node_len _ = 0"

datatype fault = Good | Bad nat "path set"

record fs =
  nodes :: "path \<rightharpoonup> node"
  locked :: "path set"
  faults :: "fault list"
  euid :: nat

datatype io_error = NotFound | AlreadyExists | OtherIo

section \<open>System calls\<close>

definition next_fault :: "fs \<Rightarrow> fault \<times> fs" where
  "next_fault s = (case faults s of [] \<Rightarrow> (Good, s) | f # fs \<Rightarrow> (f, s\<lparr>faults := fs\<rparr>))"

definition syscall :: "(fs \<Rightarrow> ('a, io_error) result \<times> fs) \<Rightarrow> (fs, 'a, io_error) st" where
  "syscall f s = (case next_fault s of (Good, s') \<Rightarrow> f s' | (Bad _ _, s') \<Rightarrow> (Err OtherIo, s'))"

definition is_directory :: "fs \<Rightarrow> path \<Rightarrow> bool" where
  "is_directory s p \<longleftrightarrow> (case nodes s p of Some n \<Rightarrow> is_dir n | None \<Rightarrow> False)"

definition put :: "path \<Rightarrow> node option \<Rightarrow> fs \<Rightarrow> fs" where
  "put p n s = s\<lparr>nodes := (nodes s)(p := n)\<rparr>"

definition symlink_metadata :: "path \<Rightarrow> (fs, node, io_error) st" where
  "symlink_metadata p = syscall (\<lambda>s. (ok_or NotFound (nodes s p), s))"

definition create_dir :: "path \<Rightarrow> nat \<Rightarrow> (fs, unit, io_error) st" where
  "create_dir p mode = syscall (\<lambda>s.
     if nodes s p = None \<and> is_directory s (butlast p)
     then (Ok (), put p (Some (Dir \<lparr>m_uid = euid s, m_mode = mode\<rparr>)) s)
     else (Err OtherIo, s))"

text \<open>\<open>OpenOptions\<close> with \<open>create_new\<close> or \<open>create\<close>, without truncation.\<close>

definition open_new :: "path \<Rightarrow> nat \<Rightarrow> (fs, unit, io_error) st" where
  "open_new p mode = syscall (\<lambda>s.
     if nodes s p = None \<and> is_directory s (butlast p)
     then (Ok (), put p (Some (Regular \<lparr>m_uid = euid s, m_mode = mode\<rparr> [])) s)
     else (Err OtherIo, s))"

definition open_create :: "path \<Rightarrow> nat \<Rightarrow> (fs, unit, io_error) st" where
  "open_create p mode = syscall (\<lambda>s.
     case nodes s p of
       Some n \<Rightarrow> (if is_file n then Ok () else Err OtherIo, s)
     | None \<Rightarrow>
         if is_directory s (butlast p)
         then (Ok (), put p (Some (Regular \<lparr>m_uid = euid s, m_mode = mode\<rparr> [])) s)
         else (Err OtherIo, s))"

text \<open>Writing to the end of a file this process has open.\<close>

definition append :: "path \<Rightarrow> u8 list \<Rightarrow> fs \<Rightarrow> fs" where
  "append p bs s =
     (case nodes s p of Some (Regular m c) \<Rightarrow> put p (Some (Regular m (c @ bs))) s | _ \<Rightarrow> s)"

definition write_all :: "path \<Rightarrow> u8 list \<Rightarrow> (fs, unit, io_error) st" where
  "write_all p bs s =
     (case next_fault s of
        (Good, s') \<Rightarrow> (Ok (), append p bs s')
      | (Bad k _, s') \<Rightarrow> (Err OtherIo, append p (take k bs) s'))"

definition sync_all :: "path \<Rightarrow> (fs, unit, io_error) st" where
  "sync_all p = syscall (\<lambda>s. (Ok (), s))"

definition read_file :: "path \<Rightarrow> (fs, u8 list, io_error) st" where
  "read_file p = syscall (\<lambda>s.
     (case nodes s p of Some (Regular _ c) \<Rightarrow> Ok c | Some _ \<Rightarrow> Err OtherIo | None \<Rightarrow> Err NotFound, s))"

definition rename_file :: "path \<Rightarrow> path \<Rightarrow> (fs, unit, io_error) st" where
  "rename_file a b = syscall (\<lambda>s.
     case nodes s a of
       None \<Rightarrow> (Err NotFound, s)
     | Some n \<Rightarrow>
         if is_file n \<and> \<not> is_directory s b \<and> is_directory s (butlast b)
         then (Ok (), if a = b then s else put a None (put b (Some n) s))
         else (Err OtherIo, s))"

text \<open>\<open>renameat2\<close> with \<open>RENAME_NOREPLACE\<close>.\<close>

definition rename_noreplace :: "path \<Rightarrow> path \<Rightarrow> (fs, unit, io_error) st" where
  "rename_noreplace a b = syscall (\<lambda>s.
     case nodes s a of
       None \<Rightarrow> (Err NotFound, s)
     | Some n \<Rightarrow>
         if nodes s b \<noteq> None then (Err AlreadyExists, s)
         else if is_file n \<and> is_directory s (butlast b)
         then (Ok (), put a None (put b (Some n) s))
         else (Err OtherIo, s))"

text \<open>Renaming a directory to a name that is not taken moves the whole tree.\<close>

definition below :: "path \<Rightarrow> path \<Rightarrow> bool" where
  "below a p \<longleftrightarrow> take (length a) p = a"

definition rename_dir :: "path \<Rightarrow> path \<Rightarrow> (fs, unit, io_error) st" where
  "rename_dir a b = syscall (\<lambda>s.
     if is_directory s a \<and> nodes s b = None \<and> is_directory s (butlast b) \<and> \<not> below a b
     then (Ok (), s\<lparr>nodes := (\<lambda>p. if below b p then nodes s (a @ drop (length b) p)
                               else if below a p then None else nodes s p)\<rparr>)
     else (Err OtherIo, s))"

definition hard_link :: "path \<Rightarrow> path \<Rightarrow> (fs, unit, io_error) st" where
  "hard_link a b = syscall (\<lambda>s.
     case nodes s a of
       None \<Rightarrow> (Err NotFound, s)
     | Some n \<Rightarrow>
         if \<not> is_dir n \<and> nodes s b = None \<and> is_directory s (butlast b)
         then (Ok (), put b (Some n) s) else (Err OtherIo, s))"

definition remove_file :: "path \<Rightarrow> (fs, unit, io_error) st" where
  "remove_file p = syscall (\<lambda>s.
     case nodes s p of
       None \<Rightarrow> (Err NotFound, s)
     | Some n \<Rightarrow> if is_dir n then (Err OtherIo, s) else (Ok (), put p None s))"

definition remove_dir_all :: "path \<Rightarrow> (fs, unit, io_error) st" where
  "remove_dir_all a s =
     (case next_fault s of
        (Good, s') \<Rightarrow>
          if is_directory s' a then (Ok (), s'\<lparr>nodes := (\<lambda>p. if below a p then None else nodes s' p)\<rparr>)
          else (Err NotFound, s')
      | (Bad _ gone, s') \<Rightarrow>
          (Err OtherIo, s'\<lparr>nodes := (\<lambda>p. if below a p \<and> p \<in> gone then None else nodes s' p)\<rparr>))"

definition try_lock :: "path \<Rightarrow> (fs, unit, io_error) st" where
  "try_lock p = syscall (\<lambda>s.
     if p \<in> locked s then (Err OtherIo, s) else (Ok (), s\<lparr>locked := insert p (locked s)\<rparr>))"

text \<open>Files that are created without an explicit mode get \<open>0644\<close>. \<open>Path::exists\<close> and \<open>metadata().len()\<close> with
  \<open>unwrap_or(0)\<close> take a failing call for a missing file.\<close>

definition open_truncate :: "path \<Rightarrow> (fs, unit, io_error) st" where
  "open_truncate p = syscall (\<lambda>s.
     case nodes s p of
       Some (Regular m _) \<Rightarrow> (Ok (), put p (Some (Regular m [])) s)
     | Some _ \<Rightarrow> (Err OtherIo, s)
     | None \<Rightarrow>
         if is_directory s (butlast p)
         then (Ok (), put p (Some (Regular \<lparr>m_uid = euid s, m_mode = 420\<rparr> [])) s)
         else (Err OtherIo, s))"

definition set_mode :: "path \<Rightarrow> nat \<Rightarrow> (fs, unit, io_error) st" where
  "set_mode p mode = syscall (\<lambda>s.
     case nodes s p of
       Some (Regular m c) \<Rightarrow> (Ok (), put p (Some (Regular (m\<lparr>m_mode := mode\<rparr>) c)) s)
     | Some (Dir m) \<Rightarrow> (Ok (), put p (Some (Dir (m\<lparr>m_mode := mode\<rparr>))) s)
     | Some (Special m) \<Rightarrow> (Ok (), put p (Some (Special (m\<lparr>m_mode := mode\<rparr>))) s)
     | None \<Rightarrow> (Err NotFound, s))"

text \<open>Writing at an offset leaves the bytes before and behind, and fills a gap with zeros.\<close>

definition overwrite :: "nat \<Rightarrow> u8 list \<Rightarrow> u8 list \<Rightarrow> u8 list" where
  "overwrite off bs c = take off c @ replicate (off - length c) 0 @ bs @ drop (off + length bs) c"

definition write_at :: "path \<Rightarrow> nat \<Rightarrow> u8 list \<Rightarrow> (fs, unit, io_error) st" where
  "write_at p off bs s =
     (let (r, n, s') = (case next_fault s of (Good, s') \<Rightarrow> (Ok (), length bs, s') | (Bad k _, s') \<Rightarrow> (Err OtherIo, k, s')) in
      (r, case nodes s' p of
            Some (Regular m c) \<Rightarrow> if take n bs = [] then s' else put p (Some (Regular m (overwrite off (take n bs) c))) s'
          | _ \<Rightarrow> s'))"

definition path_exists :: "path \<Rightarrow> (fs, bool, 'e) st" where
  "path_exists p s = (case symlink_metadata p s of (r, s') \<Rightarrow> (Ok (is_ok r), s'))"

definition len_or_0 :: "path \<Rightarrow> (fs, nat, 'e) st" where
  "len_or_0 p s = (case symlink_metadata p s of (Inr n, s') \<Rightarrow> (Ok (node_len n), s') | (Inl _, s') \<Rightarrow> (Ok 0, s'))"

text \<open>\<open>let _ = ...\<close>: the outcome of an operation is ignored.\<close>

definition ignore :: "(fs, 'a, io_error) st \<Rightarrow> (fs, unit, 'e) st" where
  "ignore m s = (Ok (), snd (m s))"

definition unlock :: "path \<Rightarrow> fs \<Rightarrow> fs" where
  "unlock p s = s\<lparr>locked := locked s - {p}\<rparr>"

lemmas syscall_defs = symlink_metadata_def create_dir_def open_new_def open_create_def sync_all_def
  read_file_def rename_file_def rename_dir_def hard_link_def remove_file_def try_lock_def

section \<open>What the calls leave alone\<close>

text \<open>An operation leaves a view of the state alone, whatever it returns.\<close>

definition leaves :: "(fs \<Rightarrow> 'v) \<Rightarrow> (fs, 'a, 'e) st \<Rightarrow> bool" where
  "leaves f m \<longleftrightarrow> (\<forall>s. f (snd (m s)) = f s)"

named_theorems leaves_intro \<open>rules for operations that leave a view alone\<close>

lemma leavesD: "leaves f m \<Longrightarrow> m s = (r, s') \<Longrightarrow> f s' = f s"
  by (metis leaves_def snd_conv)

lemma leaves_lift [leaves_intro]: "leaves f (lift_st r)"
  by (simp add: leaves_def)

lemma leaves_bind [leaves_intro]:
  assumes "leaves f m" and "\<And>x. leaves f (g x)"
  shows "leaves f (bind_st m g)"
  unfolding leaves_def
proof
  fix s
  obtain r s1 where m: "m s = (r, s1)" by force
  with assms(1) have "f s1 = f s" by (rule leavesD)
  then show "f (snd (bind_st m g s)) = f s"
    using assms(2) by (cases r) (simp_all add: bind_st_def m leaves_def)
qed

text \<open>Views that do not look at the fault plan.\<close>

definition faultless :: "(fs \<Rightarrow> 'v) \<Rightarrow> bool" where
  "faultless f \<longleftrightarrow> (\<forall>s fs. f (s\<lparr>faults := fs\<rparr>) = f s)"

lemma faultless_nodes [simp]: "faultless (\<lambda>s. nodes s p)" "faultless nodes" "faultless locked" "faultless euid"
  by (simp_all add: faultless_def)

lemma next_fault_view: "faultless f \<Longrightarrow> f (snd (next_fault s)) = f s"
  by (simp add: faultless_def next_fault_def split: list.split)

lemma leaves_syscall:
  assumes "faultless f" and "\<And>s. f (snd (g s)) = f s"
  shows "leaves f (syscall g)"
  using assms next_fault_view [OF assms(1)]
  by (auto simp: leaves_def syscall_def split: prod.split fault.split) (metis snd_conv)+

lemma put_view:
  "nodes (put p n s) = (nodes s)(p := n)" "locked (put p n s) = locked s" "euid (put p n s) = euid s"
  "faults (put p n s) = faults s"
  by (simp_all add: put_def)

lemma append_view:
  "q \<noteq> p \<Longrightarrow> nodes (append p bs s) q = nodes s q" "locked (append p bs s) = locked s"
  "euid (append p bs s) = euid s" "faults (append p bs s) = faults s"
  by (auto simp: append_def put_view split: option.split node.split)

lemma leaves_read_only [leaves_intro]:
  assumes "faultless f"
  shows "leaves f (symlink_metadata p)" "leaves f (sync_all p)" "leaves f (read_file p)"
  unfolding symlink_metadata_def sync_all_def read_file_def
  by (rule leaves_syscall [OF assms], simp)+

lemma leaves_other_path [leaves_intro]:
  assumes "q \<noteq> p"
  shows "leaves (\<lambda>s. nodes s q) (create_dir p m)" "leaves (\<lambda>s. nodes s q) (open_new p m)"
    "leaves (\<lambda>s. nodes s q) (open_create p m)" "leaves (\<lambda>s. nodes s q) (remove_file p)"
    "leaves (\<lambda>s. nodes s q) (hard_link a p)"
  unfolding create_dir_def open_new_def open_create_def remove_file_def hard_link_def
  by (rule leaves_syscall, simp, use assms in \<open>simp add: put_view split: option.split\<close>)+

lemma leaves_write_all [leaves_intro]: "q \<noteq> p \<Longrightarrow> leaves (\<lambda>s. nodes s q) (write_all p bs)"
  unfolding leaves_def write_all_def
  using next_fault_view [of "\<lambda>s. nodes s q"]
  by (auto simp: append_view split: prod.split fault.split) (metis snd_conv faultless_nodes(1))+

lemma leaves_rename_file [leaves_intro]:
  "q \<noteq> a \<Longrightarrow> q \<noteq> b \<Longrightarrow> leaves (\<lambda>s. nodes s q) (rename_file a b)"
  unfolding rename_file_def by (rule leaves_syscall) (simp_all add: put_view split: option.split)

lemma leaves_try_lock [leaves_intro]: "leaves (\<lambda>s. nodes s q) (try_lock p)" "leaves nodes (try_lock p)"
  unfolding try_lock_def by (rule leaves_syscall, simp, simp)+

text \<open>The effective user never changes.\<close>

lemma leaves_euid [leaves_intro]:
  "leaves euid (create_dir p m)" "leaves euid (open_new p m)" "leaves euid (open_create p m)"
  "leaves euid (remove_file p)" "leaves euid (hard_link a p)" "leaves euid (rename_file a p)"
  "leaves euid (try_lock p)"
  unfolding create_dir_def open_new_def open_create_def remove_file_def hard_link_def rename_file_def try_lock_def
  by (rule leaves_syscall, simp, simp add: put_view split: option.split)+

lemma leaves_euid_write [leaves_intro]: "leaves euid (write_all p bs)"
  unfolding leaves_def write_all_def
  using next_fault_view [of euid]
  by (auto simp: append_view split: prod.split fault.split) (metis snd_conv faultless_nodes(4))+

lemma leaves_pair [leaves_intro]: "leaves f m \<Longrightarrow> leaves g m \<Longrightarrow> leaves (\<lambda>s. (f s, g s)) m"
  by (simp add: leaves_def)

lemma triple_leaves:
  assumes "leaves v m"
  shows "triple (\<lambda>s. P (v s)) m (\<lambda>_ s. P (v s)) (\<lambda>_ s. P (v s))"
  unfolding triple_def by (auto split: prod.split sum.split dest: leavesD [OF assms])

section \<open>What successful calls do\<close>

lemma syscall_Ok: "syscall f s = (Inr x, s') \<Longrightarrow> \<exists>fs. f (s\<lparr>faults := fs\<rparr>) = (Inr x, s')"
proof -
  assume a: "syscall f s = (Inr x, s')"
  have "snd (next_fault s) = s\<lparr>faults := faults (snd (next_fault s))\<rparr>"
    by (simp add: next_fault_def split: list.split)
  with a show ?thesis
    by (auto simp: syscall_def split: prod.splits fault.splits) metis
qed

lemma open_new_Ok:
  "open_new p m s = (Inr x, s') \<Longrightarrow> nodes s' p = Some (Regular \<lparr>m_uid = euid s, m_mode = m\<rparr> [])"
  unfolding open_new_def by (auto dest!: syscall_Ok simp: put_view split: if_splits)

lemma write_all_Ok:
  assumes "write_all p bs s = (Inr x, s')" and "nodes s p = Some (Regular m c)"
  shows "nodes s' p = Some (Regular m (c @ bs))"
proof -
  obtain s1 where s1: "next_fault s = (Good, s1)" "s' = append p bs s1"
    using assms(1) by (auto simp: write_all_def split: prod.splits fault.splits)
  have "nodes s1 p = Some (Regular m c)"
    using next_fault_view [of "\<lambda>s. nodes s p" s] s1(1) assms(2) by simp
  then show ?thesis by (simp add: s1(2) append_def put_view)
qed

lemma rename_file_Ok:
  "rename_file a b s = (Inr x, s') \<Longrightarrow> a \<noteq> b \<Longrightarrow> nodes s' b = nodes s a \<and> nodes s' a = None"
  unfolding rename_file_def by (auto dest!: syscall_Ok simp: put_view split: option.splits if_splits)

lemma hard_link_Ok: "hard_link a b s = (Inr x, s') \<Longrightarrow> nodes s' b = nodes s a \<and> nodes s b = None"
  unfolding hard_link_def by (auto dest!: syscall_Ok simp: put_view split: option.splits if_splits)

lemma syscall_Err:
  assumes "syscall f s = (Inl e, s')" and "faultless v" and "\<And>s e. fst (f s) = Inl e \<Longrightarrow> v (snd (f s)) = v s"
  shows "v s' = v s"
proof -
  have n: "v (snd (next_fault s)) = v s" using assms(2) by (rule next_fault_view)
  show ?thesis
  proof (cases "fst (next_fault s)")
    case Good
    then have "f (snd (next_fault s)) = (Inl e, s')" using assms(1) by (simp add: syscall_def split: prod.splits)
    then show ?thesis using assms(3) [of "snd (next_fault s)" e] n by simp
  next
    case (Bad k ps)
    then show ?thesis using assms(1) n by (auto simp: syscall_def split: prod.splits)
  qed
qed

lemma rename_file_Err: "rename_file a b s = (Inl e, s') \<Longrightarrow> nodes s' q = nodes s q"
  unfolding rename_file_def
  by (erule syscall_Err [where v = "\<lambda>s. nodes s q"]) (auto split: option.splits if_splits)

lemma hard_link_Err: "hard_link a b s = (Inl e, s') \<Longrightarrow> nodes s' q = nodes s q"
  unfolding hard_link_def
  by (erule syscall_Err [where v = "\<lambda>s. nodes s q"]) (auto split: option.splits if_splits)

text \<open>Without faults left, a call does what it says.\<close>

lemma syscall_fault_free: "faults s = [] \<Longrightarrow> syscall f s = f s"
  by (simp add: syscall_def next_fault_def)

end
