(* ===== verification/Checkpoint.thy ===== *)
theory Checkpoint
  imports File_System Encryption Manifest
begin

text \<open>
  \<open>crates/transfer-native/src/checkpoint.rs\<close> on Unix: private job directories with an advisory lock,
  records sealed under a catalog key, and ciphertext that is stored once. Operations run on the file
  system of \<open>File_System\<close>, whose calls fail as its fault plan says. Contexts that only add text to an
  error are dropped. JSON is a parameter of the operations that use it, the cipher and the random
  source are those of \<open>Encryption\<close>. Shown: saving replaces a record atomically under every failure,
  what is saved loads again, stored ciphertext is never replaced, names stay inside the job
  directory, and two boundaries where the code does not do what its comments say.
\<close>

section \<open>Constants and errors\<close>

definition MAX_CHECKPOINT_BYTES :: nat where "MAX_CHECKPOINT_BYTES = 64 * 1024 * 1024"
definition MAX_IMMUTABLE_BYTES :: nat where "MAX_IMMUTABLE_BYTES = 25000000"
definition LOCK_NAME :: rstr where "LOCK_NAME = lit ''lock''"
definition CHECKPOINT_NAME :: rstr where "CHECKPOINT_NAME = lit ''checkpoint.json''"
definition CHECKPOINT_TEMP_NAME :: rstr where "CHECKPOINT_TEMP_NAME = lit ''checkpoint.json.new''"
definition CATALOG_KEY_NAME :: rstr where "CATALOG_KEY_NAME = lit ''.catalog-key-v1''"
definition CATALOG_SCOPE :: rstr where "CATALOG_SCOPE = lit ''checkpoint-catalog-v1''"
definition ENVELOPE_MAGIC :: "u8 list" where "ENVELOPE_MAGIC = byte_lit ''FBCK''"
definition ENVELOPE_VERSION :: u8 where "ENVELOPE_VERSION = 1"

datatype ck_error = CkIo io_error | CkMsg string

type_synonym 'a ck_op = "(fs, 'a, ck_error) st"

definition io :: "(fs, 'a, io_error) st \<Rightarrow> 'a ck_op" where
  "io m s = (case m s of (r, s') \<Rightarrow> (map_err CkIo r, s'))"

text \<open>\<open>match fs::symlink_metadata(path)\<close> with the arms for a node, for a missing path and for any
  other error, which is returned.\<close>

definition inspect :: "path \<Rightarrow> (node \<Rightarrow> 'a ck_op) \<Rightarrow> 'a ck_op \<Rightarrow> 'a ck_op" where
  "inspect p found missing s =
     (case symlink_metadata p s of
        (Inr n, s') \<Rightarrow> found n s'
      | (Inl NotFound, s') \<Rightarrow> missing s'
      | (Inl e, s') \<Rightarrow> (Err (CkIo e), s'))"

section \<open>Names\<close>

definition plain_name_char :: "nat \<Rightarrow> bool" where
  "plain_name_char c \<longleftrightarrow> ascii_alphanumeric c \<or> c = 46 \<or> c = 95 \<or> c = 45"

definition valid_name :: "rstr \<Rightarrow> bool" where
  "valid_name name \<longleftrightarrow>
     name \<noteq> [] \<and> str_len name \<le> 128
     \<and> \<not> (ends_with name (lit ''.'') \<or> ends_with name (lit '' ''))
     \<and> list_all (\<lambda>b. plain_name_char (unat b)) (bytes name)
     \<and> \<not> is_windows_device_name name"

definition validate_name :: "rstr \<Rightarrow> string \<Rightarrow> (unit, ck_error) result" where
  "validate_name name kind = (if valid_name name then Ok () else Err (CkMsg (''invalid '' @ kind)))"

definition validate_artifact_name :: "rstr \<Rightarrow> (unit, ck_error) result" where
  "validate_artifact_name name =
     and_then (validate_name name ''immutable ciphertext name'') (\<lambda>_.
       if name = LOCK_NAME \<or> name = CHECKPOINT_NAME \<or> name = CHECKPOINT_TEMP_NAME \<or> ends_with name (lit ''.new'')
       then Err (CkMsg ''reserved immutable ciphertext name'') else Ok ())"

definition validate_checkpoint_name :: "rstr \<Rightarrow> (unit, ck_error) result" where
  "validate_checkpoint_name name =
     and_then (validate_name name ''checkpoint name'') (\<lambda>_.
       if name = LOCK_NAME \<or> ends_with name (lit ''.new'')
       then Err (CkMsg ''reserved checkpoint name'') else Ok ())"

section \<open>Private files and directories\<close>

text \<open>\<open>metadata.mode() & 0o077\<close> is the mode modulo 64.\<close>

definition validate_platform_private :: "node \<Rightarrow> unit ck_op" where
  "validate_platform_private n s =
     (if m_uid (node_meta n) \<noteq> euid s \<or> m_mode (node_meta n) mod 64 \<noteq> 0
      then Err (CkMsg ''private path is not owner-only'') else Ok (), s)"

definition validate_platform_owner :: "node \<Rightarrow> unit ck_op" where
  "validate_platform_owner n s =
     (if m_uid (node_meta n) \<noteq> euid s
      then Err (CkMsg ''private path is not owned by the current user'') else Ok (), s)"

definition validate_private_regular_file :: "node \<Rightarrow> unit ck_op" where
  "validate_private_regular_file n =
     (if \<not> is_file n then lift_st (Err (CkMsg ''private path is not a regular file''))
      else validate_platform_private n)"

definition validate_private_directory :: "node \<Rightarrow> unit ck_op" where
  "validate_private_directory n =
     (if \<not> is_dir n then lift_st (Err (CkMsg ''private path is not a directory''))
      else validate_platform_private n)"

definition validate_private_root :: "node \<Rightarrow> unit ck_op" where
  "validate_private_root n =
     (if \<not> is_dir n then lift_st (Err (CkMsg ''private path is not a directory''))
      else validate_platform_owner n)"

definition ensure_private_dir :: "path \<Rightarrow> unit ck_op" where
  "ensure_private_dir p = bind_st (io (symlink_metadata p)) validate_private_directory"

definition create_private_dir :: "path \<Rightarrow> unit ck_op" where
  "create_private_dir p = io (create_dir p 448)"

text \<open>The ancestors that do not exist, innermost first, and their creation from the outermost.\<close>

function missing_ancestors :: "path \<Rightarrow> path list ck_op" where
  "missing_ancestors p =
     inspect p
       (\<lambda>n. if \<not> is_dir n then lift_st (Err (CkMsg ''private path is not a directory'')) else lift_st (Ok []))
       (if p = [] then lift_st (Err (CkMsg ''cannot create transfer root''))
        else bind_st (missing_ancestors (butlast p)) (\<lambda>ps. lift_st (Ok (p # ps))))"
  by auto
termination by (relation "measure length") auto

declare missing_ancestors.simps [simp del]

fun create_dirs :: "path list \<Rightarrow> unit ck_op" where
  "create_dirs [] = lift_st (Ok ())"
| "create_dirs (p # ps) =
     bind_st (create_private_dir p) (\<lambda>_. bind_st (ensure_private_dir p) (\<lambda>_. create_dirs ps))"

definition create_private_root :: "path \<Rightarrow> unit ck_op" where
  "create_private_root home = bind_st (missing_ancestors home) (\<lambda>missing. create_dirs (rev missing))"

definition ensure_private_root :: "path \<Rightarrow> bool \<Rightarrow> unit ck_op" where
  "ensure_private_root home create =
     inspect home validate_private_root
       (if create then bind_st (create_private_root home) (\<lambda>_. ensure_private_dir home)
        else lift_st (Err (CkMsg ''transfer root does not exist'')))"

definition remove_stale_private_file :: "path \<Rightarrow> unit ck_op" where
  "remove_stale_private_file p =
     inspect p (\<lambda>n. bind_st (validate_private_regular_file n) (\<lambda>_. io (remove_file p)))
       (lift_st (Ok ()))"

definition write_new_private_file :: "path \<Rightarrow> u8 list \<Rightarrow> unit ck_op" where
  "write_new_private_file p bs =
     bind_st (io (open_new p 384)) (\<lambda>_.
     bind_st (io (write_all p bs)) (\<lambda>_. io (sync_all p)))"

definition replace_private_file :: "path \<Rightarrow> path \<Rightarrow> bool \<Rightarrow> unit ck_op" where
  "replace_private_file source destination replace_existing =
     (if replace_existing then io (rename_file source destination)
      else bind_st (io (hard_link source destination)) (\<lambda>_. io (remove_file source)))"

definition sync_directory :: "path \<Rightarrow> unit ck_op" where
  "sync_directory p = io (sync_all p)"

section \<open>The catalog key of the command line client\<close>

definition load_or_create :: "rng \<Rightarrow> path \<Rightarrow> rstr \<Rightarrow> u8 list ck_op" where
  "load_or_create getrandom home scope =
     (if scope \<noteq> CATALOG_SCOPE then lift_st (Err (CkMsg ''unknown checkpoint secret scope''))
      else
        let p = home @ [CATALOG_KEY_NAME] in
        inspect p
          (\<lambda>n. bind_st (validate_private_regular_file n) (\<lambda>_.
               bind_st (io (read_file p)) (\<lambda>bs.
               lift_st (if length bs = 32 then Ok bs else Err (CkMsg ''invalid checkpoint catalog key'')))))
          (bind_st (lift_st (map_err CkMsg (getrandom 32))) (\<lambda>key.
           bind_st (write_new_private_file p key) (\<lambda>_. lift_st (Ok key)))))"

definition remove_secret :: "path \<Rightarrow> rstr \<Rightarrow> unit ck_op" where
  "remove_secret home scope s =
     (if scope \<noteq> CATALOG_SCOPE then (Err (CkMsg ''unknown checkpoint secret scope''), s)
      else case remove_file (home @ [CATALOG_KEY_NAME]) s of
             (Inl NotFound, s') \<Rightarrow> (Ok (), s')
           | (r, s') \<Rightarrow> (map_err CkIo r, s'))"

section \<open>Stores\<close>

record store =
  st_directory :: path
  st_job :: rstr
  st_catalog_key :: "u8 list"

definition acquire_lock :: "path \<Rightarrow> unit ck_op" where
  "acquire_lock directory =
     (let p = directory @ [LOCK_NAME] in
      bind_st (inspect p validate_private_regular_file (lift_st (Ok ()))) (\<lambda>_.
      bind_st (io (open_create p 384)) (\<lambda>_.
      bind_st (io (symlink_metadata p)) (\<lambda>n.
      bind_st (validate_private_regular_file n) (\<lambda>_.
      io (try_lock p))))))"

text \<open>A failure to read the key drops the lock with the local variable.\<close>

definition open_locked :: "path \<Rightarrow> rstr \<Rightarrow> u8 list ck_op \<Rightarrow> store ck_op" where
  "open_locked directory i secret =
     bind_st (acquire_lock directory) (\<lambda>_ s.
       case secret s of
         (Inl e, s') \<Rightarrow> (Err e, unlock (directory @ [LOCK_NAME]) s')
       | (Inr key, s') \<Rightarrow> (Ok \<lparr>st_directory = directory, st_job = i, st_catalog_key = key\<rparr>, s'))"

definition store_drop :: "store \<Rightarrow> fs \<Rightarrow> fs" where
  "store_drop st = unlock (st_directory st @ [LOCK_NAME])"

definition create_with_secret_store :: "path \<Rightarrow> rstr \<Rightarrow> u8 list ck_op \<Rightarrow> store ck_op" where
  "create_with_secret_store home i secret =
     bind_st (lift_st (validate_name i ''transfer job id'')) (\<lambda>_.
     bind_st (ensure_private_root home True) (\<lambda>_.
     let directory = home @ [i] in
     bind_st (create_private_dir directory) (\<lambda>_.
     bind_st (ensure_private_dir directory) (\<lambda>_.
     bind_st (sync_directory home) (\<lambda>_. open_locked directory i secret)))))"

definition open_with_secret_store :: "path \<Rightarrow> rstr \<Rightarrow> u8 list ck_op \<Rightarrow> store ck_op" where
  "open_with_secret_store home i secret =
     bind_st (lift_st (validate_name i ''transfer job id'')) (\<lambda>_.
     bind_st (ensure_private_root home False) (\<lambda>_.
     let directory = home @ [i] in
     bind_st (ensure_private_dir directory) (\<lambda>_. open_locked directory i secret)))"

text \<open>The new name carries a fresh identifier; the lock is dropped before the removal, or with the
  local variable when the renaming fails.\<close>

definition store_discard :: "path \<Rightarrow> rstr \<Rightarrow> rstr \<Rightarrow> unit ck_op" where
  "store_discard home i fresh =
     bind_st (lift_st (validate_name i ''transfer job id'')) (\<lambda>_.
     bind_st (ensure_private_root home False) (\<lambda>_.
     let directory = home @ [i]; discarded = home @ [lit ''.'' @ i @ lit ''.discarding-'' @ fresh] in
     bind_st (ensure_private_dir directory) (\<lambda>_.
     bind_st (acquire_lock directory) (\<lambda>_ s.
       case io (rename_dir directory discarded) s of
         (Inl e, s') \<Rightarrow> (Err e, unlock (directory @ [LOCK_NAME]) s')
       | (Inr _, s') \<Rightarrow> io (remove_dir_all discarded) (unlock (directory @ [LOCK_NAME]) s')))))"

section \<open>Records\<close>

definition record_aad :: "store \<Rightarrow> rstr \<Rightarrow> u8 list" where
  "record_aad st name = bytes (lit ''filebeam:checkpoint:v1:'' @ st_job st @ lit '':'' @ name)"

definition seal :: "crypto \<Rightarrow> rng \<Rightarrow> store \<Rightarrow> rstr \<Rightarrow> u8 list \<Rightarrow> (u8 list, ck_error) result" where
  "seal cr getrandom st name plaintext =
     and_then (map_err CkMsg (getrandom 24)) (\<lambda>nonce.
     and_then (ok_or (CkMsg ''encrypt checkpoint catalog'')
                (aead_seal cr (st_catalog_key st) nonce (record_aad st name) plaintext)) (\<lambda>ciphertext.
     Ok (ENVELOPE_MAGIC @ [ENVELOPE_VERSION] @ nonce @ ciphertext)))"

definition open_record :: "crypto \<Rightarrow> store \<Rightarrow> rstr \<Rightarrow> u8 list \<Rightarrow> (u8 list, ck_error) result" where
  "open_record cr st name bs =
     (if \<not> starts_with bs ENVELOPE_MAGIC then Ok bs
      else if length bs < 4 + 1 + 24 + 16 \<or> bs ! 4 \<noteq> ENVELOPE_VERSION
        then Err (CkMsg ''invalid checkpoint catalog envelope'')
      else ok_or (CkMsg ''checkpoint catalog authentication failed'')
             (aead_open cr (st_catalog_key st) (take 24 (drop 5 bs)) (record_aad st name) (drop 29 bs)))"

definition temporary :: "store \<Rightarrow> rstr \<Rightarrow> path" where
  "temporary st name = st_directory st @ [name @ lit ''.new'']"

definition save_named ::
  "crypto \<Rightarrow> rng \<Rightarrow> ('t \<Rightarrow> u8 list option) \<Rightarrow> store \<Rightarrow> rstr \<Rightarrow> 't \<Rightarrow> unit ck_op" where
  "save_named cr getrandom to_vec st name v =
     bind_st (lift_st (validate_checkpoint_name name)) (\<lambda>_.
     bind_st (lift_st (ok_or (CkMsg ''serialize transfer checkpoint'') (to_vec v))) (\<lambda>encoded.
     if MAX_CHECKPOINT_BYTES < length encoded
     then lift_st (Err (CkMsg ''transfer checkpoint exceeds byte limit''))
     else
       let p = st_directory st @ [name] in
       bind_st (remove_stale_private_file (temporary st name)) (\<lambda>_.
       bind_st (inspect p validate_private_regular_file (lift_st (Ok ()))) (\<lambda>_.
       bind_st (lift_st (seal cr getrandom st name encoded)) (\<lambda>sealed.
       bind_st (write_new_private_file (temporary st name) sealed) (\<lambda>_.
       bind_st (replace_private_file (temporary st name) p True) (\<lambda>_.
       sync_directory (st_directory st))))))))"

definition load_named ::
  "crypto \<Rightarrow> (u8 list \<Rightarrow> 't option) \<Rightarrow> store \<Rightarrow> rstr \<Rightarrow> 't option ck_op" where
  "load_named cr from_slice st name =
     bind_st (lift_st (validate_checkpoint_name name)) (\<lambda>_.
     let p = st_directory st @ [name] in
     inspect p
       (\<lambda>n. bind_st (validate_private_regular_file n) (\<lambda>_.
            if MAX_CHECKPOINT_BYTES < node_len n
            then lift_st (Err (CkMsg ''transfer checkpoint exceeds byte limit''))
            else
              bind_st (io (read_file p)) (\<lambda>bs.
              if MAX_CHECKPOINT_BYTES < length (take (MAX_CHECKPOINT_BYTES + 1) bs)
              then lift_st (Err (CkMsg ''transfer checkpoint exceeds byte limit''))
              else
                bind_st (lift_st (open_record cr st name bs)) (\<lambda>plaintext.
                lift_st (and_then (ok_or (CkMsg ''parse transfer checkpoint'') (from_slice plaintext))
                           (\<lambda>v. Ok (Some v)))))))
       (lift_st (Ok None)))"

definition remove_named :: "store \<Rightarrow> rstr \<Rightarrow> unit ck_op" where
  "remove_named st name =
     bind_st (lift_st (validate_checkpoint_name name)) (\<lambda>_.
     let p = st_directory st @ [name] in
     inspect p
       (\<lambda>n. bind_st (validate_private_regular_file n) (\<lambda>_.
            bind_st (io (remove_file p)) (\<lambda>_. sync_directory (st_directory st))))
       (lift_st (Ok ())))"

definition store_save where "store_save cr getrandom to_vec st v = save_named cr getrandom to_vec st CHECKPOINT_NAME v"
definition store_load where "store_load cr from_slice st = load_named cr from_slice st CHECKPOINT_NAME"

definition persist_immutable :: "store \<Rightarrow> rstr \<Rightarrow> u8 list \<Rightarrow> path ck_op" where
  "persist_immutable st name ciphertext =
     bind_st (lift_st (validate_artifact_name name)) (\<lambda>_.
     if MAX_IMMUTABLE_BYTES < length ciphertext
     then lift_st (Err (CkMsg ''immutable ciphertext exceeds byte limit''))
     else
       let p = st_directory st @ [name] in
       bind_st (ensure_private_dir (st_directory st)) (\<lambda>_.
       bind_st (inspect p (\<lambda>_. lift_st (Err (CkMsg ''immutable ciphertext already exists''))) (lift_st (Ok ()))) (\<lambda>_.
       bind_st (remove_stale_private_file (temporary st name)) (\<lambda>_.
       bind_st (write_new_private_file (temporary st name) ciphertext) (\<lambda>_.
       bind_st (replace_private_file (temporary st name) p False) (\<lambda>_.
       bind_st (sync_directory (st_directory st)) (\<lambda>_. lift_st (Ok p))))))))"

text \<open>Secrets are records that hold a base64 string.\<close>

record secret_codec =
  standard_encode :: "u8 list \<Rightarrow> rstr"
  standard_decode :: "rstr \<Rightarrow> u8 list option"
  string_to_vec :: "rstr \<Rightarrow> u8 list option"
  string_from_slice :: "u8 list \<Rightarrow> rstr option"

definition save_secret :: "crypto \<Rightarrow> rng \<Rightarrow> secret_codec \<Rightarrow> store \<Rightarrow> rstr \<Rightarrow> u8 list \<Rightarrow> unit ck_op" where
  "save_secret cr getrandom sc st name v = save_named cr getrandom (string_to_vec sc) st name (standard_encode sc v)"

definition load_secret :: "crypto \<Rightarrow> secret_codec \<Rightarrow> store \<Rightarrow> rstr \<Rightarrow> u8 list option ck_op" where
  "load_secret cr sc st name =
     bind_st (lift_st (validate_checkpoint_name name)) (\<lambda>_.
     let p = st_directory st @ [name] in
     inspect p
       (\<lambda>n. bind_st (validate_private_regular_file n) (\<lambda>_.
            if MAX_CHECKPOINT_BYTES < node_len n
            then lift_st (Err (CkMsg ''saved secret exceeds byte limit''))
            else
              bind_st (io (read_file p)) (\<lambda>bs.
              if \<not> starts_with bs ENVELOPE_MAGIC then lift_st (Ok (Some bs))
              else
                bind_st (lift_st (open_record cr st name bs)) (\<lambda>plaintext.
                bind_st (lift_st (ok_or (CkMsg ''parse saved secret'') (string_from_slice sc plaintext))) (\<lambda>encoded.
                lift_st (and_then (ok_or (CkMsg ''parse saved secret'') (standard_decode sc encoded)) (\<lambda>v. Ok (Some v))))))))
       (lift_st (Ok None)))"

section \<open>Views the operations leave alone\<close>

lemma leaves_io [leaves_intro]: "leaves f m \<Longrightarrow> leaves f (io m)"
  by (simp add: leaves_def io_def split_beta)

lemma leaves_inspect [leaves_intro]:
  assumes "faultless f" "\<And>n. leaves f (found n)" "leaves f missing"
  shows "leaves f (inspect p found missing)"
  unfolding leaves_def
proof
  fix s
  obtain r s1 where m: "symlink_metadata p s = (r, s1)" by force
  have "f s1 = f s" using leavesD [OF leaves_read_only(1) [OF assms(1)] m] .
  then show "f (snd (inspect p found missing s)) = f s"
    using assms(2,3) by (auto simp: inspect_def m leaves_def split: sum.split io_error.split)
qed

lemma leaves_validate [leaves_intro]:
  "leaves f (validate_platform_private n)" "leaves f (validate_platform_owner n)"
  "leaves f (validate_private_regular_file n)" "leaves f (validate_private_directory n)"
  "leaves f (validate_private_root n)"
  by (auto simp: leaves_def validate_platform_private_def validate_platform_owner_def
      validate_private_regular_file_def validate_private_directory_def validate_private_root_def)

lemma leaves_stale [leaves_intro]:
  "q \<noteq> p \<Longrightarrow> leaves (\<lambda>s. nodes s q) (remove_stale_private_file p)"
  "leaves euid (remove_stale_private_file p)"
  unfolding remove_stale_private_file_def by (intro leaves_intro faultless_nodes | simp)+

lemma leaves_write_new [leaves_intro]:
  "q \<noteq> p \<Longrightarrow> leaves (\<lambda>s. nodes s q) (write_new_private_file p bs)"
  "leaves euid (write_new_private_file p bs)"
  unfolding write_new_private_file_def by (intro leaves_intro faultless_nodes | simp)+

lemma leaves_sync [leaves_intro]: "faultless f \<Longrightarrow> leaves f (sync_directory p)"
  unfolding sync_directory_def by (intro leaves_intro)

lemma leaves_replace [leaves_intro]:
  "q \<noteq> a \<Longrightarrow> q \<noteq> b \<Longrightarrow> leaves (\<lambda>s. nodes s q) (replace_private_file a b x)"
  unfolding replace_private_file_def by (cases x) (simp_all, (intro leaves_intro | simp)+)

lemma leaves_ensure_dir [leaves_intro]: "faultless f \<Longrightarrow> leaves f (ensure_private_dir p)"
  unfolding ensure_private_dir_def by (intro leaves_intro)

lemma io_Ok: "io m s = (Inr x, s') \<longleftrightarrow> m s = (Inr x, s')"
  by (auto simp: io_def split: prod.splits)

lemma io_Err: "io m s = (Inl e, s') \<Longrightarrow> \<exists>e'. m s = (Inl e', s')"
  by (auto simp: io_def map_err_def split: prod.splits sum.splits)

lemma write_new_Ok:
  "write_new_private_file p bs s = (Inr x, s') \<Longrightarrow>
     nodes s' p = Some (Regular \<lparr>m_uid = euid s, m_mode = 384\<rparr> bs)"
  unfolding write_new_private_file_def
  by (auto simp: bind_st_Inr io_Ok dest!: open_new_Ok write_all_Ok leavesD [OF leaves_read_only(2) [OF faultless_nodes(1) [of p]]])

lemma temporary_neq [simp]: "temporary st name \<noteq> st_directory st @ [name]"
  "st_directory st @ [name] \<noteq> temporary st name"
  by (simp_all add: temporary_def)

section \<open>Saving is atomic\<close>

lemma save_named_other:
  "q \<noteq> st_directory st @ [name] \<Longrightarrow> q \<noteq> temporary st name \<Longrightarrow>
   leaves (\<lambda>s. nodes s q) (save_named cr rg to_vec st name v)"
  unfolding save_named_def Let_def
  by (intro leaves_bind leaves_lift) (auto intro!: leaves_intro faultless_nodes)

lemma triple_write_new:
  assumes "q \<noteq> p"
  shows "triple (\<lambda>s. nodes s q = old \<and> euid s = u) (write_new_private_file p bs)
     (\<lambda>_ s. nodes s q = old \<and> nodes s p = Some (Regular \<lparr>m_uid = u, m_mode = 384\<rparr> bs))
     (\<lambda>_ s. nodes s q = old)"
  unfolding triple_def
  using leavesD [OF leaves_write_new(1) [OF assms]]
  by (auto split: prod.split sum.split dest: write_new_Ok)

lemma triple_rename:
  assumes "a \<noteq> b"
  shows "triple (\<lambda>s. nodes s b = old \<and> nodes s a = n) (replace_private_file a b True)
     (\<lambda>_ s. nodes s b = n) (\<lambda>_ s. nodes s b = old)"
  unfolding triple_def replace_private_file_def
  by (auto simp: io_Ok split: prod.split sum.split dest!: io_Err rename_file_Err rename_file_Ok [OF _ assms])

lemma triple_keep:
  assumes "leaves (\<lambda>s. nodes s q) m" and "leaves euid m"
  shows "triple (\<lambda>s. nodes s q = old \<and> euid s = u) m (\<lambda>_ s. nodes s q = old \<and> euid s = u) (\<lambda>_ s. nodes s q = old)"
  using triple_leaves [OF leaves_pair [OF assms], where P = "\<lambda>v. v = (old, u)"]
  by (rule triple_conseq) auto

text \<open>The bytes a successful save publishes.\<close>

definition sealed_as ::
  "crypto \<Rightarrow> rng \<Rightarrow> ('t \<Rightarrow> u8 list option) \<Rightarrow> store \<Rightarrow> rstr \<Rightarrow> 't \<Rightarrow> u8 list \<Rightarrow> bool" where
  "sealed_as cr rg to_vec st name v bs \<longleftrightarrow>
     (\<exists>e. to_vec v = Some e \<and> length e \<le> MAX_CHECKPOINT_BYTES \<and> seal cr rg st name e = Ok bs)"

lemma save_named_triple:
  assumes p: "p = st_directory st @ [name]"
  shows "triple (\<lambda>s. nodes s p = old \<and> euid s = u) (save_named cr rg to_vec st name v)
     (\<lambda>_ s. \<exists>bs. sealed_as cr rg to_vec st name v bs \<and> nodes s p = Some (Regular \<lparr>m_uid = u, m_mode = 384\<rparr> bs))
     (\<lambda>_ s. nodes s p = old \<or>
        (\<exists>bs. sealed_as cr rg to_vec st name v bs \<and> nodes s p = Some (Regular \<lparr>m_uid = u, m_mode = 384\<rparr> bs)))"
    (is "triple ?P _ ?Q ?E")
proof -
  let ?t = "temporary st name"
  let ?new = "\<lambda>bs s. nodes s p = Some (Regular \<lparr>m_uid = u, m_mode = 384\<rparr> bs)"
  have body: "triple ?P
     (bind_st (remove_stale_private_file ?t) (\<lambda>_.
      bind_st (inspect p validate_private_regular_file (lift_st (Ok ()))) (\<lambda>_.
      bind_st (lift_st (seal cr rg st name e)) (\<lambda>sealed.
      bind_st (write_new_private_file ?t sealed) (\<lambda>_.
      bind_st (replace_private_file ?t p True) (\<lambda>_. sync_directory (st_directory st))))))) ?Q ?E"
    if e: "to_vec v = Some e" "length e \<le> MAX_CHECKPOINT_BYTES" for e
  proof (intro triple_bind)
    show "triple ?P (remove_stale_private_file ?t) (\<lambda>_. ?P) ?E"
      by (rule triple_conseq [OF triple_keep]) (auto intro!: leaves_intro simp: p)
    show "triple ?P (inspect p validate_private_regular_file (lift_st (Ok ()))) (\<lambda>_. ?P) ?E"
      by (rule triple_conseq [OF triple_keep]) (auto intro!: leaves_intro)
    show "triple ?P (lift_st (seal cr rg st name e))
        (\<lambda>bs s. ?P s \<and> sealed_as cr rg to_vec st name v bs) ?E"
      using e by (intro triple_lift) (auto simp: sealed_as_def)
    show "triple (\<lambda>s. ?P s \<and> sealed_as cr rg to_vec st name v bs) (write_new_private_file ?t bs)
        (\<lambda>_ s. (nodes s p = old \<and> nodes s ?t = Some (Regular \<lparr>m_uid = u, m_mode = 384\<rparr> bs))
           \<and> sealed_as cr rg to_vec st name v bs) ?E" for bs
      by (rule triple_conseq [OF triple_frame [OF triple_write_new [of p ?t old u bs], where C = "sealed_as cr rg to_vec st name v bs"]])
         (auto simp: p)
    show "triple (\<lambda>s. (nodes s p = old \<and> nodes s ?t = Some (Regular \<lparr>m_uid = u, m_mode = 384\<rparr> bs))
           \<and> sealed_as cr rg to_vec st name v bs)
        (replace_private_file ?t p True) (\<lambda>_ s. ?new bs s \<and> sealed_as cr rg to_vec st name v bs) ?E" for bs
      by (rule triple_conseq [OF triple_frame [OF triple_rename [of ?t p old
            "Some (Regular \<lparr>m_uid = u, m_mode = 384\<rparr> bs)"], where C = "sealed_as cr rg to_vec st name v bs"]])
         (auto simp: p)
    show "triple (\<lambda>s. ?new bs s \<and> sealed_as cr rg to_vec st name v bs) (sync_directory (st_directory st)) ?Q ?E" for bs
      by (rule triple_conseq [OF triple_leaves [where v = "\<lambda>s. nodes s p"
            and P = "\<lambda>n. n = Some (Regular \<lparr>m_uid = u, m_mode = 384\<rparr> bs) \<and> sealed_as cr rg to_vec st name v bs"]])
         (auto intro!: leaves_intro)
  qed
  show ?thesis
    unfolding save_named_def Let_def
  proof (rule triple_bind [where R = "\<lambda>_. ?P"])
    show "triple ?P (lift_st (validate_checkpoint_name name)) (\<lambda>_. ?P) ?E" by (intro triple_lift) auto
  next
    fix x
    show "triple ?P (bind_st (lift_st (ok_or (CkMsg ''serialize transfer checkpoint'') (to_vec v))) (\<lambda>e.
        if MAX_CHECKPOINT_BYTES < length e then lift_st (Err (CkMsg ''transfer checkpoint exceeds byte limit''))
        else bind_st (remove_stale_private_file ?t) (\<lambda>_.
          bind_st (inspect (st_directory st @ [name]) validate_private_regular_file (lift_st (Ok ()))) (\<lambda>_.
          bind_st (lift_st (seal cr rg st name e)) (\<lambda>sealed.
          bind_st (write_new_private_file ?t sealed) (\<lambda>_.
          bind_st (replace_private_file ?t (st_directory st @ [name]) True) (\<lambda>_. sync_directory (st_directory st))))))))
        ?Q ?E"
    proof (cases "to_vec v")
      case (Some e)
      then show ?thesis using body [OF Some]
        by (cases "length e \<le> MAX_CHECKPOINT_BYTES") (auto simp: p not_less triple_def lift_st_def)
    qed (simp add: triple_def lift_st_def)
  qed
qed

text \<open>C13. Saving a record is atomic under every failure: whichever system call fails, and however much
  of it was done, the record is afterwards the untouched old one or the complete new one, owner-only;
  a successful save leaves the new one; and apart from the record and its temporary file nothing in
  the file system changes.\<close>

theorem checkpoint_save_is_atomic:
  "let p = st_directory st @ [name];
       (r, s') = save_named cr rg to_vec st name v s;
       new = (\<exists>bs. sealed_as cr rg to_vec st name v bs
                \<and> nodes s' p = Some (Regular \<lparr>m_uid = euid s, m_mode = 384\<rparr> bs))
   in (if is_ok r then new else nodes s' p = nodes s p \<or> new)
      \<and> (\<forall>q. if q = p \<or> q = temporary st name then True else nodes s' q = nodes s q)"
proof -
  let ?p = "st_directory st @ [name]"
  obtain r s' where run: "save_named cr rg to_vec st name v s = (r, s')" by force
  note t = save_named_triple [OF refl, where old = "nodes s ?p" and u = "euid s", of st name cr rg to_vec v]
  have "nodes s' q = nodes s q" if "q \<noteq> ?p" "q \<noteq> temporary st name" for q
    using leavesD [OF save_named_other [OF that] run] .
  then show ?thesis
    using tripleD_Ok [OF t, of s] tripleD_Err [OF t, of s] run by (cases r) (auto simp: Let_def)
qed

section \<open>What is saved loads again\<close>

text \<open>The random source returns as many bytes as are asked for.\<close>

definition rng_sized :: "rng \<Rightarrow> bool" where
  "rng_sized rg \<longleftrightarrow> (\<forall>n b. rg n = Ok b \<longrightarrow> length b = n)"

lemma open_sealed:
  assumes "aead_correct cr" "rng_sized rg" "length (st_catalog_key st) = 32" "seal cr rg st name e = Ok bs"
  shows "open_record cr st name bs = Ok e \<and> length bs = length e + 45"
proof -
  obtain nonce c where n: "rg 24 = Ok nonce" "bs = ENVELOPE_MAGIC @ [ENVELOPE_VERSION] @ nonce @ c"
      "aead_seal cr (st_catalog_key st) nonce (record_aad st name) e = Some c"
    using assms(4) by (auto simp: seal_def)
  have "length nonce = 24" using assms(2) n(1) by (auto simp: rng_sized_def)
  then have "aead_open cr (st_catalog_key st) nonce (record_aad st name) c = Some e \<and> length c = length e + 16"
    using aead_correctD [OF assms(1,3)] n(3) by blast
  then show ?thesis using \<open>length nonce = 24\<close>
    by (simp add: open_record_def n(2) starts_with_def ENVELOPE_MAGIC_def nth_append)
qed

lemma save_named_euid: "leaves euid (save_named cr rg to_vec st name v)"
  unfolding save_named_def Let_def replace_private_file_def
  by (intro leaves_bind leaves_lift) (auto intro!: leaves_intro faultless_nodes)

lemma bind_lift_Ok: "bind_st (lift_st r) f s = (Inr y, s') \<longleftrightarrow> (\<exists>x. r = Inr x \<and> f x s = (Inr y, s'))"
  by (cases r) (simp_all add: lift_st_def)

lemma save_named_valid:
  "save_named cr rg to_vec st name v s = (Inr x, s') \<Longrightarrow> validate_checkpoint_name name = Ok ()"
  unfolding save_named_def by (auto simp: bind_lift_Ok)

lemma inspect_fault_free:
  "faults s = [] \<Longrightarrow> inspect p found missing s = (case nodes s p of None \<Rightarrow> missing s | Some n \<Rightarrow> found n s)"
  by (simp add: inspect_def symlink_metadata_def syscall_fault_free split: option.split)

text \<open>C32. A record that was saved successfully loads again as the value saved, provided the JSON
  library reads what it wrote, the cipher opens what it sealed and no file system call fails. But
  the limit of 64 MiB is checked on the plain record when saving and on the sealed one when loading:
  a record within 45 bytes of the limit is saved without error, replacing the last good one, and can
  never be loaded.\<close>

theorem saved_checkpoint_loads:
  assumes "aead_correct cr" "rng_sized rg" "length (st_catalog_key st) = 32"
    and "to_vec v = Some e" "from_slice e = Some v"
    and "save_named cr rg to_vec st name v s = (Ok (), s')" "faults s' = []"
  shows "load_named cr from_slice st name s' =
    (if length e + 45 \<le> MAX_CHECKPOINT_BYTES then Ok (Some v)
     else Err (CkMsg ''transfer checkpoint exceeds byte limit''), s')"
proof -
  let ?p = "st_directory st @ [name]"
  obtain bs where bs: "sealed_as cr rg to_vec st name v bs"
      "nodes s' ?p = Some (Regular \<lparr>m_uid = euid s, m_mode = 384\<rparr> bs)"
    using tripleD_Ok [OF save_named_triple [OF refl, where old = "nodes s ?p" and u = "euid s"] _ assms(6)] by auto
  then have o: "open_record cr st name bs = Ok e" "length bs = length e + 45"
    using open_sealed [OF assms(1-3)] assms(4) by (auto simp: sealed_as_def)
  have "euid s' = euid s" using leavesD [OF save_named_euid assms(6)] .
  then show ?thesis
    using save_named_valid [OF assms(6)] bs(2) o assms(5,7)
    by (simp add: load_named_def Let_def inspect_fault_free validate_private_regular_file_def
        validate_platform_private_def bind_st_def io_def read_file_def syscall_fault_free lift_st_def)
qed

section \<open>Stored ciphertext is never replaced\<close>

lemma triple_hard_link:
  assumes "a \<noteq> b"
  shows "triple (\<lambda>s. nodes s b = old \<and> nodes s a = n) (replace_private_file a b False)
     (\<lambda>_ s. nodes s b = n) (\<lambda>_ s. nodes s b = old \<or> nodes s b = n)"
  unfolding replace_private_file_def if_False
proof (rule triple_bind [where R = "\<lambda>_ s. nodes s b = n"])
  show "triple (\<lambda>s. nodes s b = old \<and> nodes s a = n) (io (hard_link a b)) (\<lambda>_ s. nodes s b = n)
      (\<lambda>_ s. nodes s b = old \<or> nodes s b = n)"
    unfolding triple_def
    by (auto simp: io_Ok split: prod.split sum.split dest!: io_Err hard_link_Err hard_link_Ok)
  show "triple (\<lambda>s. nodes s b = n) (io (remove_file a)) (\<lambda>_ s. nodes s b = n)
      (\<lambda>_ s. nodes s b = old \<or> nodes s b = n)"
    by (rule triple_conseq [OF triple_leaves [where v = "\<lambda>s. nodes s b" and P = "\<lambda>x. x = n"]])
       (use assms in \<open>auto intro!: leaves_intro\<close>)
qed

lemma persist_other:
  "q \<noteq> st_directory st @ [name] \<Longrightarrow> q \<noteq> temporary st name \<Longrightarrow>
   leaves (\<lambda>s. nodes s q) (persist_immutable st name c)"
  unfolding persist_immutable_def Let_def
  by (intro leaves_bind leaves_lift) (auto intro!: leaves_intro faultless_nodes)

lemma persist_triple:
  assumes p: "p = st_directory st @ [name]"
  shows "triple (\<lambda>s. nodes s p = old \<and> euid s = u) (persist_immutable st name c)
     (\<lambda>r s. old = None \<and> r = p \<and> nodes s p = Some (Regular \<lparr>m_uid = u, m_mode = 384\<rparr> c))
     (\<lambda>_ s. nodes s p = old \<or> old = None \<and> nodes s p = Some (Regular \<lparr>m_uid = u, m_mode = 384\<rparr> c))"
    (is "triple ?P _ ?Q ?E")
proof -
  let ?t = "temporary st name"
  let ?new = "Some (Regular \<lparr>m_uid = u, m_mode = 384\<rparr> c)"
  let ?N = "\<lambda>s. nodes s p = None \<and> old = None \<and> euid s = u"
  have absent: "triple ?P (inspect p (\<lambda>_. lift_st (Err (CkMsg ''immutable ciphertext already exists''))) (lift_st (Ok ())))
      (\<lambda>_. ?N) ?E"
    unfolding triple_def
  proof (intro allI impI)
    fix s assume P: "?P s"
    obtain r s1 where m: "symlink_metadata p s = (r, s1)" by force
    have keep: "nodes s1 p = old" "euid s1 = u"
      using P leavesD [OF leaves_read_only(1) [OF faultless_nodes(1) [of p]] m]
        leavesD [OF leaves_read_only(1) [OF faultless_nodes(4)] m] by simp_all
    have "nodes s1 p = None" if "r = Inl NotFound"
      using m that by (auto simp: symlink_metadata_def syscall_def ok_or_def split: prod.splits fault.splits option.splits)
    with keep show "case inspect p (\<lambda>_. lift_st (Err (CkMsg ''immutable ciphertext already exists''))) (lift_st (Ok ())) s of
        (Inr x, s') \<Rightarrow> ?N s' | (Inl e, s') \<Rightarrow> ?E e s'"
      by (auto simp: inspect_def m lift_st_def split: sum.split io_error.split)
  qed
  show ?thesis
    unfolding persist_immutable_def Let_def p [symmetric]
  proof (rule triple_bind [where R = "\<lambda>_. ?P"])
    show "triple ?P (lift_st (validate_artifact_name name)) (\<lambda>_. ?P) ?E" by (intro triple_lift) auto
  next
    fix x
    have "triple ?P
       (bind_st (ensure_private_dir (st_directory st)) (\<lambda>_.
        bind_st (inspect p (\<lambda>_. lift_st (Err (CkMsg ''immutable ciphertext already exists''))) (lift_st (Ok ()))) (\<lambda>_.
        bind_st (remove_stale_private_file ?t) (\<lambda>_.
        bind_st (write_new_private_file ?t c) (\<lambda>_.
        bind_st (replace_private_file ?t p False) (\<lambda>_.
        bind_st (sync_directory (st_directory st)) (\<lambda>_. lift_st (Ok p)))))))) ?Q ?E"
    proof (intro triple_bind)
      show "triple ?P (ensure_private_dir (st_directory st)) (\<lambda>_. ?P) ?E"
        by (rule triple_conseq [OF triple_keep]) (auto intro!: leaves_intro)
      show "triple ?P (inspect p (\<lambda>_. lift_st (Err (CkMsg ''immutable ciphertext already exists''))) (lift_st (Ok ())))
          (\<lambda>_. ?N) ?E" by (rule absent)
      show "triple ?N (remove_stale_private_file ?t) (\<lambda>_. ?N) ?E"
        by (rule triple_conseq [OF triple_leaves [where v = "\<lambda>s. (nodes s p, euid s)"
              and P = "\<lambda>v. v = (None, u) \<and> old = None"]]) (auto intro!: leaves_intro simp: p)
      show "triple ?N (write_new_private_file ?t c)
          (\<lambda>_ s. (nodes s p = old \<and> nodes s ?t = ?new) \<and> old = None) ?E"
        by (rule triple_conseq [OF triple_frame [OF triple_write_new [of p ?t None u c], where C = "old = None"]]) (auto simp: p)
      show "triple (\<lambda>s. (nodes s p = old \<and> nodes s ?t = ?new) \<and> old = None) (replace_private_file ?t p False)
          (\<lambda>_ s. nodes s p = ?new \<and> old = None) ?E"
        by (rule triple_conseq [OF triple_frame [OF triple_hard_link [of ?t p old ?new], where C = "old = None"]]) (auto simp: p)
      show "triple (\<lambda>s. nodes s p = ?new \<and> old = None) (sync_directory (st_directory st))
          (\<lambda>_ s. nodes s p = ?new \<and> old = None) ?E"
        by (rule triple_conseq [OF triple_leaves [where v = "\<lambda>s. nodes s p" and P = "\<lambda>x. x = ?new \<and> old = None"]])
           (auto intro!: leaves_intro)
      show "triple (\<lambda>s. nodes s p = ?new \<and> old = None) (lift_st (Ok p)) ?Q ?E" by (intro triple_lift) auto
    qed
    then show "triple ?P
       (if MAX_IMMUTABLE_BYTES < length c then lift_st (Err (CkMsg ''immutable ciphertext exceeds byte limit''))
        else bind_st (ensure_private_dir (st_directory st)) (\<lambda>_.
        bind_st (inspect p (\<lambda>_. lift_st (Err (CkMsg ''immutable ciphertext already exists''))) (lift_st (Ok ()))) (\<lambda>_.
        bind_st (remove_stale_private_file ?t) (\<lambda>_.
        bind_st (write_new_private_file ?t c) (\<lambda>_.
        bind_st (replace_private_file ?t p False) (\<lambda>_.
        bind_st (sync_directory (st_directory st)) (\<lambda>_. lift_st (Ok p)))))))) ?Q ?E"
      by (auto simp: triple_def lift_st_def)
  qed
qed

text \<open>C30. Ciphertext is stored at most once under a name, whatever fails: if the name is taken, the
  call fails and the stored bytes stay as they are; if it is free, the call either publishes exactly
  the given bytes, owner-only, or fails having published them or nothing, never a part of them.
  Nothing else but the temporary file changes.\<close>

theorem immutable_ciphertext_written_once:
  "let p = st_directory st @ [name];
       (r, s') = persist_immutable st name c s;
       new = Some (Regular \<lparr>m_uid = euid s, m_mode = 384\<rparr> c)
   in (case nodes s p of
         Some n \<Rightarrow> \<not> is_ok r \<and> nodes s' p = Some n
       | None \<Rightarrow> if is_ok r then r = Ok p \<and> nodes s' p = new else nodes s' p = None \<or> nodes s' p = new)
      \<and> (\<forall>q. if q = p \<or> q = temporary st name then True else nodes s' q = nodes s q)"
proof -
  let ?p = "st_directory st @ [name]"
  obtain r s' where run: "persist_immutable st name c s = (r, s')" by force
  note t = persist_triple [OF refl, where old = "nodes s ?p" and u = "euid s", of st name c]
  have "nodes s' q = nodes s q" if "q \<noteq> ?p" "q \<noteq> temporary st name" for q
    using leavesD [OF persist_other [OF that] run] .
  then have others: "\<forall>q. if q = ?p \<or> q = temporary st name then True else nodes s' q = nodes s q" by simp
  show ?thesis
  proof (cases r)
    case (Inl e)
    with run have "nodes s' ?p = nodes s ?p \<or> nodes s ?p = None
        \<and> nodes s' ?p = Some (Regular \<lparr>m_uid = euid s, m_mode = 384\<rparr> c)"
      by (intro tripleD_Err [OF t, of s e s']) simp_all
    then show ?thesis unfolding Let_def run prod.case using Inl others by (auto split: option.split)
  next
    case (Inr x)
    with run have "nodes s ?p = None \<and> x = ?p \<and> nodes s' ?p = Some (Regular \<lparr>m_uid = euid s, m_mode = 384\<rparr> c)"
      by (intro tripleD_Ok [OF t, of s x s']) simp_all
    then show ?thesis unfolding Let_def run prod.case using Inr others by simp
  qed
qed

section \<open>Stores are exclusive\<close>

lemma triple_locked:
  "leaves locked m \<Longrightarrow> triple (\<lambda>s. p \<in> locked s) m (\<lambda>_ s. p \<in> locked s) (\<lambda>_ _. True)"
  by (rule triple_conseq [OF triple_leaves [where v = locked and P = "\<lambda>l. p \<in> l"]]) auto

lemma open_create_locked: "leaves locked (io (open_create p m))"
  unfolding open_create_def by (intro leaves_io leaves_syscall) (auto simp: put_view split: option.split)

lemma acquire_lock_held:
  "triple (\<lambda>s. directory @ [LOCK_NAME] \<in> locked s) (acquire_lock directory) (\<lambda>_ _. False) (\<lambda>_ _. True)"
  unfolding acquire_lock_def Let_def
proof (intro triple_bind)
  let ?p = "directory @ [LOCK_NAME]"
  let ?L = "\<lambda>s. ?p \<in> locked s"
  show "triple ?L (inspect ?p validate_private_regular_file (lift_st (Ok ()))) (\<lambda>_. ?L) (\<lambda>_ _. True)"
    by (rule triple_locked) (auto intro!: leaves_intro)
  show "triple ?L (io (open_create ?p 384)) (\<lambda>_. ?L) (\<lambda>_ _. True)"
    by (rule triple_locked [OF open_create_locked])
  show "triple ?L (io (symlink_metadata ?p)) (\<lambda>_. ?L) (\<lambda>_ _. True)"
    by (rule triple_locked) (auto intro!: leaves_intro)
  show "triple ?L (validate_private_regular_file n) (\<lambda>_. ?L) (\<lambda>_ _. True)" for n
    by (rule triple_locked) (auto intro!: leaves_intro)
  show "triple ?L (io (try_lock ?p)) (\<lambda>_ _. False) (\<lambda>_ _. True)"
    unfolding triple_def
    by (auto simp: io_Ok try_lock_def split: prod.split sum.split if_splits dest!: syscall_Ok)
qed

lemma acquire_lock_Ok: "acquire_lock directory s = (Inr x, s') \<Longrightarrow> directory @ [LOCK_NAME] \<in> locked s'"
  unfolding acquire_lock_def Let_def
  by (auto simp: bind_st_Inr io_Ok try_lock_def dest!: syscall_Ok split: if_splits)

lemma open_prefix_locked:
  "leaves locked (lift_st (validate_name i k))" "leaves locked (ensure_private_root home False)"
  "leaves locked (ensure_private_dir p)"
  unfolding ensure_private_root_def by (auto intro!: leaves_intro)

lemma triple_after_lock:
  "triple (\<lambda>s. directory @ [LOCK_NAME] \<in> locked s) (bind_st (acquire_lock directory) f) (\<lambda>_ _. False) (\<lambda>_ _. True)"
  by (rule triple_bind [OF acquire_lock_held]) (simp add: triple_def)

lemma open_while_held:
  assumes "home @ [i] @ [LOCK_NAME] \<in> locked s"
  shows "\<not> is_ok (fst (open_with_secret_store home i secret s))"
    and "\<not> is_ok (fst (store_discard home i fresh s))"
proof -
  let ?L = "\<lambda>s. (home @ [i]) @ [LOCK_NAME] \<in> locked s"
  have no: "\<not> is_ok (fst (m s))" if "triple ?L m (\<lambda>_ _. False) (\<lambda>_ _. True)" for m :: "'z ck_op"
    using that assms by (auto simp: triple_def is_ok_iff split: prod.splits sum.splits) (metis append.assoc fst_conv prod.collapse)
  have pre: "triple ?L (bind_st (lift_st (validate_name i k)) (\<lambda>_.
       bind_st (ensure_private_root home False) (\<lambda>_. bind_st (ensure_private_dir (home @ [i])) (\<lambda>_. m))))
       (\<lambda>_ _. False) (\<lambda>_ _. True)" if "triple ?L m (\<lambda>_ _. False) (\<lambda>_ _. True)" for m :: "'z ck_op" and k
    by (rule triple_bind, rule triple_locked, rule open_prefix_locked)+ (rule that)
  show "\<not> is_ok (fst (open_with_secret_store home i secret s))"
    by (rule no) (unfold open_with_secret_store_def open_locked_def Let_def, rule pre, rule triple_after_lock)
  show "\<not> is_ok (fst (store_discard home i fresh s))"
    by (rule no) (unfold store_discard_def Let_def, rule pre, rule triple_after_lock)
qed

lemma open_locked_Ok:
  assumes "leaves locked secret" "open_locked d i secret s = (Inr st, s')"
  shows "d @ [LOCK_NAME] \<in> locked s'" "st_directory st = d" "st_job st = i"
proof -
  obtain s2 where a: "acquire_lock d s = (Inr (), s2)"
      "(case secret s2 of (Inl e, s') \<Rightarrow> (Err e, unlock (d @ [LOCK_NAME]) s')
        | (Inr key, s') \<Rightarrow> (Ok \<lparr>st_directory = d, st_job = i, st_catalog_key = key\<rparr>, s')) = (Inr st, s')"
    using assms(2) by (auto simp: open_locked_def bind_st_Inr)
  obtain r s3 where r: "secret s2 = (r, s3)" by force
  with a(2) obtain key where key: "r = Inr key" "s3 = s'" "st = \<lparr>st_directory = d, st_job = i, st_catalog_key = key\<rparr>"
    by (cases r) auto
  show "d @ [LOCK_NAME] \<in> locked s'"
    using acquire_lock_Ok [OF a(1)] leavesD [OF assms(1) r] key(2) by simp
  show "st_directory st = d" "st_job st = i" by (simp_all add: key(3))
qed

lemma open_holds_lock:
  assumes "leaves locked secret" "open_with_secret_store home i secret s = (Ok st, s')"
  shows "home @ [i] @ [LOCK_NAME] \<in> locked s'" "st_directory st = home @ [i]" "st_job st = i"
proof -
  obtain s1 where "open_locked (home @ [i]) i secret s1 = (Inr st, s')"
    using assms(2) unfolding open_with_secret_store_def Let_def by (auto simp: bind_st_Inr)
  from open_locked_Ok [OF assms(1) this] show "home @ [i] @ [LOCK_NAME] \<in> locked s'" "st_directory st = home @ [i]" "st_job st = i"
    by simp_all
qed

text \<open>An open store is exclusive: until it is dropped, neither opening the same job again, whatever
  secret store is used, nor discarding it can succeed; dropping it releases the job.\<close>

theorem open_store_is_exclusive:
  assumes "leaves locked secret" "open_with_secret_store home i secret s = (Ok st, s')"
  shows "\<not> is_ok (fst (open_with_secret_store home i secret' s'))
    \<and> \<not> is_ok (fst (store_discard home i fresh s'))
    \<and> home @ [i] @ [LOCK_NAME] \<notin> locked (store_drop st s')"
  using open_while_held [OF open_holds_lock(1) [OF assms]] open_holds_lock(2) [OF assms]
  by (simp add: store_drop_def unlock_def)

section \<open>Names stay inside the job\<close>

text \<open>A name of the store is one path component of plain characters: no separator, no parent
  directory, no hidden trailing dot or space, no device name.\<close>

lemma plain_name_char_ascii: "plain_name_char c \<Longrightarrow> c < 0x80"
  by (auto simp: plain_name_char_def ascii_alphanumeric_def ascii_digit_def ascii_upper_def ascii_lower_def)

lemma valid_name_chars:
  assumes "valid_name n" "c \<in> set n" "scalar c"
  shows "plain_name_char c"
proof -
  obtain b where b: "b \<in> set (utf8_char c)" using utf8_char_not_Nil [of c] by (cases "utf8_char c") auto
  then have "b \<in> set (bytes n)" using assms(2) by (auto simp: bytes_def)
  then have p: "plain_name_char (unat b)" using assms(1) by (auto simp: valid_name_def list_all_iff)
  then have "c < 0x80" using utf8_char_high [OF assms(3) _ b] plain_name_char_ascii by fastforce
  with b p show ?thesis by (simp add: utf8_char_ascii unat_of_nat_less)
qed

text \<open>An artifact never carries a name that a record or the lock uses, and its temporary file
  never carries the name of an artifact or of a record.\<close>

lemma ends_with_append: "ends_with (a @ b) b"
  by (simp add: ends_with_def)

lemma artifact_names_reserved:
  assumes "is_ok (validate_artifact_name a)" "is_ok (validate_checkpoint_name n)"
  shows "a \<notin> {LOCK_NAME, CHECKPOINT_NAME, CHECKPOINT_TEMP_NAME}"
    and "n \<noteq> LOCK_NAME" "a @ lit ''.new'' \<noteq> n" "n @ lit ''.new'' \<noteq> a"
proof -
  have a: "a \<notin> {LOCK_NAME, CHECKPOINT_NAME, CHECKPOINT_TEMP_NAME} \<and> \<not> ends_with a (lit ''.new'')"
    and n: "n \<noteq> LOCK_NAME \<and> \<not> ends_with n (lit ''.new'')"
    using assms unfolding validate_artifact_name_def validate_checkpoint_name_def is_ok_iff and_then_eq_Inr
    by (metis insertE empty_iff Inl_Inr_False)+
  show "a \<notin> {LOCK_NAME, CHECKPOINT_NAME, CHECKPOINT_TEMP_NAME}" "n \<noteq> LOCK_NAME"
    using a n by blast+
  show "a @ lit ''.new'' \<noteq> n" "n @ lit ''.new'' \<noteq> a" using a n ends_with_append by metis+
qed

section \<open>Saving succeeds without faults\<close>

lemmas fault_free = inspect_fault_free syscall_fault_free bind_st_def io_def lift_st_def put_view

text \<open>Without faults, saving a record of a valid name in a private job directory succeeds when the
  record serialises within the limit and can be sealed, and leaves no temporary file behind.\<close>

lemma save_named_succeeds:
  assumes "faults s = []" "is_directory s (st_directory st)"
    and "nodes s (temporary st name) = None"
    and "case nodes s (st_directory st @ [name]) of None \<Rightarrow> True
       | Some n \<Rightarrow> is_file n \<and> m_uid (node_meta n) = euid s \<and> m_mode (node_meta n) mod 64 = 0"
    and "validate_checkpoint_name name = Ok ()" "to_vec v = Some e" "length e \<le> MAX_CHECKPOINT_BYTES"
    and "seal cr rg st name e = Ok bs"
  shows "save_named cr rg to_vec st name v s =
    (Ok (), s\<lparr>nodes := (nodes s)(st_directory st @ [name] \<mapsto> Regular \<lparr>m_uid = euid s, m_mode = 384\<rparr> bs)\<rparr>)"
proof -
  let ?t = "temporary st name" and ?p = "st_directory st @ [name]"
  let ?f = "Some (Regular \<lparr>m_uid = euid s, m_mode = 384\<rparr> bs)"
  have b: "butlast ?t = st_directory st" "butlast ?p = st_directory st" by (simp_all add: temporary_def)
  have d: "is_directory (s\<lparr>nodes := (nodes s)(?t := n)\<rparr>) (st_directory st)" for n
    using assms(2) by (auto simp: is_directory_def temporary_def)
  have p: "\<not> is_directory (s\<lparr>nodes := (nodes s)(?t := n)\<rparr>) ?p" for n
    using assms(4) temporary_neq [of st name] by (auto simp: is_directory_def split: option.splits elim: is_file.elims)
  have st: "remove_stale_private_file ?t s = (Inr (), s)"
    using assms(1,3) by (simp add: remove_stale_private_file_def fault_free)
  have ins: "inspect ?p validate_private_regular_file (lift_st (Ok ())) s = (Inr (), s)"
    using assms(1,4) by (auto simp: fault_free validate_private_regular_file_def validate_platform_private_def split: option.splits)
  have wr: "write_new_private_file ?t bs s = (Inr (), s\<lparr>nodes := (nodes s)(?t := ?f)\<rparr>)"
    using assms(1-3) by (simp add: write_new_private_file_def fault_free open_new_def write_all_def sync_all_def
        next_fault_def append_def put_def b)
  have re: "replace_private_file ?t ?p True (s\<lparr>nodes := (nodes s)(?t := ?f)\<rparr>)
      = (Inr (), s\<lparr>nodes := (nodes s)(?p := ?f)\<rparr>)"
    using assms(1,3) d [of ?f] p [of ?f] temporary_neq [of st name]
    by (simp add: replace_private_file_def fault_free rename_file_def b put_def fun_upd_twist fun_upd_idem)
  show ?thesis
    using assms(1,5-8)
    by (simp add: save_named_def Let_def bind_st_def lift_st_def st ins wr re sync_directory_def io_def sync_all_def
        syscall_fault_free)
qed

section \<open>Examples\<close>

text \<open>A home with one job, both private, and a store opened on it.\<close>

definition example_fs :: fs where
  "example_fs = \<lparr>nodes = (\<lambda>p. if p \<in> {[], [lit ''h''], [lit ''h'', lit ''j'']}
     then Some (Dir \<lparr>m_uid = 7, m_mode = 448\<rparr>) else None), locked = {}, faults = [], euid = 7\<rparr>"

definition example_secret :: "u8 list ck_op" where
  "example_secret = lift_st (Ok (replicate 32 7))"

definition example_store :: store where
  "example_store = \<lparr>st_directory = [lit ''h'', lit ''j''], st_job = lit ''j'', st_catalog_key = replicate 32 7\<rparr>"

lemma example_name: "validate_name (lit ''j'') k = Ok ()"
  by (simp add: validate_name_def valid_name_def str_len_def utf8_char_def ends_with_def plain_name_char_def
      ascii_alphanumeric_def ascii_lower_def is_windows_device_name_def to_ascii_uppercase_def Let_def starts_with_def)

lemma example_open:
  "open_with_secret_store [lit ''h''] (lit ''j'') example_secret example_fs =
    (Ok example_store, put [lit ''h'', lit ''j'', LOCK_NAME] (Some (Regular \<lparr>m_uid = 7, m_mode = 384\<rparr> []))
      (example_fs\<lparr>locked := {[lit ''h'', lit ''j'', LOCK_NAME]}\<rparr>))"
  unfolding open_with_secret_store_def example_name
  by (simp add: Let_def fault_free ensure_private_root_def ensure_private_dir_def open_locked_def acquire_lock_def
      validate_private_root_def validate_platform_owner_def validate_private_directory_def validate_platform_private_def
      validate_private_regular_file_def symlink_metadata_def open_create_def try_lock_def example_fs_def
      example_secret_def example_store_def LOCK_NAME_def is_directory_def put_def ok_or_def)

theorem open_store_is_exclusive_witness:
  "\<exists>s'. open_with_secret_store [lit ''h''] (lit ''j'') example_secret example_fs = (Ok example_store, s')
    \<and> \<not> is_ok (fst (store_discard [lit ''h''] (lit ''j'') (lit ''x'') s'))"
  using open_store_is_exclusive [OF _ example_open] example_open
  by (auto simp: example_secret_def leaves_lift)

lemma example_saved:
  "save_named example_crypto (\<lambda>n. Ok (replicate n 1)) Some example_store CHECKPOINT_NAME [9, 9] example_fs =
    (Ok (), example_fs\<lparr>nodes := (nodes example_fs)([lit ''h'', lit ''j'', CHECKPOINT_NAME]
       \<mapsto> Regular \<lparr>m_uid = 7, m_mode = 384\<rparr> (ENVELOPE_MAGIC @ [1] @ replicate 24 1 @ [9, 9] @ replicate 16 0))\<rparr>)"
proof -
  have "validate_checkpoint_name CHECKPOINT_NAME = Ok ()" 
    by (simp add: validate_checkpoint_name_def LOCK_NAME_def CHECKPOINT_NAME_def
      validate_name_def valid_name_def str_len_def utf8_char_def ends_with_def plain_name_char_def
      ascii_alphanumeric_def ascii_lower_def is_windows_device_name_def to_ascii_uppercase_def Let_def starts_with_def)
  then show ?thesis
    by (subst save_named_succeeds [where e = "[9, 9]" and bs = "ENVELOPE_MAGIC @ [1] @ replicate 24 1 @ [9, 9] @ replicate 16 0"])
       (simp_all add: example_fs_def example_store_def is_directory_def temporary_def CHECKPOINT_NAME_def
        MAX_CHECKPOINT_BYTES_def seal_def ENVELOPE_VERSION_def example_crypto_def ok_or_def)
qed

theorem saved_checkpoint_loads_witness:
  "fst (load_named example_crypto Some example_store CHECKPOINT_NAME
     (snd (save_named example_crypto (\<lambda>n. Ok (replicate n 1)) Some example_store CHECKPOINT_NAME [9, 9] example_fs)))
   = Ok (Some [9, 9])"
proof -
  have "rng_sized (\<lambda>n. Ok (replicate n 1))" by (simp add: rng_sized_def)
  moreover have "length (st_catalog_key example_store) = 32" "faults example_fs = []"
    by (simp_all add: example_store_def example_fs_def)
  ultimately show ?thesis
    using saved_checkpoint_loads [OF example_aead_correct _ _ _ _ example_saved, of "[9, 9]" Some]
    by (simp add: MAX_CHECKPOINT_BYTES_def example_saved)
qed

end
