(* ===== verification/Http_Range.thy ===== *)
theory Http_Range
  imports Transport Share_Link
begin

text \<open>
  HTTP range continuation and the retry loop of the native runtime:
  \<open>crates/transfer-native/src/http.rs\<close> (\<open>request_headers\<close>, \<open>read_limited\<close>, \<open>get_range\<close>) and
  \<open>runtime.rs\<close> (\<open>retry\<close>). The HTTP client is outside the model: what a raced wait yields is an
  argument, so that every timing of cancellation, time-outs and body chunks is covered, and an
  exhausted list of outcomes is a wait that never ends (\<open>None\<close>). Shown: a range is accepted
  exactly when the answer is the requested slice of the same entity, control bodies stay within
  their limit, and a retry loop ends after its attempts.
\<close>

section \<open>Data\<close>

datatype http_error =
    HttpMessage string
  | HttpStatus u16
  | HttpTransport

text \<open>The outcomes of \<open>select! { cancelled, timeout(io) }\<close>.\<close>

datatype 'a waited = Interrupted | Overdue | IoFailed | Arrived 'a

record http_response =
  rs_status :: u16
  rs_header :: "string \<Rightarrow> u8 list option"
  rs_content_length :: "u64 option"

record range_request =
  rr_start :: u64
  rr_end :: u64
  rr_ciphertext_total :: u64
  rr_expected_etag :: rstr

section \<open>Strings and numbers in headers\<close>

text \<open>\<open>HeaderValue::to_str\<close> accepts visible ASCII and tabs only.\<close>

definition header_to_str :: "u8 list \<Rightarrow> rstr option" where
  "header_to_str bs =
     (if list_all (\<lambda>b. b = 9 \<or> (32 \<le> b \<and> b < 127)) bs then Some (map unat bs) else None)"

definition digits_value :: "rstr \<Rightarrow> nat" where
  "digits_value = foldl (\<lambda>n c. 10 * n + (c - 48)) 0"

text \<open>\<open>str::parse::<u64>\<close>: an optional plus sign, then digits that fit.\<close>

definition parse_u64 :: "rstr \<Rightarrow> u64 option" where
  "parse_u64 s =
     (let d = (case s of [] \<Rightarrow> [] | c # rest \<Rightarrow> if c = 43 then rest else s) in
      if d \<noteq> [] \<and> list_all ascii_digit d \<and> digits_value d < 2 ^ 64
      then Some (of_nat (digits_value d)) else None)"

text \<open>Decimal formatting of an integer, \<open>format!("{}")\<close>.\<close>

fun decimal :: "nat \<Rightarrow> rstr" where
  "decimal n = (if n < 10 then [n + 48] else decimal (n div 10) @ [n mod 10 + 48])"

declare decimal.simps [simp del]

definition range_header :: "range_request \<Rightarrow> rstr" where
  "range_header req =
     lit ''bytes='' @ decimal (unat (rr_start req)) @ lit ''-'' @ decimal (unat (rr_end req))"

definition header :: "http_response \<Rightarrow> string \<Rightarrow> (rstr, http_error) result" where
  "header r name =
     and_then (ok_or (HttpMessage ''range response is missing a required header'') (rs_header r name)) (\<lambda>v.
       ok_or (HttpMessage ''range response contains an invalid header'') (header_to_str v))"

definition validate_content_length :: "rstr option \<Rightarrow> u64 \<Rightarrow> (unit, http_error) result" where
  "validate_content_length value expected =
     (case value of
        None \<Rightarrow> Ok ()
      | Some v \<Rightarrow>
          if v = [] \<or> \<not> list_all ascii_digit v then Err (HttpMessage ''invalid chunk Content-Length'')
          else and_then (ok_or (HttpMessage ''invalid chunk Content-Length'') (parse_u64 v)) (\<lambda>l.
                 if l \<noteq> expected then Err (HttpMessage ''chunk Content-Length mismatch'') else Ok ()))"

definition validate_content_range :: "rstr \<Rightarrow> u64 \<Rightarrow> u64 \<Rightarrow> u64 \<Rightarrow> (unit, http_error) result" where
  "validate_content_range value start stop total_expected =
     and_then (ok_or (HttpMessage ''invalid Content-Range unit'') (strip_prefix (lit ''bytes '') value)) (\<lambda>v.
     and_then (ok_or (HttpMessage ''invalid Content-Range'') (split_once 47 v)) (\<lambda>(range, total_s).
     and_then (ok_or (HttpMessage ''invalid Content-Range'') (split_once 45 range)) (\<lambda>(start_s, end_s).
     and_then (ok_or (HttpMessage ''invalid Content-Range start'') (parse_u64 start_s)) (\<lambda>actual_start.
     and_then (ok_or (HttpMessage ''invalid Content-Range end'') (parse_u64 end_s)) (\<lambda>actual_end.
     and_then (ok_or (HttpMessage ''invalid Content-Range total'') (parse_u64 total_s)) (\<lambda>actual_total.
       if actual_start \<noteq> start \<or> actual_end \<noteq> stop \<or> actual_total \<noteq> total_expected
       then Err (HttpMessage ''Content-Range does not match request'') else Ok ()))))))"

section \<open>Requests and bodies\<close>

fun await_io :: "string \<Rightarrow> 'a waited \<Rightarrow> ('a, http_error) result" where
  "await_io late Interrupted = Err (HttpMessage ''transfer cancelled'')"
| "await_io late Overdue = Err (HttpMessage late)"
| "await_io late IoFailed = Err HttpTransport"
| "await_io late (Arrived x) = Ok x"

definition request_headers :: "'r waited \<Rightarrow> ('r, http_error) result" where
  "request_headers = await_io ''HTTP response headers timed out''"

text \<open>The body loops; \<open>Arrived None\<close> is the end of the body. Lengths are \<open>usize\<close>.\<close>

definition usize_saturating_add :: "nat \<Rightarrow> nat \<Rightarrow> nat" where
  "usize_saturating_add a b = min (a + b) (2 ^ 64 - 1)"

fun read_limited_body ::
  "nat \<Rightarrow> u8 list \<Rightarrow> u8 list option waited list \<Rightarrow> (u8 list, http_error) result option" where
  "read_limited_body maximum body [] = None"
| "read_limited_body maximum body (w # ws) =
     (case await_io ''HTTP response body became idle'' w of
        Inl e \<Rightarrow> Some (Err e)
      | Inr None \<Rightarrow> Some (Ok body)
      | Inr (Some chunk) \<Rightarrow>
          if maximum < usize_saturating_add (length body) (length chunk)
          then Some (Err (HttpMessage ''HTTP response body exceeds its limit''))
          else read_limited_body maximum (body @ chunk) ws)"

definition read_limited ::
  "http_response \<Rightarrow> nat \<Rightarrow> u8 list option waited list \<Rightarrow> (u8 list, http_error) result option" where
  "read_limited r maximum ws =
     (if (case rs_content_length r of None \<Rightarrow> False | Some l \<Rightarrow> maximum < unat l)
      then Some (Err (HttpMessage ''HTTP response body exceeds its limit''))
      else read_limited_body maximum [] ws)"

fun range_body ::
  "u64 \<Rightarrow> u8 list \<Rightarrow> u8 list option waited list \<Rightarrow> (u8 list, http_error) result option" where
  "range_body expected body [] = None"
| "range_body expected body (w # ws) =
     (case await_io ''range body became idle'' w of
        Inl e \<Rightarrow> Some (Err e)
      | Inr None \<Rightarrow>
          if length body \<noteq> unat expected then Some (Err (HttpMessage ''range response is truncated''))
          else Some (Ok body)
      | Inr (Some chunk) \<Rightarrow>
          if unat expected - length body < length chunk
          then Some (Err (HttpMessage ''range response exceeds expected ciphertext length''))
          else range_body expected (body @ chunk) ws)"

definition invalid_range :: "range_request \<Rightarrow> bool" where
  "invalid_range req \<longleftrightarrow>
     rr_ciphertext_total req = 0 \<or> MAX_CIPHERTEXT_BYTES < rr_ciphertext_total req
     \<or> rr_end req < rr_start req \<or> rr_ciphertext_total req \<le> rr_end req"

definition check_range_response :: "range_request \<Rightarrow> u64 \<Rightarrow> http_response \<Rightarrow> (unit, http_error) result" where
  "check_range_response req expected r =
     (if rs_status r \<noteq> 206 then Err (HttpStatus (rs_status r))
      else
        and_then (header r ''etag'') (\<lambda>etag.
          if etag \<noteq> rr_expected_etag req then Err (HttpMessage ''range ETag changed'')
          else
            and_then (header r ''accept-ranges'') (\<lambda>ranges.
              if \<not> eq_ignore_ascii_case ranges (lit ''bytes'')
              then Err (HttpMessage ''server did not confirm byte ranges'')
              else
                and_then (header r ''content-range'') (\<lambda>range.
                and_then (validate_content_range range (rr_start req) (rr_end req) (rr_ciphertext_total req)) (\<lambda>_.
                and_then
                  (case rs_header r ''content-length'' of
                     None \<Rightarrow> Ok None
                   | Some v \<Rightarrow> (case header_to_str v of None \<Rightarrow> Err HttpTransport | Some s \<Rightarrow> Ok (Some s)))
                  (\<lambda>l. validate_content_length l expected))))))"

definition get_range ::
  "range_request \<Rightarrow> http_response waited \<Rightarrow> u8 list option waited list \<Rightarrow> (u8 list, http_error) result option" where
  "get_range req sent ws =
     (if invalid_range req then Some (Err (HttpMessage ''invalid byte range''))
      else
        case and_then (ok_or (HttpMessage ''range is too large'')
                (Option.bind (checked_sub (rr_end req) (rr_start req)) (\<lambda>n. checked_add n 1))) (\<lambda>expected.
             and_then (await_io ''range response headers timed out'' sent) (\<lambda>r.
             and_then (check_range_response req expected r) (\<lambda>_. Ok expected))) of
          Inl e \<Rightarrow> Some (Err e)
        | Inr expected \<Rightarrow> range_body expected [] ws)"

section \<open>Retrying\<close>

datatype retry_class = RetryNetwork | RetryHttp u16 "u64 option"

text \<open>One turn of the loop: whether it starts cancelled, what the operation raced with the
  cancellation yields (\<open>None\<close> is the cancellation), and whether the sleep is cut short.\<close>

record ('t, 'e) round =
  rd_cancelled :: bool
  rd_result :: "('t, 'e) result option"
  rd_sleep_cancelled :: bool

definition retry_wait :: "bool \<Rightarrow> nat \<Rightarrow> retry_class \<Rightarrow> u64 option" where
  "retry_wait staging attempt class =
     (let (allowed, retry_after) =
            (case class of RetryNetwork \<Rightarrow> (True, None)
             | RetryHttp status after \<Rightarrow> (retryable_status status staging, after))
      in if allowed then Some (retry_delay_ms (of_nat attempt) retry_after 0) else None)"

text \<open>The turns from \<open>attempt\<close> on, with \<open>left\<close> of them to go: the result, the operations called,
  and the delays slept, or \<open>None\<close> past the last turn. \<open>cancelled\<close> is the converted cancellation error.\<close>

fun retry_from ::
  "'e \<Rightarrow> bool \<Rightarrow> ('e \<Rightarrow> retry_class option) \<Rightarrow> (nat \<Rightarrow> ('t, 'e) round) \<Rightarrow> nat \<Rightarrow> nat
     \<Rightarrow> (('t, 'e) result \<times> nat list \<times> u64 list) option" where
  "retry_from cancelled staging retryable env 0 attempt = None"
| "retry_from cancelled staging retryable env (Suc left) attempt =
     (let rd = env attempt in
      if rd_cancelled rd then Some (Err cancelled, [], [])
      else case rd_result rd of
             None \<Rightarrow> Some (Err cancelled, [attempt], [])
           | Some (Inr v) \<Rightarrow> Some (Ok v, [attempt], [])
           | Some (Inl e) \<Rightarrow>
               (case (if 0 < left then Option.bind (retryable e) (retry_wait staging attempt) else None) of
                  None \<Rightarrow> Some (Err e, [attempt], [])
                | Some delay \<Rightarrow>
                    if rd_sleep_cancelled rd then Some (Err cancelled, [attempt], [])
                    else map_option (\<lambda>(r, calls, delays). (r, attempt # calls, delay # delays))
                           (retry_from cancelled staging retryable env left (Suc attempt))))"

text \<open>\<open>None\<close> is a panic: the failed assertion on the number of attempts, or the
  \<open>unreachable!()\<close> after the loop.\<close>

definition retry ::
  "'e \<Rightarrow> u32 \<Rightarrow> bool \<Rightarrow> ('e \<Rightarrow> retry_class option) \<Rightarrow> (nat \<Rightarrow> ('t, 'e) round)
     \<Rightarrow> (('t, 'e) result \<times> nat list \<times> u64 list) option" where
  "retry cancelled attempts staging retryable env =
     (if attempts = 0 then None else retry_from cancelled staging retryable env (unat attempts) 0)"

section \<open>Numbers round-trip through headers\<close>

lemma digits_value_snoc: "digits_value (s @ [c]) = 10 * digits_value s + (c - 48)"
  by (simp add: digits_value_def)

lemma decimal_digits: "list_all ascii_digit (decimal n) \<and> decimal n \<noteq> [] \<and> digits_value (decimal n) = n"
proof (induction n rule: decimal.induct)
  case (1 n)
  show ?case
  proof (cases "n < 10")
    case True
    then show ?thesis by (simp add: decimal.simps [of n] ascii_digit_def digits_value_def)
  next
    case False
    moreover have "n mod 10 < 10" by simp
    ultimately show ?thesis using 1
      by (simp add: decimal.simps [of n] digits_value_snoc ascii_digit_def)
  qed
qed

lemma parse_u64_digits:
  "list_all ascii_digit s \<Longrightarrow> s \<noteq> [] \<Longrightarrow> digits_value s < 2 ^ 64 \<Longrightarrow> parse_u64 s = Some (of_nat (digits_value s))"
  by (auto simp: parse_u64_def ascii_digit_def split: list.split)

lemma parse_u64_decimal: "parse_u64 (decimal (unat x)) = Some x"
  using decimal_digits [of "unat x"] unat_less_2p [of x]
  by (simp add: parse_u64_digits)

lemma parse_u64_chars: "parse_u64 s = Some x \<Longrightarrow> c \<in> set s \<Longrightarrow> c = 43 \<or> ascii_digit c"
  by (auto simp: parse_u64_def Let_def list_all_iff split: list.splits if_splits)

lemma parse_u64_no_separator: "parse_u64 s = Some x \<Longrightarrow> 45 \<notin> set s \<and> 47 \<notin> set s"
  using parse_u64_chars [of s x 45] parse_u64_chars [of s x 47] by (auto simp: ascii_digit_def)

text \<open>A content range is accepted exactly when it is three numbers in the \<open>bytes a-b/c\<close> form with
  the values requested.\<close>

lemma validate_content_range_ok:
  "validate_content_range v s e t = Ok () \<longleftrightarrow>
     (\<exists>a b c. v = lit ''bytes '' @ a @ 45 # b @ 47 # c
        \<and> parse_u64 a = Some s \<and> parse_u64 b = Some e \<and> parse_u64 c = Some t)"
proof
  assume "validate_content_range v s e t = Ok ()"
  then obtain w ra c a b where "v = lit ''bytes '' @ w" "split_once 47 w = Some (ra, c)" "split_once 45 ra = Some (a, b)"
      "parse_u64 a = Some s" "parse_u64 b = Some e" "parse_u64 c = Some t"
    unfolding validate_content_range_def
    by (simp only: and_then_eq_Inr ok_or_eq_Inr strip_prefix_Some split_paired_Ex prod.case) (auto split: if_splits)
  then show "\<exists>a b c. v = lit ''bytes '' @ a @ 45 # b @ 47 # c
        \<and> parse_u64 a = Some s \<and> parse_u64 b = Some e \<and> parse_u64 c = Some t"
    using split_once_Some [of 47 w ra c] split_once_Some [of 45 ra a b] by auto
next
  assume "\<exists>a b c. v = lit ''bytes '' @ a @ 45 # b @ 47 # c
        \<and> parse_u64 a = Some s \<and> parse_u64 b = Some e \<and> parse_u64 c = Some t"
  then obtain a b c where v: "v = lit ''bytes '' @ a @ 45 # b @ 47 # c"
      and p: "parse_u64 a = Some s" "parse_u64 b = Some e" "parse_u64 c = Some t" by blast
  have "strip_prefix (lit ''bytes '') v = Some (a @ 45 # b @ 47 # c)" unfolding strip_prefix_Some by (rule v)
  moreover have "split_once 47 ((a @ 45 # b) @ 47 # c) = Some (a @ 45 # b, c)"
    using p parse_u64_no_separator by (intro split_once_append) auto
  moreover have "split_once 45 (a @ 45 # b) = Some (a, b)"
    using p parse_u64_no_separator by (intro split_once_append) auto
  ultimately show "validate_content_range v s e t = Ok ()"
    unfolding validate_content_range_def by (simp only: p ok_or_simps and_then_simps prod.case append.simps append_assoc) simp
qed

text \<open>A server that formats the requested numbers in decimal is accepted.\<close>

lemma formatted_content_range_ok:
  "validate_content_range
     (lit ''bytes '' @ decimal (unat s) @ 45 # decimal (unat e) @ 47 # decimal (unat t)) s e t = Ok ()"
  unfolding validate_content_range_ok
  by (intro exI [of _ "decimal (unat s)"] exI [of _ "decimal (unat e)"] exI [of _ "decimal (unat t)"])
     (simp add: parse_u64_decimal)

lemma validate_content_length_ok:
  "validate_content_length v n = Ok () \<longleftrightarrow>
     (case v of None \<Rightarrow> True | Some s \<Rightarrow> s \<noteq> [] \<and> list_all ascii_digit s \<and> digits_value s = unat n)"
proof (cases v)
  case (Some s)
  show ?thesis
  proof (cases "s \<noteq> [] \<and> list_all ascii_digit s")
    case True
    then have "parse_u64 s = (if digits_value s < 2 ^ 64 then Some (of_nat (digits_value s)) else None)"
      by (auto simp: parse_u64_def ascii_digit_def split: list.split)
    then show ?thesis using True Some unat_less_2p [of n]
      by (auto simp: validate_content_length_def unat_of_nat_less)
  qed (auto simp: validate_content_length_def Some)
qed (simp add: validate_content_length_def)

section \<open>Range answers\<close>

text \<open>The chunks of a body that was received to its end.\<close>

definition received :: "u8 list option waited list \<Rightarrow> u8 list list \<Rightarrow> bool" where
  "received ws chunks \<longleftrightarrow> (\<exists>rest. ws = map (\<lambda>c. Arrived (Some c)) chunks @ Arrived None # rest)"

lemma received_simps [simp]:
  "\<not> received [] cs" "received (Interrupted # ws) cs = False" "received (Overdue # ws) cs = False"
  "received (IoFailed # ws) cs = False" "received (Arrived None # ws) cs \<longleftrightarrow> cs = []"
  "received (Arrived (Some c) # ws) cs \<longleftrightarrow> (\<exists>cs'. cs = c # cs' \<and> received ws cs')"
  by (cases cs; auto simp: received_def)+

lemma range_body_ok:
  "length body \<le> unat n \<Longrightarrow>
   range_body n body ws = Some (Ok b) \<longleftrightarrow>
     (\<exists>chunks. received ws chunks \<and> b = body @ concat chunks \<and> length b = unat n)"
proof (induction n body ws rule: range_body.induct)
  case (2 n body w ws)
  show ?case
  proof (cases w)
    case (Arrived m)
    show ?thesis
    proof (cases m)
      case None
      then show ?thesis by (auto simp: Arrived)
    next
      case (Some c)
      then show ?thesis using 2 Arrived by (cases "unat n - length body < length c") auto
    qed
  qed simp_all
qed simp

lemma read_limited_body_ok:
  "read_limited_body m body ws = Some (Ok b) \<Longrightarrow> m < 2 ^ 64 - 1 \<Longrightarrow> length body \<le> m \<Longrightarrow>
     length b \<le> m \<and> (\<exists>chunks. received ws chunks \<and> b = body @ concat chunks)"
proof (induction m body ws rule: read_limited_body.induct)
  case (2 m body w ws)
  show ?case
  proof (cases w)
    case (Arrived x)
    show ?thesis
    proof (cases x)
      case None
      then show ?thesis using 2 by (auto simp: Arrived)
    next
      case (Some c)
      with 2 Arrived have c: "\<not> m < usize_saturating_add (length body) (length c)"
        and ok: "read_limited_body m (body @ c) ws = Some (Ok b)"
        by (auto split: if_splits)
      from c 2(3) have "length body + length c \<le> m"
        by (simp add: usize_saturating_add_def min_def split: if_splits)
      then show ?thesis using 2(1) [OF _ _ c ok] 2(3) Arrived Some by auto
    qed
  qed (use 2 in simp_all)
qed simp

definition header_text :: "http_response \<Rightarrow> string \<Rightarrow> rstr option" where
  "header_text r name = Option.bind (rs_header r name) header_to_str"

lemma header_ok: "header r name = Ok v \<longleftrightarrow> header_text r name = Some v"
  by (auto simp: header_def header_text_def bind_eq_Some_conv)

definition range_length :: "range_request \<Rightarrow> nat" where
  "range_length req = unat (rr_end req) - unat (rr_start req) + 1"

lemma check_range_response_ok:
  "check_range_response req n r = Ok () \<longleftrightarrow>
     rs_status r = 206 \<and> header_text r ''etag'' = Some (rr_expected_etag req)
     \<and> (\<exists>v. header_text r ''accept-ranges'' = Some v \<and> eq_ignore_ascii_case v (lit ''bytes''))
     \<and> (\<exists>v. header_text r ''content-range'' = Some v
            \<and> validate_content_range v (rr_start req) (rr_end req) (rr_ciphertext_total req) = Ok ())
     \<and> (case rs_header r ''content-length'' of None \<Rightarrow> True
        | Some v \<Rightarrow> \<exists>s. header_to_str v = Some s \<and> validate_content_length (Some s) n = Ok ())"
proof -
  have l: "validate_content_length None n = Ok ()" by (simp add: validate_content_length_def)
  show ?thesis unfolding check_range_response_def
    by (auto simp: header_ok l split: if_splits option.splits)
qed

lemma ex_Some_eq:
  "(\<exists>v. h = Some v \<and> (\<exists>x y z. v = f x y z \<and> P x y z)) \<longleftrightarrow> (\<exists>x y z. h = Some (f x y z) \<and> P x y z)"
  by blast

lemma range_expected:
  assumes "\<not> invalid_range req"
  shows "\<exists>n. Option.bind (checked_sub (rr_end req) (rr_start req)) (\<lambda>n. checked_add n 1) = Some n
          \<and> unat n = range_length req"
proof -
  have le: "unat (rr_start req) \<le> unat (rr_end req)" "unat (rr_end req) < 25000000"
    using assms by (auto simp: invalid_range_def MAX_CIPHERTEXT_BYTES_def not_less not_le word_le_nat_alt word_less_nat_alt)
  then have "unat (rr_end req - rr_start req) = unat (rr_end req) - unat (rr_start req)"
    by (simp add: unat_sub word_le_nat_alt)
  then show ?thesis using le
    by (auto simp: checked_sub_def checked_add_def word_le_nat_alt range_length_def unat_word_ariths)
qed

text \<open>C31. A continuation range is accepted exactly when it is the requested slice: the request is
  inside the chunk, the server answered 206 for the same entity tag with byte ranges, its content
  range is the three numbers requested, a content length (which may be missing) is the slice's, and
  the body was received to its end with exactly the slice's length, whatever its chunks.\<close>

theorem range_response_is_exact:
  "get_range req sent ws = Some (Ok b) \<longleftrightarrow>
     \<not> invalid_range req
     \<and> (\<exists>r. sent = Arrived r
          \<and> rs_status r = 206
          \<and> header_text r ''etag'' = Some (rr_expected_etag req)
          \<and> (\<exists>v. header_text r ''accept-ranges'' = Some v \<and> eq_ignore_ascii_case v (lit ''bytes''))
          \<and> (\<exists>x y z. header_text r ''content-range'' = Some (lit ''bytes '' @ x @ 45 # y @ 47 # z)
               \<and> parse_u64 x = Some (rr_start req) \<and> parse_u64 y = Some (rr_end req)
               \<and> parse_u64 z = Some (rr_ciphertext_total req))
          \<and> (case rs_header r ''content-length'' of None \<Rightarrow> True
             | Some v \<Rightarrow> \<exists>s. header_to_str v = Some s \<and> 0 < length s \<and> list_all ascii_digit s
                           \<and> digits_value s = range_length req))
     \<and> (\<exists>chunks. received ws chunks \<and> b = concat chunks)
     \<and> length b = range_length req"
proof (cases "invalid_range req")
  case False
  then obtain n where n: "Option.bind (checked_sub (rr_end req) (rr_start req)) (\<lambda>n. checked_add n 1) = Some n"
      "unat n = range_length req"
    using range_expected by blast
  have "get_range req sent ws = Some (Ok b) \<longleftrightarrow>
          (\<exists>r. sent = Arrived r \<and> check_range_response req n r = Ok ()) \<and> range_body n [] ws = Some (Ok b)"
    using False by (cases sent) (auto simp: get_range_def n(1) split: sum.split)
  moreover have "range_body n [] ws = Some (Ok b) \<longleftrightarrow>
      (\<exists>chunks. received ws chunks \<and> b = concat chunks) \<and> length b = range_length req"
    using range_body_ok [of "[]" n ws b] n(2) by auto
  ultimately show ?thesis using False
    by (simp only: check_range_response_ok validate_content_range_ok validate_content_length_ok n(2)
        ex_Some_eq option.case length_greater_0_conv simp_thms conj_assoc)
qed (simp add: get_range_def)

section \<open>The retry loop\<close>

lemma retry_wait_bounded: "retry_wait staging k c = Some d \<Longrightarrow> unat d \<le> 60000"
  by (auto simp: retry_wait_def retry_delay_ms_def MAX_RETRY_DELAY_MS_def Let_def word_le_nat_alt
      min_def split: retry_class.splits if_splits option.splits)

text \<open>What the call of attempt \<open>k\<close> must have returned for its outcome to be tried again.\<close>

definition retried :: "bool \<Rightarrow> ('e \<Rightarrow> retry_class option) \<Rightarrow> ('t, 'e) round \<Rightarrow> nat \<Rightarrow> u64 \<Rightarrow> bool" where
  "retried staging retryable rd k d \<longleftrightarrow>
     (case rd_result rd of
        Some (Inl e) \<Rightarrow> Option.bind (retryable e) (retry_wait staging k) = Some d
      | _ \<Rightarrow> False)"

definition retry_trace ::
  "'e \<Rightarrow> bool \<Rightarrow> ('e \<Rightarrow> retry_class option) \<Rightarrow> (nat \<Rightarrow> ('t, 'e) round) \<Rightarrow> nat \<Rightarrow> nat
     \<Rightarrow> ('t, 'e) result \<times> nat list \<times> u64 list \<Rightarrow> bool" where
  "retry_trace c staging retryable env left k =
     (\<lambda>(r, calls, delays).
        calls = [k ..< k + length calls] \<and> length calls \<le> left
        \<and> length delays \<le> length calls \<and> length calls \<le> length delays + 1
        \<and> list_all (\<lambda>i. retried staging retryable (env (k + i)) (k + i) (delays ! i)) [0 ..< length delays]
        \<and> (case r of
             Inr v \<Rightarrow> 0 < length calls \<and> rd_result (env (last calls)) = Some (Ok v)
           | Inl e \<Rightarrow> if e = c then True else 0 < length calls \<and> rd_result (env (last calls)) = Some (Err e)))"

lemma retry_trace_stop:
  "retry_trace c staging retryable env (Suc left) k (Err c, [], [])"
  "retry_trace c staging retryable env (Suc left) k (Err c, [k], [])"
  "rd_result (env k) = Some r \<Longrightarrow> retry_trace c staging retryable env (Suc left) k (r, [k], [])"
  by (auto simp: retry_trace_def split: sum.split)

lemma retry_trace_again:
  assumes "retry_trace c staging retryable env left (Suc k) (r, calls, delays)"
      and "retried staging retryable (env k) k d"
  shows "retry_trace c staging retryable env (Suc left) k (r, k # calls, d # delays)"
proof -
  have sleeps: "list_all (\<lambda>i. retried staging retryable (env (k + i)) (k + i) ((d # delays) ! i)) [0 ..< length (d # delays)]"
    using assms(1,2) by (auto simp: retry_trace_def list_all_iff nth_Cons split: nat.split)
  have calls: "k # calls = [k ..< k + length (k # calls)]"
    using assms(1) upt_conv_Cons [of k "k + Suc (length calls)"] by (simp add: retry_trace_def)
  have result: "case r of
        Inr v \<Rightarrow> 0 < length (k # calls) \<and> rd_result (env (last (k # calls))) = Some (Ok v)
      | Inl e \<Rightarrow> if e = c then True else 0 < length (k # calls) \<and> rd_result (env (last (k # calls))) = Some (Err e)"
    using assms(1) by (auto simp: retry_trace_def split: sum.splits)
  have "length (k # calls) \<le> Suc left" "length (d # delays) \<le> length (k # calls)"
      "length (k # calls) \<le> length (d # delays) + 1"
    using assms(1) by (simp_all add: retry_trace_def)
  with sleeps calls result show ?thesis unfolding retry_trace_def prod.case by (intro conjI)
qed

lemma retry_from_spec:
  "0 < left \<Longrightarrow> \<exists>out. retry_from c staging retryable env left k = Some out
     \<and> retry_trace c staging retryable env left k out"
proof (induction left arbitrary: k)
  case (Suc left)
  show ?case
  proof (cases "\<not> rd_cancelled (env k) \<and> (\<exists>e d. rd_result (env k) = Some (Err e) \<and> 0 < left
        \<and> Option.bind (retryable e) (retry_wait staging k) = Some d \<and> \<not> rd_sleep_cancelled (env k))")
    case True
    then obtain e d where ed: "\<not> rd_cancelled (env k)" "rd_result (env k) = Some (Err e)" "0 < left"
        "Option.bind (retryable e) (retry_wait staging k) = Some d" "\<not> rd_sleep_cancelled (env k)" by blast
    obtain r calls delays where out: "retry_from c staging retryable env left (Suc k) = Some (r, calls, delays)"
        "retry_trace c staging retryable env left (Suc k) (r, calls, delays)"
      using Suc.IH [OF ed(3), of "Suc k"] by auto
    have "retried staging retryable (env k) k d" using ed by (simp add: retried_def)
    then have "retry_trace c staging retryable env (Suc left) k (r, k # calls, d # delays)"
      by (rule retry_trace_again [OF out(2)])
    then show ?thesis using ed out(1) by simp
  next
    case False
    show ?thesis
    proof (cases "rd_result (env k)")
      case None
      then show ?thesis by (cases "rd_cancelled (env k)") (simp_all add: Let_def retry_trace_stop)
    next
      case (Some r)
      then show ?thesis using False
        by (cases r) (auto simp: Let_def retry_trace_stop split: option.split)
    qed
  qed
qed simp

text \<open>A retry loop with at least one attempt always ends without reaching the panic after it. It
  calls the operation for the attempts 0, 1, 2, ... and at most as often as allowed; every sleep
  follows a failure that the policy classifies as retryable and lasts the policy's delay, at most a
  minute; and the result is the cancellation or exactly what the last call returned.\<close>

theorem retry_loop_is_bounded:
  "if attempts = 0 then retry c attempts staging retryable env = None
   else case retry c attempts staging retryable env of
          None \<Rightarrow> False
        | Some (r, calls, delays) \<Rightarrow>
            calls = [0 ..< length calls] \<and> length calls \<le> unat attempts
            \<and> length delays \<le> length calls \<and> length calls \<le> length delays + 1
            \<and> list_all (\<lambda>i. retried staging retryable (env i) i (delays ! i) \<and> unat (delays ! i) \<le> 60000) [0 ..< length delays]
            \<and> (case r of
                 Inr v \<Rightarrow> 0 < length calls \<and> rd_result (env (last calls)) = Some (Ok v)
               | Inl e \<Rightarrow> if e = c then True else 0 < length calls \<and> rd_result (env (last calls)) = Some (Err e))"
proof (cases "attempts = 0")
  case False
  then have "0 < unat attempts" by (simp add: unat_gt_0)
  then obtain r calls delays where out: "retry_from c staging retryable env (unat attempts) 0 = Some (r, calls, delays)"
      "retry_trace c staging retryable env (unat attempts) 0 (r, calls, delays)"
    using retry_from_spec by (metis prod_cases3)
  have "unat (delays ! i) \<le> 60000" if "retried staging retryable (env i) i (delays ! i)" for i
    using that by (auto simp: retried_def bind_eq_Some_conv split: option.splits sum.splits intro: retry_wait_bounded)
  then show ?thesis using out False by (auto simp: retry_def retry_trace_def list_all_iff)
qed (simp add: retry_def)

end
