(* ===== verification/Download_Chunk.thy ===== *)
theory Download_Chunk
  imports Checkpoint Http_Range Control "HOL-Library.Sublist"
begin

text \<open>
  One ciphertext record of a download, from \<open>crates/transfer-native/src/protocol/download.rs\<close>:
  \<open>fetch_chunk\<close>, which continues a retained prefix under its entity tag, \<open>authenticate_and_write\<close>,
  \<open>restore_retained\<close> and the file names they use. The waits of one attempt are an argument
  (\<open>attempt_env\<close>): the response to the \<open>Range\<close> and \<open>If-Range\<close> headers sent or the failure of the
  request, the outcomes of the body reads (after the last one the idle time-out fires), where the
  host cancels, and the clock. What a request
  reports to the progress and to the concurrency control it shares with other requests is a list of
  events, each one call under the lock. Shown: a fetched record always has its full length, without
  file system faults it is one entity of the server and never a mixture of two, whatever is
  interrupted, and plaintext reaches the scratch file only after the record has authenticated.
\<close>

section \<open>Sizes, names and errors\<close>

definition DL_MAX_ATTEMPTS :: nat where "DL_MAX_ATTEMPTS = 6"

datatype dl_error = DlMsg string | DlIo io_error | DlHttp http_error | DlCk ck_error | DlControl control_error

text \<open>\<open>bail!("transfer cancelled")\<close>.\<close>

definition DL_CANCELLED :: dl_error where "DL_CANCELLED = DlMsg ''transfer cancelled''"

definition plaintext_len :: "u64 \<Rightarrow> u64 \<Rightarrow> u64 \<Rightarrow> u64" where
  "plaintext_len len chunk index = min (saturating_sub len (saturating_mul index chunk)) chunk"

definition ciphertext_to_plain :: "u64 \<Rightarrow> u64 \<Rightarrow> u64 \<Rightarrow> u64" where
  "ciphertext_to_plain plain_bytes cipher_bytes got = min (min got cipher_bytes) plain_bytes"

definition cipher_path :: "path \<Rightarrow> nat \<Rightarrow> u64 \<Rightarrow> path" where
  "cipher_path base item chunk = base @ [lit ''cipher-'' @ decimal item @ lit ''-'' @ decimal (unat chunk)]"

definition etag_path :: "path \<Rightarrow> nat \<Rightarrow> u64 \<Rightarrow> path" where
  "etag_path base item chunk = base @ [lit ''etag-'' @ decimal item @ lit ''-'' @ decimal (unat chunk)]"

definition plain_path :: "path \<Rightarrow> nat \<Rightarrow> path" where
  "plain_path base item = base @ [lit ''plain-'' @ decimal item]"

definition background_cipher_path :: "path \<Rightarrow> nat \<Rightarrow> u64 \<Rightarrow> path" where
  "background_cipher_path base item chunk =
     base @ [lit ''background-cipher-'' @ decimal item @ lit ''-'' @ decimal (unat chunk)]"

definition validate_range :: "u8 list option \<Rightarrow> u64 \<Rightarrow> u64 \<Rightarrow> u64 \<Rightarrow> (unit, dl_error) result" where
  "validate_range value start stop all =
     and_then (ok_or (DlMsg ''range response lacks Content-Range'') value) (\<lambda>v.
     and_then (ok_or (DlMsg ''failed to convert header to a str'') (header_to_str v)) (\<lambda>s.
     if s \<noteq> lit ''bytes '' @ decimal (unat start) @ lit ''-'' @ decimal (unat stop) @ lit ''/'' @ decimal (unat all)
     then Err (DlMsg ''Content-Range does not exactly match continuation'') else Ok ()))"

section \<open>State, events and the environment of an attempt\<close>

datatype dl_event =
    DlPhase phase
  | DlRestart nat u64 rstr u64
  | DlReport nat u64 u64 u64 rstr u64
  | DlObserve u64 u64 u64
  | DlSleep u64

record fetch_state =
  ft_fs :: fs
  ft_events :: "dl_event list"

type_synonym 'a ft_op = "(fetch_state, 'a, dl_error) st"

definition on_fs :: "(fs, 'a, dl_error) st \<Rightarrow> 'a ft_op" where
  "on_fs m s = (case m (ft_fs s) of (r, f) \<Rightarrow> (r, s\<lparr>ft_fs := f\<rparr>))"

definition fs_io :: "(fs, 'a, io_error) st \<Rightarrow> 'a ft_op" where
  "fs_io m = on_fs (\<lambda>f. case m f of (r, f') \<Rightarrow> (map_err DlIo r, f'))"

definition emit :: "dl_event \<Rightarrow> unit ft_op" where
  "emit e s = (Ok (), s\<lparr>ft_events := ft_events s @ [e]\<rparr>)"

record attempt_env =
  at_sent :: "(rstr \<times> rstr) option \<Rightarrow> http_response waited"
  at_body :: "(rstr \<times> rstr) option \<Rightarrow> u8 list option waited list"
  at_cancelled :: "nat \<Rightarrow> bool"
  at_sleep_cut :: bool
  at_clock :: "nat \<Rightarrow> u64 \<times> u64"

record fetch_request =
  fr_directory :: path
  fr_item :: nat
  fr_chunk :: u64
  fr_plain :: u64
  fr_ranges :: bool
  fr_item_name :: rstr
  fr_item_size :: u64
  fr_fresh :: bool
  fr_turbo :: bool

definition fr_expected :: "fetch_request \<Rightarrow> u64" where
  "fr_expected req = fr_plain req + AEAD_TAG_BYTES"

definition fr_path :: "fetch_request \<Rightarrow> path" where
  "fr_path req = cipher_path (fr_directory req) (fr_item req) (fr_chunk req)"

definition fr_etag_path :: "fetch_request \<Rightarrow> path" where
  "fr_etag_path req = etag_path (fr_directory req) (fr_item req) (fr_chunk req)"

text \<open>\<open>control.phase\<close> fails once the host has cancelled; the flag is read at the \<open>k\<close>-th call.\<close>

definition set_phase :: "attempt_env \<Rightarrow> nat \<Rightarrow> phase \<Rightarrow> unit ft_op" where
  "set_phase env k p =
     (if at_cancelled env k then lift_st (Err (DlControl Cancelled)) else emit (DlPhase p))"

definition download_retry_wait :: "u8 list option \<Rightarrow> nat \<Rightarrow> attempt_env \<Rightarrow> unit ft_op" where
  "download_retry_wait value attempt env =
     (let retry_after = map_option (\<lambda>v. saturating_mul v 1000) (Option.bind (Option.bind value header_to_str) parse_u64);
          ms = retry_delay_ms (of_nat attempt) retry_after 0
      in bind_st (emit (DlSleep ms)) (\<lambda>_.
         lift_st (if at_sleep_cut env then Err DL_CANCELLED else Ok ())))"

definition restrict_private :: "path \<Rightarrow> (fs, unit, io_error) st" where
  "restrict_private p = set_mode p 384"

text \<open>\<open>fs::read_to_string(path).ok()\<close>.\<close>

definition read_string :: "path \<Rightarrow> rstr option ft_op" where
  "read_string p = on_fs (\<lambda>f. case read_file p f of (Inr c, f') \<Rightarrow> (Ok (from_utf8 c), f') | (Inl _, f') \<Rightarrow> (Ok None, f'))"

section \<open>Fetching\<close>

text \<open>The body loop; the result says whether the body was interrupted and how much arrived.\<close>

fun body_loop ::
  "fetch_request \<Rightarrow> attempt_env \<Rightarrow> nat \<Rightarrow> nat \<Rightarrow> nat \<Rightarrow> nat \<Rightarrow> u8 list option waited list \<Rightarrow> (bool \<times> nat) ft_op" where
  "body_loop req env existing len k got [] = lift_st (Ok (True, got))"
| "body_loop req env existing len k got (Interrupted # ws) = lift_st (Err DL_CANCELLED)"
| "body_loop req env existing len k got (Overdue # ws) = lift_st (Ok (True, got))"
| "body_loop req env existing len k got (IoFailed # ws) = lift_st (Ok (True, got))"
| "body_loop req env existing len k got (Arrived None # ws) = lift_st (Ok (False, got))"
| "body_loop req env existing len k got (Arrived (Some bs) # ws) =
     (if len - got < length bs then lift_st (Err (DlMsg ''chunk response exceeds expected ciphertext length''))
      else
        bind_st (fs_io (write_all (fr_path req) bs)) (\<lambda>_.
        bind_st (set_phase env k ReceivingPhase) (\<lambda>_.
        bind_st (emit (DlReport (fr_item req) (fr_chunk req)
                   (ciphertext_to_plain (fr_plain req) (fr_expected req) (of_nat (existing + (got + length bs))))
                   (of_nat (length bs)) (fr_item_name req) (fr_item_size req))) (\<lambda>_.
        bind_st (emit (DlObserve (of_nat (length bs)) (max (fst (at_clock env k)) 1) (snd (at_clock env k)))) (\<lambda>_.
        body_loop req env existing len (Suc k) (got + length bs) ws)))))"

text \<open>One attempt; \<open>None\<close> is \<open>continue\<close>.\<close>

definition again :: "'a option ft_op" where "again = lift_st (Ok None)"

definition wait_again :: "attempt_env \<Rightarrow> nat \<Rightarrow> nat \<Rightarrow> phase \<Rightarrow> u8 list option \<Rightarrow> 'a option ft_op" where
  "wait_again env k attempt p value =
     bind_st (set_phase env k p) (\<lambda>_. bind_st (download_retry_wait value attempt env) (\<lambda>_. again))"

definition is_success :: "u16 \<Rightarrow> bool" where
  "is_success status \<longleftrightarrow> 200 \<le> status \<and> status < 300"

text \<open>The entity validator of a full response is stored before any byte of it.\<close>

definition store_etag :: "fetch_request \<Rightarrow> http_response \<Rightarrow> unit ft_op" where
  "store_etag req r =
     bind_st (lift_st (ok_or (DlMsg ''chunk response lacks strong ETag'')
               (Option.bind (rs_header r ''etag'') header_to_str))) (\<lambda>tag.
     if starts_with tag (lit ''W/'') then lift_st (Err (DlMsg ''chunk ETag must be strong''))
     else
       bind_st (fs_io (open_truncate (fr_etag_path req))) (\<lambda>_.
       bind_st (fs_io (write_all (fr_etag_path req) (bytes tag))) (\<lambda>_.
       fs_io (restrict_private (fr_etag_path req)))))"

definition receive_body ::
  "fetch_request \<Rightarrow> attempt_env \<Rightarrow> u8 list option waited list \<Rightarrow> nat \<Rightarrow> bool \<Rightarrow> nat \<Rightarrow> nat \<Rightarrow> u8 list option ft_op" where
  "receive_body req env ws attempt append_mode existing len =
     bind_st (fs_io (if append_mode then open_create (fr_path req) 420 else open_truncate (fr_path req))) (\<lambda>_.
     bind_st (fs_io (restrict_private (fr_path req))) (\<lambda>_.
     bind_st (body_loop req env existing len 0 0 ws) (\<lambda>(interrupted, got).
     bind_st (fs_io (sync_all (fr_path req))) (\<lambda>_.
     if interrupted \<or> got \<noteq> len
     then wait_again env (length ws) attempt Retrying None
     else
       bind_st (fs_io (read_file (fr_path req))) (\<lambda>content.
       if length content \<noteq> unat (fr_expected req)
       then lift_st (Err (DlMsg ''retained ciphertext is truncated''))
       else
         let now = at_clock env (length ws) in
         bind_st (emit (DlObserve (fr_expected req) (max (fst now) 1) (snd now))) (\<lambda>_. lift_st (Ok (Some content))))))))"

text \<open>A continuation is checked; a full response to a request with a prefix resets the record.\<close>

definition keep_prefix :: "fetch_request \<Rightarrow> bool \<Rightarrow> nat \<Rightarrow> rstr option \<Rightarrow> http_response \<Rightarrow> nat ft_op" where
  "keep_prefix req append_mode existing etag r =
     (if append_mode then
        bind_st (lift_st (validate_range (rs_header r ''content-range'') (of_nat existing) (fr_expected req - 1) (fr_expected req))) (\<lambda>_.
        if Option.bind (rs_header r ''etag'') header_to_str \<noteq> etag
        then lift_st (Err (DlMsg ''range ETag changed'')) else lift_st (Ok existing))
      else if 0 < existing then
        bind_st (on_fs (ignore (remove_file (fr_path req)))) (\<lambda>_.
        bind_st (emit (DlRestart (fr_item req) (fr_chunk req) (fr_item_name req) (fr_item_size req))) (\<lambda>_.
        lift_st (Ok 0)))
      else lift_st (Ok existing))"

definition content_length :: "http_response \<Rightarrow> (rstr option, dl_error) result" where
  "content_length r =
     (case rs_header r ''content-length'' of
        None \<Rightarrow> Ok None
      | Some v \<Rightarrow> ok_or (DlMsg ''failed to convert header to a str'') (map_option Some (header_to_str v)))"

definition finish_response ::
  "fetch_request \<Rightarrow> attempt_env \<Rightarrow> u8 list option waited list \<Rightarrow> nat \<Rightarrow> bool \<Rightarrow> http_response \<Rightarrow> nat \<Rightarrow> u8 list option ft_op" where
  "finish_response req env ws attempt append_mode r existing =
     (let len = (if append_mode then fr_expected req - of_nat existing else fr_expected req) in
      bind_st (lift_st (content_length r)) (\<lambda>l.
      bind_st (lift_st (map_err DlHttp (validate_content_length l len))) (\<lambda>_.
      bind_st (if append_mode then lift_st (Ok ()) else store_etag req r) (\<lambda>_.
      receive_body req env ws attempt append_mode existing (unat len)))))"

definition accept_response ::
  "fetch_request \<Rightarrow> attempt_env \<Rightarrow> u8 list option waited list \<Rightarrow> nat \<Rightarrow> nat \<Rightarrow> rstr option \<Rightarrow> http_response \<Rightarrow> u8 list option ft_op" where
  "accept_response req env ws attempt existing etag r =
     (let append_mode = (0 < existing \<and> fr_ranges req \<and> rs_status r = 206) in
      if rs_status r = 206 \<and> \<not> append_mode then lift_st (Err (DlMsg ''unexpected partial chunk response''))
      else bind_st (keep_prefix req append_mode existing etag r) (finish_response req env ws attempt append_mode r))"

text \<open>The \<open>Range\<close> and \<open>If-Range\<close> headers of the request.\<close>

definition continuation :: "fetch_request \<Rightarrow> nat \<Rightarrow> rstr option \<Rightarrow> (rstr \<times> rstr) option" where
  "continuation req existing etag =
     (if 0 < existing \<and> fr_ranges req
      then map_option (\<lambda>tag. (lit ''bytes='' @ decimal existing @ lit ''-'' @ decimal (unat (fr_expected req - 1)), tag)) etag
      else None)"

text \<open>How much of the record is retained; a fresh request starts by removing it.\<close>

definition retained_prefix :: "fetch_request \<Rightarrow> nat \<Rightarrow> nat ft_op" where
  "retained_prefix req attempt =
     bind_st (on_fs (len_or_0 (fr_path req))) (\<lambda>found.
       if fr_fresh req \<and> attempt = 0 \<and> 0 < found
       then bind_st (on_fs (ignore (remove_file (fr_path req)))) (\<lambda>_.
            bind_st (on_fs (ignore (remove_file (fr_etag_path req)))) (\<lambda>_. lift_st (Ok 0)))
       else lift_st (Ok found))"

definition request_chunk_bytes :: "fetch_request \<Rightarrow> attempt_env \<Rightarrow> nat \<Rightarrow> nat \<Rightarrow> rstr option \<Rightarrow> u8 list option ft_op" where
  "request_chunk_bytes req env attempt existing etag =
     (let h = continuation req existing etag in
      case at_sent env h of
        Interrupted \<Rightarrow> lift_st (Err DL_CANCELLED)
      | Overdue \<Rightarrow> wait_again env 0 attempt Reconnecting None
      | IoFailed \<Rightarrow> wait_again env 0 attempt Reconnecting None
      | Arrived r \<Rightarrow>
          if rs_status r = 202 \<or> retryable_status (rs_status r) False
          then wait_again env 0 attempt Retrying (rs_header r ''retry-after'')
          else if \<not> is_success (rs_status r) then lift_st (Err (DlHttp (HttpStatus (rs_status r))))
          else accept_response req env (at_body env h) attempt existing etag r)"

definition strong_tag :: "rstr option \<Rightarrow> bool" where
  "strong_tag etag \<longleftrightarrow> (case etag of None \<Rightarrow> False | Some tag \<Rightarrow> tag \<noteq> [] \<and> \<not> starts_with tag (lit ''W/''))"

definition fetch_attempt :: "fetch_request \<Rightarrow> attempt_env \<Rightarrow> nat \<Rightarrow> u8 list option ft_op" where
  "fetch_attempt req env attempt =
     bind_st (retained_prefix req attempt) (\<lambda>existing.
     if unat (fr_expected req) < existing
     then bind_st (on_fs (ignore (remove_file (fr_path req)))) (\<lambda>_. again)
     else
       bind_st (read_string (fr_etag_path req)) (\<lambda>etag.
       if existing = unat (fr_expected req) \<and> strong_tag etag
       then bind_st (fs_io (read_file (fr_path req))) (\<lambda>content. lift_st (Ok (Some content)))
       else if 0 < existing \<and> fr_ranges req \<and> etag = None
       then bind_st (on_fs (ignore (remove_file (fr_path req)))) (\<lambda>_. again)
       else request_chunk_bytes req env attempt existing etag))"

fun fetch_from :: "fetch_request \<Rightarrow> (nat \<Rightarrow> attempt_env) \<Rightarrow> nat \<Rightarrow> nat \<Rightarrow> u8 list ft_op" where
  "fetch_from req env 0 attempt = lift_st (Err (DlMsg ''chunk retry window exhausted''))"
| "fetch_from req env (Suc left) attempt =
     bind_st (fetch_attempt req (env attempt) attempt) (\<lambda>got.
       case got of Some content \<Rightarrow> lift_st (Ok content) | None \<Rightarrow> fetch_from req env left (Suc attempt))"

definition fetch_chunk :: "fetch_request \<Rightarrow> (nat \<Rightarrow> attempt_env) \<Rightarrow> u8 list ft_op" where
  "fetch_chunk req env =
     fetch_from req env (if fr_turbo req then DL_MAX_ATTEMPTS * 100 else DL_MAX_ATTEMPTS) 0"

section \<open>Authenticating and writing a record\<close>

text \<open>\<open>decode\<close> is base64url without padding, from the \<open>base64\<close> crate: a parameter. A temporary file has a
  name that its crate makes up (\<open>.tmp\<close> and random characters, \<open>fresh\<close>) and is removed when it is dropped before it is persisted.\<close>

definition chunk_aad :: "rstr \<Rightarrow> rstr \<Rightarrow> rstr \<Rightarrow> u8 list" where
  "chunk_aad transfer item index = bytes (lit ''filebeam:v1:'' @ transfer @ lit '':'' @ item @ lit '':'' @ index)"

record saved_item =
  si_id :: rstr
  si_name :: rstr
  si_size :: u64
  si_nonce_prefix :: rstr
  si_chunk_count :: u64
  si_digest :: rstr
  si_target :: path
  si_verified :: "bool list"
  si_published :: bool

definition open_chunk ::
  "crypto \<Rightarrow> (rstr \<Rightarrow> u8 list option) \<Rightarrow> rstr \<Rightarrow> saved_item \<Rightarrow> u64 \<Rightarrow> u8 list \<Rightarrow> u8 list \<Rightarrow> (u8 list, dl_error) result" where
  "open_chunk cr decode transfer item index key ciphertext =
     and_then (ok_or (DlMsg ''invalid base64url data'') (decode (si_nonce_prefix item))) (\<lambda>np.
       map_err DlMsg (decrypt_chunk cr key np (ucast index) ciphertext
         (chunk_aad transfer (si_id item) (decimal (unat index)))))"

definition write_plain :: "path \<Rightarrow> nat \<Rightarrow> nat \<Rightarrow> u8 list \<Rightarrow> unit ft_op" where
  "write_plain base item off content =
     (let p = plain_path base item in
      bind_st (fs_io (open_create p 420)) (\<lambda>_.
      bind_st (fs_io (restrict_private p)) (\<lambda>_.
      bind_st (fs_io (write_at p off content)) (\<lambda>_. fs_io (sync_all p)))))"

definition drop_temp :: "path \<Rightarrow> 'a ft_op \<Rightarrow> 'a ft_op" where
  "drop_temp t m s =
     (case m s of (Inr x, s') \<Rightarrow> (Ok x, s') | (Inl e, s') \<Rightarrow> (Err e, snd (on_fs (ignore (remove_file t)) s')))"

definition retain_record :: "path \<Rightarrow> rstr \<Rightarrow> path \<Rightarrow> u8 list \<Rightarrow> unit ft_op" where
  "retain_record base fresh target ciphertext =
     (let t = base @ [lit ''.tmp'' @ fresh] in
      bind_st (fs_io (open_new t 384)) (\<lambda>_.
      bind_st (drop_temp t
        (bind_st (fs_io (write_all t ciphertext)) (\<lambda>_.
         bind_st (fs_io (sync_all t)) (\<lambda>_. fs_io (rename_file t target))))) (\<lambda>_.
      fs_io (sync_all (butlast target)))))"

definition authenticate_and_write ::
  "crypto \<Rightarrow> (rstr \<Rightarrow> u8 list option) \<Rightarrow> rstr \<Rightarrow> path \<Rightarrow> nat \<Rightarrow> u64 \<Rightarrow> u64 \<Rightarrow> rstr \<Rightarrow> saved_item \<Rightarrow> u8 list \<Rightarrow> u8 list \<Rightarrow> bool
     \<Rightarrow> u64 ft_op" where
  "authenticate_and_write cr decode fresh base item_index index chunk_bytes transfer item master ciphertext retain_ciphertext =
     bind_st (lift_st (map_err DlMsg (derive_item_key cr master transfer (si_id item)))) (\<lambda>key.
     bind_st (lift_st (open_chunk cr decode transfer item index key ciphertext)) (\<lambda>content.
     let expected = plaintext_len (si_size item) chunk_bytes index in
     if length content \<noteq> unat expected
     then lift_st (Err (DlMsg ''authenticated chunk has an invalid plaintext length''))
     else
       bind_st (if retain_ciphertext
                then retain_record base fresh (cipher_path base item_index index) ciphertext
                else lift_st (Ok ())) (\<lambda>_.
       bind_st (write_plain base item_index (unat (index * chunk_bytes)) content) (\<lambda>_. lift_st (Ok expected)))))"

definition restore_retained ::
  "crypto \<Rightarrow> (rstr \<Rightarrow> u8 list option) \<Rightarrow> path \<Rightarrow> nat \<Rightarrow> rstr \<Rightarrow> u64 \<Rightarrow> saved_item \<Rightarrow> u64 \<Rightarrow> u8 list \<Rightarrow> bool ft_op" where
  "restore_retained cr decode base item_index transfer chunk_bytes item index key s =
     (case fs_io (read_file (cipher_path base item_index index)) s of
        (Inl _, s') \<Rightarrow> (Ok False, s')
      | (Inr ciphertext, s') \<Rightarrow>
          (case map_err DlMsg (derive_item_key cr key transfer (si_id item)) of
             Inl e \<Rightarrow> (Err e, s')
           | Inr item_key \<Rightarrow>
               (case decode (si_nonce_prefix item) of
                  None \<Rightarrow> (Err (DlMsg ''invalid base64url data''), s')
                | Some _ \<Rightarrow>
                    (case open_chunk cr decode transfer item index item_key ciphertext of
                       Inl _ \<Rightarrow> (Ok False, s')
                     | Inr content \<Rightarrow>
                         if length content \<noteq> unat (plaintext_len (si_size item) chunk_bytes index) then (Ok False, s')
                         else bind_st (write_plain base item_index (unat (index * chunk_bytes)) content) (\<lambda>_. lift_st (Ok True)) s'))))"

section \<open>What a request touches\<close>

lemma keeps_fs_io:
  fixes v :: "fs \<Rightarrow> 'v"
  assumes "leaves v m"
  shows "keeps (\<lambda>s. P (v (ft_fs s))) (fs_io m)"
  using assms by (intro keepsI) (simp add: fs_io_def on_fs_def leaves_def split_beta)

lemma keeps_on_fs:
  fixes v :: "fs \<Rightarrow> 'v"
  assumes "leaves v m"
  shows "keeps (\<lambda>s. P (v (ft_fs s))) (on_fs m)"
  using assms by (intro keepsI) (simp add: on_fs_def leaves_def split_beta)

lemma keeps_emit [keeps_intro]: "keeps (\<lambda>s. P (ft_fs s)) (emit e)"
  by (rule keepsI) (simp add: emit_def)

lemma keeps_events [keeps_intro]:
  "keeps (\<lambda>s. P (ft_fs s)) (set_phase env k p)" "keeps (\<lambda>s. P (ft_fs s)) (download_retry_wait v a env)"
  unfolding set_phase_def download_retry_wait_def Let_def by (intro keeps_intro)+

lemma keeps_again [keeps_intro]: "keeps I again"
  unfolding again_def by (rule keeps_lift)

lemma keeps_wait_again [keeps_intro]: "keeps (\<lambda>s. P (ft_fs s)) (wait_again env k a p v)"
  unfolding wait_again_def by (intro keeps_intro)

lemma leaves_misc [leaves_intro]:
  "leaves nodes (len_or_0 p)" "leaves nodes (path_exists p)"
  "q \<noteq> p \<Longrightarrow> leaves (\<lambda>s. nodes s q) (open_truncate p)" "q \<noteq> p \<Longrightarrow> leaves (\<lambda>s. nodes s q) (set_mode p m)"
  "leaves v n \<Longrightarrow> leaves v (ignore n)"
proof -
  have m: "leaves nodes (symlink_metadata p)" by (intro leaves_intro faultless_nodes)
  show "leaves nodes (len_or_0 p)" "leaves nodes (path_exists p)"
    using m by (auto simp: leaves_def len_or_0_def path_exists_def split: prod.split sum.split) (metis snd_conv)+
  show "leaves (\<lambda>s. nodes s q) (open_truncate p)" if "q \<noteq> p"
    unfolding open_truncate_def by (rule leaves_syscall) (use that in \<open>auto simp: put_view split: option.split node.split\<close>)
  show "leaves (\<lambda>s. nodes s q) (set_mode p m)" if "q \<noteq> p"
    unfolding set_mode_def by (rule leaves_syscall) (use that in \<open>auto simp: put_view split: option.split node.split\<close>)
  show "leaves v n \<Longrightarrow> leaves v (ignore n)" by (simp add: leaves_def ignore_def)
qed

lemma leaves_view: "leaves nodes m \<Longrightarrow> leaves (\<lambda>s. nodes s q) m"
  by (simp add: leaves_def)

lemma paths_differ [simp]: "fr_path req \<noteq> fr_etag_path req" "fr_etag_path req \<noteq> fr_path req"
  by (simp_all add: fr_path_def fr_etag_path_def cipher_path_def etag_path_def)

text \<open>Only the two files of the chunk change.\<close>

lemma keeps_body_loop:
  assumes "q \<noteq> fr_path req"
  shows "keeps (\<lambda>s. nodes (ft_fs s) q = n) (body_loop req env existing len k got ws)"
  using assms by (induction req env existing len k got ws rule: body_loop.induct)
    (auto intro!: keeps_intro keeps_fs_io [where v = "\<lambda>s. nodes s q"] leaves_intro)

lemma keeps_receive_body:
  assumes "q \<noteq> fr_path req"
  shows "keeps (\<lambda>s. nodes (ft_fs s) q = n) (receive_body req env ws attempt append_mode existing len)"
  using assms unfolding receive_body_def restrict_private_def Let_def
  by (auto intro!: keeps_intro keeps_fs_io [where v = "\<lambda>s. nodes s q"] leaves_intro keeps_body_loop faultless_nodes)

lemma keeps_accept:
  assumes "q \<noteq> fr_path req" "q \<noteq> fr_etag_path req"
  shows "keeps (\<lambda>s. nodes (ft_fs s) q = n) (accept_response req env ws attempt existing etag r)"
  using assms unfolding accept_response_def keep_prefix_def finish_response_def store_etag_def restrict_private_def Let_def
  by (auto intro!: keeps_intro keeps_fs_io [where v = "\<lambda>s. nodes s q"] keeps_on_fs [where v = "\<lambda>s. nodes s q"]
      leaves_intro keeps_receive_body split: option.split)

lemma keeps_waited:
  assumes "\<And>r. keeps I (f r)" "keeps I m"
  shows "keeps I (case w of Interrupted \<Rightarrow> lift_st e | Overdue \<Rightarrow> m | IoFailed \<Rightarrow> m | Arrived r \<Rightarrow> f r)"
  using assms by (auto intro: keeps_intro split: waited.split)

lemma keeps_read_string: "keeps (\<lambda>s. P (nodes (ft_fs s))) (read_string p)"
proof -
  have "leaves nodes (read_file p)" by (intro leaves_intro faultless_nodes)
  then show ?thesis
    unfolding read_string_def by (intro keeps_on_fs [where v = nodes]) (auto simp: leaves_def split: prod.split sum.split, (metis snd_conv)+)
qed

lemma keeps_fetch:
  assumes "q \<noteq> fr_path req" "q \<noteq> fr_etag_path req"
  shows "keeps (\<lambda>s. nodes (ft_fs s) q = n) (fetch_attempt req env attempt)"
    and "keeps (\<lambda>s. nodes (ft_fs s) q = n) (fetch_from req envs left attempt)"
    and "keeps (\<lambda>s. nodes (ft_fs s) q = n) (fetch_chunk req envs)"
proof -
  show a: "keeps (\<lambda>s. nodes (ft_fs s) q = n) (fetch_attempt req env attempt)" for env attempt
    using assms unfolding fetch_attempt_def retained_prefix_def request_chunk_bytes_def Let_def
    by (auto intro!: keeps_intro keeps_fs_io [where v = "\<lambda>s. nodes s q"] keeps_on_fs [where v = "\<lambda>s. nodes s q"]
        leaves_intro leaves_view [OF leaves_misc(1)] keeps_waited keeps_accept keeps_read_string [where P = "\<lambda>v. v q = n"] faultless_nodes
        split: option.split)
  show f: "keeps (\<lambda>s. nodes (ft_fs s) q = n) (fetch_from req envs left attempt)" for left attempt
  proof (induction left arbitrary: attempt)
    case (Suc left)
    then show ?case by (auto intro!: keeps_bind a keeps_lift split: option.split)
  qed (simp add: keeps_lift)
  then show "keeps (\<lambda>s. nodes (ft_fs s) q = n) (fetch_chunk req envs)" unfolding fetch_chunk_def by simp
qed

section \<open>A fetched record is whole\<close>

lemma read_file_Ok: "read_file p f = (Inr c, f') \<Longrightarrow> \<exists>m. nodes f p = Some (Regular m c)"
  unfolding read_file_def by (auto dest!: syscall_Ok split: option.splits node.splits)

lemma fs_io_Ok: "fs_io m s = (Inr x, s') \<longleftrightarrow> (\<exists>f. m (ft_fs s) = (Inr x, f) \<and> s' = s\<lparr>ft_fs := f\<rparr>)"
  by (auto simp: fs_io_def on_fs_def split: prod.splits)

lemma on_fs_Ok: "on_fs m s = (Inr x, s') \<longleftrightarrow> (\<exists>f. m (ft_fs s) = (Inr x, f) \<and> s' = s\<lparr>ft_fs := f\<rparr>)"
  by (auto simp: on_fs_def split: prod.splits)

lemma wait_again_None: "wait_again env k a p v s = (Inr (Some c), s') \<Longrightarrow> False"
  by (auto simp: wait_again_def bind_st_Inr again_def)

lemma wait_again_triple:
  "triple (\<lambda>s. P (ft_fs s)) (wait_again env k a p v :: 'b option ft_op) (\<lambda>x s. x = None \<and> P (ft_fs s)) (\<lambda>_ s. P (ft_fs s))"
  unfolding triple_def
proof (intro allI impI)
  fix s :: fetch_state assume "P (ft_fs s)"
  obtain r :: "('b option, dl_error) result" and s' where run: "wait_again env k a p v s = (r, s')" by force
  then have "P (ft_fs s')" using keepsD_run [OF keeps_wait_again] \<open>P (ft_fs s)\<close> by blast
  moreover have "r = Inr x \<Longrightarrow> x = None" for x using run by (cases x) (auto dest: wait_again_None)
  ultimately show "case (wait_again env k a p v :: 'b option ft_op) s of (Inr x, s') \<Rightarrow> x = None \<and> P (ft_fs s') | (Inl _, s') \<Rightarrow> P (ft_fs s')"
    unfolding run by (cases r) auto
qed

lemma receive_body_length:
  "receive_body req env ws attempt am existing len s = (Inr (Some c), s') \<Longrightarrow> length c = unat (fr_expected req)"
  unfolding receive_body_def Let_def
  by (auto simp: bind_st_Inr dest: wait_again_None split: if_splits prod.splits)

lemma accept_length:
  assumes "accept_response req env ws attempt existing etag r s = (Inr (Some c), s')"
  shows "length c = unat (fr_expected req)"
proof -
  obtain am e len s1 where "receive_body req env ws attempt am e len s1 = (Inr (Some c), s')"
    using assms unfolding accept_response_def keep_prefix_def finish_response_def Let_def
    by (cases "rs_status r = 206 \<and> \<not> (0 < existing \<and> fr_ranges req)") (auto simp: bind_st_Inr split: if_splits)
  then show ?thesis by (rule receive_body_length)
qed

lemma len_or_0_Ok: "len_or_0 p f = (Inr n, f') \<Longrightarrow> 0 < n \<Longrightarrow> \<exists>m c. nodes f p = Some (Regular m c) \<and> length c = n"
  by (auto simp: len_or_0_def symlink_metadata_def ok_or_def dest!: syscall_Ok split: prod.splits sum.splits option.splits)
     (metis less_nat_zero_code node_len.elims)

lemma retained_prefix_Ok:
  assumes "retained_prefix req attempt s = (Inr n, s1)" "0 < n"
  shows "\<exists>m c. nodes (ft_fs s1) (fr_path req) = Some (Regular m c) \<and> length c = n"
proof -
  have "on_fs (len_or_0 (fr_path req)) s = (Inr n, s1)"
    using assms by (auto simp: retained_prefix_def bind_st_Inr split: if_splits)
  then obtain f where f: "(len_or_0 (fr_path req) :: (fs, nat, dl_error) st) (ft_fs s) = (Inr n, f)" "s1 = s\<lparr>ft_fs := f\<rparr>"
    by (auto simp: on_fs_Ok)
  then show ?thesis
    using len_or_0_Ok [OF f(1) assms(2)] leavesD [OF leaves_misc(1) f(1)] by simp
qed

lemma request_chunk_length:
  assumes "request_chunk_bytes req env attempt existing etag s = (Inr (Some c), s')"
  shows "length c = unat (fr_expected req)"
  using assms unfolding request_chunk_bytes_def Let_def
  by (auto dest: wait_again_None accept_length split: waited.splits if_splits)

lemma fetch_attempt_length:
  assumes "fetch_attempt req env attempt s = (Inr (Some c), s')" "0 < fr_expected req"
  shows "length c = unat (fr_expected req)"
proof -
  let ?E = "unat (fr_expected req)"
  have pos: "0 < ?E" using assms(2) by (simp add: word_less_nat_alt)
  obtain existing s1 where 1: "retained_prefix req attempt s = (Inr existing, s1)"
    and rest: "(if ?E < existing then bind_st (on_fs (ignore (remove_file (fr_path req)))) (\<lambda>_. again)
     else bind_st (read_string (fr_etag_path req)) (\<lambda>etag.
       if existing = ?E \<and> strong_tag etag
       then bind_st (fs_io (read_file (fr_path req))) (\<lambda>content. lift_st (Ok (Some content)))
       else if 0 < existing \<and> fr_ranges req \<and> etag = None
       then bind_st (on_fs (ignore (remove_file (fr_path req)))) (\<lambda>_. again)
       else request_chunk_bytes req env attempt existing etag)) s1 = (Inr (Some c), s')"
    using assms(1) unfolding fetch_attempt_def bind_st_Inr by blast
  from rest obtain etag s2 where 2: "read_string (fr_etag_path req) s1 = (Inr etag, s2)"
    and 3: "(if existing = ?E \<and> strong_tag etag
       then bind_st (fs_io (read_file (fr_path req))) (\<lambda>content. lift_st (Ok (Some content)))
       else if 0 < existing \<and> fr_ranges req \<and> etag = None
       then bind_st (on_fs (ignore (remove_file (fr_path req)))) (\<lambda>_. again)
       else request_chunk_bytes req env attempt existing etag) s2 = (Inr (Some c), s')"
    by (auto simp: bind_st_Inr again_def split: if_splits)
  show ?thesis
  proof (cases "existing = ?E \<and> strong_tag etag")
    case True
    then obtain f where "read_file (fr_path req) (ft_fs s2) = (Inr c, f)"
      using 3 by (auto simp: bind_st_Inr fs_io_Ok)
    then obtain m where "nodes (ft_fs s2) (fr_path req) = Some (Regular m c)" using read_file_Ok by blast
    moreover have "nodes (ft_fs s2) = nodes (ft_fs s1)"
      using keepsD_run [OF keeps_read_string [where P = "\<lambda>v. v = nodes (ft_fs s1)"] 2] by simp
    ultimately show ?thesis using retained_prefix_Ok [OF 1] True pos by auto
  next
    case False
    with 3 show ?thesis
      by (auto simp: bind_st_Inr again_def dest: request_chunk_length split: if_splits)
  qed
qed

lemma fetch_chunk_length:
  assumes "fetch_chunk req envs s = (Inr c, s')" "0 < fr_expected req"
  shows "length c = unat (fr_expected req)"
proof -
  have "fetch_from req envs left a s = (Inr c, s') \<Longrightarrow> length c = unat (fr_expected req)" for left a s
    by (induction left arbitrary: a s)
       (auto simp: bind_st_Inr dest: fetch_attempt_length [OF _ assms(2)] split: option.splits)
  then show ?thesis using assms(1) unfolding fetch_chunk_def by blast
qed

section \<open>Never a mixture of two entities\<close>

text \<open>The bytes of the body that arrive, and what HTTP says about them: the body of a full response is
  (a part of) the entity its tag names, the body of a partial one is the entity from the start of the
  range requested.\<close>

fun arrived :: "u8 list option waited list \<Rightarrow> u8 list" where
  "arrived (Arrived (Some bs) # ws) = bs @ arrived ws"
| "arrived _ = []"

definition response_tag :: "http_response \<Rightarrow> rstr option" where
  "response_tag r = Option.bind (rs_header r ''etag'') header_to_str"

definition honest :: "(rstr \<Rightarrow> u8 list) \<Rightarrow> attempt_env \<Rightarrow> bool" where
  "honest entity env \<longleftrightarrow> (\<forall>h r tag. at_sent env h = Arrived r \<longrightarrow> response_tag r = Some tag \<longrightarrow>
     (if rs_status r = 206
      then \<forall>a b t. h = Some (lit ''bytes='' @ decimal a @ lit ''-'' @ decimal b, t) \<longrightarrow>
             prefix (arrived (at_body env h)) (drop a (entity tag))
      else prefix (arrived (at_body env h)) (entity tag)))"

definition content_at :: "path \<Rightarrow> fs \<Rightarrow> u8 list option" where
  "content_at p f = (case nodes f p of Some (Regular _ c) \<Rightarrow> Some c | _ \<Rightarrow> None)"

definition holds :: "fetch_request \<Rightarrow> u8 list option \<Rightarrow> u8 list option \<Rightarrow> fs \<Rightarrow> bool" where
  "holds req e c f \<longleftrightarrow> faults f = [] \<and> content_at (fr_etag_path req) f = e \<and> content_at (fr_path req) f = c"

definition agrees :: "(rstr \<Rightarrow> u8 list) \<Rightarrow> u8 list option \<Rightarrow> u8 list option \<Rightarrow> bool" where
  "agrees entity e c \<longleftrightarrow> (\<forall>tag d. Option.bind e from_utf8 = Some tag \<longrightarrow> c = Some d \<longrightarrow> prefix d (entity tag))"

definition consistent :: "(rstr \<Rightarrow> u8 list) \<Rightarrow> fetch_request \<Rightarrow> fs \<Rightarrow> bool" where
  "consistent entity req f \<longleftrightarrow> (\<exists>e c. holds req e c f \<and> agrees entity e c)"

lemma consistentI: "holds req e c f \<Longrightarrow> agrees entity e c \<Longrightarrow> consistent entity req f"
  unfolding consistent_def by blast

lemma agrees_trivial: "agrees entity e None" "agrees entity None c" "agrees entity e (Some [])"
  by (simp_all add: agrees_def)

text \<open>The calls without faults, on any file.\<close>

fun file_content :: "node option \<Rightarrow> u8 list option" where
  "file_content (Some (Regular _ c)) = Some c"
| "file_content _ = None"

lemma content_put: "content_at q (put p n f) = (if q = p then file_content n else content_at q f)"
  by (auto simp: content_at_def put_view split: option.split node.split)

lemma content_append:
  "content_at q (append p bs f) = (if q = p then map_option (\<lambda>d. d @ bs) (content_at q f) else content_at q f)"
  by (auto simp: append_def content_put split: option.split node.split) (auto simp: content_at_def split: option.split node.split)

lemma calm_write_all:
  assumes "faults f = []" "write_all p bs f = (r, f')"
  shows "r = Inr () \<and> faults f' = [] \<and> content_at p f' = map_option (\<lambda>d. d @ bs) (content_at p f)
    \<and> (q \<noteq> p \<longrightarrow> content_at q f' = content_at q f)"
  using assms by (auto simp: write_all_def next_fault_def content_append append_view)

lemma calm_call:
  assumes "faults f = []" "syscall g f = (r, f')"
  shows "g f = (r, f')"
  using assms by (simp add: syscall_fault_free)

lemma content_cases:
  "nodes f p = None \<Longrightarrow> content_at p f = None" "nodes f p = Some (Dir m) \<Longrightarrow> content_at p f = None"
  "nodes f p = Some (Special m) \<Longrightarrow> content_at p f = None" "nodes f p = Some (Regular m c) \<Longrightarrow> content_at p f = Some c"
  by (simp_all add: content_at_def)

lemma calm_open_truncate:
  assumes "faults f = []" "open_truncate p f = (r, f')"
  shows "faults f' = [] \<and> content_at p f' = (if is_ok r then Some [] else content_at p f)
    \<and> (q \<noteq> p \<longrightarrow> content_at q f' = content_at q f)"
  using calm_call [OF assms(1) assms(2) [unfolded open_truncate_def]] assms(1)
  by (auto simp: content_put put_view is_ok_def split: option.splits node.splits if_splits)

lemma calm_set_mode:
  assumes "faults f = []" "set_mode p m f = (r, f')"
  shows "faults f' = [] \<and> content_at q f' = content_at q f"
  using calm_call [OF assms(1) assms(2) [unfolded set_mode_def]] assms(1)
  by (auto simp: content_put put_view content_cases split: option.splits node.splits)

lemma calm_open_create:
  assumes "faults f = []" "open_create p m f = (r, f')"
  shows "faults f' = [] \<and> content_at p f' = (if is_ok r then Some (case content_at p f of None \<Rightarrow> [] | Some d \<Rightarrow> d) else content_at p f)
    \<and> (q \<noteq> p \<longrightarrow> content_at q f' = content_at q f)"
  using calm_call [OF assms(1) assms(2) [unfolded open_create_def]] assms(1)
  by (auto simp: content_put put_view content_cases is_ok_def split: option.splits if_splits elim!: is_file.elims)

lemma calm_remove_file:
  assumes "faults f = []" "remove_file p f = (r, f')"
  shows "faults f' = [] \<and> content_at p f' = None \<and> (q \<noteq> p \<longrightarrow> content_at q f' = content_at q f)"
  using calm_call [OF assms(1) assms(2) [unfolded remove_file_def]] assms(1)
  by (auto simp: content_put put_view content_cases split: option.splits if_splits elim!: is_dir.elims)

lemma calm_read_file:
  assumes "faults f = []" "read_file p f = (r, f')"
  shows "f' = f \<and> (case r of Inr c \<Rightarrow> content_at p f = Some c | Inl _ \<Rightarrow> content_at p f = None)"
  using calm_call [OF assms(1) assms(2) [unfolded read_file_def]]
  by (auto simp: content_cases split: option.splits node.splits)

lemma calm_sync_all: "faults f = [] \<Longrightarrow> sync_all p f = (r, f') \<Longrightarrow> f' = f"
  by (simp add: sync_all_def syscall_fault_free)

abbreviation has :: "fetch_request \<Rightarrow> u8 list option \<Rightarrow> u8 list option \<Rightarrow> fetch_state \<Rightarrow> bool" where
  "has req e c s \<equiv> holds req e c (ft_fs s)"

lemma fs_io_triple:
  assumes "\<And>f r f'. P f \<Longrightarrow> m f = (r, f') \<Longrightarrow> (case r of Inr x \<Rightarrow> Q x f' | Inl e \<Rightarrow> E f')"
  shows "triple (\<lambda>s. P (ft_fs s)) (fs_io m) (\<lambda>x s. Q x (ft_fs s)) (\<lambda>_ s. E (ft_fs s))"
  unfolding triple_def
proof (intro allI impI)
  fix s :: fetch_state assume "P (ft_fs s)"
  obtain r f' where m: "m (ft_fs s) = (r, f')" by force
  from assms [OF \<open>P (ft_fs s)\<close> m] show "case fs_io m s of (Inr x, s') \<Rightarrow> Q x (ft_fs s') | (Inl e, s') \<Rightarrow> E (ft_fs s')"
    by (cases r) (simp_all add: fs_io_def on_fs_def m map_err_def)
qed

lemma ignore_triple:
  assumes "\<And>f r f'. P f \<Longrightarrow> m f = (r, f') \<Longrightarrow> Q f'"
  shows "triple (\<lambda>s. P (ft_fs s)) (on_fs (ignore m)) (\<lambda>_ s. Q (ft_fs s)) E"
  unfolding triple_def on_fs_def ignore_def using assms by (auto split: prod.splits) (metis prod.collapse)

lemma keeps_triple:
  "keeps I m \<Longrightarrow> (\<And>s. P s \<Longrightarrow> I s) \<Longrightarrow> (\<And>x s. I s \<Longrightarrow> Q x s) \<Longrightarrow> (\<And>x s. I s \<Longrightarrow> E x s) \<Longrightarrow> triple P m Q E"
  unfolding keeps_def by (rule triple_conseq)

lemma write_holds:
  "holds req e (Some d) f \<Longrightarrow> write_all (fr_path req) bs f = (r, f') \<Longrightarrow>
     (case r of Inr x \<Rightarrow> holds req e (Some (d @ bs)) f' | Inl _ \<Rightarrow> False)"
  unfolding holds_def using calm_write_all [of f "fr_path req" bs r f' "fr_etag_path req"] by auto

text \<open>The body loop appends what arrives, in order.\<close>

lemma body_loop_triple:
  "triple (has req e (Some d)) (body_loop req env existing len k got ws)
     (\<lambda>_ s. \<exists>d'. prefix d' (d @ arrived ws) \<and> has req e (Some d') s)
     (\<lambda>_ s. \<exists>d'. prefix d' (d @ arrived ws) \<and> has req e (Some d') s)"
proof (induction req env existing len k got ws arbitrary: d rule: body_loop.induct)
  case (6 req env existing len k got bs ws)
  let ?R = "\<lambda>_ s. \<exists>d'. prefix d' (d @ arrived (Arrived (Some bs) # ws)) \<and> has req e (Some d') s"
  have here: "has req e (Some (d @ bs)) s \<Longrightarrow> ?R x s" for s :: fetch_state and x
    by (rule exI [of _ "d @ bs"]) simp
  show ?case
  proof (cases "len - got < length bs")
    case True
    have "has req e (Some d) s \<Longrightarrow> ?R x s" for s :: fetch_state and x
      by (rule exI [of _ d]) simp
    with True show ?thesis by (auto intro!: triple_lift)
  next
    case False
    have w: "triple (has req e (Some d)) (fs_io (write_all (fr_path req) bs)) (\<lambda>_. has req e (Some (d @ bs))) ?R"
      by (rule triple_conseq [OF fs_io_triple [where P = "holds req e (Some d)"
            and Q = "\<lambda>_. holds req e (Some (d @ bs))" and E = "\<lambda>_. False"]])
         (use write_holds in blast, simp_all)
    have ph: "triple (has req e (Some (d @ bs))) (set_phase env k ReceivingPhase) (\<lambda>_. has req e (Some (d @ bs))) ?R"
      by (rule keeps_triple [OF keeps_events(1)]) (assumption | erule here)+
    have em: "triple (has req e (Some (d @ bs))) (emit ev) (\<lambda>_. has req e (Some (d @ bs))) ?R" for ev
      by (rule keeps_triple [OF keeps_emit]) (assumption | erule here)+
    have ih: "triple (has req e (Some (d @ bs))) (body_loop req env existing len (Suc k) (got + length bs) ws) ?R ?R"
      using "6.IH" [OF False, of "d @ bs"] by simp
    show ?thesis
      unfolding body_loop.simps if_not_P [OF False]
      by (rule triple_bind [OF w], rule triple_bind [OF ph], rule triple_bind [OF em], rule triple_bind [OF em], rule ih)
  qed
qed (simp_all, (rule triple_lift; auto)+)

lemma file_holds:
  assumes "holds req e c f"
  shows "open_truncate (fr_path req) f = (r, f') \<Longrightarrow> holds req e (if is_ok r then Some [] else c) f'"
    and "set_mode p m f = (r', f') \<Longrightarrow> holds req e c f'"
    and "c = Some d \<Longrightarrow> open_create (fr_path req) m f = (r, f') \<Longrightarrow> holds req e c f'"
    and "remove_file (fr_path req) f = (r, f') \<Longrightarrow> holds req e None f'"
    and "remove_file (fr_etag_path req) f = (r, f') \<Longrightarrow> holds req None c f'"
    and "sync_all p f = (r, f') \<Longrightarrow> holds req e c f'"
proof -
  have f: "faults f = []" "content_at (fr_etag_path req) f = e" "content_at (fr_path req) f = c"
    using assms by (simp_all add: holds_def)
  show "holds req e (if is_ok r then Some [] else c) f'" if "open_truncate (fr_path req) f = (r, f')"
    using calm_open_truncate [OF f(1) that, of "fr_etag_path req"] f by (simp add: holds_def)
  show "holds req e c f'" if "set_mode p m f = (r', f')"
    using calm_set_mode [OF f(1) that] f by (simp add: holds_def)
  show "holds req e c f'" if "c = Some d" "open_create (fr_path req) m f = (r, f')"
    using calm_open_create [OF f(1) that(2), of "fr_etag_path req"] f that(1) by (simp add: holds_def split: if_splits)
  show "holds req e None f'" if "remove_file (fr_path req) f = (r, f')"
    using calm_remove_file [OF f(1) that, of "fr_etag_path req"] f by (simp add: holds_def)
  show "holds req None c f'" if "remove_file (fr_etag_path req) f = (r, f')"
    using calm_remove_file [OF f(1) that, of "fr_path req"] f by (simp add: holds_def)
  show "holds req e c f'" if "sync_all p f = (r, f')"
    using calm_sync_all [OF f(1) that] assms by simp
qed

lemma etag_holds:
  assumes "holds req e c f"
  shows "open_truncate (fr_etag_path req) f = (r, f') \<Longrightarrow> holds req (if is_ok r then Some [] else e) c f'"
    and "e = Some d \<Longrightarrow> write_all (fr_etag_path req) bs f = (r, f') \<Longrightarrow> r = Inr () \<and> holds req (Some (d @ bs)) c f'"
proof -
  have f: "faults f = []" "content_at (fr_etag_path req) f = e" "content_at (fr_path req) f = c"
    using assms by (simp_all add: holds_def)
  show "holds req (if is_ok r then Some [] else e) c f'" if "open_truncate (fr_etag_path req) f = (r, f')"
    using calm_open_truncate [OF f(1) that, of "fr_path req"] f by (simp add: holds_def)
  show "r = Inr () \<and> holds req (Some (d @ bs)) c f'" if "e = Some d" "write_all (fr_etag_path req) bs f = (r, f')"
    using calm_write_all [OF f(1) that(2), of "fr_path req"] f that(1) by (simp add: holds_def)
qed

lemma store_etag_triple:
  assumes "response_tag r = Some tag"
  shows "triple (has req e c) (store_etag req r) (\<lambda>_. has req (Some (bytes tag)) c) (\<lambda>_ s. \<exists>e'. has req e' c s)"
proof -
  let ?E = "\<lambda>_ s. \<exists>e'. has req e' c s"
  let ?e = "fr_etag_path req"
  have 1: "triple (has req e c) (fs_io (open_truncate ?e)) (\<lambda>_. has req (Some []) c) ?E"
  proof (rule fs_io_triple)
    fix f r f' assume "holds req e c f" "open_truncate ?e f = (r, f')"
    then have "holds req (if is_ok r then Some [] else e) c f'" by (rule etag_holds(1))
    then show "case r of Inr x \<Rightarrow> holds req (Some []) c f' | Inl _ \<Rightarrow> \<exists>e'. holds req e' c f'"
      by (cases r) (simp_all add: is_ok_def, rule exI)
  qed
  have 2: "triple (has req (Some []) c) (fs_io (write_all ?e (bytes tag))) (\<lambda>_. has req (Some (bytes tag)) c) ?E"
  proof (rule fs_io_triple)
    fix f r f' assume "holds req (Some []) c f" "write_all ?e (bytes tag) f = (r, f')"
    from etag_holds(2) [OF this(1) refl this(2)]
    show "case r of Inr x \<Rightarrow> holds req (Some (bytes tag)) c f' | Inl _ \<Rightarrow> \<exists>e'. holds req e' c f'" by simp
  qed
  have 3: "triple (has req (Some (bytes tag)) c) (fs_io (restrict_private ?e)) (\<lambda>_. has req (Some (bytes tag)) c) ?E"
    unfolding restrict_private_def
  proof (rule fs_io_triple)
    fix f r f' assume "holds req (Some (bytes tag)) c f" "set_mode ?e 384 f = (r, f')"
    then have "holds req (Some (bytes tag)) c f'" by (rule file_holds(2))
    then show "case r of Inr x \<Rightarrow> holds req (Some (bytes tag)) c f' | Inl _ \<Rightarrow> \<exists>e'. holds req e' c f'"
      by (cases r) (simp_all, rule exI)
  qed
  have no: "triple (has req e c) (lift_st (Err x)) (\<lambda>_. has req (Some (bytes tag)) c) ?E" for x
    by (rule triple_lift) (simp_all, rule exI)
  show ?thesis
    using no triple_bind [OF 1 triple_bind [OF 2 3]] assms
    unfolding store_etag_def response_tag_def by (simp only: ok_or_def option.case bind_lift) (rule triple_if)
qed

text \<open>What a finished body leaves: a prefix of the entity under its tag, and the record, when it is whole.\<close>

definition fetched_ok :: "(rstr \<Rightarrow> u8 list) \<Rightarrow> fetch_request \<Rightarrow> u8 list option \<Rightarrow> fetch_state \<Rightarrow> bool" where
  "fetched_ok entity req x s \<longleftrightarrow> consistent entity req (ft_fs s)
     \<and> (case x of None \<Rightarrow> True | Some d \<Rightarrow> \<exists>tag. prefix d (entity tag))"

lemma header_to_str_scalar: "header_to_str v = Some s \<Longrightarrow> list_all scalar s"
  by (fastforce simp: header_to_str_def list_all_iff scalar_def word_less_nat_alt split: if_splits)

lemma from_utf8_tag: "response_tag r = Some tag \<Longrightarrow> from_utf8 (bytes tag) = Some tag"
  by (intro from_utf8_bytes) (auto simp: response_tag_def bind_eq_Some_conv dest: header_to_str_scalar)

lemma consistent_prefix:
  assumes "prefix d' (d @ arrived ws)" "prefix (d @ arrived ws) (entity tag)" "Option.bind e from_utf8 = Some tag" "holds req e (Some d') f"
  shows "consistent entity req f"
  using assms by (intro consistentI [of req e "Some d'"]) (auto simp: agrees_def intro: prefix_order.trans)

lemma fs_io_sync: "fs_io (sync_all p) s = (r, s') \<Longrightarrow> has req e c s \<Longrightarrow> has req e c s'"
  by (cases "sync_all p (ft_fs s)") (auto simp: fs_io_def on_fs_def dest: file_holds(6))

lemma receive_body_triple:
  assumes c: "c = Some d \<or> \<not> am \<and> c = None \<and> d = []" and am: "am \<or> d = []"
    and ent: "prefix (d @ arrived ws) (entity tag)" and e: "Option.bind e from_utf8 = Some tag"
  shows "triple (has req e c) (receive_body req env ws attempt am existing len)
    (fetched_ok entity req) (\<lambda>_ s. consistent entity req (ft_fs s))"
proof -
  let ?E = "\<lambda>_ s. consistent entity req (ft_fs s)"
  let ?B = "\<lambda>s. \<exists>d'. prefix d' (d @ arrived ws) \<and> has req e (Some d') s"
  have cp: "consistent entity req f" if "prefix d' (d @ arrived ws)" "holds req e (Some d') f" for d' f
    by (rule consistent_prefix [where entity = entity and tag = tag, OF that(1) ent e that(2)])
  have B: "consistent entity req (ft_fs s)" if "?B s" for s :: fetch_state
    using that cp by blast
  have start: "consistent entity req f" if "holds req e c f" for f
    using c that cp [of d f] by (auto intro: consistentI agrees_trivial)
  have 1: "triple (has req e c) (fs_io (if am then open_create (fr_path req) 420 else open_truncate (fr_path req)))
      (\<lambda>_. has req e (Some d)) ?E"
  proof (rule fs_io_triple)
    fix f r f' assume h: "holds req e c f"
      and run: "(if am then open_create (fr_path req) 420 else open_truncate (fr_path req)) f = (r, f')"
    show "case r of Inr x \<Rightarrow> holds req e (Some d) f' | Inl _ \<Rightarrow> consistent entity req f'"
    proof (cases am)
      case True
      then have "c = Some d" using c by simp
      with True run h have "holds req e c f'" by (auto dest: file_holds(3))
      then show ?thesis using start \<open>c = Some d\<close> by (cases r) simp_all
    next
      case False
      with run have "open_truncate (fr_path req) f = (r, f')" by simp
      from file_holds(1) [OF h this] show ?thesis
        using start am False by (cases r) (simp_all add: is_ok_def)
    qed
  qed
  have 2: "triple (has req e (Some d)) (fs_io (restrict_private (fr_path req))) (\<lambda>_. has req e (Some d)) ?E"
    unfolding restrict_private_def
  proof (rule fs_io_triple)
    fix f r f' assume "holds req e (Some d) f" "set_mode (fr_path req) 384 f = (r, f')"
    then have "holds req e (Some d) f'" by (rule file_holds(2))
    then show "case r of Inr x \<Rightarrow> holds req e (Some d) f' | Inl _ \<Rightarrow> consistent entity req f'"
      using cp [of d] by (cases r) auto
  qed
  have 3: "triple (has req e (Some d)) (body_loop req env existing len 0 0 ws) (\<lambda>_. ?B) ?E"
    by (rule triple_conseq [OF body_loop_triple]) (assumption | erule B)+
  have 4: "triple ?B (fs_io (sync_all (fr_path req))) (\<lambda>_. ?B) ?E"
    unfolding triple_def using fs_io_sync B by (fastforce split: prod.splits sum.splits)
  have 5: "triple ?B (wait_again env k a p v) (fetched_ok entity req) ?E" for k a p v
  proof -
    show ?thesis
      by (rule triple_conseq [OF wait_again_triple [where P = "\<lambda>f. \<exists>d'. prefix d' (d @ arrived ws) \<and> holds req e (Some d') f"]])
         (use B in \<open>auto simp: fetched_ok_def\<close>)
  qed
  have 6: "triple ?B (bind_st (fs_io (read_file (fr_path req))) (\<lambda>content.
       if length content \<noteq> unat (fr_expected req) then lift_st (Err (DlMsg ''retained ciphertext is truncated''))
       else let now = at_clock env (length ws) in
         bind_st (emit (DlObserve (fr_expected req) (max (fst now) 1) (snd now))) (\<lambda>_. lift_st (Ok (Some content)))))
      (fetched_ok entity req) ?E" (is "triple _ (bind_st _ ?k) _ _")
  proof (rule triple_bind)
    show "triple ?B (fs_io (read_file (fr_path req))) (\<lambda>x s. ?B s \<and> prefix x (d @ arrived ws)) ?E"
    proof (rule fs_io_triple [where P = "\<lambda>f. \<exists>d'. prefix d' (d @ arrived ws) \<and> holds req e (Some d') f"])
      fix f r f' assume "\<exists>d'. prefix d' (d @ arrived ws) \<and> holds req e (Some d') f"
      then obtain d' where d': "prefix d' (d @ arrived ws)" "holds req e (Some d') f" by blast
      assume "read_file (fr_path req) f = (r, f')"
      then have "f' = f \<and> r = Inr d'"
        using calm_read_file [of f "fr_path req" r f'] d'(2) by (auto simp: holds_def split: sum.splits)
      then show "case r of Inr x \<Rightarrow> (\<exists>d'. prefix d' (d @ arrived ws) \<and> holds req e (Some d') f') \<and> prefix x (d @ arrived ws)
          | Inl _ \<Rightarrow> consistent entity req f'"
        using d' by auto
    qed
    fix content
    show "triple (\<lambda>s. ?B s \<and> prefix content (d @ arrived ws)) (?k content) (fetched_ok entity req) ?E"
      unfolding triple_def bind_st_def emit_def lift_st_def Let_def
      using B ent by (auto simp: fetched_ok_def intro: prefix_order.trans)
  qed
  have 7: "triple ?B (if interrupted \<or> got \<noteq> len then wait_again env (length ws) attempt Retrying None
     else bind_st (fs_io (read_file (fr_path req))) (\<lambda>content.
       if length content \<noteq> unat (fr_expected req) then lift_st (Err (DlMsg ''retained ciphertext is truncated''))
       else let now = at_clock env (length ws) in
         bind_st (emit (DlObserve (fr_expected req) (max (fst now) 1) (snd now))) (\<lambda>_. lift_st (Ok (Some content)))))
      (fetched_ok entity req) ?E" for interrupted got
    by (rule triple_if) (rule 5, rule 6)
  show ?thesis
    unfolding receive_body_def
    by (rule triple_bind [OF 1], rule triple_bind [OF 2], rule triple_bind [OF 3], simp only: split_beta,
        rule triple_bind [OF 4], rule 7)
qed

lemma triple_err: "(\<And>s. P s \<Longrightarrow> E x s) \<Longrightarrow> triple P (lift_st (Err x)) Q E"
  by (rule triple_lift) auto

lemma triple_pass: "(\<And>x s. r = Inr x \<Longrightarrow> P s \<Longrightarrow> Q x s) \<Longrightarrow> (\<And>e s. P s \<Longrightarrow> E e s) \<Longrightarrow> triple P (lift_st r) Q E"
  by (rule triple_lift) auto

lemma finish_append:
  assumes "response_tag r = Some tag" "prefix (d @ arrived ws) (entity tag)" "Option.bind e from_utf8 = Some tag"
  shows "triple (has req e (Some d)) (finish_response req env ws attempt True r existing)
     (fetched_ok entity req) (\<lambda>_ s. consistent entity req (ft_fs s))"
proof -
  have start: "has req e (Some d) s \<Longrightarrow> consistent entity req (ft_fs s)" for s :: fetch_state
    using consistent_prefix [where entity = entity and d' = d and d = d and ws = ws and tag = tag and req = req and e = e] assms by simp
  have body: "triple (has req e (Some d)) (receive_body req env ws attempt True existing len)
      (fetched_ok entity req) (\<lambda>_ s. consistent entity req (ft_fs s))" for len
    using receive_body_triple [where am = True and c = "Some d" and d = d and entity = entity and tag = tag and e = e] assms by simp
  show ?thesis
    unfolding finish_response_def Let_def if_True bind_lift
    by (rule triple_bind [where R = "\<lambda>_. has req e (Some d)"], rule triple_pass, assumption, erule start)
       (rule triple_bind [where R = "\<lambda>_. has req e (Some d)"], rule triple_pass, assumption, erule start, rule body)
qed

lemma finish_full:
  assumes c: "c = None \<or> c = Some []"
    and ent: "\<And>tag. response_tag r = Some tag \<Longrightarrow> prefix (arrived ws) (entity tag)"
  shows "triple (has req e c) (finish_response req env ws attempt False r existing)
     (fetched_ok entity req) (\<lambda>_ s. consistent entity req (ft_fs s))"
proof -
  let ?E = "\<lambda>_ s. consistent entity req (ft_fs s)"
  have start: "has req e' c s \<Longrightarrow> consistent entity req (ft_fs s)" for s :: fetch_state and e'
    using c by (auto intro: consistentI agrees_trivial)
  have tail: "triple (has req e c) (bind_st (store_etag req r) (\<lambda>_. receive_body req env ws attempt False existing len))
      (fetched_ok entity req) ?E" for len
  proof (cases "response_tag r")
    case None
    then have "store_etag req r = lift_st (Err (DlMsg ''chunk response lacks strong ETag''))"
      by (simp add: store_etag_def response_tag_def ok_or_def)
    then show ?thesis using start by (simp add: triple_err)
  next
    case (Some tag)
    have body: "triple (has req (Some (bytes tag)) c) (receive_body req env ws attempt False existing len) (fetched_ok entity req) ?E"
      using receive_body_triple [where am = False and c = c and d = "[]" and entity = entity and tag = tag
          and e = "Some (bytes tag)"] c ent [OF Some] from_utf8_tag [OF Some] by auto
    have "triple (has req e c) (store_etag req r) (\<lambda>_. has req (Some (bytes tag)) c) ?E"
      by (rule triple_conseq [OF store_etag_triple [OF Some]]) (assumption | elim exE, erule start)+
    from triple_bind [OF this body] show ?thesis by simp
  qed
  show ?thesis
    unfolding finish_response_def Let_def if_False
    by (rule triple_bind [where R = "\<lambda>_. has req e c"], rule triple_pass, assumption, erule start)
       (rule triple_bind [where R = "\<lambda>_. has req e c"], rule triple_pass, assumption, erule start, rule tail)
qed

lemma accept_triple:
  assumes cx: "existing = (case c of None \<Rightarrow> 0 | Some d \<Rightarrow> length d)" and agr: "agrees entity e c"
    and hon: "\<And>tag. response_tag r = Some tag \<Longrightarrow>
        if rs_status r = 206 then (if 0 < existing \<and> fr_ranges req then prefix (arrived ws) (drop existing (entity tag)) else True)
        else prefix (arrived ws) (entity tag)"
    and et: "0 < existing \<Longrightarrow> fr_ranges req \<Longrightarrow> etag = Option.bind e from_utf8 \<and> etag \<noteq> None"
  shows "triple (has req e c) (accept_response req env ws attempt existing etag r)
    (fetched_ok entity req) (\<lambda>_ s. consistent entity req (ft_fs s))"
proof -
  let ?E = "\<lambda>_ s. consistent entity req (ft_fs s)"
  have start: "has req e c s \<Longrightarrow> consistent entity req (ft_fs s)" for s :: fetch_state
    using agr by (blast intro: consistentI)
  consider (full) "rs_status r \<noteq> 206" | (cont) "rs_status r = 206" "0 < existing" "fr_ranges req"
    | (bad) "rs_status r = 206" "\<not> (0 < existing \<and> fr_ranges req)" by blast
  then show ?thesis
  proof cases
    case full
    then have ent: "response_tag r = Some tag \<Longrightarrow> prefix (arrived ws) (entity tag)" for tag using hon by simp
    have "triple (has req e c) (keep_prefix req False existing etag r)
        (\<lambda>_ s. has req e (if 0 < existing then None else c) s) ?E"
    proof (cases "0 < existing")
      case True
      have 1: "triple (has req e c) (on_fs (ignore (remove_file (fr_path req)))) (\<lambda>_. has req e None) ?E"
        by (rule ignore_triple) (rule file_holds(4))
      have 2: "triple (has req e None) (emit ev) (\<lambda>_. has req e None) ?E" for ev
        by (rule keeps_triple [OF keeps_emit [where P = "holds req e None"]]) (auto intro: consistentI agrees_trivial)
      show ?thesis
        unfolding keep_prefix_def if_False if_P [OF True]
        by (rule triple_bind [OF 1], rule triple_bind [OF 2], rule triple_lift) auto
    qed (auto simp: keep_prefix_def intro!: triple_lift)
    moreover have "(if 0 < existing then None else c) = None \<or> (if 0 < existing then None else c) = Some []"
      using cx by (auto split: option.splits)
    ultimately show ?thesis
      unfolding accept_response_def Let_def using full finish_full [OF _ ent] by (simp add: triple_bind)
  next
    case cont
    then obtain d where d: "c = Some d" "length d = existing" using cx by (auto split: option.splits)
    obtain tag where tag: "etag = Some tag" "Option.bind e from_utf8 = Some tag" using et cont by auto
    have keep: "triple (has req e c) (keep_prefix req True existing etag r) (\<lambda>_ s. response_tag r = Some tag \<and> has req e c s) ?E"
      unfolding keep_prefix_def if_True
      by (rule triple_bind [where R = "\<lambda>_. has req e c"], rule triple_pass, assumption, erule start)
         (rule triple_if, rule triple_err, erule start, rule triple_lift, use tag in \<open>auto simp: response_tag_def\<close>)
    have "triple (\<lambda>s. response_tag r = Some tag \<and> has req e c s) (finish_response req env ws attempt True r existing') (fetched_ok entity req) ?E" for existing'
    proof (cases "response_tag r = Some tag")
      case True
      have p: "prefix d (entity tag)" using agr tag d by (simp add: agrees_def)
      moreover have "prefix (arrived ws) (drop existing (entity tag))" using hon [OF True] cont by simp
      ultimately have "prefix (d @ arrived ws) (entity tag)" using d(2) by (auto simp: prefix_def)
      then show ?thesis using finish_append [OF True _ tag(2)] True d(1) by simp
    qed (simp add: triple_def)
    with keep show ?thesis unfolding accept_response_def Let_def using cont by (simp add: triple_bind)
  next
    case bad
    then show ?thesis unfolding accept_response_def Let_def using start by (auto intro!: triple_err)
  qed
qed

lemma calm_len_or_0:
  assumes "faults f = []"
  shows "len_or_0 p f = (Inr (case content_at p f of None \<Rightarrow> 0 | Some d \<Rightarrow> length d), f)"
  using assms by (auto simp: len_or_0_def symlink_metadata_def syscall_fault_free ok_or_def content_at_def
      split: option.splits node.splits)

lemma calm_read_string:
  assumes "has req e c s"
  shows "read_string (fr_etag_path req) s = (Inr (Option.bind e from_utf8), s)"
  using assms by (auto simp: read_string_def on_fs_def read_file_def syscall_fault_free holds_def content_at_def
      split: option.splits node.splits)

definition sized :: "fetch_request \<Rightarrow> (rstr \<Rightarrow> u8 list) \<Rightarrow> nat \<Rightarrow> fetch_state \<Rightarrow> bool" where
  "sized req entity n s \<longleftrightarrow> (\<exists>e c. has req e c s \<and> agrees entity e c \<and> n = (case c of None \<Rightarrow> 0 | Some d \<Rightarrow> length d))"

lemma retained_prefix_sized:
  "triple (\<lambda>s. consistent entity req (ft_fs s)) (retained_prefix req attempt) (sized req entity) E"
  unfolding triple_def
proof (intro allI impI)
  fix s :: fetch_state assume "consistent entity req (ft_fs s)"
  then obtain e c where h: "has req e c s" "agrees entity e c" by (auto simp: consistent_def)
  let ?n = "case c of None \<Rightarrow> 0 | Some d \<Rightarrow> length d"
  have len: "on_fs (len_or_0 (fr_path req)) s = (Inr ?n, s)"
    using h(1) by (simp add: holds_def on_fs_def calm_len_or_0)
  obtain r1 f1 where r1: "remove_file (fr_path req) (ft_fs s) = (r1, f1)" by force
  obtain r2 f2 where r2: "remove_file (fr_etag_path req) f1 = (r2, f2)" by force
  have "holds req None None f2" using file_holds(5) [OF file_holds(4) [OF h(1) r1] r2] .
  then have gone: "sized req entity 0 (s\<lparr>ft_fs := f2\<rparr>)"
    unfolding sized_def by (intro exI [of _ None]) (simp add: agrees_trivial)
  have kept: "sized req entity ?n s" unfolding sized_def using h by blast
  have "retained_prefix req attempt s =
      (if fr_fresh req \<and> attempt = 0 \<and> 0 < ?n then (Inr 0, s\<lparr>ft_fs := f2\<rparr>) else (Inr ?n, s))"
    unfolding retained_prefix_def bind_st_def [of "on_fs (len_or_0 _)"] len
    by (simp add: bind_st_def on_fs_def ignore_def r1 r2 lift_st_def)
  then show "case retained_prefix req attempt s of (Inr x, s') \<Rightarrow> sized req entity x s' | (Inl e, s') \<Rightarrow> E e s'"
    using gone kept by simp
qed

lemma request_triple:
  assumes "honest entity env" "has req e c s" "agrees entity e c" "n = (case c of None \<Rightarrow> 0 | Some d \<Rightarrow> length d)"
    and "\<not> (0 < n \<and> fr_ranges req \<and> Option.bind e from_utf8 = None)"
  shows "case request_chunk_bytes req env attempt n (Option.bind e from_utf8) s of
      (Inr x, s') \<Rightarrow> fetched_ok entity req x s' | (Inl _, s') \<Rightarrow> consistent entity req (ft_fs s')"
proof -
  let ?E = "\<lambda>_ s. consistent entity req (ft_fs s)"
  let ?etag = "Option.bind e from_utf8"
  let ?h = "continuation req n ?etag"
  have start: "has req e c s \<Longrightarrow> consistent entity req (ft_fs s)" for s :: fetch_state
    using assms(3) by (blast intro: consistentI)
  have wait: "triple (has req e c) (wait_again env k attempt p v) (fetched_ok entity req) ?E" for k p v
    by (rule triple_conseq [OF wait_again_triple [where P = "holds req e c"]]) (auto simp: fetched_ok_def start)
  have acc: "triple (has req e c) (accept_response req env (at_body env ?h) attempt n ?etag r) (fetched_ok entity req) ?E"
    if "at_sent env ?h = Arrived r" for r
  proof (rule accept_triple [OF assms(4,3)])
    fix tag assume "response_tag r = Some tag"
    with assms(1) that have "if rs_status r = 206
        then \<forall>a b t. ?h = Some (lit ''bytes='' @ decimal a @ lit ''-'' @ decimal b, t) \<longrightarrow>
             prefix (arrived (at_body env ?h)) (drop a (entity tag))
        else prefix (arrived (at_body env ?h)) (entity tag)"
      unfolding honest_def by blast
    then show "if rs_status r = 206 then (if 0 < n \<and> fr_ranges req
          then prefix (arrived (at_body env ?h)) (drop n (entity tag)) else True)
        else prefix (arrived (at_body env ?h)) (entity tag)"
      using assms(5) unfolding continuation_def by (cases ?etag) (auto simp only: if_True if_False option.map split: if_splits)
  next
    show "?etag = ?etag \<and> ?etag \<noteq> None" if "0 < n" "fr_ranges req" using that assms(5) by simp
  qed
  have "triple (has req e c) (request_chunk_bytes req env attempt n ?etag) (fetched_ok entity req) ?E"
    unfolding request_chunk_bytes_def Let_def
  proof (cases "at_sent env ?h")
    case (Arrived r)
    show "triple (has req e c) (case at_sent env ?h of Interrupted \<Rightarrow> lift_st (Err DL_CANCELLED)
      | Overdue \<Rightarrow> wait_again env 0 attempt Reconnecting None | IoFailed \<Rightarrow> wait_again env 0 attempt Reconnecting None
      | Arrived r \<Rightarrow> if rs_status r = 202 \<or> retryable_status (rs_status r) False
          then wait_again env 0 attempt Retrying (rs_header r ''retry-after'')
          else if \<not> is_success (rs_status r) then lift_st (Err (DlHttp (HttpStatus (rs_status r))))
          else accept_response req env (at_body env ?h) attempt n ?etag r) (fetched_ok entity req) ?E"
      unfolding Arrived waited.case by (intro triple_if wait triple_err start acc Arrived)
  qed (simp_all add: wait triple_err start)
  then show ?thesis using assms(2) by (force simp: triple_def)
qed

lemma attempt_triple:
  assumes "honest entity env"
  shows "triple (\<lambda>s. consistent entity req (ft_fs s)) (fetch_attempt req env attempt)
    (fetched_ok entity req) (\<lambda>_ s. consistent entity req (ft_fs s))"
  unfolding fetch_attempt_def
proof (rule triple_bind [OF retained_prefix_sized])
  fix n
  let ?E = "\<lambda>_ s. consistent entity req (ft_fs s)"
  show "triple (sized req entity n)
     (if unat (fr_expected req) < n then bind_st (on_fs (ignore (remove_file (fr_path req)))) (\<lambda>_. again)
      else bind_st (read_string (fr_etag_path req)) (\<lambda>etag.
        if n = unat (fr_expected req) \<and> strong_tag etag
        then bind_st (fs_io (read_file (fr_path req))) (\<lambda>content. lift_st (Ok (Some content)))
        else if 0 < n \<and> fr_ranges req \<and> etag = None
        then bind_st (on_fs (ignore (remove_file (fr_path req)))) (\<lambda>_. again)
        else request_chunk_bytes req env attempt n etag)) (fetched_ok entity req) ?E"
    unfolding triple_def
  proof (intro allI impI)
    fix s assume "sized req entity n s"
    then obtain e c where h: "has req e c s" "agrees entity e c" "n = (case c of None \<Rightarrow> 0 | Some d \<Rightarrow> length d)"
      by (auto simp: sized_def)
    obtain r1 f1 where r1: "remove_file (fr_path req) (ft_fs s) = (r1, f1)" by force
    have gone: "case bind_st (on_fs (ignore (remove_file (fr_path req)))) (\<lambda>_. again) s of
        (Inr x, s') \<Rightarrow> fetched_ok entity req x s' | (Inl _, s') \<Rightarrow> consistent entity req (ft_fs s')"
      using file_holds(4) [OF h(1) r1]
      by (auto simp: bind_st_def on_fs_def ignore_def r1 again_def lift_st_def fetched_ok_def intro: consistentI agrees_trivial)
    obtain rr f2 where rd: "read_file (fr_path req) (ft_fs s) = (rr, f2)" by force
    have "f2 = ft_fs s \<and> (case rr of Inr d \<Rightarrow> c = Some d | Inl _ \<Rightarrow> c = None)"
      using calm_read_file [OF _ rd] h(1) by (auto simp: holds_def split: sum.splits)
    moreover have "consistent entity req (ft_fs s)" using h by (blast intro: consistentI)
    ultimately have "case bind_st (fs_io (read_file (fr_path req))) (\<lambda>content. lift_st (Ok (Some content))) s of
        (Inr x, s') \<Rightarrow> fetched_ok entity req x s' | (Inl _, s') \<Rightarrow> consistent entity req (ft_fs s')"
      if "Option.bind e from_utf8 \<noteq> None"
      using that h(2) by (auto simp: bind_st_def fs_io_def on_fs_def rd lift_st_def fetched_ok_def agrees_def map_err_def split: sum.splits)
    then show "case (if unat (fr_expected req) < n then bind_st (on_fs (ignore (remove_file (fr_path req)))) (\<lambda>_. again)
      else bind_st (read_string (fr_etag_path req)) (\<lambda>etag.
        if n = unat (fr_expected req) \<and> strong_tag etag
        then bind_st (fs_io (read_file (fr_path req))) (\<lambda>content. lift_st (Ok (Some content)))
        else if 0 < n \<and> fr_ranges req \<and> etag = None
        then bind_st (on_fs (ignore (remove_file (fr_path req)))) (\<lambda>_. again)
        else request_chunk_bytes req env attempt n etag)) s of
        (Inr x, s') \<Rightarrow> fetched_ok entity req x s' | (Inl _, s') \<Rightarrow> consistent entity req (ft_fs s')"
      using gone request_triple [OF assms h, of attempt] calm_read_string [OF h(1)]
      by (auto simp: bind_st_def [of "read_string _"] strong_tag_def split: option.splits)
  qed
qed

text \<open>C16. A fetched record always has its full length and changes no file but its own two, whatever
  call fails and wherever it is interrupted.\<close>

theorem fetched_chunk_is_whole:
  "let (r, s') = fetch_chunk req envs s in
     (case r of Inr c \<Rightarrow> fr_expected req = 0 \<or> length c = unat (fr_expected req) | Inl _ \<Rightarrow> True)
     \<and> (\<forall>q. q \<in> {fr_path req, fr_etag_path req} \<or> nodes (ft_fs s') q = nodes (ft_fs s) q)"
proof -
  obtain r s' where run: "fetch_chunk req envs s = (r, s')" by force
  have "nodes (ft_fs s') q = nodes (ft_fs s) q" if "q \<noteq> fr_path req" "q \<noteq> fr_etag_path req" for q
    using keepsD_run [OF keeps_fetch(3) [OF that, where n = "nodes (ft_fs s) q"] run] by simp
  moreover have "fr_expected req = 0 \<or> length c = unat (fr_expected req)" if "r = Inr c" for c
    using fetch_chunk_length [of req envs s c s'] run that by (auto simp: word_gt_0)
  ultimately show ?thesis unfolding run Let_def prod.case by (cases r) auto
qed


section \<open>Only authenticated plaintext reaches the scratch file\<close>

lemma overwrite_slice:
  "take (length bs) (drop off (overwrite off bs c)) = bs"
  "k < off \<Longrightarrow> k < length c \<Longrightarrow> overwrite off bs c ! k = c ! k"
  "off + length bs \<le> k \<Longrightarrow> k < length c \<Longrightarrow> overwrite off bs c ! k = c ! k"
  "length (overwrite off bs c) = max (length c) (off + length bs)"
  by (auto simp: overwrite_def nth_append min_def)

lemma write_at_Ok:
  assumes "write_at p off bs f = (Inr (), f')" "nodes f p = Some (Regular m c)"
  shows "nodes f' p = Some (Regular m (if bs = [] then c else overwrite off bs c))"
proof -
  obtain f1 where f1: "next_fault f = (Good, f1)"
    using assms(1) by (auto simp: write_at_def split: prod.splits fault.splits)
  then have "nodes f1 p = Some (Regular m c)"
    using next_fault_view [of "\<lambda>s. nodes s p" f] assms(2) by simp
  then show ?thesis using assms(1) f1 by (auto simp: write_at_def put_view)
qed

lemma open_create_Ok:
  assumes "open_create p mode f = (Inr x, f')"
  shows "\<exists>m. nodes f' p = Some (Regular m (case content_at p f of None \<Rightarrow> [] | Some c \<Rightarrow> c))"
  using assms unfolding open_create_def
  by (auto dest!: syscall_Ok simp: put_view content_at_def split: option.splits if_splits elim!: is_file.elims)

lemma set_mode_Ok:
  assumes "set_mode p mode f = (Inr x, f')" "nodes f p = Some (Regular m c)"
  shows "\<exists>m. nodes f' p = Some (Regular m c)"
  using assms unfolding set_mode_def by (auto dest!: syscall_Ok simp: put_view)

lemma write_plain_Ok:
  assumes "write_plain base item off content s = (Inr x, s')"
  shows "content_at (plain_path base item) (ft_fs s') =
    Some (let old = (case content_at (plain_path base item) (ft_fs s) of None \<Rightarrow> [] | Some c \<Rightarrow> c)
          in if content = [] then old else overwrite off content old)"
proof -
  let ?p = "plain_path base item"
  let ?old = "case content_at ?p (ft_fs s) of None \<Rightarrow> [] | Some c \<Rightarrow> c"
  obtain f1 f2 f3 f4 where run: "open_create ?p 420 (ft_fs s) = (Inr (), f1)" "set_mode ?p 384 f1 = (Inr (), f2)"
      "write_at ?p off content f2 = (Inr (), f3)" "sync_all ?p f3 = (Inr (), f4)" "ft_fs s' = f4"
    using assms by (auto simp: write_plain_def restrict_private_def Let_def bind_st_Inr fs_io_Ok)
  obtain m1 where "nodes f1 ?p = Some (Regular m1 ?old)" using open_create_Ok [OF run(1)] by blast
  then obtain m2 where "nodes f2 ?p = Some (Regular m2 ?old)" using set_mode_Ok [OF run(2)] by blast
  then have "nodes f3 ?p = Some (Regular m2 (if content = [] then ?old else overwrite off content ?old))"
    by (rule write_at_Ok [OF run(3)])
  moreover have "nodes f4 ?p = nodes f3 ?p"
    using leavesD [OF leaves_read_only(2) [OF faultless_nodes(1) [of ?p]] run(4)] .
  ultimately show ?thesis by (simp add: content_at_def run(5) Let_def)
qed

lemma keeps_drop_temp:
  assumes "q \<noteq> t" "keeps (\<lambda>s. nodes (ft_fs s) q = n) m"
  shows "keeps (\<lambda>s. nodes (ft_fs s) q = n) (drop_temp t m)"
proof (rule keepsI)
  fix s :: fetch_state assume n: "nodes (ft_fs s) q = n"
  obtain r s1 where run: "m s = (r, s1)" by force
  have 1: "nodes (ft_fs s1) q = n" using assms(2) run n by (rule keepsD_run)
  have i: "keeps (\<lambda>s. nodes (ft_fs s) q = n) (on_fs (ignore (remove_file t)) :: unit ft_op)"
    using assms(1) by (intro keeps_on_fs [where v = "\<lambda>s. nodes s q"] leaves_intro)
  show "nodes (ft_fs (snd (drop_temp t m s))) q = n"
    unfolding drop_temp_def run using 1 keepsD [OF i 1] by (cases r) auto
qed

lemma retain_other:
  assumes "q \<noteq> target" "q \<noteq> base @ [lit ''.tmp'' @ fresh]"
  shows "keeps (\<lambda>s. nodes (ft_fs s) q = n) (retain_record base fresh target c)"
  using assms unfolding retain_record_def Let_def
  by (intro keeps_intro keeps_drop_temp keeps_fs_io [where v = "\<lambda>s. nodes s q"] leaves_intro faultless_nodes)

lemma scratch_names: "plain_path b i \<noteq> cipher_path b i' k" "plain_path b i \<noteq> b @ [lit ''.tmp'' @ fresh]"
  by (simp_all add: plain_path_def cipher_path_def)

text \<open>C18. Plaintext reaches the scratch file only after its record has authenticated under the key of
  the item, with the transfer, the item and the index bound to it, and has the length the layout
  says. It is then written exactly at the position of the chunk, every other byte of the file keeps
  its value, and nothing at all changes when the record does not authenticate.\<close>

theorem only_authenticated_plaintext_is_written:
  "let (r, s') = authenticate_and_write cr decode fresh base item_index index chunk_bytes transfer item master c retain s;
       opened = and_then (map_err DlMsg (derive_item_key cr master transfer (si_id item)))
                  (\<lambda>key. open_chunk cr decode transfer item index key c);
       p = plain_path base item_index;
       old = (case content_at p (ft_fs s) of None \<Rightarrow> [] | Some d \<Rightarrow> d)
   in case opened of
        Inl e \<Rightarrow> r = Err e \<and> s' = s
      | Inr content \<Rightarrow>
          if length content \<noteq> unat (plaintext_len (si_size item) chunk_bytes index) then \<not> is_ok r \<and> s' = s
          else if is_ok r
          then r = Ok (plaintext_len (si_size item) chunk_bytes index)
             \<and> content_at p (ft_fs s') = Some (if content = [] then old else overwrite (unat (index * chunk_bytes)) content old)
          else True"
proof -
  let ?a = "authenticate_and_write cr decode fresh base item_index index chunk_bytes transfer item master c retain"
  obtain r s' where run: "?a s = (r, s')" by force
  let ?p = "plain_path base item_index"
  show ?thesis
  proof (cases "map_err DlMsg (derive_item_key cr master transfer (si_id item))")
    case (Inl e)
    then show ?thesis by (simp add: authenticate_and_write_def lift_st_def)
  next
    case key: (Inr key)
    show ?thesis
    proof (cases "open_chunk cr decode transfer item index key c")
      case (Inl e)
      then show ?thesis using key by (simp add: authenticate_and_write_def lift_st_def)
    next
      case content: (Inr content)
      show ?thesis
      proof (cases "length content = unat (plaintext_len (si_size item) chunk_bytes index) \<and> is_ok r")
        case False
        then show ?thesis using key content run
          by (auto simp: authenticate_and_write_def Let_def lift_st_def is_ok_def)
      next
        case True
        then obtain n where "r = Inr n" by (cases r) (simp_all add: is_ok_def)
        with True obtain s1 s2 where 1: "(if retain then retain_record base fresh (cipher_path base item_index index) c else lift_st (Ok ())) s = (Inr (), s1)"
          and 2: "write_plain base item_index (unat (index * chunk_bytes)) content s1 = (Inr (), s2)"
          and r: "r = Inr (plaintext_len (si_size item) chunk_bytes index)" "s' = s2"
          using key content run
          by (auto simp: authenticate_and_write_def Let_def bind_st_Inr split: if_splits)
        have "keeps (\<lambda>s'. nodes (ft_fs s') ?p = nodes (ft_fs s) ?p)
            (if retain then retain_record base fresh (cipher_path base item_index index) c else lift_st (Ok ()))"
          by (intro keeps_if keeps_lift retain_other scratch_names)
        from keepsD_run [OF this 1] have "content_at ?p (ft_fs s1) = content_at ?p (ft_fs s)"
          by (simp add: content_at_def)
        then show ?thesis
          using key content True run write_plain_Ok [OF 2] r by (simp add: Let_def)
      qed
    qed
  qed
qed

section \<open>Examples\<close>

definition example_request :: fetch_request where
  "example_request = \<lparr>fr_directory = [], fr_item = 0, fr_chunk = 0, fr_plain = 1, fr_ranges = True, fr_item_name = [],
     fr_item_size = 1, fr_fresh = False, fr_turbo = False\<rparr>"

definition dir_fs :: "fault list \<Rightarrow> fs" where
  "dir_fs plan = \<lparr>nodes = (\<lambda>p. if p = [] then Some (Dir \<lparr>m_uid = 7, m_mode = 448\<rparr>) else None), locked = {},
     faults = plan, euid = 7\<rparr>"

definition full_response :: "string \<Rightarrow> http_response" where
  "full_response tag = \<lparr>rs_status = 200, rs_header = (\<lambda>n. if n = ''etag'' then Some (byte_lit tag) else None), rs_content_length = None\<rparr>"

definition serve_all :: "string \<Rightarrow> u8 list \<Rightarrow> attempt_env" where
  "serve_all tag entity = \<lparr>at_sent = (\<lambda>_. Arrived (full_response tag)), at_body = (\<lambda>_. [Arrived (Some entity), Arrived None]),
     at_cancelled = (\<lambda>_. False), at_sleep_cut = False, at_clock = (\<lambda>_. (1, 1))\<rparr>"

lemma fetch_chunk_first:
  "\<not> fr_turbo req \<Longrightarrow> fetch_chunk req env = bind_st (fetch_attempt req (env 0) 0) (\<lambda>got.
     case got of Some content \<Rightarrow> lift_st (Ok content) | None \<Rightarrow> fetch_from req env 5 (Suc 0))"
  using fetch_from.simps(2) [of req env 5 0] by (simp add: fetch_chunk_def DL_MAX_ATTEMPTS_def)

lemmas fs_run = on_fs_def fs_io_def len_or_0_def symlink_metadata_def open_truncate_def set_mode_def write_all_def append_def
  sync_all_def read_file_def remove_file_def syscall_def next_fault_def put_def is_directory_def ok_or_def map_err_def ignore_def
  restrict_private_def read_string_def emit_def set_phase_def bind_st_def lift_st_def

definition chunk_file :: path where "chunk_file = fr_path example_request"
definition tag_file :: path where "tag_file = fr_etag_path example_request"

lemma example_files: "chunk_file \<noteq> tag_file" "tag_file \<noteq> chunk_file" "chunk_file \<noteq> []" "tag_file \<noteq> []"
    "[] \<noteq> chunk_file" "[] \<noteq> tag_file" "butlast chunk_file = []" "butlast tag_file = []" "fr_path example_request = chunk_file" "fr_etag_path example_request = tag_file"
  by (simp_all add: chunk_file_def tag_file_def) (simp_all add: fr_path_def fr_etag_path_def cipher_path_def etag_path_def example_request_def)

lemma example_sizes: "fr_expected example_request = 17" "fr_ranges example_request" "\<not> fr_turbo example_request" "\<not> fr_fresh example_request"
  by (simp_all add: fr_expected_def example_request_def AEAD_TAG_BYTES_def)

lemma example_response:
  "rs_status (full_response tag) = 200" "rs_header (full_response tag) n = (if n = ''etag'' then Some (byte_lit tag) else None)"
  "\<not> retryable_status 200 False" "is_success 200" "\<not> retryable_status 206 False" "is_success 206"
  by (simp_all add: full_response_def retryable_status_def is_success_def)

lemmas attempt_run = fetch_attempt_def retained_prefix_def request_chunk_bytes_def accept_response_def keep_prefix_def
  finish_response_def content_length_def store_etag_def receive_body_def fs_run example_files example_sizes example_response
  strong_tag_def validate_content_length_def header_to_str_def starts_with_def

lemma example_fetch:
  "\<exists>s'. fetch_chunk example_request (\<lambda>_. serve_all ''x'' (replicate 17 5)) \<lparr>ft_fs = dir_fs [], ft_events = []\<rparr>
     = (Inr (replicate 17 5), s')"
  unfolding fetch_chunk_first [OF example_sizes(3)]
  by (simp add: attempt_run dir_fs_def serve_all_def)


text \<open>The comment in \<open>fetch_chunk\<close> says that storing the tag first can never lead to appending a prefix
  to another entity. The removal of the old prefix, whose failure is ignored, breaks this: when it
  fails and the process stops before the truncation, the old bytes stay under the new tag, and the
  next request completes them with the bytes of the new entity. (The record then fails to
  authenticate and is fetched once more.)\<close>

definition stale_fs :: "fault list \<Rightarrow> fs" where
  "stale_fs plan = put chunk_file (Some (Regular \<lparr>m_uid = 7, m_mode = 384\<rparr> (replicate 5 1)))
     (put tag_file (Some (Regular \<lparr>m_uid = 7, m_mode = 384\<rparr> (byte_lit ''a''))) (dir_fs plan))"

definition serve_rest :: "attempt_env" where
  "serve_rest = \<lparr>at_sent = (\<lambda>_. Arrived \<lparr>rs_status = 206, rs_header = (\<lambda>n. if n = ''etag'' then Some (byte_lit ''b'')
       else if n = ''content-range'' then Some (byte_lit ''bytes 5-16/17'') else None), rs_content_length = None\<rparr>),
     at_body = (\<lambda>_. [Arrived (Some (replicate 12 2)), Arrived None]),
     at_cancelled = (\<lambda>_. False), at_sleep_cut = False, at_clock = (\<lambda>_. (1, 1))\<rparr>"

theorem interrupted_reset_mixes_entities:
  "let (r1, s1) = fetch_chunk example_request (\<lambda>_. serve_all ''b'' (replicate 17 2))
         \<lparr>ft_fs = stale_fs [Good, Good, Bad 0 {}, Good, Good, Good, Bad 0 {}], ft_events = []\<rparr>;
       (r2, s2) = fetch_chunk example_request (\<lambda>_. serve_rest) s1
   in r1 = Err (DlIo OtherIo) \<and> r2 = Ok (replicate 5 1 @ replicate 12 2)"
  unfolding fetch_chunk_first [OF example_sizes(3)]
  by (simp add: attempt_run dir_fs_def stale_fs_def serve_all_def serve_rest_def from_utf8.simps utf8_next_def utf8_width_def
      utf8_value_def utf8_char_def scalar_def validate_range_def decimal.simps open_create_def continuation_def Let_def)

end
