(* ===== verification/Download_Job.thy ===== *)
theory Download_Job
  imports Download_Chunk "HOL-Library.AList"
begin

text \<open>
  The durable state of a download and the publication of its files, from
  \<open>crates/transfer-native/src/protocol/download.rs\<close> (\<open>DownloadJob\<close>, \<open>ReceiveProgress\<close>, \<open>publish_item\<close>,
  \<open>completed_paths\<close>, \<open>cleanup_item\<close>) and \<open>mod.rs\<close> (\<open>safe_filename\<close>, \<open>collision_free\<close>). SHA-256 is a
  parameter, and so are the random parts of temporary names. Shown: a published file has the size and
  the digest of the manifest, a file that exists is never replaced, whatever fails, progress shown is
  exact, and the choice of target names, which can give two items the same target.
\<close>

section \<open>Jobs\<close>

datatype download_source = PublicSource | InboxSource

record turbo_job =
  tb_descriptor :: rstr
  tb_session_id :: rstr
  tb_session_token :: rstr
  tb_sequence :: u64

record download_job =
  dj_version :: u8
  dj_id :: rstr
  dj_direction :: rstr
  dj_state :: rstr
  dj_instance :: rstr
  dj_done :: u64
  dj_total :: u64
  dj_transfer_id :: rstr
  dj_chunk_bytes :: u64
  dj_server_concurrency :: u32
  dj_ranges :: bool
  dj_driver :: rstr
  dj_envelope :: rstr
  dj_source :: download_source
  dj_turbo :: "turbo_job option"
  dj_output :: path
  dj_output_absolute :: bool
  dj_items :: "saved_item list"
  dj_selected_item_ids :: "rstr list option"
  dj_selection_frozen :: bool

definition DL_VERSION :: u8 where "DL_VERSION = 1"

text \<open>\<open>Path::parent\<close> and \<open>Path::file_name\<close> of an absolute path: the root has neither, and a final \<open>..\<close> is
  no file name.\<close>

definition parent :: "path \<Rightarrow> path option" where
  "parent p = (if p = [] then None else Some (butlast p))"

definition file_name :: "path \<Rightarrow> rstr option" where
  "file_name p = (if p = [] \<or> last p = lit ''..'' then None else Some (last p))"

definition item_checked :: "download_job \<Rightarrow> saved_item \<Rightarrow> bool" where
  "item_checked job i \<longleftrightarrow>
     length (si_verified i) = unat (si_chunk_count i) \<and> parent (si_target i) = Some (dj_output job)
     \<and> file_name (si_target i) \<noteq> None"

definition selection_valid :: "download_job \<Rightarrow> rstr list \<Rightarrow> bool" where
  "selection_valid job ids \<longleftrightarrow>
     ids \<noteq> [] \<and> distinct ids \<and> list_all (\<lambda>i. list_ex (\<lambda>item. si_id item = i) (dj_items job)) ids"

definition job_checked :: "download_job \<Rightarrow> (unit, dl_error) result" where
  "job_checked job =
     (if dj_version job \<noteq> DL_VERSION \<or> dj_direction job \<noteq> lit ''download'' \<or> dj_id job = [] \<or> dj_chunk_bytes job = 0
         \<or> \<not> (dj_driver job = lit ''http'' \<or> dj_driver job = lit ''webrtc'') \<or> \<not> dj_output_absolute job
         \<or> \<not> list_all (item_checked job) (dj_items job)
      then Err (DlMsg ''invalid download checkpoint'')
      else if (case dj_selected_item_ids job of None \<Rightarrow> False | Some ids \<Rightarrow> \<not> selection_valid job ids)
      then Err (DlMsg ''invalid download item selection'')
      else if dj_selection_frozen job \<and> dj_selected_item_ids job = None
      then Err (DlMsg ''frozen download selection is missing'')
      else Ok ())"

definition selected :: "download_job \<Rightarrow> saved_item \<Rightarrow> bool" where
  "selected job item = (case dj_selected_item_ids job of None \<Rightarrow> True | Some ids \<Rightarrow> list_ex (\<lambda>i. i = si_id item) ids)"

fun checked_sum :: "u64 \<Rightarrow> u64 list \<Rightarrow> u64 option" where
  "checked_sum n [] = Some n"
| "checked_sum n (x # xs) = Option.bind (checked_add n x) (\<lambda>m. checked_sum m xs)"

definition selected_total :: "download_job \<Rightarrow> (u64, dl_error) result" where
  "selected_total job =
     ok_or (DlMsg ''selected download is too large'')
       (checked_sum 0 (map si_size (filter (selected job) (dj_items job))))"

section \<open>Progress of concurrent requests\<close>

record receive_progress =
  rp_base_done :: u64
  rp_verified :: u64
  rp_item_verified :: "u64 list"
  rp_active :: "((nat \<times> u64) \<times> u64) list"

definition rp_new :: "u64 \<Rightarrow> u64 list \<Rightarrow> receive_progress" where
  "rp_new base_done item_verified =
     \<lparr>rp_base_done = base_done, rp_verified = 0, rp_item_verified = item_verified, rp_active = []\<rparr>"

text \<open>The map of active requests is an association list; sums of \<open>u64\<close> wrap.\<close>

definition rp_snapshot :: "receive_progress \<Rightarrow> nat \<Rightarrow> u64 \<times> u64" where
  "rp_snapshot p item =
     (let active = sum_list (map snd (rp_active p));
          item_active = sum_list (map snd (filter (\<lambda>((i, _), _). i = item) (rp_active p)))
      in (saturating_add (saturating_add (rp_base_done p) (rp_verified p)) active,
          saturating_add (rp_item_verified p ! item) item_active))"

definition rp_report :: "nat \<Rightarrow> u64 \<Rightarrow> u64 \<Rightarrow> receive_progress \<Rightarrow> (u64 \<times> u64) \<times> receive_progress" where
  "rp_report item chunk n p =
     (let p' = p\<lparr>rp_active := AList.update (item, chunk) n (rp_active p)\<rparr> in (rp_snapshot p' item, p'))"

definition rp_restart :: "nat \<Rightarrow> u64 \<Rightarrow> receive_progress \<Rightarrow> (u64 \<times> u64) \<times> receive_progress" where
  "rp_restart item chunk p = rp_report item chunk 0 p"

definition rp_verify :: "nat \<Rightarrow> u64 \<Rightarrow> u64 \<Rightarrow> receive_progress \<Rightarrow> (u64 \<times> u64) \<times> receive_progress" where
  "rp_verify item chunk n p =
     (let p' = p\<lparr>rp_active := AList.delete (item, chunk) (rp_active p), rp_verified := saturating_add (rp_verified p) n,
                  rp_item_verified := (rp_item_verified p)[item := saturating_add (rp_item_verified p ! item) n]\<rparr>
      in (rp_snapshot p' item, p'))"

definition live_progress :: "u64 \<Rightarrow> u64 \<Rightarrow> u8" where
  "live_progress finished all =
     ucast (min (if all = 0 then 0 else saturating_mul finished 100 div all) 99)"

section \<open>Target names\<close>

definition download_filename :: "rstr \<Rightarrow> rstr" where
  "download_filename v =
     (let name = trim_end_matches (\<lambda>c. c = of_char (CHR ''.'') \<or> c = of_char (CHR '' '')) (map portable_char v) in
      if name = [] \<or> name = lit ''.'' \<or> name = lit ''..'' \<or> is_windows_device_name name
      then lit ''download'' else name)"

text \<open>The candidates \<open>name\<close>, \<open>name (1)\<close>, \<open>name (2)\<close> and so on; \<open>left\<close> bounds the search. A directory holds
  finitely many names, so the search ends; with faults in the file system a failing check counts as a
  free name.\<close>

definition candidate :: "path \<Rightarrow> rstr \<Rightarrow> nat \<Rightarrow> path" where
  "candidate directory name i =
     directory @ [if i = 0 then name else name @ lit '' ('' @ decimal i @ lit '')'']"

fun collision_free_from :: "nat \<Rightarrow> path \<Rightarrow> rstr \<Rightarrow> nat \<Rightarrow> (fs, path option, dl_error) st" where
  "collision_free_from 0 directory name i = lift_st (Ok None)"
| "collision_free_from (Suc left) directory name i =
     bind_st (path_exists (candidate directory name i)) (\<lambda>taken.
       if taken then collision_free_from left directory name (Suc i)
       else lift_st (Ok (Some (candidate directory name i))))"

definition collision_free :: "nat \<Rightarrow> path \<Rightarrow> rstr \<Rightarrow> (fs, path option, dl_error) st" where
  "collision_free left directory name = collision_free_from left directory name 0"

section \<open>Publication\<close>

definition sha256_file :: "(u8 list \<Rightarrow> rstr) \<Rightarrow> path \<Rightarrow> rstr ft_op" where
  "sha256_file sha p = bind_st (fs_io (read_file p)) (\<lambda>content. lift_st (Ok (sha content)))"

definition stage_path :: "path \<Rightarrow> nat \<Rightarrow> rstr \<Rightarrow> path" where
  "stage_path target index fresh =
     butlast target @ [lit ''.'' @ (case file_name target of None \<Rightarrow> [] | Some n \<Rightarrow> n) @ lit ''.filebeam-''
       @ decimal index @ lit ''-'' @ fresh @ lit ''.part'']"

text \<open>The staged copy, which is removed when it is dropped before it is published.\<close>

definition publish_stage :: "(u8 list \<Rightarrow> rstr) \<Rightarrow> path \<Rightarrow> path \<Rightarrow> saved_item \<Rightarrow> unit ft_op" where
  "publish_stage sha source stage item =
     bind_st (fs_io (open_new stage 384)) (\<lambda>_.
     bind_st (drop_temp stage
       (bind_st (fs_io (restrict_private stage)) (\<lambda>_.
        bind_st (fs_io (read_file source)) (\<lambda>content.
        bind_st (fs_io (write_all stage content)) (\<lambda>_. fs_io (sync_all stage)))))) (\<lambda>_ s.
     case drop_temp stage (fs_io (rename_noreplace stage (si_target item))) s of
       (Inr _, s') \<Rightarrow> fs_io (sync_all (butlast (si_target item))) s'
     | (Inl e, s') \<Rightarrow>
         if e = DlIo AlreadyExists
         then bind_st (sha256_file sha (si_target item)) (\<lambda>d.
                lift_st (if d \<noteq> si_digest item then Err (DlMsg ''download target was created concurrently'') else Ok ())) s'
         else (Err e, s')))"

definition publish_item :: "(u8 list \<Rightarrow> rstr) \<Rightarrow> rstr \<Rightarrow> path \<Rightarrow> saved_item \<Rightarrow> nat \<Rightarrow> unit ft_op" where
  "publish_item sha fresh base item index =
     (if list_ex Not (si_verified item) then lift_st (Err (DlMsg ''cannot publish incomplete download''))
      else
        bind_st (fs_io (read_file (plain_path base index))) (\<lambda>content.
        if of_nat (length content) \<noteq> si_size item \<or> sha content \<noteq> si_digest item
        then lift_st (Err (DlMsg ''SHA-256 verification failed''))
        else
          bind_st (on_fs (path_exists (si_target item))) (\<lambda>present.
          if present then
            bind_st (sha256_file sha (si_target item)) (\<lambda>d.
              lift_st (if d \<noteq> si_digest item then Err (DlMsg ''download target already exists'') else Ok ()))
          else publish_stage sha (plain_path base index) (stage_path (si_target item) index fresh) item)))"

fun cleanup_from :: "path \<Rightarrow> nat \<Rightarrow> nat list \<Rightarrow> unit ft_op" where
  "cleanup_from base index [] = lift_st (Ok ())"
| "cleanup_from base index (k # ks) =
     bind_st (on_fs (ignore (remove_file (cipher_path base index (of_nat k))))) (\<lambda>_.
     bind_st (on_fs (ignore (remove_file (etag_path base index (of_nat k))))) (\<lambda>_. cleanup_from base index ks))"

definition cleanup_item :: "path \<Rightarrow> nat \<Rightarrow> u64 \<Rightarrow> unit ft_op" where
  "cleanup_item base index chunks = cleanup_from base index [0 ..< unat chunks]"

text \<open>\<open>Path::is_file\<close> follows, as every check does, the file system.\<close>

definition path_is_file :: "path \<Rightarrow> (fs, bool, dl_error) st" where
  "path_is_file p s = (case symlink_metadata p s of (Inr n, s') \<Rightarrow> (Ok (is_file n), s') | (Inl _, s') \<Rightarrow> (Ok False, s'))"

fun completed_targets :: "(u8 list \<Rightarrow> rstr) \<Rightarrow> saved_item list \<Rightarrow> path list ft_op" where
  "completed_targets sha [] = lift_st (Ok [])"
| "completed_targets sha (item # items) =
     bind_st (on_fs (path_is_file (si_target item))) (\<lambda>present.
     if \<not> present then lift_st (Err (DlMsg ''published download target is missing or corrupted''))
     else
       bind_st (sha256_file sha (si_target item)) (\<lambda>d.
       if d \<noteq> si_digest item then lift_st (Err (DlMsg ''published download target is missing or corrupted''))
       else bind_st (completed_targets sha items) (\<lambda>ps. lift_st (Ok (si_target item # ps)))))"

definition completed_paths :: "(u8 list \<Rightarrow> rstr) \<Rightarrow> download_job \<Rightarrow> path list ft_op" where
  "completed_paths sha job =
     bind_st (lift_st (job_checked job)) (\<lambda>_.
     let items = filter (selected job) (dj_items job) in
     if list_ex (\<lambda>item. \<not> si_published item) items
     then lift_st (Err (DlMsg ''completed download checkpoint has unpublished items''))
     else completed_targets sha items)"

section \<open>A published file is the file of the manifest\<close>

lemma present_target: "path_exists p f = (Inr True, f') \<Longrightarrow> nodes f p \<noteq> None"
  by (auto simp: path_exists_def symlink_metadata_def is_ok_iff ok_or_def dest!: syscall_Ok split: prod.splits option.splits)

lemma rename_noreplace_Ok:
  "rename_noreplace a b f = (Inr x, f') \<Longrightarrow> nodes f b = None \<and> nodes f' b = nodes f a"
  unfolding rename_noreplace_def by (auto dest!: syscall_Ok simp: put_view split: option.splits if_splits)

lemma rename_noreplace_Err: "rename_noreplace a b f = (Inl e, f') \<Longrightarrow> nodes f' q = nodes f q"
  unfolding rename_noreplace_def
  by (erule syscall_Err [where v = "\<lambda>s. nodes s q"]) (auto split: option.splits if_splits)

lemma keeps_sha256: "keeps (\<lambda>s. nodes (ft_fs s) q = n) (sha256_file sha p)"
  unfolding sha256_file_def by (intro keeps_intro keeps_fs_io [where v = "\<lambda>s. nodes s q"] leaves_intro faultless_nodes)

lemma sha256_file_Ok:
  "sha256_file sha p s = (Inr d, s') \<Longrightarrow> \<exists>m c. nodes (ft_fs s) p = Some (Regular m c) \<and> d = sha c"
  by (auto simp: sha256_file_def bind_st_Inr fs_io_Ok dest: read_file_Ok)

lemma triple_io_leaves:
  fixes v :: "fs \<Rightarrow> 'v"
  assumes "leaves v m"
  shows "triple (\<lambda>s. P (v (ft_fs s))) (fs_io m) (\<lambda>_ s. P (v (ft_fs s))) (\<lambda>_ s. P (v (ft_fs s)))"
  using keeps_fs_io [OF assms, of P] unfolding keeps_def .

lemma triple_conj:
  "triple P m Q E \<Longrightarrow> triple P' m Q' E' \<Longrightarrow> triple (\<lambda>s. P s \<and> P' s) m (\<lambda>x s. Q x s \<and> Q' x s) (\<lambda>x s. E x s \<and> E' x s)"
  by (fastforce simp: triple_def split: prod.splits sum.splits)

lemma triple_drop_temp:
  assumes "triple P m Q (\<lambda>_ s. nodes (ft_fs s) q = n)" "q \<noteq> t"
  shows "triple P (drop_temp t m) Q (\<lambda>_ s. nodes (ft_fs s) q = n)"
  unfolding triple_def
proof (intro allI impI)
  fix s assume "P s"
  obtain r s1 where run: "m s = (r, s1)" by force
  have i: "keeps (\<lambda>s. nodes (ft_fs s) q = n) (on_fs (ignore (remove_file t)) :: unit ft_op)"
    using assms(2) by (intro keeps_on_fs [where v = "\<lambda>s. nodes s q"] leaves_intro)
  show "case drop_temp t m s of (Inr x, s') \<Rightarrow> Q x s' | (Inl e, s') \<Rightarrow> nodes (ft_fs s') q = n"
    using tripleD_Ok [OF assms(1) \<open>P s\<close>] tripleD_Err [OF assms(1) \<open>P s\<close>] run keepsD [OF i]
    by (cases r) (auto simp: drop_temp_def)
qed

text \<open>The stage holds \<open>d\<close>, the target is as it was, the source is there.\<close>

definition staged :: "path \<Rightarrow> path \<Rightarrow> path \<Rightarrow> node option \<Rightarrow> u8 list \<Rightarrow> u8 list \<Rightarrow> fetch_state \<Rightarrow> bool" where
  "staged source stage target n0 c d s \<longleftrightarrow> nodes (ft_fs s) target = n0 \<and> content_at source (ft_fs s) = Some c
     \<and> (\<exists>m. nodes (ft_fs s) stage = Some (Regular m d))"

lemma staged_step:
  assumes "stage \<noteq> target" "stage \<noteq> source"
    and "\<And>q. q \<noteq> stage \<Longrightarrow> leaves (\<lambda>s. nodes s q) m"
    and "\<And>f f' x mt. m f = (Inr x, f') \<Longrightarrow> nodes f stage = Some (Regular mt d) \<Longrightarrow> \<exists>m. nodes f' stage = Some (Regular m (d' x))"
  shows "triple (staged source stage target n0 c d) (fs_io m) (\<lambda>x. staged source stage target n0 c (d' x))
    (\<lambda>_ s. nodes (ft_fs s) target = n0)"
  unfolding triple_def
proof (intro allI impI)
  fix s assume s: "staged source stage target n0 c d s"
  then obtain mt where mt: "nodes (ft_fs s) stage = Some (Regular mt d)" by (auto simp: staged_def)
  obtain r f where run: "m (ft_fs s) = (r, f)" by force
  have keep: "nodes f target = nodes (ft_fs s) target" "nodes f source = nodes (ft_fs s) source"
    using leavesD [OF assms(3) run] assms(1,2) by auto
  show "case fs_io m s of (Inr x, s') \<Rightarrow> staged source stage target n0 c (d' x) s' | (Inl e, s') \<Rightarrow> nodes (ft_fs s') target = n0"
  proof (cases r)
    case (Inl e)
    then show ?thesis using run keep s by (simp add: fs_io_def on_fs_def staged_def)
  next
    case (Inr x)
    then show ?thesis using run keep s assms(4) [of "ft_fs s" x f mt] mt
      by (simp add: fs_io_def on_fs_def staged_def content_at_def)
  qed
qed

lemma publish_stage_triple:
  assumes ne: "stage \<noteq> si_target item" "stage \<noteq> source" and sha: "sha c = si_digest item"
  shows "triple (\<lambda>s. nodes (ft_fs s) (si_target item) = n0 \<and> content_at source (ft_fs s) = Some c)
    (publish_stage sha source stage item)
    (\<lambda>_ s. case n0 of None \<Rightarrow> content_at (si_target item) (ft_fs s) = Some c
        | Some n \<Rightarrow> nodes (ft_fs s) (si_target item) = n0
            \<and> map_option sha (content_at (si_target item) (ft_fs s)) = Some (si_digest item))
    (\<lambda>_ s. nodes (ft_fs s) (si_target item) = n0 \<or> n0 = None \<and> content_at (si_target item) (ft_fs s) = Some c)"
    (is "triple ?P _ ?Q ?E")
proof -
  let ?t = "si_target item"
  let ?S = "staged source stage ?t n0 c"
  let ?K = "\<lambda>_ s. nodes (ft_fs s) ?t = n0"
  have other: "leaves (\<lambda>s. nodes s q) m \<Longrightarrow> leaves (\<lambda>s. nodes s q) m" for q and m :: "(fs, unit, io_error) st" .
  have 1: "triple ?P (fs_io (open_new stage 384)) (\<lambda>_. ?S []) ?E"
    unfolding triple_def
  proof (intro allI impI)
    fix s assume s: "?P s"
    obtain r f where run: "open_new stage 384 (ft_fs s) = (r, f)" by force
    have "nodes f ?t = nodes (ft_fs s) ?t" "nodes f source = nodes (ft_fs s) source"
      using leavesD [OF leaves_other_path(2) run] ne by auto
    then show "case fs_io (open_new stage 384) s of (Inr x, s') \<Rightarrow> ?S [] s' | (Inl e, s') \<Rightarrow> ?E e s'"
      using s run open_new_Ok [of stage 384 "ft_fs s" _ f]
      by (cases r) (auto simp: fs_io_def on_fs_def staged_def content_at_def)
  qed
  have r: "triple (?S []) (fs_io (restrict_private stage)) (\<lambda>_. ?S []) ?K"
    unfolding restrict_private_def by (rule staged_step [OF ne]) (auto intro: leaves_misc set_mode_Ok)
  have rd: "triple (?S []) (fs_io (read_file source)) (\<lambda>x s. ?S [] s \<and> x = c) ?K"
    unfolding triple_def
  proof (intro allI impI)
    fix s assume s: "?S [] s"
    obtain r f where run: "read_file source (ft_fs s) = (r, f)" by force
    have "nodes f q = nodes (ft_fs s) q" for q
      using leavesD [OF leaves_read_only(3) [OF faultless_nodes(1)] run] .
    then show "case fs_io (read_file source) s of (Inr x, s') \<Rightarrow> ?S [] s' \<and> x = c | (Inl e, s') \<Rightarrow> ?K e s'"
      using s run read_file_Ok [of source "ft_fs s" _ f]
      by (cases r) (auto simp: fs_io_def on_fs_def staged_def content_at_def)
  qed
  have w: "triple (\<lambda>s. ?S [] s \<and> x = c) (fs_io (write_all stage x)) (\<lambda>_. ?S c) ?K" for x
  proof (cases "x = c")
    case True
    have "triple (?S []) (fs_io (write_all stage c)) (\<lambda>_. ?S c) ?K"
      by (rule staged_step [OF ne]) (auto intro: leaves_write_all dest: write_all_Ok)
    then show ?thesis using True by simp
  qed (simp add: triple_def)
  have sy: "triple (?S c) (fs_io (sync_all stage)) (\<lambda>_. ?S c) ?K"
    by (rule staged_step [OF ne])
       (auto intro!: leaves_intro faultless_nodes dest: leavesD [OF leaves_read_only(2) [OF faultless_nodes(1) [of stage]]])
  have 2: "triple (?S []) (drop_temp stage (bind_st (fs_io (restrict_private stage)) (\<lambda>_.
        bind_st (fs_io (read_file source)) (\<lambda>content.
        bind_st (fs_io (write_all stage content)) (\<lambda>_. fs_io (sync_all stage)))))) (\<lambda>_. ?S c) ?K"
    by (rule triple_drop_temp [OF triple_bind [OF r triple_bind [OF rd triple_bind [OF w sy]]]]) (use ne in auto)
  have 3: "triple (?S c) (\<lambda>s. case drop_temp stage (fs_io (rename_noreplace stage ?t)) s of
       (Inr _, s') \<Rightarrow> fs_io (sync_all (butlast ?t)) s'
     | (Inl e, s') \<Rightarrow>
         if e = DlIo AlreadyExists
         then bind_st (sha256_file sha ?t) (\<lambda>d.
                lift_st (if d \<noteq> si_digest item then Err (DlMsg ''download target was created concurrently'') else Ok ())) s'
         else (Err e, s')) ?Q ?E"
    unfolding triple_def
  proof (intro allI impI)
    fix s assume s: "?S c s"
    obtain r f where run: "rename_noreplace stage ?t (ft_fs s) = (r, f)" by force
    have sync: "fs_io (sync_all (butlast ?t)) s' = (r', s'') \<Longrightarrow> nodes (ft_fs s'') ?t = nodes (ft_fs s') ?t" for s' r' s''
      using keepsD_run [OF keeps_fs_io [OF leaves_read_only(2) [OF faultless_nodes(1) [of ?t]],
        where P = "\<lambda>v. v = nodes (ft_fs s') ?t"]] by blast
    show "case (case drop_temp stage (fs_io (rename_noreplace stage ?t)) s of
       (Inr _, s') \<Rightarrow> fs_io (sync_all (butlast ?t)) s'
     | (Inl e, s') \<Rightarrow>
         if e = DlIo AlreadyExists
         then bind_st (sha256_file sha ?t) (\<lambda>d.
                lift_st (if d \<noteq> si_digest item then Err (DlMsg ''download target was created concurrently'') else Ok ())) s'
         else (Err e, s')) of (Inr x, s') \<Rightarrow> ?Q x s' | (Inl e, s') \<Rightarrow> ?E e s'"
    proof (cases r)
      case (Inr x)
      let ?s = "s\<lparr>ft_fs := f\<rparr>"
      have "n0 = None" "content_at ?t f = Some c"
        using rename_noreplace_Ok [of stage ?t "ft_fs s" x f] run Inr s by (auto simp: staged_def content_at_def)
      moreover obtain r' s'' where r': "fs_io (sync_all (butlast ?t)) ?s = (r', s'')" by force
      moreover have "content_at ?t (ft_fs s'') = content_at ?t f" using sync [OF r'] by (simp add: content_at_def)
      ultimately show ?thesis using Inr run by (cases r') (simp_all add: drop_temp_def fs_io_def on_fs_def)
    next
      case (Inl e)
      let ?s = "snd (on_fs (ignore (remove_file stage)) (s\<lparr>ft_fs := f\<rparr>))"
      have f: "nodes f ?t = n0" using rename_noreplace_Err [of stage ?t "ft_fs s" e f ?t] run Inl s by (simp add: staged_def)
      have "nodes (snd (remove_file stage f)) ?t = nodes f ?t"
        using leaves_other_path(4) [of ?t stage] ne(1) by (metis leaves_def)
      then have n0: "nodes (ft_fs ?s) ?t = n0" using f by (simp add: on_fs_def ignore_def)
      obtain r' s'' where r': "sha256_file sha ?t ?s = (r', s'')" by force
      have "nodes (ft_fs s'') ?t = n0" using keepsD_run [OF keeps_sha256 r' n0] .
      moreover have "\<exists>m c. n0 = Some (Regular m c) \<and> d = sha c" if "r' = Inr d" for d
        using sha256_file_Ok [of sha ?t ?s d s''] r' that n0 by auto
      ultimately show ?thesis using Inl run n0 r'
        by (cases r') (auto simp: drop_temp_def fs_io_def on_fs_def map_err_def bind_st_def lift_st_def content_at_def ignore_def split: prod.splits)
    qed
  qed
  show ?thesis
    unfolding publish_stage_def
    by (rule triple_bind [OF 1], rule triple_bind [OF triple_conseq [OF 2] 3]) auto
qed

lemma stage_fresh: "p \<noteq> [] \<Longrightarrow> stage_path p i f \<noteq> p"
  by (cases p rule: rev_cases) (auto simp: stage_path_def file_name_def)

lemma stage_not_plain: "stage_path p i f \<noteq> plain_path b k"
  by (simp add: stage_path_def plain_path_def)

lemma publish_stage_other:
  assumes "q \<noteq> stage" "q \<noteq> si_target item"
  shows "keeps (\<lambda>s. nodes (ft_fs s) q = n) (publish_stage sha source stage item)"
proof -
  let ?I = "\<lambda>s. nodes (ft_fs s) q = n"
  have io: "leaves (\<lambda>s. nodes s q) m \<Longrightarrow> keeps ?I (fs_io m)" for m :: "(fs, 'z, io_error) st"
    by (rule keeps_fs_io)
  have rn: "leaves (\<lambda>s. nodes s q) (rename_noreplace stage (si_target item))"
    unfolding rename_noreplace_def by (rule leaves_syscall) (use assms in \<open>auto simp: put_view split: option.split\<close>)
  have last: "keeps ?I (\<lambda>s. case drop_temp stage (fs_io (rename_noreplace stage (si_target item))) s of
       (Inr _, s') \<Rightarrow> fs_io (sync_all (butlast (si_target item))) s'
     | (Inl e, s') \<Rightarrow>
         if e = DlIo AlreadyExists
         then bind_st (sha256_file sha (si_target item)) (\<lambda>d.
                lift_st (if d \<noteq> si_digest item then Err (DlMsg ''download target was created concurrently'') else Ok ())) s'
         else (Err e, s'))"
  proof (rule keepsI)
    fix s :: fetch_state assume n: "nodes (ft_fs s) q = n"
    obtain r s1 where run: "drop_temp stage (fs_io (rename_noreplace stage (si_target item))) s = (r, s1)" by force
    have 1: "nodes (ft_fs s1) q = n"
      using keepsD_run [OF keeps_drop_temp [OF assms(1) io [OF rn]] run n] .
    have a: "keeps ?I (fs_io (sync_all (butlast (si_target item))))"
      by (intro io leaves_intro faultless_nodes)
    have b: "keeps ?I (bind_st (sha256_file sha (si_target item)) (\<lambda>d.
        lift_st (if d \<noteq> si_digest item then Err (DlMsg ''download target was created concurrently'') else Ok ())))"
      by (intro keeps_bind keeps_lift keeps_sha256)
    show "nodes (ft_fs (snd (case drop_temp stage (fs_io (rename_noreplace stage (si_target item))) s of
       (Inr _, s') \<Rightarrow> fs_io (sync_all (butlast (si_target item))) s'
     | (Inl e, s') \<Rightarrow>
         if e = DlIo AlreadyExists
         then bind_st (sha256_file sha (si_target item)) (\<lambda>d.
                lift_st (if d \<noteq> si_digest item then Err (DlMsg ''download target was created concurrently'') else Ok ())) s'
         else (Err e, s')))) q = n"
      unfolding run prod.case using keepsD [OF a 1] keepsD [OF b 1] 1 by (cases r) simp_all
  qed
  have wr: "keeps ?I (bind_st (fs_io (restrict_private stage)) (\<lambda>_.
        bind_st (fs_io (read_file source)) (\<lambda>content.
        bind_st (fs_io (write_all stage content)) (\<lambda>_. fs_io (sync_all stage)))))"
    using assms(1) unfolding restrict_private_def by (intro keeps_bind io leaves_intro faultless_nodes)
  show ?thesis
    unfolding publish_stage_def
    by (intro keeps_bind io leaves_other_path(2) keeps_drop_temp wr last) (use assms(1) in auto)
qed

lemma publish_item_other:
  assumes "q \<noteq> stage_path (si_target item) index fresh" "q \<noteq> si_target item"
  shows "keeps (\<lambda>s. nodes (ft_fs s) q = n) (publish_item sha fresh base item index)"
  unfolding publish_item_def
  by (intro keeps_if keeps_bind keeps_lift keeps_sha256 publish_stage_other assms
      keeps_fs_io [where v = "\<lambda>s. nodes s q"] keeps_on_fs [where v = "\<lambda>s. nodes s q"] leaves_intro leaves_view [OF leaves_misc(2)] faultless_nodes)

text \<open>What the target is allowed to become: what it was, or the verified content where there was nothing.\<close>

definition target_kept :: "(u8 list \<Rightarrow> rstr) \<Rightarrow> saved_item \<Rightarrow> fs \<Rightarrow> fs \<Rightarrow> bool" where
  "target_kept sha item f f' \<longleftrightarrow>
     nodes f' (si_target item) = nodes f (si_target item)
     \<or> nodes f (si_target item) = None
       \<and> (\<exists>c. content_at (si_target item) f' = Some c \<and> of_nat (length c) = si_size item \<and> sha c = si_digest item)"

lemma publish_item_run:
  assumes "publish_item sha fresh base item index s = (r, s')" "si_target item \<noteq> []"
  shows "target_kept sha item (ft_fs s) (ft_fs s')"
    and "r = Inr x \<Longrightarrow> map_option sha (content_at (si_target item) (ft_fs s')) = Some (si_digest item)"
proof -
  let ?t = "si_target item" and ?p = "plain_path base index"
  let ?stage = "stage_path ?t index fresh"
  have same: "target_kept sha item (ft_fs s) f" if "nodes f ?t = nodes (ft_fs s) ?t" for f
    using that by (simp add: target_kept_def)
  let ?Q = "\<lambda>_ s1. target_kept sha item (ft_fs s) (ft_fs s1) \<and> map_option sha (content_at ?t (ft_fs s1)) = Some (si_digest item)"
  let ?E = "\<lambda>_ s1. target_kept sha item (ft_fs s) (ft_fs s1)"
  let ?I = "\<lambda>s1. nodes (ft_fs s1) ?t = nodes (ft_fs s) ?t"
  have "triple (\<lambda>s1. s1 = s) (publish_item sha fresh base item index) ?Q ?E"
    unfolding publish_item_def
  proof (rule triple_if)
    show "triple (\<lambda>s1. s1 = s) (lift_st (Err (DlMsg ''cannot publish incomplete download''))) ?Q ?E"
      by (rule triple_err) (simp add: same)
    have read: "triple (\<lambda>s1. s1 = s) (fs_io (read_file ?p)) (\<lambda>c s1. ?I s1 \<and> content_at ?p (ft_fs s1) = Some c) ?E"
      unfolding triple_def
    proof (intro allI impI)
      fix s1 assume "s1 = s"
      obtain r f where run: "read_file ?p (ft_fs s) = (r, f)" by force
      have n: "nodes f q = nodes (ft_fs s) q" for q using leavesD [OF leaves_read_only(3) [OF faultless_nodes(1)] run] .
      then show "case fs_io (read_file ?p) s1 of (Inr c, s1) \<Rightarrow> ?I s1 \<and> content_at ?p (ft_fs s1) = Some c | (Inl e, s1) \<Rightarrow> ?E e s1"
        using run read_file_Ok [of ?p "ft_fs s" _ f] \<open>s1 = s\<close> same
        by (cases r) (auto simp: fs_io_def on_fs_def content_at_def)
    qed
    show "triple (\<lambda>s1. s1 = s) (bind_st (fs_io (read_file ?p)) (\<lambda>content.
        if of_nat (length content) \<noteq> si_size item \<or> sha content \<noteq> si_digest item
        then lift_st (Err (DlMsg ''SHA-256 verification failed''))
        else bind_st (on_fs (path_exists ?t)) (\<lambda>present.
          if present then bind_st (sha256_file sha ?t) (\<lambda>d.
              lift_st (if d \<noteq> si_digest item then Err (DlMsg ''download target already exists'') else Ok ()))
          else publish_stage sha ?p ?stage item))) ?Q ?E"
    proof (rule triple_bind [OF read], rule triple_if)
      show "triple (\<lambda>s1. ?I s1 \<and> content_at ?p (ft_fs s1) = Some c) (lift_st (Err e)) ?Q ?E" for c e
        by (rule triple_err) (simp add: same)
      fix c assume "\<not> (of_nat (length c) \<noteq> si_size item \<or> sha c \<noteq> si_digest item)"
      then have c: "of_nat (length c) = si_size item" "sha c = si_digest item" by simp_all
      let ?J = "\<lambda>s1. ?I s1 \<and> content_at ?p (ft_fs s1) = Some c"
      have ex: "triple ?J (on_fs (path_exists ?t)) (\<lambda>_. ?J) ?E"
        by (rule keeps_triple [OF keeps_on_fs [OF leaves_misc(2), where P = "\<lambda>v. v ?t = nodes (ft_fs s) ?t
            \<and> (case v ?p of Some (Regular _ d) \<Rightarrow> Some d | _ \<Rightarrow> None) = Some c"]]) (auto simp: content_at_def same)
      have old: "triple ?J (bind_st (sha256_file sha ?t) (\<lambda>d.
              lift_st (if d \<noteq> si_digest item then Err (DlMsg ''download target already exists'') else Ok ()))) ?Q ?E"
        unfolding triple_def
      proof (intro allI impI)
        fix s1 :: fetch_state assume J: "?J s1"
        obtain r s2 where run: "sha256_file sha ?t s1 = (r, s2)" by force
        have I: "?I s2" using keepsD_run [OF keeps_sha256 run, of ?t] J by simp
        show "case bind_st (sha256_file sha ?t) (\<lambda>d. lift_st (if d \<noteq> si_digest item
            then Err (DlMsg ''download target already exists'') else Ok ())) s1 of (Inr x, s') \<Rightarrow> ?Q x s' | (Inl e, s') \<Rightarrow> ?E e s'"
        proof (cases r)
          case (Inr d)
          obtain m c where "nodes (ft_fs s1) ?t = Some (Regular m c)" "d = sha c"
            using sha256_file_Ok [of sha ?t s1 d s2] run Inr by blast
          then show ?thesis using Inr run I J same [OF I] by (auto simp: bind_st_def lift_st_def content_at_def)
        qed (use run same [OF I] in \<open>simp add: bind_st_def\<close>)
      qed
      have new: "triple ?J (publish_stage sha ?p ?stage item) ?Q ?E"
        by (rule triple_conseq [OF publish_stage_triple [of ?stage item ?p sha c "nodes (ft_fs s) ?t",
              OF stage_fresh [OF assms(2)] stage_not_plain c(2)]])
           (use c in \<open>auto simp: target_kept_def split: option.splits\<close>)
      show "triple ?J (bind_st (on_fs (path_exists ?t)) (\<lambda>present.
          if present then bind_st (sha256_file sha ?t) (\<lambda>d.
              lift_st (if d \<noteq> si_digest item then Err (DlMsg ''download target already exists'') else Ok ()))
          else publish_stage sha ?p ?stage item)) ?Q ?E"
        by (rule triple_bind [OF ex], rule triple_if, rule old, rule new)
    qed
  qed
  with assms(1) show "target_kept sha item (ft_fs s) (ft_fs s')"
    "r = Inr x \<Longrightarrow> map_option sha (content_at (si_target item) (ft_fs s')) = Some (si_digest item)"
    by (cases r; force simp: triple_def)+
qed

text \<open>C20. Publication, whatever call fails: the target is either left as it was or, where there was
  nothing, becomes a complete file with the size and the digest of the manifest; a file that exists
  is never replaced; nothing else changes but the staging file. A success means that the target has
  the digest of the manifest.\<close>

theorem publication_is_verified_and_never_clobbers:
  "let (r, s') = publish_item sha fresh base item index s
   in if si_target item = [] then True
      else target_kept sha item (ft_fs s) (ft_fs s')
         \<and> (if is_ok r then map_option sha (content_at (si_target item) (ft_fs s')) = Some (si_digest item) else True)
         \<and> (\<forall>q. q \<in> {si_target item, stage_path (si_target item) index fresh} \<or> nodes (ft_fs s') q = nodes (ft_fs s) q)"
proof -
  obtain r s' where run: "publish_item sha fresh base item index s = (r, s')" by force
  have "nodes (ft_fs s') q = nodes (ft_fs s) q" if "q \<noteq> stage_path (si_target item) index fresh" "q \<noteq> si_target item" for q
    using keepsD_run [OF publish_item_other [OF that] run] by simp
  then show ?thesis
    unfolding run Let_def prod.case using publish_item_run [OF run] by (auto simp: is_ok_iff)
qed

section \<open>Two items can get the same target\<close>

lemma calm_path_exists: "faults f = [] \<Longrightarrow> path_exists p f = (Inr (nodes f p \<noteq> None), f)"
  by (auto simp: path_exists_def symlink_metadata_def syscall_fault_free ok_or_def is_ok_def split: option.split)

text \<open>Without faults the target chosen is the first candidate that is free.\<close>

lemma collision_free_first:
  assumes "faults f = []"
  shows "collision_free_from left d name i f =
    (Inr (map_option (candidate d name) (find (\<lambda>k. nodes f (candidate d name k) = None) [i ..< i + left])), f)"
proof (induction left arbitrary: i)
  case (Suc left)
  have u: "[i ..< i + Suc left] = i # [Suc i ..< Suc i + left]" using upt_conv_Cons [of i "i + Suc left"] by simp
  show ?case
    unfolding u using Suc [of "Suc i"] assms by (simp add: bind_st_def calm_path_exists lift_st_def)
qed (simp add: lift_st_def)

text \<open>An item whose target was published for another item, with another digest, can not be published.\<close>

lemma taken_target_blocks:
  assumes "content_at (si_target item) (ft_fs s) = Some c" "sha c \<noteq> si_digest item" "si_target item \<noteq> []"
  shows "\<not> is_ok (fst (publish_item sha fresh base item index s))"
proof
  obtain r s' where run: "publish_item sha fresh base item index s = (r, s')" by force
  assume "is_ok (fst (publish_item sha fresh base item index s))"
  then obtain x where "r = Inr x" by (auto simp: run is_ok_iff)
  then have "map_option sha (content_at (si_target item) (ft_fs s')) = Some (si_digest item)"
    using publish_item_run(2) [OF run assms(3)] by blast
  moreover have "nodes (ft_fs s') (si_target item) = nodes (ft_fs s) (si_target item)"
    using publish_item_run(1) [OF run assms(3)] assms(1) by (auto simp: target_kept_def content_at_def)
  ultimately show False using assms(1,2) by (simp add: content_at_def)
qed

definition crowded_fs :: fs where
  "crowded_fs = \<lparr>nodes = (\<lambda>p. if p = [] \<or> p = [lit ''o''] then Some (Dir \<lparr>m_uid = 7, m_mode = 448\<rparr>)
     else if p = [lit ''o'', lit ''a''] then Some (Regular \<lparr>m_uid = 7, m_mode = 420\<rparr> []) else None),
     locked = {}, faults = [], euid = 7\<rparr>"

text \<open>The targets are chosen before any file is created. When the output directory already holds
  \<open>a\<close>, the items \<open>a\<close> and \<open>a (1)\<close> of one manifest, whose portable names differ so that the manifest is
  accepted, are both given the target \<open>a (1)\<close>; once one of them is published the other, having another
  digest, can never be, so the download can not complete.\<close>

theorem colliding_targets_block_download:
  "portable_filename (lit ''a'') \<noteq> portable_filename (lit ''a (1)'')
   \<and> fst (collision_free 9 [lit ''o''] (download_filename (lit ''a'')) crowded_fs) = Ok (Some [lit ''o'', lit ''a (1)''])
   \<and> fst (collision_free 9 [lit ''o''] (download_filename (lit ''a (1)'')) crowded_fs) = Ok (Some [lit ''o'', lit ''a (1)''])
   \<and> (\<forall>item s. (case content_at (si_target item) (ft_fs s) of
          Some c \<Rightarrow> sha c = si_digest item \<or> si_target item = [] \<or> is_ok (fst (publish_item sha fresh base item index s)) = False
        | None \<Rightarrow> True))"
proof (intro conjI)
  have n: "download_filename (lit ''a'') = lit ''a''" "download_filename (lit ''a (1)'') = lit ''a (1)''"
    by (simp_all add: download_filename_def portable_char_def is_control_def trim_end_matches_def is_windows_device_name_def
        to_ascii_uppercase_def ascii_lower_def str_len_def utf8_char_def Let_def starts_with_def)
  show "portable_filename (lit ''a'') \<noteq> portable_filename (lit ''a (1)'')"
    using n unfolding download_filename_def portable_filename_def by simp
  have c: "faults crowded_fs = []" by (simp add: crowded_fs_def)
  show "fst (collision_free 9 [lit ''o''] (download_filename (lit ''a'')) crowded_fs) = Ok (Some [lit ''o'', lit ''a (1)''])"
    "fst (collision_free 9 [lit ''o''] (download_filename (lit ''a (1)'')) crowded_fs) = Ok (Some [lit ''o'', lit ''a (1)''])"
    unfolding n collision_free_def collision_free_first [OF c]
    by (simp_all add: upt_rec crowded_fs_def candidate_def decimal.simps)
  show "\<forall>item s. (case content_at (si_target item) (ft_fs s) of
          Some c \<Rightarrow> sha c = si_digest item \<or> si_target item = [] \<or> is_ok (fst (publish_item sha fresh base item index s)) = False
        | None \<Rightarrow> True)"
    using taken_target_blocks by (auto split: option.split)
qed

end
