(* ===== verification/Download_Queue.thy ===== *)
theory Download_Queue
  imports Download_Job
begin

text \<open>
  The download loop, \<open>download\<close> of \<open>crates/transfer-native/src/protocol/download.rs\<close>, over the chunks of
  \<open>Download_Chunk\<close>, the publication of \<open>Download_Job\<close> and the concurrency control of \<open>Adaptive\<close>. Requests
  in flight are a list; which of them completes next, and what it meets, is an argument
  (\<open>step_env\<close>). A request touches only its own two files, so its effects are taken at its completion,
  and what it reports is applied to the shared progress and concurrency control then. The session
  reports of live downloads are not modelled. Shown: the queue holds exactly the chunks that are
  missing, the durable progress is exactly the bytes verified, the loop ends after as many completions as
  chunks are missing, and when it ends every selected file is verified and published.
\<close>

section \<open>State\<close>

record dl_ctx =
  cx_crypto :: crypto
  cx_rng :: rng
  cx_to_vec :: "download_job \<Rightarrow> u8 list option"
  cx_decode :: "rstr \<Rightarrow> u8 list option"
  cx_sha :: "u8 list \<Rightarrow> rstr"
  cx_store :: store
  cx_master :: "u8 list"
  cx_slots :: u32

record dl_state =
  ds_fs :: fs
  ds_job :: download_job
  ds_receiving :: receive_progress
  ds_adaptive :: adaptive
  ds_control :: control
  ds_pending :: "(nat \<times> u64) list"
  ds_inflight :: "(nat \<times> u64) list"

type_synonym 'a dq_op = "(dl_state, 'a, dl_error) st"

text \<open>What a request does to one chunk: the outcomes of the HTTP attempts, or of the live request.\<close>

record fetch_env =
  fe_http :: "nat \<Rightarrow> attempt_env"
  fe_live :: "(u8 list, dl_error) result"

record step_env =
  sv_pick :: nat
  sv_first :: fetch_env
  sv_again :: fetch_env
  sv_cancelled :: bool
  sv_phase_fails :: "phase \<Rightarrow> bool"
  sv_turbo :: "u16 waited"
  sv_fresh :: "nat \<Rightarrow> rstr"

section \<open>Events\<close>

definition show_progress :: "nat \<Rightarrow> rstr \<Rightarrow> u64 \<Rightarrow> u64 \<Rightarrow> (u64 \<times> u64) \<times> receive_progress \<Rightarrow> dl_state \<Rightarrow> dl_state" where
  "show_progress item name len wire r s =
     (case r of ((finished, item_done), p) \<Rightarrow>
        s\<lparr>ds_receiving := p,
          ds_control := control_advance finished item_done wire (control_item name (Suc item) len (ds_control s))\<rparr>)"

fun apply_dl_event :: "dl_event \<Rightarrow> dl_state \<Rightarrow> dl_state" where
  "apply_dl_event (DlPhase p) s =
     (case control_phase p (ds_control s) of Inr c \<Rightarrow> s\<lparr>ds_control := c\<rparr> | Inl _ \<Rightarrow> s)"
| "apply_dl_event (DlRestart item chunk name len) s =
     show_progress item name len 0 (rp_restart item chunk (ds_receiving s)) s"
| "apply_dl_event (DlReport item chunk n wire name len) s =
     show_progress item name len wire (rp_report item chunk n (ds_receiving s)) s"
| "apply_dl_event (DlObserve n elapsed now) s = s\<lparr>ds_adaptive := observe n elapsed now (ds_adaptive s)\<rparr>"
| "apply_dl_event (DlSleep ms) s = s"

definition on_ft :: "'a ft_op \<Rightarrow> 'a dq_op" where
  "on_ft m s =
     (case m \<lparr>ft_fs = ds_fs s, ft_events = []\<rparr> of
        (r, t) \<Rightarrow> (r, fold apply_dl_event (ft_events t) (s\<lparr>ds_fs := ft_fs t\<rparr>)))"

section \<open>The parts of a step\<close>

definition edit_job :: "(download_job \<Rightarrow> download_job) \<Rightarrow> unit dq_op" where
  "edit_job f s = (Ok (), s\<lparr>ds_job := f (ds_job s)\<rparr>)"

definition edit_item :: "nat \<Rightarrow> (saved_item \<Rightarrow> saved_item) \<Rightarrow> download_job \<Rightarrow> download_job" where
  "edit_item i f job = job\<lparr>dj_items := (dj_items job)[i := f (dj_items job ! i)]\<rparr>"

definition save_job :: "dl_ctx \<Rightarrow> unit dq_op" where
  "save_job cx s =
     (case store_save (cx_crypto cx) (cx_rng cx) (cx_to_vec cx) (cx_store cx) (ds_job s) (ds_fs s) of
        (r, f) \<Rightarrow> (map_err DlCk r, s\<lparr>ds_fs := f\<rparr>))"

definition dq_phase :: "step_env \<Rightarrow> phase \<Rightarrow> unit dq_op" where
  "dq_phase env p s =
     (if sv_phase_fails env p then (Err (DlControl Cancelled), s) else (Ok (), apply_dl_event (DlPhase p) s))"

definition is_live :: "download_job \<Rightarrow> bool" where
  "is_live job \<longleftrightarrow> dj_driver job = lit ''webrtc''"

definition chunk_request :: "dl_ctx \<Rightarrow> download_job \<Rightarrow> nat \<Rightarrow> u64 \<Rightarrow> bool \<Rightarrow> fetch_request" where
  "chunk_request cx job i k fresh =
     (let item = dj_items job ! i in
      \<lparr>fr_directory = st_directory (cx_store cx), fr_item = i, fr_chunk = k,
       fr_plain = plaintext_len (si_size item) (dj_chunk_bytes job) k, fr_ranges = dj_ranges job,
       fr_item_name = si_name item, fr_item_size = si_size item, fr_fresh = fresh, fr_turbo = dj_turbo job \<noteq> None\<rparr>)"

definition run_fetch :: "dl_ctx \<Rightarrow> download_job \<Rightarrow> nat \<Rightarrow> u64 \<Rightarrow> bool \<Rightarrow> fetch_env \<Rightarrow> u8 list ft_op" where
  "run_fetch cx job i k fresh env =
     (let req = chunk_request cx job i k fresh in
      if is_live job then
        bind_st (lift_st (fe_live env)) (\<lambda>c.
        bind_st (emit (DlReport i k (fr_plain req) (of_nat (length c)) (fr_item_name req) (fr_item_size req))) (\<lambda>_.
        lift_st (Ok c)))
      else fetch_chunk req (fe_http env))"

definition authenticate :: "dl_ctx \<Rightarrow> rstr \<Rightarrow> download_job \<Rightarrow> nat \<Rightarrow> u64 \<Rightarrow> u8 list \<Rightarrow> u64 ft_op" where
  "authenticate cx fresh job i k c =
     authenticate_and_write (cx_crypto cx) (cx_decode cx) fresh (st_directory (cx_store cx)) i k (dj_chunk_bytes job)
       (dj_transfer_id job) (dj_items job ! i) (cx_master cx) c (is_live job)"

text \<open>A record that fails to authenticate is removed and fetched once more as a whole.\<close>

definition refetch :: "dl_ctx \<Rightarrow> step_env \<Rightarrow> nat \<Rightarrow> u64 \<Rightarrow> u64 dq_op" where
  "refetch cx env i k s =
     (let job = ds_job s; item = dj_items job ! i; base = st_directory (cx_store cx) in
      bind_st (on_ft (on_fs (ignore (remove_file (cipher_path base i k))))) (\<lambda>_.
      bind_st (on_ft (on_fs (ignore (remove_file (etag_path base i k))))) (\<lambda>_.
      bind_st (on_ft (emit (DlRestart i k (si_name item) (si_size item)))) (\<lambda>_.
      bind_st (on_ft (run_fetch cx job i k True (sv_again env))) (\<lambda>c.
      on_ft (authenticate cx (sv_fresh env 1) job i k c))))) s)"

definition verify_chunk :: "dl_ctx \<Rightarrow> step_env \<Rightarrow> nat \<Rightarrow> u64 \<Rightarrow> u8 list \<Rightarrow> u64 dq_op" where
  "verify_chunk cx env i k c s =
     (case on_ft (authenticate cx (sv_fresh env 0) (ds_job s) i k c) s of
        (Inr n, s') \<Rightarrow> (Ok n, s')
      | (Inl _, s') \<Rightarrow> refetch cx env i k s')"

definition report_turbo :: "step_env \<Rightarrow> unit dq_op" where
  "report_turbo env s =
     (case dj_turbo (ds_job s) of
        None \<Rightarrow> (Ok (), s)
      | Some turbo \<Rightarrow>
          (case checked_add (tb_sequence turbo) 1 of
             None \<Rightarrow> (Err (DlMsg ''Turbo session sequence overflow''), s)
           | Some n \<Rightarrow>
               (case sv_turbo env of
                  Interrupted \<Rightarrow> Err DL_CANCELLED
                | Overdue \<Rightarrow> Err (DlHttp HttpTransport)
                | IoFailed \<Rightarrow> Err (DlHttp HttpTransport)
                | Arrived status \<Rightarrow> if status \<noteq> 204 then Err (DlHttp (HttpStatus status)) else Ok (),
                s\<lparr>ds_job := (ds_job s)\<lparr>dj_turbo := Some (turbo\<lparr>tb_sequence := n\<rparr>)\<rparr>\<rparr>)))"

definition mark_verified :: "nat \<Rightarrow> u64 \<Rightarrow> u64 \<Rightarrow> unit dq_op" where
  "mark_verified i k n s =
     (let job = edit_item i (\<lambda>item. item\<lparr>si_verified := (si_verified item)[unat k := True]\<rparr>) (ds_job s) in
      case checked_add (dj_done job) n of
        None \<Rightarrow> (Err (DlMsg ''download progress overflow''), s\<lparr>ds_job := job\<rparr>)
      | Some finished \<Rightarrow> (Ok (), s\<lparr>ds_job := job\<lparr>dj_done := finished\<rparr>\<rparr>))"

definition show_verified :: "nat \<Rightarrow> u64 \<Rightarrow> u64 \<Rightarrow> unit dq_op" where
  "show_verified i k n s =
     (let item = dj_items (ds_job s) ! i;
          s' = show_progress i (si_name item) (si_size item) 0 (rp_verify i k n (ds_receiving s)) s
      in (Ok (), s'\<lparr>ds_control := control_commit (dj_done (ds_job s)) (ds_control s')\<rparr>))"

definition publish_one :: "dl_ctx \<Rightarrow> step_env \<Rightarrow> nat \<Rightarrow> unit dq_op" where
  "publish_one cx env i s =
     (let item = dj_items (ds_job s) ! i; base = st_directory (cx_store cx) in
      if dj_turbo (ds_job s) = None \<and> \<not> si_published item \<and> list_all id (si_verified item)
      then
        bind_st (dq_phase env FinalizingPhase) (\<lambda>_.
        bind_st (on_ft (publish_item (cx_sha cx) (sv_fresh env 2) base item i)) (\<lambda>_.
        bind_st (edit_job (edit_item i (\<lambda>item. item\<lparr>si_published := True\<rparr>))) (\<lambda>_.
        bind_st (save_job cx) (\<lambda>_.
        on_ft (cleanup_item base i (si_chunk_count item)))))) s
      else (Ok (), s))"

definition pause_job :: "dl_ctx \<Rightarrow> dl_state \<Rightarrow> dl_state" where
  "pause_job cx s = snd (save_job cx (s\<lparr>ds_job := (ds_job s)\<lparr>dj_state := lit ''paused''\<rparr>\<rparr>))"

text \<open>A completed request.\<close>

definition complete_chunk :: "dl_ctx \<Rightarrow> step_env \<Rightarrow> nat \<times> u64 \<Rightarrow> unit dq_op" where
  "complete_chunk cx env ik s =
     (case ik of (i, k) \<Rightarrow>
      case on_ft (run_fetch cx (ds_job s) i k False (sv_first env)) s of
        (r, s1) \<Rightarrow>
          if sv_cancelled env then (Err (DlControl Cancelled), pause_job cx s1)
          else
            case r of
              Inl e \<Rightarrow> (Err e, pause_job cx s1)
            | Inr c \<Rightarrow>
                bind_st (dq_phase env Verifying) (\<lambda>_.
                bind_st (verify_chunk cx env i k c) (\<lambda>n.
                bind_st (mark_verified i k n) (\<lambda>_.
                bind_st (save_job cx) (\<lambda>_.
                bind_st (report_turbo env) (\<lambda>_.
                bind_st (save_job cx) (\<lambda>_.
                bind_st (show_verified i k n) (\<lambda>_.
                publish_one cx env i))))))) s1)"

section \<open>The queue\<close>

definition max_chunks :: "download_job \<Rightarrow> nat" where
  "max_chunks job = foldr max (map (\<lambda>item. unat (si_chunk_count item)) (dj_items job)) 0"

definition wanted :: "download_job \<Rightarrow> nat \<Rightarrow> nat \<Rightarrow> bool" where
  "wanted job i k \<longleftrightarrow>
     (let item = dj_items job ! i in
      selected job item \<and> k < unat (si_chunk_count item) \<and> \<not> si_verified item ! k)"

text \<open>Index-major, so that every file starts promptly.\<close>

definition pending_queue :: "download_job \<Rightarrow> (nat \<times> u64) list" where
  "pending_queue job =
     concat (map (\<lambda>k. map (\<lambda>i. (i, of_nat k)) (filter (\<lambda>i. wanted job i k) [0 ..< length (dj_items job)]))
       [0 ..< max_chunks job])"

definition request_limit :: "dl_ctx \<Rightarrow> dl_state \<Rightarrow> nat" where
  "request_limit cx s = unat (min (ac_current (ds_adaptive s)) (cx_slots cx))"

definition fill :: "dl_ctx \<Rightarrow> dl_state \<Rightarrow> dl_state" where
  "fill cx s =
     (let n = request_limit cx s - length (ds_inflight s) in
      s\<lparr>ds_inflight := ds_inflight s @ take n (ds_pending s), ds_pending := drop n (ds_pending s)\<rparr>)"

definition take_nth :: "nat \<Rightarrow> 'a list \<Rightarrow> 'a list" where
  "take_nth n xs = take n xs @ drop (Suc n) xs"

text \<open>The loop, one environment for each turn; \<open>None\<close> while it still waits. A turn with nothing in flight
  goes around again.\<close>

fun run_queue :: "dl_ctx \<Rightarrow> step_env list \<Rightarrow> dl_state \<Rightarrow> ((unit, dl_error) result \<times> dl_state) option" where
  "run_queue cx envs s =
     (if ds_pending s = [] \<and> ds_inflight s = [] then Some (Ok (), s)
      else
        case envs of
          [] \<Rightarrow> None
        | env # rest \<Rightarrow>
            let s1 = fill cx s in
            if ds_inflight s1 = [] then run_queue cx rest s1
            else
              let n = sv_pick env mod length (ds_inflight s1) in
              case complete_chunk cx env (ds_inflight s1 ! n) (s1\<lparr>ds_inflight := take_nth n (ds_inflight s1)\<rparr>) of
                (Inl e, s2) \<Rightarrow> Some (Err e, s2)
              | (Inr _, s2) \<Rightarrow> run_queue cx rest s2)"

declare run_queue.simps [simp del]

section \<open>Start and end\<close>

definition verified_bytes_of :: "download_job \<Rightarrow> saved_item \<Rightarrow> u64" where
  "verified_bytes_of job item =
     sum_list (map (\<lambda>k. plaintext_len (si_size item) (dj_chunk_bytes job) (of_nat k))
       (filter (\<lambda>k. si_verified item ! k) [0 ..< length (si_verified item)]))"

fun publish_ready :: "dl_ctx \<Rightarrow> step_env \<Rightarrow> nat list \<Rightarrow> unit dq_op" where
  "publish_ready cx env [] = lift_st (Ok ())"
| "publish_ready cx env (i # is) =
     bind_st (\<lambda>s. if selected (ds_job s) (dj_items (ds_job s) ! i) then publish_one cx env i s else (Ok (), s)) (\<lambda>_.
     publish_ready cx env is)"

definition download_slots :: "download_job \<Rightarrow> control \<Rightarrow> u32" where
  "download_slots job c =
     (if is_live job then 1
      else min (concurrency_limit (case set_max_concurrency (ctl_settings c) of None \<Rightarrow> 4 | Some n \<Rightarrow> n)
                 (dj_chunk_bytes job) (set_memory_budget (ctl_settings c)) (dj_server_concurrency job))
               (dj_server_concurrency job))"

text \<open>The state before the queue is filled; \<open>consent\<close> is the answer of the host where it is asked.\<close>

definition start_download :: "download_job \<Rightarrow> fs \<Rightarrow> control \<Rightarrow> dl_state" where
  "start_download job f c =
     \<lparr>ds_fs = f, ds_job = job,
      ds_receiving = rp_new (dj_done job) (map (\<lambda>item. if selected job item then verified_bytes_of job item else 0) (dj_items job)),
      ds_adaptive = adaptive_new (download_slots job c),
      ds_control = control_totals (dj_total job) (length (filter (selected job) (dj_items job))) c,
      ds_pending = [], ds_inflight = []\<rparr>"

definition enqueue :: "dl_state \<Rightarrow> dl_state" where
  "enqueue s = s\<lparr>ds_pending := pending_queue (ds_job s)\<rparr>"

fun bind_items :: "saved_item list \<Rightarrow> manifest_item list \<Rightarrow> (saved_item list, dl_error) result" where
  "bind_items (saved # ss) (fin # ms) =
     (if si_id saved \<noteq> mi_id fin \<or> si_name saved \<noteq> mi_name fin \<or> si_size saved \<noteq> mi_size fin
         \<or> si_nonce_prefix saved \<noteq> mi_nonce_prefix fin \<or> si_chunk_count saved \<noteq> mi_chunk_count fin
      then Err (DlMsg ''final manifest does not bind Turbo descriptor'')
      else and_then (bind_items ss ms) (\<lambda>rest. Ok (saved\<lparr>si_digest := digest_hex (mi_digest fin)\<rparr> # rest)))"
| "bind_items _ _ = Ok []"

text \<open>The end of \<open>finalize_turbo_manifest\<close>, once the final manifest has been opened.\<close>

definition bind_final_manifest ::
  "rstr \<Rightarrow> manifest \<Rightarrow> attached_note option \<Rightarrow> download_job \<Rightarrow> (download_job, dl_error) result" where
  "bind_final_manifest envelope m note_of_descriptor job =
     (if mf_attached_note m \<noteq> note_of_descriptor then Err (DlMsg ''final manifest does not bind Turbo attached note'')
      else if length (mf_items m) \<noteq> length (dj_items job) then Err (DlMsg ''final manifest does not bind Turbo descriptor'')
      else and_then (bind_items (dj_items job) (mf_items m)) (\<lambda>items.
             Ok (job\<lparr>dj_items := items, dj_envelope := envelope\<rparr>)))"

text \<open>After the loop, without Turbo; the targets are returned.\<close>

definition finish_download :: "dl_ctx \<Rightarrow> path list dq_op" where
  "finish_download cx =
     bind_st (edit_job (\<lambda>job. job\<lparr>dj_state := lit ''complete''\<rparr>)) (\<lambda>_.
     bind_st (save_job cx) (\<lambda>_.
     bind_st (on_ft (on_fs (ignore (remove_file (st_directory (cx_store cx) @ [lit ''share-key'']))))) (\<lambda>_ s.
     (Ok (map si_target (filter (selected (ds_job s)) (dj_items (ds_job s)))), s))))"

section \<open>What the parts of a step leave alone\<close>

text \<open>The queue and the durable job, except for its state, its identity and the Turbo sequence.\<close>

definition core :: "dl_state \<Rightarrow> (nat \<times> u64) list \<times> (nat \<times> u64) list \<times> saved_item list \<times> u64 \<times> rstr list option \<times> u64 \<times> bool" where
  "core s = (ds_pending s, ds_inflight s, dj_items (ds_job s), dj_done (ds_job s), dj_selected_item_ids (ds_job s),
     dj_chunk_bytes (ds_job s), dj_turbo (ds_job s) = None)"

definition frames :: "'a dq_op \<Rightarrow> bool" where
  "frames m \<longleftrightarrow> (\<forall>s r s'. m s = (r, s') \<longrightarrow>
     core s' = core s \<and> (adaptive_inv (ds_adaptive s) \<longrightarrow> adaptive_inv (ds_adaptive s')))"

named_theorems frames_intro \<open>operations that leave the queue alone\<close>

lemma framesD: "frames m \<Longrightarrow> m s = (r, s') \<Longrightarrow> core s' = core s \<and> (adaptive_inv (ds_adaptive s) \<longrightarrow> adaptive_inv (ds_adaptive s'))"
  unfolding frames_def by blast

lemma frames_bind [frames_intro]:
  assumes "frames m" "\<And>x. frames (f x)"
  shows "frames (bind_st m f)"
  unfolding frames_def
proof (intro allI impI)
  fix s r s' assume run: "bind_st m f s = (r, s')"
  obtain r1 s1 where m: "m s = (r1, s1)" by force
  show "core s' = core s \<and> (adaptive_inv (ds_adaptive s) \<longrightarrow> adaptive_inv (ds_adaptive s'))"
  proof (cases r1)
    case (Inl e)
    then show ?thesis using run m framesD [OF assms(1) m] by (simp add: bind_st_def)
  next
    case (Inr x)
    then have "f x s1 = (r, s')" using run m by (simp add: bind_st_def)
    then show ?thesis using framesD [OF assms(1) m] framesD [OF assms(2)] by auto
  qed
qed

lemma event_core: "core (apply_dl_event e s) = core s"
  "adaptive_inv (ds_adaptive s) \<Longrightarrow> adaptive_inv (ds_adaptive (apply_dl_event e s))"
  "ds_job (apply_dl_event e s) = ds_job s"
  by (cases e; simp add: core_def show_progress_def split_beta observe_inv split: sum.split)+

lemma events_core: "core (fold apply_dl_event es s) = core s
  \<and> (adaptive_inv (ds_adaptive s) \<longrightarrow> adaptive_inv (ds_adaptive (fold apply_dl_event es s)))
  \<and> ds_job (fold apply_dl_event es s) = ds_job s"
  by (induction es arbitrary: s) (auto simp: event_core)

lemma frames_on_ft [frames_intro]: "frames (on_ft m)"
  unfolding frames_def on_ft_def
proof (intro allI impI)
  fix s r s' assume "(case m \<lparr>ft_fs = ds_fs s, ft_events = []\<rparr> of
        (r, t) \<Rightarrow> (r, fold apply_dl_event (ft_events t) (s\<lparr>ds_fs := ft_fs t\<rparr>))) = (r, s')"
  then obtain es f where "s' = fold apply_dl_event es (s\<lparr>ds_fs := f\<rparr>)" by (auto split: prod.splits)
  then show "core s' = core s \<and> (adaptive_inv (ds_adaptive s) \<longrightarrow> adaptive_inv (ds_adaptive s'))"
    using events_core [of es "s\<lparr>ds_fs := f\<rparr>"] by (simp add: core_def)
qed

lemma frames_simple [frames_intro]:
  "frames (save_job cx)" "frames (dq_phase env p)" "frames (report_turbo env)" "frames (show_verified i k n)"
proof -
  show "frames (dq_phase env p)"
    unfolding frames_def dq_phase_def using event_core by (auto simp del: apply_dl_event.simps split: if_splits)
qed (auto simp: frames_def save_job_def report_turbo_def show_verified_def show_progress_def core_def Let_def
      split: prod.splits option.splits)

text \<open>An operation that reads the state first.\<close>

lemma frames_read: "(\<And>s. frames (m s)) \<Longrightarrow> frames (\<lambda>s. m s s)"
  unfolding frames_def by blast

lemma frames_verify [frames_intro]: "frames (refetch cx env i k)" "frames (verify_chunk cx env i k c)"
proof -
  show r: "frames (refetch cx env i k)"
    unfolding refetch_def Let_def by (rule frames_read) (intro frames_intro)
  show "frames (verify_chunk cx env i k c)"
    unfolding frames_def
  proof (intro allI impI)
    fix s r s' assume run: "verify_chunk cx env i k c s = (r, s')"
    obtain r1 s1 where a: "on_ft (authenticate cx (sv_fresh env 0) (ds_job s) i k c) s = (r1, s1)" by force
    note 1 = framesD [OF frames_on_ft a]
    show "core s' = core s \<and> (adaptive_inv (ds_adaptive s) \<longrightarrow> adaptive_inv (ds_adaptive s'))"
    proof (cases r1)
      case (Inl e)
      then have "refetch cx env i k s1 = (r, s')" using run a by (simp add: verify_chunk_def)
      then show ?thesis using 1 framesD [OF r] by auto
    qed (use run a 1 in \<open>simp add: verify_chunk_def\<close>)
  qed
qed

text \<open>A verified chunk has the length of the layout.\<close>

lemma authenticate_length:
  "authenticate_and_write cr decode fresh base i k chunk_bytes transfer item master c live s = (Inr n, s') \<Longrightarrow>
     n = plaintext_len (si_size item) chunk_bytes k"
  by (auto simp: authenticate_and_write_def bind_st_Inr Let_def split: if_splits)

lemma on_ft_Ok: "on_ft m s = (Inr x, s') \<Longrightarrow> \<exists>t. m \<lparr>ft_fs = ds_fs s, ft_events = []\<rparr> = (Inr x, t)"
  by (auto simp: on_ft_def split: prod.splits)

lemma on_ft_job: "on_ft m s = (r, s') \<Longrightarrow> ds_job s' = ds_job s"
  using events_core by (auto simp: on_ft_def split: prod.splits)

lemma verify_chunk_length:
  assumes "verify_chunk cx env i k c s = (Inr n, s')"
  shows "n = plaintext_len (si_size (dj_items (ds_job s) ! i)) (dj_chunk_bytes (ds_job s)) k"
proof -
  have a: "on_ft (authenticate cx f job i k c) s1 = (Inr n, s2) \<Longrightarrow> n = plaintext_len (si_size (dj_items job ! i)) (dj_chunk_bytes job) k"
    for f job c s1 s2
    by (auto dest!: on_ft_Ok simp: authenticate_def dest: authenticate_length)
  obtain r1 s1 where r: "on_ft (authenticate cx (sv_fresh env 0) (ds_job s) i k c) s = (r1, s1)" by force
  show ?thesis
  proof (cases r1)
    case (Inl e)
    then have "refetch cx env i k s1 = (Inr n, s')" using assms r by (simp add: verify_chunk_def)
    then show ?thesis using a on_ft_job [OF r] by (auto simp: refetch_def Let_def bind_st_Inr)
  next
    case (Inr m)
    then show ?thesis using assms r a [of "sv_fresh env 0" "ds_job s" c s s1] by (simp add: verify_chunk_def)
  qed
qed

text \<open>A successful completion: one chunk is verified, its bytes are counted, the queue is untouched,
  and the file is published once it is complete.\<close>

definition with_chunk :: "nat \<Rightarrow> u64 \<Rightarrow> bool \<Rightarrow> saved_item list \<Rightarrow> saved_item list" where
  "with_chunk i k published items =
     items[i := (items ! i)\<lparr>si_verified := (si_verified (items ! i))[unat k := True], si_published := published\<rparr>]"

lemma publish_one_Ok:
  assumes "publish_one cx env i s = (Inr x, s')" "i < length (dj_items (ds_job s))"
  shows "\<exists>b. core s' = (ds_pending s, ds_inflight s, (dj_items (ds_job s))[i := (dj_items (ds_job s) ! i)\<lparr>si_published := b\<rparr>],
        dj_done (ds_job s), dj_selected_item_ids (ds_job s), dj_chunk_bytes (ds_job s), dj_turbo (ds_job s) = None)
      \<and> (dj_turbo (ds_job s) = None \<longrightarrow> list_all id (si_verified (dj_items (ds_job s) ! i)) \<longrightarrow> b)
      \<and> (adaptive_inv (ds_adaptive s) \<longrightarrow> adaptive_inv (ds_adaptive s')) \<and> (si_published (dj_items (ds_job s) ! i) \<longrightarrow> b)"
proof (cases "dj_turbo (ds_job s) = None \<and> \<not> si_published (dj_items (ds_job s) ! i) \<and> list_all id (si_verified (dj_items (ds_job s) ! i))")
  case False
  then show ?thesis using assms
    by (intro exI [of _ "si_published (dj_items (ds_job s) ! i)"]) (auto simp: publish_one_def core_def Let_def)
next
  case True
  let ?item = "dj_items (ds_job s) ! i" and ?base = "st_directory (cx_store cx)"
  obtain s1 s2 s3 s4 where run: "dq_phase env FinalizingPhase s = (Inr (), s1)"
      "on_ft (publish_item (cx_sha cx) (sv_fresh env 2) ?base ?item i) s1 = (Inr (), s2)"
      "edit_job (edit_item i (\<lambda>item. item\<lparr>si_published := True\<rparr>)) s2 = (Inr (), s3)"
      "save_job cx s3 = (Inr (), s4)" "on_ft (cleanup_item ?base i (si_chunk_count ?item)) s4 = (Inr x, s')"
    using assms(1) True by (auto simp: publish_one_def Let_def bind_st_Inr)
  have s2: "core s2 = core s" "adaptive_inv (ds_adaptive s) \<longrightarrow> adaptive_inv (ds_adaptive s2)"
    using framesD [OF frames_simple(2) run(1)] framesD [OF frames_on_ft run(2)] by auto
  have s3: "core s' = core s3" "adaptive_inv (ds_adaptive s3) \<longrightarrow> adaptive_inv (ds_adaptive s')"
    using framesD [OF frames_simple(1) run(4)] framesD [OF frames_on_ft run(5)] by auto
  have "ds_adaptive s3 = ds_adaptive s2" "core s3 = (ds_pending s, ds_inflight s, (dj_items (ds_job s))[i := ?item\<lparr>si_published := True\<rparr>],
        dj_done (ds_job s), dj_selected_item_ids (ds_job s), dj_chunk_bytes (ds_job s), dj_turbo (ds_job s) = None)"
    using run(3) s2(1) by (auto simp: edit_job_def edit_item_def core_def)
  then show ?thesis using s2(2) s3 by (intro exI [of _ True]) simp
qed

lemma complete_chunk_Ok:
  assumes "complete_chunk cx env (i, k) s = (Inr x, s')" "i < length (dj_items (ds_job s))"
  shows "\<exists>b n. checked_add (dj_done (ds_job s)) (plaintext_len (si_size (dj_items (ds_job s) ! i)) (dj_chunk_bytes (ds_job s)) k) = Some n
      \<and> core s' = (ds_pending s, ds_inflight s, with_chunk i k b (dj_items (ds_job s)), n,
        dj_selected_item_ids (ds_job s), dj_chunk_bytes (ds_job s), dj_turbo (ds_job s) = None)
      \<and> (dj_turbo (ds_job s) = None \<longrightarrow> list_all id ((si_verified (dj_items (ds_job s) ! i))[unat k := True]) \<longrightarrow> b)
      \<and> (adaptive_inv (ds_adaptive s) \<longrightarrow> adaptive_inv (ds_adaptive s'))"
proof -
  obtain r s1 where f: "on_ft (run_fetch cx (ds_job s) i k False (sv_first env)) s = (r, s1)" by force
  obtain c where c: "r = Inr c" "\<not> sv_cancelled env"
    using assms(1) f by (auto simp: complete_chunk_def split: if_splits sum.splits)
  obtain s2 n s3 s4 s5 s6 s7 s8 where run: "dq_phase env Verifying s1 = (Inr (), s2)"
      "verify_chunk cx env i k c s2 = (Inr n, s3)" "mark_verified i k n s3 = (Inr (), s4)"
      "save_job cx s4 = (Inr (), s5)" "report_turbo env s5 = (Inr (), s6)" "save_job cx s6 = (Inr (), s7)"
      "show_verified i k n s7 = (Inr (), s8)" "publish_one cx env i s8 = (Inr x, s')"
    using assms(1) f c by (auto simp: complete_chunk_def bind_st_Inr)
  have 1: "core s3 = core s" "core s2 = core s" "adaptive_inv (ds_adaptive s) \<longrightarrow> adaptive_inv (ds_adaptive s3)"
    using framesD [OF frames_on_ft f] framesD [OF frames_simple(2) run(1)] framesD [OF frames_verify(2) run(2)] by auto
  have 2: "core s8 = core s4" "adaptive_inv (ds_adaptive s4) \<longrightarrow> adaptive_inv (ds_adaptive s8)"
    using framesD [OF frames_simple(1) run(4)] framesD [OF frames_simple(3) run(5)] framesD [OF frames_simple(1) run(6)]
      framesD [OF frames_simple(4) run(7)] by auto
  have n: "n = plaintext_len (si_size (dj_items (ds_job s) ! i)) (dj_chunk_bytes (ds_job s)) k"
    using verify_chunk_length [OF run(2)] 1(2) by (simp add: core_def)
  obtain d where d: "checked_add (dj_done (ds_job s)) n = Some d"
      "core s4 = (ds_pending s, ds_inflight s,
        (dj_items (ds_job s))[i := (dj_items (ds_job s) ! i)\<lparr>si_verified := (si_verified (dj_items (ds_job s) ! i))[unat k := True]\<rparr>],
        d, dj_selected_item_ids (ds_job s), dj_chunk_bytes (ds_job s), dj_turbo (ds_job s) = None)"
      "ds_adaptive s4 = ds_adaptive s3"
    using run(3) 1(1) by (auto simp: mark_verified_def edit_item_def core_def Let_def split: option.splits)
  have len: "i < length (dj_items (ds_job s8))" using assms(2) 2(1) d(2) by (simp add: core_def)
  from publish_one_Ok [OF run(8) len] show ?thesis
    using 1 2 d n assms(2) by (auto simp: core_def with_chunk_def)
qed

section \<open>The queue holds exactly what is missing\<close>

definition missing :: "download_job \<Rightarrow> (nat \<times> u64) set" where
  "missing job = {(i, k). i < length (dj_items job) \<and> wanted job i (unat k)}"

text \<open>The bytes of the chunks of the selected items that are verified.\<close>

definition item_bytes :: "u64 \<Rightarrow> saved_item \<Rightarrow> nat" where
  "item_bytes chunk_bytes item =
     (\<Sum>k < length (si_verified item). if si_verified item ! k then unat (plaintext_len (si_size item) chunk_bytes (of_nat k)) else 0)"

definition job_bytes :: "download_job \<Rightarrow> nat" where
  "job_bytes job = (\<Sum>i < length (dj_items job). if selected job (dj_items job ! i) then item_bytes (dj_chunk_bytes job) (dj_items job ! i) else 0)"

definition layout_ok :: "download_job \<Rightarrow> bool" where
  "layout_ok job \<longleftrightarrow> list_all (\<lambda>item. length (si_verified item) = unat (si_chunk_count item)) (dj_items job)"

definition published_ok :: "download_job \<Rightarrow> bool" where
  "published_ok job \<longleftrightarrow>
     (dj_turbo job = None \<longrightarrow> list_all (\<lambda>item. selected job item \<longrightarrow> list_all id (si_verified item) \<longrightarrow> si_published item) (dj_items job))"

definition queue_inv :: "dl_state \<Rightarrow> bool" where
  "queue_inv s \<longleftrightarrow>
     layout_ok (ds_job s) \<and> distinct (ds_pending s @ ds_inflight s)
     \<and> set (ds_pending s @ ds_inflight s) = missing (ds_job s)
     \<and> unat (dj_done (ds_job s)) = job_bytes (ds_job s)
     \<and> published_ok (ds_job s) \<and> adaptive_inv (ds_adaptive s)"

lemma selected_update:
  "selected (job\<lparr>dj_items := items\<rparr>) item = selected job item"
  "selected job (item\<lparr>si_verified := v\<rparr>) = selected job item" "selected job (item\<lparr>si_published := b\<rparr>) = selected job item"
  by (simp_all add: selected_def split: option.split)

text \<open>Verifying a missing chunk removes it from what is missing and adds its bytes.\<close>

lemma item_bytes_step:
  assumes "k < length (si_verified item)" "\<not> si_verified item ! k"
  shows "item_bytes cb (item\<lparr>si_verified := (si_verified item)[k := True], si_published := b\<rparr>)
    = item_bytes cb item + unat (plaintext_len (si_size item) cb (of_nat k))"
proof -
  let ?g = "\<lambda>v j. if v ! j then unat (plaintext_len (si_size item) cb (of_nat j)) else 0"
  have "(\<Sum>j < length (si_verified item). ?g ((si_verified item)[k := True]) j)
      = (\<Sum>j < length (si_verified item). ?g (si_verified item) j + (if j = k then unat (plaintext_len (si_size item) cb (of_nat k)) else 0))"
    using assms by (intro sum.cong) (auto simp: nth_list_update)
  also have "\<dots> = (\<Sum>j < length (si_verified item). ?g (si_verified item) j) + unat (plaintext_len (si_size item) cb (of_nat k))"
    using assms(1) by (simp add: sum.distrib)
  finally show ?thesis by (simp add: item_bytes_def cong: if_cong)
qed

text \<open>The job after the chunk is marked, up to fields the queue does not look at.\<close>

lemma core_job:
  assumes "core s' = (p, q, items, d, ids, cb, t)" "core s = (p', q', items', d', ids, cb, t)"
  shows "selected (ds_job s') = selected (ds_job s)"
  using assms by (auto simp: core_def selected_def fun_eq_iff)

lemma job_bytes_update:
  assumes items: "dj_items job' = (dj_items job)[i := new]" and sel: "selected job' = selected job"
    and c: "dj_chunk_bytes job' = dj_chunk_bytes job" and i: "i < length (dj_items job)" and w: "selected job (dj_items job ! i)"
    and seln: "selected job new = selected job (dj_items job ! i)"
    and step: "item_bytes (dj_chunk_bytes job) new = item_bytes (dj_chunk_bytes job) (dj_items job ! i) + n"
  shows "job_bytes job' = job_bytes job + n"
proof -
  let ?g = "\<lambda>x. if selected job x then item_bytes (dj_chunk_bytes job) x else 0"
  have "job_bytes job' = (\<Sum>j < length (dj_items job). ?g ((dj_items job)[i := new] ! j))"
    by (simp add: job_bytes_def items sel c cong: if_cong)
  also have "\<dots> = (\<Sum>j < length (dj_items job). ?g (dj_items job ! j) + (if j = i then n else 0))"
    using i w step seln by (intro sum.cong) (auto simp: nth_list_update)
  also have "\<dots> = job_bytes job + n"
    using i by (simp add: sum.distrib job_bytes_def)
  finally show ?thesis .
qed

lemma mark_step:
  assumes c: "core s' = (ds_pending s, ds_inflight s, with_chunk i k b (dj_items (ds_job s)), n,
      dj_selected_item_ids (ds_job s), dj_chunk_bytes (ds_job s), dj_turbo (ds_job s) = None)"
    and n: "checked_add (dj_done (ds_job s)) (plaintext_len (si_size (dj_items (ds_job s) ! i)) (dj_chunk_bytes (ds_job s)) k) = Some n"
    and b: "dj_turbo (ds_job s) = None \<longrightarrow> list_all id ((si_verified (dj_items (ds_job s) ! i))[unat k := True]) \<longrightarrow> b"
    and m: "(i, k) \<in> missing (ds_job s)" and l: "layout_ok (ds_job s)" and p: "published_ok (ds_job s)"
    and d: "unat (dj_done (ds_job s)) = job_bytes (ds_job s)"
  shows "layout_ok (ds_job s')" "missing (ds_job s') = missing (ds_job s) - {(i, k)}"
    "unat (dj_done (ds_job s')) = job_bytes (ds_job s')" "published_ok (ds_job s')"
proof -
  let ?job = "ds_job s" and ?job' = "ds_job s'"
  let ?items = "dj_items ?job" and ?item = "dj_items ?job ! i"
  let ?new = "?item\<lparr>si_verified := (si_verified ?item)[unat k := True], si_published := b\<rparr>"
  have items: "dj_items ?job' = ?items[i := ?new]" and sel: "selected ?job' = selected ?job"
    and other: "dj_chunk_bytes ?job' = dj_chunk_bytes ?job" "dj_done ?job' = n" "(dj_turbo ?job' = None) = (dj_turbo ?job = None)"
    using c by (auto simp: core_def with_chunk_def selected_def fun_eq_iff)
  have i: "i < length ?items" and w: "selected ?job ?item" "unat k < unat (si_chunk_count ?item)" "\<not> si_verified ?item ! unat k"
    using m by (auto simp: missing_def wanted_def Let_def)
  have len: "length (si_verified ?item) = unat (si_chunk_count ?item)" using l i by (simp add: layout_ok_def list_all_length)
  show "layout_ok ?job'"
    using l i by (auto simp: layout_ok_def items list_all_length nth_list_update)
  have seln: "selected ?job ?new = selected ?job ?item" by (simp add: selected_update)
  show "missing ?job' = missing ?job - {(i, k)}"
    using i w len by (auto simp: missing_def wanted_def Let_def items sel nth_list_update seln selected_update
        simp del: not_less split: if_splits) (simp add: word_unat_eq_iff)
  have "unat n = unat (dj_done ?job) + unat (plaintext_len (si_size ?item) (dj_chunk_bytes ?job) k)"
    using n by (auto simp: checked_add_def unat_word_ariths split: if_splits)
  moreover have "job_bytes ?job' = job_bytes ?job + unat (plaintext_len (si_size ?item) (dj_chunk_bytes ?job) k)"
    using i w len item_bytes_step [of "unat k" ?item "dj_chunk_bytes ?job" b]
    by (intro job_bytes_update [OF items sel other(1) i w(1) seln]) simp
  ultimately show "unat (dj_done ?job') = job_bytes ?job'" using d other(2) by simp
  show "published_ok ?job'"
    using p b i by (auto simp: published_ok_def items sel other(3) list_all_length nth_list_update seln)
qed

lemma take_nth_props:
  assumes "n < length xs"
  shows "xs ! n \<in> set xs" "distinct (ys @ xs) \<Longrightarrow> distinct (ys @ take_nth n xs)"
    "distinct (ys @ xs) \<Longrightarrow> set (ys @ take_nth n xs) = set (ys @ xs) - {xs ! n}" "length (take_nth n xs) = length xs - 1"
proof -
  have x: "xs = take n xs @ xs ! n # drop (Suc n) xs" using assms by (rule id_take_nth_drop)
  show "xs ! n \<in> set xs" using assms by simp
  show "length (take_nth n xs) = length xs - 1" using assms by (simp add: take_nth_def)
  assume "distinct (ys @ xs)"
  then have d: "distinct (ys @ take n xs @ xs ! n # drop (Suc n) xs)" using x by simp
  then show "distinct (ys @ take_nth n xs)" by (simp add: take_nth_def)
  have "set (ys @ xs) = set (ys @ take n xs @ xs ! n # drop (Suc n) xs)" using x by simp
  also have "\<dots> = insert (xs ! n) (set (ys @ take_nth n xs))" by (auto simp: take_nth_def)
  finally show "set (ys @ take_nth n xs) = set (ys @ xs) - {xs ! n}" using d by (auto simp: take_nth_def)
qed

lemma fill_inv: "queue_inv s \<Longrightarrow> queue_inv (fill cx s)"
proof -
  assume "queue_inv s"
  moreover have "mset (ds_pending (fill cx s) @ ds_inflight (fill cx s)) = mset (ds_pending s @ ds_inflight s)"
    by (simp add: fill_def Let_def) (metis append_take_drop_id mset_append union_commute)
  moreover from this have "distinct (ds_pending (fill cx s) @ ds_inflight (fill cx s)) = distinct (ds_pending s @ ds_inflight s)"
    "set (ds_pending (fill cx s) @ ds_inflight (fill cx s)) = set (ds_pending s @ ds_inflight s)"
    by (metis mset_eq_imp_distinct_iff, metis mset_eq_setD)
  ultimately show ?thesis by (simp add: queue_inv_def) (simp add: fill_def Let_def)
qed

lemma complete_inv:
  assumes inv: "queue_inv s" and n: "n < length (ds_inflight s)"
    and run: "complete_chunk cx env (ds_inflight s ! n) (s\<lparr>ds_inflight := take_nth n (ds_inflight s)\<rparr>) = (Inr x, s')"
  shows "queue_inv s' \<and> card (missing (ds_job s')) = card (missing (ds_job s)) - 1 \<and> 0 < card (missing (ds_job s))
    \<and> ds_pending s' = ds_pending s \<and> length (ds_inflight s') = length (ds_inflight s) - 1"
proof -
  obtain i k where ik: "ds_inflight s ! n = (i, k)" by force
  let ?s = "s\<lparr>ds_inflight := take_nth n (ds_inflight s)\<rparr>"
  have q: "layout_ok (ds_job s)" "distinct (ds_pending s @ ds_inflight s)" "set (ds_pending s @ ds_inflight s) = missing (ds_job s)"
      "unat (dj_done (ds_job s)) = job_bytes (ds_job s)" "published_ok (ds_job s)" "adaptive_inv (ds_adaptive s)"
    using inv by (simp_all add: queue_inv_def)
  have m: "(i, k) \<in> missing (ds_job s)" using take_nth_props(1) [OF n] q(3) ik by auto
  then have i: "i < length (dj_items (ds_job ?s))" by (simp add: missing_def)
  obtain b d where o: "checked_add (dj_done (ds_job s)) (plaintext_len (si_size (dj_items (ds_job s) ! i)) (dj_chunk_bytes (ds_job s)) k) = Some d"
      "core s' = (ds_pending s, take_nth n (ds_inflight s), with_chunk i k b (dj_items (ds_job s)), d,
        dj_selected_item_ids (ds_job s), dj_chunk_bytes (ds_job s), dj_turbo (ds_job s) = None)"
      "dj_turbo (ds_job s) = None \<longrightarrow> list_all id ((si_verified (dj_items (ds_job s) ! i))[unat k := True]) \<longrightarrow> b"
      "adaptive_inv (ds_adaptive s')"
    using complete_chunk_Ok [OF run [unfolded ik] i] q(6) by auto
  note st = mark_step [where s = ?s and s' = s' and i = i and k = k and b = b and n = d, simplified, OF o(2,1,3) m q(1,5,4)]
  have c: "ds_pending s' = ds_pending s" "ds_inflight s' = take_nth n (ds_inflight s)" using o(2) by (simp_all add: core_def)
  have fin: "finite (missing (ds_job s))" using q(3) by (metis finite_set)
  have "queue_inv s'"
    using st o(4) take_nth_props(2,3) [OF n q(2)] ik q(3) c by (auto simp: queue_inv_def)
  then show ?thesis
    using st(2) m fin c take_nth_props(4) [OF n] by (auto simp: card_gt_0_iff)
qed

section \<open>The loop ends with every selected file verified and published\<close>

lemma missing_card: "queue_inv s \<Longrightarrow> card (missing (ds_job s)) = length (ds_pending s) + length (ds_inflight s)"
  unfolding queue_inv_def by (metis distinct_card length_append)

lemma request_limit_pos: "adaptive_inv (ds_adaptive s) \<Longrightarrow> 0 < cx_slots cx \<Longrightarrow> 0 < request_limit cx s"
  by (auto simp: request_limit_def adaptive_inv_def limit_ok_def min_def word_less_nat_alt word_le_nat_alt unat_gt_0)

lemma fill_busy:
  assumes "queue_inv s" "0 < cx_slots cx" "ds_pending s \<noteq> [] \<or> ds_inflight s \<noteq> []"
  shows "ds_inflight (fill cx s) \<noteq> []"
  using assms request_limit_pos [of s cx] by (cases "ds_inflight s") (auto simp: fill_def Let_def queue_inv_def)

text \<open>What never changes: the items but for their two progress fields, the selection, the layout.\<close>

definition bare :: "saved_item \<Rightarrow> saved_item" where
  "bare item = item\<lparr>si_verified := [], si_published := False\<rparr>"

definition static_part :: "download_job \<Rightarrow> saved_item list \<times> rstr list option \<times> u64 \<times> bool" where
  "static_part job = (map bare (dj_items job), dj_selected_item_ids job, dj_chunk_bytes job, dj_turbo job = None)"

lemma static_update: "map bare (items[i := (items ! i)\<lparr>si_verified := v, si_published := b\<rparr>]) = map bare items"
  "map bare (items[i := (items ! i)\<lparr>si_published := b\<rparr>]) = map bare items"
  by (cases "i < length items"; (intro nth_equalityI)?; simp add: nth_list_update bare_def)+

lemma complete_static:
  assumes "complete_chunk cx env (i, k) s = (Inr x, s')" "i < length (dj_items (ds_job s))"
  shows "static_part (ds_job s') = static_part (ds_job s)"
proof -
  obtain b n where "core s' = (ds_pending s, ds_inflight s, with_chunk i k b (dj_items (ds_job s)), n,
        dj_selected_item_ids (ds_job s), dj_chunk_bytes (ds_job s), dj_turbo (ds_job s) = None)"
    using complete_chunk_Ok [OF assms] by blast
  then show ?thesis by (simp add: core_def static_part_def with_chunk_def static_update)
qed

lemma run_queue_ends:
  assumes "queue_inv s" "0 < cx_slots cx" "card (missing (ds_job s)) \<le> length envs"
  shows "\<exists>r s'. run_queue cx envs s = Some (r, s') \<and> (case r of
      Inr _ \<Rightarrow> queue_inv s' \<and> missing (ds_job s') = {} \<and> static_part (ds_job s') = static_part (ds_job s)
    | Inl _ \<Rightarrow> True)"
  using assms(1,3)
proof (induction envs arbitrary: s)
  case Nil
  then have "missing (ds_job s) = {}" by (simp add: queue_inv_def) (metis card_0_eq finite_set finite_Un)
  moreover from this have "ds_pending s = []" "ds_inflight s = []" using Nil(1) by (auto simp: queue_inv_def)
  ultimately show ?case using Nil by (simp add: run_queue.simps)
next
  case (Cons env envs)
  show ?case
  proof (cases "ds_pending s = [] \<and> ds_inflight s = []")
    case True
    then have "missing (ds_job s) = {}" using Cons.prems(1) by (simp add: queue_inv_def)
    then show ?thesis using True Cons.prems(1) by (simp add: run_queue.simps)
  next
    case False
    let ?s = "fill cx s" and ?n = "sv_pick env mod length (ds_inflight (fill cx s))"
    have busy: "ds_inflight ?s \<noteq> []" using fill_busy [OF Cons.prems(1) assms(2)] False by blast
    have inv: "queue_inv ?s" using Cons.prems(1) by (rule fill_inv)
    have n: "?n < length (ds_inflight ?s)" using busy by simp
    have job: "ds_job ?s = ds_job s" by (simp add: fill_def Let_def)
    obtain r s2 where run: "complete_chunk cx env (ds_inflight ?s ! ?n) (?s\<lparr>ds_inflight := take_nth ?n (ds_inflight ?s)\<rparr>) = (r, s2)"
      by force
    have step: "run_queue cx (env # envs) s = (case r of Inl e \<Rightarrow> Some (Err e, s2) | Inr _ \<Rightarrow> run_queue cx envs s2)"
      using False busy run by (subst run_queue.simps) (auto simp: Let_def split: sum.split)
    show ?thesis
    proof (cases r)
      case (Inl e)
      then show ?thesis using step by simp
    next
      case (Inr x)
      note ended = complete_inv [OF inv n run [unfolded Inr]]
      then have "card (missing (ds_job s2)) \<le> length envs" using Cons.prems(2) job by simp
      moreover have "queue_inv s2" using ended by blast
      moreover have st: "static_part (ds_job s2) = static_part (ds_job s)"
      proof -
        obtain i k where ik: "ds_inflight ?s ! ?n = (i, k)" by force
        have "(i, k) \<in> missing (ds_job ?s)" using inv n ik by (auto simp: queue_inv_def dest!: nth_mem)
        then have "i < length (dj_items (ds_job ?s))" by (simp add: missing_def)
        then show ?thesis
          using complete_static [of cx env i k "?s\<lparr>ds_inflight := take_nth ?n (ds_inflight ?s)\<rparr>" x s2] run Inr ik job by simp
      qed
      ultimately show ?thesis using Cons.IH [of s2, unfolded st] step Inr by simp
    qed
  qed
qed

text \<open>Filling the queue, and publishing what was already complete.\<close>

lemma max_chunks_ge: "i < length (dj_items job) \<Longrightarrow> unat (si_chunk_count (dj_items job ! i)) \<le> max_chunks job"
proof -
  have "x \<in> set xs \<Longrightarrow> x \<le> foldr max xs 0" for x and xs :: "nat list" by (induction xs) auto
  then show "i < length (dj_items job) \<Longrightarrow> unat (si_chunk_count (dj_items job ! i)) \<le> max_chunks job"
    by (simp add: max_chunks_def)
qed

lemma wanted_bound: "i < length (dj_items job) \<Longrightarrow> wanted job i k \<Longrightarrow> k < max_chunks job \<and> k < 2 ^ 64"
  using max_chunks_ge [of i job] unat_less_2p [of "si_chunk_count (dj_items job ! i)"] by (auto simp: wanted_def Let_def)

lemma pending_queue_set: "set (pending_queue job) = missing job"
proof (intro set_eqI iffI; clarify)
  fix i k assume "(i, k) \<in> set (pending_queue job)"
  then obtain n where n: "k = of_nat n" "wanted job i n" "i < length (dj_items job)" by (auto simp: pending_queue_def)
  then have "unat k = n" using wanted_bound [OF n(3,2)] by (simp add: unat_of_nat_less)
  then show "(i, k) \<in> missing job" using n by (simp add: missing_def)
next
  fix i k assume "(i, k) \<in> missing job"
  then have "i < length (dj_items job)" "wanted job i (unat k)" by (simp_all add: missing_def)
  then show "(i, k) \<in> set (pending_queue job)"
    using wanted_bound [of i job "unat k"] by (auto simp: pending_queue_def intro!: bexI [of _ "unat k"] image_eqI [of _ _ i])
qed

lemma distinct_rows:
  assumes "\<And>k. k \<in> set ks \<Longrightarrow> distinct (f k)" "distinct ks"
    and "\<And>k k' x. k \<in> set ks \<Longrightarrow> k' \<in> set ks \<Longrightarrow> x \<in> set (f k) \<Longrightarrow> x \<in> set (f k') \<Longrightarrow> k = k'"
  shows "distinct (concat (map f ks))"
  using assms by (induction ks) (simp_all, blast)

lemma of_nat_u64_inj:
  assumes "(of_nat k :: u64) = of_nat k'" "k < 2 ^ 64" "k' < 2 ^ 64"
  shows "k = k'"
proof -
  have "unat (of_nat k :: u64) = k" "unat (of_nat k' :: u64) = k'" using assms(2,3) by (simp_all add: unat_of_nat_less)
  then show ?thesis using assms(1) by argo
qed

lemma pending_queue_distinct: "distinct (pending_queue job)"
  unfolding pending_queue_def
proof (rule distinct_rows)
  fix k k' x
  assume "x \<in> set (map (\<lambda>i. (i, of_nat k :: u64)) (filter (\<lambda>i. wanted job i k) [0..<length (dj_items job)]))"
    "x \<in> set (map (\<lambda>i. (i, of_nat k' :: u64)) (filter (\<lambda>i. wanted job i k') [0..<length (dj_items job)]))"
  then obtain i where "i < length (dj_items job)" "wanted job i k" "wanted job i k'" "of_nat k = (of_nat k' :: u64)" by auto
  then show "k = k'" using of_nat_u64_inj [of k k'] wanted_bound [of i job k] wanted_bound [of i job k'] by blast
qed (auto simp: distinct_map inj_on_def)

lemma verified_update: "i < length items \<Longrightarrow> map si_verified (items[i := (items ! i)\<lparr>si_published := b\<rparr>]) = map si_verified items"
  by (rule nth_equalityI) (simp_all add: nth_list_update)

lemma publish_one_static:
  assumes "publish_one cx env i s = (Inr x, s')" "i < length (dj_items (ds_job s))"
  shows "static_part (ds_job s') = static_part (ds_job s)"
    "map si_verified (dj_items (ds_job s')) = map si_verified (dj_items (ds_job s))"
    "dj_done (ds_job s') = dj_done (ds_job s)"
    "j < length (dj_items (ds_job s)) \<Longrightarrow> j \<noteq> i \<Longrightarrow> dj_items (ds_job s') ! j = dj_items (ds_job s) ! j"
    "dj_turbo (ds_job s) = None \<Longrightarrow> list_all id (si_verified (dj_items (ds_job s) ! i)) \<Longrightarrow> si_published (dj_items (ds_job s') ! i)"
    "adaptive_inv (ds_adaptive s) \<Longrightarrow> adaptive_inv (ds_adaptive s')"
    "si_published (dj_items (ds_job s) ! i) \<Longrightarrow> si_published (dj_items (ds_job s') ! i)"
proof -
  obtain b where b: "core s' = (ds_pending s, ds_inflight s, (dj_items (ds_job s))[i := (dj_items (ds_job s) ! i)\<lparr>si_published := b\<rparr>],
        dj_done (ds_job s), dj_selected_item_ids (ds_job s), dj_chunk_bytes (ds_job s), dj_turbo (ds_job s) = None)"
      "dj_turbo (ds_job s) = None \<longrightarrow> list_all id (si_verified (dj_items (ds_job s) ! i)) \<longrightarrow> b"
      "adaptive_inv (ds_adaptive s) \<longrightarrow> adaptive_inv (ds_adaptive s')" "si_published (dj_items (ds_job s) ! i) \<longrightarrow> b"
    using publish_one_Ok [OF assms] by (elim exE conjE)
  from b(1) have c: "dj_items (ds_job s') = (dj_items (ds_job s))[i := (dj_items (ds_job s) ! i)\<lparr>si_published := b\<rparr>]"
      "dj_done (ds_job s') = dj_done (ds_job s)" "dj_selected_item_ids (ds_job s') = dj_selected_item_ids (ds_job s)"
      "dj_chunk_bytes (ds_job s') = dj_chunk_bytes (ds_job s)" "(dj_turbo (ds_job s') = None) = (dj_turbo (ds_job s) = None)"
    by (simp_all only: core_def prod.inject)
  show "static_part (ds_job s') = static_part (ds_job s)" unfolding static_part_def c static_update ..
  show "map si_verified (dj_items (ds_job s')) = map si_verified (dj_items (ds_job s))" "dj_done (ds_job s') = dj_done (ds_job s)"
    unfolding c verified_update [OF assms(2)] by (rule refl)+
  show "dj_items (ds_job s') ! j = dj_items (ds_job s) ! j" if "j < length (dj_items (ds_job s))" "j \<noteq> i"
    unfolding c using that by simp
  show "si_published (dj_items (ds_job s') ! i)"
    if "dj_turbo (ds_job s) = None" "list_all id (si_verified (dj_items (ds_job s) ! i))"
    unfolding c using b(2) that assms(2) by simp
  show "adaptive_inv (ds_adaptive s) \<Longrightarrow> adaptive_inv (ds_adaptive s')" using b(3) by blast
  show "si_published (dj_items (ds_job s') ! i)" if "si_published (dj_items (ds_job s) ! i)"
    unfolding c using b(4) that assms(2) by simp
qed

lemma static_items:
  assumes "static_part job' = static_part job"
  shows "length (dj_items job') = length (dj_items job)" "selected job' = selected job" "dj_chunk_bytes job' = dj_chunk_bytes job"
    "(dj_turbo job' = None) = (dj_turbo job = None)"
    "i < length (dj_items job) \<Longrightarrow> bare (dj_items job' ! i) = bare (dj_items job ! i)"
proof -
  have s: "map bare (dj_items job') = map bare (dj_items job)" "dj_selected_item_ids job' = dj_selected_item_ids job"
    "dj_chunk_bytes job' = dj_chunk_bytes job" "(dj_turbo job' = None) = (dj_turbo job = None)"
    using assms unfolding static_part_def prod.inject by simp_all
  show l: "length (dj_items job') = length (dj_items job)" using s(1) by (metis length_map)
  show "selected job' = selected job" unfolding selected_def fun_eq_iff s(2) by simp
  show "dj_chunk_bytes job' = dj_chunk_bytes job" "(dj_turbo job' = None) = (dj_turbo job = None)" using s by simp_all
  show "i < length (dj_items job) \<Longrightarrow> bare (dj_items job' ! i) = bare (dj_items job ! i)"
    using s(1) l by (metis nth_map)
qed

lemma bare_eq: "bare a = bare b \<Longrightarrow> si_id a = si_id b \<and> si_size a = si_size b \<and> si_chunk_count a = si_chunk_count b \<and> si_target a = si_target b"
  by (cases a; cases b; simp add: bare_def)

lemma selected_bare: "selected job (bare a) = selected job a"
  by (simp add: selected_def bare_def split: option.split)

text \<open>Publishing only sets publication flags, and sets them for every complete selected file it visits.\<close>

definition only_published :: "dl_state \<Rightarrow> dl_state \<Rightarrow> bool" where
  "only_published s s' \<longleftrightarrow> static_part (ds_job s') = static_part (ds_job s)
    \<and> map si_verified (dj_items (ds_job s')) = map si_verified (dj_items (ds_job s))
    \<and> dj_done (ds_job s') = dj_done (ds_job s)
    \<and> (adaptive_inv (ds_adaptive s) \<longrightarrow> adaptive_inv (ds_adaptive s'))
    \<and> (\<forall>j < length (dj_items (ds_job s)). si_published (dj_items (ds_job s) ! j) \<longrightarrow> si_published (dj_items (ds_job s') ! j))"

lemma only_published_refl: "only_published s s"
  by (simp add: only_published_def)

lemma only_published_trans:
  assumes "only_published s s1" "only_published s1 s2"
  shows "only_published s s2"
proof -
  have "length (dj_items (ds_job s1)) = length (dj_items (ds_job s))"
    using assms(1) static_items(1) unfolding only_published_def by blast
  then show ?thesis using assms unfolding only_published_def by simp
qed

lemma publish_one_only:
  assumes "publish_one cx env i s = (Inr x, s')" "i < length (dj_items (ds_job s))"
  shows "only_published s s'"
proof -
  note o = publish_one_static [OF assms]
  have "si_published (dj_items (ds_job s') ! j)" if "j < length (dj_items (ds_job s))" "si_published (dj_items (ds_job s) ! j)" for j
    using o(4) [of j] o(7) that by (cases "j = i") simp_all
  then show ?thesis unfolding only_published_def using o(1,2,3,6) by blast
qed

lemma only_published_verified:
  assumes "only_published s s'" "j < length (dj_items (ds_job s))"
  shows "si_verified (dj_items (ds_job s') ! j) = si_verified (dj_items (ds_job s) ! j)"
    "selected (ds_job s') (dj_items (ds_job s') ! j) = selected (ds_job s) (dj_items (ds_job s) ! j)"
proof -
  have l: "length (dj_items (ds_job s')) = length (dj_items (ds_job s))" "selected (ds_job s') = selected (ds_job s)"
    "bare (dj_items (ds_job s') ! j) = bare (dj_items (ds_job s) ! j)"
    using assms static_items unfolding only_published_def by blast+
  show "si_verified (dj_items (ds_job s') ! j) = si_verified (dj_items (ds_job s) ! j)"
    using assms l(1) unfolding only_published_def by (metis nth_map)
  show "selected (ds_job s') (dj_items (ds_job s') ! j) = selected (ds_job s) (dj_items (ds_job s) ! j)"
    using l(2,3) selected_bare by metis
qed

lemma publish_ready_Ok:
  assumes "publish_ready cx env is s = (Inr x, s')" "set is \<subseteq> {..< length (dj_items (ds_job s))}"
  shows "only_published s s' \<and> (dj_turbo (ds_job s) = None \<longrightarrow> (\<forall>j \<in> set is. selected (ds_job s) (dj_items (ds_job s) ! j) \<longrightarrow>
        list_all id (si_verified (dj_items (ds_job s) ! j)) \<longrightarrow> si_published (dj_items (ds_job s') ! j)))"
  using assms
proof (induction "is" arbitrary: s)
  case Nil
  then show ?case by (simp add: lift_st_def only_published_refl)
next
  case (Cons i "is")
  then obtain s1 where one: "(if selected (ds_job s) (dj_items (ds_job s) ! i) then publish_one cx env i s else (Ok (), s)) = (Inr (), s1)"
      and rest: "publish_ready cx env is s1 = (Inr x, s')"
    by (auto simp: bind_st_Inr)
  have i: "i < length (dj_items (ds_job s))" using Cons.prems(2) by simp
  have o: "only_published s s1" using one publish_one_only [OF _ i] only_published_refl by (auto split: if_splits)
  have l: "length (dj_items (ds_job s1)) = length (dj_items (ds_job s))" "(dj_turbo (ds_job s1) = None) = (dj_turbo (ds_job s) = None)"
    using o static_items unfolding only_published_def by blast+
  then have "set is \<subseteq> {..< length (dj_items (ds_job s1))}" using Cons.prems(2) by simp
  note ih = Cons.IH [OF rest this]
  have pub: "si_published (dj_items (ds_job s') ! i)"
    if "dj_turbo (ds_job s) = None" "selected (ds_job s) (dj_items (ds_job s) ! i)" "list_all id (si_verified (dj_items (ds_job s) ! i))"
  proof -
    have "si_published (dj_items (ds_job s1) ! i)"
      using one publish_one_static(5) [OF _ i] that by simp
    then show ?thesis using ih i l(1) unfolding only_published_def by simp
  qed
  have later: "si_published (dj_items (ds_job s') ! j)"
    if "dj_turbo (ds_job s) = None" "j \<in> set is" "selected (ds_job s) (dj_items (ds_job s) ! j)" "list_all id (si_verified (dj_items (ds_job s) ! j))" for j
  proof -
    have "j < length (dj_items (ds_job s))" using that(2) Cons.prems(2) by auto
    from only_published_verified [OF o this] have "selected (ds_job s1) (dj_items (ds_job s1) ! j)"
      "list_all id (si_verified (dj_items (ds_job s1) ! j))" using that by argo+
    moreover have "dj_turbo (ds_job s1) = None" using that(1) l(2) by simp
    ultimately show ?thesis using ih that(2) by blast
  qed
  show ?case
  proof (intro conjI impI ballI)
    show "only_published s s'" using only_published_trans [OF o] ih by blast
    fix j assume t: "dj_turbo (ds_job s) = None" and j: "j \<in> set (i # is)"
      and v: "selected (ds_job s) (dj_items (ds_job s) ! j)" "list_all id (si_verified (dj_items (ds_job s) ! j))"
    show "si_published (dj_items (ds_job s') ! j)"
    proof (cases "j = i")
      case True
      then show ?thesis using pub t v by blast
    next
      case False
      then have "j \<in> set is" using j by simp
      then show ?thesis using later t v by blast
    qed
  qed
qed

lemma publish_ready_queue:
  "publish_ready cx env is s = (Inr x, s') \<Longrightarrow> set is \<subseteq> {..< length (dj_items (ds_job s))} \<Longrightarrow> ds_inflight s' = ds_inflight s"
proof (induction "is" arbitrary: s)
  case (Cons i "is")
  then obtain s1 where one: "(if selected (ds_job s) (dj_items (ds_job s) ! i) then publish_one cx env i s else (Ok (), s)) = (Inr (), s1)"
      and rest: "publish_ready cx env is s1 = (Inr x, s')"
    by (auto simp: bind_st_Inr)
  have i: "i < length (dj_items (ds_job s))" using Cons.prems(2) by simp
  have "only_published s s1" using one publish_one_only [OF _ i] only_published_refl by (auto split: if_splits)
  then have "length (dj_items (ds_job s1)) = length (dj_items (ds_job s))"
    using static_items(1) unfolding only_published_def by blast
  moreover have "ds_inflight s1 = ds_inflight s"
    using one publish_one_Ok [OF _ i] by (auto simp: core_def split: if_splits)
  ultimately show ?case using Cons.IH [OF rest] Cons.prems(2) by simp
qed (simp add: lift_st_def)

text \<open>The chunks of a file add up to its size.\<close>

lemma plaintext_len_nat: "unat (plaintext_len len cb (of_nat k)) = min (unat len - k * unat cb) (unat cb)" if "k < 2 ^ 64"
proof -
  have k: "unat (of_nat k :: u64) = k" using that by (simp add: unat_of_nat_less)
  have "unat (saturating_mul (of_nat k) cb) = min (k * unat cb) (2 ^ 64 - 1)"
    using k by (simp add: unat_saturating_mul)
  then have "unat (saturating_sub len (saturating_mul (of_nat k) cb)) = unat len - k * unat cb"
    using unat_less_2p [of len] by (simp add: unat_saturating_sub min_def)
  then show ?thesis by (simp add: plaintext_len_def min_def word_le_nat_alt)
qed

lemma chunk_lengths_sum: "(\<Sum>k < n. min (len - k * c) c) = min len (n * c)" for len :: nat
  by (induction n) (auto simp: min_def)

definition exact_layout :: "download_job \<Rightarrow> bool" where
  "exact_layout job \<longleftrightarrow> list_all (\<lambda>item. unat (si_size item) \<le> unat (si_chunk_count item) * unat (dj_chunk_bytes job)) (dj_items job)"

lemma item_bytes_full:
  assumes "list_all id (si_verified item)" "length (si_verified item) = unat (si_chunk_count item)"
    "unat (si_size item) \<le> unat (si_chunk_count item) * unat cb"
  shows "item_bytes cb item = unat (si_size item)"
proof -
  have "item_bytes cb item = (\<Sum>k < length (si_verified item). min (unat (si_size item) - k * unat cb) (unat cb))"
    unfolding item_bytes_def using assms(1,2) unat_less_2p [of "si_chunk_count item"]
    by (intro sum.cong) (auto simp: list_all_length plaintext_len_nat)
  then show ?thesis using assms(2,3) by (simp add: chunk_lengths_sum)
qed

lemma download_slots_pos: "1 \<le> dj_server_concurrency job \<Longrightarrow> 0 < download_slots job c"
proof -
  have one: "1 \<le> max a (1 :: u32)" for a by simp
  have pos: "0 < x \<longleftrightarrow> 1 \<le> x" for x :: u32 by (simp add: word_le_nat_alt word_less_nat_alt unat_gt_0 Suc_le_eq)
  assume "1 \<le> dj_server_concurrency job"
  then show ?thesis
    by (simp add: download_slots_def concurrency_limit_def concurrency_limit_with_memory_def Let_def pos one del: max.bounded_iff min_less_iff_conj)
qed

lemma only_published_static: "only_published s s' \<Longrightarrow> static_part (ds_job s') = static_part (ds_job s)"
  unfolding only_published_def by blast

lemma only_published_bytes:
  assumes "only_published s s'"
  shows "job_bytes (ds_job s') = job_bytes (ds_job s)" "layout_ok (ds_job s') = layout_ok (ds_job s)"
    "missing (ds_job s') = missing (ds_job s)"
proof -
  note l = static_items [OF only_published_static [OF assms]]
  have item: "si_verified (dj_items (ds_job s') ! i) = si_verified (dj_items (ds_job s) ! i)"
      "selected (ds_job s) (dj_items (ds_job s') ! i) = selected (ds_job s) (dj_items (ds_job s) ! i)"
      "si_size (dj_items (ds_job s') ! i) = si_size (dj_items (ds_job s) ! i)"
      "si_chunk_count (dj_items (ds_job s') ! i) = si_chunk_count (dj_items (ds_job s) ! i)"
    if "i < length (dj_items (ds_job s))" for i
  proof -
    show "si_size (dj_items (ds_job s') ! i) = si_size (dj_items (ds_job s) ! i)"
      "si_chunk_count (dj_items (ds_job s') ! i) = si_chunk_count (dj_items (ds_job s) ! i)" using bare_eq [OF l(5) [OF that]] by blast+
  qed (use only_published_verified [OF assms that] l(2) in simp_all)
  show "job_bytes (ds_job s') = job_bytes (ds_job s)"
    unfolding job_bytes_def item_bytes_def l by (intro sum.cong) (simp_all add: item cong: if_cong)
  show "layout_ok (ds_job s') = layout_ok (ds_job s)"
    unfolding layout_ok_def list_all_length l(1) using item(1,4) by metis
  show "missing (ds_job s') = missing (ds_job s)"
    unfolding missing_def wanted_def Let_def l by (auto simp: item)
qed

text \<open>The queue as the loop finds it.\<close>

lemma enqueued_inv:
  assumes "publish_ready cx env [0 ..< length (dj_items job)] (start_download job f c) = (Inr x, s)"
    "layout_ok job" "unat (dj_done job) = job_bytes job"
  shows "queue_inv (enqueue s)" "static_part (ds_job s) = static_part job" "missing (ds_job s) = missing job"
proof -
  let ?s0 = "start_download job f c"
  have job: "ds_job ?s0 = job" by (simp add: start_download_def)
  have r: "set [0 ..< length (dj_items job)] = {..< length (dj_items job)}" by (simp add: atLeast0LessThan)
  have o: "only_published ?s0 s" and pub: "dj_turbo job = None \<longrightarrow> (\<forall>j \<in> {..< length (dj_items job)}. selected job (dj_items job ! j) \<longrightarrow>
        list_all id (si_verified (dj_items job ! j)) \<longrightarrow> si_published (dj_items (ds_job s) ! j))"
    using publish_ready_Ok [OF assms(1)] unfolding job r by blast+
  note b = only_published_bytes [OF o, unfolded job]
  show st: "static_part (ds_job s) = static_part job" and "missing (ds_job s) = missing job"
    using o b unfolding only_published_def job by blast+
  note l = static_items [OF st]
  have p: "published_ok (ds_job s)"
    unfolding published_ok_def l(1,4)
      list_all_length [where P = "\<lambda>item. selected (ds_job s) item \<longrightarrow> list_all id (si_verified item) \<longrightarrow> si_published item"]
  proof (intro impI allI)
    fix j assume t: "dj_turbo job = None" and j: "j < length (dj_items job)"
      and v: "selected (ds_job s) (dj_items (ds_job s) ! j)" "list_all id (si_verified (dj_items (ds_job s) ! j))"
    have "selected job (dj_items job ! j)" "list_all id (si_verified (dj_items job ! j))"
      using only_published_verified [OF o, unfolded job, OF j] v by argo+
    then show "si_published (dj_items (ds_job s) ! j)" using pub t j by blast
  qed
  have a: "adaptive_inv (ds_adaptive s)" and d: "dj_done (ds_job s) = dj_done job"
    using o adaptive_new_inv unfolding only_published_def job by (simp_all add: start_download_def)
  have q: "ds_pending (enqueue s) = pending_queue (ds_job s)" "ds_job (enqueue s) = ds_job s" "ds_adaptive (enqueue s) = ds_adaptive s"
    "ds_inflight (enqueue s) = ds_inflight s" by (simp_all add: enqueue_def)
  have i: "ds_inflight s = []" using publish_ready_queue [OF assms(1)] unfolding job r by (simp add: start_download_def)
  show "queue_inv (enqueue s)"
    unfolding queue_inv_def q i append_Nil2 pending_queue_set using p a b assms(2,3) d pending_queue_distinct by simp
qed

lemma nothing_missing:
  assumes "missing job = {}" "layout_ok job" "i < length (dj_items job)" "selected job (dj_items job ! i)"
  shows "list_all id (si_verified (dj_items job ! i))"
proof -
  have len: "length (si_verified (dj_items job ! i)) = unat (si_chunk_count (dj_items job ! i))"
    using assms(2,3) by (simp add: layout_ok_def list_all_length)
  have "si_verified (dj_items job ! i) ! k" if "k < unat (si_chunk_count (dj_items job ! i))" for k
  proof (rule ccontr)
    assume "\<not> si_verified (dj_items job ! i) ! k"
    moreover have "unat (of_nat k :: u64) = k" using that unat_less_2p [of "si_chunk_count (dj_items job ! i)"] by (simp add: unat_of_nat_less)
    ultimately have "(i, of_nat k) \<in> missing job" using assms(3,4) that by (simp add: missing_def wanted_def)
    then show False using assms(1) by blast
  qed
  then show ?thesis using len by (simp add: list_all_length)
qed

lemma job_bytes_full:
  assumes "missing job = {}" "layout_ok job" "exact_layout job"
  shows "job_bytes job = sum_list (map (\<lambda>item. unat (si_size item)) (filter (selected job) (dj_items job)))"
proof -
  have "job_bytes job = (\<Sum>i < length (dj_items job). if selected job (dj_items job ! i) then unat (si_size (dj_items job ! i)) else 0)"
    unfolding job_bytes_def using assms nothing_missing [OF assms(1,2)]
    by (intro sum.cong refl if_cong item_bytes_full) (auto simp: layout_ok_def exact_layout_def list_all_length)
  also have "\<dots> = sum_list (map (\<lambda>item. if selected job item then unat (si_size item) else 0) (dj_items job))"
    by (simp add: sum_list_sum_nth atLeast0LessThan)
  also have "\<dots> = sum_list (map (\<lambda>item. unat (si_size item)) (filter (selected job) (dj_items job)))"
    by (induction "dj_items job") (simp_all add: sum_list_map_filter')
  finally show ?thesis .
qed

lemma static_sizes:
  assumes "static_part job' = static_part job"
  shows "exact_layout job' = exact_layout job"
    "map (\<lambda>item. unat (si_size item)) (filter (selected job') (dj_items job')) = map (\<lambda>item. unat (si_size item)) (filter (selected job) (dj_items job))"
proof -
  note l = static_items [OF assms]
  have size: "si_size (dj_items job' ! i) = si_size (dj_items job ! i)" "si_chunk_count (dj_items job' ! i) = si_chunk_count (dj_items job ! i)"
    if "i < length (dj_items job)" for i
    using bare_eq [OF l(5) [OF that]] by blast+
  show "exact_layout job' = exact_layout job"
    unfolding exact_layout_def list_all_length l(1,3) using size by metis
  have m: "map bare (dj_items job') = map bare (dj_items job)"
    using l(1,5) by (auto intro: nth_equalityI)
  have f: "map (\<lambda>item. unat (si_size item)) (filter (selected job) xs) = map (\<lambda>item. unat (si_size item)) (filter (selected job) (map bare xs))" for xs
    by (induction xs) (simp_all add: selected_bare, simp_all add: bare_def)
  show "map (\<lambda>item. unat (si_size item)) (filter (selected job') (dj_items job')) = map (\<lambda>item. unat (si_size item)) (filter (selected job) (dj_items job))"
    unfolding l(2) using f [of "dj_items job'"] f [of "dj_items job"] m by simp
qed


definition demo_job :: download_job where
  "demo_job = \<lparr>dj_version = 1, dj_id = [], dj_direction = [], dj_state = [], dj_instance = [], dj_done = 0, dj_total = 3,
     dj_transfer_id = [], dj_chunk_bytes = 2, dj_server_concurrency = 4, dj_ranges = False, dj_driver = lit ''http'',
     dj_envelope = [], dj_source = PublicSource, dj_turbo = None, dj_output = [], dj_output_absolute = True,
     dj_items = [\<lparr>si_id = [], si_name = [], si_size = 3, si_nonce_prefix = [], si_chunk_count = 2, si_digest = [],
       si_target = [], si_verified = [False, False], si_published = False\<rparr>],
     dj_selected_item_ids = None, dj_selection_frozen = False\<rparr>"


end
