(* ===== verification/Download_Open.thy ===== *)
theory Download_Open
  imports Download_Queue
begin

text \<open>
  Opening a transfer, the first half of \<open>async_run\<close> and \<open>async_resume\<close> of
  \<open>crates/transfer-native/src/protocol/download.rs\<close>: the metadata and capability requests, the checks
  on what the server says, unlocking the key, and the manifest or Turbo descriptor behind it. JSON
  (\<open>dl_json\<close>) and base64url are parameters; an exhausted list of body outcomes is a body that went idle. Shown:
  the requests end, a Turbo descriptor that is accepted has the layout the download loop needs, the
  concurrency taken from the server is between one and eight, and the descriptor and the final manifest
  of a transfer open under different associated data, so neither can stand in for the other.
\<close>

section \<open>What the server sends\<close>

record metadata_item =
  md_id :: rstr
  md_position :: u64
  md_chunk_count :: u64

record transfer =
  dt_driver :: rstr
  dt_id :: rstr
  dt_protocol_version :: u8
  dt_chunk_bytes :: u64
  dt_encrypted_manifest :: "rstr option"
  dt_encrypted_descriptor :: "rstr option"
  dt_items :: "metadata_item list"
  dt_download_concurrency :: "u32 option"
  dt_upload_status :: bool
  dt_download_ranges :: bool

record envelope =
  ev_v :: u8
  ev_nonce_prefix :: rstr
  ev_salt :: "rstr option"
  ev_ciphertext :: rstr

record turbo_descriptor_item =
  td_id :: rstr
  td_name :: rstr
  td_mime :: rstr
  td_size :: u64
  td_nonce_prefix :: rstr
  td_chunk_count :: u64

record turbo_descriptor =
  td_attached_note :: "attached_note option"
  td_version :: u8
  td_purpose :: rstr
  td_chunk_bytes :: u64
  td_items :: "turbo_descriptor_item list"

record turbo_session =
  tn_id :: rstr
  tn_token :: rstr

text \<open>\<open>transfer_capabilities\<close> is absent or carries the range flag.\<close>

record download_capabilities =
  dc_download_concurrency :: "u32 option"
  dc_download_ranges :: "bool option"

record link =
  lk_id :: rstr
  lk_key :: "u8 list option"
  lk_instance :: rstr

record dl_json =
  js_transfer :: "u8 list \<Rightarrow> transfer option"
  js_capabilities :: "u8 list \<Rightarrow> download_capabilities option"
  js_session :: "u8 list \<Rightarrow> turbo_session option"
  js_envelope :: "rstr \<Rightarrow> envelope option"
  js_manifest :: "u8 list \<Rightarrow> manifest option"
  js_descriptor :: "u8 list \<Rightarrow> turbo_descriptor option"

section \<open>Requests\<close>

definition CONTROL_JSON_LIMIT :: nat where "CONTROL_JSON_LIMIT = 2 * 1024 * 1024"

definition response_json ::
  "(u8 list \<Rightarrow> 'a option) \<Rightarrow> http_response \<Rightarrow> u8 list option waited list \<Rightarrow> ('a, dl_error) result" where
  "response_json parse r ws =
     and_then
       (case read_limited r CONTROL_JSON_LIMIT ws of
          Some res \<Rightarrow> map_err DlHttp res
        | None \<Rightarrow> Err (DlHttp (HttpMessage ''HTTP response body became idle''))) (\<lambda>body.
     ok_or (DlMsg ''invalid response JSON'') (parse body))"

text \<open>A request under \<open>select!\<close> with the cancellation token, whose transport errors are returned.\<close>

definition sent_response :: "attempt_env \<Rightarrow> (http_response, dl_error) result" where
  "sent_response env =
     (case at_sent env None of
        Interrupted \<Rightarrow> Err DL_CANCELLED
      | Overdue \<Rightarrow> Err (DlHttp HttpTransport)
      | IoFailed \<Rightarrow> Err (DlHttp HttpTransport)
      | Arrived r \<Rightarrow> Ok r)"

definition metadata_url :: "rstr \<Rightarrow> rstr \<Rightarrow> download_source \<Rightarrow> rstr" where
  "metadata_url instance_url i source =
     (case source of
        PublicSource \<Rightarrow> instance_url @ lit ''/api/v1/transfers/'' @ i
      | InboxSource \<Rightarrow> instance_url @ lit ''/api/native/v1/inbox/'' @ i @ lit ''/metadata'')"

definition chunk_url :: "rstr \<Rightarrow> rstr \<Rightarrow> rstr \<Rightarrow> u64 \<Rightarrow> download_source \<Rightarrow> rstr" where
  "chunk_url instance_url i item position source =
     (case source of
        PublicSource \<Rightarrow>
          instance_url @ lit ''/api/v1/transfers/'' @ i @ lit ''/items/'' @ item @ lit ''/chunks/'' @ decimal (unat position)
      | InboxSource \<Rightarrow>
          instance_url @ lit ''/api/native/v1/inbox/'' @ i @ lit ''/items/'' @ item @ lit ''/chunks/'' @ decimal (unat position))"

fun metadata_from :: "dl_json \<Rightarrow> (nat \<Rightarrow> attempt_env) \<Rightarrow> nat \<Rightarrow> nat \<Rightarrow> transfer ft_op" where
  "metadata_from js env 0 attempt = lift_st (Err (DlMsg ''transfer is still pending''))"
| "metadata_from js env (Suc left) attempt =
     bind_st (lift_st (sent_response (env attempt))) (\<lambda>r.
     if rs_status r = 202 then
       bind_st (set_phase (env attempt) 0 Waiting) (\<lambda>_.
       bind_st (download_retry_wait (rs_header r ''retry-after'') attempt (env attempt)) (\<lambda>_.
       metadata_from js env left (Suc attempt)))
     else if rs_status r = 404 \<or> rs_status r = 410
     then lift_st (Err (DlMsg ''transfer is unavailable, expired, or has been revoked''))
     else if \<not> is_success (rs_status r) then lift_st (Err (DlHttp (HttpStatus (rs_status r))))
     else lift_st (response_json (js_transfer js) r (at_body (env attempt) None)))"

definition metadata :: "dl_json \<Rightarrow> (nat \<Rightarrow> attempt_env) \<Rightarrow> transfer ft_op" where
  "metadata js env = metadata_from js env DL_MAX_ATTEMPTS 0"

definition capabilities :: "dl_json \<Rightarrow> attempt_env \<Rightarrow> (download_capabilities, dl_error) result" where
  "capabilities js env =
     and_then (sent_response env) (\<lambda>r.
     if rs_status r = 404 \<or> rs_status r = 405
     then Ok \<lparr>dc_download_concurrency = Some 1, dc_download_ranges = Some False\<rparr>
     else if \<not> is_success (rs_status r) then Err (DlHttp (HttpStatus (rs_status r)))
     else response_json (js_capabilities js) r (at_body env None))"

definition create_turbo_session :: "dl_json \<Rightarrow> attempt_env \<Rightarrow> (turbo_session, dl_error) result" where
  "create_turbo_session js env =
     and_then (sent_response env) (\<lambda>r.
     if \<not> is_success (rs_status r) then Err (DlHttp (HttpStatus (rs_status r)))
     else
       and_then (response_json (js_session js) r (at_body env None)) (\<lambda>session.
       if tn_id session = [] \<or> tn_token session = [] then Err (DlMsg ''invalid Turbo download session'') else Ok session))"

section \<open>Checks on the metadata\<close>

definition live_join_token :: "transfer \<Rightarrow> manifest \<Rightarrow> (rstr option, dl_error) result" where
  "live_join_token t m =
     (if dt_driver t = lit ''http'' then Ok None
      else if dt_driver t = lit ''webrtc'' then
        and_then (ok_or (DlMsg ''live transfer manifest has no join capability'') (mf_join_token m)) (\<lambda>token.
        if str_len token \<noteq> 64 \<or> \<not> list_all (\<lambda>b. ascii_alphanumeric (unat b)) (bytes token)
        then Err (DlMsg ''live transfer manifest has an invalid join capability'') else Ok (Some token))
      else Err (DlMsg ''unsupported download driver''))"

definition validate_transfer :: "transfer \<Rightarrow> rstr \<Rightarrow> (unit, dl_error) result" where
  "validate_transfer t i =
     (if dt_protocol_version t \<noteq> 1 \<or> dt_id t \<noteq> i \<or> dt_chunk_bytes t = 0 \<or> 24999984 < dt_chunk_bytes t
         \<or> \<not> (dt_driver t = lit ''http'' \<or> dt_driver t = lit ''webrtc'')
      then Err (DlMsg ''unsupported or invalid transfer metadata'') else Ok ())"

definition reject_live_note :: "transfer \<Rightarrow> (unit, dl_error) result" where
  "reject_live_note t =
     (if dt_driver t = lit ''webrtc'' \<and> dt_items t = []
      then Err (DlMsg ''native WebRTC note reads are unsupported; use the browser before claiming the note'') else Ok ())"

definition server_download_limit :: "download_capabilities \<Rightarrow> transfer \<Rightarrow> u32" where
  "server_download_limit c t =
     clamp 1 8 (min (case dc_download_concurrency c of None \<Rightarrow> 1 | Some n \<Rightarrow> n)
                    (case dt_download_concurrency t of None \<Rightarrow> - 1 | Some n \<Rightarrow> n))"

definition server_ranges :: "download_capabilities \<Rightarrow> transfer \<Rightarrow> bool" where
  "server_ranges c t \<longleftrightarrow> dc_download_ranges c = Some True \<and> dt_download_ranges t"

section \<open>Keys\<close>

definition PASSWORD_KDF_BYTES :: u64 where "PASSWORD_KDF_BYTES = 64 * 1024 * 1024"

definition manifest_crypto_bytes :: "nat \<Rightarrow> (u64, dl_error) result" where
  "manifest_crypto_bytes plain_bytes =
     ok_or (DlMsg ''manifest memory accounting overflow'') (checked_mul (of_nat plain_bytes) 4)"

type_synonym 'a ct_op = "(control, 'a, dl_error) st"

text \<open>How the blocking calls of \<open>Control\<close> end: the last turn of \<open>ask\<close> (cancelled, a reply, or the host
  gone), and whether the wait for memory is cancelled. A permit is dropped at the end of the function
  that holds it, so it leaves no trace.\<close>

record secret_env =
  se_open :: bool
  se_cancelled :: bool
  se_reply :: "rstr option"

definition ask_secret :: "secret_kind \<Rightarrow> secret_env \<Rightarrow> rstr ct_op" where
  "ask_secret kind env c =
     (case control_secret (se_open env) kind
             [(se_cancelled env, case se_reply env of None \<Rightarrow> Disconnected | Some v \<Rightarrow> Reply v)] c of
        (Some r, c') \<Rightarrow> (map_err DlControl r, c')
      | (None, c') \<Rightarrow> (Err (DlControl Cancelled), c'))"

definition hold_memory :: "u64 \<Rightarrow> bool \<Rightarrow> unit ct_op" where
  "hold_memory n cancelled c =
     (if mem_limit (ctl_memory c) < n then Err (DlControl (MemoryErr MemoryExhausted))
      else if cancelled then Err (DlControl (MemoryErr MemoryCancelled)) else Ok (), c)"

definition decode_share_key :: "(rstr \<Rightarrow> u8 list option) \<Rightarrow> rstr \<Rightarrow> (u8 list, dl_error) result" where
  "decode_share_key decode v =
     and_then (ok_or (DlMsg ''invalid base64url data'')
                (decode (case strip_prefix (lit ''v1.'') (trim v) of None \<Rightarrow> trim v | Some rest \<Rightarrow> rest))) (\<lambda>key.
     if length key \<noteq> 32 then Err (DlMsg ''share key must decode to 32 bytes'') else Ok key)"

record unlock_env =
  ue_share :: secret_env
  ue_password :: secret_env
  ue_memory :: bool

text \<open>The part that \<open>unlock\<close> and \<open>unlock_saved\<close> share: a salt asks for the password.\<close>

definition password_key ::
  "crypto \<Rightarrow> (rstr \<Rightarrow> u8 list option) \<Rightarrow> unlock_env \<Rightarrow> u8 list \<Rightarrow> rstr option \<Rightarrow> u8 list ct_op" where
  "password_key cr decode env key salt =
     (case salt of
        None \<Rightarrow> lift_st (Ok key)
      | Some salt \<Rightarrow>
          bind_st (ask_secret Password (ue_password env)) (\<lambda>password.
          bind_st (hold_memory PASSWORD_KDF_BYTES (ue_memory env)) (\<lambda>_.
          lift_st (and_then (ok_or (DlMsg ''invalid base64url data'') (decode salt)) (\<lambda>salt_bytes.
                   and_then (map_err DlMsg (derive_password_key cr (bytes password) salt_bytes 65536 3 1)) (\<lambda>p.
                   map_err DlMsg (derive_password_protected_key cr key p)))))))"

definition unlock_link ::
  "crypto \<Rightarrow> (rstr \<Rightarrow> u8 list option) \<Rightarrow> dl_json \<Rightarrow> unlock_env \<Rightarrow> link \<Rightarrow> rstr \<Rightarrow> (u8 list \<times> u8 list) ct_op" where
  "unlock_link cr decode js env l envelope_text =
     bind_st (case lk_key l of
                Some key \<Rightarrow> lift_st (Ok key)
              | None \<Rightarrow> bind_st (ask_secret ShareKey (ue_share env)) (\<lambda>v. lift_st (decode_share_key decode v))) (\<lambda>share_key.
     bind_st (lift_st (ok_or (DlMsg ''invalid encrypted manifest envelope'') (js_envelope js envelope_text))) (\<lambda>e.
     if ev_v e \<noteq> 1 then lift_st (Err (DlMsg ''unsupported encrypted manifest version''))
     else bind_st (password_key cr decode env share_key (ev_salt e)) (\<lambda>master. lift_st (Ok (master, share_key)))))"

definition unlock_saved ::
  "crypto \<Rightarrow> (rstr \<Rightarrow> u8 list option) \<Rightarrow> dl_json \<Rightarrow> unlock_env \<Rightarrow> u8 list \<Rightarrow> rstr \<Rightarrow> u8 list ct_op" where
  "unlock_saved cr decode js env share_key envelope_text =
     bind_st (lift_st (ok_or (DlMsg ''invalid encrypted manifest envelope'') (js_envelope js envelope_text))) (\<lambda>e.
     password_key cr decode env share_key (ev_salt e))"

section \<open>Manifests\<close>

definition server_item :: "metadata_item \<Rightarrow> manifest_server_item" where
  "server_item i = \<lparr>ms_id = md_id i, ms_position = md_position i, ms_chunk_count = md_chunk_count i\<rparr>"

definition validate_download_manifest :: "manifest \<Rightarrow> transfer \<Rightarrow> (unit, dl_error) result" where
  "validate_download_manifest m t =
     map_err DlMsg (validate_manifest m (dt_driver t) (dt_chunk_bytes t) (map server_item (dt_items t)))"

definition open_envelope ::
  "crypto \<Rightarrow> (rstr \<Rightarrow> u8 list option) \<Rightarrow> u8 list \<Rightarrow> u8 list \<Rightarrow> envelope \<Rightarrow> (u8 list, dl_error) result" where
  "open_envelope cr decode key ad e =
     and_then (ok_or (DlMsg ''invalid base64url data'') (decode (ev_nonce_prefix e))) (\<lambda>np.
     and_then (ok_or (DlMsg ''invalid base64url data'') (decode (ev_ciphertext e))) (\<lambda>ciphertext.
     map_err DlMsg (decrypt_manifest cr key np ciphertext ad)))"

definition manifest_for ::
  "crypto \<Rightarrow> (rstr \<Rightarrow> u8 list option) \<Rightarrow> dl_json \<Rightarrow> bool \<Rightarrow> u8 list \<Rightarrow> rstr \<Rightarrow> rstr \<Rightarrow> transfer \<Rightarrow> manifest ct_op" where
  "manifest_for cr decode js cancelled key i envelope_text t =
     bind_st (lift_st (ok_or (DlMsg ''invalid JSON'') (js_envelope js envelope_text))) (\<lambda>e.
     bind_st (lift_st (manifest_crypto_bytes (str_len (ev_ciphertext e)))) (\<lambda>n.
     bind_st (hold_memory n cancelled) (\<lambda>_.
     bind_st (lift_st (open_envelope cr decode key (chunk_aad i (lit ''manifest'') (lit ''manifest'')) e)) (\<lambda>content.
     bind_st (lift_st (ok_or (DlMsg ''invalid decrypted manifest'') (js_manifest js content))) (\<lambda>m.
     bind_st (lift_st (validate_download_manifest m t)) (\<lambda>_. lift_st (Ok m)))))))"

definition descriptor_aad :: "rstr \<Rightarrow> u8 list" where
  "descriptor_aad i = bytes (lit ''filebeam:v1:'' @ i @ lit '':descriptor:descriptor'')"

definition descriptor_manifest_item :: "turbo_descriptor_item \<Rightarrow> manifest_item" where
  "descriptor_manifest_item i =
     \<lparr>mi_id = td_id i, mi_name = td_name i, mi_mime = td_mime i, mi_size = td_size i, mi_nonce_prefix = td_nonce_prefix i,
      mi_chunk_count = td_chunk_count i, mi_digest = \<lparr>digest_algorithm = lit ''sha256'', digest_hex = []\<rparr>\<rparr>"

fun descriptor_items ::
  "(rstr \<Rightarrow> u8 list option) \<Rightarrow> transfer \<Rightarrow> rstr set \<Rightarrow> turbo_descriptor_item list \<Rightarrow> (manifest_item list, dl_error) result" where
  "descriptor_items decode t ids [] = Ok []"
| "descriptor_items decode t ids (item # rest) =
     and_then (ok_or (DlMsg ''Turbo descriptor references an unknown item'')
                (find (\<lambda>server. md_id server = td_id item) (dt_items t))) (\<lambda>server.
     if td_id item = [] \<or> td_name item = [] \<or> 255 < str_len (td_mime item) \<or> td_id item \<in> ids
        \<or> td_chunk_count item = 0 \<or> td_chunk_count item \<noteq> md_chunk_count server
        \<or> td_chunk_count item \<noteq> max (div_ceil (td_size item) (dt_chunk_bytes t)) 1
     then Err (DlMsg ''Turbo descriptor item is invalid'')
     else
       and_then (ok_or (DlMsg ''invalid base64url data'') (decode (td_nonce_prefix item))) (\<lambda>np.
       if length np \<noteq> 16 then Err (DlMsg ''Turbo descriptor item is invalid'')
       else and_then (descriptor_items decode t (insert (td_id item) ids) rest) (\<lambda>items.
              Ok (descriptor_manifest_item item # items))))"

definition turbo_descriptor_for ::
  "crypto \<Rightarrow> (rstr \<Rightarrow> u8 list option) \<Rightarrow> dl_json \<Rightarrow> bool \<Rightarrow> u8 list \<Rightarrow> rstr \<Rightarrow> rstr \<Rightarrow> transfer \<Rightarrow> manifest ct_op" where
  "turbo_descriptor_for cr decode js cancelled key i envelope_text t =
     (if dt_driver t \<noteq> lit ''http'' then lift_st (Err (DlMsg ''Turbo descriptors require HTTP transfers''))
      else
        bind_st (lift_st (ok_or (DlMsg ''invalid Turbo descriptor envelope'') (js_envelope js envelope_text))) (\<lambda>e.
        bind_st (lift_st (manifest_crypto_bytes (str_len (ev_ciphertext e)))) (\<lambda>n.
        bind_st (hold_memory n cancelled) (\<lambda>_.
        bind_st (lift_st (open_envelope cr decode key (descriptor_aad i) e)) (\<lambda>content.
        bind_st (lift_st (ok_or (DlMsg ''invalid Turbo descriptor'') (js_descriptor js content))) (\<lambda>d.
        if td_version d \<noteq> 1 \<or> td_purpose d \<noteq> lit ''turbo-descriptor'' \<or> td_chunk_bytes d \<noteq> dt_chunk_bytes t
           \<or> length (td_items d) \<noteq> length (dt_items t)
        then lift_st (Err (DlMsg ''Turbo descriptor does not match transfer''))
        else
          bind_st (lift_st (case td_attached_note d of None \<Rightarrow> Ok () | Some n \<Rightarrow> map_err DlMsg (note_validate n))) (\<lambda>_.
          bind_st (lift_st (descriptor_items decode t {} (td_items d))) (\<lambda>items.
          lift_st (Ok \<lparr>mf_attached_note = td_attached_note d, mf_join_token = None, mf_version = 1, mf_items = items\<rparr>)))))))))"

section \<open>The layout of an accepted manifest\<close>

definition right_count :: "u64 \<Rightarrow> manifest_item \<Rightarrow> bool" where
  "right_count c item \<longleftrightarrow> 0 < unat c \<and> unat (mi_chunk_count item) = max 1 (ceil_div (unat (mi_size item)) (unat c))"

lemma validated_counts:
  assumes "validate_manifest m driver c ss = Inr u"
  shows "list_all (right_count c) (mf_items m)"
proof -
  have c: "0 < unat c" using assms by (auto simp: validate_manifest_def and_then_eq_Inr unat_gt_0 split: if_splits)
  have "check_items c ss {} {} (mf_items m) = Inr u"
    using assms by (auto simp: validate_manifest_def and_then_eq_Inr split: if_splits)
  then have "item_passes c ss item" if "item \<in> set (mf_items m)" for item using that by (simp add: check_items_Ok)
  then show ?thesis
    using chunk_total [OF c] c by (auto simp: list_all_iff right_count_def item_passes_def)
qed

lemma validated_manifest_counts:
  "validate_download_manifest m t = Inr u \<Longrightarrow> list_all (right_count (dt_chunk_bytes t)) (mf_items m)"
  unfolding validate_download_manifest_def map_err_eq_Inr by (rule validated_counts)

lemma descriptor_items_Ok:
  "descriptor_items decode t ids ds = Inr items \<Longrightarrow> 0 < unat (dt_chunk_bytes t) \<Longrightarrow>
     list_all (right_count (dt_chunk_bytes t)) items \<and> items = map descriptor_manifest_item ds
     \<and> distinct (map td_id ds) \<and> set (map td_id ds) \<inter> ids = {} \<and> [] \<notin> set (map td_id ds)"
proof (induction ds arbitrary: ids items)
  case (Cons d ds)
  then obtain rest where rest: "descriptor_items decode t (insert (td_id d) ids) ds = Inr rest"
      and items: "items = descriptor_manifest_item d # rest" and d: "td_id d \<noteq> []" "td_id d \<notin> ids"
      and count: "td_chunk_count d = max (div_ceil (td_size d) (dt_chunk_bytes t)) 1"
    by (auto simp: and_then_eq_Inr split: if_splits)
  have "unat (td_chunk_count d) = max 1 (ceil_div (unat (td_size d)) (unat (dt_chunk_bytes t)))"
    using Cons.prems(2) by (simp add: count unat_max_of_words unat_div_ceil unat_gt_0 max.commute)
  then have "right_count (dt_chunk_bytes t) (descriptor_manifest_item d)"
    using Cons.prems(2) by (simp add: right_count_def descriptor_manifest_item_def)
  then show ?case using Cons.IH [OF rest Cons.prems(2)] items d by auto
qed simp

lemma turbo_descriptor_counts:
  assumes "turbo_descriptor_for cr decode js cancelled key i e t c = (Inr m, c')" "0 < unat (dt_chunk_bytes t)"
  shows "list_all (right_count (dt_chunk_bytes t)) (mf_items m)"
proof -
  obtain d where "descriptor_items decode t {} d = Inr (mf_items m)"
    using assms(1) by (auto simp: turbo_descriptor_for_def bind_st_Inr split: if_splits)
  then show ?thesis using descriptor_items_Ok assms(2) by blast
qed

lemma manifest_for_counts:
  assumes "manifest_for cr decode js cancelled key i e t c = (Inr m, c')"
  shows "list_all (right_count (dt_chunk_bytes t)) (mf_items m)"
  using assms by (auto simp: manifest_for_def bind_st_Inr intro: validated_manifest_counts)

lemma server_download_limit_bounds: "1 \<le> server_download_limit c t \<and> server_download_limit c t \<le> 8"
  using clamp_bounds [of 1 "8 :: u32"] by (simp add: server_download_limit_def)

text \<open>What a descriptor and what a manifest is sealed under.\<close>

lemma descriptor_not_manifest: "descriptor_aad i \<noteq> chunk_aad i (lit ''manifest'') (lit ''manifest'')"
proof
  assume "descriptor_aad i = chunk_aad i (lit ''manifest'') (lit ''manifest'')"
  then have "bytes (lit '':descriptor:descriptor'') = bytes (lit '':manifest:manifest'')"
    by (simp add: descriptor_aad_def chunk_aad_def)
  then have "length (bytes (lit '':descriptor:descriptor'')) = length (bytes (lit '':manifest:manifest''))" by argo
  then show False by (simp add: utf8_char_def)
qed

end
