(* ===== verification/Download_Resume.thy ===== *)
theory Download_Resume
  imports Download_Open
begin

text \<open>
  Whole downloads, \<open>run\<close>, \<open>async_run\<close>, \<open>async_resume\<close>, \<open>download\<close> and the external execution of chunk
  requests (\<open>background_work\<close>, \<open>ingest_background_completion\<close>, \<open>select_background_items\<close>) of
  \<open>crates/transfer-native/src/protocol/download.rs\<close>. Shown: a job that \<open>async_run\<close> prepares, and one
  that \<open>async_resume\<close> prepares again, has the layout the download loop relies on; every chunk that a
  resumed job still counts as verified has just been decrypted from retained ciphertext and written
  again; a selection, once frozen, stays; a record that arrived in the background is lost with the next
  interruption, and a Turbo job that is interrupted while its files are published cannot be resumed.
\<close>

section \<open>State\<close>

record open_state =
  os_fs :: fs
  os_control :: control

type_synonym 'a dr_op = "(open_state, 'a, dl_error) st"

fun phase_event :: "dl_event \<Rightarrow> control \<Rightarrow> control" where
  "phase_event (DlPhase p) c = (case control_phase p c of Inr c' \<Rightarrow> c' | Inl _ \<Rightarrow> c)"
| "phase_event _ c = c"

definition dr_ft :: "'a ft_op \<Rightarrow> 'a dr_op" where
  "dr_ft m s =
     (case m \<lparr>ft_fs = os_fs s, ft_events = []\<rparr> of
        (r, t) \<Rightarrow> (r, s\<lparr>os_fs := ft_fs t, os_control := fold phase_event (ft_events t) (os_control s)\<rparr>))"

definition dr_ct :: "'a ct_op \<Rightarrow> 'a dr_op" where
  "dr_ct m s = (case m (os_control s) of (r, c) \<Rightarrow> (r, s\<lparr>os_control := c\<rparr>))"

definition dr_ck :: "'a ck_op \<Rightarrow> 'a dr_op" where
  "dr_ck m s = (case m (os_fs s) of (r, f) \<Rightarrow> (map_err DlCk r, s\<lparr>os_fs := f\<rparr>))"

definition dr_control :: "(control \<Rightarrow> control) \<Rightarrow> unit dr_op" where
  "dr_control f s = (Ok (), s\<lparr>os_control := f (os_control s)\<rparr>)"

text \<open>What is fixed for a download: the libraries and the open store.\<close>

record dr_ctx =
  dx_crypto :: crypto
  dx_rng :: rng
  dx_json :: dl_json
  dx_to_vec :: "download_job \<Rightarrow> u8 list option"
  dx_from_slice :: "u8 list \<Rightarrow> download_job option"
  dx_secret :: secret_codec
  dx_decode :: "rstr \<Rightarrow> u8 list option"
  dx_sha :: "u8 list \<Rightarrow> rstr"
  dx_store :: store

record dr_env =
  de_capabilities :: attempt_env
  de_metadata :: "nat \<Rightarrow> attempt_env"
  de_unlock :: unlock_env
  de_memory :: bool
  de_session :: attempt_env
  de_canonical :: "(path, io_error) result"
  de_candidates :: nat
  de_fresh :: "nat \<Rightarrow> u64 \<Rightarrow> rstr"

definition base_of :: "dr_ctx \<Rightarrow> path" where "base_of cx = st_directory (dx_store cx)"

definition store_job :: "dr_ctx \<Rightarrow> download_job \<Rightarrow> unit dr_op" where
  "store_job cx job = dr_ck (store_save (dx_crypto cx) (dx_rng cx) (dx_to_vec cx) (dx_store cx) job)"

definition load_job :: "dr_ctx \<Rightarrow> download_job dr_op" where
  "load_job cx =
     bind_st (dr_ck (store_load (dx_crypto cx) (dx_from_slice cx) (dx_store cx))) (\<lambda>found.
     bind_st (lift_st (ok_or (DlMsg ''saved download checkpoint is empty'') found)) (\<lambda>job.
     bind_st (lift_st (job_checked job)) (\<lambda>_. lift_st (Ok job))))"

section \<open>A new download\<close>

text \<open>\<open>fs::create_dir_all\<close>.\<close>

fun create_dir_all :: "path \<Rightarrow> path \<Rightarrow> (fs, unit, io_error) st" where
  "create_dir_all p [] = lift_st (Ok ())"
| "create_dir_all p (c # cs) =
     bind_st (\<lambda>s. if is_directory s (p @ [c]) then (Ok (), s) else create_dir (p @ [c]) 493 s) (\<lambda>_. create_dir_all (p @ [c]) cs)"

text \<open>The search for a free name ends in \<open>unreachable!\<close> if it runs out of candidates.\<close>

fun plan_items :: "nat \<Rightarrow> path \<Rightarrow> bool \<Rightarrow> rstr set \<Rightarrow> manifest_item list \<Rightarrow> saved_item list ft_op" where
  "plan_items candidates output turbo names [] = lift_st (Ok [])"
| "plan_items candidates output turbo names (item # rest) =
     (if mi_name item \<in> names then lift_st (Err (DlMsg ''manifest has duplicate filenames''))
      else
        bind_st (on_fs (collision_free candidates output (download_filename (mi_name item)))) (\<lambda>target.
        bind_st (lift_st (ok_or (DlMsg ''unreachable'') target)) (\<lambda>target.
        bind_st (plan_items candidates output turbo (insert (mi_name item) names) rest) (\<lambda>items.
        lift_st (Ok (\<lparr>si_id = mi_id item, si_name = mi_name item, si_size = mi_size item,
                      si_nonce_prefix = mi_nonce_prefix item, si_chunk_count = mi_chunk_count item,
                      si_digest = (if turbo then [] else digest_hex (mi_digest item)), si_target = target,
                      si_verified = replicate (unat (mi_chunk_count item)) False, si_published = False\<rparr> # items))))))"

text \<open>A transfer has a final manifest or, while it is still being sent, a Turbo descriptor.\<close>

definition turbo_of :: "transfer \<Rightarrow> rstr option" where
  "turbo_of t = (if dt_encrypted_manifest t = None then dt_encrypted_descriptor t else None)"

definition envelope_of :: "transfer \<Rightarrow> (rstr, dl_error) result" where
  "envelope_of t =
     ok_or (DlMsg ''transfer has no encrypted manifest or Turbo descriptor'')
       (case dt_encrypted_manifest t of Some m \<Rightarrow> Some m | None \<Rightarrow> turbo_of t)"

definition open_manifest :: "dr_ctx \<Rightarrow> dr_env \<Rightarrow> bool \<Rightarrow> u8 list \<Rightarrow> rstr \<Rightarrow> rstr \<Rightarrow> transfer \<Rightarrow> manifest dr_op" where
  "open_manifest cx env turbo master i e t =
     dr_ct ((if turbo then turbo_descriptor_for else manifest_for)
              (dx_crypto cx) (dx_decode cx) (dx_json cx) (de_memory env) master i e t)"

definition turbo_job_of :: "dr_ctx \<Rightarrow> dr_env \<Rightarrow> rstr option \<Rightarrow> (turbo_job option, dl_error) result" where
  "turbo_job_of cx env descriptor =
     (case descriptor of
        None \<Rightarrow> Ok None
      | Some d \<Rightarrow>
          and_then (create_turbo_session (dx_json cx) (de_session env)) (\<lambda>session.
          Ok (Some \<lparr>tb_descriptor = d, tb_session_id = tn_id session, tb_session_token = tn_token session, tb_sequence = 0\<rparr>)))"

text \<open>The metadata of the transfer, checked.\<close>

definition open_transfer :: "dr_ctx \<Rightarrow> dr_env \<Rightarrow> rstr \<Rightarrow> transfer dr_op" where
  "open_transfer cx env i =
     bind_st (dr_ft (metadata (dx_json cx) (de_metadata env))) (\<lambda>t.
     bind_st (lift_st (validate_transfer t i)) (\<lambda>_.
     bind_st (lift_st (reject_live_note t)) (\<lambda>_. lift_st (Ok t))))"

definition total_size :: "manifest \<Rightarrow> (u64, dl_error) result" where
  "total_size m = ok_or (DlMsg ''transfer is too large'') (checked_sum 0 (map mi_size (mf_items m)))"

definition new_job ::
  "dr_ctx \<Rightarrow> link \<Rightarrow> download_source \<Rightarrow> bool \<Rightarrow> path \<Rightarrow> download_capabilities \<Rightarrow> transfer \<Rightarrow> rstr \<Rightarrow> u64 \<Rightarrow> saved_item list
     \<Rightarrow> turbo_job option \<Rightarrow> download_job" where
  "new_job cx l source background output c t e n items turbo =
     \<lparr>dj_version = DL_VERSION, dj_id = (case file_name (base_of cx) of None \<Rightarrow> [] | Some n \<Rightarrow> n),
      dj_direction = lit ''download'', dj_state = (if background then lit ''awaiting-execution'' else lit ''running''),
      dj_instance = lk_instance l, dj_done = 0, dj_total = n, dj_transfer_id = lk_id l, dj_chunk_bytes = dt_chunk_bytes t,
      dj_server_concurrency = server_download_limit c t, dj_ranges = server_ranges c t, dj_driver = dt_driver t,
      dj_envelope = e, dj_source = source, dj_turbo = turbo, dj_output = output, dj_output_absolute = True,
      dj_items = items, dj_selected_item_ids = None, dj_selection_frozen = False\<rparr>"

definition prepare_download ::
  "dr_ctx \<Rightarrow> dr_env \<Rightarrow> link \<Rightarrow> download_source \<Rightarrow> path \<Rightarrow> bool \<Rightarrow> (download_job \<times> u8 list \<times> rstr option) dr_op" where
  "prepare_download cx env l source output background =
     bind_st (\<lambda>s. case control_phase Connecting (os_control s) of
                Inl e \<Rightarrow> (Err (DlControl e), s) | Inr c \<Rightarrow> (Ok (), s\<lparr>os_control := c\<rparr>)) (\<lambda>_.
     bind_st (lift_st (capabilities (dx_json cx) (de_capabilities env))) (\<lambda>caps.
     bind_st (open_transfer cx env (lk_id l)) (\<lambda>t.
     bind_st (lift_st (envelope_of t)) (\<lambda>e.
     bind_st (dr_ct (unlock_link (dx_crypto cx) (dx_decode cx) (dx_json cx) (de_unlock env) l e)) (\<lambda>(master, share_key).
     bind_st (if source = PublicSource
              then dr_ck (save_secret (dx_crypto cx) (dx_rng cx) (dx_secret cx) (dx_store cx) (lit ''share-key'') share_key)
              else lift_st (Ok ())) (\<lambda>_.
     bind_st (dr_ft (fs_io (create_dir_all [] output))) (\<lambda>_.
     bind_st (lift_st (map_err DlIo (de_canonical env))) (\<lambda>output.
     bind_st (open_manifest cx env (turbo_of t \<noteq> None) master (lk_id l) e t) (\<lambda>m.
     bind_st (lift_st (live_join_token t m)) (\<lambda>token.
     bind_st (dr_control (set_attached_note (mf_attached_note m))) (\<lambda>_.
     bind_st (lift_st (total_size m)) (\<lambda>n.
     bind_st (dr_ft (plan_items (de_candidates env) output (turbo_of t \<noteq> None) {} (mf_items m))) (\<lambda>items.
     bind_st (lift_st (turbo_job_of cx env (turbo_of t))) (\<lambda>turbo.
     let job = new_job cx l source background output caps t e n items turbo in
     bind_st (store_job cx job) (\<lambda>_.
     bind_st (dr_control (set_checkpoint_id (dj_id job))) (\<lambda>_.
     lift_st (Ok (job, master, token))))))))))))))))))"

section \<open>Resuming\<close>

text \<open>The chunks of one item: a bit stays only if its retained ciphertext decrypts and is written again.\<close>

fun restore_chunks :: "dr_ctx \<Rightarrow> u8 list \<Rightarrow> download_job \<Rightarrow> nat \<Rightarrow> saved_item \<Rightarrow> nat list \<Rightarrow> saved_item ft_op" where
  "restore_chunks cx master job i item [] = lift_st (Ok item)"
| "restore_chunks cx master job i item (k # ks) =
     (if si_verified item ! k then
        bind_st (restore_retained (dx_crypto cx) (dx_decode cx) (base_of cx) i (dj_transfer_id job) (dj_chunk_bytes job)
                   item (of_nat k) master) (\<lambda>kept.
        restore_chunks cx master job i
          (if kept then item else item\<lparr>si_verified := (si_verified item)[k := False]\<rparr>) ks)
      else restore_chunks cx master job i item ks)"

definition layout_changed :: "download_job \<Rightarrow> saved_item \<Rightarrow> manifest_item \<Rightarrow> bool" where
  "layout_changed job saved item \<longleftrightarrow>
     si_id saved \<noteq> mi_id item \<or> si_size saved \<noteq> mi_size item \<or> si_chunk_count saved \<noteq> mi_chunk_count item
     \<or> (dj_turbo job = None \<and> si_digest saved \<noteq> digest_hex (mi_digest item))"

definition restore_item :: "dr_ctx \<Rightarrow> u8 list \<Rightarrow> download_job \<Rightarrow> nat \<Rightarrow> saved_item \<Rightarrow> manifest_item \<Rightarrow> saved_item ft_op" where
  "restore_item cx master job i saved item =
     (if layout_changed job saved item then lift_st (Err (DlMsg ''saved download layout changed''))
      else if \<not> selected job saved then lift_st (Ok saved)
      else if si_published saved then
        bind_st (on_fs (path_is_file (si_target saved))) (\<lambda>present.
        if \<not> present then lift_st (Err (DlMsg ''published download target is missing or corrupted''))
        else
          bind_st (sha256_file (dx_sha cx) (si_target saved)) (\<lambda>d.
          lift_st (if d \<noteq> si_digest saved then Err (DlMsg ''published download target is missing or corrupted'') else Ok saved)))
      else restore_chunks cx master job i saved [0 ..< unat (si_chunk_count saved)])"

fun restore_items :: "dr_ctx \<Rightarrow> u8 list \<Rightarrow> download_job \<Rightarrow> nat \<Rightarrow> saved_item list \<Rightarrow> manifest_item list \<Rightarrow> saved_item list ft_op" where
  "restore_items cx master job i (saved # ss) (item # ms) =
     bind_st (restore_item cx master job i saved item) (\<lambda>saved'.
     bind_st (restore_items cx master job (Suc i) ss ms) (\<lambda>rest. lift_st (Ok (saved' # rest))))"
| "restore_items cx master job i _ _ = lift_st (Ok [])"

text \<open>\<open>sum::<u64>\<close> over the verified chunks of the selected items; it wraps in a release build.\<close>

definition resumed_done :: "download_job \<Rightarrow> u64" where
  "resumed_done job = sum_list (map (verified_bytes_of job) (filter (selected job) (dj_items job)))"

text \<open>One record that arrived in the background, at an unverified chunk of a selected item.\<close>

definition consume_chunk :: "dr_ctx \<Rightarrow> dr_env \<Rightarrow> u8 list \<Rightarrow> nat \<Rightarrow> nat \<Rightarrow> download_job \<Rightarrow> download_job ft_op" where
  "consume_chunk cx env master i k job s =
     (let p = background_cipher_path (base_of cx) i (of_nat k); item = dj_items job ! i;
          expected = plaintext_len (si_size item) (dj_chunk_bytes job) (of_nat k) in
      if si_verified item ! k then (Ok job, s)
      else
        case fs_io (read_file p) s of
          (Inl e, s') \<Rightarrow> (if e = DlIo NotFound then Ok job else Err e, s')
        | (Inr ciphertext, s') \<Rightarrow>
            if of_nat (length ciphertext) \<noteq> expected + 16
            then (Err (DlMsg ''background ciphertext length changed''), s')
            else
              bind_st (authenticate_and_write (dx_crypto cx) (dx_decode cx) (de_fresh env i (of_nat k)) (base_of cx) i (of_nat k)
                         (dj_chunk_bytes job) (dj_transfer_id job) item master ciphertext False) (\<lambda>_.
              bind_st (lift_st (ok_or (DlMsg ''download progress overflow'') (checked_add (dj_done job) expected))) (\<lambda>n.
              bind_st (fs_io (remove_file p)) (\<lambda>_.
              lift_st (Ok ((edit_item i (\<lambda>item. item\<lparr>si_verified := (si_verified item)[k := True]\<rparr>) job)\<lparr>dj_done := n\<rparr>))))) s')"

fun consume_chunks :: "dr_ctx \<Rightarrow> dr_env \<Rightarrow> u8 list \<Rightarrow> nat \<Rightarrow> nat list \<Rightarrow> download_job \<Rightarrow> download_job ft_op" where
  "consume_chunks cx env master i [] job = lift_st (Ok job)"
| "consume_chunks cx env master i (k # ks) job =
     bind_st (consume_chunk cx env master i k job) (consume_chunks cx env master i ks)"

fun consume_items :: "dr_ctx \<Rightarrow> dr_env \<Rightarrow> u8 list \<Rightarrow> nat list \<Rightarrow> download_job \<Rightarrow> download_job ft_op" where
  "consume_items cx env master [] job = lift_st (Ok job)"
| "consume_items cx env master (i # is) job =
     (if selected job (dj_items job ! i)
      then bind_st (consume_chunks cx env master i [0 ..< unat (si_chunk_count (dj_items job ! i))] job) (consume_items cx env master is)
      else consume_items cx env master is job)"

definition consume_background_ciphertext :: "dr_ctx \<Rightarrow> dr_env \<Rightarrow> u8 list \<Rightarrow> download_job \<Rightarrow> download_job ft_op" where
  "consume_background_ciphertext cx env master job =
     bind_st (consume_items cx env master [0 ..< length (dj_items job)] job) (\<lambda>job.
     lift_st (Ok (if dj_state job = lit ''awaiting-execution'' then job\<lparr>dj_state := lit ''running''\<rparr> else job)))"

definition saved_key :: "dr_ctx \<Rightarrow> download_job \<Rightarrow> u8 list option \<Rightarrow> u8 list dr_op" where
  "saved_key cx job inbox_key =
     bind_st (if dj_source job = InboxSource
              then lift_st (ok_or (DlMsg ''inbox download resume requires reauthentication'') inbox_key)
              else bind_st (dr_ck (load_secret (dx_crypto cx) (dx_secret cx) (dx_store cx) (lit ''share-key''))) (\<lambda>key.
                   lift_st (ok_or (DlMsg ''saved download key is unavailable; restart with the original link'') key))) (\<lambda>key.
     if length key \<noteq> 32 then lift_st (Err (DlMsg ''saved download key is invalid''))
     else
       bind_st (if dj_source job = PublicSource
                then dr_ck (save_secret (dx_crypto cx) (dx_rng cx) (dx_secret cx) (dx_store cx) (lit ''share-key'') key)
                else lift_st (Ok ())) (\<lambda>_. lift_st (Ok key)))"

definition identity_changed :: "download_job \<Rightarrow> transfer \<Rightarrow> bool" where
  "identity_changed job t \<longleftrightarrow>
     dt_chunk_bytes t \<noteq> dj_chunk_bytes job \<or> dt_driver t \<noteq> dj_driver job
     \<or> (dj_turbo job = None \<and> dt_encrypted_manifest t \<noteq> Some (dj_envelope job))
     \<or> (dj_turbo job \<noteq> None \<and> dt_encrypted_descriptor t \<noteq> map_option tb_descriptor (dj_turbo job))"

definition prepare_resume ::
  "dr_ctx \<Rightarrow> dr_env \<Rightarrow> u8 list option \<Rightarrow> download_job \<Rightarrow> (download_job \<times> u8 list \<times> rstr option) dr_op" where
  "prepare_resume cx env inbox_key job =
     bind_st (lift_st (capabilities (dx_json cx) (de_capabilities env))) (\<lambda>caps.
     bind_st (saved_key cx job inbox_key) (\<lambda>share_key.
     bind_st (open_transfer cx env (dj_transfer_id job)) (\<lambda>t.
     if identity_changed job t then lift_st (Err (DlMsg ''transfer identity changed; refusing saved ciphertext''))
     else
       bind_st (dr_ct (unlock_saved (dx_crypto cx) (dx_decode cx) (dx_json cx) (de_unlock env) share_key (dj_envelope job))) (\<lambda>master.
       let job = job\<lparr>dj_server_concurrency := server_download_limit caps t, dj_ranges := server_ranges caps t\<rparr> in
       bind_st (open_manifest cx env (dj_turbo job \<noteq> None) master (dj_transfer_id job) (dj_envelope job) t) (\<lambda>m.
       bind_st (lift_st (live_join_token t m)) (\<lambda>token.
       bind_st (dr_control (set_attached_note (mf_attached_note m))) (\<lambda>_.
       if length (mf_items m) \<noteq> length (dj_items job) then lift_st (Err (DlMsg ''saved download layout changed''))
       else
         bind_st (dr_ft (restore_items cx master job 0 (dj_items job) (mf_items m))) (\<lambda>items.
         let job = job\<lparr>dj_items := items\<rparr> in
         bind_st (dr_ft (consume_background_ciphertext cx env master (job\<lparr>dj_done := resumed_done job\<rparr>))) (\<lambda>job.
         bind_st (store_job cx job) (\<lambda>_. lift_st (Ok (job, master, token))))))))))))"

section \<open>Execution by the host\<close>

record background_header =
  bh_name :: rstr
  bh_value :: rstr

record work_descriptor =
  bw_operation_id :: rstr
  bw_transfer_id :: rstr
  bw_method :: rstr
  bw_url :: rstr
  bw_headers :: "background_header list"
  bw_body_path :: rstr
  bw_expected_response_bytes :: u64

definition download_eligible :: "download_job \<Rightarrow> bool" where
  "download_eligible job \<longleftrightarrow> dj_state job = lit ''awaiting-execution'' \<and> dj_driver job = lit ''http'' \<and> dj_turbo job = None"

definition selection_eligible :: "download_job \<Rightarrow> bool" where
  "selection_eligible job \<longleftrightarrow>
     dj_state job = lit ''awaiting-execution'' \<and> (dj_driver job = lit ''http'' \<or> dj_driver job = lit ''webrtc'') \<and> dj_turbo job = None"

definition operation_id :: "download_job \<Rightarrow> saved_item \<Rightarrow> u64 \<Rightarrow> rstr" where
  "operation_id job item k = dj_id job @ lit '':'' @ si_id item @ lit '':'' @ decimal (unat k)"

text \<open>Issuing work freezes the selection.\<close>

definition freeze_selection :: "download_job \<Rightarrow> (download_job, dl_error) result" where
  "freeze_selection job =
     (let job = (if dj_selected_item_ids job = None then job\<lparr>dj_selected_item_ids := Some (map si_id (dj_items job))\<rparr> else job) in
      and_then (selected_total job) (\<lambda>n. Ok (job\<lparr>dj_total := n, dj_selection_frozen := True\<rparr>)))"

definition bad_cookie :: "rstr \<Rightarrow> bool" where
  "bad_cookie cookie \<longleftrightarrow> cookie = [] \<or> list_ex (\<lambda>c. c = 13 \<or> c = 10) cookie"

definition work_item :: "download_job \<Rightarrow> rstr option \<Rightarrow> saved_item \<Rightarrow> u64 \<Rightarrow> (work_descriptor, dl_error) result" where
  "work_item job cookie item k =
     (if (case cookie of None \<Rightarrow> False | Some v \<Rightarrow> bad_cookie v)
      then Err (DlMsg ''invalid authenticated inbox download credentials'')
      else Ok \<lparr>bw_operation_id = operation_id job item k, bw_transfer_id = dj_id job, bw_method = lit ''GET'',
               bw_url = chunk_url (dj_instance job) (dj_transfer_id job) (si_id item) k (dj_source job),
               bw_headers = (case cookie of None \<Rightarrow> [] | Some v \<Rightarrow> [\<lparr>bh_name = lit ''Cookie'', bh_value = v\<rparr>]),
               bw_body_path = [],
               bw_expected_response_bytes = plaintext_len (si_size item) (dj_chunk_bytes job) k + 16\<rparr>)"

fun work_list :: "dr_ctx \<Rightarrow> download_job \<Rightarrow> rstr option \<Rightarrow> (nat \<times> nat) list \<Rightarrow> work_descriptor list ft_op" where
  "work_list cx job cookie [] = lift_st (Ok [])"
| "work_list cx job cookie ((i, k) # rest) =
     (let item = dj_items job ! i in
      if si_verified item ! k then work_list cx job cookie rest
      else
        bind_st (on_fs (path_exists (background_cipher_path (base_of cx) i (of_nat k)))) (\<lambda>arrived.
        if arrived then work_list cx job cookie rest
        else
          bind_st (lift_st (work_item job cookie item (of_nat k))) (\<lambda>w.
          bind_st (work_list cx job cookie rest) (\<lambda>ws. lift_st (Ok (w # ws))))))"

definition selected_chunks :: "download_job \<Rightarrow> (nat \<times> nat) list" where
  "selected_chunks job =
     concat (map (\<lambda>i. map (Pair i) [0 ..< unat (si_chunk_count (dj_items job ! i))])
       (filter (\<lambda>i. selected job (dj_items job ! i)) [0 ..< length (dj_items job)]))"

definition background_work :: "dr_ctx \<Rightarrow> rstr option \<Rightarrow> work_descriptor list dr_op" where
  "background_work cx cookie =
     bind_st (load_job cx) (\<lambda>job.
     if \<not> download_eligible job then lift_st (Err (DlMsg ''saved download is not eligible for external HTTP execution''))
     else
       bind_st (if dj_selection_frozen job then lift_st (Ok job)
                else bind_st (lift_st (freeze_selection job)) (\<lambda>job. bind_st (store_job cx job) (\<lambda>_. lift_st (Ok job)))) (\<lambda>job.
       bind_st (case dj_source job of
                  PublicSource \<Rightarrow> lift_st (Ok None)
                | InboxSource \<Rightarrow> lift_st (and_then (ok_or (DlMsg ''inbox background download requires a renewed cookie'') cookie) (\<lambda>v. Ok (Some v))))
         (\<lambda>cookie. dr_ft (work_list cx job cookie (selected_chunks job)))))"

text \<open>The chunk an operation names: the last item with a matching chunk wins.\<close>

definition find_operation :: "download_job \<Rightarrow> rstr \<Rightarrow> (nat \<times> u64) option" where
  "find_operation job operation =
     fold (\<lambda>i found.
       case find (\<lambda>k. operation = operation_id job (dj_items job ! i) (of_nat k)) [0 ..< unat (si_chunk_count (dj_items job ! i))] of
         Some k \<Rightarrow> Some (i, of_nat k) | None \<Rightarrow> found) [0 ..< length (dj_items job)] None"

definition header_named :: "string \<Rightarrow> background_header list \<Rightarrow> rstr option" where
  "header_named name hs = map_option bh_value (find (\<lambda>h. eq_ignore_ascii_case (bh_name h) (lit name)) hs)"

definition store_completion :: "dr_ctx \<Rightarrow> path \<Rightarrow> u64 \<Rightarrow> nat \<Rightarrow> u64 \<Rightarrow> unit dr_op" where
  "store_completion cx response_path expected i k =
     bind_st (dr_ft (fs_io (symlink_metadata response_path))) (\<lambda>n.
     if \<not> is_file n \<or> of_nat (node_len n) \<noteq> expected then lift_st (Err (DlMsg ''background download response file length mismatch''))
     else
       bind_st (dr_ft (fs_io (read_file response_path))) (\<lambda>ciphertext.
       let target = background_cipher_path (base_of cx) i k in
       bind_st (dr_ft (on_fs (path_exists target))) (\<lambda>present.
       if present then
         bind_st (dr_ft (fs_io (read_file target))) (\<lambda>kept.
         lift_st (if kept \<noteq> ciphertext then Err (DlMsg ''background download completion conflicts with retained ciphertext'') else Ok ()))
       else
         bind_st (dr_ck (persist_immutable (dx_store cx)
                    (lit ''background-cipher-'' @ decimal i @ lit ''-'' @ decimal (unat k)) ciphertext)) (\<lambda>_. lift_st (Ok ())))))"

definition ingest_background_completion ::
  "dr_ctx \<Rightarrow> rstr \<Rightarrow> u16 \<Rightarrow> background_header list \<Rightarrow> path \<Rightarrow> unit dr_op" where
  "ingest_background_completion cx operation status hs response_path =
     bind_st (load_job cx) (\<lambda>job.
     if \<not> download_eligible job then lift_st (Err (DlMsg ''saved download is not eligible for external HTTP execution''))
     else if status \<noteq> 200 then lift_st (Err (DlMsg ''background download did not receive HTTP 200''))
     else
       bind_st (lift_st (ok_or (DlMsg ''background completion does not match a pending download operation'')
                  (find_operation job operation))) (\<lambda>(i, k).
       let item = dj_items job ! i in
       if \<not> dj_selection_frozen job \<or> \<not> selected job item
       then lift_st (Err (DlMsg ''background completion is not for a selected download item''))
       else if si_verified item ! unat k then lift_st (Ok ())
       else
         let expected = plaintext_len (si_size item) (dj_chunk_bytes job) k + 16 in
         bind_st (lift_st (map_err DlHttp (validate_content_length (header_named ''content-length'' hs) expected))) (\<lambda>_.
         bind_st (lift_st (ok_or (DlMsg ''background download response lacks strong ETag'') (header_named ''etag'' hs))) (\<lambda>etag.
         if etag = [] \<or> starts_with etag (lit ''W/'') \<or> list_ex (\<lambda>c. c = 13 \<or> c = 10) etag
         then lift_st (Err (DlMsg ''background download ETag must be strong''))
         else store_completion cx response_path expected i k))))"

definition background_items :: "dr_ctx \<Rightarrow> (rstr \<times> rstr \<times> u64) list dr_op" where
  "background_items cx =
     bind_st (load_job cx) (\<lambda>job.
     lift_st (if \<not> selection_eligible job then Err (DlMsg ''saved download is not eligible for item selection'')
              else Ok (map (\<lambda>item. (si_id item, si_name item, si_size item)) (dj_items job))))"

fun any_arrived :: "dr_ctx \<Rightarrow> (nat \<times> nat) list \<Rightarrow> bool ft_op" where
  "any_arrived cx [] = lift_st (Ok False)"
| "any_arrived cx ((i, k) # rest) =
     bind_st (on_fs (path_exists (background_cipher_path (base_of cx) i (of_nat k)))) (\<lambda>arrived.
     if arrived then lift_st (Ok True) else any_arrived cx rest)"

definition all_chunks :: "download_job \<Rightarrow> (nat \<times> nat) list" where
  "all_chunks job =
     concat (map (\<lambda>i. map (Pair i) [0 ..< unat (si_chunk_count (dj_items job ! i))]) [0 ..< length (dj_items job)])"

definition choose_items :: "rstr list \<Rightarrow> download_job \<Rightarrow> (download_job, dl_error) result" where
  "choose_items ids job =
     (if \<not> selection_valid job ids then Err (DlMsg ''download item selection must contain unique manifest item ids'')
      else
        let job = job\<lparr>dj_selected_item_ids := Some ids\<rparr> in
        and_then (selected_total job) (\<lambda>n. Ok (job\<lparr>dj_total := n, dj_selection_frozen := True\<rparr>)))"

definition select_background_items :: "dr_ctx \<Rightarrow> rstr list \<Rightarrow> unit dr_op" where
  "select_background_items cx ids =
     bind_st (load_job cx) (\<lambda>job.
     if \<not> selection_eligible job then lift_st (Err (DlMsg ''saved download is not eligible for item selection''))
     else
       bind_st (if dj_selection_frozen job \<or> list_ex (\<lambda>item. list_ex id (si_verified item)) (dj_items job)
                then lift_st (Ok True) else dr_ft (any_arrived cx (all_chunks job))) (\<lambda>started.
       if started then lift_st (Err (DlMsg ''download item selection is frozen after work has started''))
       else bind_st (lift_st (choose_items ids job)) (store_job cx)))"

section \<open>The whole download\<close>

text \<open>The rounds of \<open>finalize_turbo_manifest\<close>; \<open>None\<close> while the sender has not finished. A round is the
  metadata request, the memory waits, and whether the pause of a second is cut short.\<close>

record turbo_round =
  tr_metadata :: "nat \<Rightarrow> attempt_env"
  tr_memory :: bool
  tr_phase_fails :: bool
  tr_cut :: bool

definition dq_ct :: "'a ct_op \<Rightarrow> 'a dq_op" where
  "dq_ct m s = (case m (ds_control s) of (r, c) \<Rightarrow> (r, s\<lparr>ds_control := c\<rparr>))"

definition open_final :: "dr_ctx \<Rightarrow> turbo_round \<Rightarrow> u8 list \<Rightarrow> transfer \<Rightarrow> rstr \<Rightarrow> unit dq_op" where
  "open_final cx env master t e s =
     (let job = ds_job s in
      bind_st (dq_ct (manifest_for (dx_crypto cx) (dx_decode cx) (dx_json cx) (tr_memory env) master (dj_transfer_id job) e t)) (\<lambda>m.
      bind_st (lift_st (ok_or (DlMsg ''missing Turbo descriptor'') (dj_turbo job))) (\<lambda>turbo.
      bind_st (dq_ct (turbo_descriptor_for (dx_crypto cx) (dx_decode cx) (dx_json cx) (tr_memory env) master (dj_transfer_id job)
                        (tb_descriptor turbo) t)) (\<lambda>d.
      bind_st (lift_st (bind_final_manifest e m (mf_attached_note d) job)) (\<lambda>job. edit_job (\<lambda>_. job))))) s)"

fun finalize_turbo_manifest ::
  "dr_ctx \<Rightarrow> u8 list \<Rightarrow> turbo_round list \<Rightarrow> dl_state \<Rightarrow> ((unit, dl_error) result \<times> dl_state) option" where
  "finalize_turbo_manifest cx master [] s = None"
| "finalize_turbo_manifest cx master (env # envs) s =
     (case on_ft (metadata (dx_json cx) (tr_metadata env)) s of
        (Inl e, s') \<Rightarrow> Some (Err e, s')
      | (Inr t, s') \<Rightarrow>
          (case dt_encrypted_manifest t of
             Some e \<Rightarrow> Some (open_final cx env master t e s')
           | None \<Rightarrow>
               if tr_phase_fails env then Some (Err (DlControl Cancelled), s')
               else if tr_cut env then Some (Err DL_CANCELLED, apply_dl_event (DlPhase Waiting) s')
               else finalize_turbo_manifest cx master envs (apply_dl_event (DlPhase Waiting) s')))"

fun publish_turbo :: "dl_ctx \<Rightarrow> step_env \<Rightarrow> nat list \<Rightarrow> unit dq_op" where
  "publish_turbo cx env [] = lift_st (Ok ())"
| "publish_turbo cx env (i # is) =
     bind_st (\<lambda>s.
       if selected (ds_job s) (dj_items (ds_job s) ! i)
       then bind_st (on_ft (publish_item (cx_sha cx) (sv_fresh env i) (st_directory (cx_store cx)) (dj_items (ds_job s) ! i) i)) (\<lambda>_.
            bind_st (edit_job (edit_item i (\<lambda>item. item\<lparr>si_published := True\<rparr>))) (\<lambda>_. save_job cx)) s
       else (Ok (), s)) (\<lambda>_.
     publish_turbo cx env is)"

record download_env =
  dn_consent :: secret_env
  dn_ready :: step_env
  dn_steps :: "step_env list"
  dn_rounds :: "turbo_round list"
  dn_last :: step_env

definition peer_consent :: "secret_env \<Rightarrow> rstr \<Rightarrow> unit ct_op" where
  "peer_consent env peer c =
     (case request_peer_consent (se_open env) peer
             [(se_cancelled env, case se_reply env of None \<Rightarrow> Disconnected | Some v \<Rightarrow> Reply v)] c of
        (Some r, c') \<Rightarrow> (map_err DlControl r, c')
      | (None, c') \<Rightarrow> (Err (DlControl Cancelled), c'))"

text \<open>What happens before the first request: the peer's consent and, for a live transfer, its join
  capability.\<close>

definition admit_download :: "download_env \<Rightarrow> rstr option \<Rightarrow> unit dq_op" where
  "admit_download env token s =
     (let job = ds_job s in
      if \<not> (dj_driver job = lit ''http'' \<or> dj_driver job = lit ''webrtc'') then (Err (DlMsg ''unsupported download driver''), s)
      else
        bind_st (if is_live job \<and> \<not> set_webrtc_relay_only (ctl_settings (ds_control s))
                 then dq_ct (peer_consent (dn_consent env) (dj_transfer_id job)) else lift_st (Ok ())) (\<lambda>_.
        lift_st (if is_live job \<and> token = None then Err (DlMsg ''live transfer has no join capability'') else Ok ())) s)"

definition turbo_end ::
  "dr_ctx \<Rightarrow> dl_ctx \<Rightarrow> download_env \<Rightarrow> u8 list \<Rightarrow> dl_state \<Rightarrow> ((unit, dl_error) result \<times> dl_state) option" where
  "turbo_end dx cx env master s =
     (if dj_turbo (ds_job s) = None then Some (Ok (), s)
      else
        map_option (\<lambda>(r, s').
            case r of
              Inl e \<Rightarrow> (Err e, s')
            | Inr _ \<Rightarrow>
                bind_st (publish_turbo cx (dn_last env) [0 ..< length (dj_items (ds_job s'))]) (\<lambda>_.
                bind_st (report_turbo (dn_last env)) (\<lambda>_. save_job cx)) s')
          (finalize_turbo_manifest dx master (dn_rounds env) s))"

definition download ::
  "dr_ctx \<Rightarrow> dl_ctx \<Rightarrow> download_env \<Rightarrow> download_job \<Rightarrow> u8 list \<Rightarrow> rstr option \<Rightarrow> open_state
     \<Rightarrow> ((path list, dl_error) result \<times> dl_state) option" where
  "download dx cx env job master token os =
     (case bind_st (admit_download env token) (\<lambda>_.
             publish_ready cx (dn_ready env) [0 ..< length (dj_items job)]) (start_download job (os_fs os) (os_control os)) of
        (Inl e, s) \<Rightarrow> Some (Err e, s)
      | (Inr _, s) \<Rightarrow>
          (case run_queue cx (dn_steps env) (enqueue s) of
             None \<Rightarrow> None
           | Some (Inl e, s) \<Rightarrow> Some (Err e, s)
           | Some (Inr _, s) \<Rightarrow>
               (case turbo_end dx cx env master s of
                  None \<Rightarrow> None
                | Some (Inl e, s) \<Rightarrow> Some (Err e, s)
                | Some (Inr _, s) \<Rightarrow> Some (finish_download cx s))))"

definition queue_ctx :: "dr_ctx \<Rightarrow> download_job \<Rightarrow> u8 list \<Rightarrow> control \<Rightarrow> dl_ctx" where
  "queue_ctx dx job master c =
     \<lparr>cx_crypto = dx_crypto dx, cx_rng = dx_rng dx, cx_to_vec = dx_to_vec dx, cx_decode = dx_decode dx, cx_sha = dx_sha dx,
      cx_store = dx_store dx, cx_master = master, cx_slots = download_slots job c\<rparr>"

text \<open>\<open>async_run\<close> and \<open>async_resume\<close>. A background preparation returns the name of the checkpoint.\<close>

definition async_run ::
  "dr_ctx \<Rightarrow> dr_env \<Rightarrow> download_env \<Rightarrow> link \<Rightarrow> download_source \<Rightarrow> path \<Rightarrow> bool \<Rightarrow> open_state
     \<Rightarrow> ((path list, dl_error) result) option" where
  "async_run dx env env' l source output background s =
     (case prepare_download dx env l source output background s of
        (Inl e, _) \<Rightarrow> Some (Err e)
      | (Inr (job, master, token), s') \<Rightarrow>
          if background then Some (Ok [[dj_id job]])
          else map_option fst (download dx (queue_ctx dx job master (os_control s')) env' job master token s'))"

definition async_resume ::
  "dr_ctx \<Rightarrow> dr_env \<Rightarrow> download_env \<Rightarrow> u8 list option \<Rightarrow> download_job \<Rightarrow> open_state \<Rightarrow> ((path list, dl_error) result) option" where
  "async_resume dx env env' inbox_key job s =
     (if dj_state job = lit ''complete'' then Some (fst (dr_ft (completed_paths (dx_sha dx) job) s))
      else
        case prepare_resume dx env inbox_key job s of
          (Inl e, _) \<Rightarrow> Some (Err e)
        | (Inr (job, master, token), s') \<Rightarrow>
            map_option fst (download dx (queue_ctx dx job master (os_control s')) env' job master token s'))"

definition resume_download :: "dr_ctx \<Rightarrow> dr_env \<Rightarrow> download_env \<Rightarrow> open_state \<Rightarrow> ((path list, dl_error) result) option" where
  "resume_download dx env env' s =
     (case load_job dx s of
        (Inl e, _) \<Rightarrow> Some (Err e)
      | (Inr job, s') \<Rightarrow>
          if dj_source job = InboxSource then Some (Err (DlMsg ''inbox download resume requires reauthentication''))
          else async_resume dx env env' None job s')"

definition resume_inbox ::
  "dr_ctx \<Rightarrow> dr_env \<Rightarrow> download_env \<Rightarrow> rstr \<Rightarrow> u8 list \<Rightarrow> rstr \<Rightarrow> rstr \<Rightarrow> open_state \<Rightarrow> ((path list, dl_error) result) option" where
  "resume_inbox dx env env' instance_url working_key cookie i s =
     (if length working_key \<noteq> 32 \<or> bad_cookie cookie then Some (Err (DlMsg ''invalid authenticated inbox download credentials''))
      else
        case load_job dx s of
          (Inl e, _) \<Rightarrow> Some (Err e)
        | (Inr job, s') \<Rightarrow>
            if dj_source job \<noteq> InboxSource then Some (Err (DlMsg ''saved transfer is not an inbox download''))
            else if dj_instance job \<noteq> instance_url then Some (Err (DlMsg ''inbox session origin does not match the saved download''))
            else async_resume dx env env' (Some working_key) job (s'\<lparr>os_control := set_checkpoint_id i (os_control s')\<rparr>))"

section \<open>A prepared job is ready for the download loop\<close>

text \<open>What the loop relies on.\<close>

definition job_ready :: "download_job \<Rightarrow> bool" where
  "job_ready job \<longleftrightarrow>
     job_checked job = Ok () \<and> layout_ok job \<and> exact_layout job \<and> unat (dj_done job) = job_bytes job
     \<and> 1 \<le> dj_server_concurrency job \<and> dj_server_concurrency job \<le> 8"

lemma dr_ft_Ok: "dr_ft m s = (Inr x, s') \<Longrightarrow> \<exists>t. m \<lparr>ft_fs = os_fs s, ft_events = []\<rparr> = (Inr x, t) \<and> os_fs s' = ft_fs t"
  by (auto simp: dr_ft_def split: prod.splits)

lemma dr_ct_Ok: "dr_ct m s = (Inr x, s') \<Longrightarrow> \<exists>c. m (os_control s) = (Inr x, c) \<and> os_fs s' = os_fs s"
  by (auto simp: dr_ct_def split: prod.splits)

lemma collision_free_Ok:
  "collision_free_from n d name i s = (Inr (Some p), s') \<Longrightarrow> \<exists>j. p = candidate d name j"
  by (induction n arbitrary: i s) (auto simp: bind_st_Inr split: if_splits)

lemma candidate_named:
  assumes "name \<noteq> lit ''..''"
  shows "parent (candidate d name j) = Some d" "file_name (candidate d name j) \<noteq> None"
proof -
  have "name @ lit '' ('' @ decimal j @ lit '')'' \<noteq> lit ''..''"
    by (rule notI, drule arg_cong [where f = last]) simp
  then show "file_name (candidate d name j) \<noteq> None" using assms by (simp add: candidate_def file_name_def)
qed (simp add: candidate_def parent_def)

lemma download_filename_named: "download_filename v \<noteq> lit ''..''"
  by (simp add: download_filename_def Let_def)

definition planned :: "path \<Rightarrow> saved_item \<Rightarrow> manifest_item \<Rightarrow> bool" where
  "planned output saved item \<longleftrightarrow>
     parent (si_target saved) = Some output \<and> file_name (si_target saved) \<noteq> None
     \<and> si_verified saved = replicate (unat (si_chunk_count saved)) False
     \<and> si_chunk_count saved = mi_chunk_count item \<and> si_size saved = mi_size item \<and> si_id saved = mi_id item"

lemma plan_items_Ok:
  "plan_items n output turbo names ms s = (Inr items, s') \<Longrightarrow> list_all2 (planned output) items ms"
proof (induction ms arbitrary: names s items)
  case (Cons m ms)
  then obtain p rest s1 s2 where "on_fs (collision_free n output (download_filename (mi_name m))) s = (Inr (Some p), s1)"
      and rest: "plan_items n output turbo (insert (mi_name m) names) ms s2 = (Inr rest, s')"
      and items: "items = \<lparr>si_id = mi_id m, si_name = mi_name m, si_size = mi_size m,
                      si_nonce_prefix = mi_nonce_prefix m, si_chunk_count = mi_chunk_count m,
                      si_digest = (if turbo then [] else digest_hex (mi_digest m)), si_target = p,
                      si_verified = replicate (unat (mi_chunk_count m)) False, si_published = False\<rparr> # rest"
    by (auto simp: bind_st_Inr ok_or_eq_Inr split: if_splits)
  then obtain j where "p = candidate output (download_filename (mi_name m)) j"
    using collision_free_Ok by (fastforce simp: on_fs_def collision_free_def split: prod.splits)
  then show ?case
    using Cons.IH [OF rest] candidate_named [OF download_filename_named] by (simp add: items planned_def)
qed simp

lemma right_count_covers:
  "right_count c item \<Longrightarrow> unat (mi_size item) \<le> unat (mi_chunk_count item) * unat c"
proof -
  assume r: "right_count c item"
  then have "ceil_div (unat (mi_size item)) (unat c) * unat c \<le> unat (mi_chunk_count item) * unat c"
    by (intro mult_le_mono1) (simp add: right_count_def)
  moreover have "unat (mi_size item) \<le> ceil_div (unat (mi_size item)) (unat c) * unat c"
    using r by (intro ceil_div_covers) (simp add: right_count_def)
  ultimately show ?thesis by linarith
qed

lemma fresh_item_bytes: "si_verified item = replicate n False \<Longrightarrow> item_bytes c item = 0"
  by (simp add: item_bytes_def)

lemma new_job_ready:
  assumes p: "list_all2 (planned output) items ms" and c: "list_all (right_count (dt_chunk_bytes t)) ms"
    and id: "file_name (base_of cx) = Some i" "i \<noteq> []"
    and t: "dt_chunk_bytes t \<noteq> 0" "dt_driver t = lit ''http'' \<or> dt_driver t = lit ''webrtc''"
  shows "job_ready (new_job cx l source background output caps t e n items turbo)"
proof -
  let ?job = "new_job cx l source background output caps t e n items turbo"
  have f: "dj_items ?job = items" "dj_chunk_bytes ?job = dt_chunk_bytes t" "dj_output ?job = output" "dj_done ?job = 0"
    "dj_server_concurrency ?job = server_download_limit caps t" by (simp_all add: new_job_def)
  have item: "planned output (items ! j) (ms ! j)" "right_count (dt_chunk_bytes t) (ms ! j)" if "j < length items" for j
    using that p c by (auto simp: list_all2_conv_all_nth list_all_length)
  have lay: "layout_ok ?job" using item(1) by (auto simp: layout_ok_def f list_all_length planned_def)
  moreover have "exact_layout ?job"
    using item right_count_covers by (fastforce simp: exact_layout_def f list_all_length planned_def)
  moreover have "job_bytes ?job = 0"
    unfolding job_bytes_def f using item(1) by (intro sum.neutral) (auto simp: planned_def fresh_item_bytes)
  moreover have "job_checked ?job = Ok ()"
    using item(1) id t lay
    by (auto simp: job_checked_def item_checked_def f list_all_length planned_def layout_ok_def) (simp_all add: new_job_def DL_VERSION_def)
  ultimately show ?thesis using server_download_limit_bounds by (simp add: job_ready_def f(4,5))
qed

lemma open_transfer_Ok:
  assumes "open_transfer cx env i s = (Inr t, s')"
  shows "dt_id t = i" "dt_chunk_bytes t \<noteq> 0" "dt_driver t = lit ''http'' \<or> dt_driver t = lit ''webrtc''"
  using assms by (auto simp: open_transfer_def bind_st_Inr validate_transfer_def split: if_splits)

lemma open_manifest_Ok:
  assumes "open_manifest cx env turbo master i e t s = (Inr m, s')" "dt_chunk_bytes t \<noteq> 0"
  shows "list_all (right_count (dt_chunk_bytes t)) (mf_items m)"
proof -
  obtain c where "(if turbo then turbo_descriptor_for else manifest_for) (dx_crypto cx) (dx_decode cx) (dx_json cx) (de_memory env)
      master i e t (os_control s) = (Inr m, c)"
    using dr_ct_Ok [OF assms(1) [unfolded open_manifest_def]] by blast
  then show ?thesis
    using turbo_descriptor_counts manifest_for_counts assms(2) by (cases turbo) (auto simp: unat_gt_0)
qed


section \<open>What a resumed job counts has just been written again\<close>

text \<open>The scratch file holds \<open>content\<close> at an offset.\<close>

definition holds_at :: "fs \<Rightarrow> path \<Rightarrow> nat \<Rightarrow> u8 list \<Rightarrow> bool" where
  "holds_at f p off content \<longleftrightarrow>
     content = [] \<or> (\<exists>c. content_at p f = Some c \<and> take (length content) (drop off c) = content)"

lemma holds_atI: "content_at p f = Some c \<Longrightarrow> take (length content) (drop off c) = content \<Longrightarrow> holds_at f p off content"
  by (auto simp: holds_at_def)

lemma holds_at_cong: "content_at p f' = content_at p f \<Longrightarrow> holds_at f' p off content = holds_at f p off content"
  by (simp add: holds_at_def)

lemma overwrite_elsewhere:
  assumes "take (length bs') (drop off' c) = bs'" "bs' \<noteq> []" "off' + length bs' \<le> off \<or> off + length bs \<le> off'"
  shows "take (length bs') (drop off' (overwrite off bs c)) = bs'"
proof (rule nth_equalityI)
  have "length bs' \<le> length c - off'" using assms(1) by (metis length_drop length_take min.cobounded1)
  moreover have "0 < length bs'" using assms(2) by simp
  ultimately have in_c: "off' + length bs' \<le> length c" by linarith
  then have "length bs' \<le> length (overwrite off bs c) - off'" unfolding overwrite_slice(4) by linarith
  then show len: "length (take (length bs') (drop off' (overwrite off bs c))) = length bs'" by simp
  fix j assume "j < length (take (length bs') (drop off' (overwrite off bs c)))"
  then have j: "j < length bs'" using len by simp
  have "overwrite off bs c ! (off' + j) = c ! (off' + j)"
    using assms(3) j in_c by (elim disjE) (simp_all add: overwrite_slice(2,3))
  moreover have "c ! (off' + j) = bs' ! j" using arg_cong [OF assms(1), of "\<lambda>x. x ! j"] j in_c by simp
  ultimately show "take (length bs') (drop off' (overwrite off bs c)) ! j = bs' ! j"
    using j in_c by (simp add: overwrite_slice(4))
qed

lemma write_plain_holds:
  assumes "write_plain base i off content s = (Inr x, s')"
  shows "holds_at (ft_fs s') (plain_path base i) off content"
    "holds_at (ft_fs s) (plain_path base i) off' content' \<Longrightarrow> off' + length content' \<le> off \<or> off + length content \<le> off' \<Longrightarrow>
       holds_at (ft_fs s') (plain_path base i) off' content'"
proof -
  note w = write_plain_Ok [OF assms]
  show "holds_at (ft_fs s') (plain_path base i) off content"
    using w overwrite_slice(1) by (cases "content = []") (auto simp: holds_at_def Let_def)
  assume h: "holds_at (ft_fs s) (plain_path base i) off' content'" and d: "off' + length content' \<le> off \<or> off + length content \<le> off'"
  show "holds_at (ft_fs s') (plain_path base i) off' content'"
  proof (cases "content' = []")
    case False
    then obtain c where "content_at (plain_path base i) (ft_fs s) = Some c" "take (length content') (drop off' c) = content'"
      using h by (auto simp: holds_at_def)
    then show ?thesis using w overwrite_elsewhere [OF _ False d]
      by (cases "content = []") (auto simp: Let_def intro!: holds_atI)
  qed (simp add: holds_at_def)
qed

lemma plain_path_inj: "plain_path b i = plain_path b j \<longleftrightarrow> i = j"
proof
  assume "plain_path b i = plain_path b j"
  then have "decimal i = decimal j" by (simp add: plain_path_def)
  then show "i = j" using decimal_digits by metis
qed simp

lemma leaves_write_at [leaves_intro]: "q \<noteq> p \<Longrightarrow> leaves (\<lambda>s. nodes s q) (write_at p off bs)"
  unfolding leaves_def
proof
  fix s assume q: "q \<noteq> p"
  obtain fa s1 where f: "next_fault s = (fa, s1)" by force
  then have "nodes s1 q = nodes s q" using next_fault_view [of "\<lambda>s. nodes s q" s] by simp
  then show "nodes (snd (write_at p off bs s)) q = nodes s q"
    using f q by (cases fa) (auto simp: write_at_def put_view Let_def split: option.split node.split)
qed

lemma write_plain_other: "q \<noteq> plain_path b i \<Longrightarrow> keeps (\<lambda>s. nodes (ft_fs s) q = n) (write_plain b i off content)"
  unfolding write_plain_def restrict_private_def Let_def
  by (intro keeps_bind keeps_fs_io [where v = "\<lambda>s. nodes s q"] leaves_intro leaves_misc(4) faultless_nodes)

text \<open>A chunk is backed: some record authenticates for it and its content is where the chunk belongs.\<close>

definition authentic :: "dr_ctx \<Rightarrow> u8 list \<Rightarrow> download_job \<Rightarrow> saved_item \<Rightarrow> nat \<Rightarrow> u8 list \<Rightarrow> bool" where
  "authentic cx master job item k content \<longleftrightarrow>
     (\<exists>key c. derive_item_key (dx_crypto cx) master (dj_transfer_id job) (si_id item) = Ok key
        \<and> open_chunk (dx_crypto cx) (dx_decode cx) (dj_transfer_id job) item (of_nat k) key c = Ok content)
     \<and> length content = unat (plaintext_len (si_size item) (dj_chunk_bytes job) (of_nat k))"

definition backed :: "dr_ctx \<Rightarrow> u8 list \<Rightarrow> download_job \<Rightarrow> fs \<Rightarrow> nat \<Rightarrow> saved_item \<Rightarrow> nat \<Rightarrow> bool" where
  "backed cx master job f i item k \<longleftrightarrow>
     (\<exists>content. authentic cx master job item k content
        \<and> holds_at f (plain_path (base_of cx) i) (k * unat (dj_chunk_bytes job)) content)"

lemma backed_item: "bare item' = bare item \<Longrightarrow> backed cx master job f i item' k = backed cx master job f i item k"
proof -
  assume "bare item' = bare item"
  then have "si_id item' = si_id item" "si_size item' = si_size item" "si_nonce_prefix item' = si_nonce_prefix item"
    by (cases item; cases item'; simp add: bare_def)+
  then show ?thesis by (simp add: backed_def authentic_def open_chunk_def)
qed

lemma backed_job:
  "dj_transfer_id job' = dj_transfer_id job \<Longrightarrow> dj_chunk_bytes job' = dj_chunk_bytes job \<Longrightarrow>
     backed cx master job' f i item k = backed cx master job f i item k"
  by (simp add: backed_def authentic_def)

lemma backed_cong: "nodes f' (plain_path (base_of cx) i) = nodes f (plain_path (base_of cx) i) \<Longrightarrow>
    backed cx master job f' i item k = backed cx master job f i item k"
  by (simp add: backed_def holds_at_def content_at_def)

text \<open>Offsets do not wrap.\<close>

definition offsets_fit :: "download_job \<Rightarrow> saved_item \<Rightarrow> bool" where
  "offsets_fit job item \<longleftrightarrow> (\<forall>k < unat (si_chunk_count item). k * unat (dj_chunk_bytes job) < 2 ^ 64)"

lemma offset_exact:
  assumes "offsets_fit job item" "k < unat (si_chunk_count item)"
  shows "unat (of_nat k * dj_chunk_bytes job) = k * unat (dj_chunk_bytes job)" "unat (of_nat k :: u64) = k"
proof -
  show k: "unat (of_nat k :: u64) = k" using assms(2) unat_less_2p [of "si_chunk_count item"] by (simp add: unat_of_nat_less)
  show "unat (of_nat k * dj_chunk_bytes job) = k * unat (dj_chunk_bytes job)"
    using assms k by (simp add: unat_word_ariths offsets_fit_def)
qed

lemma authentic_short: "authentic cx master job item k content \<Longrightarrow> length content \<le> unat (dj_chunk_bytes job)"
  by (simp add: authentic_def plaintext_len_def word_le_nat_alt [symmetric])

text \<open>Writing one authentic chunk keeps all others.\<close>

lemma write_chunk_backed:
  assumes "write_plain (base_of cx) i (unat (of_nat k * dj_chunk_bytes job)) content s = (Inr x, s')"
    and a: "authentic cx master job item k content" and fit: "offsets_fit job item" "k < unat (si_chunk_count item)"
  shows "backed cx master job (ft_fs s') i item k"
    "k' \<noteq> k \<Longrightarrow> backed cx master job (ft_fs s) i item k' \<Longrightarrow> backed cx master job (ft_fs s') i item k'"
    "j \<noteq> i \<Longrightarrow> nodes (ft_fs s') (plain_path (base_of cx) j) = nodes (ft_fs s) (plain_path (base_of cx) j)"
proof -
  let ?c = "unat (dj_chunk_bytes job)"
  have w: "write_plain (base_of cx) i (k * ?c) content s = (Inr x, s')" using assms(1) offset_exact [OF fit] by simp
  show "backed cx master job (ft_fs s') i item k" using write_plain_holds(1) [OF w] a by (auto simp: backed_def)
  show "backed cx master job (ft_fs s') i item k'" if k: "k' \<noteq> k" and b: "backed cx master job (ft_fs s) i item k'"
  proof -
    from b obtain content' where c': "authentic cx master job item k' content'"
      "holds_at (ft_fs s) (plain_path (base_of cx) i) (k' * ?c) content'" by (auto simp: backed_def)
    have "k' * ?c + length content' \<le> k * ?c \<or> k * ?c + length content \<le> k' * ?c"
    proof (cases "k' < k")
      case True
      then have "Suc k' * ?c \<le> k * ?c" by (intro mult_le_mono1) simp
      then show ?thesis using authentic_short [OF c'(1)] by simp
    next
      case False
      then have "Suc k * ?c \<le> k' * ?c" using k by (intro mult_le_mono1) simp
      then show ?thesis using authentic_short [OF a] by simp
    qed
    then show ?thesis using write_plain_holds(2) [OF w c'(2)] c'(1) by (auto simp: backed_def)
  qed
  show "nodes (ft_fs s') (plain_path (base_of cx) j) = nodes (ft_fs s) (plain_path (base_of cx) j)" if "j \<noteq> i"
    using keepsD_run [OF write_plain_other w refl] that by (simp add: plain_path_inj)
qed

lemma read_nodes: "fs_io (read_file p) s = (r, s') \<Longrightarrow> nodes (ft_fs s') q = nodes (ft_fs s) q"
  using keepsD_run [OF keeps_fs_io [where v = "\<lambda>s. nodes s q" and P = "\<lambda>v. v = nodes (ft_fs s) q"]]
    leaves_read_only(3) [OF faultless_nodes(1)] by (metis (no_types, lifting))

lemma restore_retained_Ok:
  assumes "restore_retained (dx_crypto cx) (dx_decode cx) (base_of cx) i (dj_transfer_id job) (dj_chunk_bytes job) item (of_nat k) master s = (Inr kept, s')"
    and fit: "offsets_fit job item" "k < unat (si_chunk_count item)"
  shows "if kept then backed cx master job (ft_fs s') i item k else \<forall>q. nodes (ft_fs s') q = nodes (ft_fs s) q"
    "k' \<noteq> k \<Longrightarrow> backed cx master job (ft_fs s) i item k' \<Longrightarrow> backed cx master job (ft_fs s') i item k'"
    "j \<noteq> i \<Longrightarrow> nodes (ft_fs s') (plain_path (base_of cx) j) = nodes (ft_fs s) (plain_path (base_of cx) j)"
proof -
  obtain r s1 where read: "fs_io (read_file (cipher_path (base_of cx) i (of_nat k))) s = (r, s1)" by force
  have same: "nodes (ft_fs s1) q = nodes (ft_fs s) q" for q using read by (rule read_nodes)
  have cases: "(\<not> kept \<and> s' = s1) \<or> (kept \<and> (\<exists>content. authentic cx master job item k content
      \<and> write_plain (base_of cx) i (unat (of_nat k * dj_chunk_bytes job)) content s1 = (Inr (), s')))"
    using assms(1) read
    by (auto simp: restore_retained_def authentic_def bind_st_Inr map_err_eq_Inr split: sum.splits option.splits if_splits)
  show "if kept then backed cx master job (ft_fs s') i item k else \<forall>q. nodes (ft_fs s') q = nodes (ft_fs s) q"
    using cases same write_chunk_backed(1) [OF _ _ fit] by auto
  show "backed cx master job (ft_fs s') i item k'" if "k' \<noteq> k" "backed cx master job (ft_fs s) i item k'"
  proof -
    have "backed cx master job (ft_fs s1) i item k'" using that(2) backed_cong same by blast
    then show ?thesis using cases write_chunk_backed(2) [OF _ _ fit that(1)] by auto
  qed
  show "nodes (ft_fs s') (plain_path (base_of cx) j) = nodes (ft_fs s) (plain_path (base_of cx) j)" if "j \<noteq> i"
    using cases write_chunk_backed(3) [OF _ _ fit that] same by auto
qed

text \<open>The effect of a loop on item \<open>i\<close>: bits other than those of \<open>ks\<close> stay, those of \<open>ks\<close> are only
  cleared, what is set among them is backed, what was backed stays so, other files are untouched.\<close>

definition restored :: "dr_ctx \<Rightarrow> u8 list \<Rightarrow> download_job \<Rightarrow> nat \<Rightarrow> nat set \<Rightarrow> saved_item \<Rightarrow> fs \<Rightarrow> saved_item \<Rightarrow> fs \<Rightarrow> bool" where
  "restored cx master job i K item f item' f' \<longleftrightarrow>
     bare item' = bare item \<and> length (si_verified item') = length (si_verified item) \<and> si_published item' = si_published item
     \<and> (\<forall>k. k \<notin> K \<longrightarrow> si_verified item' ! k = si_verified item ! k)
     \<and> (\<forall>k \<in> K. si_verified item' ! k \<longrightarrow> backed cx master job f' i item k)
     \<and> (\<forall>k. k \<notin> K \<longrightarrow> backed cx master job f i item k \<longrightarrow> backed cx master job f' i item k)
     \<and> (\<forall>j. j \<noteq> i \<longrightarrow> nodes f' (plain_path (base_of cx) j) = nodes f (plain_path (base_of cx) j))"

lemma restored_refl: "restored cx master job i {} item f item f"
  by (simp add: restored_def)

lemma bare_verified: "bare (item\<lparr>si_verified := v\<rparr>) = bare item"
  by (simp add: bare_def)

lemma bare_count: "bare a = bare b \<Longrightarrow> offsets_fit job a = offsets_fit job b"
  by (drule bare_eq) (simp add: offsets_fit_def)

lemma restored_Cons:
  assumes r: "restored cx master job i K item1 f1 item' f'" and k: "k \<notin> K" and b: "bare item1 = bare item"
    and one: "length (si_verified item1) = length (si_verified item)" "si_published item1 = si_published item"
      "\<And>k'. k' \<noteq> k \<Longrightarrow> si_verified item1 ! k' = si_verified item ! k'"
      "si_verified item1 ! k \<Longrightarrow> backed cx master job f1 i item k"
      "\<And>k'. k' \<noteq> k \<Longrightarrow> backed cx master job f i item k' \<Longrightarrow> backed cx master job f1 i item k'"
      "\<And>j. j \<noteq> i \<Longrightarrow> nodes f1 (plain_path (base_of cx) j) = nodes f (plain_path (base_of cx) j)"
  shows "restored cx master job i (insert k K) item f item' f'"
  using r k b one unfolding restored_def backed_item [OF b] by auto

lemma restore_chunks_Ok:
  assumes "restore_chunks cx master job i item ks s = (Inr item', s')" "distinct ks" "offsets_fit job item"
    "set ks \<subseteq> {..< unat (si_chunk_count item)}" "length (si_verified item) = unat (si_chunk_count item)"
  shows "restored cx master job i (set ks) item (ft_fs s) item' (ft_fs s')"
  using assms
proof (induction ks arbitrary: item s)
  case Nil
  then show ?case by (simp add: lift_st_def restored_refl)
next
  case (Cons k ks)
  have k: "k < unat (si_chunk_count item)" "k \<notin> set ks" using Cons.prems(2,4) by auto
  show ?case
  proof (cases "si_verified item ! k")
    case False
    then have "restored cx master job i (set ks) item (ft_fs s) item' (ft_fs s')" using Cons by simp
    then have "restored cx master job i (insert k (set ks)) item (ft_fs s) item' (ft_fs s')"
      by (rule restored_Cons [OF _ k(2)]) (simp_all add: False)
    then show ?thesis by simp
  next
    case True
    let ?item1 = "\<lambda>kept. if kept then item else item\<lparr>si_verified := (si_verified item)[k := False]\<rparr>"
    from Cons.prems(1) True obtain kept s1 where
        one: "restore_retained (dx_crypto cx) (dx_decode cx) (base_of cx) i (dj_transfer_id job) (dj_chunk_bytes job) item (of_nat k) master s = (Inr kept, s1)"
        and rest: "restore_chunks cx master job i (?item1 kept) ks s1 = (Inr item', s')"
      by (auto simp: bind_st_Inr)
    note o = restore_retained_Ok [OF one Cons.prems(3) k(1)]
    have b: "bare (?item1 kept) = bare item" by (simp add: bare_verified)
    have "restored cx master job i (set ks) (?item1 kept) (ft_fs s1) item' (ft_fs s')"
      using Cons.IH [OF rest] Cons.prems(2-5) bare_count [OF b] bare_eq [OF b] by simp
    then have "restored cx master job i (insert k (set ks)) item (ft_fs s) item' (ft_fs s')"
      by (rule restored_Cons [OF _ k(2) b]) (use o k(1) Cons.prems(5) in \<open>auto simp: nth_list_update split: if_splits\<close>)
    then show ?thesis by simp
  qed
qed

text \<open>All items of a job: every selected, unpublished chunk that is still counted is backed.\<close>

definition all_backed :: "dr_ctx \<Rightarrow> u8 list \<Rightarrow> download_job \<Rightarrow> fs \<Rightarrow> bool" where
  "all_backed cx master job f \<longleftrightarrow>
     (\<forall>i < length (dj_items job). \<forall>k < unat (si_chunk_count (dj_items job ! i)).
        selected job (dj_items job ! i) \<longrightarrow> \<not> si_published (dj_items job ! i) \<longrightarrow> si_verified (dj_items job ! i) ! k \<longrightarrow>
        backed cx master job f i (dj_items job ! i) k)"

definition item_restored :: "dr_ctx \<Rightarrow> u8 list \<Rightarrow> download_job \<Rightarrow> fs \<Rightarrow> nat \<Rightarrow> saved_item \<Rightarrow> saved_item \<Rightarrow> bool" where
  "item_restored cx master job f i item item' \<longleftrightarrow>
     bare item' = bare item \<and> length (si_verified item') = length (si_verified item)
     \<and> (\<forall>k < unat (si_chunk_count item). selected job item \<longrightarrow> \<not> si_published item' \<longrightarrow> si_verified item' ! k \<longrightarrow>
          backed cx master job f i item k)"

lemma item_restored_cong:
  "nodes f' (plain_path (base_of cx) i) = nodes f (plain_path (base_of cx) i) \<Longrightarrow>
     item_restored cx master job f' i item item' = item_restored cx master job f i item item'"
proof -
  assume "nodes f' (plain_path (base_of cx) i) = nodes f (plain_path (base_of cx) i)"
  then have "backed cx master job f' i item k = backed cx master job f i item k" for k by (rule backed_cong)
  then show ?thesis unfolding item_restored_def by simp
qed

lemma leaves_path_is_file [leaves_intro]: "leaves (\<lambda>f. nodes f q) (path_is_file p)"
  unfolding leaves_def
proof
  fix f :: fs
  obtain r f' where run: "symlink_metadata p f = (r, f')" by force
  have "nodes f' q = nodes f q" using leavesD [OF leaves_read_only(1) [OF faultless_nodes(1)] run] .
  then show "nodes (snd (path_is_file p f)) q = nodes f q" using run by (cases r) (simp_all add: path_is_file_def)
qed

lemma keeps_sha256_nodes: "keeps (\<lambda>s. nodes (ft_fs s) q = n) (sha256_file sha p)"
  unfolding sha256_file_def
  by (intro keeps_bind keeps_lift keeps_fs_io [where v = "\<lambda>s. nodes s q"] leaves_read_only(3) faultless_nodes)

lemma check_published_nodes:
  "keeps (\<lambda>s. nodes (ft_fs s) q = n)
     (bind_st (on_fs (path_is_file t)) (\<lambda>present. if \<not> present then lift_st e else bind_st (sha256_file sha t) (\<lambda>d. lift_st (g d))))"
  by (intro keeps_bind keeps_if keeps_lift keeps_sha256_nodes keeps_on_fs [where v = "\<lambda>s. nodes s q"] leaves_path_is_file)

lemma restore_item_layout: "restore_item cx master job i saved item s = (Inr saved', s') \<Longrightarrow> \<not> layout_changed job saved item"
  unfolding restore_item_def by (cases "layout_changed job saved item") (simp_all add: lift_st_def)

lemma restore_item_published:
  assumes "restore_item cx master job i saved item s = (Inr saved', s')" "selected job saved" "si_published saved"
  shows "saved' = saved" "nodes (ft_fs s') q = nodes (ft_fs s) q"
proof -
  let ?bad = "Err (DlMsg ''published download target is missing or corrupted'') :: (saved_item, dl_error) result"
  have run: "bind_st (on_fs (path_is_file (si_target saved))) (\<lambda>present. if \<not> present then lift_st ?bad
      else bind_st (sha256_file (dx_sha cx) (si_target saved)) (\<lambda>d. lift_st (if d \<noteq> si_digest saved then ?bad else Ok saved))) s = (Inr saved', s')"
    using assms(1) restore_item_layout [OF assms(1)] assms(2,3) unfolding restore_item_def by (simp only: if_False if_True not_True_eq_False)
  from keepsD_run [OF check_published_nodes run refl] show "nodes (ft_fs s') q = nodes (ft_fs s) q" .
  from run show "saved' = saved" unfolding bind_st_Inr by (auto simp: lift_st_def bind_st_Inr split: if_splits)
qed

lemma restore_item_Ok:
  assumes "restore_item cx master job i saved item s = (Inr saved', s')" "offsets_fit job saved"
    "length (si_verified saved) = unat (si_chunk_count saved)"
  shows "item_restored cx master job (ft_fs s') i saved saved'"
    "j \<noteq> i \<Longrightarrow> nodes (ft_fs s') (plain_path (base_of cx) j) = nodes (ft_fs s) (plain_path (base_of cx) j)"
proof -
  note l = restore_item_layout [OF assms(1)]
  have "item_restored cx master job (ft_fs s') i saved saved'
      \<and> (j \<noteq> i \<longrightarrow> nodes (ft_fs s') (plain_path (base_of cx) j) = nodes (ft_fs s) (plain_path (base_of cx) j))"
  proof (cases "selected job saved")
    case False
    then have "saved' = saved" "s' = s" using assms(1) l by (simp_all add: restore_item_def lift_st_def)
    then show ?thesis using False by (simp add: item_restored_def)
  next
    case sel: True
    show ?thesis
    proof (cases "si_published saved")
      case True
      note p = restore_item_published [OF assms(1) sel True]
      show ?thesis using p True by (simp add: item_restored_def)
    next
      case False
      then have "restore_chunks cx master job i saved [0 ..< unat (si_chunk_count saved)] s = (Inr saved', s')"
        using assms(1) l sel by (simp add: restore_item_def)
      moreover have "set [0 ..< unat (si_chunk_count saved)] \<subseteq> {..< unat (si_chunk_count saved)}" by auto
      ultimately have "restored cx master job i (set [0 ..< unat (si_chunk_count saved)]) saved (ft_fs s) saved' (ft_fs s')"
        using restore_chunks_Ok distinct_upt assms(2,3) by blast
      then show ?thesis by (simp add: restored_def item_restored_def)
    qed
  qed
  then show "item_restored cx master job (ft_fs s') i saved saved'"
    "j \<noteq> i \<Longrightarrow> nodes (ft_fs s') (plain_path (base_of cx) j) = nodes (ft_fs s) (plain_path (base_of cx) j)" by blast+
qed

lemma right_count_fits:
  assumes "right_count (dj_chunk_bytes job) item" "\<not> layout_changed job saved item"
  shows "offsets_fit job saved"
  unfolding offsets_fit_def
proof (intro allI impI)
  let ?c = "unat (dj_chunk_bytes job)"
  fix k assume k: "k < unat (si_chunk_count saved)"
  have s: "si_size saved = mi_size item" "unat (si_chunk_count saved) = max 1 (ceil_div (unat (mi_size item)) ?c)" "0 < ?c"
    using assms by (auto simp: layout_changed_def right_count_def)
  show "k * ?c < 2 ^ 64"
  proof (cases "k = 0")
    case False
    then have "\<not> ceil_div (unat (mi_size item)) ?c \<le> k" using k s(2) by simp
    then have "k * ?c < unat (mi_size item)" using ceil_div_le_iff [OF s(3)] by simp
    then show ?thesis using unat_less_2p [of "mi_size item"] by simp
  qed simp
qed

lemma restore_items_Ok:
  assumes "restore_items cx master job i ss ms s = (Inr items, s')" "length ss = length ms"
    "list_all (right_count (dj_chunk_bytes job)) ms" "list_all (\<lambda>item. length (si_verified item) = unat (si_chunk_count item)) ss"
  shows "length items = length ss"
    "\<forall>n < length ss. item_restored cx master job (ft_fs s') (i + n) (ss ! n) (items ! n) \<and> \<not> layout_changed job (ss ! n) (ms ! n)"
    "\<forall>j < i. nodes (ft_fs s') (plain_path (base_of cx) j) = nodes (ft_fs s) (plain_path (base_of cx) j)"
proof -
  have "length items = length ss
    \<and> (\<forall>n < length ss. item_restored cx master job (ft_fs s') (i + n) (ss ! n) (items ! n) \<and> \<not> layout_changed job (ss ! n) (ms ! n))
    \<and> (\<forall>j < i. nodes (ft_fs s') (plain_path (base_of cx) j) = nodes (ft_fs s) (plain_path (base_of cx) j))"
    using assms(2,1,3,4)
  proof (induction ss ms arbitrary: i s items rule: list_induct2)
    case Nil
    then show ?case by (simp add: lift_st_def)
  next
    case (Cons saved ss item ms)
    then obtain saved' rest s1 where one: "restore_item cx master job i saved item s = (Inr saved', s1)"
        and more: "restore_items cx master job (Suc i) ss ms s1 = (Inr rest, s')" and items: "items = saved' # rest"
      by (auto simp: bind_st_Inr)
    have o: "item_restored cx master job (ft_fs s1) i saved saved'" "\<not> layout_changed job saved item"
        "\<And>j. j \<noteq> i \<Longrightarrow> nodes (ft_fs s1) (plain_path (base_of cx) j) = nodes (ft_fs s) (plain_path (base_of cx) j)"
      using restore_item_Ok [OF one right_count_fits [OF _ restore_item_layout [OF one]]] restore_item_layout [OF one] Cons.prems
      by simp_all
    have r: "length rest = length ss"
        "\<forall>n < length ss. item_restored cx master job (ft_fs s') (Suc i + n) (ss ! n) (rest ! n) \<and> \<not> layout_changed job (ss ! n) (ms ! n)"
        "\<forall>j < Suc i. nodes (ft_fs s') (plain_path (base_of cx) j) = nodes (ft_fs s1) (plain_path (base_of cx) j)"
      using Cons.IH [OF more] Cons.prems by simp_all
    have "item_restored cx master job (ft_fs s') i saved saved'" using o(1) r(3) item_restored_cong by blast
    then show ?case using o r items by (auto simp: nth_Cons split: nat.split)
  qed
  then show "length items = length ss"
    "\<forall>n < length ss. item_restored cx master job (ft_fs s') (i + n) (ss ! n) (items ! n) \<and> \<not> layout_changed job (ss ! n) (ms ! n)"
    "\<forall>j < i. nodes (ft_fs s') (plain_path (base_of cx) j) = nodes (ft_fs s) (plain_path (base_of cx) j)" by blast+
qed

text \<open>What the rest of the resumption keeps.\<close>

definition resume_inv :: "dr_ctx \<Rightarrow> u8 list \<Rightarrow> download_job \<Rightarrow> fs \<Rightarrow> bool" where
  "resume_inv cx master job f \<longleftrightarrow>
     layout_ok job \<and> list_all (offsets_fit job) (dj_items job) \<and> all_backed cx master job f \<and> unat (dj_done job) = job_bytes job"

definition same_shell :: "download_job \<Rightarrow> download_job \<Rightarrow> bool" where
  "same_shell job job' \<longleftrightarrow>
     job' = job\<lparr>dj_items := dj_items job', dj_done := dj_done job', dj_state := dj_state job'\<rparr>
     \<and> map bare (dj_items job') = map bare (dj_items job)"

lemma same_shell_refl: "same_shell job job"
  by (simp add: same_shell_def)

lemma same_shell_trans: "same_shell job job1 \<Longrightarrow> same_shell job1 job2 \<Longrightarrow> same_shell job job2"
  by (cases job; cases job1; cases job2; simp add: same_shell_def)

lemma same_shell_fields:
  assumes "same_shell job job'"
  shows "dj_transfer_id job' = dj_transfer_id job" "dj_chunk_bytes job' = dj_chunk_bytes job" "selected job' = selected job"
    "length (dj_items job') = length (dj_items job)" "dj_server_concurrency job' = dj_server_concurrency job" "dj_turbo job' = dj_turbo job"
    "i < length (dj_items job) \<Longrightarrow> bare (dj_items job' ! i) = bare (dj_items job ! i)"
proof -
  have m: "map bare (dj_items job') = map bare (dj_items job)" using assms by (simp add: same_shell_def)
  show "dj_transfer_id job' = dj_transfer_id job" "dj_chunk_bytes job' = dj_chunk_bytes job" "dj_turbo job' = dj_turbo job"
    "dj_server_concurrency job' = dj_server_concurrency job" using assms by (cases job; cases job'; simp add: same_shell_def)+
  have "dj_selected_item_ids job' = dj_selected_item_ids job" using assms by (cases job; cases job'; simp add: same_shell_def)
  then show "selected job' = selected job" by (simp add: selected_def fun_eq_iff)
  show l: "length (dj_items job') = length (dj_items job)" using m by (metis length_map)
  show "i < length (dj_items job) \<Longrightarrow> bare (dj_items job' ! i) = bare (dj_items job ! i)" using m l by (metis nth_map)
qed

lemma all_backedD:
  assumes "all_backed cx master job f" "i < length (dj_items job)" "k < unat (si_chunk_count (dj_items job ! i))"
    "selected job (dj_items job ! i)" "\<not> si_published (dj_items job ! i)" "si_verified (dj_items job ! i) ! k"
  shows "backed cx master job f i (dj_items job ! i) k"
  using assms unfolding all_backed_def by blast

lemma resume_inv_cong:
  assumes "resume_inv cx master job f" "\<And>i. nodes f' (plain_path (base_of cx) i) = nodes f (plain_path (base_of cx) i)"
  shows "resume_inv cx master job f'"
proof -
  have "backed cx master job f' i item k = backed cx master job f i item k" for i item k by (rule backed_cong) (rule assms(2))
  then show ?thesis using assms(1) unfolding resume_inv_def all_backed_def by simp
qed

lemma authenticate_plain:
  assumes "authenticate_and_write (dx_crypto cx) (dx_decode cx) fresh (base_of cx) i (of_nat k) (dj_chunk_bytes job) (dj_transfer_id job)
    item master c False s = (Inr n, s')"
  shows "\<exists>content. authentic cx master job item k content
    \<and> write_plain (base_of cx) i (unat (of_nat k * dj_chunk_bytes job)) content s = (Inr (), s')"
  using assms
  by (auto simp: authenticate_and_write_def authentic_def bind_st_Inr Let_def map_err_eq_Inr split: if_splits)

lemma remove_background_nodes:
  "fs_io (remove_file (background_cipher_path b i k)) s = (r, s') \<Longrightarrow> nodes (ft_fs s') (plain_path b j) = nodes (ft_fs s) (plain_path b j)"
proof -
  assume run: "fs_io (remove_file (background_cipher_path b i k)) s = (r, s')"
  have "plain_path b j \<noteq> background_cipher_path b i k" by (simp add: plain_path_def background_cipher_path_def)
  then have "leaves (\<lambda>s. nodes s (plain_path b j)) (remove_file (background_cipher_path b i k))" by (rule leaves_other_path(4))
  from keepsD_run [OF keeps_fs_io [OF this, where P = "\<lambda>v. v = nodes (ft_fs s) (plain_path b j)"] run refl] show ?thesis .
qed

lemma mark_resume_inv:
  assumes inv: "resume_inv cx master job f" and i: "i < length (dj_items job)" "selected job (dj_items job ! i)"
    and k: "k < unat (si_chunk_count (dj_items job ! i))" "\<not> si_verified (dj_items job ! i) ! k"
    and b: "backed cx master job f' i (dj_items job ! i) k"
      "\<And>k'. k' \<noteq> k \<Longrightarrow> backed cx master job f i (dj_items job ! i) k' \<Longrightarrow> backed cx master job f' i (dj_items job ! i) k'"
      "\<And>j. j \<noteq> i \<Longrightarrow> nodes f' (plain_path (base_of cx) j) = nodes f (plain_path (base_of cx) j)"
    and n: "checked_add (dj_done job) (plaintext_len (si_size (dj_items job ! i)) (dj_chunk_bytes job) (of_nat k)) = Some n"
    and job': "job' = (edit_item i (\<lambda>item. item\<lparr>si_verified := (si_verified item)[k := True]\<rparr>) job)\<lparr>dj_done := n\<rparr>"
  shows "resume_inv cx master job' f' \<and> same_shell job job'"
proof -
  let ?item = "dj_items job ! i" and ?new = "(dj_items job ! i)\<lparr>si_verified := (si_verified (dj_items job ! i))[k := True]\<rparr>"
  have items: "dj_items job' = (dj_items job)[i := ?new]" by (simp add: job' edit_item_def)
  have f: "dj_chunk_bytes job' = dj_chunk_bytes job" "dj_transfer_id job' = dj_transfer_id job" "dj_done job' = n"
    by (simp_all add: job' edit_item_def)
  have sel: "selected job' = selected job" by (simp add: job' edit_item_def selected_def fun_eq_iff)
  have lay: "layout_ok job" "list_all (offsets_fit job) (dj_items job)" "all_backed cx master job f" "unat (dj_done job) = job_bytes job"
    using inv by (simp_all add: resume_inv_def)
  have len: "length (si_verified ?item) = unat (si_chunk_count ?item)" using lay(1) i(1) by (simp add: layout_ok_def list_all_length)
  have "job_bytes job' = job_bytes job + unat (plaintext_len (si_size ?item) (dj_chunk_bytes job) (of_nat k))"
    using item_bytes_step [of k ?item "dj_chunk_bytes job" "si_published ?item"] k len
    by (intro job_bytes_update [OF items sel f(1) i]) (simp_all add: selected_update item_bytes_def cong: if_cong)
  moreover have "unat n = unat (dj_done job) + unat (plaintext_len (si_size ?item) (dj_chunk_bytes job) (of_nat k))"
    using n by (auto simp: checked_add_def unat_word_ariths split: if_splits)
  ultimately have bytes: "unat (dj_done job') = job_bytes job'" using lay(4) f(3) by simp
  have bk: "backed cx master job' f' j (dj_items job' ! j) k'"
    if j: "j < length (dj_items job')" and k': "k' < unat (si_chunk_count (dj_items job' ! j))" and s: "selected job' (dj_items job' ! j)"
      and p: "\<not> si_published (dj_items job' ! j)" and v: "si_verified (dj_items job' ! j) ! k'" for j k'
  proof (cases "j = i")
    case False
    then have e: "dj_items job' ! j = dj_items job ! j" using items by simp
    have "backed cx master job f j (dj_items job ! j) k'"
      using all_backedD [OF lay(3), of j k'] j k' s p v e items sel by simp
    then show ?thesis using e backed_cong [OF b(3) [OF False]] backed_job [OF f(2,1)] by simp
  next
    case True
    have e: "dj_items job' ! j = ?new" using True items i(1) by simp
    have "backed cx master job f' i ?item k'"
    proof (cases "k' = k")
      case False
      have "backed cx master job f i ?item k'"
        using all_backedD [OF lay(3) i(1), of k'] k' s p v e False sel i(2) by simp
      then show ?thesis by (rule b(2) [OF False])
    qed (use b(1) in simp)
    then show ?thesis using e True backed_job [OF f(2,1)] backed_item [OF bare_verified] by simp
  qed
  have "list_all (offsets_fit job') (dj_items job')"
    using lay(2) i(1) f(1) by (auto simp: list_all_length items offsets_fit_def nth_list_update)
  moreover have "layout_ok job'" using lay(1) i(1) by (auto simp: layout_ok_def items list_all_length nth_list_update)
  moreover have "same_shell job job'"
    using items i(1) by (simp add: same_shell_def job' edit_item_def map_update bare_verified)
      (metis list_update_id map_update)
  ultimately show ?thesis using bytes bk unfolding resume_inv_def all_backed_def by blast
qed

lemma consume_chunk_Ok:
  assumes run: "consume_chunk cx env master i k job s = (Inr job', s')" and inv: "resume_inv cx master job (ft_fs s)"
    and i: "i < length (dj_items job)" "selected job (dj_items job ! i)" and k: "k < unat (si_chunk_count (dj_items job ! i))"
  shows "resume_inv cx master job' (ft_fs s') \<and> same_shell job job'"
proof (cases "si_verified (dj_items job ! i) ! k")
  case True
  then show ?thesis using run inv same_shell_refl by (simp add: consume_chunk_def)
next
  case unverified: False
  let ?p = "background_cipher_path (base_of cx) i (of_nat k)" and ?item = "dj_items job ! i"
  obtain r s1 where read: "fs_io (read_file ?p) s = (r, s1)" by force
  have inv1: "resume_inv cx master job (ft_fs s1)" using inv read_nodes [OF read] by (rule resume_inv_cong)
  show ?thesis
  proof (cases r)
    case (Inl e)
    then show ?thesis using run unverified read inv1 same_shell_refl by (auto simp: consume_chunk_def Let_def split: if_splits)
  next
    case (Inr c)
    let ?n = "plaintext_len (si_size ?item) (dj_chunk_bytes job) (of_nat k)"
    obtain s2 n m where a: "authenticate_and_write (dx_crypto cx) (dx_decode cx) (de_fresh env i (of_nat k)) (base_of cx) i (of_nat k)
          (dj_chunk_bytes job) (dj_transfer_id job) ?item master c False s1 = (Inr m, s2)"
        and n: "checked_add (dj_done job) ?n = Some n" and rm: "fs_io (remove_file ?p) s2 = (Inr (), s')"
        and job': "job' = (edit_item i (\<lambda>item. item\<lparr>si_verified := (si_verified item)[k := True]\<rparr>) job)\<lparr>dj_done := n\<rparr>"
      using run unverified read Inr by (auto simp: consume_chunk_def Let_def bind_st_Inr ok_or_eq_Inr split: if_splits)
    obtain content where c: "authentic cx master job ?item k content"
        "write_plain (base_of cx) i (unat (of_nat k * dj_chunk_bytes job)) content s1 = (Inr (), s2)"
      using authenticate_plain [OF a] by blast
    have fit: "offsets_fit job ?item" using inv i(1) by (simp add: resume_inv_def list_all_length)
    note w = write_chunk_backed [OF c(2,1) fit k]
    have "resume_inv cx master job' (ft_fs s2) \<and> same_shell job job'"
      using mark_resume_inv [OF inv1 i k unverified w n job'] .
    then show ?thesis using resume_inv_cong [OF _ remove_background_nodes [OF rm]] by blast
  qed
qed

lemma consume_chunks_Ok:
  assumes "consume_chunks cx env master i ks job s = (Inr job', s')" "resume_inv cx master job (ft_fs s)"
    "i < length (dj_items job)" "selected job (dj_items job ! i)" "set ks \<subseteq> {..< unat (si_chunk_count (dj_items job ! i))}"
  shows "resume_inv cx master job' (ft_fs s') \<and> same_shell job job'"
  using assms
proof (induction ks arbitrary: job s)
  case (Cons k ks)
  then obtain job1 s1 where one: "consume_chunk cx env master i k job s = (Inr job1, s1)"
      and more: "consume_chunks cx env master i ks job1 s1 = (Inr job', s')" by (auto simp: bind_st_Inr)
  have 1: "resume_inv cx master job1 (ft_fs s1)" "same_shell job job1"
    using consume_chunk_Ok [OF one] Cons.prems by simp_all
  note f = same_shell_fields [OF 1(2)]
  have b: "bare (dj_items job1 ! i) = bare (dj_items job ! i)" using f(7) Cons.prems(3) by blast
  have "selected job1 (dj_items job1 ! i)" using Cons.prems(4) f(3) b selected_bare by metis
  moreover have "si_chunk_count (dj_items job1 ! i) = si_chunk_count (dj_items job ! i)" using bare_eq [OF b] by blast
  ultimately have "resume_inv cx master job' (ft_fs s') \<and> same_shell job1 job'"
    using Cons.IH [OF more 1(1)] Cons.prems(3,5) f(4) by simp
  then show ?case using same_shell_trans 1(2) by blast
qed (simp add: lift_st_def same_shell_refl)

lemma consume_items_Ok:
  assumes "consume_items cx env master is job s = (Inr job', s')" "resume_inv cx master job (ft_fs s)"
    "set is \<subseteq> {..< length (dj_items job)}"
  shows "resume_inv cx master job' (ft_fs s') \<and> same_shell job job'"
  using assms
proof (induction "is" arbitrary: job s)
  case (Cons i "is")
  show ?case
  proof (cases "selected job (dj_items job ! i)")
    case False
    then show ?thesis using Cons by simp
  next
    case True
    then obtain job1 s1 where one: "consume_chunks cx env master i [0 ..< unat (si_chunk_count (dj_items job ! i))] job s = (Inr job1, s1)"
        and more: "consume_items cx env master is job1 s1 = (Inr job', s')" using Cons.prems(1) by (auto simp: bind_st_Inr)
    have "set [0 ..< unat (si_chunk_count (dj_items job ! i))] \<subseteq> {..< unat (si_chunk_count (dj_items job ! i))}" by auto
    then have 1: "resume_inv cx master job1 (ft_fs s1)" "same_shell job job1"
      using consume_chunks_Ok [OF one Cons.prems(2) _ True] Cons.prems(3) by simp_all
    have "resume_inv cx master job' (ft_fs s') \<and> same_shell job1 job'"
      using Cons.IH [OF more 1(1)] Cons.prems(3) same_shell_fields(4) [OF 1(2)] by simp
    then show ?thesis using same_shell_trans 1(2) by blast
  qed
qed (simp add: lift_st_def same_shell_refl)

lemma resume_inv_state: "resume_inv cx master (job\<lparr>dj_state := v\<rparr>) f = resume_inv cx master job f"
  by (simp add: resume_inv_def layout_ok_def offsets_fit_def [abs_def] all_backed_def job_bytes_def selected_def backed_def authentic_def cong: if_cong)

lemma consume_background_Ok:
  assumes "consume_background_ciphertext cx env master job s = (Inr job', s')" "resume_inv cx master job (ft_fs s)"
  shows "resume_inv cx master job' (ft_fs s')" "same_shell job job'"
proof -
  obtain job1 where 1: "consume_items cx env master [0 ..< length (dj_items job)] job s = (Inr job1, s')"
      and job': "job' = (if dj_state job1 = lit ''awaiting-execution'' then job1\<lparr>dj_state := lit ''running''\<rparr> else job1)"
    using assms(1) by (auto simp: consume_background_ciphertext_def bind_st_Inr)
  have "set [0 ..< length (dj_items job)] \<subseteq> {..< length (dj_items job)}" by auto
  from consume_items_Ok [OF 1 assms(2) this] have i: "resume_inv cx master job1 (ft_fs s')" "same_shell job job1" by blast+
  show "resume_inv cx master job' (ft_fs s')" using i(1) resume_inv_state unfolding job' by simp
  show "same_shell job job'" using i(2) unfolding job' by (cases job; cases job1; simp add: same_shell_def)
qed

section \<open>A resumed job is ready for the download loop\<close>

lemma unat_sum_list:
  fixes xs :: "u64 list"
  shows "sum_list (map unat xs) < 2 ^ 64 \<Longrightarrow> unat (sum_list xs) = sum_list (map unat xs)"
proof (induction xs)
  case (Cons x xs)
  then have "unat (sum_list xs) = sum_list (map unat xs)" by simp
  then show ?case using Cons.prems by (simp add: unat_word_ariths)
qed simp

lemma item_bytes_le:
  assumes "length (si_verified item) = unat (si_chunk_count item)"
  shows "item_bytes c item \<le> unat (si_size item)"
proof -
  let ?n = "length (si_verified item)"
  have "item_bytes c item \<le> (\<Sum>k < ?n. min (unat (si_size item) - k * unat c) (unat c))"
    unfolding item_bytes_def using assms unat_less_2p [of "si_chunk_count item"]
    by (intro sum_mono) (auto simp: plaintext_len_nat)
  then show ?thesis by (simp add: chunk_lengths_sum)
qed

lemma verified_bytes_exact:
  assumes "length (si_verified item) = unat (si_chunk_count item)"
  shows "unat (verified_bytes_of job item) = item_bytes (dj_chunk_bytes job) item"
proof -
  let ?f = "\<lambda>k. plaintext_len (si_size item) (dj_chunk_bytes job) (of_nat k)"
  have "sum_list (map unat (map ?f (filter (\<lambda>k. si_verified item ! k) [0 ..< length (si_verified item)]))) = item_bytes (dj_chunk_bytes job) item"
    by (simp add: comp_def sum_list_map_filter' item_bytes_def interv_sum_list_conv_sum_set_nat atLeast0LessThan)
  moreover have "item_bytes (dj_chunk_bytes job) item < 2 ^ 64"
    using item_bytes_le [OF assms, of "dj_chunk_bytes job"] unat_less_2p [of "si_size item"] by simp
  ultimately show ?thesis unfolding verified_bytes_of_def using unat_sum_list by metis
qed

definition selected_bytes :: "download_job \<Rightarrow> nat" where
  "selected_bytes job = sum_list (map (\<lambda>item. unat (si_size item)) (filter (selected job) (dj_items job)))"

lemma job_bytes_list:
  "job_bytes job = sum_list (map (item_bytes (dj_chunk_bytes job)) (filter (selected job) (dj_items job)))"
proof -
  have "job_bytes job = sum_list (map (\<lambda>item. if selected job item then item_bytes (dj_chunk_bytes job) item else 0) (dj_items job))"
    by (simp add: job_bytes_def sum_list_sum_nth atLeast0LessThan)
  then show ?thesis by (simp add: sum_list_map_filter')
qed

lemma resumed_done_exact:
  assumes "layout_ok job" "selected_bytes job < 2 ^ 64"
  shows "unat (resumed_done job) = job_bytes job"
proof -
  have len: "length (si_verified item) = unat (si_chunk_count item)" if "item \<in> set (filter (selected job) (dj_items job))" for item
    using assms(1) that by (auto simp: layout_ok_def list_all_iff)
  have "map unat (map (verified_bytes_of job) (filter (selected job) (dj_items job)))
      = map (item_bytes (dj_chunk_bytes job)) (filter (selected job) (dj_items job))"
    unfolding map_map comp_def using len verified_bytes_exact by (intro map_cong refl) blast
  then have s: "sum_list (map unat (map (verified_bytes_of job) (filter (selected job) (dj_items job)))) = job_bytes job"
    using job_bytes_list by metis
  have "job_bytes job \<le> selected_bytes job"
    unfolding job_bytes_list selected_bytes_def using len item_bytes_le by (intro sum_list_mono) blast
  then show ?thesis unfolding resumed_done_def using unat_sum_list [of "map (verified_bytes_of job) (filter (selected job) (dj_items job))"] s assms(2) by simp
qed

text \<open>The items of a job, up to their progress, decide most of its checks.\<close>

lemma bare_items:
  assumes "length (dj_items job') = length (dj_items job)"
    "\<And>i. i < length (dj_items job) \<Longrightarrow> bare (dj_items job' ! i) = bare (dj_items job ! i)"
    "selected job' = selected job"
  shows "selected_bytes job' = selected_bytes job"
proof -
  have m: "map bare (dj_items job') = map bare (dj_items job)" using assms(1,2) by (auto intro: nth_equalityI)
  have f: "map (\<lambda>item. unat (si_size item)) (filter (selected job) xs) = map (\<lambda>item. unat (si_size item)) (filter (selected job) (map bare xs))" for xs
    by (induction xs) (simp_all add: selected_bare, simp_all add: bare_def)
  show ?thesis unfolding selected_bytes_def assms(3) using f [of "dj_items job'"] f [of "dj_items job"] m by simp
qed

lemma job_checked_shell:
  assumes "job_checked job = Inr ()" "layout_ok job'"
    and f: "dj_version job' = dj_version job" "dj_direction job' = dj_direction job" "dj_id job' = dj_id job"
      "dj_chunk_bytes job' = dj_chunk_bytes job" "dj_driver job' = dj_driver job" "dj_output_absolute job' = dj_output_absolute job"
      "dj_output job' = dj_output job" "dj_selected_item_ids job' = dj_selected_item_ids job" "dj_selection_frozen job' = dj_selection_frozen job"
    and len: "length (dj_items job') = length (dj_items job)"
    and b: "\<And>i. i < length (dj_items job) \<Longrightarrow> bare (dj_items job' ! i) = bare (dj_items job ! i)"
  shows "job_checked job' = Inr ()"
proof -
  have e: "si_target (dj_items job' ! i) = si_target (dj_items job ! i)" "si_id (dj_items job' ! i) = si_id (dj_items job ! i)"
    if "i < length (dj_items job)" for i using bare_eq [OF b [OF that]] by blast+
  have "list_all (item_checked job) (dj_items job)" using assms(1) by (auto simp: job_checked_def split: if_splits)
  then have "list_all (item_checked job') (dj_items job')"
    using assms(2) len e f by (simp add: list_all_length item_checked_def layout_ok_def)
  moreover have "selection_valid job' ids = selection_valid job ids" for ids
  proof -
    have "list_ex (\<lambda>item. si_id item = x) (dj_items job') = list_ex (\<lambda>item. si_id item = x) (dj_items job)" for x
      using len e(2) by (metis (mono_tags, lifting) list_ex_length)
    then show ?thesis by (simp add: selection_valid_def)
  qed
  ultimately show ?thesis using assms(1) f by (auto simp: job_checked_def split: if_splits option.splits)
qed

lemma restored_job_inv:
  assumes run: "restore_items cx master job 0 (dj_items job) ms s = (Inr items, s')" and len: "length ms = length (dj_items job)"
    and c: "list_all (right_count (dj_chunk_bytes job)) ms" and l: "layout_ok job" and t: "selected_bytes job < 2 ^ 64"
    and job': "job' = (job\<lparr>dj_items := items\<rparr>)\<lparr>dj_done := resumed_done (job\<lparr>dj_items := items\<rparr>)\<rparr>"
  shows "resume_inv cx master job' (ft_fs s')" "exact_layout job'" "length items = length (dj_items job)"
    "\<And>i. i < length items \<Longrightarrow> bare (items ! i) = bare (dj_items job ! i)"
proof -
  have vl: "list_all (\<lambda>item. length (si_verified item) = unat (si_chunk_count item)) (dj_items job)" using l by (simp add: layout_ok_def)
  note r = restore_items_Ok [OF run len [symmetric] c vl]
  show li: "length items = length (dj_items job)" by (rule r(1))
  have it: "item_restored cx master job (ft_fs s') i (dj_items job ! i) (items ! i)" "\<not> layout_changed job (dj_items job ! i) (ms ! i)"
    if "i < length items" for i using r(2) that li by simp_all
  show b: "bare (items ! i) = bare (dj_items job ! i)" if "i < length items" for i using it(1) [OF that] by (simp add: item_restored_def)
  have count: "si_chunk_count (items ! i) = si_chunk_count (dj_items job ! i)" "si_size (items ! i) = si_size (dj_items job ! i)"
    if "i < length items" for i using bare_eq [OF b [OF that]] by blast+
  have rc: "right_count (dj_chunk_bytes job) (ms ! i)" if "i < length items" for i using c that li len by (simp add: list_all_length)
  have f: "dj_items job' = items" "dj_chunk_bytes job' = dj_chunk_bytes job" "dj_transfer_id job' = dj_transfer_id job"
    by (simp_all add: job')
  have sel: "selected job' = selected job" by (simp add: job' selected_def fun_eq_iff)
  have lay: "layout_ok job'"
    using l it(1) count li by (simp add: layout_ok_def f list_all_length item_restored_def)
  have fit: "list_all (offsets_fit job') (dj_items job')"
    using right_count_fits [OF rc it(2)] count by (simp add: list_all_length f offsets_fit_def)
  have ab: "all_backed cx master job' (ft_fs s')"
    unfolding all_backed_def f sel
  proof (intro allI impI)
    fix i k assume i: "i < length items" and k: "k < unat (si_chunk_count (items ! i))" and s: "selected job (items ! i)"
      and p: "\<not> si_published (items ! i)" "si_verified (items ! i) ! k"
    have "selected job (dj_items job ! i)" using s b [OF i] selected_bare by metis
    then have "backed cx master job (ft_fs s') i (dj_items job ! i) k"
      using it(1) [OF i] k p count(1) [OF i] by (simp add: item_restored_def)
    then show "backed cx master job' (ft_fs s') i (items ! i) k"
      using backed_item [OF b [OF i]] backed_job [OF f(3,2)] by simp
  qed
  have "unat (dj_done job') = job_bytes job'"
  proof -
    have "selected_bytes (job\<lparr>dj_items := items\<rparr>) = selected_bytes job"
      by (rule bare_items) (use li b in \<open>simp_all add: selected_update(1) fun_eq_iff\<close>)
    moreover have "layout_ok (job\<lparr>dj_items := items\<rparr>)" using lay by (simp add: layout_ok_def f)
    ultimately have "unat (resumed_done (job\<lparr>dj_items := items\<rparr>)) = job_bytes (job\<lparr>dj_items := items\<rparr>)"
      using resumed_done_exact t by simp
    then show ?thesis by (simp add: job' job_bytes_def selected_def cong: if_cong)
  qed
  then show "resume_inv cx master job' (ft_fs s')" using lay fit ab by (simp add: resume_inv_def)
  show "exact_layout job'"
    using right_count_covers [OF rc] it(2) count by (simp add: exact_layout_def f list_all_length layout_changed_def)
qed

lemma exact_layout_shell: "same_shell job job' \<Longrightarrow> exact_layout job' = exact_layout job"
proof -
  assume s: "same_shell job job'"
  note f = same_shell_fields [OF s]
  have "si_size (dj_items job' ! i) = si_size (dj_items job ! i)" "si_chunk_count (dj_items job' ! i) = si_chunk_count (dj_items job ! i)"
    if "i < length (dj_items job)" for i using bare_eq [OF f(7) [OF that]] by blast+
  then show ?thesis using f(2,4) by (simp add: exact_layout_def list_all_length)
qed

lemma store_job_Ok: "store_job cx job s = (Inr x, s') \<Longrightarrow>
    nodes (os_fs s') (plain_path (base_of cx) i) = nodes (os_fs s) (plain_path (base_of cx) i)"
proof -
  assume run: "store_job cx job s = (Inr x, s')"
  have "plain_path (base_of cx) i \<noteq> st_directory (dx_store cx) @ [CHECKPOINT_NAME]"
    "plain_path (base_of cx) i \<noteq> temporary (dx_store cx) CHECKPOINT_NAME"
    by (simp_all add: plain_path_def base_of_def temporary_def CHECKPOINT_NAME_def)
  note other = save_named_other [OF this]
  obtain r f where save: "save_named (dx_crypto cx) (dx_rng cx) (dx_to_vec cx) (dx_store cx) CHECKPOINT_NAME job (os_fs s) = (r, f)" by force
  then have "os_fs s' = f" using run by (auto simp: store_job_def dr_ck_def store_save_def)
  then show ?thesis using leavesD [OF other save] by simp
qed

lemma prepare_resume_Ok:
  assumes "prepare_resume cx env key job s = (Inr (job', master, token), s')"
  shows "\<exists>caps t m items job1 job3 s1 s2 s3 s4 s5 s6 s7. open_transfer cx env (dj_transfer_id job) s1 = (Inr t, s2) \<and> \<not> identity_changed job t
    \<and> job1 = job\<lparr>dj_server_concurrency := server_download_limit caps t, dj_ranges := server_ranges caps t\<rparr>
    \<and> open_manifest cx env (dj_turbo job \<noteq> None) master (dj_transfer_id job) (dj_envelope job) t s3 = (Inr m, s4)
    \<and> length (mf_items m) = length (dj_items job)
    \<and> dr_ft (restore_items cx master job1 0 (dj_items job) (mf_items m)) s5 = (Inr items, s6)
    \<and> job3 = (job1\<lparr>dj_items := items\<rparr>)\<lparr>dj_done := resumed_done (job1\<lparr>dj_items := items\<rparr>)\<rparr>
    \<and> dr_ft (consume_background_ciphertext cx env master job3) s6 = (Inr job', s7) \<and> store_job cx job' s7 = (Inr (), s')"
  using assms
  unfolding prepare_resume_def bind_st_Inr Let_def
  apply (elim exE conjE)
  subgoal premises p for caps s1 key s2 t s3
  proof (cases "identity_changed job t")
    case True
    then show ?thesis using p by (simp add: lift_st_def)
  next
    case False
    then show ?thesis using p by (fastforce simp: bind_st_Inr lift_st_eq split: if_splits)
  qed
  done


section \<open>Two ways to lose progress\<close>

text \<open>An AEAD does not open what was sealed under other associated data.\<close>

definition aead_bound :: "crypto \<Rightarrow> bool" where
  "aead_bound cr \<longleftrightarrow>
     (\<forall>key key' n ad ad' m c. aead_seal cr key n ad m = Some c \<longrightarrow> ad' \<noteq> ad \<longrightarrow> aead_open cr key' n ad' c = None)"

definition sealed_manifest :: "dr_ctx \<Rightarrow> rstr \<Rightarrow> rstr \<Rightarrow> bool" where
  "sealed_manifest cx i e \<longleftrightarrow>
     (\<exists>ev key np m c. js_envelope (dx_json cx) e = Some ev \<and> dx_decode cx (ev_nonce_prefix ev) = Some np
        \<and> dx_decode cx (ev_ciphertext ev) = Some c
        \<and> encrypt_manifest (dx_crypto cx) key np m (chunk_aad i (lit ''manifest'') (lit ''manifest'')) = Ok c)"

lemma sealed_manifest_no_descriptor:
  assumes "aead_bound (dx_crypto cx)" "sealed_manifest cx i e"
  shows "\<not> is_ok (fst (turbo_descriptor_for (dx_crypto cx) (dx_decode cx) (dx_json cx) cancelled master i e t c))"
proof -
  obtain ev key np m ct where ev: "js_envelope (dx_json cx) e = Some ev" "dx_decode cx (ev_nonce_prefix ev) = Some np"
      "dx_decode cx (ev_ciphertext ev) = Some ct"
      and s: "encrypt_manifest (dx_crypto cx) key np m (chunk_aad i (lit ''manifest'') (lit ''manifest'')) = Ok ct"
    using assms(2) by (auto simp: sealed_manifest_def)
  obtain n where n: "nonce np (- 1) = Inr n" "aead_seal (dx_crypto cx) key n (chunk_aad i (lit ''manifest'') (lit ''manifest'')) m = Some ct"
    using s by (auto simp: encrypt_manifest_def encrypt_chunk_at_index_def and_then_eq_Inr ok_or_eq_Inr cipher_def)
  have no: "aead_open (dx_crypto cx) key' n (descriptor_aad i) ct = None" for key'
    using assms(1) n(2) descriptor_not_manifest unfolding aead_bound_def by blast
  have "\<not> is_ok (open_envelope (dx_crypto cx) (dx_decode cx) master (descriptor_aad i) ev)"
    using no n(1)
    by (auto simp: open_envelope_def ev decrypt_manifest_def decrypt_chunk_at_index_def is_ok_iff and_then_eq_Inr map_err_eq_Inr ok_or_eq_Inr)
  then show ?thesis
    by (auto simp: turbo_descriptor_for_def is_ok_iff ev bind_st_def lift_st_def and_then_def split: sum.splits prod.splits if_splits)
qed

text \<open>C40. A Turbo download is bound to its final manifest, and the manifest's envelope replaces the
  descriptor's in the job, before its files are published, and the job is saved after each of them. A job
  saved there can never be resumed: resumption opens the stored envelope as a descriptor, which the
  AEAD refuses, whatever server, password and host do.\<close>

theorem interrupted_turbo_cannot_resume:
  assumes "aead_bound (dx_crypto cx)" "sealed_manifest cx (dj_transfer_id job) e"
    and "dj_turbo job \<noteq> None" "bind_final_manifest e m descriptor_note job = Ok job'" "same_shell job' saved"
  shows "\<not> is_ok (fst (prepare_resume cx env key saved s))"
proof
  assume "is_ok (fst (prepare_resume cx env key saved s))"
  then obtain job2 master token s' where run: "prepare_resume cx env key saved s = (Inr (job2, master, token), s')"
    by (auto simp: is_ok_iff) (metis prod.collapse)
  have e: "dj_envelope job' = e" "dj_transfer_id job' = dj_transfer_id job" "dj_turbo job' = dj_turbo job"
    using assms(4) by (auto simp: bind_final_manifest_def and_then_eq_Inr split: if_splits)
  moreover have "dj_envelope saved = dj_envelope job'" using assms(5) by (cases saved; cases job'; simp add: same_shell_def)
  ultimately have sv: "dj_envelope saved = e" "dj_transfer_id saved = dj_transfer_id job" "dj_turbo saved \<noteq> None"
    using same_shell_fields(1,6) [OF assms(5)] assms(3) by simp_all
  obtain t mm s3 s4 where "open_manifest cx env (dj_turbo saved \<noteq> None) master (dj_transfer_id saved) (dj_envelope saved) t s3 = (Inr mm, s4)"
    using prepare_resume_Ok [OF run] by blast
  then obtain c where "turbo_descriptor_for (dx_crypto cx) (dx_decode cx) (dx_json cx) (de_memory env) master (dj_transfer_id job) e t (os_control s3) = (Inr mm, c)"
    using dr_ct_Ok sv unfolding open_manifest_def by fastforce
  then show False using sealed_manifest_no_descriptor [OF assms(1,2)] by (metis fst_conv is_ok_iff)
qed

definition tag_of :: "u8 list \<Rightarrow> u8 list" where
  "tag_of ad = replicate (length ad) 1 @ 0 # ad"

lemma tag_of_prefix: "tag_of ad @ x = tag_of ad' @ y \<Longrightarrow> ad = ad'"
proof -
  assume eq: "tag_of ad @ x = tag_of ad' @ y"
  have tw: "takeWhile (\<lambda>b. b = 1) (tag_of ad @ z) = replicate (length ad) 1" for ad z
    by (simp add: tag_of_def takeWhile_append)
  have "length ad = length ad'" using arg_cong [OF eq, of "takeWhile (\<lambda>b. b = 1)"] tw by (metis length_replicate)
  then show "ad = ad'" using eq by (simp add: tag_of_def)
qed

definition bound_crypto :: crypto where
  "bound_crypto = example_crypto
     \<lparr>aead_seal := \<lambda>k n ad m. Some (tag_of ad @ m),
      aead_open := \<lambda>k n ad c. if take (length (tag_of ad)) c = tag_of ad then Some (drop (length (tag_of ad)) c) else None\<rparr>"

lemma bound_crypto_bound: "aead_bound bound_crypto"
proof -
  have "take (length (tag_of ad')) (tag_of ad @ m) \<noteq> tag_of ad'" if "ad' \<noteq> ad" for ad ad' m
  proof
    assume "take (length (tag_of ad')) (tag_of ad @ m) = tag_of ad'"
    then have "tag_of ad @ m = tag_of ad' @ drop (length (tag_of ad')) (tag_of ad @ m)" by (metis append_take_drop_id)
    then show False using tag_of_prefix that by blast
  qed
  then show ?thesis by (simp add: aead_bound_def bound_crypto_def)
qed

definition final_envelope :: "rstr \<Rightarrow> envelope" where
  "final_envelope i = \<lparr>ev_v = 1, ev_nonce_prefix = [1], ev_salt = None, ev_ciphertext = [2]\<rparr>"

definition demo_decode :: "rstr \<Rightarrow> u8 list option" where
  "demo_decode v =
     (if v = [1] then Some (replicate 16 3)
      else if v = [2] then Some (tag_of (chunk_aad [] (lit ''manifest'') (lit ''manifest''))) else None)"

definition turbo_demo_job :: download_job where
  "turbo_demo_job = demo_job\<lparr>dj_items := [], dj_turbo := Some \<lparr>tb_descriptor = [7], tb_session_id = [1], tb_session_token = [1], tb_sequence = 0\<rparr>\<rparr>"

theorem interrupted_turbo_cannot_resume_witness:
  "\<forall>cx env key s. \<not> is_ok (fst (prepare_resume
      (cx\<lparr>dx_crypto := bound_crypto, dx_decode := demo_decode, dx_json := (dx_json cx)\<lparr>js_envelope := \<lambda>e. Some (final_envelope e)\<rparr>\<rparr>)
      env key (turbo_demo_job\<lparr>dj_envelope := [9]\<rparr>) s))"
proof (intro allI)
  fix cx :: dr_ctx and env key s
  let ?cx = "cx\<lparr>dx_crypto := bound_crypto, dx_decode := demo_decode, dx_json := (dx_json cx)\<lparr>js_envelope := \<lambda>e. Some (final_envelope e)\<rparr>\<rparr>"
  have small: "length (chunk_aad [] (lit ''manifest'') (lit ''manifest'')) \<le> 4096" by (simp add: chunk_aad_def utf8_char_def)
  have "encrypt_manifest bound_crypto (replicate 32 5) (replicate 16 3) [] (chunk_aad [] (lit ''manifest'') (lit ''manifest''))
      = Ok (tag_of (chunk_aad [] (lit ''manifest'') (lit ''manifest'')))"
    using small by (simp add: encrypt_manifest_def encrypt_chunk_at_index_def bound_crypto_def crypto_sizes validate_plaintext_def
        validate_associated_data_def cipher_def validate_key_def nonce_def)
  then have "sealed_manifest ?cx (dj_transfer_id turbo_demo_job) [9]"
    by (auto simp: sealed_manifest_def final_envelope_def demo_decode_def turbo_demo_job_def demo_job_def)
  moreover have "bind_final_manifest [9] \<lparr>mf_attached_note = None, mf_join_token = None, mf_version = 1, mf_items = []\<rparr> None turbo_demo_job
      = Ok (turbo_demo_job\<lparr>dj_envelope := [9]\<rparr>)"
    by (simp add: bind_final_manifest_def turbo_demo_job_def)
  ultimately show "\<not> is_ok (fst (prepare_resume ?cx env key (turbo_demo_job\<lparr>dj_envelope := [9]\<rparr>) s))"
    using interrupted_turbo_cannot_resume [of ?cx turbo_demo_job "[9]"] bound_crypto_bound same_shell_refl
    by (simp add: turbo_demo_job_def)
qed

text \<open>What consuming a background record does to other files.\<close>

lemma cipher_paths: "cipher_path b i k \<noteq> plain_path b j" "cipher_path b i k \<noteq> background_cipher_path b j k'"
  by (simp_all add: cipher_path_def plain_path_def background_cipher_path_def)

lemma authenticate_other:
  "q \<noteq> plain_path b i \<Longrightarrow> keeps (\<lambda>s. nodes (ft_fs s) q = n) (authenticate_and_write cr decode fresh b i k c t item master ct False)"
  unfolding authenticate_and_write_def Let_def
  by (intro keeps_bind keeps_if keeps_lift write_plain_other) simp_all

lemma consume_chunk_other:
  assumes "q \<noteq> plain_path (base_of cx) i" "q \<noteq> background_cipher_path (base_of cx) i (of_nat k)"
  shows "keeps (\<lambda>s. nodes (ft_fs s) q = n) (consume_chunk cx env master i k job)"
proof (rule keepsI)
  fix s :: fetch_state assume q: "nodes (ft_fs s) q = n"
  let ?p = "background_cipher_path (base_of cx) i (of_nat k)" and ?item = "dj_items job ! i"
  let ?n = "plaintext_len (si_size ?item) (dj_chunk_bytes job) (of_nat k)"
  let ?rest = "\<lambda>c. bind_st (authenticate_and_write (dx_crypto cx) (dx_decode cx) (de_fresh env i (of_nat k)) (base_of cx) i (of_nat k)
                 (dj_chunk_bytes job) (dj_transfer_id job) ?item master c False) (\<lambda>_.
              bind_st (lift_st (ok_or (DlMsg ''download progress overflow'') (checked_add (dj_done job) ?n))) (\<lambda>n.
              bind_st (fs_io (remove_file ?p)) (\<lambda>_.
              lift_st (Ok ((edit_item i (\<lambda>item. item\<lparr>si_verified := (si_verified item)[k := True]\<rparr>) job)\<lparr>dj_done := n\<rparr>)))))"
  have rest: "keeps (\<lambda>s. nodes (ft_fs s) q = n) (?rest c)" for c
    using assms by (intro keeps_bind keeps_lift authenticate_other keeps_fs_io [where v = "\<lambda>s. nodes s q"] leaves_other_path(4))
  obtain r s1 where read: "fs_io (read_file ?p) s = (r, s1)" by force
  have q1: "nodes (ft_fs s1) q = n" using read_nodes [OF read] q by simp
  show "nodes (ft_fs (snd (consume_chunk cx env master i k job s))) q = n"
    using q q1 keepsD [OF rest q1] read by (cases r) (auto simp: consume_chunk_def Let_def)
qed

lemma consume_chunks_other:
  assumes "\<And>k. q \<noteq> plain_path (base_of cx) i \<and> q \<noteq> background_cipher_path (base_of cx) i k"
  shows "keeps (\<lambda>s. nodes (ft_fs s) q = n) (consume_chunks cx env master i ks job)"
  using assms by (induction ks arbitrary: job) (auto intro!: keeps_bind keeps_lift consume_chunk_other)

lemma consume_items_other:
  assumes "\<And>i k. q \<noteq> plain_path (base_of cx) i \<and> q \<noteq> background_cipher_path (base_of cx) i k"
  shows "keeps (\<lambda>s. nodes (ft_fs s) q = n) (consume_items cx env master is job)"
  using assms by (induction "is" arbitrary: job) (auto intro!: keeps_bind keeps_lift consume_chunks_other)

lemma restore_without_record:
  assumes "nodes (ft_fs s) (cipher_path b i k) = None"
  shows "fst (restore_retained cr decode b i t c item k master s) = Ok False"
proof -
  obtain r s1 where read: "fs_io (read_file (cipher_path b i k)) s = (r, s1)" by force
  have "\<not> is_ok r"
  proof
    assume "is_ok r"
    then obtain c f where "read_file (cipher_path b i k) (ft_fs s) = (Inr c, f)" using read by (auto simp: is_ok_iff fs_io_Ok)
    then show False using assms by (auto simp: read_file_def dest!: syscall_Ok)
  qed
  then show ?thesis using read by (cases r) (simp_all add: restore_retained_def is_ok_iff)
qed

text \<open>A record that arrived in the background is written to the scratch file without being retained, and
  its file is removed. So when the download is resumed once more before the file is published, none of the
  chunks that arrived this way can be restored: every one of them is fetched again.\<close>

theorem background_records_are_fetched_again:
  "case consume_background_ciphertext cx env master job s of
     (Inr job', s') \<Rightarrow>
       list_all (\<lambda>(i, k).
         if nodes (ft_fs s) (cipher_path (base_of cx) i (of_nat k)) = None
         then fst (restore_retained (dx_crypto cx) (dx_decode cx) (base_of cx) i (dj_transfer_id job') (dj_chunk_bytes job')
                     (dj_items job' ! i) (of_nat k) master' s') = Ok False
         else True) (all_chunks job')
   | _ \<Rightarrow> True"
proof -
  obtain r s' where run: "consume_background_ciphertext cx env master job s = (r, s')" by force
  have kept: "nodes (ft_fs s') (cipher_path (base_of cx) i k) = nodes (ft_fs s) (cipher_path (base_of cx) i k)" for i k
  proof -
    have "keeps (\<lambda>s'. nodes (ft_fs s') (cipher_path (base_of cx) i k) = nodes (ft_fs s) (cipher_path (base_of cx) i k))
        (consume_background_ciphertext cx env master job)"
      unfolding consume_background_ciphertext_def
      by (intro keeps_bind keeps_lift consume_items_other) (simp add: cipher_paths)
    from keepsD_run [OF this run refl] show ?thesis .
  qed
  have "fst (restore_retained cr decode (base_of cx) i t c item (of_nat k) m s') = Ok False"
    if "nodes (ft_fs s) (cipher_path (base_of cx) i (of_nat k)) = None" for i k cr decode t c item m
    using that restore_without_record kept by metis
  then show ?thesis using run by (cases r) (auto simp: list_all_iff)
qed

end
