(* ===== verification/Upload_Source.thy ===== *)
theory Upload_Source
  imports Download_Open
begin

text \<open>
  The files an upload reads, from \<open>crates/transfer-native/src/source.rs\<close> and the source functions of
  \<open>crates/transfer-native/src/protocol/upload.rs\<close>. A source belongs to the user and may change at any
  time, so every call takes the \<open>source_world\<close> it meets: the metadata and the content behind each path
  and the platform's resolver for provider documents, which is not part of the repository's native
  code. \<open>sha\<close> is the hexadecimal SHA-256 of the \<open>sha2\<close> and \<open>hex\<close> crates. Shown: \<open>fingerprint\<close>, which hashes a
  file and its chunks in one pass over reads of any size, computes exactly the digests of the file cut
  into chunks, and a chunk is encrypted only if it is the chunk that was fingerprinted.
\<close>

section \<open>Sources\<close>

datatype source_spec =
    SourcePath path u64 u64
  | SourceProvider rstr u64 u64 rstr

record upload_source =
  up_name :: rstr
  up_spec :: source_spec

fun bounds :: "source_spec \<Rightarrow> u64 \<times> u64" where
  "bounds (SourcePath _ offset len) = (offset, len)"
| "bounds (SourceProvider _ offset len _) = (offset, len)"

definition checked_end :: "source_spec \<Rightarrow> (u64, dl_error) result" where
  "checked_end spec =
     ok_or (DlMsg ''source offset and length overflow'') (checked_add (fst (bounds spec)) (snd (bounds spec)))"

text \<open>Metadata: \<open>modified\<close> is the time in nanoseconds since the epoch, 0 before it, or the failure of the call.\<close>

record file_metadata =
  fm_is_file :: bool
  fm_len :: u64
  fm_modified :: "(nat, io_error) result"

record open_file =
  of_metadata :: "(file_metadata, io_error) result"
  of_content :: "u8 list"

record source_resolver =
  rv_mutation_token :: "rstr \<Rightarrow> (rstr, dl_error) result"
  rv_open :: "rstr \<Rightarrow> (open_file, dl_error) result"

record source_world =
  sw_metadata :: "path \<Rightarrow> (file_metadata, io_error) result"
  sw_open :: "path \<Rightarrow> (open_file, io_error) result"
  sw_resolver :: "source_resolver option"

definition source_open :: "source_world \<Rightarrow> source_spec \<Rightarrow> (open_file, dl_error) result" where
  "source_open w spec =
     (case spec of
        SourcePath p _ _ \<Rightarrow> map_err DlIo (sw_open w p)
      | SourceProvider identity _ _ mutation_token \<Rightarrow>
          and_then (ok_or (DlMsg ''saved provider source cannot be reopened on this host'') (sw_resolver w)) (\<lambda>rv.
          and_then (rv_mutation_token rv identity) (\<lambda>token.
          if token \<noteq> mutation_token
          then Err (DlMsg ''provider source changed or its grant was revoked; start a new upload'')
          else rv_open rv identity)))"

text \<open>\<open>seek\<close> and \<open>read_exact\<close>: the bytes at an offset, or an error when the file ends before.\<close>

definition read_exact :: "nat \<Rightarrow> nat \<Rightarrow> u8 list \<Rightarrow> u8 list option" where
  "read_exact offset n content = (if offset + n \<le> length content \<or> n = 0 then Some (take n (drop offset content)) else None)"

datatype source_handle = HandlePath path | HandleProvider rstr open_file

definition reopen :: "source_world \<Rightarrow> source_handle \<Rightarrow> (open_file, dl_error) result" where
  "reopen w h = (case h of HandlePath p \<Rightarrow> map_err DlIo (sw_open w p) | HandleProvider _ f \<Rightarrow> Ok f)"

definition read_range :: "source_world \<Rightarrow> source_handle \<Rightarrow> source_spec \<Rightarrow> u64 \<Rightarrow> nat \<Rightarrow> (u8 list, dl_error) result" where
  "read_range w h spec relative_offset maximum =
     and_then (checked_end spec) (\<lambda>_.
     let (offset, len) = bounds spec in
     if len < relative_offset then Err (DlMsg ''source read starts beyond its declared length'')
     else
       and_then (ok_or (DlMsg ''source read offset overflow'') (checked_add offset relative_offset)) (\<lambda>absolute.
       and_then (reopen w h) (\<lambda>f.
       ok_or (DlMsg ''source was truncated or revoked'')
         (read_exact (unat absolute) (min (unat (len - relative_offset)) maximum) (of_content f)))))"

definition check_mutation :: "source_handle \<Rightarrow> source_spec \<Rightarrow> rstr option \<Rightarrow> (unit, dl_error) result" where
  "check_mutation h spec current_token =
     (case spec of
        SourcePath _ _ _ \<Rightarrow> Ok ()
      | SourceProvider identity _ _ mutation_token \<Rightarrow>
          (case h of
             HandlePath _ \<Rightarrow> Err (DlMsg ''provider source requires an owned provider descriptor'')
           | HandleProvider own _ \<Rightarrow>
               if own \<noteq> identity \<or> current_token \<noteq> Some mutation_token
               then Err (DlMsg ''provider source changed or its grant was revoked; start a new upload'') else Ok ()))"

section \<open>Fingerprints\<close>

text \<open>\<open>modified_ns\<close> is a \<open>u128\<close>, which holds every time.\<close>

record source =
  src_spec :: source_spec
  src_bytes :: u64
  src_modified_ns :: nat
  src_digest :: rstr
  src_chunk_digests :: "rstr list"

definition upload_chunk_count :: "u64 \<Rightarrow> u64 \<Rightarrow> (u64, dl_error) result" where
  "upload_chunk_count n chunk =
     (if chunk = 0 \<or> 24999984 < chunk then Err (DlMsg ''invalid chunk size'') else Ok (max (div_ceil n chunk) 1))"

definition estimate_ciphertext_bytes :: "u64 \<Rightarrow> u64 \<Rightarrow> (u64, dl_error) result" where
  "estimate_ciphertext_bytes n chunk =
     and_then (upload_chunk_count n chunk) (\<lambda>count.
     and_then (ok_or (DlMsg ''ciphertext size overflow'') (checked_mul count AEAD_TAG_BYTES)) (\<lambda>tags.
     ok_or (DlMsg ''ciphertext size overflow'') (checked_add n tags)))"

definition source_metadata :: "source_world \<Rightarrow> source_spec \<Rightarrow> (source, dl_error) result" where
  "source_metadata w spec =
     and_then (checked_end spec) (\<lambda>stop.
     and_then
       (case spec of
          SourcePath p offset len \<Rightarrow>
            and_then (map_err DlIo (sw_metadata w p)) (\<lambda>m.
            if \<not> fm_is_file m \<or> fm_len m < stop then Err (DlMsg ''not a bounded regular file'') else Ok m)
        | SourceProvider _ _ _ _ \<Rightarrow> and_then (source_open w spec) (\<lambda>f. map_err DlIo (of_metadata f))) (\<lambda>m.
     and_then (map_err DlIo (fm_modified m)) (\<lambda>modified.
     Ok \<lparr>src_spec = spec, src_bytes = snd (bounds spec), src_modified_ns = modified, src_digest = [], src_chunk_digests = []\<rparr>)))"

text \<open>The hashers are the bytes they have been fed. One buffer is cut at the chunk boundaries; \<open>chunk_bytes\<close>
  has been checked to be positive.\<close>

record hashing =
  hs_file :: "u8 list"
  hs_chunk :: "u8 list"
  hs_remaining :: nat
  hs_chunks :: "rstr list"

function hash_buffer :: "(u8 list \<Rightarrow> rstr) \<Rightarrow> nat \<Rightarrow> u8 list \<Rightarrow> hashing \<Rightarrow> hashing" where
  "hash_buffer sha chunk_bytes buffer h =
     (if buffer = [] \<or> chunk_bytes = 0 then h
      else
        let n = min (hs_remaining h) (length buffer); fed = hs_chunk h @ take n buffer in
        hash_buffer sha chunk_bytes (drop n buffer)
          (if hs_remaining h - n = 0
           then h\<lparr>hs_chunk := [], hs_remaining := chunk_bytes, hs_chunks := hs_chunks h @ [sha fed]\<rparr>
           else h\<lparr>hs_chunk := fed, hs_remaining := hs_remaining h - n\<rparr>))"
  by pat_completeness auto
termination
  by (relation "measures [\<lambda>(_, _, buffer, _). length buffer, \<lambda>(_, _, _, h). if hs_remaining h = 0 then 1 else 0]") auto

declare hash_buffer.simps [simp del]

text \<open>One read at a time; \<open>reads k\<close> says whether the host has cancelled before read \<open>k\<close> and what it returns,
  at most as much as was asked for.\<close>

function fingerprint_loop ::
  "(u8 list \<Rightarrow> rstr) \<Rightarrow> nat \<Rightarrow> (nat \<Rightarrow> bool \<times> (u8 list, io_error) result) \<Rightarrow> nat \<Rightarrow> nat \<Rightarrow> hashing \<Rightarrow> (hashing, dl_error) result" where
  "fingerprint_loop sha chunk_bytes reads k remaining h =
     (if remaining = 0 then Ok h
      else if fst (reads k) then Err (DlMsg ''Transfer cancelled'')
      else
        case snd (reads k) of
          Inl e \<Rightarrow> Err (DlIo e)
        | Inr c \<Rightarrow>
            let buffer = take (min remaining 65536) c in
            if buffer = [] then Err (DlMsg ''was truncated while it was fingerprinted'')
            else fingerprint_loop sha chunk_bytes reads (Suc k) (remaining - length buffer)
                   (hash_buffer sha chunk_bytes buffer (h\<lparr>hs_file := hs_file h @ buffer\<rparr>)))"
  by pat_completeness auto
termination
  by (relation "measure (\<lambda>(_, _, _, _, remaining, _). remaining)") (auto simp: Let_def)

declare fingerprint_loop.simps [simp del]

definition fingerprint ::
  "(u8 list \<Rightarrow> rstr) \<Rightarrow> source_world \<Rightarrow> source_world \<Rightarrow> (nat \<Rightarrow> bool \<times> (u8 list, io_error) result) \<Rightarrow> source_spec \<Rightarrow> u64 \<Rightarrow> (source, dl_error) result" where
  "fingerprint sha w1 w2 reads spec chunk_bytes =
     and_then (source_metadata w1 spec) (\<lambda>src.
     and_then (source_open w2 spec) (\<lambda>_.
     and_then (upload_chunk_count (src_bytes src) chunk_bytes) (\<lambda>count.
     and_then (fingerprint_loop sha (unat chunk_bytes) reads 0 (unat (src_bytes src))
                \<lparr>hs_file = [], hs_chunk = [], hs_remaining = unat chunk_bytes, hs_chunks = []\<rparr>) (\<lambda>h.
     let chunks = (if src_bytes src = 0 \<or> hs_remaining h \<noteq> unat chunk_bytes then hs_chunks h @ [sha (hs_chunk h)] else hs_chunks h) in
     if length chunks \<noteq> unat count then Err (DlMsg ''changed while it was fingerprinted'')
     else Ok (src\<lparr>src_digest := sha (hs_file h), src_chunk_digests := chunks\<rparr>)))))"

section \<open>The fingerprint is the digest of the file and of its chunks\<close>

text \<open>The reference: the data cut into pieces of \<open>c\<close> bytes, the last one shorter; empty data is one empty piece.\<close>

function cut_at :: "nat \<Rightarrow> 'a list \<Rightarrow> 'a list list" where
  "cut_at c xs = (if xs = [] \<or> c = 0 then [] else take c xs # cut_at c (drop c xs))"
  by pat_completeness auto
termination
  by (relation "measure (\<lambda>(_, xs). length xs)") auto

declare cut_at.simps [simp del]

definition chunks_of :: "nat \<Rightarrow> 'a list \<Rightarrow> 'a list list" where
  "chunks_of c xs = (if xs = [] then [[]] else cut_at c xs)"

lemma cut_Nil [simp]: "cut_at c [] = []"
  by (simp add: cut_at.simps)

lemma cut_full: "0 < c \<Longrightarrow> list_all (\<lambda>f. length f = c) fs \<Longrightarrow> length r < c \<Longrightarrow>
    cut_at c (concat fs @ r) = fs @ (if r = [] then [] else [r])"
proof (induction fs)
  case Nil
  then show ?case by (simp add: cut_at.simps [of c r])
next
  case (Cons f fs)
  then have "f @ concat fs @ r \<noteq> []" by auto
  with Cons show ?case by (simp add: cut_at.simps [of c "f @ concat fs @ r"])
qed

lemma length_cut_at: "0 < c \<Longrightarrow> length (cut_at c xs) = ceil_div (length xs) c"
proof (induction c xs rule: cut_at.induct)
  case (1 c xs)
  show ?case
  proof (cases "xs = []")
    case False
    then have "length (cut_at c xs) = Suc (ceil_div (length xs - c) c)"
      using 1 by (simp add: cut_at.simps [of c xs])
    also have "\<dots> = ceil_div (length xs) c"
    proof (cases "c \<le> length xs")
      case True
      then show ?thesis using ceil_div_step [of c "length xs"] 1 by simp
    next
      case short: False
      then show ?thesis using ceil_div_small [of "length xs" c] False by simp
    qed
    finally show ?thesis .
  qed simp
qed

lemma nth_cut_at: "i < length (cut_at c xs) \<Longrightarrow> cut_at c xs ! i = take c (drop (i * c) xs)"
proof (induction c xs arbitrary: i rule: cut_at.induct)
  case (1 c xs)
  then have ok: "\<not> (xs = [] \<or> c = 0)" by (auto simp: cut_at.simps [of c xs] split: if_splits)
  then have eq: "cut_at c xs = take c xs # cut_at c (drop c xs)" by (simp add: cut_at.simps [of c xs])
  show ?case
  proof (cases i)
    case (Suc j)
    then have "cut_at c (drop c xs) ! j = take c (drop (j * c) (drop c xs))" using 1 ok eq by simp
    then show ?thesis using Suc by (simp add: eq add.commute)
  qed (simp add: eq)
qed

text \<open>What the hashers hold after the data \<open>d\<close>.\<close>

definition fed :: "(u8 list \<Rightarrow> rstr) \<Rightarrow> nat \<Rightarrow> u8 list \<Rightarrow> hashing \<Rightarrow> bool" where
  "fed sha c d h \<longleftrightarrow>
     (\<exists>fs. list_all (\<lambda>f. length f = c) fs \<and> d = concat fs @ hs_chunk h \<and> hs_chunks h = map sha fs
        \<and> length (hs_chunk h) < c \<and> hs_remaining h = c - length (hs_chunk h))"

lemma hash_buffer_file [simp]: "hs_file (hash_buffer sha c b h) = hs_file h"
proof (induction sha c b h rule: hash_buffer.induct)
  case (1 sha c b h)
  then show ?case by (simp add: hash_buffer.simps [of sha c b h] Let_def)
qed

lemma fed_step:
  assumes "fed sha c d h" and "n = min (hs_remaining h) (length b)"
  shows "fed sha c (d @ take n b)
    (if hs_remaining h - n = 0
     then h\<lparr>hs_chunk := [], hs_remaining := c, hs_chunks := hs_chunks h @ [sha (hs_chunk h @ take n b)]\<rparr>
     else h\<lparr>hs_chunk := hs_chunk h @ take n b, hs_remaining := hs_remaining h - n\<rparr>)"
proof -
  obtain fs where fs: "list_all (\<lambda>f. length f = c) fs" "d = concat fs @ hs_chunk h" "hs_chunks h = map sha fs"
      "length (hs_chunk h) < c" "hs_remaining h = c - length (hs_chunk h)"
    using assms(1) by (auto simp: fed_def)
  have n: "length (take n b) = n" using assms(2) by simp
  show ?thesis
  proof (cases "hs_remaining h - n = 0")
    case True
    then have "length (hs_chunk h @ take n b) = c" using fs assms(2) n by auto
    with True fs show ?thesis
      by (auto simp: fed_def intro!: exI [of _ "fs @ [hs_chunk h @ take n b]"])
  next
    case False
    with fs n show ?thesis by (auto simp: fed_def intro!: exI [of _ fs])
  qed
qed

lemma hash_buffer_fed: "fed sha c d h \<Longrightarrow> fed sha c (d @ b) (hash_buffer sha c b h)"
proof (induction sha c b h arbitrary: d rule: hash_buffer.induct)
  case (1 sha c b h)
  show ?case
  proof (cases "b = [] \<or> c = 0")
    case True
    with 1(2) show ?thesis by (auto simp: hash_buffer.simps [of sha c b h] fed_def)
  next
    case False
    define n where "n = min (hs_remaining h) (length b)"
    have "fed sha c ((d @ take n b) @ drop n b) (hash_buffer sha c b h)"
      using 1(1) [OF False n_def refl fed_step [OF 1(2) n_def]] False
      by (simp add: hash_buffer.simps [of sha c b h] Let_def n_def [symmetric])
    then show ?thesis by simp
  qed
qed

lemma fed_file: "fed sha c d (h\<lparr>hs_file := f\<rparr>) \<longleftrightarrow> fed sha c d h"
  by (simp add: fed_def)

lemma fingerprint_loop_read:
  assumes "n \<noteq> 0" "\<not> fst (reads k)" "snd (reads k) = Inr r" "b = take (min n 65536) r" "b \<noteq> []"
  shows "fingerprint_loop sha c reads k n h
    = fingerprint_loop sha c reads (Suc k) (n - length b) (hash_buffer sha c b (h\<lparr>hs_file := hs_file h @ b\<rparr>))"
proof -
  have "fingerprint_loop sha c reads k n h =
      (if b = [] then Err (DlMsg ''was truncated while it was fingerprinted'')
       else fingerprint_loop sha c reads (Suc k) (n - length b) (hash_buffer sha c b (h\<lparr>hs_file := hs_file h @ b\<rparr>)))"
    unfolding fingerprint_loop.simps [of sha c reads k n h] assms(4) using assms(1-3) by (simp only: if_False sum.case Let_def)
  then show ?thesis using assms(5) by simp
qed

text \<open>Whatever the reads return, a loop that ends has hashed \<open>remaining\<close> bytes.\<close>

lemma fingerprint_loop_Ok:
  "fingerprint_loop sha c reads k n h = Inr h' \<Longrightarrow> fed sha c (hs_file h) h \<Longrightarrow>
     \<exists>d. length d = n \<and> hs_file h' = hs_file h @ d \<and> fed sha c (hs_file h') h'"
proof (induction sha c reads k n h rule: fingerprint_loop.induct)
  case (1 sha c reads k n h)
  show ?case
  proof (cases "n = 0")
    case True
    then have "h' = h" using 1(2) by (subst (asm) fingerprint_loop.simps) simp
    then show ?thesis using 1(3) True by simp
  next
    case False
    then obtain r where r: "\<not> fst (reads k)" "snd (reads k) = Inr r" "take (min n 65536) r \<noteq> []"
      using 1(2) by (auto simp: fingerprint_loop.simps [of sha c reads k n h] Let_def split: if_splits sum.splits)
    define b where "b = take (min n 65536) r"
    let ?h = "hash_buffer sha c b (h\<lparr>hs_file := hs_file h @ b\<rparr>)"
    have run: "fingerprint_loop sha c reads (Suc k) (n - length b) ?h = Inr h'"
      using 1(2) fingerprint_loop_read [where reads = reads, OF False r(1,2) b_def] r(3) by (simp add: b_def)
    have "fed sha c (hs_file ?h) ?h" using hash_buffer_fed [of sha c "hs_file h" "h\<lparr>hs_file := hs_file h @ b\<rparr>" b] 1(3)
      by (simp add: fed_file)
    then obtain d where d: "length d = n - length b" "hs_file h' = hs_file ?h @ d" "fed sha c (hs_file h') h'"
      using 1(1) [OF False r(1,2) b_def _ run] r(3) by (auto simp: b_def)
    have "length b \<le> n" by (simp add: b_def)
    then show ?thesis using d by (intro exI [of _ "b @ d"]) simp
  qed
qed

text \<open>A file that does not change, read in pieces of any positive size, is hashed to the end.\<close>

definition steady_reads :: "u8 list \<Rightarrow> (nat \<Rightarrow> nat) \<Rightarrow> nat \<Rightarrow> bool \<times> (u8 list, io_error) result" where
  "steady_reads content sizes k = (False, Ok (take (sizes k) (drop (\<Sum>i<k. min (sizes i) 65536) content)))"

lemma fingerprint_loop_steady:
  assumes "\<And>k. 0 < sizes k"
  shows "(\<Sum>i<k. min (sizes i) 65536) + n \<le> length content \<Longrightarrow>
    \<exists>h'. fingerprint_loop sha c (steady_reads content sizes) k n h = Inr h'
      \<and> (n \<noteq> 0 \<longrightarrow> hs_file h' = hs_file h @ take n (drop (\<Sum>i<k. min (sizes i) 65536) content)) \<and> (n = 0 \<longrightarrow> h' = h)"
proof (induction sha c "steady_reads content sizes" k n h rule: fingerprint_loop.induct)
  case (1 sha c k n h)
  define off where "off = (\<Sum>i<k. min (sizes i) 65536)"
  define b where "b = take (min n 65536) (take (sizes k) (drop off content))"
  show ?case
  proof (cases "n = 0")
    case True
    then show ?thesis by (subst fingerprint_loop.simps) simp
  next
    case False
    have len: "length b = min n (min (sizes k) 65536)" using 1(2) by (simp add: b_def off_def)
    have ne: "b \<noteq> []" using len False assms [of k] by (auto simp flip: length_0_conv)
    have r: "\<not> fst (steady_reads content sizes k)"
        "snd (steady_reads content sizes k) = Inr (take (sizes k) (drop off content))"
      by (simp_all add: steady_reads_def off_def)
    let ?h = "hash_buffer sha c b (h\<lparr>hs_file := hs_file h @ b\<rparr>)"
    have unfold: "fingerprint_loop sha c (steady_reads content sizes) k n h
        = fingerprint_loop sha c (steady_reads content sizes) (Suc k) (n - length b) ?h"
      by (rule fingerprint_loop_read [where reads = "steady_reads content sizes" and k = k, OF False r b_def ne])
    have data: "b = take (length b) (drop off content)"
      using 1(2) by (simp add: b_def off_def min_def)
    show ?thesis
    proof (cases "n \<le> min (sizes k) 65536")
      case True
      then have "n - length b = 0" "b = take n (drop off content)" using len data by simp_all
      then show ?thesis using False unfolding unfold by (simp add: fingerprint_loop.simps off_def)
    next
      case more: False
      then have off': "(\<Sum>i<Suc k. min (sizes i) 65536) = off + length b" using len by (auto simp: off_def)
      then have le: "(\<Sum>i<Suc k. min (sizes i) 65536) + (n - length b) \<le> length content"
        using 1(2) len by (simp add: off_def)
      obtain h' where h': "fingerprint_loop sha c (steady_reads content sizes) (Suc k) (n - length b) ?h = Inr h'"
          "hs_file h' = hs_file ?h @ take (n - length b) (drop (off + length b) content)"
        using 1(1) [OF False r b_def ne le] more len off' by auto
      have "take n (drop off content) = b @ take (n - length b) (drop (off + length b) content)"
        using len data take_add [of "length b" "n - length b" "drop off content"] by (simp add: add.commute)
      then show ?thesis using h' False unfolding unfold by (simp add: off_def)
    qed
  qed
qed

lemma fed_start: "0 < c \<Longrightarrow> fed sha c [] \<lparr>hs_file = [], hs_chunk = [], hs_remaining = c, hs_chunks = []\<rparr>"
  by (simp add: fed_def)

lemma fed_end:
  assumes "fed sha c d h"
  shows "(if d = [] \<or> hs_remaining h \<noteq> c then hs_chunks h @ [sha (hs_chunk h)] else hs_chunks h) = map sha (chunks_of c d)"
proof -
  obtain fs where fs: "list_all (\<lambda>f. length f = c) fs" "d = concat fs @ hs_chunk h" "hs_chunks h = map sha fs"
      "length (hs_chunk h) < c" "hs_remaining h = c - length (hs_chunk h)"
    using assms by (auto simp: fed_def)
  have c: "0 < c" using fs(4) by auto
  have "fs = []" if "concat fs = []"
  proof (cases fs)
    case (Cons f gs)
    then show ?thesis using that fs(1) c by auto
  qed simp
  then have empty: "d = [] \<longleftrightarrow> fs = [] \<and> hs_chunk h = []" using fs(2) by auto
  have whole: "hs_remaining h \<noteq> c \<longleftrightarrow> hs_chunk h \<noteq> []" using fs(4,5) by (cases "hs_chunk h") auto
  show ?thesis
    unfolding chunks_of_def whole empty using cut_full [OF c fs(1,4)] fs(2,3) by (auto simp: empty)
qed

lemma length_chunks_of: "0 < c \<Longrightarrow> length (chunks_of c d) = max 1 (ceil_div (length d) c)"
  using length_cut_at [of c d] ceil_div_eq_0 [of c "length d"]
  by (cases "ceil_div (length d) c") (auto simp: chunks_of_def)

lemma upload_chunk_count_Ok:
  "upload_chunk_count n c = Inr k \<longleftrightarrow> 0 < unat c \<and> unat c \<le> 24999984 \<and> unat k = max 1 (ceil_div (unat n) (unat c))"
proof (cases "c = 0 \<or> 24999984 < c")
  case True
  then have "unat c = 0 \<or> 24999984 < unat c" by (auto simp: word_less_nat_alt)
  with True show ?thesis by (auto simp: upload_chunk_count_def)
next
  case False
  then have "0 < unat c" "unat c \<le> 24999984" by (auto simp: word_less_nat_alt unat_gt_0)
  moreover have "unat (max (div_ceil n c) 1) = max 1 (ceil_div (unat n) (unat c))"
    using False by (simp add: unat_max_of_words unat_div_ceil max.commute)
  ultimately show ?thesis using False
    by (auto simp: upload_chunk_count_def word_unat_eq_iff simp del: unat_1)
qed

lemma source_metadata_Ok:
  "source_metadata w spec = Inr src \<Longrightarrow> src_spec src = spec \<and> src_bytes src = snd (bounds spec)
     \<and> unat (fst (bounds spec)) + unat (snd (bounds spec)) < 2 ^ 64"
  by (auto simp: source_metadata_def checked_end_def checked_add_def split: if_splits)

definition hashing_start :: "u64 \<Rightarrow> hashing" where
  "hashing_start c = \<lparr>hs_file = [], hs_chunk = [], hs_remaining = unat c, hs_chunks = []\<rparr>"

lemma fingerprint_closed:
  assumes "source_metadata w1 spec = Inr src" and "source_open w2 spec = Inr f"
    and count: "upload_chunk_count (src_bytes src) c = Inr k"
    and loop: "fingerprint_loop sha (unat c) reads 0 (unat (src_bytes src)) (hashing_start c) = Inr h"
    and d: "length (hs_file h) = unat (src_bytes src)" "fed sha (unat c) (hs_file h) h"
  shows "fingerprint sha w1 w2 reads spec c
    = Ok (src\<lparr>src_digest := sha (hs_file h), src_chunk_digests := map sha (chunks_of (unat c) (hs_file h))\<rparr>)"
proof -
  have c: "0 < unat c" "unat k = max 1 (ceil_div (unat (src_bytes src)) (unat c))"
    using count by (simp_all add: upload_chunk_count_Ok)
  have empty: "src_bytes src = 0 \<longleftrightarrow> hs_file h = []" using d(1) by (auto simp flip: unat_eq_0)
  have "length (map sha (chunks_of (unat c) (hs_file h))) = unat k"
    using c d(1) by (simp add: length_chunks_of)
  then show ?thesis
    using assms(1,2) count loop fed_end [OF d(2)]
    by (simp add: fingerprint_def hashing_start_def empty Let_def cong: if_cong)
qed

text \<open>Whatever the source does while it is read, a fingerprint is that of some data of the declared length.\<close>

lemma fingerprint_Ok:
  assumes "fingerprint sha w1 w2 reads spec c = Inr src"
  shows "\<exists>d. length d = unat (src_bytes src) \<and> src_digest src = sha d
    \<and> src_chunk_digests src = map sha (chunks_of (unat c) d)
    \<and> src_spec src = spec \<and> src_bytes src = snd (bounds spec)"
proof -
  obtain m f k h where run: "source_metadata w1 spec = Inr m" "source_open w2 spec = Inr f"
      "upload_chunk_count (src_bytes m) c = Inr k"
      "fingerprint_loop sha (unat c) reads 0 (unat (src_bytes m)) (hashing_start c) = Inr h"
    using assms by (auto simp: fingerprint_def hashing_start_def)
  have "fed sha (unat c) (hs_file (hashing_start c)) (hashing_start c)"
    using fed_start [of "unat c" sha] run(3) by (simp add: hashing_start_def upload_chunk_count_Ok)
  then have "length (hs_file h) = unat (src_bytes m)" "fed sha (unat c) (hs_file h) h"
    using fingerprint_loop_Ok [OF run(4)] by (auto simp: hashing_start_def)
  from fingerprint_closed [OF run this] this(1) show ?thesis
    using assms source_metadata_Ok [OF run(1)] by (auto intro!: exI [of _ "hs_file h"])
qed

text \<open>C27. Hashing in one pass equals hashing the pieces: for a file that does not change while it is read,
  whatever sizes the reads return, \<open>fingerprint\<close> ends with the digest of the declared range and with
  exactly the digests of that range cut into chunks (one empty chunk for an empty range).\<close>

theorem fingerprint_matches_reference:
  assumes "\<And>k. 0 < sizes k" and "source_metadata w1 spec = Inr src" and "source_open w2 spec = Inr f"
    and "0 < c" and "c \<le> 24999984"
    and len: "unat (fst (bounds spec)) + unat (snd (bounds spec)) \<le> length (of_content f)"
  shows "fingerprint sha w1 w2 (steady_reads (drop (unat (fst (bounds spec))) (of_content f)) sizes) spec c
    = Ok (let range = take (unat (snd (bounds spec))) (drop (unat (fst (bounds spec))) (of_content f)) in
          src\<lparr>src_digest := sha range, src_chunk_digests := map sha (chunks_of (unat c) range)\<rparr>)"
proof -
  let ?content = "drop (unat (fst (bounds spec))) (of_content f)"
  let ?reads = "steady_reads ?content sizes"
  have src: "src_bytes src = snd (bounds spec)" using source_metadata_Ok [OF assms(2)] by simp
  have c: "0 < unat c" "unat c \<le> 24999984" using assms(4,5) by (simp_all add: word_le_nat_alt unat_gt_0)
  then obtain k where count: "upload_chunk_count (src_bytes src) c = Inr k"
    using assms(4,5) that by (simp add: upload_chunk_count_def not_less word_gt_0)
  obtain h where h: "fingerprint_loop sha (unat c) ?reads 0 (unat (src_bytes src)) (hashing_start c) = Inr h"
      "unat (src_bytes src) \<noteq> 0 \<longrightarrow> hs_file h = take (unat (src_bytes src)) ?content"
      "unat (src_bytes src) = 0 \<longrightarrow> h = hashing_start c"
    using fingerprint_loop_steady [where sizes = sizes and k = 0 and n = "unat (src_bytes src)" and content = ?content
      and sha = sha and c = "unat c" and h = "hashing_start c"] assms(1) length_drop [of "unat (fst (bounds spec))" "of_content f"] len
    by (auto simp: src hashing_start_def le_diff_conv2)
  then have hashed: "hs_file h = take (unat (src_bytes src)) ?content"
    by (cases "unat (src_bytes src) = 0") (auto simp: hashing_start_def)
  have "fed sha (unat c) (hs_file h) h"
    using fingerprint_loop_Ok [OF h(1)] fed_start [OF c(1), of sha] by (auto simp: hashing_start_def)
  moreover have "length (hs_file h) = unat (src_bytes src)" using len by (simp add: hashed src)
  ultimately have "fingerprint sha w1 w2 ?reads spec c
      = Ok (src\<lparr>src_digest := sha (hs_file h), src_chunk_digests := map sha (chunks_of (unat c) (hs_file h))\<rparr>)"
    using fingerprint_closed [OF assms(2,3) count h(1)] by blast
  then show ?thesis by (simp add: hashed src Let_def)
qed

definition example_file :: open_file where
  "example_file = \<lparr>of_metadata = Ok \<lparr>fm_is_file = True, fm_len = 8, fm_modified = Ok 5\<rparr>, of_content = [9, 1, 2, 3, 4, 5, 9, 9]\<rparr>"

definition example_world :: source_world where
  "example_world = \<lparr>sw_metadata = (\<lambda>_. of_metadata example_file), sw_open = (\<lambda>_. Ok example_file), sw_resolver = None\<rparr>"

definition example_spec :: source_spec where "example_spec = SourcePath [lit ''a''] 1 5"

lemma example_source:
  "source_metadata example_world example_spec
     = Inr \<lparr>src_spec = example_spec, src_bytes = 5, src_modified_ns = 5, src_digest = [], src_chunk_digests = []\<rparr>"
  "source_open example_world example_spec = Inr example_file"
  by (simp_all add: source_metadata_def source_open_def example_world_def example_spec_def example_file_def
      checked_end_def checked_add_def)

theorem fingerprint_matches_reference_witness:
  "fingerprint (map unat) example_world example_world (steady_reads [1, 2, 3, 4, 5, 9, 9] (\<lambda>k. 3)) example_spec 2
     = Ok \<lparr>src_spec = example_spec, src_bytes = 5, src_modified_ns = 5, src_digest = [1, 2, 3, 4, 5],
           src_chunk_digests = [[1, 2], [3, 4], [5]]\<rparr>"
proof -
  have "chunks_of 2 [1, 2, 3, 4, 5] = [[1, 2], [3, 4], [5 :: u8]]"
    by (simp add: chunks_of_def cut_at.simps)
  then show ?thesis
    using fingerprint_matches_reference [of "\<lambda>k. 3" example_world example_spec _ example_world example_file 2 "map unat",
      OF _ example_source]
    by (simp add: example_spec_def example_file_def)
qed

section \<open>Encrypting a chunk\<close>

text \<open>\<open>prepare_one\<close>; \<open>w1\<close> is met by the open and the read, \<open>w2\<close> by the second look at the metadata.\<close>

record prepared_input =
  pi_source :: source
  pi_item :: nat
  pi_item_id :: rstr
  pi_position :: u64
  pi_chunk_bytes :: u64
  pi_prefix :: "u8 list"
  pi_key :: "u8 list"
  pi_transfer :: rstr

record prepared_ciphertext =
  pc_item :: nat
  pc_position :: u64
  pc_plaintext_bytes :: u64
  pc_ciphertext :: "u8 list"

definition upload_aad :: "rstr \<Rightarrow> rstr \<Rightarrow> u64 \<Rightarrow> rstr" where
  "upload_aad transfer item position = lit ''filebeam:v1:'' @ transfer @ lit '':'' @ item @ lit '':'' @ decimal (unat position)"

definition nth_opt :: "'a list \<Rightarrow> nat \<Rightarrow> 'a option" where
  "nth_opt xs i = (if i < length xs then Some (xs ! i) else None)"

text \<open>The piece of the source at the position, read and compared with its fingerprint.\<close>

definition read_piece :: "source_world \<Rightarrow> prepared_input \<Rightarrow> (u8 list, dl_error) result" where
  "read_piece w p =
     (let src = pi_source p; (base, len) = bounds (src_spec src) in
      and_then (ok_or (DlMsg ''chunk offset overflow'') (checked_mul (pi_position p) (pi_chunk_bytes p))) (\<lambda>offset.
      and_then (source_open w (src_spec src)) (\<lambda>f.
      let n = min (saturating_sub (src_bytes src) offset) (pi_chunk_bytes p) in
      if len < offset then Err (DlMsg ''source chunk starts beyond its declared length'')
      else
        and_then (ok_or (DlMsg ''source offset overflow'') (checked_add base offset)) (\<lambda>start.
        ok_or (DlMsg ''changed while it was being prepared'') (read_exact (unat start) (unat n) (of_content f))))))"

definition prepare_one ::
  "crypto \<Rightarrow> (u8 list \<Rightarrow> rstr) \<Rightarrow> source_world \<Rightarrow> source_world \<Rightarrow> prepared_input \<Rightarrow> (prepared_ciphertext, dl_error) result" where
  "prepare_one cr sha w1 w2 p =
     (let src = pi_source p in
      and_then (read_piece w1 p) (\<lambda>content.
      and_then (ok_or (DlMsg ''saved upload lacks per-chunk source fingerprints; start a new upload'')
                 (nth_opt (src_chunk_digests src) (unat (pi_position p)))) (\<lambda>expected.
      if sha content \<noteq> expected then Err (DlMsg ''changed after source preflight; start a new upload to avoid nonce reuse'')
      else
        and_then (source_metadata w2 (src_spec src)) (\<lambda>now.
        if src_modified_ns now \<noteq> src_modified_ns src
        then Err (DlMsg ''changed after source preflight; start a new upload to avoid nonce reuse'')
        else
          and_then (map_err DlMsg (encrypt_chunk cr (pi_key p) (pi_prefix p) (ucast (pi_position p)) content
                     (bytes (upload_aad (pi_transfer p) (pi_item_id p) (pi_position p))))) (\<lambda>ciphertext.
          Ok \<lparr>pc_item = pi_item p, pc_position = pi_position p, pc_plaintext_bytes = of_nat (length content),
              pc_ciphertext = ciphertext\<rparr>)))))"

lemma read_exact_length: "read_exact off n content = Some d \<Longrightarrow> length d = n"
  by (auto simp: read_exact_def split: if_splits)

lemma read_piece_length:
  assumes "read_piece w p = Inr content"
  shows "length content = unat (plaintext_len (src_bytes (pi_source p)) (pi_chunk_bytes p) (pi_position p))"
proof -
  obtain base len where b: "bounds (src_spec (pi_source p)) = (base, len)" by force
  obtain offset and f :: open_file and start :: u64 where run:
    "checked_mul (pi_position p) (pi_chunk_bytes p) = Some offset"
    "read_exact (unat start) (unat (min (saturating_sub (src_bytes (pi_source p)) offset) (pi_chunk_bytes p))) (of_content f) = Some content"
    using assms by (auto simp: read_piece_def b Let_def split: if_splits)
  have "offset = saturating_mul (pi_position p) (pi_chunk_bytes p)" using run(1) by (simp add: saturating_mul_def)
  then show ?thesis using read_exact_length [OF run(2)] by (simp add: plaintext_len_def)
qed

lemma prepare_one_cases:
  assumes "prepare_one cr sha w1 w2 p = Inr out"
  obtains content where "read_piece w1 p = Inr content"
    "nth_opt (src_chunk_digests (pi_source p)) (unat (pi_position p)) = Some (sha content)"
    "encrypt_chunk cr (pi_key p) (pi_prefix p) (ucast (pi_position p)) content
       (bytes (upload_aad (pi_transfer p) (pi_item_id p) (pi_position p))) = Inr (pc_ciphertext out)"
    "out = \<lparr>pc_item = pi_item p, pc_position = pi_position p, pc_plaintext_bytes = of_nat (length content),
            pc_ciphertext = pc_ciphertext out\<rparr>"
  using assms by (auto simp: prepare_one_def Let_def split: if_splits)

lemma prepare_one_Ok:
  assumes "prepare_one cr sha w1 w2 p = Inr out"
  shows "\<exists>content. pc_item out = pi_item p \<and> pc_position out = pi_position p
    \<and> pc_plaintext_bytes out = plaintext_len (src_bytes (pi_source p)) (pi_chunk_bytes p) (pi_position p)
    \<and> length content = unat (pc_plaintext_bytes out)
    \<and> unat (pi_position p) < length (src_chunk_digests (pi_source p))
    \<and> sha content = src_chunk_digests (pi_source p) ! unat (pi_position p)
    \<and> encrypt_chunk cr (pi_key p) (pi_prefix p) (ucast (pi_position p)) content
         (bytes (upload_aad (pi_transfer p) (pi_item_id p) (pi_position p))) = Inr (pc_ciphertext out)"
proof -
  obtain content where c: "read_piece w1 p = Inr content"
      "nth_opt (src_chunk_digests (pi_source p)) (unat (pi_position p)) = Some (sha content)"
      "encrypt_chunk cr (pi_key p) (pi_prefix p) (ucast (pi_position p)) content
         (bytes (upload_aad (pi_transfer p) (pi_item_id p) (pi_position p))) = Inr (pc_ciphertext out)"
      "out = \<lparr>pc_item = pi_item p, pc_position = pi_position p, pc_plaintext_bytes = of_nat (length content),
              pc_ciphertext = pc_ciphertext out\<rparr>"
    using assms by (rule prepare_one_cases)
  have "pc_item out = pi_item p" "pc_position out = pi_position p" "pc_plaintext_bytes out = of_nat (length content)"
    using arg_cong [OF c(4), of pc_item] arg_cong [OF c(4), of pc_position] arg_cong [OF c(4), of pc_plaintext_bytes] by simp_all
  then show ?thesis using c(2,3) read_piece_length [OF c(1)] by (intro exI [of _ content]) (auto simp: nth_opt_def split: if_splits)
qed

text \<open>C14. A nonce is used twice only for the same plaintext: if a chunk is encrypted twice for the same job,
  whatever the source looked like each time (a resumed upload, a file that was edited in between), the two
  ciphertexts are the same, or the two pieces that were read differ and collide under SHA-256.\<close>

theorem nonce_reuse_needs_a_collision:
  "case (prepare_one cr sha w1 w2 p, prepare_one cr sha w3 w4 p) of
     (Inr a, Inr b) \<Rightarrow> a = b \<or>
       (\<exists>x y. read_piece w1 p = Ok x \<and> read_piece w3 p = Ok y \<and> x \<noteq> y \<and> sha x = sha y)
   | _ \<Rightarrow> True"
proof (cases "prepare_one cr sha w1 w2 p")
  case a: (Inr a)
  show ?thesis
  proof (cases "prepare_one cr sha w3 w4 p")
    case b: (Inr b)
    obtain x where x: "read_piece w1 p = Inr x" "nth_opt (src_chunk_digests (pi_source p)) (unat (pi_position p)) = Some (sha x)"
        "encrypt_chunk cr (pi_key p) (pi_prefix p) (ucast (pi_position p)) x
           (bytes (upload_aad (pi_transfer p) (pi_item_id p) (pi_position p))) = Inr (pc_ciphertext a)"
        "a = \<lparr>pc_item = pi_item p, pc_position = pi_position p, pc_plaintext_bytes = of_nat (length x), pc_ciphertext = pc_ciphertext a\<rparr>"
      using a by (rule prepare_one_cases)
    obtain y where y: "read_piece w3 p = Inr y" "nth_opt (src_chunk_digests (pi_source p)) (unat (pi_position p)) = Some (sha y)"
        "encrypt_chunk cr (pi_key p) (pi_prefix p) (ucast (pi_position p)) y
           (bytes (upload_aad (pi_transfer p) (pi_item_id p) (pi_position p))) = Inr (pc_ciphertext b)"
        "b = \<lparr>pc_item = pi_item p, pc_position = pi_position p, pc_plaintext_bytes = of_nat (length y), pc_ciphertext = pc_ciphertext b\<rparr>"
      using b by (rule prepare_one_cases)
    have "sha x = sha y" using x(2) y(2) by simp
    moreover have "a = b" if "x = y" using that x(3,4) y(3,4) by simp
    ultimately show ?thesis using x(1) y(1) a b by auto
  qed (simp add: a)
qed simp

end
