(* ===== verification/Upload_Job.thy ===== *)
theory Upload_Job
  imports Upload_Source Download_Resume Staging "HOL-Library.AList"
begin

text \<open>
  The durable state of an upload, from \<open>crates/transfer-native/src/protocol/upload.rs\<close>: the checkpoint
  (\<open>UploadJob\<close>), its validation, the choice of the next chunk to encrypt, the adoption of a prepared
  ciphertext and the loop that prepares all of them, the progress of the request bodies, and the work that
  is handed to the host (\<open>background_work\<close>, \<open>ingest_background_completion\<close>). Shown: preparing a chunk keeps the
  checkpoint valid, the preparation loop ends with every chunk of every item recorded exactly once, and the
  progress counts exactly the bytes that were acknowledged.
\<close>

section \<open>State\<close>

record upload_item =
  ui_id :: rstr
  ui_position :: u64
  ui_name :: rstr
  ui_source :: source
  ui_nonce_prefix :: rstr
  ui_digest :: rstr
  ui_bytes :: u64
  ui_chunk_count :: u64

record chunk_record =
  ch_item :: nat
  ch_item_id :: rstr
  ch_position :: u64
  ch_plaintext_bytes :: u64
  ch_ciphertext_bytes :: u64
  ch_checksum :: rstr
  ch_artifact :: path
  ch_complete :: bool
  ch_stage :: "stage_session option"

record upload_recipient =
  rc_username :: rstr
  rc_user_id :: u64
  rc_account_key_bundle_id :: u64
  rc_public_key :: rstr
  rc_encrypted_key :: "rstr option"

record upload_job =
  uj_sealed_attached_note :: "rstr option"
  uj_version :: u8
  uj_id :: rstr
  uj_direction :: rstr
  uj_state :: rstr
  uj_instance :: rstr
  uj_done :: u64
  uj_total :: u64
  uj_transfer_id :: "rstr option"
  uj_upload_token :: "rstr option"
  uj_monitor_token :: "rstr option"
  uj_share_url :: "rstr option"
  uj_delete_token :: "rstr option"
  uj_share_key :: "u8 list"
  uj_password_salt :: "rstr option"
  uj_master_key :: "u8 list"
  uj_chunk_bytes :: u64
  uj_server_concurrency :: u32
  uj_upload_status :: bool
  uj_turbo :: bool
  uj_descriptor_published :: bool
  uj_encrypted_descriptor :: "rstr option"
  uj_transport :: "upload_transport option"
  uj_driver :: rstr
  uj_join_token :: "rstr option"
  uj_exact_manifest :: "rstr option"
  uj_receipt :: "rstr option"
  uj_recipient :: "upload_recipient option"
  uj_items :: "upload_item list"
  uj_chunks :: "chunk_record list"

text \<open>The libraries and the open store. \<open>encode\<close> and \<open>decode\<close> are base64url without padding; the JSON writers
  and readers are those of \<open>serde_json\<close>. The checkpoint codec skips the master key.\<close>

record up_ctx =
  ux_crypto :: crypto
  ux_rng :: rng
  ux_encode :: "u8 list \<Rightarrow> rstr"
  ux_decode :: "rstr \<Rightarrow> u8 list option"
  ux_sha :: "u8 list \<Rightarrow> rstr"
  ux_store :: store
  ux_to_vec :: "upload_job \<Rightarrow> u8 list option"
  ux_from_slice :: "u8 list \<Rightarrow> upload_job option"
  ux_stage_to_vec :: "stage_session \<Rightarrow> u8 list option"
  ux_stage_from_slice :: "u8 list \<Rightarrow> stage_session option"

definition save_upload :: "up_ctx \<Rightarrow> upload_job \<Rightarrow> unit dr_op" where
  "save_upload cx job = dr_ck (store_save (ux_crypto cx) (ux_rng cx) (ux_to_vec cx) (ux_store cx) job)"

definition load_upload :: "up_ctx \<Rightarrow> upload_job dr_op" where
  "load_upload cx =
     bind_st (dr_ck (store_load (ux_crypto cx) (ux_from_slice cx) (ux_store cx))) (\<lambda>found.
     lift_st (ok_or (DlMsg ''saved upload checkpoint is empty'') found))"

record upload_activity =
  ua_instance :: rstr
  ua_transfer_id :: rstr
  ua_upload_token :: rstr
  ua_monitor_token :: "rstr option"
  ua_driver :: rstr
  ua_turbo :: bool

definition activity :: "up_ctx \<Rightarrow> upload_activity option dr_op" where
  "activity cx =
     bind_st (dr_ck (store_load (ux_crypto cx) (ux_from_slice cx) (ux_store cx))) (\<lambda>found.
     lift_st (case found of
        None \<Rightarrow> Ok None
      | Some job \<Rightarrow>
          if uj_direction job \<noteq> lit ''upload'' then Err (DlMsg ''saved transfer is not an upload'')
          else Ok (case (uj_transfer_id job, uj_upload_token job) of
                     (Some t, Some token) \<Rightarrow>
                       Some \<lparr>ua_instance = uj_instance job, ua_transfer_id = t, ua_upload_token = token,
                             ua_monitor_token = uj_monitor_token job, ua_driver = uj_driver job, ua_turbo = uj_turbo job\<rparr>
                   | _ \<Rightarrow> None)))"

section \<open>Progress of the request bodies\<close>

record send_progress =
  sp_base_done :: u64
  sp_active :: "((nat \<times> u64) \<times> u64) list"

definition chunk_key :: "chunk_record \<Rightarrow> nat \<times> u64" where
  "chunk_key c = (ch_item c, ch_position c)"

text \<open>The map is an association list. \<open>values().sum::<u64>()\<close> wraps in a release build.\<close>

definition sp_new :: "u64 \<Rightarrow> send_progress" where
  "sp_new base_done = \<lparr>sp_base_done = base_done, sp_active = []\<rparr>"

definition sp_snapshot :: "send_progress \<Rightarrow> u64" where
  "sp_snapshot p = saturating_add (sp_base_done p) (sum_list (map snd (sp_active p)))"

definition sp_restart :: "chunk_record \<Rightarrow> send_progress \<Rightarrow> send_progress" where
  "sp_restart c p = p\<lparr>sp_active := AList.update (chunk_key c) 0 (sp_active p)\<rparr>"

definition sp_report :: "nat \<times> u64 \<Rightarrow> u64 \<Rightarrow> u64 \<Rightarrow> u64 \<Rightarrow> send_progress \<Rightarrow> send_progress" where
  "sp_report key plain_bytes cipher_bytes sent p =
     p\<lparr>sp_active := AList.update key (min (min sent cipher_bytes) plain_bytes) (sp_active p)\<rparr>"

definition sp_acknowledged :: "chunk_record \<Rightarrow> send_progress \<Rightarrow> send_progress" where
  "sp_acknowledged c p =
     p\<lparr>sp_active := AList.delete (chunk_key c) (sp_active p),
       sp_base_done := saturating_add (sp_base_done p) (ch_plaintext_bytes c)\<rparr>"

section \<open>Validation\<close>

definition upload_states :: "rstr set" where
  "upload_states = {lit ''preparing'', lit ''awaiting-execution'', lit ''sending'', lit ''finalizing'', lit ''serving'',
     lit ''ended'', lit ''complete''}"

definition blank :: "rstr option \<Rightarrow> bool" where
  "blank v \<longleftrightarrow> (case v of None \<Rightarrow> True | Some s \<Rightarrow> s = [])"

text \<open>\<open>decode(v).map_or(true, |b| b.len() != 16)\<close> fails.\<close>

definition decodes_to_16 :: "(rstr \<Rightarrow> u8 list option) \<Rightarrow> rstr \<Rightarrow> bool" where
  "decodes_to_16 decode v \<longleftrightarrow> (case decode v of None \<Rightarrow> False | Some b \<Rightarrow> length b = 16)"

definition header_invalid :: "upload_job \<Rightarrow> bool" where
  "header_invalid job \<longleftrightarrow>
     uj_version job \<noteq> 1 \<or> uj_direction job \<noteq> lit ''upload'' \<or> uj_state job \<notin> upload_states
     \<or> uj_chunk_bytes job = 0 \<or> 24999984 < uj_chunk_bytes job
     \<or> uj_total job \<noteq> sum_list (map (\<lambda>item. src_bytes (ui_source item)) (uj_items job))
     \<or> (uj_state job = lit ''complete'' \<and> uj_receipt job = None)
     \<or> ((uj_state job = lit ''finalizing'' \<or> uj_state job = lit ''serving'') \<and> uj_exact_manifest job = None)
     \<or> (uj_state job = lit ''finalizing'' \<and> list_ex (\<lambda>c. \<not> ch_complete c) (uj_chunks job))
     \<or> \<not> (uj_driver job = lit ''http'' \<or> uj_driver job = lit ''webrtc'')
     \<or> (uj_driver job = lit ''webrtc'' \<and> blank (uj_join_token job))
     \<or> (uj_turbo job \<and> (uj_driver job \<noteq> lit ''http'' \<or> uj_recipient job \<noteq> None))
     \<or> (uj_descriptor_published job \<and> uj_encrypted_descriptor job = None)"

definition secrets_missing :: "(rstr \<Rightarrow> u8 list option) \<Rightarrow> upload_job \<Rightarrow> bool" where
  "secrets_missing decode job \<longleftrightarrow>
     length (uj_share_key job) \<noteq> 32
     \<or> (case uj_password_salt job of None \<Rightarrow> False | Some salt \<Rightarrow> \<not> decodes_to_16 decode salt)
     \<or> (uj_state job \<noteq> lit ''complete'' \<and> (blank (uj_transfer_id job) \<or> blank (uj_upload_token job)))"

fun check_saved_items :: "(rstr \<Rightarrow> u8 list option) \<Rightarrow> u64 \<Rightarrow> nat \<Rightarrow> rstr set \<Rightarrow> upload_item list \<Rightarrow> (unit, dl_error) result" where
  "check_saved_items decode chunk_bytes position ids [] = Ok ()"
| "check_saved_items decode chunk_bytes position ids (item # rest) =
     (if ui_id item = [] \<or> ui_position item \<noteq> of_nat position \<or> ui_id item \<in> ids
         \<or> \<not> decodes_to_16 decode (ui_nonce_prefix item) \<or> \<not> valid_digest (ui_digest item)
         \<or> \<not> valid_digest (src_digest (ui_source item))
      then Err (DlMsg ''invalid saved upload item checkpoint'')
      else
        and_then (upload_chunk_count (src_bytes (ui_source item)) chunk_bytes) (\<lambda>n.
        if of_nat (length (src_chunk_digests (ui_source item))) \<noteq> n
           \<or> \<not> list_all valid_digest (src_chunk_digests (ui_source item))
        then Err (DlMsg ''invalid saved upload item checkpoint'')
        else check_saved_items decode chunk_bytes (Suc position) (insert (ui_id item) ids) rest))"

fun check_saved_chunks :: "u64 \<Rightarrow> upload_item list \<Rightarrow> (nat \<times> u64) set \<Rightarrow> chunk_record list \<Rightarrow> (unit, dl_error) result" where
  "check_saved_chunks chunk_bytes items positions [] = Ok ()"
| "check_saved_chunks chunk_bytes items positions (c # rest) =
     (if length items \<le> ch_item c \<or> ch_item_id c \<noteq> ui_id (items ! ch_item c)
      then Err (DlMsg ''invalid saved upload chunk checkpoint'')
      else
        let n = src_bytes (ui_source (items ! ch_item c)) in
        and_then (upload_chunk_count n chunk_bytes) (\<lambda>chunks.
        if chunks \<le> ch_position c \<or> ch_plaintext_bytes c \<noteq> plaintext_len n chunk_bytes (ch_position c)
        then Err (DlMsg ''invalid saved upload chunk checkpoint'')
        else
          and_then (ok_or (DlMsg ''ciphertext size overflow'') (checked_add (ch_plaintext_bytes c) AEAD_TAG_BYTES)) (\<lambda>sealed.
          if ch_ciphertext_bytes c \<noteq> sealed \<or> str_len (ch_checksum c) \<noteq> 64 \<or> chunk_key c \<in> positions
          then Err (DlMsg ''invalid saved upload chunk checkpoint'')
          else check_saved_chunks chunk_bytes items (insert (chunk_key c) positions) rest)))"

definition validate_job :: "(rstr \<Rightarrow> u8 list option) \<Rightarrow> upload_job \<Rightarrow> (unit, dl_error) result" where
  "validate_job decode job =
     (if header_invalid job then Err (DlMsg ''invalid saved upload checkpoint'')
      else if secrets_missing decode job
        then Err (DlMsg ''saved upload checkpoint is missing credentials or encryption material'')
      else
        and_then (check_saved_items decode (uj_chunk_bytes job) 0 {} (uj_items job)) (\<lambda>_.
        check_saved_chunks (uj_chunk_bytes job) (uj_items job) {} (uj_chunks job)))"

section \<open>What is prepared\<close>

definition has_chunk :: "upload_job \<Rightarrow> nat \<Rightarrow> nat \<Rightarrow> bool" where
  "has_chunk job item position \<longleftrightarrow> list_ex (\<lambda>c. ch_item c = item \<and> ch_position c = of_nat position) (uj_chunks job)"

definition source_chunks :: "upload_job \<Rightarrow> nat \<Rightarrow> (u64, dl_error) result" where
  "source_chunks job item = upload_chunk_count (src_bytes (ui_source (uj_items job ! item))) (uj_chunk_bytes job)"

fun missing_from :: "upload_job \<Rightarrow> nat list \<Rightarrow> ((nat \<times> u64) option, dl_error) result" where
  "missing_from job [] = Ok None"
| "missing_from job (item # rest) =
     and_then (source_chunks job item) (\<lambda>n.
     case find (\<lambda>position. \<not> has_chunk job item position) [0 ..< unat n] of
       Some position \<Rightarrow> Ok (Some (item, of_nat position))
     | None \<Rightarrow> missing_from job rest)"

definition next_missing_chunk :: "upload_job \<Rightarrow> ((nat \<times> u64) option, dl_error) result" where
  "next_missing_chunk job = missing_from job [0 ..< length (uj_items job)]"

definition item_prepared :: "upload_job \<Rightarrow> nat \<Rightarrow> (bool, dl_error) result" where
  "item_prepared job item =
     and_then (source_chunks job item) (\<lambda>n. Ok (list_all (has_chunk job item) [0 ..< unat n]))"

definition item_final :: "upload_job \<Rightarrow> upload_item \<Rightarrow> bool" where
  "item_final job item \<longleftrightarrow>
     ui_bytes item = src_bytes (ui_source item)
     \<and> ui_chunk_count item =
         (case upload_chunk_count (src_bytes (ui_source item)) (uj_chunk_bytes job) of Inr n \<Rightarrow> n | Inl _ \<Rightarrow> - 1)
     \<and> ui_digest item \<noteq> []"

fun total_chunks :: "u64 \<Rightarrow> upload_item list \<Rightarrow> (nat, dl_error) result" where
  "total_chunks chunk_bytes [] = Ok 0"
| "total_chunks chunk_bytes (item # rest) =
     and_then (upload_chunk_count (src_bytes (ui_source item)) chunk_bytes) (\<lambda>n.
     and_then (total_chunks chunk_bytes rest) (\<lambda>k. Ok (unat n + k)))"

definition intact :: "(u8 list \<Rightarrow> rstr) \<Rightarrow> chunk_record \<Rightarrow> u8 list \<Rightarrow> bool" where
  "intact sha c content \<longleftrightarrow> of_nat (length content) = ch_ciphertext_bytes c \<and> sha content = ch_checksum c"

text \<open>A completed chunk needs no artifact; a failing read counts as not prepared.\<close>

fun artifacts_intact :: "(u8 list \<Rightarrow> rstr) \<Rightarrow> chunk_record list \<Rightarrow> (fs, bool, dl_error) st" where
  "artifacts_intact sha [] = lift_st (Ok True)"
| "artifacts_intact sha (c # rest) =
     (if ch_complete c then artifacts_intact sha rest
      else (\<lambda>s. case read_file (ch_artifact c) s of
              (Inl _, s') \<Rightarrow> (Ok False, s')
            | (Inr content, s') \<Rightarrow> if intact sha c content then artifacts_intact sha rest s' else (Ok False, s')))"

definition preparation_complete :: "(u8 list \<Rightarrow> rstr) \<Rightarrow> upload_job \<Rightarrow> (fs, bool, dl_error) st" where
  "preparation_complete sha job =
     (if \<not> list_all (item_final job) (uj_items job) then lift_st (Ok False)
      else
        bind_st (lift_st (total_chunks (uj_chunk_bytes job) (uj_items job))) (\<lambda>expected.
        if length (uj_chunks job) \<noteq> expected then lift_st (Ok False) else artifacts_intact sha (uj_chunks job)))"

definition stage_name :: "chunk_record \<Rightarrow> rstr" where
  "stage_name c = lit ''stage-'' @ decimal (ch_item c) @ lit ''-'' @ decimal (unat (ch_position c)) @ lit ''.json''"

definition validate_stage :: "stage_session \<Rightarrow> chunk_record \<Rightarrow> (unit, dl_error) result" where
  "validate_stage session c =
     (if ss_id session = [] \<or> ss_ciphertext_bytes session \<noteq> ch_ciphertext_bytes c \<or> ss_checksum session \<noteq> ch_checksum c
         \<or> ch_ciphertext_bytes c < ss_offset session
      then Err (DlMsg ''saved stage sidecar does not match immutable ciphertext'') else Ok ())"

text \<open>\<open>validate_sources\<close>; the \<open>k\<close>-th fingerprint meets \<open>worlds k\<close> and \<open>reads k\<close>. A source that is gone is
  forgiven once its item is prepared.\<close>

record fingerprint_env =
  fe_metadata :: source_world
  fe_open :: source_world
  fe_reads :: "nat \<Rightarrow> bool \<times> (u8 list, io_error) result"

definition validate_source ::
  "up_ctx \<Rightarrow> fingerprint_env \<Rightarrow> upload_job \<Rightarrow> nat \<Rightarrow> (unit, dl_error) result" where
  "validate_source cx env job i =
     (let src = ui_source (uj_items job ! i) in
      if src_chunk_digests src = []
      then Err (DlMsg ''saved partial upload lacks per-chunk source fingerprints; start a new upload'')
      else
        case fingerprint (ux_sha cx) (fe_metadata env) (fe_open env) (fe_reads env) (src_spec src) (uj_chunk_bytes job) of
          Inl e \<Rightarrow>
            (if e = DlIo NotFound
             then and_then (item_prepared job i) (\<lambda>prepared. if prepared then Ok () else Err e)
             else Err e)
        | Inr actual \<Rightarrow>
            if src_bytes actual \<noteq> src_bytes src \<or> src_modified_ns actual \<noteq> src_modified_ns src
               \<or> src_digest actual \<noteq> src_digest src \<or> src_chunk_digests actual \<noteq> src_chunk_digests src
            then Err (DlMsg ''changed after ciphertext preparation; start a new upload to avoid nonce reuse'')
            else Ok ())"

fun validate_sources_from ::
  "up_ctx \<Rightarrow> (nat \<Rightarrow> fingerprint_env) \<Rightarrow> upload_job \<Rightarrow> nat list \<Rightarrow> (unit, dl_error) result" where
  "validate_sources_from cx envs job [] = Ok ()"
| "validate_sources_from cx envs job (i # is) =
     and_then (validate_source cx (envs i) job i) (\<lambda>_. validate_sources_from cx envs job is)"

definition validate_sources :: "up_ctx \<Rightarrow> (nat \<Rightarrow> fingerprint_env) \<Rightarrow> upload_job \<Rightarrow> (unit, dl_error) result" where
  "validate_sources cx envs job = validate_sources_from cx envs job [0 ..< length (uj_items job)]"

section \<open>Preparing ciphertext\<close>

definition chunk_input :: "up_ctx \<Rightarrow> upload_job \<Rightarrow> rstr \<Rightarrow> nat \<times> u64 \<Rightarrow> (prepared_input, dl_error) result" where
  "chunk_input cx job transfer ik =
     (let item = uj_items job ! fst ik in
      and_then (ok_or (DlMsg ''invalid base64url data'') (ux_decode cx (ui_nonce_prefix item))) (\<lambda>prefix.
      and_then (map_err DlMsg (derive_item_key (ux_crypto cx) (uj_master_key job) transfer (ui_id item))) (\<lambda>key.
      Ok \<lparr>pi_source = ui_source item, pi_item = fst ik, pi_item_id = ui_id item, pi_position = snd ik,
          pi_chunk_bytes = uj_chunk_bytes job, pi_prefix = prefix, pi_key = key, pi_transfer = transfer\<rparr>)))"

definition chunk_name :: "nat \<Rightarrow> u64 \<Rightarrow> rstr" where
  "chunk_name item position = lit ''chunk-'' @ decimal item @ lit ''-'' @ decimal (unat position)"

definition up_dir :: "up_ctx \<Rightarrow> path" where "up_dir cx = st_directory (ux_store cx)"

definition prepared_record :: "up_ctx \<Rightarrow> upload_job \<Rightarrow> prepared_ciphertext \<Rightarrow> chunk_record" where
  "prepared_record cx job pc =
     \<lparr>ch_item = pc_item pc, ch_item_id = ui_id (uj_items job ! pc_item pc), ch_position = pc_position pc,
      ch_plaintext_bytes = pc_plaintext_bytes pc, ch_ciphertext_bytes = of_nat (length (pc_ciphertext pc)),
      ch_checksum = ux_sha cx (pc_ciphertext pc), ch_artifact = up_dir cx @ [chunk_name (pc_item pc) (pc_position pc)],
      ch_complete = False, ch_stage = None\<rparr>"

text \<open>A ciphertext that an interrupted run left behind is adopted only if it is the same; the parent record is
  saved after it.\<close>

definition persist_prepared :: "up_ctx \<Rightarrow> prepared_ciphertext \<Rightarrow> unit dr_op" where
  "persist_prepared cx pc =
     (let name = chunk_name (pc_item pc) (pc_position pc); p = up_dir cx @ [name] in
      bind_st (dr_ft (on_fs (path_exists p))) (\<lambda>found.
      if found then
        bind_st (dr_ft (fs_io (read_file p))) (\<lambda>existing.
        lift_st (if existing \<noteq> pc_ciphertext pc then Err (DlMsg ''orphaned ciphertext conflicts with the verified source'') else Ok ()))
      else bind_st (dr_ck (persist_immutable (ux_store cx) name (pc_ciphertext pc))) (\<lambda>_. lift_st (Ok ()))))"

definition adopt_prepared :: "up_ctx \<Rightarrow> prepared_ciphertext \<Rightarrow> upload_job \<Rightarrow> upload_job dr_op" where
  "adopt_prepared cx pc job =
     bind_st (persist_prepared cx pc) (\<lambda>_.
     let job = job\<lparr>uj_chunks := uj_chunks job @ [prepared_record cx job pc]\<rparr> in
     bind_st (save_upload cx job) (\<lambda>_. lift_st (Ok job)))"

record prep_env =
  pe_cancelled :: bool
  pe_read :: source_world
  pe_metadata :: source_world

definition dr_phase :: "bool \<Rightarrow> phase \<Rightarrow> unit dr_op" where
  "dr_phase cancelled p s =
     (if cancelled then (Err (DlControl Cancelled), s)
      else case control_phase p (os_control s) of
             Inl e \<Rightarrow> (Err (DlControl e), s) | Inr c \<Rightarrow> (Ok (), s\<lparr>os_control := c\<rparr>))"

definition prepare_step :: "up_ctx \<Rightarrow> prep_env \<Rightarrow> nat \<times> u64 \<Rightarrow> upload_job \<Rightarrow> upload_job dr_op" where
  "prepare_step cx env ik job =
     bind_st (dr_phase (pe_cancelled env) Encrypting) (\<lambda>_.
     bind_st (lift_st (ok_or (DlMsg ''upload was not reserved'') (uj_transfer_id job))) (\<lambda>transfer.
     bind_st (lift_st (chunk_input cx job transfer ik)) (\<lambda>input.
     bind_st (lift_st (prepare_one (ux_crypto cx) (ux_sha cx) (pe_read env) (pe_metadata env) input)) (\<lambda>pc.
     bind_st (adopt_prepared cx pc job) (\<lambda>job.
     bind_st (dr_control (control_advance (uj_done job) 0 0)) (\<lambda>_. lift_st (Ok job)))))))"

text \<open>\<open>prepare_live_ciphertext\<close>, one environment for each chunk; \<open>None\<close> while it still runs.\<close>

definition prepared_all :: "up_ctx \<Rightarrow> upload_job \<Rightarrow> upload_job dr_op" where
  "prepared_all cx job =
     bind_st (dr_ft (on_fs (preparation_complete (ux_sha cx) job))) (\<lambda>ready.
     lift_st (if ready then Ok job else Err (DlMsg ''live ciphertext preparation stopped before all chunks were durable'')))"

fun prepare_live_ciphertext ::
  "up_ctx \<Rightarrow> prep_env list \<Rightarrow> upload_job \<Rightarrow> open_state \<Rightarrow> ((upload_job, dl_error) result \<times> open_state) option" where
  "prepare_live_ciphertext cx envs job s =
     (case next_missing_chunk job of
        Inl e \<Rightarrow> Some (Err e, s)
      | Inr None \<Rightarrow> Some (prepared_all cx job s)
      | Inr (Some ik) \<Rightarrow>
          (case envs of
             [] \<Rightarrow> None
           | env # rest \<Rightarrow>
               (case prepare_step cx env ik job s of
                  (Inl e, s') \<Rightarrow> Some (Err e, s')
                | (Inr job', s') \<Rightarrow> prepare_live_ciphertext cx rest job' s')))"

declare prepare_live_ciphertext.simps [simp del]

section \<open>Execution by the host\<close>

definition upload_eligible :: "upload_job \<Rightarrow> bool" where
  "upload_eligible job \<longleftrightarrow> uj_state job = lit ''awaiting-execution'' \<and> uj_driver job = lit ''http''"

definition load_eligible :: "up_ctx \<Rightarrow> upload_job dr_op" where
  "load_eligible cx =
     bind_st (load_upload cx) (\<lambda>job.
     bind_st (lift_st (validate_job (ux_decode cx) job)) (\<lambda>_.
     lift_st (if upload_eligible job then Ok job
              else Err (DlMsg ''saved upload is not eligible for external HTTP execution''))))"

definition chunk_operation :: "upload_job \<Rightarrow> chunk_record \<Rightarrow> rstr" where
  "chunk_operation job c = uj_id job @ lit '':'' @ ch_item_id c @ lit '':'' @ decimal (unat (ch_position c))"

text \<open>\<open>display\<close> shows a path as text.\<close>

definition upload_work_item :: "(path \<Rightarrow> rstr) \<Rightarrow> upload_job \<Rightarrow> rstr \<Rightarrow> rstr \<Rightarrow> chunk_record \<Rightarrow> work_descriptor" where
  "upload_work_item display job transfer token c =
     \<lparr>bw_operation_id = chunk_operation job c, bw_transfer_id = uj_id job, bw_method = lit ''PUT'',
      bw_url = uj_instance job @ lit ''/api/v1/transfers/'' @ transfer @ lit ''/items/'' @ ch_item_id c @ lit ''/chunks/''
                 @ decimal (unat (ch_position c)),
      bw_headers = [\<lparr>bh_name = lit ''X-Filebeam-Upload-Token'', bh_value = token\<rparr>],
      bw_body_path = display (ch_artifact c), bw_expected_response_bytes = 2 * 1024 * 1024\<rparr>"

definition artifact_present :: "chunk_record \<Rightarrow> bool dr_op" where
  "artifact_present c s =
     (case symlink_metadata (ch_artifact c) (os_fs s) of
        (Inr n, f) \<Rightarrow> (Ok (is_file n), s\<lparr>os_fs := f\<rparr>) | (Inl _, f) \<Rightarrow> (Ok False, s\<lparr>os_fs := f\<rparr>))"

fun upload_work_items ::
  "(path \<Rightarrow> rstr) \<Rightarrow> upload_job \<Rightarrow> rstr \<Rightarrow> rstr \<Rightarrow> chunk_record list \<Rightarrow> work_descriptor list dr_op" where
  "upload_work_items display job transfer token [] = lift_st (Ok [])"
| "upload_work_items display job transfer token (c # cs) =
     bind_st (artifact_present c) (\<lambda>present.
     if \<not> present then lift_st (Err (DlMsg ''immutable upload artifact is unavailable''))
     else bind_st (upload_work_items display job transfer token cs) (\<lambda>work.
          lift_st (Ok (upload_work_item display job transfer token c # work))))"

definition upload_background_work :: "up_ctx \<Rightarrow> (path \<Rightarrow> rstr) \<Rightarrow> work_descriptor list dr_op" where
  "upload_background_work cx display =
     bind_st (load_eligible cx) (\<lambda>job.
     bind_st (lift_st (ok_or (DlMsg ''upload was not reserved'') (uj_transfer_id job))) (\<lambda>transfer.
     bind_st (lift_st (ok_or (DlMsg ''upload token is unavailable'') (uj_upload_token job))) (\<lambda>token.
     upload_work_items display job transfer token (filter (\<lambda>c. \<not> ch_complete c) (uj_chunks job)))))"

definition completed_bytes :: "chunk_record list \<Rightarrow> u64" where
  "completed_bytes cs = sum_list (map ch_plaintext_bytes (filter ch_complete cs))"

definition complete_at :: "nat \<Rightarrow> upload_job \<Rightarrow> upload_job" where
  "complete_at i job =
     (let cs = (uj_chunks job)[i := (uj_chunks job ! i)\<lparr>ch_complete := True\<rparr>] in
      job\<lparr>uj_chunks := cs, uj_done := completed_bytes cs\<rparr>)"

definition position_of :: "('a \<Rightarrow> bool) \<Rightarrow> 'a list \<Rightarrow> nat option" where
  "position_of P xs = find (\<lambda>i. P (xs ! i)) [0 ..< length xs]"

definition ingest_upload_completion :: "up_ctx \<Rightarrow> rstr \<Rightarrow> u16 \<Rightarrow> unit dr_op" where
  "ingest_upload_completion cx operation status =
     bind_st (load_eligible cx) (\<lambda>job.
     bind_st (lift_st (ok_or (DlMsg ''background completion does not match a pending upload operation'')
                (position_of (\<lambda>c. chunk_operation job c = operation) (uj_chunks job)))) (\<lambda>i.
     let c = uj_chunks job ! i in
     if ch_complete c then lift_st (Ok ())
     else if status \<noteq> 201 then lift_st (Err (DlMsg ''background upload did not receive HTTP 201''))
     else
       bind_st (dr_ft (fs_io (symlink_metadata (ch_artifact c)))) (\<lambda>n.
       if \<not> is_file n then lift_st (Err (DlMsg ''immutable upload artifact is not a regular file''))
       else
         bind_st (dr_ft (fs_io (read_file (ch_artifact c)))) (\<lambda>content.
         if \<not> intact (ux_sha cx) c content then lift_st (Err (DlMsg ''immutable upload artifact was modified''))
         else
           bind_st (save_upload cx (complete_at i job)) (\<lambda>_.
           dr_ft (on_fs (ignore (remove_file (ch_artifact c)))))))))"

section \<open>Valid checkpoints\<close>

definition item_ok :: "(rstr \<Rightarrow> u8 list option) \<Rightarrow> u64 \<Rightarrow> nat \<Rightarrow> upload_item \<Rightarrow> bool" where
  "item_ok decode chunk_bytes position item \<longleftrightarrow>
     ui_id item \<noteq> [] \<and> ui_position item = of_nat position \<and> decodes_to_16 decode (ui_nonce_prefix item)
     \<and> valid_digest (ui_digest item) \<and> valid_digest (src_digest (ui_source item))
     \<and> upload_chunk_count (src_bytes (ui_source item)) chunk_bytes = Inr (of_nat (length (src_chunk_digests (ui_source item))))
     \<and> list_all valid_digest (src_chunk_digests (ui_source item))"

definition chunk_ok :: "u64 \<Rightarrow> upload_item list \<Rightarrow> chunk_record \<Rightarrow> bool" where
  "chunk_ok chunk_bytes items c \<longleftrightarrow>
     ch_item c < length items \<and> ch_item_id c = ui_id (items ! ch_item c)
     \<and> (\<exists>n. upload_chunk_count (src_bytes (ui_source (items ! ch_item c))) chunk_bytes = Inr n \<and> ch_position c < n)
     \<and> ch_plaintext_bytes c = plaintext_len (src_bytes (ui_source (items ! ch_item c))) chunk_bytes (ch_position c)
     \<and> unat (ch_ciphertext_bytes c) = unat (ch_plaintext_bytes c) + 16 \<and> str_len (ch_checksum c) = 64"

lemma check_saved_items_step:
  "check_saved_items decode cb p ids (item # items) = Inr u \<longleftrightarrow>
     item_ok decode cb p item \<and> ui_id item \<notin> ids \<and> check_saved_items decode cb (Suc p) (insert (ui_id item) ids) items = Inr u"
  by (auto simp: item_ok_def split: if_splits)

lemma check_saved_items_Ok:
  "check_saved_items decode cb p ids items = Inr u \<longleftrightarrow>
     (\<forall>i < length items. item_ok decode cb (p + i) (items ! i)) \<and> distinct (map ui_id items)
     \<and> set (map ui_id items) \<inter> ids = {}"
proof (induction items arbitrary: p ids)
  case Nil
  then show ?case by simp
next
  case (Cons item items)
  have all: "(\<forall>i < length (item # items). item_ok decode cb (p + i) ((item # items) ! i)) \<longleftrightarrow>
      item_ok decode cb p item \<and> (\<forall>i < length items. item_ok decode cb (Suc p + i) (items ! i))"
    unfolding length_Cons All_less_Suc2 by simp
  show ?case unfolding all check_saved_items_step Cons.IH by auto
qed

lemma check_saved_chunks_step:
  "check_saved_chunks cb items ps (c # cs) = Inr u \<longleftrightarrow>
     chunk_ok cb items c \<and> chunk_key c \<notin> ps \<and> check_saved_chunks cb items (insert (chunk_key c) ps) cs = Inr u"
proof -
  have sealed: "unat (ch_ciphertext_bytes c) = unat (ch_plaintext_bytes c) + 16 \<longleftrightarrow>
      checked_add (ch_plaintext_bytes c) AEAD_TAG_BYTES = Some (ch_ciphertext_bytes c)"
    by (simp add: checked_add_Some AEAD_TAG_BYTES_def)
  show ?thesis unfolding chunk_ok_def sealed
    by (cases "upload_chunk_count (src_bytes (ui_source (items ! ch_item c))) cb") (auto simp: Let_def not_le split: if_splits)
qed

lemma check_saved_chunks_Ok:
  "check_saved_chunks cb items ps cs = Inr u \<longleftrightarrow>
     list_all (chunk_ok cb items) cs \<and> distinct (map chunk_key cs) \<and> set (map chunk_key cs) \<inter> ps = {}"
proof (induction cs arbitrary: ps)
  case (Cons c cs)
  show ?case unfolding check_saved_chunks_step Cons.IH by auto
qed simp

definition job_valid :: "(rstr \<Rightarrow> u8 list option) \<Rightarrow> upload_job \<Rightarrow> bool" where
  "job_valid decode job \<longleftrightarrow>
     \<not> header_invalid job \<and> \<not> secrets_missing decode job
     \<and> (\<forall>i < length (uj_items job). item_ok decode (uj_chunk_bytes job) i (uj_items job ! i))
     \<and> distinct (map ui_id (uj_items job))
     \<and> list_all (chunk_ok (uj_chunk_bytes job) (uj_items job)) (uj_chunks job)
     \<and> distinct (map chunk_key (uj_chunks job))"

lemma validate_job_Ok: "validate_job decode job = Inr u \<longleftrightarrow> job_valid decode job"
  by (auto simp: validate_job_def job_valid_def check_saved_items_Ok check_saved_chunks_Ok)

section \<open>The next missing chunk\<close>

lemma has_chunk_iff: "has_chunk job i k \<longleftrightarrow> (i, of_nat k) \<in> set (map chunk_key (uj_chunks job))"
  by (force simp: has_chunk_def chunk_key_def list_ex_iff)

lemma missing_from_None:
  "missing_from job is = Inr None \<longleftrightarrow>
     (\<forall>i \<in> set is. \<exists>n. source_chunks job i = Inr n \<and> (\<forall>k < unat n. has_chunk job i k))"
proof (induction "is")
  case (Cons i "is")
  show ?case
  proof (cases "source_chunks job i")
    case (Inr n)
    show ?thesis
    proof (cases "find (\<lambda>k. \<not> has_chunk job i k) [0 ..< unat n]")
      case None
      then have "\<forall>k < unat n. has_chunk job i k" by (simp add: find_None_iff)
      then show ?thesis using Cons Inr None by simp
    next
      case (Some m)
      then have "m < unat n" "\<not> has_chunk job i m" by (auto simp: find_Some_iff)
      then show ?thesis using Inr Some by auto
    qed
  qed simp
qed simp

lemma missing_from_Some:
  "missing_from job is = Inr (Some (i, k)) \<Longrightarrow>
     i \<in> set is \<and> (\<exists>n. source_chunks job i = Inr n \<and> k < n) \<and> (i, k) \<notin> set (map chunk_key (uj_chunks job))"
proof (induction "is")
  case (Cons j "is")
  then obtain n where n: "source_chunks job j = Inr n" by (auto simp: and_then_eq_Inr)
  show ?case
  proof (cases "find (\<lambda>k. \<not> has_chunk job j k) [0 ..< unat n]")
    case None
    then show ?thesis using Cons n by simp
  next
    case (Some m)
    then have m: "m < unat n" "\<not> has_chunk job j m" by (auto simp: find_Some_iff)
    moreover have "i = j" "k = of_nat m" using Cons n Some by auto
    moreover have "unat (of_nat m :: u64) = m" using m(1) unat_less_2p [of n] by (intro unat_of_nat_less) simp
    ultimately show ?thesis using n by (auto simp: has_chunk_iff word_less_nat_alt)
  qed
qed simp

lemma next_missing_Some:
  "next_missing_chunk job = Inr (Some (i, k)) \<Longrightarrow>
     i < length (uj_items job) \<and> (\<exists>n. source_chunks job i = Inr n \<and> k < n) \<and> (i, k) \<notin> set (map chunk_key (uj_chunks job))"
  using missing_from_Some [of job "[0 ..< length (uj_items job)]"] by (simp add: next_missing_chunk_def)

lemma next_missing_Ok: "job_valid decode job \<Longrightarrow> \<exists>ik. next_missing_chunk job = Inr ik"
proof -
  assume "job_valid decode job"
  then have counted: "\<exists>n. source_chunks job i = Inr n" if "i < length (uj_items job)" for i
    using that by (auto simp: job_valid_def item_ok_def source_chunks_def)
  have "\<exists>ik. missing_from job is = Inr ik" if "set is \<subseteq> {..< length (uj_items job)}" for "is"
    using that
  proof (induction "is")
    case (Cons i "is")
    then obtain n ik where "source_chunks job i = Inr n" "missing_from job is = Inr ik" using counted [of i] by auto
    then show ?case by (cases "find (\<lambda>k. \<not> has_chunk job i k) [0 ..< unat n]") simp_all
  qed simp
  then show ?thesis unfolding next_missing_chunk_def by (simp add: lessThan_atLeast0)
qed

text \<open>The chunks of a job: all pairs of an item and a position.\<close>

definition chunk_slots :: "upload_job \<Rightarrow> (nat \<times> u64) set" where
  "chunk_slots job = {(i, k). i < length (uj_items job) \<and> (\<exists>n. source_chunks job i = Inr n \<and> k < n)}"

lemma finite_slots: "finite (chunk_slots job)"
proof -
  have "chunk_slots job \<subseteq> {..< length (uj_items job)} \<times> (UNIV :: u64 set)" by (auto simp: chunk_slots_def)
  then show ?thesis by (rule finite_subset) simp
qed

lemma keys_are_slots: "job_valid decode job \<Longrightarrow> set (map chunk_key (uj_chunks job)) \<subseteq> chunk_slots job"
  by (auto simp: job_valid_def list_all_iff chunk_ok_def chunk_slots_def chunk_key_def source_chunks_def)

definition missing_count :: "upload_job \<Rightarrow> nat" where
  "missing_count job = card (chunk_slots job - set (map chunk_key (uj_chunks job)))"

lemma next_missing_None:
  assumes "job_valid decode job" "next_missing_chunk job = Inr None"
  shows "set (map chunk_key (uj_chunks job)) = chunk_slots job"
proof
  show "chunk_slots job \<subseteq> set (map chunk_key (uj_chunks job))"
  proof
    fix ik assume "ik \<in> chunk_slots job"
    then obtain i k n where ik: "ik = (i, k)" "i < length (uj_items job)" "source_chunks job i = Inr n" "k < n"
      by (auto simp: chunk_slots_def)
    then have "has_chunk job i (unat k)"
    proof -
      obtain m where "source_chunks job i = Inr m" "\<forall>k < unat m. has_chunk job i k"
        using assms(2) ik(2) unfolding next_missing_chunk_def missing_from_None by force
      then show ?thesis using ik by (simp add: word_less_nat_alt)
    qed
    then show "ik \<in> set (map chunk_key (uj_chunks job))" using ik by (simp add: has_chunk_iff)
  qed
qed (rule keys_are_slots [OF assms(1)])

lemma missing_count_0:
  assumes "job_valid decode job"
  shows "missing_count job = 0 \<longleftrightarrow> next_missing_chunk job = Inr None"
proof
  assume "next_missing_chunk job = Inr None"
  then show "missing_count job = 0" using next_missing_None [OF assms] by (simp add: missing_count_def)
next
  assume "missing_count job = 0"
  then have all: "chunk_slots job \<subseteq> set (map chunk_key (uj_chunks job))"
    using finite_slots [of job] by (simp add: missing_count_def card_eq_0_iff)
  obtain ik where ik: "next_missing_chunk job = Inr ik" using next_missing_Ok [OF assms] by blast
  show "next_missing_chunk job = Inr None"
  proof (cases ik)
    case (Some p)
    obtain i k where p: "p = (i, k)" by force
    have "(i, k) \<in> chunk_slots job \<and> (i, k) \<notin> set (map chunk_key (uj_chunks job))"
      using next_missing_Some [of job i k] ik Some p by (simp add: chunk_slots_def)
    with all show ?thesis by blast
  qed (use ik in simp)
qed

section \<open>Preparing a chunk keeps the checkpoint valid\<close>

definition sha_hex :: "(u8 list \<Rightarrow> rstr) \<Rightarrow> bool" where
  "sha_hex sha \<longleftrightarrow> (\<forall>b. valid_digest (sha b))"

lemma plaintext_len_le: "plaintext_len n c k \<le> c"
  by (simp add: plaintext_len_def)

lemma chunk_input_Ok:
  "chunk_input cx job t (i, k) = Inr input \<Longrightarrow>
     pi_source input = ui_source (uj_items job ! i) \<and> pi_item input = i \<and> pi_item_id input = ui_id (uj_items job ! i)
     \<and> pi_position input = k \<and> pi_chunk_bytes input = uj_chunk_bytes job \<and> pi_transfer input = t
     \<and> ux_decode cx (ui_nonce_prefix (uj_items job ! i)) = Some (pi_prefix input)
     \<and> derive_item_key (ux_crypto cx) (uj_master_key job) t (ui_id (uj_items job ! i)) = Inr (pi_key input)"
  by (auto simp: chunk_input_def Let_def)

text \<open>The ciphertext of a chunk: some data with the digest that was taken before the reservation, under the
  nonce of its position.\<close>

definition sealed_chunk :: "up_ctx \<Rightarrow> upload_job \<Rightarrow> chunk_record \<Rightarrow> u8 list \<Rightarrow> bool" where
  "sealed_chunk cx job c ct \<longleftrightarrow>
     (let item = uj_items job ! ch_item c in
      \<exists>t prefix key content.
        uj_transfer_id job = Some t \<and> ux_decode cx (ui_nonce_prefix item) = Some prefix
        \<and> derive_item_key (ux_crypto cx) (uj_master_key job) t (ui_id item) = Inr key
        \<and> length content = unat (ch_plaintext_bytes c)
        \<and> ux_sha cx content = src_chunk_digests (ui_source item) ! unat (ch_position c)
        \<and> encrypt_chunk (ux_crypto cx) key prefix (ucast (ch_position c)) content
             (bytes (upload_aad t (ui_id item) (ch_position c))) = Inr ct)"

lemma encrypt_chunk_length: "aead_correct cr \<Longrightarrow> encrypt_chunk cr k p i m ad = Inr ct \<Longrightarrow> length ct = length m + 16"
  unfolding encrypt_chunk_def using decrypt_encrypted_at_index by blast

lemma prepared_record_ok:
  assumes aead: "aead_correct (ux_crypto cx)" and sha: "sha_hex (ux_sha cx)"
    and "i < length (uj_items job)" and n: "source_chunks job i = Inr n" "k < n"
    and t: "uj_transfer_id job = Some t" and input: "chunk_input cx job t (i, k) = Inr input"
    and pc: "prepare_one (ux_crypto cx) (ux_sha cx) w1 w2 input = Inr pc"
  shows "chunk_ok (uj_chunk_bytes job) (uj_items job) (prepared_record cx job pc)"
    and "chunk_key (prepared_record cx job pc) = (i, k)" and "pc_item pc = i" and "pc_position pc = k"
    and "intact (ux_sha cx) (prepared_record cx job pc) (pc_ciphertext pc)"
    and "sealed_chunk cx job (prepared_record cx job pc) (pc_ciphertext pc)"
proof -
  note inp = chunk_input_Ok [OF input]
  obtain content where pc': "pc_item pc = i" "pc_position pc = k"
      "pc_plaintext_bytes pc = plaintext_len (src_bytes (ui_source (uj_items job ! i))) (uj_chunk_bytes job) k"
      "length content = unat (pc_plaintext_bytes pc)"
      "ux_sha cx content = src_chunk_digests (ui_source (uj_items job ! i)) ! unat k"
      "encrypt_chunk (ux_crypto cx) (pi_key input) (pi_prefix input) (ucast k) content
         (bytes (upload_aad t (ui_id (uj_items job ! i)) k)) = Inr (pc_ciphertext pc)"
    using prepare_one_Ok [OF pc] inp by auto
  have "unat (uj_chunk_bytes job) \<le> 24999984" using n(1) by (simp add: source_chunks_def upload_chunk_count_Ok)
  moreover have "unat (pc_plaintext_bytes pc) \<le> unat (uj_chunk_bytes job)"
    using plaintext_len_le by (simp add: pc' word_le_nat_alt [symmetric])
  ultimately have len: "unat (of_nat (length (pc_ciphertext pc)) :: u64) = unat (pc_plaintext_bytes pc) + 16"
    using encrypt_chunk_length [OF aead pc'(6)] pc'(4) by (simp add: unat_word_ariths)
  show "chunk_ok (uj_chunk_bytes job) (uj_items job) (prepared_record cx job pc)"
    using assms(3) n sha len pc' by (auto simp: chunk_ok_def prepared_record_def source_chunks_def sha_hex_def valid_digest_def)
  show "chunk_key (prepared_record cx job pc) = (i, k)" "pc_item pc = i" "pc_position pc = k"
    by (simp_all add: chunk_key_def prepared_record_def pc')
  show "intact (ux_sha cx) (prepared_record cx job pc) (pc_ciphertext pc)" by (simp add: intact_def prepared_record_def)
  show "sealed_chunk cx job (prepared_record cx job pc) (pc_ciphertext pc)"
    unfolding sealed_chunk_def Let_def using t inp pc' by (auto simp: prepared_record_def)
qed

lemma job_valid_push:
  assumes "job_valid decode job" and "uj_state job \<noteq> lit ''finalizing''"
    and "chunk_ok (uj_chunk_bytes job) (uj_items job) c" and "chunk_key c \<notin> set (map chunk_key (uj_chunks job))"
  shows "job_valid decode (job\<lparr>uj_chunks := uj_chunks job @ [c]\<rparr>)"
  using assms by (auto simp: job_valid_def header_invalid_def secrets_missing_def)

section \<open>Prepared ciphertext on disk\<close>

lemma decimal_inj: "decimal m = decimal n \<longleftrightarrow> m = n"
  using decimal_digits [of m] decimal_digits [of n] by metis

lemma takeWhile_digits: "takeWhile ascii_digit (decimal n @ c # r) = (if ascii_digit c then takeWhile ascii_digit (decimal n @ c # r) else decimal n)"
  using decimal_digits [of n] by (auto simp: takeWhile_append list_all_iff)

lemma decimal_split: "\<not> ascii_digit c \<Longrightarrow> decimal m @ c # r = decimal n @ c # r' \<longleftrightarrow> m = n \<and> r = r'"
  using takeWhile_digits [of m c r] takeWhile_digits [of n c r'] by (auto simp: decimal_inj)

lemma chunk_name_inj: "chunk_name i k = chunk_name j l \<longleftrightarrow> i = j \<and> k = l"
proof -
  have "\<not> ascii_digit (of_char (CHR ''-''))" by (simp add: ascii_digit_def)
  from decimal_split [OF this] show ?thesis by (simp add: chunk_name_def decimal_inj word_unat_eq_iff)
qed

lemma chunk_name_no_dot: "of_char (CHR ''.'') \<notin> set (chunk_name i k)"
  using decimal_digits [of i] decimal_digits [of "unat k"] by (auto simp: chunk_name_def list_all_iff ascii_digit_def)

lemma chunk_name_plain: "chunk_name i k \<noteq> CHECKPOINT_NAME" "chunk_name i k \<noteq> name @ lit ''.new''"
  "chunk_name i k \<noteq> stage_name c" "chunk_name i k @ lit ''.new'' \<noteq> CHECKPOINT_NAME"
proof -
  have "of_char (CHR ''.'') \<in> set CHECKPOINT_NAME" "of_char (CHR ''.'') \<in> set (name @ lit ''.new'')"
      "of_char (CHR ''.'') \<in> set (stage_name c)"
    by (simp_all add: CHECKPOINT_NAME_def stage_name_def)
  then show "chunk_name i k \<noteq> CHECKPOINT_NAME" "chunk_name i k \<noteq> name @ lit ''.new''" "chunk_name i k \<noteq> stage_name c"
    using chunk_name_no_dot [of i k] by metis+
  show "chunk_name i k @ lit ''.new'' \<noteq> CHECKPOINT_NAME" by (simp add: chunk_name_def CHECKPOINT_NAME_def)
qed

lemma chunk_path_safe:
  "up_dir cx @ [chunk_name i k] \<noteq> st_directory (ux_store cx) @ [CHECKPOINT_NAME]"
  "up_dir cx @ [chunk_name i k] \<noteq> temporary (ux_store cx) name"
  unfolding up_dir_def temporary_def append1_eq_conv using chunk_name_plain(1,2) by blast+

lemma save_upload_nodes:
  assumes "save_upload cx job s = (r, s')"
  shows "nodes (os_fs s') (up_dir cx @ [chunk_name i k]) = nodes (os_fs s) (up_dir cx @ [chunk_name i k])"
proof -
  obtain r' f where save: "save_named (ux_crypto cx) (ux_rng cx) (ux_to_vec cx) (ux_store cx) CHECKPOINT_NAME job (os_fs s) = (r', f)"
    by force
  then have "os_fs s' = f" using assms by (auto simp: save_upload_def dr_ck_def store_save_def)
  then show ?thesis using leavesD [OF save_named_other [OF chunk_path_safe] save] by simp
qed

lemma dr_exists_nodes:
  assumes "dr_ft (on_fs (path_exists p)) s = (r, s')"
  shows "nodes (os_fs s') = nodes (os_fs s)"
proof -
  obtain r' f where m: "symlink_metadata p (os_fs s) = (r', f)" by force
  then have "os_fs s' = f"
    using assms by (auto simp: dr_ft_def on_fs_def path_exists_def split: sum.splits)
  then show ?thesis using leavesD [OF leaves_read_only(1) [OF faultless_nodes(2)] m] by simp
qed

lemma dr_read_Ok:
  assumes "dr_ft (fs_io (read_file p)) s = (Inr c, s')"
  shows "nodes (os_fs s') = nodes (os_fs s)" and "\<exists>m. nodes (os_fs s) p = Some (Regular m c)"
proof -
  obtain f where m: "read_file p (os_fs s) = (Inr c, f)" "os_fs s' = f"
    using dr_ft_Ok [OF assms] by (auto simp: fs_io_Ok)
  then show "nodes (os_fs s') = nodes (os_fs s)"
    using leavesD [OF leaves_read_only(3) [OF faultless_nodes(2)] m(1)] by simp
  from m(1) show "\<exists>m. nodes (os_fs s) p = Some (Regular m c)"
    unfolding read_file_def by (auto dest!: syscall_Ok split: option.splits node.splits)
qed

lemma persist_prepared_cases:
  assumes "persist_prepared cx pc s = (Inr x, s')"
  defines "name \<equiv> chunk_name (pc_item pc) (pc_position pc)"
  obtains s1 :: open_state where "nodes (os_fs s1) = nodes (os_fs s)"
      "dr_ft (fs_io (read_file (up_dir cx @ [name]))) s1 = (Inr (pc_ciphertext pc), s')"
  | s1 :: open_state and y where "nodes (os_fs s1) = nodes (os_fs s)"
      "persist_immutable (ux_store cx) name (pc_ciphertext pc) (os_fs s1) = (Inr y, os_fs s')"
proof -
  obtain found s1 where found: "dr_ft (on_fs (path_exists (up_dir cx @ [name]))) s = (Inr found, s1)"
      and rest: "(if found then bind_st (dr_ft (fs_io (read_file (up_dir cx @ [name])))) (\<lambda>existing.
          lift_st (if existing \<noteq> pc_ciphertext pc then Err (DlMsg ''orphaned ciphertext conflicts with the verified source'') else Ok ()))
        else bind_st (dr_ck (persist_immutable (ux_store cx) name (pc_ciphertext pc))) (\<lambda>_. lift_st (Ok ()))) s1 = (Inr x, s')"
    using assms(1) unfolding persist_prepared_def Let_def bind_st_Inr name_def by blast
  note same = dr_exists_nodes [OF found]
  show ?thesis
  proof (cases found)
    case True
    with rest have "dr_ft (fs_io (read_file (up_dir cx @ [name]))) s1 = (Inr (pc_ciphertext pc), s')"
      by (auto simp: bind_st_Inr split: if_splits)
    with same show ?thesis by (rule that(1))
  next
    case False
    with rest obtain y where "persist_immutable (ux_store cx) name (pc_ciphertext pc) (os_fs s1) = (Inr y, os_fs s')"
      by (auto simp: bind_st_Inr dr_ck_def split: prod.splits)
    with same show ?thesis by (rule that(2))
  qed
qed

lemma persist_prepared_Ok:
  assumes run: "persist_prepared cx pc s = (Inr x, s')"
  shows "\<exists>m. nodes (os_fs s') (up_dir cx @ [chunk_name (pc_item pc) (pc_position pc)]) = Some (Regular m (pc_ciphertext pc))"
    and "(i, k) \<noteq> (pc_item pc, pc_position pc) \<Longrightarrow>
      nodes (os_fs s') (up_dir cx @ [chunk_name i k]) = nodes (os_fs s) (up_dir cx @ [chunk_name i k])"
proof -
  let ?name = "chunk_name (pc_item pc) (pc_position pc)"
  let ?p = "up_dir cx @ [?name]"
  show "\<exists>m. nodes (os_fs s') ?p = Some (Regular m (pc_ciphertext pc))"
  proof (cases rule: persist_prepared_cases [OF run])
    case (1 s1)
    then show ?thesis using dr_read_Ok [OF 1(2)] by simp
  next
    case (2 s1 y)
    then show ?thesis
      using tripleD_Ok [OF persist_triple [OF refl, where old = "nodes (os_fs s1) ?p" and u = "euid (os_fs s1)"] _ 2(2)]
      by (auto simp: up_dir_def)
  qed
  assume "(i, k) \<noteq> (pc_item pc, pc_position pc)"
  then have ne: "up_dir cx @ [chunk_name i k] \<noteq> st_directory (ux_store cx) @ [?name]"
    by (simp add: chunk_name_inj up_dir_def)
  show "nodes (os_fs s') (up_dir cx @ [chunk_name i k]) = nodes (os_fs s) (up_dir cx @ [chunk_name i k])"
  proof (cases rule: persist_prepared_cases [OF run])
    case (1 s1)
    then show ?thesis using dr_read_Ok(1) [OF 1(2)] by simp
  next
    case (2 s1 y)
    then show ?thesis using leavesD [OF persist_other [OF ne chunk_path_safe(2)] 2(2)] by simp
  qed
qed

text \<open>Every chunk that still has to be sent lies on disk under its own name.\<close>

definition stored_chunk :: "up_ctx \<Rightarrow> upload_job \<Rightarrow> fs \<Rightarrow> chunk_record \<Rightarrow> bool" where
  "stored_chunk cx job f c \<longleftrightarrow>
     ch_artifact c = up_dir cx @ [chunk_name (ch_item c) (ch_position c)]
     \<and> (\<not> ch_complete c \<longrightarrow>
          (\<exists>m ct. nodes f (ch_artifact c) = Some (Regular m ct) \<and> intact (ux_sha cx) c ct \<and> sealed_chunk cx job c ct))"

definition stored :: "up_ctx \<Rightarrow> upload_job \<Rightarrow> fs \<Rightarrow> bool" where
  "stored cx job f \<longleftrightarrow> list_all (stored_chunk cx job f) (uj_chunks job)"

lemma sealed_chunk_cong:
  "uj_items job' = uj_items job \<Longrightarrow> uj_transfer_id job' = uj_transfer_id job \<Longrightarrow> uj_master_key job' = uj_master_key job \<Longrightarrow>
   sealed_chunk cx job' c ct = sealed_chunk cx job c ct"
  by (simp add: sealed_chunk_def)

lemma stored_chunk_cong:
  "stored_chunk cx job f c \<Longrightarrow> nodes f' (ch_artifact c) = nodes f (ch_artifact c) \<Longrightarrow>
   uj_items job' = uj_items job \<Longrightarrow> uj_transfer_id job' = uj_transfer_id job \<Longrightarrow> uj_master_key job' = uj_master_key job \<Longrightarrow>
   stored_chunk cx job' f' c"
  using sealed_chunk_cong [of job' job cx c] by (auto simp: stored_chunk_def)

lemma adopt_prepared_Ok:
  assumes run: "adopt_prepared cx pc job s = (Inr job', s')" and st: "stored cx job (os_fs s)"
    and new: "(pc_item pc, pc_position pc) \<notin> set (map chunk_key (uj_chunks job))"
    and ct: "intact (ux_sha cx) (prepared_record cx job pc) (pc_ciphertext pc)"
      "sealed_chunk cx job (prepared_record cx job pc) (pc_ciphertext pc)"
  shows "job' = job\<lparr>uj_chunks := uj_chunks job @ [prepared_record cx job pc]\<rparr>" and "stored cx job' (os_fs s')"
proof -
  let ?c = "prepared_record cx job pc"
  obtain s1 s2 where runs: "persist_prepared cx pc s = (Inr (), s1)" "save_upload cx job' s1 = (Inr (), s2)" "os_fs s' = os_fs s2"
      and job': "job' = job\<lparr>uj_chunks := uj_chunks job @ [?c]\<rparr>"
    using run by (auto simp: adopt_prepared_def Let_def bind_st_Inr)
  note kept = save_upload_nodes [OF runs(2)]
  show "job' = job\<lparr>uj_chunks := uj_chunks job @ [?c]\<rparr>" by (rule job')
  have "stored_chunk cx job' (os_fs s') c" if "c \<in> set (uj_chunks job)" for c
  proof -
    have c: "stored_chunk cx job (os_fs s) c" using st that by (simp add: stored_def list_all_iff)
    have "(ch_item c, ch_position c) \<noteq> (pc_item pc, pc_position pc)" using new that by (force simp: chunk_key_def)
    from persist_prepared_Ok(2) [OF runs(1) this] kept [of "ch_item c" "ch_position c"] c
    have "nodes (os_fs s') (ch_artifact c) = nodes (os_fs s) (ch_artifact c)" by (simp add: runs(3) stored_chunk_def)
    with c show ?thesis by (rule stored_chunk_cong) (simp_all add: job')
  qed
  moreover have "stored_chunk cx job' (os_fs s') ?c"
  proof -
    obtain m where "nodes (os_fs s1) (ch_artifact ?c) = Some (Regular m (pc_ciphertext pc))"
      using persist_prepared_Ok(1) [OF runs(1)] by (auto simp: prepared_record_def)
    then have "nodes (os_fs s') (ch_artifact ?c) = Some (Regular m (pc_ciphertext pc))"
      using kept by (simp add: runs(3) prepared_record_def)
    then show ?thesis using ct sealed_chunk_cong [of job' job cx ?c] by (auto simp: stored_chunk_def job' prepared_record_def)
  qed
  ultimately show "stored cx job' (os_fs s')" by (auto simp: stored_def job' list_all_iff)
qed

section \<open>The preparation loop\<close>

lemma dr_control_fs: "dr_control f s = (r, s') \<Longrightarrow> os_fs s' = os_fs s"
  by (auto simp: dr_control_def)

lemma dr_phase_fs: "dr_phase b p s = (r, s') \<Longrightarrow> os_fs s' = os_fs s"
  by (auto simp: dr_phase_def split: if_splits sum.splits)

lemma prepare_step_cases:
  assumes "prepare_step cx env ik job s = (Inr job', s')"
  obtains s1 s2 t input pc where "os_fs s1 = os_fs s" "uj_transfer_id job = Some t" "chunk_input cx job t ik = Inr input"
    "prepare_one (ux_crypto cx) (ux_sha cx) (pe_read env) (pe_metadata env) input = Inr pc"
    "adopt_prepared cx pc job s1 = (Inr job', s2)" "os_fs s' = os_fs s2"
  using assms unfolding prepare_step_def bind_st_Inr
  by (auto dest!: dr_phase_fs dr_control_fs)

lemma missing_count_push:
  assumes "(i, k) \<in> chunk_slots job" "(i, k) \<notin> set (map chunk_key (uj_chunks job))" "chunk_key c = (i, k)"
  shows "missing_count job = Suc (missing_count (job\<lparr>uj_chunks := uj_chunks job @ [c]\<rparr>))"
proof -
  let ?A = "chunk_slots job - set (map chunk_key (uj_chunks job))"
  have slots: "chunk_slots (job\<lparr>uj_chunks := uj_chunks job @ [c]\<rparr>) = chunk_slots job"
    by (simp add: chunk_slots_def source_chunks_def)
  have "missing_count (job\<lparr>uj_chunks := uj_chunks job @ [c]\<rparr>) = card (?A - {(i, k)})"
    unfolding missing_count_def slots by (rule arg_cong [where f = card]) (auto simp: assms(3))
  moreover have "(i, k) \<in> ?A" "finite ?A" using assms(1,2) finite_slots [of job] by auto
  ultimately show ?thesis by (metis missing_count_def card_Suc_Diff1)
qed

text \<open>What the loop keeps.\<close>

definition prepared_so_far :: "up_ctx \<Rightarrow> upload_job \<Rightarrow> fs \<Rightarrow> bool" where
  "prepared_so_far cx job f \<longleftrightarrow> job_valid (ux_decode cx) job \<and> uj_state job \<noteq> lit ''finalizing'' \<and> stored cx job f"

definition libraries_ok :: "up_ctx \<Rightarrow> bool" where
  "libraries_ok cx \<longleftrightarrow> aead_correct (ux_crypto cx) \<and> sha_hex (ux_sha cx)"

lemma prepare_step_Ok:
  assumes lib: "libraries_ok cx" and inv: "prepared_so_far cx job (os_fs s)"
    and missing: "next_missing_chunk job = Inr (Some (i, k))"
    and run: "prepare_step cx env (i, k) job s = (Inr job', s')"
  shows "prepared_so_far cx job' (os_fs s')" and "missing_count job = Suc (missing_count job')"
    and "\<exists>c. job' = job\<lparr>uj_chunks := uj_chunks job @ [c]\<rparr> \<and> chunk_key c = (i, k) \<and> \<not> ch_complete c"
proof -
  obtain n where slot: "i < length (uj_items job)" "source_chunks job i = Inr n" "k < n"
      "(i, k) \<notin> set (map chunk_key (uj_chunks job))"
    using next_missing_Some [OF missing] by blast
  obtain s1 s2 t input pc where step: "os_fs s1 = os_fs s" "uj_transfer_id job = Some t" "chunk_input cx job t (i, k) = Inr input"
      "prepare_one (ux_crypto cx) (ux_sha cx) (pe_read env) (pe_metadata env) input = Inr pc"
      "adopt_prepared cx pc job s1 = (Inr job', s2)" "os_fs s' = os_fs s2"
    by (rule prepare_step_cases [OF run])
  have l: "aead_correct (ux_crypto cx)" "sha_hex (ux_sha cx)" using lib by (simp_all add: libraries_ok_def)
  note rec = prepared_record_ok [OF l slot(1-3) step(2-4)]
  have st: "stored cx job (os_fs s1)" using inv step(1) by (simp add: prepared_so_far_def)
  have new: "(pc_item pc, pc_position pc) \<notin> set (map chunk_key (uj_chunks job))" using slot(4) rec(3,4) by simp
  note adopted = adopt_prepared_Ok [OF step(5) st new rec(5,6)]
  have key: "chunk_key (prepared_record cx job pc) \<notin> set (map chunk_key (uj_chunks job))" using slot(4) rec(2) by simp
  have "job_valid (ux_decode cx) job" "uj_state job \<noteq> lit ''finalizing''" using inv unfolding prepared_so_far_def by blast+
  note valid = job_valid_push [OF this rec(1) key]
  have "uj_state job' = uj_state job" unfolding adopted(1) by simp
  then show "prepared_so_far cx job' (os_fs s')"
    using valid adopted(2) \<open>uj_state job \<noteq> lit ''finalizing''\<close> unfolding prepared_so_far_def adopted(1) step(6) by simp
  have "(i, k) \<in> chunk_slots job" using slot by (simp add: chunk_slots_def)
  from missing_count_push [OF this slot(4) rec(2)] show "missing_count job = Suc (missing_count job')" unfolding adopted(1) .
  have "\<not> ch_complete (prepared_record cx job pc)" by (simp add: prepared_record_def)
  with adopted(1) rec(2) show "\<exists>c. job' = job\<lparr>uj_chunks := uj_chunks job @ [c]\<rparr> \<and> chunk_key c = (i, k) \<and> \<not> ch_complete c" by blast
qed

text \<open>Nothing but the chunks has changed.\<close>

definition same_but_chunks :: "upload_job \<Rightarrow> upload_job \<Rightarrow> bool" where
  "same_but_chunks job job' \<longleftrightarrow> (\<exists>cs. job' = job\<lparr>uj_chunks := uj_chunks job @ cs\<rparr>)"

lemma same_but_chunks_refl [simp]: "same_but_chunks job job"
  unfolding same_but_chunks_def by (rule exI [of _ "[]"]) simp

lemma same_but_chunks_push: "same_but_chunks job (job\<lparr>uj_chunks := uj_chunks job @ [c]\<rparr>)"
  unfolding same_but_chunks_def by blast

lemma same_but_chunks_trans:
  assumes "same_but_chunks a b" "same_but_chunks b c"
  shows "same_but_chunks a c"
proof -
  obtain cs ds where "b = a\<lparr>uj_chunks := uj_chunks a @ cs\<rparr>" "c = b\<lparr>uj_chunks := uj_chunks b @ ds\<rparr>"
    using assms unfolding same_but_chunks_def by blast
  then have "c = a\<lparr>uj_chunks := uj_chunks a @ (cs @ ds)\<rparr>" by simp
  then show ?thesis unfolding same_but_chunks_def by blast
qed

lemma artifacts_intact_state: "artifacts_intact sha cs f = (r, f') \<Longrightarrow> nodes f' = nodes f"
proof (induction cs arbitrary: f)
  case (Cons c cs)
  obtain r1 f1 where read: "read_file (ch_artifact c) f = (r1, f1)" by force
  have "nodes f1 = nodes f" by (rule leavesD [OF leaves_read_only(3) [OF faultless_nodes(2)] read])
  then show ?case using Cons by (auto simp: read split: if_splits sum.splits)
qed simp

lemma preparation_complete_nodes:
  assumes "preparation_complete sha job f = (r, f')"
  shows "nodes f' = nodes f"
proof (cases "total_chunks (uj_chunk_bytes job) (uj_items job)")
  case (Inl e)
  then show ?thesis using assms by (auto simp: preparation_complete_def bind_st_def lift_st_def split: if_splits)
next
  case (Inr n)
  then show ?thesis using assms artifacts_intact_state [of sha "uj_chunks job" f r f']
    by (auto simp: preparation_complete_def split: if_splits)
qed

lemma prepared_all_Ok:
  assumes "prepared_all cx job s = (Inr job', s')"
  shows "job' = job" and "nodes (os_fs s') = nodes (os_fs s)"
proof -
  obtain ready where r: "dr_ft (on_fs (preparation_complete (ux_sha cx) job)) s = (Inr ready, s')" "job' = job"
    using assms unfolding prepared_all_def bind_st_Inr lift_st_eq by (metis Inr_inject Inl_Inr_False)
  show "job' = job" by (rule r(2))
  obtain f where "preparation_complete (ux_sha cx) job (os_fs s) = (Inr ready, f)" "os_fs s' = f"
    using dr_ft_Ok [OF r(1)] by (auto simp: on_fs_Ok)
  then show "nodes (os_fs s') = nodes (os_fs s)" using preparation_complete_nodes by blast
qed

lemma stored_nodes: "nodes f' = nodes f \<Longrightarrow> stored cx job f \<Longrightarrow> stored cx job f'"
  by (auto simp: stored_def list_all_iff intro: stored_chunk_cong)

lemma prepare_loop_Ok:
  assumes "libraries_ok cx"
  shows "prepare_live_ciphertext cx envs job s = Some (Inr job', s') \<Longrightarrow> prepared_so_far cx job (os_fs s) \<Longrightarrow>
    prepared_so_far cx job' (os_fs s') \<and> next_missing_chunk job' = Inr None \<and> same_but_chunks job job'"
proof (induction envs arbitrary: job s)
  case Nil
  then have last: "next_missing_chunk job = Inr None" "prepared_all cx job s = (Inr job', s')"
    by (auto simp: prepare_live_ciphertext.simps [of cx "[]"] split: sum.splits option.splits)
  note fin = prepared_all_Ok [OF last(2)]
  show ?case using Nil(2) last(1) stored_nodes [OF fin(2)] by (simp add: prepared_so_far_def fin(1))
next
  case (Cons env envs)
  obtain ik where ik: "next_missing_chunk job = Inr ik"
    using next_missing_Ok Cons(3) by (auto simp: prepared_so_far_def)
  show ?case
  proof (cases ik)
    case None
    then have "prepared_all cx job s = (Inr job', s')" using Cons(2) ik by (simp add: prepare_live_ciphertext.simps [of cx "env # envs"])
    note fin = prepared_all_Ok [OF this]
    show ?thesis using Cons(3) ik None stored_nodes [OF fin(2)] by (simp add: prepared_so_far_def fin(1))
  next
    case (Some p)
    obtain i k where p: "p = (i, k)" by force
    obtain job1 s1 where step: "prepare_step cx env (i, k) job s = (Inr job1, s1)"
        and rest: "prepare_live_ciphertext cx envs job1 s1 = Some (Inr job', s')"
      using Cons(2) ik Some p by (auto simp: prepare_live_ciphertext.simps [of cx "env # envs"] split: prod.splits sum.splits)
    have missing: "next_missing_chunk job = Inr (Some (i, k))" using ik Some p by simp
    note kept = prepare_step_Ok [OF assms Cons(3) missing step]
    have "same_but_chunks job job1" using kept(3) same_but_chunks_push by blast
    with Cons(1) [OF rest kept(1)] show ?thesis using same_but_chunks_trans by blast
  qed
qed

lemma prepare_loop_ends:
  assumes "libraries_ok cx"
  shows "prepared_so_far cx job (os_fs s) \<Longrightarrow> missing_count job \<le> length envs \<Longrightarrow>
    prepare_live_ciphertext cx envs job s \<noteq> None"
proof (induction envs arbitrary: job s)
  case Nil
  then have "next_missing_chunk job = Inr None" using missing_count_0 by (auto simp: prepared_so_far_def)
  then show ?case by (simp add: prepare_live_ciphertext.simps [of cx "[]"])
next
  case (Cons env envs)
  obtain ik where ik: "next_missing_chunk job = Inr ik"
    using next_missing_Ok Cons(2) by (auto simp: prepared_so_far_def)
  show ?case
  proof (cases ik)
    case (Some p)
    obtain i k where p: "p = (i, k)" by force
    have missing: "next_missing_chunk job = Inr (Some (i, k))" using ik Some p by simp
    obtain r s1 where step: "prepare_step cx env (i, k) job s = (r, s1)" by force
    show ?thesis
    proof (cases r)
      case (Inr job1)
      note kept = prepare_step_Ok [OF assms Cons(2) missing step [unfolded Inr]]
      then have "missing_count job1 \<le> length envs" using Cons(3) by simp
      from Cons(1) [OF kept(1) this] show ?thesis
        using missing step Inr by (simp add: prepare_live_ciphertext.simps [of cx "env # envs"])
    qed (use missing step in \<open>simp add: prepare_live_ciphertext.simps [of cx "env # envs"]\<close>)
  qed (use ik in \<open>simp add: prepare_live_ciphertext.simps [of cx "env # envs"]\<close>)
qed

text \<open>What the receiver of \<open>Download_Chunk\<close> makes of a stored chunk.\<close>

definition receiver_item :: "upload_item \<Rightarrow> saved_item" where
  "receiver_item item =
     \<lparr>si_id = ui_id item, si_name = ui_name item, si_size = ui_bytes item, si_nonce_prefix = ui_nonce_prefix item,
      si_chunk_count = ui_chunk_count item, si_digest = ui_digest item, si_target = [], si_verified = [], si_published = False\<rparr>"

definition opens_for_receiver :: "up_ctx \<Rightarrow> upload_job \<Rightarrow> fs \<Rightarrow> chunk_record \<Rightarrow> bool" where
  "opens_for_receiver cx job f c \<longleftrightarrow>
     (let item = uj_items job ! ch_item c in
      \<exists>t key ct content.
        uj_transfer_id job = Some t \<and> derive_item_key (ux_crypto cx) (uj_master_key job) t (ui_id item) = Ok key
        \<and> content_at (ch_artifact c) f = Some ct
        \<and> open_chunk (ux_crypto cx) (ux_decode cx) t (receiver_item item) (ch_position c) key ct = Ok content
        \<and> length content = unat (ch_plaintext_bytes c)
        \<and> ux_sha cx content = src_chunk_digests (ui_source item) ! unat (ch_position c))"

lemma upload_aad_is_chunk_aad: "bytes (upload_aad t i k) = chunk_aad t i (decimal (unat k))"
  by (simp add: upload_aad_def chunk_aad_def)

lemma sealed_chunk_opens:
  assumes "aead_correct (ux_crypto cx)" "sealed_chunk cx job c ct" "content_at (ch_artifact c) f = Some ct"
  shows "opens_for_receiver cx job f c"
proof -
  let ?item = "uj_items job ! ch_item c"
  obtain t prefix key content where x: "uj_transfer_id job = Some t" "ux_decode cx (ui_nonce_prefix ?item) = Some prefix"
      "derive_item_key (ux_crypto cx) (uj_master_key job) t (ui_id ?item) = Inr key"
      "length content = unat (ch_plaintext_bytes c)"
      "ux_sha cx content = src_chunk_digests (ui_source ?item) ! unat (ch_position c)"
      "encrypt_chunk (ux_crypto cx) key prefix (ucast (ch_position c)) content (bytes (upload_aad t (ui_id ?item) (ch_position c))) = Inr ct"
    using assms(2) by (auto simp: sealed_chunk_def Let_def)
  have "decrypt_chunk (ux_crypto cx) key prefix (ucast (ch_position c)) ct (chunk_aad t (ui_id ?item) (decimal (unat (ch_position c)))) = Inr content"
    using decrypt_encrypted_at_index [OF assms(1) x(6) [unfolded encrypt_chunk_def]]
    by (simp add: decrypt_chunk_def upload_aad_is_chunk_aad)
  then have "open_chunk (ux_crypto cx) (ux_decode cx) t (receiver_item ?item) (ch_position c) key ct = Ok content"
    using x(2) by (simp add: open_chunk_def receiver_item_def)
  then show ?thesis using x assms(3) unfolding opens_for_receiver_def Let_def by blast
qed

lemma stored_opens:
  assumes "libraries_ok cx" "stored cx job f" "c \<in> set (uj_chunks job)" "\<not> ch_complete c"
  shows "opens_for_receiver cx job f c"
proof -
  obtain m ct where "nodes f (ch_artifact c) = Some (Regular m ct)" "sealed_chunk cx job c ct"
    using assms(2-4) by (auto simp: stored_def stored_chunk_def list_all_iff)
  then show ?thesis using assms(1) by (intro sealed_chunk_opens [where ct = ct]) (auto simp: libraries_ok_def content_at_def)
qed

text \<open>C12. Preparing an upload ends and is complete: from a valid job whose prepared chunks are on disk, the loop
  returns after at most as many turns as chunks are missing; if it succeeds, the job it saved is valid, it
  records every chunk of every item exactly once, and every chunk that has still to be sent lies on disk as
  a ciphertext that the receiver, with the key and the nonce it derives, opens to data with the digest that
  was taken from the source before the transfer was reserved.\<close>

theorem preparation_records_every_chunk:
  assumes "libraries_ok cx" and "prepared_so_far cx job (os_fs s)" and "missing_count job \<le> length envs"
  shows "case prepare_live_ciphertext cx envs job s of
      None \<Rightarrow> False
    | Some (Inl e, s') \<Rightarrow> True
    | Some (Inr job', s') \<Rightarrow>
        validate_job (ux_decode cx) job' = Ok () \<and> same_but_chunks job job'
        \<and> distinct (map chunk_key (uj_chunks job')) \<and> set (map chunk_key (uj_chunks job')) = chunk_slots job'
        \<and> list_all (\<lambda>c. ch_complete c \<or> opens_for_receiver cx job' (os_fs s') c) (uj_chunks job')"
proof (cases "prepare_live_ciphertext cx envs job s")
  case None
  then show ?thesis using prepare_loop_ends [OF assms] by simp
next
  case (Some rs)
  obtain r s' where rs: "rs = (r, s')" by force
  show ?thesis
  proof (cases r)
    case (Inr job')
    then have "prepare_live_ciphertext cx envs job s = Some (Inr job', s')" using Some rs by simp
    from prepare_loop_Ok [OF assms(1) this assms(2)]
    have ok: "job_valid (ux_decode cx) job'" "stored cx job' (os_fs s')" "next_missing_chunk job' = Inr None" "same_but_chunks job job'"
      unfolding prepared_so_far_def by blast+
    have "distinct (map chunk_key (uj_chunks job'))" using ok(1) unfolding job_valid_def by blast
    moreover have "list_all (\<lambda>c. ch_complete c \<or> opens_for_receiver cx job' (os_fs s') c) (uj_chunks job')"
      unfolding list_all_iff using stored_opens [OF assms(1) ok(2)] by blast
    ultimately show ?thesis
      using ok next_missing_None [OF ok(1,3)] unfolding Some rs Inr validate_job_Ok option.case prod.case sum.case by blast
  qed (simp add: Some rs)
qed

definition example_up_ctx :: up_ctx where
  "example_up_ctx =
     \<lparr>ux_crypto = example_crypto\<lparr>hkdf := \<lambda>_ _ _. Some (replicate 32 5)\<rparr>, ux_rng = (\<lambda>n. Ok (replicate n 1)), ux_encode = map unat,
      ux_decode = (\<lambda>_. Some (replicate 16 0)), ux_sha = (\<lambda>_. replicate 64 48), ux_store = example_store,
      ux_to_vec = (\<lambda>_. Some []), ux_from_slice = (\<lambda>_. None), ux_stage_to_vec = (\<lambda>_. Some []), ux_stage_from_slice = (\<lambda>_. None)\<rparr>"

definition example_upload_item :: upload_item where
  "example_upload_item =
     \<lparr>ui_id = lit ''i'', ui_position = 0, ui_name = lit ''a'',
      ui_source = \<lparr>src_spec = example_spec, src_bytes = 5, src_modified_ns = 5, src_digest = replicate 64 48, src_chunk_digests = [replicate 64 48]\<rparr>,
      ui_nonce_prefix = lit ''p'', ui_digest = replicate 64 48, ui_bytes = 5, ui_chunk_count = 1\<rparr>"

definition example_upload_job :: upload_job where
  "example_upload_job =
     \<lparr>uj_sealed_attached_note = None, uj_version = 1, uj_id = lit ''j'', uj_direction = lit ''upload'', uj_state = lit ''preparing'',
      uj_instance = [], uj_done = 0, uj_total = 5, uj_transfer_id = Some (lit ''t''), uj_upload_token = Some (lit ''u''),
      uj_monitor_token = None, uj_share_url = None, uj_delete_token = None, uj_share_key = replicate 32 3, uj_password_salt = None,
      uj_master_key = replicate 32 3, uj_chunk_bytes = 8, uj_server_concurrency = 1, uj_upload_status = False, uj_turbo = False,
      uj_descriptor_published = False, uj_encrypted_descriptor = None, uj_transport = None, uj_driver = lit ''http'',
      uj_join_token = None, uj_exact_manifest = None, uj_receipt = None, uj_recipient = None, uj_items = [example_upload_item],
      uj_chunks = []\<rparr>"

definition example_open_state :: open_state where
  "example_open_state = \<lparr>os_fs = example_fs, os_control = control_new \<lparr>set_max_concurrency = None, set_memory_budget = 1, set_client_user_agent = None, set_webrtc_relay_only = False\<rparr>\<rparr>"

lemma example_upload_count: "source_chunks example_upload_job 0 = Inr 1"
  by (simp add: source_chunks_def example_upload_job_def example_upload_item_def upload_chunk_count_def div_ceil_def)

lemma zeros_are_a_digest: "valid_digest (replicate 64 48)"
proof -
  have "utf8_char 48 = [48]" "ascii_hexdigit 48" by (simp_all add: utf8_char_def ascii_hexdigit_def ascii_digit_def)
  then show ?thesis by (simp add: valid_digest_def str_len_def bytes_def concat_replicate_single sum_list_replicate list_all_iff)
qed

lemma example_upload_valid: "prepared_so_far example_up_ctx example_upload_job (os_fs example_open_state)"
proof -
  have "\<not> header_invalid example_upload_job" "\<not> secrets_missing (ux_decode example_up_ctx) example_upload_job"
    by (simp_all add: header_invalid_def secrets_missing_def example_upload_job_def example_upload_item_def upload_states_def blank_def)
  moreover have "item_ok (ux_decode example_up_ctx) 8 0 example_upload_item"
    using example_upload_count
    by (simp add: item_ok_def source_chunks_def example_upload_job_def example_upload_item_def decodes_to_16_def example_up_ctx_def zeros_are_a_digest)
  ultimately show ?thesis by (simp add: prepared_so_far_def job_valid_def stored_def) (simp add: example_upload_job_def)
qed

lemma example_libraries: "libraries_ok example_up_ctx"
  by (simp add: libraries_ok_def example_up_ctx_def aead_correct_def example_crypto_def sha_hex_def zeros_are_a_digest)

lemma example_missing: "missing_count example_upload_job \<le> 1"
proof -
  have "chunk_slots example_upload_job - set (map chunk_key (uj_chunks example_upload_job)) \<subseteq> {(0, 0)}"
    using example_upload_count by (auto simp: chunk_slots_def example_upload_job_def)
  from card_mono [OF _ this] show ?thesis by (simp add: missing_count_def)
qed

theorem preparation_records_every_chunk_witness:
  "case prepare_live_ciphertext example_up_ctx [\<lparr>pe_cancelled = False, pe_read = example_world, pe_metadata = example_world\<rparr>]
      example_upload_job example_open_state of
      None \<Rightarrow> False
    | Some (Inl e, s') \<Rightarrow> True
    | Some (Inr job', s') \<Rightarrow>
        validate_job (ux_decode example_up_ctx) job' = Ok () \<and> same_but_chunks example_upload_job job'
        \<and> distinct (map chunk_key (uj_chunks job')) \<and> set (map chunk_key (uj_chunks job')) = chunk_slots job'
        \<and> list_all (\<lambda>c. ch_complete c \<or> opens_for_receiver example_up_ctx job' (os_fs s') c) (uj_chunks job')"
  by (rule preparation_records_every_chunk [OF example_libraries example_upload_valid]) (use example_missing in simp)

end
