(* ===== verification/Upload_Stage.thy ===== *)
theory Upload_Stage
  imports Upload_Job "HOL-Library.Sublist"
begin

text \<open>
  Sending one chunk, from \<open>crates/transfer-native/src/protocol/upload.rs\<close>: the streamed body of a direct
  request with its time-outs, its retries, and the staged upload in parts with its completion and its
  restarts. What the network does is an environment: an \<open>exchange\<close> for each request (the response or the
  failure, the body reads, where the host cancels, the clock), a list of events for a streamed body. A
  loop whose environment is used up is still running and returns \<open>None\<close>. What a call puts on the wire is a
  log. Shown: a chunk returns as staged only when the server has confirmed all of it, the parts that were
  sent carry the bytes of the ciphertext at their offsets and reach its end without a gap, a request body is
  a prefix of the ciphertext, and the limit on the restarts of a stage is never reached.
\<close>

section \<open>State and requests\<close>

datatype upload_event =
    StageBegin rstr u64 rstr
  | StagePart rstr u64 "u8 list" rstr
  | StageComplete rstr
  | DirectPut rstr u64 rstr
  | BodyPiece rstr "u8 list"
  | StatusRequest rstr "rstr option"
  | DescriptorRequest rstr rstr
  | CompleteRequest rstr rstr "rstr option"
  | DeleteRequest rstr rstr
  | LiveRequest rstr rstr
  | InfoRequest rstr
  | ReserveRequest rstr u64 "(u64 \<times> u64) list"
  | Slept u64

record up_state =
  us_open :: open_state
  us_adaptive :: adaptive
  us_sending :: send_progress
  us_log :: "upload_event list"

type_synonym 'a us_op = "(up_state, 'a, dl_error) st"

text \<open>\<open>UploadContext\<close>: the controller, the progress, the host's handle and the file system are in the state.\<close>

record up_net =
  un_ctx :: up_ctx
  un_instance :: rstr
  un_transfer :: rstr
  un_token :: rstr
  un_policy :: "upload_transport option"
  un_status_of :: "u8 list \<Rightarrow> stage_status option"

record exchange =
  ex_sent :: "http_response waited"
  ex_body :: "u8 list option waited list"
  ex_cancelled :: bool
  ex_sleep_cut :: bool
  ex_date :: "rstr \<Rightarrow> int option"
  ex_uuid :: rstr
  ex_elapsed :: u64
  ex_now :: u64

definition us_dr :: "'a dr_op \<Rightarrow> 'a us_op" where
  "us_dr m s = (case m (us_open s) of (r, t) \<Rightarrow> (r, s\<lparr>us_open := t\<rparr>))"

definition us_log_event :: "upload_event \<Rightarrow> unit us_op" where
  "us_log_event e s = (Ok (), s\<lparr>us_log := us_log s @ [e]\<rparr>)"

definition us_adapt :: "(adaptive \<Rightarrow> adaptive) \<Rightarrow> unit us_op" where
  "us_adapt f s = (Ok (), s\<lparr>us_adaptive := f (us_adaptive s)\<rparr>)"

definition us_phase :: "exchange \<Rightarrow> phase \<Rightarrow> unit us_op" where
  "us_phase ex p = us_dr (dr_phase (ex_cancelled ex) p)"

definition UP_CANCELLED :: dl_error where "UP_CANCELLED = DlMsg ''Transfer cancelled''"

definition cancellable_sleep :: "exchange \<Rightarrow> u64 \<Rightarrow> unit us_op" where
  "cancellable_sleep ex ms =
     bind_st (us_log_event (Slept ms)) (\<lambda>_. lift_st (if ex_sleep_cut ex then Err UP_CANCELLED else Ok ()))"

text \<open>\<open>retry_after_ms\<close>; \<open>ex_date\<close> parses an RFC 2822 date and gives the milliseconds from now to it.\<close>

definition upload_retry_after :: "exchange \<Rightarrow> http_response \<Rightarrow> u64 option" where
  "upload_retry_after ex r =
     Option.bind (Option.bind (rs_header r ''retry-after'') header_to_str) (\<lambda>value.
       let v = trim value in
       case parse_u64 v of
         Some seconds \<Rightarrow> Some (saturating_mul seconds 1000)
       | None \<Rightarrow> map_option (\<lambda>ms. of_int (max ms 0)) (ex_date ex v))"

definition read_artifact :: "up_net \<Rightarrow> chunk_record \<Rightarrow> u8 list us_op" where
  "read_artifact net c =
     us_dr (bind_st (dr_ft (fs_io (read_file (ch_artifact c)))) (\<lambda>body.
            lift_st (if intact (ux_sha (un_ctx net)) c body then Ok body
                     else Err (DlMsg ''immutable ciphertext was changed or is corrupt''))))"

section \<open>Staged uploads\<close>

definition stage_json_response :: "up_net \<Rightarrow> exchange \<Rightarrow> http_response \<Rightarrow> (stage_status, dl_error) result" where
  "stage_json_response net ex r =
     (if \<not> is_success (rs_status r) then Err (DlMsg ''staging request failed'')
      else response_json (un_status_of net) r (ex_body ex))"

definition stage_json :: "up_net \<Rightarrow> exchange \<Rightarrow> (stage_status, dl_error) result" where
  "stage_json net ex = and_then (map_err DlHttp (request_headers (ex_sent ex))) (stage_json_response net ex)"

definition save_stage :: "up_net \<Rightarrow> rstr \<Rightarrow> stage_session \<Rightarrow> unit us_op" where
  "save_stage net name session =
     (let cx = un_ctx net in
      us_dr (dr_ck (save_named (ux_crypto cx) (ux_rng cx) (ux_stage_to_vec cx) (ux_store cx) name session)))"

definition load_stage :: "up_net \<Rightarrow> rstr \<Rightarrow> stage_session option us_op" where
  "load_stage net name =
     (let cx = un_ctx net in us_dr (dr_ck (load_named (ux_crypto cx) (ux_stage_from_slice cx) (ux_store cx) name)))"

text \<open>A retry: it is counted, announced and waited for.\<close>

definition stage_retry :: "exchange \<Rightarrow> u64 option \<Rightarrow> u64 \<Rightarrow> (adaptive \<Rightarrow> adaptive) \<Rightarrow> stage_session \<Rightarrow> stage_session us_op" where
  "stage_retry ex after jitter f session =
     bind_st (lift_st (map_err DlMsg (record_retry session))) (\<lambda>session.
     bind_st (us_adapt f) (\<lambda>_.
     bind_st (us_phase ex Retrying) (\<lambda>_.
     bind_st (cancellable_sleep ex (retry_delay_ms (ss_retries session) after jitter)) (\<lambda>_. lift_st (Ok session)))))"

fun complete_stage_from ::
  "up_net \<Rightarrow> rstr \<Rightarrow> (nat \<Rightarrow> exchange) \<Rightarrow> nat list \<Rightarrow> stage_session \<Rightarrow> (stage_status \<times> stage_session) us_op" where
  "complete_stage_from net base t [] session = lift_st (Err (DlMsg ''staged completion retry limit exceeded''))"
| "complete_stage_from net base t (attempt # rest) session =
     bind_st (us_log_event (StageComplete base)) (\<lambda>_.
     case ex_sent (t attempt) of
       Interrupted \<Rightarrow> lift_st (Err UP_CANCELLED)
     | Arrived r \<Rightarrow>
         if is_success (rs_status r)
         then lift_st (and_then (stage_json_response net (t attempt) r) (\<lambda>status. Ok (status, session)))
         else if retryable_status (rs_status r) True
         then bind_st (stage_retry (t attempt) (upload_retry_after (t attempt) r) (of_nat attempt * 29) id session)
                (complete_stage_from net base t rest)
         else lift_st (Err (DlMsg ''staged completion failed''))
     | _ \<Rightarrow>
         if attempt = 8 then lift_st (Err (DlMsg ''staged completion retry limit exceeded''))
         else bind_st (stage_retry (t attempt) None (of_nat attempt * 29) id session) (complete_stage_from net base t rest))"

definition complete_stage :: "up_net \<Rightarrow> rstr \<Rightarrow> (nat \<Rightarrow> exchange) \<Rightarrow> stage_session \<Rightarrow> (stage_status \<times> stage_session) us_op" where
  "complete_stage net base t session = complete_stage_from net base t [0 ..< 9] session"

text \<open>One turn of the loop ends with the next action, or with a fresh identity after the server lost the
  stage.\<close>

datatype stage_next = Onward stage_action stage_session u64 | Restart stage_session

definition finish_turn ::
  "up_net \<Rightarrow> rstr \<Rightarrow> rstr \<Rightarrow> (nat \<Rightarrow> exchange) \<Rightarrow> stage_session \<Rightarrow> u64 \<Rightarrow> stage_next us_op" where
  "finish_turn net name base t session part_len =
     bind_st (complete_stage net base t session) (\<lambda>(status, session).
     bind_st (lift_st (map_err DlMsg (reconcile session status))) (\<lambda>(action, session).
     bind_st (save_stage net name session) (\<lambda>_. lift_st (Ok (Onward action session part_len)))))"

definition part_at :: "u64 \<Rightarrow> u64 \<Rightarrow> u8 list \<Rightarrow> u8 list" where
  "part_at offset n body = take (unat n) (drop (unat offset) body)"

definition part_answer ::
  "up_net \<Rightarrow> upload_transport \<Rightarrow> rstr \<Rightarrow> exchange \<Rightarrow> u64 \<Rightarrow> u64 \<Rightarrow> stage_session \<Rightarrow> u64 \<Rightarrow> http_response \<Rightarrow> stage_next us_op" where
  "part_answer net policy name ex offset n session part_len r =
     (if is_success (rs_status r) then
        bind_st (lift_st (stage_json_response net ex r)) (\<lambda>status.
        bind_st (lift_st (map_err DlMsg (acknowledge_part session offset n status))) (\<lambda>(action, session).
        bind_st (save_stage net name session) (\<lambda>_.
        bind_st (us_adapt (observe n (ex_elapsed ex) (ex_now ex))) (\<lambda>_.
        lift_st (Ok (Onward action session (grow_part policy part_len n (ex_elapsed ex))))))))
      else if retryable_status (rs_status r) True then
        bind_st (stage_retry ex (upload_retry_after ex r) 0 (congested (ex_now ex)) session) (\<lambda>session.
        lift_st (Ok (Onward (Continue offset) session (shrink_part policy part_len))))
      else if rs_status r = 410 then
        bind_st (lift_st (map_err DlMsg (stage_reset session (ex_uuid ex)))) (\<lambda>session.
        bind_st (save_stage net name session) (\<lambda>_. lift_st (Ok (Restart session))))
      else lift_st (Err (DlMsg ''staged part upload failed'')))"

definition part_turn ::
  "up_net \<Rightarrow> upload_transport \<Rightarrow> chunk_record \<Rightarrow> u8 list \<Rightarrow> rstr \<Rightarrow> rstr \<Rightarrow> exchange \<Rightarrow> u64 \<Rightarrow> stage_session \<Rightarrow> u64 \<Rightarrow> stage_next us_op" where
  "part_turn net policy c body name base ex offset session part_len =
     (let n = min (ch_ciphertext_bytes c - offset) part_len; part = part_at offset n body in
      bind_st (lift_st (map_err DlMsg (validate_part_count policy (ch_ciphertext_bytes c) part_len))) (\<lambda>_.
      bind_st (us_log_event (StagePart base offset part (ux_sha (un_ctx net) part))) (\<lambda>_.
      case ex_sent ex of
        Interrupted \<Rightarrow> lift_st (Err UP_CANCELLED)
      | Arrived r \<Rightarrow> part_answer net policy name ex offset n session part_len r
      | _ \<Rightarrow> bind_st (stage_retry ex None 0 (congested (ex_now ex)) session) (\<lambda>session.
             lift_st (Ok (Onward (Continue offset) session part_len))))))"

text \<open>At the end of the ciphertext \<open>Continue\<close> becomes \<open>Finalizing\<close> without a request.\<close>

definition stage_turn ::
  "up_net \<Rightarrow> upload_transport \<Rightarrow> chunk_record \<Rightarrow> u8 list \<Rightarrow> rstr \<Rightarrow> rstr \<Rightarrow> (nat \<Rightarrow> exchange) \<Rightarrow> u64 option \<Rightarrow> stage_session \<Rightarrow> u64 \<Rightarrow> stage_next us_op" where
  "stage_turn net policy c body name base t pos session part_len =
     (case pos of
        None \<Rightarrow> finish_turn net name base t session part_len
      | Some offset \<Rightarrow>
          if offset = ch_ciphertext_bytes c then finish_turn net name base t session part_len
          else part_turn net policy c body name base (t 0) offset session part_len)"

fun stage_loop ::
  "up_net \<Rightarrow> upload_transport \<Rightarrow> chunk_record \<Rightarrow> u8 list \<Rightarrow> rstr \<Rightarrow> rstr \<Rightarrow> (nat \<Rightarrow> exchange) list \<Rightarrow> stage_action \<Rightarrow> stage_session \<Rightarrow> u64
   \<Rightarrow> up_state \<Rightarrow> ((stage_session + stage_session, dl_error) result \<times> up_state) option" where
  "stage_loop net policy c body name base turns action session part_len s =
     (case action of
        ActComplete \<Rightarrow> Some (Ok (Inl session), s)
      | _ \<Rightarrow>
          (case turns of
             [] \<Rightarrow> None
           | t # ts \<Rightarrow>
               (case stage_turn net policy c body name base t (case action of Continue o' \<Rightarrow> Some o' | _ \<Rightarrow> None) session part_len s of
                  (Inl e, s') \<Rightarrow> Some (Err e, s')
                | (Inr (Restart session'), s') \<Rightarrow> Some (Ok (Inr session'), s')
                | (Inr (Onward action' session' part_len'), s') \<Rightarrow>
                    stage_loop net policy c body name base ts action' session' part_len' s')))"

declare stage_loop.simps [simp del]

record stage_env =
  se_uuid :: rstr
  se_begin :: exchange
  se_turns :: "(nat \<Rightarrow> exchange) list"

definition stage_url :: "up_net \<Rightarrow> chunk_record \<Rightarrow> rstr \<Rightarrow> rstr" where
  "stage_url net c i =
     un_instance net @ lit ''/api/v1/transfers/'' @ un_transfer net @ lit ''/items/'' @ ch_item_id c @ lit ''/chunks/''
       @ decimal (unat (ch_position c)) @ lit ''/uploads/'' @ i"

text \<open>A stage keeps only its identity across a restart: the session that is used starts anew.\<close>

definition stage_identity :: "up_net \<Rightarrow> chunk_record \<Rightarrow> rstr \<Rightarrow> stage_session us_op" where
  "stage_identity net c uuid =
     bind_st (load_stage net (stage_name c)) (\<lambda>loaded.
     bind_st (lift_st (map_err DlMsg (session_new uuid (ch_ciphertext_bytes c) (ch_checksum c)))) (\<lambda>fresh.
     let saved = (case loaded of Some v \<Rightarrow> v | None \<Rightarrow> (case ch_stage c of Some v \<Rightarrow> v | None \<Rightarrow> fresh)) in
     bind_st (lift_st (validate_stage saved c)) (\<lambda>_.
     lift_st (map_err DlMsg (session_new (ss_id saved) (ch_ciphertext_bytes c) (ch_checksum c))))))"

definition stage_begin ::
  "up_net \<Rightarrow> upload_transport \<Rightarrow> chunk_record \<Rightarrow> stage_env \<Rightarrow> (stage_action \<times> stage_session \<times> u64) us_op" where
  "stage_begin net policy c env =
     bind_st (lift_st (map_err DlMsg (transport_validate policy))) (\<lambda>_.
     bind_st (stage_identity net c (se_uuid env)) (\<lambda>session.
     bind_st (save_stage net (stage_name c) session) (\<lambda>_.
     bind_st (us_log_event (StageBegin (stage_url net c (ss_id session)) (ch_ciphertext_bytes c) (ch_checksum c))) (\<lambda>_.
     bind_st (lift_st (stage_json net (se_begin env))) (\<lambda>started.
     bind_st (lift_st (map_err DlMsg (reconcile session started))) (\<lambda>(action, session).
     (\<lambda>s. (Ok (action, session, max (initial_part_bytes policy (ac_rate (us_adaptive s))) (part_min_bytes policy)), s))))))))"

fun stage ::
  "up_net \<Rightarrow> upload_transport \<Rightarrow> chunk_record \<Rightarrow> u8 list \<Rightarrow> stage_env list \<Rightarrow> up_state \<Rightarrow> ((chunk_record, dl_error) result \<times> up_state) option" where
  "stage net policy c body [] s = None"
| "stage net policy c body (env # envs) s =
     (case stage_begin net policy c env s of
        (Inl e, s1) \<Rightarrow> Some (Err e, s1)
      | (Inr (action, session, part_len), s1) \<Rightarrow>
          (case stage_loop net policy c body (stage_name c) (stage_url net c (ss_id session)) (se_turns env) action session part_len s1 of
             None \<Rightarrow> None
           | Some (Inl e, s2) \<Rightarrow> Some (Err e, s2)
           | Some (Inr (Inl session'), s2) \<Rightarrow> Some (Ok (c\<lparr>ch_stage := Some session'\<rparr>), s2)
           | Some (Inr (Inr session'), s2) \<Rightarrow> stage net policy (c\<lparr>ch_stage := Some session'\<rparr>) body envs s2))"

section \<open>Direct uploads\<close>

text \<open>The streamed body. A poll is cut by the host or by the policy, ends the body, or reads the next piece;
  \<open>pl_read\<close> is how much a read would give. The watch channel holds whether the body is finished.\<close>

definition BODY_BUFFER_BYTES :: nat where "BODY_BUFFER_BYTES = 64 * 1024"

record poll_env =
  pl_cancelled :: bool
  pl_elapsed :: u64
  pl_read :: "(nat, io_error) result"
  pl_now :: u64

record body_state =
  bs_file :: "u8 list"
  bs_loaded :: u64
  bs_finished :: bool
  bs_changed :: bool
  bs_abandoned :: bool

definition body_piece :: "chunk_record \<Rightarrow> nat \<Rightarrow> body_state \<Rightarrow> u8 list" where
  "body_piece c n b =
     take (min n (min (unat (saturating_sub (ch_ciphertext_bytes c) (bs_loaded b))) BODY_BUFFER_BYTES))
       (drop (unat (bs_loaded b)) (bs_file b))"

definition hand_piece :: "chunk_record \<Rightarrow> rstr \<Rightarrow> u64 \<Rightarrow> u8 list \<Rightarrow> body_state \<times> up_state \<Rightarrow> body_state \<times> up_state" where
  "hand_piece c key t piece bs =
     (case bs of (b, s) \<Rightarrow>
       let loaded = bs_loaded b + of_nat (length piece);
           sending = sp_report (chunk_key c) (ch_plaintext_bytes c) (ch_ciphertext_bytes c) loaded (us_sending s);
           os = us_open s
       in (b\<lparr>bs_loaded := loaded, bs_finished := (loaded = ch_ciphertext_bytes c), bs_changed := True\<rparr>,
           s\<lparr>us_adaptive := sample key loaded t (us_adaptive s), us_sending := sending,
             us_open := os\<lparr>os_control := control_advance (sp_snapshot sending) 0 (of_nat (length piece)) (os_control os)\<rparr>,
             us_log := us_log s @ [BodyPiece key piece]\<rparr>))"

definition poll_body ::
  "chunk_record \<Rightarrow> upload_transport option \<Rightarrow> rstr \<Rightarrow> poll_env \<Rightarrow> body_state \<times> up_state \<Rightarrow> body_state \<times> up_state" where
  "poll_body c policy key pl bs =
     (case bs of (b, s) \<Rightarrow>
       let n = ch_ciphertext_bytes c in
       if pl_cancelled pl then (b, s)
       else if (case policy of None \<Rightarrow> False | Some p \<Rightarrow> should_abandon_direct p n (bs_loaded b) (pl_elapsed pl))
         then (b\<lparr>bs_abandoned := True\<rparr>, s)
       else if saturating_sub n (bs_loaded b) = 0 then (b\<lparr>bs_finished := True, bs_changed := True\<rparr>, s)
       else case pl_read pl of
              Inl _ \<Rightarrow> (b, s)
            | Inr k \<Rightarrow> (let piece = body_piece c k b in if piece = [] then (b, s) else hand_piece c key (pl_now pl) piece (b, s)))"

text \<open>The select loop: an event whose guard is off does not fire. The sender of the watch channel outlives the
  stream, so it never closes.\<close>

datatype direct_event =
    Polled poll_env
  | Updated
  | IdleElapsed
  | TransmissionElapsed
  | AckElapsed
  | CancelSeen
  | Responded "http_response option"

fun direct_loop ::
  "chunk_record \<Rightarrow> upload_transport option \<Rightarrow> rstr \<Rightarrow> direct_event list \<Rightarrow> bool \<Rightarrow> bool \<Rightarrow> body_state \<times> up_state
   \<Rightarrow> ((http_response, dl_error) result \<times> body_state \<times> up_state) option" where
  "direct_loop c policy key [] finished ack bs = None"
| "direct_loop c policy key (e # es) finished ack bs =
     (case e of
        Responded r \<Rightarrow> Some (ok_or (DlHttp HttpTransport) r, bs)
      | CancelSeen \<Rightarrow> Some (Err UP_CANCELLED, bs)
      | Polled pl \<Rightarrow> direct_loop c policy key es finished ack (poll_body c policy key pl bs)
      | Updated \<Rightarrow>
          (if bs_changed (fst bs)
           then let finished' = bs_finished (fst bs) in
                direct_loop c policy key es finished' (ack \<or> finished') ((fst bs)\<lparr>bs_changed := False\<rparr>, snd bs)
           else direct_loop c policy key es finished ack bs)
      | IdleElapsed \<Rightarrow>
          (if \<not> finished then Some (Err (DlMsg ''upload body became idle''), bs) else direct_loop c policy key es finished ack bs)
      | TransmissionElapsed \<Rightarrow>
          (if policy \<noteq> None \<and> \<not> finished then Some (Err (DlMsg ''upload transmission exceeded transport budget''), bs)
           else direct_loop c policy key es finished ack bs)
      | AckElapsed \<Rightarrow>
          (if ack then Some (Err (DlMsg ''upload acknowledgement headers timed out''), bs)
           else direct_loop c policy key es finished ack bs))"

record direct_env =
  de_key :: rstr
  de_events :: "direct_event list"
  de_elapsed :: u64
  de_now :: u64

definition direct_url :: "up_net \<Rightarrow> chunk_record \<Rightarrow> rstr" where
  "direct_url net c =
     un_instance net @ lit ''/api/v1/transfers/'' @ un_transfer net @ lit ''/items/'' @ ch_item_id c @ lit ''/chunks/''
       @ decimal (unat (ch_position c))"

definition restart_display :: "chunk_record \<Rightarrow> up_state \<Rightarrow> up_state" where
  "restart_display c s =
     (let sending = sp_restart c (us_sending s); os = us_open s in
      s\<lparr>us_sending := sending,
        us_open := os\<lparr>os_control := control_advance (sp_snapshot sending) 0 0 (os_control os)\<rparr>\<rparr>)"

definition direct_done :: "chunk_record \<Rightarrow> direct_env \<Rightarrow> (http_response, dl_error) result \<Rightarrow> adaptive \<Rightarrow> adaptive" where
  "direct_done c env r a =
     (let a = forget (de_key env) a in
      if (case r of Inr resp \<Rightarrow> rs_status resp = 201 | Inl _ \<Rightarrow> False)
      then observe (ch_ciphertext_bytes c) (de_elapsed env) (de_now env) a else a)"

definition direct_request ::
  "up_net \<Rightarrow> upload_transport option \<Rightarrow> chunk_record \<Rightarrow> direct_env \<Rightarrow> up_state
   \<Rightarrow> (((http_response, dl_error) result \<times> bool) \<times> up_state) option" where
  "direct_request net policy c env s0 =
     (let s = restart_display c s0 in
      case us_dr (dr_ft (fs_io (read_file (ch_artifact c)))) s of
        (Inl e, s1) \<Rightarrow> Some ((Err e, False), s1)
      | (Inr content, s1) \<Rightarrow>
          let b = \<lparr>bs_file = content, bs_loaded = 0, bs_finished = False, bs_changed = False, bs_abandoned = False\<rparr>;
              s2 = s1\<lparr>us_log := us_log s1 @ [DirectPut (direct_url net c) (ch_ciphertext_bytes c) (de_key env)]\<rparr>
          in case direct_loop c policy (de_key env) (de_events env) False False (b, s2) of
               None \<Rightarrow> None
             | Some (r, b', s3) \<Rightarrow> Some ((r, bs_abandoned b'), s3\<lparr>us_adaptive := direct_done c env r (us_adaptive s3)\<rparr>))"

text \<open>Attempts without a policy. The exchange gives the flags and the clock after the request.\<close>

fun retry_direct_from ::
  "up_net \<Rightarrow> (nat \<Rightarrow> direct_env \<times> exchange) \<Rightarrow> nat list \<Rightarrow> chunk_record \<Rightarrow> up_state \<Rightarrow> ((chunk_record, dl_error) result \<times> up_state) option" where
  "retry_direct_from net envs [] c s = Some (Err (DlMsg ''chunk upload retry limit exceeded''), s)"
| "retry_direct_from net envs (attempt # rest) c s =
     (let (de, ex) = envs attempt in
      case us_phase ex Retrying s of
        (Inl e, s1) \<Rightarrow> Some (Err e, s1)
      | (Inr _, s1) \<Rightarrow>
          (case direct_request net None c de s1 of
             None \<Rightarrow> None
           | Some ((r, _), s2) \<Rightarrow>
               let again = (\<lambda>after.
                     (case bind_st (us_adapt (congested (ex_now ex))) (\<lambda>_.
                           bind_st (us_phase ex Reconnecting) (\<lambda>_.
                           cancellable_sleep ex (retry_delay_ms (of_nat attempt) after (of_nat (attempt * 37))))) s2 of
                        (Inl e, s3) \<Rightarrow> Some (Err e, s3)
                      | (Inr _, s3) \<Rightarrow> retry_direct_from net envs rest c s3))
               in case r of
                    Inl _ \<Rightarrow> again None
                  | Inr resp \<Rightarrow>
                      if rs_status resp = 201 then Some (Ok c, s2)
                      else if retryable_status (rs_status resp) False then again (upload_retry_after ex resp)
                      else Some (Err (DlMsg ''chunk upload failed''), s2)))"

definition retry_direct ::
  "up_net \<Rightarrow> (nat \<Rightarrow> direct_env \<times> exchange) \<Rightarrow> chunk_record \<Rightarrow> up_state \<Rightarrow> ((chunk_record, dl_error) result \<times> up_state) option" where
  "retry_direct net envs c s = retry_direct_from net envs [0 ..< 5] c s"

record chunk_env =
  ce_direct :: direct_env
  ce_fallback :: exchange
  ce_stage :: "stage_env list"
  ce_retries :: "nat \<Rightarrow> direct_env \<times> exchange"

definition stage_from_disk ::
  "up_net \<Rightarrow> upload_transport \<Rightarrow> chunk_env \<Rightarrow> chunk_record \<Rightarrow> up_state \<Rightarrow> ((chunk_record, dl_error) result \<times> up_state) option" where
  "stage_from_disk net policy env c s =
     (case read_artifact net c s of
        (Inl e, s1) \<Rightarrow> Some (Err e, s1)
      | (Inr body, s1) \<Rightarrow> stage net policy c body (ce_stage env) s1)"

definition fall_back ::
  "up_net \<Rightarrow> chunk_env \<Rightarrow> chunk_record \<Rightarrow> up_state \<Rightarrow> ((chunk_record, dl_error) result \<times> up_state) option" where
  "fall_back net env c s =
     (case un_policy net of
        None \<Rightarrow> retry_direct net (ce_retries env) c s
      | Some policy \<Rightarrow>
          (case us_phase (ce_fallback env) Reconnecting s of
             (Inl e, s1) \<Rightarrow> Some (Err e, s1)
           | (Inr _, s1) \<Rightarrow> stage_from_disk net policy env c (restart_display c s1)))"

definition upload_direct ::
  "up_net \<Rightarrow> chunk_env \<Rightarrow> chunk_record \<Rightarrow> up_state \<Rightarrow> ((chunk_record, dl_error) result \<times> up_state) option" where
  "upload_direct net env c s =
     (case direct_request net (un_policy net) c (ce_direct env) s of
        None \<Rightarrow> None
      | Some ((r, _), s1) \<Rightarrow>
          (case r of
             Inl _ \<Rightarrow> fall_back net env c s1
           | Inr resp \<Rightarrow>
               if rs_status resp = 201 then Some (Ok c, s1)
               else if rs_status resp = 413 \<or> ch_stage c \<noteq> None \<or> retryable_status (rs_status resp) False then fall_back net env c s1
               else Some (Err (DlMsg ''chunk upload failed''), s1)))"

definition upload_chunk ::
  "up_net \<Rightarrow> chunk_env \<Rightarrow> chunk_record \<Rightarrow> up_state \<Rightarrow> ((chunk_record, dl_error) result \<times> up_state) option" where
  "upload_chunk net env c s =
     (case un_policy net of
        Some policy \<Rightarrow>
          if ch_stage c \<noteq> None \<and> should_stage policy (ch_ciphertext_bytes c) (ac_rate (us_adaptive s))
          then stage_from_disk net policy env c s
          else upload_direct net env c s
      | None \<Rightarrow> upload_direct net env c s)"

section \<open>What reaches the wire\<close>

text \<open>The parts that were sent since the last beginning of a stage, and when such parts lead from one offset
  to another: each starts where the one before started, which is a retry, or where it ended.\<close>

fun part_step :: "upload_event \<Rightarrow> (u64 \<times> u8 list) list \<Rightarrow> (u64 \<times> u8 list) list" where
  "part_step (StageBegin base n checksum) ps = []"
| "part_step (StagePart base offset part checksum) ps = ps @ [(offset, part)]"
| "part_step e ps = ps"

definition current_parts :: "upload_event list \<Rightarrow> (u64 \<times> u8 list) list" where
  "current_parts es = fold part_step es []"

lemma current_parts_snoc [simp]: "current_parts (es @ [e]) = part_step e (current_parts es)"
  by (simp add: current_parts_def)

fun reaches :: "u8 list \<Rightarrow> nat \<Rightarrow> (u64 \<times> u8 list) list \<Rightarrow> nat \<Rightarrow> bool" where
  "reaches body i [] e \<longleftrightarrow> e = i"
| "reaches body i ((k, p) # ps) e \<longleftrightarrow>
     unat k = i \<and> p \<noteq> [] \<and> i + length p \<le> length body \<and> p = take (length p) (drop i body)
     \<and> (reaches body i ps e \<or> reaches body (i + length p) ps e)"

lemma reaches_snoc:
  assumes "reaches body i ps m" "unat k = m" "p \<noteq> []" "m + length p \<le> length body" "p = take (length p) (drop m body)"
    and "e = m \<or> e = m + length p"
  shows "reaches body i (ps @ [(k, p)]) e"
  using assms
proof (induction ps arbitrary: i)
  case (Cons q ps)
  obtain l r where q: "q = (l, r)" by force
  from Cons.prems(1) have "reaches body i ps m \<or> reaches body (i + length r) ps m" by (simp add: q)
  then have "reaches body i (ps @ [(k, p)]) e \<or> reaches body (i + length r) (ps @ [(k, p)]) e"
    using Cons.IH [OF _ Cons.prems(2-6)] by blast
  then show ?case using Cons.prems(1) by (simp add: q)
qed simp

lemma take_then: "take n xs @ take m (drop n xs) = take (n + m) xs"
  by (simp add: take_add)

lemma reaches_covers:
  "reaches body i ps e \<Longrightarrow> i \<le> length body \<Longrightarrow>
     i \<le> e \<and> e \<le> length body \<and> (\<exists>qs. subseq qs ps \<and> concat (map snd qs) = take (e - i) (drop i body))"
proof (induction ps arbitrary: i)
  case Nil
  then show ?case by (auto intro: exI [of _ "[]"])
next
  case (Cons q ps)
  obtain k p where q: "q = (k, p)" by force
  note facts = Cons.prems(1) [unfolded q, simplified]
  from facts have "reaches body i ps e \<or> reaches body (i + length p) ps e" by blast
  then show ?case
  proof
    assume "reaches body i ps e"
    with Cons.IH [OF this Cons.prems(2)] show ?thesis using list_emb_Cons [of "(=)"] by blast
  next
    assume there: "reaches body (i + length p) ps e"
    with Cons.IH [OF this] facts obtain qs where qs: "i + length p \<le> e" "e \<le> length body" "subseq qs ps"
        "concat (map snd qs) = take (e - (i + length p)) (drop (i + length p) body)" by blast
    have "subseq (q # qs) (q # ps)" using qs(3) by simp
    moreover have "concat (map snd (q # qs)) = take (e - i) (drop i body)"
    proof -
      have "concat (map snd (q # qs)) = take (length p) (drop i body) @ take (e - (i + length p)) (drop (length p) (drop i body))"
        using facts qs(4) by (simp add: q add.commute)
      also have "\<dots> = take (e - i) (drop i body)"
        using qs(1) take_then [of "length p" "drop i body" "e - (i + length p)"] by simp
      finally show ?thesis .
    qed
    ultimately show ?thesis using qs(1,2) by (intro conjI exI [of _ "q # qs"]) auto
  qed
qed

section \<open>Operations that send no part\<close>

definition quiet :: "'a us_op \<Rightarrow> bool" where
  "quiet m \<longleftrightarrow> (\<forall>X. keeps (\<lambda>s. current_parts (us_log s) = X) m)"

named_theorems quiet_intro \<open>operations that send no part\<close>

lemma quietI: "(\<And>s. current_parts (us_log (snd (m s))) = current_parts (us_log s)) \<Longrightarrow> quiet m"
  unfolding quiet_def by (auto intro: keepsI)

lemma quietD: "quiet m \<Longrightarrow> m s = (r, s') \<Longrightarrow> current_parts (us_log s') = current_parts (us_log s)"
  unfolding quiet_def using keepsD_run [of _ m s r s'] by blast

lemma quiet_bind [quiet_intro]: "quiet m \<Longrightarrow> (\<And>x. quiet (f x)) \<Longrightarrow> quiet (bind_st m f)"
  unfolding quiet_def by (intro allI keeps_bind) auto

lemma quiet_lift [quiet_intro]: "quiet (lift_st r)"
  unfolding quiet_def by (simp add: keeps_lift)

lemma quiet_dr [quiet_intro]: "quiet (us_dr m)"
  by (rule quietI) (simp add: us_dr_def split: prod.split)

lemma quiet_adapt [quiet_intro]: "quiet (us_adapt f)"
  by (rule quietI) (simp add: us_adapt_def)

lemma quiet_events [quiet_intro]: "quiet (us_log_event (StageComplete base))" "quiet (us_log_event (Slept ms))"
  by (auto intro!: quietI simp: us_log_event_def)

lemma quiet_phase [quiet_intro]: "quiet (us_phase ex p)"
  unfolding us_phase_def by (rule quiet_dr)

lemma quiet_sleep [quiet_intro]: "quiet (cancellable_sleep ex ms)"
  unfolding cancellable_sleep_def by (intro quiet_intro)

lemma quiet_retry [quiet_intro]: "quiet (stage_retry ex after jitter f session)"
  unfolding stage_retry_def by (intro quiet_intro)

lemma quiet_save [quiet_intro]: "quiet (save_stage net name session)"
  unfolding save_stage_def Let_def by (rule quiet_dr)

lemma quiet_load [quiet_intro]: "quiet (load_stage net name)"
  unfolding load_stage_def Let_def by (rule quiet_dr)

lemma quiet_complete_from [quiet_intro]: "quiet (complete_stage_from net base t ks session)"
proof (induction ks arbitrary: session)
  case Nil
  show ?case unfolding complete_stage_from.simps by (rule quiet_lift)
next
  case (Cons k ks)
  note more = Cons.IH
  show ?case unfolding complete_stage_from.simps
    by (intro quiet_intro) (auto intro!: quiet_intro more split: waited.split)
qed

lemma quiet_finish [quiet_intro]: "quiet (finish_turn net name base t session part_len)"
  unfolding finish_turn_def complete_stage_def by (auto intro!: quiet_intro split: prod.split)

lemma quiet_answer [quiet_intro]: "quiet (part_answer net policy name ex offset n session part_len r)"
  unfolding part_answer_def by (auto intro!: quiet_intro split: prod.split)

section \<open>The turns of a stage\<close>

text \<open>The action that the loop holds is the one that its session asks for.\<close>

definition in_step :: "chunk_record \<Rightarrow> stage_action \<Rightarrow> stage_session \<Rightarrow> bool" where
  "in_step c action session \<longleftrightarrow>
     stage_inv session \<and> ss_ciphertext_bytes session = ch_ciphertext_bytes c \<and> ss_checksum session = ch_checksum c
     \<and> (case action of
          Continue i \<Rightarrow> i = ss_offset session \<and> ss_state session = Receiving
        | ActFinalizing \<Rightarrow> ss_state session = Finalizing
        | ActComplete \<Rightarrow> ss_state session = Complete)"

lemma in_step_full: "in_step c action session \<Longrightarrow> \<forall>i. action \<noteq> Continue i \<Longrightarrow> ss_offset session = ch_ciphertext_bytes c"
  by (cases action) (auto simp: in_step_def stage_inv_def)

lemma in_step_action: "in_step c action session \<Longrightarrow> in_step c action' session \<Longrightarrow> action = action'"
  by (cases action; cases action') (auto simp: in_step_def)

lemma in_step_status:
  assumes "in_step c action session" "stage_try session op = Inr session'"
    and "ss_offset session' = st_offset status" "ss_state session' = st_state status" "ss_checksum session' = ss_checksum session"
  shows "in_step c (action_of status) session'"
proof -
  have "stage_inv session'" "ss_ciphertext_bytes session' = ss_ciphertext_bytes session"
    using stage_try_inv stage_try_bytes assms(1,2) unfolding in_step_def by blast+
  then show ?thesis using assms unfolding in_step_def action_of_def by (cases "st_state status") simp_all
qed

lemma in_step_reconcile:
  assumes "in_step c action session" "Staging.reconcile session status = Inr (action', session')"
  shows "in_step c action' session'" and "ss_resets session' = ss_resets session" and "ss_offset session \<le> ss_offset session'"
proof -
  have "stage_try session (Reconcile status) = Inr session'" using assms(2) by simp
  from in_step_status [OF assms(1) this, of status] show "in_step c action' session'" using assms(2) by (auto simp: stage_ok)
  show "ss_resets session' = ss_resets session" "ss_offset session \<le> ss_offset session'" using assms(2) by (auto simp: stage_ok)
qed

lemma in_step_acknowledge:
  assumes "in_step c (Continue i) session" "acknowledge_part session i n status = Inr (action', session')"
  shows "in_step c action' session'" and "ss_resets session' = ss_resets session" and "ss_offset session' = i + n"
proof -
  have "stage_try session (AckPart i n status) = Inr session'" using assms(2) by simp
  from in_step_status [OF assms(1) this, of status] show "in_step c action' session'" using assms(2) by (auto simp: stage_ok)
  show "ss_resets session' = ss_resets session" "ss_offset session' = i + n" using assms(2) by (auto simp: stage_ok)
qed

lemma in_step_retry:
  assumes "in_step c action session" "record_retry session = Inr session'"
  shows "in_step c action session'" and "ss_resets session' = ss_resets session" and "ss_offset session' = ss_offset session"
proof -
  have "stage_try session RecordRetry = Inr session'" using assms(2) by simp
  then have "stage_inv session'" using stage_try_inv assms(1) unfolding in_step_def by blast
  moreover have "session' = session\<lparr>ss_retries := ss_retries session + 1\<rparr>" using assms(2) by (simp add: stage_ok)
  ultimately show "in_step c action session'" using assms(1) unfolding in_step_def by (cases action) simp_all
  show "ss_resets session' = ss_resets session" "ss_offset session' = ss_offset session" using assms(2) by (auto simp: stage_ok)
qed

lemma stage_retry_Ok: "stage_retry ex after jitter f session s = (Inr session', s') \<Longrightarrow> record_retry session = Inr session'"
  unfolding stage_retry_def bind_st_Inr lift_st_eq map_err_eq_Inr by blast

lemma complete_stage_in_step:
  "complete_stage_from net base t ks session s = (Inr (status, session'), s') \<Longrightarrow> in_step c action session \<Longrightarrow>
     in_step c action session' \<and> ss_resets session' = ss_resets session \<and> ss_offset session' = ss_offset session"
proof (induction ks arbitrary: session s)
  case (Cons k ks)
  have again: ?case if "bind_st (stage_retry (t k) after jitter id session) (complete_stage_from net base t ks) s1 = (Inr (status, session'), s')"
    for after jitter s1
  proof -
    from that obtain session1 s2 where "record_retry session = Inr session1"
        "complete_stage_from net base t ks session1 s2 = (Inr (status, session'), s')"
      unfolding bind_st_Inr by (blast dest: stage_retry_Ok)
    then show ?thesis using Cons.IH in_step_retry [OF Cons.prems(2)] by metis
  qed
  from Cons.prems show ?case
    unfolding complete_stage_from.simps bind_st_Inr us_log_event_def
    by (auto simp: bind_st_Inr [symmetric] dest!: again split: waited.splits if_splits)
qed simp

lemma finish_turn_in_step:
  assumes "finish_turn net name base t session part_len s = (Inr next', s')" "in_step c action session"
  shows "\<exists>action' session'. next' = Onward action' session' part_len \<and> in_step c action' session' \<and> ss_resets session' = ss_resets session
    \<and> ss_offset session \<le> ss_offset session'"
proof -
  from assms(1) obtain s1 status session1 action' session' where
    "complete_stage_from net base t [0 ..< 9] session s = (Inr (status, session1), s1)"
    "Staging.reconcile session1 status = Inr (action', session')" "next' = Onward action' session' part_len"
    unfolding finish_turn_def complete_stage_def bind_st_Inr lift_st_eq by (auto simp: bind_st_Inr)
  then show ?thesis using complete_stage_in_step [OF _ assms(2)] in_step_reconcile by metis
qed

lemma part_answer_in_step:
  assumes "part_answer net policy name ex i n session part_len r s = (Inr (Onward action' session' l), s')" "in_step c (Continue i) session"
  shows "in_step c action' session' \<and> ss_resets session' = ss_resets session \<and> (ss_offset session' = i \<or> ss_offset session' = i + n)"
proof -
  have i: "ss_offset session = i" using assms(2) by (simp add: in_step_def)
  consider status where "acknowledge_part session i n status = Inr (action', session')"
    | "record_retry session = Inr session'" "action' = Continue i"
    using assms(1) unfolding part_answer_def
    by (auto simp: bind_st_Inr split: if_splits dest: stage_retry_Ok)
  then show ?thesis
    using in_step_acknowledge [OF assms(2)] in_step_retry [OF assms(2)] i by cases auto
qed

lemma part_turn_cases:
  assumes "part_turn net policy c body name base ex i session part_len s = (r, s')"
    and "n = min (ch_ciphertext_bytes c - i) part_len" and "part = part_at i n body"
  obtains (early) e where "r = Inl (DlMsg e)" "validate_part_count policy (ch_ciphertext_bytes c) part_len = Inl e"
  | (sent) m s1 where "validate_part_count policy (ch_ciphertext_bytes c) part_len = Inr ()" "m s1 = (r, s')" "quiet m"
      "us_log s1 = us_log s @ [StagePart base i part (ux_sha (un_ctx net) part)]"
      "m = lift_st (Err UP_CANCELLED) \<or> (\<exists>resp. m = part_answer net policy name ex i n session part_len resp)
       \<or> m = bind_st (stage_retry ex None 0 (congested (ex_now ex)) session) (\<lambda>session. lift_st (Ok (Onward (Continue i) session part_len)))"
proof (cases "validate_part_count policy (ch_ciphertext_bytes c) part_len")
  case (Inl e)
  then show ?thesis using early assms unfolding part_turn_def by (auto simp: Let_def map_err_def)
next
  case (Inr u)
  define s1 where "s1 = s\<lparr>us_log := us_log s @ [StagePart base i part (ux_sha (un_ctx net) part)]\<rparr>"
  define m where "m = (case ex_sent ex of
        Interrupted \<Rightarrow> lift_st (Err UP_CANCELLED)
      | Arrived resp \<Rightarrow> part_answer net policy name ex i n session part_len resp
      | _ \<Rightarrow> bind_st (stage_retry ex None 0 (congested (ex_now ex)) session) (\<lambda>session.
             lift_st (Ok (Onward (Continue i) session part_len))))"
  have "m s1 = (r, s')" using assms(1) Inr unfolding part_turn_def m_def s1_def Let_def assms(3) assms(2)
    by (simp add: map_err_def bind_st_def us_log_event_def)
  moreover have "quiet m" unfolding m_def by (auto intro!: quiet_intro split: waited.split)
  moreover have "m = lift_st (Err UP_CANCELLED) \<or> (\<exists>resp. m = part_answer net policy name ex i n session part_len resp)
       \<or> m = bind_st (stage_retry ex None 0 (congested (ex_now ex)) session) (\<lambda>session. lift_st (Ok (Onward (Continue i) session part_len)))"
    unfolding m_def by (cases "ex_sent ex") auto
  ultimately show ?thesis using Inr by (intro sent [of m s1]) (simp_all add: s1_def)
qed

lemma part_len_positive: "validate_part_count policy len part_len = Inr u \<Longrightarrow> 0 < part_len"
  by (auto simp: validate_part_count_def transport_validate_def Let_def word_gt_0 split: if_splits)

lemma part_turn_session:
  assumes run: "part_turn net policy c body name base ex i session part_len s = (Inr (Onward action' session' l), s')"
    and step: "in_step c (Continue i) session"
  shows "in_step c action' session' \<and> ss_resets session' = ss_resets session
    \<and> (ss_offset session' = i \<or> ss_offset session' = i + min (ch_ciphertext_bytes c - i) part_len)" (is ?thesis)
  using run refl refl
proof (cases rule: part_turn_cases)
  case (sent m s1)
  show ?thesis
      using sent(5)
    proof (elim disjE exE)
      assume "m = lift_st (Err UP_CANCELLED)"
      then show ?thesis using sent(2) by simp
    next
      fix resp assume "m = part_answer net policy name ex i (min (ch_ciphertext_bytes c - i) part_len) session part_len resp"
      then show ?thesis using sent(2) part_answer_in_step [OF _ step] by metis
    next
      assume "m = bind_st (stage_retry ex None 0 (congested (ex_now ex)) session) (\<lambda>session. lift_st (Ok (Onward (Continue i) session part_len)))"
      then have "record_retry session = Inr session'" "action' = Continue i" using sent(2) by (auto simp: bind_st_Inr dest: stage_retry_Ok)
      moreover have "ss_offset session = i" using step by (simp add: in_step_def)
      ultimately show ?thesis using in_step_retry [OF step] by auto
  qed
qed simp

lemma part_turn_in_step:
  assumes run: "part_turn net policy c body name base ex i session part_len s = (Inr (Onward action' session' l), s')"
    and step: "in_step c (Continue i) session" "i \<noteq> ch_ciphertext_bytes c" and len: "unat (ch_ciphertext_bytes c) = length body"
    and before: "reaches body start (current_parts (us_log s)) (unat i)"
  shows "in_step c action' session' \<and> ss_resets session' = ss_resets session
    \<and> reaches body start (current_parts (us_log s')) (unat (ss_offset session'))"
proof -
  define n where "n = min (ch_ciphertext_bytes c - i) part_len"
  define part where "part = part_at i n body"
  from run n_def part_def show ?thesis
  proof (cases rule: part_turn_cases)
    case (sent m s1)
    have le: "i < ch_ciphertext_bytes c" using step by (auto simp: in_step_def stage_inv_def)
    have n: "0 < unat n" "unat i + unat n \<le> length body"
      using le part_len_positive [OF sent(1)] len
      by (auto simp: n_def min_def unat_sub word_le_nat_alt word_less_nat_alt split: if_splits)
    have part: "length part = unat n" "part = take (length part) (drop (unat i) body)"
      using n by (simp_all add: part_def part_at_def)
    have "current_parts (us_log s') = current_parts (us_log s) @ [(i, part)]"
      using quietD [OF sent(3,2)] sent(4) by simp
    moreover have end': "in_step c action' session' \<and> ss_resets session' = ss_resets session \<and> (ss_offset session' = i \<or> ss_offset session' = i + n)"
      using part_turn_session [OF run step(1)] by (simp add: n_def)
    moreover have "unat (i + n) = unat i + unat n"
using n(2) unsigned_less [of "ch_ciphertext_bytes c", where ?'a = nat] len unat_add_lem [of i n] by simp
    then have "unat (ss_offset session') = unat i \<or> unat (ss_offset session') = unat i + length part"
      using end' part(1) by auto
    ultimately show ?thesis
      using reaches_snoc [OF before refl, of part "unat (ss_offset session')"] n part by (auto simp: part(1))
  qed simp
qed

lemma stage_turn_in_step:
  assumes run: "stage_turn net policy c body name base t (case action of Continue i \<Rightarrow> Some i | _ \<Rightarrow> None) session part_len s
        = (Inr (Onward action' session' l), s')"
    and step: "in_step c action session" and len: "unat (ch_ciphertext_bytes c) = length body"
    and before: "reaches body start (current_parts (us_log s)) (unat (ss_offset session))"
  shows "in_step c action' session' \<and> ss_resets session' = ss_resets session
    \<and> reaches body start (current_parts (us_log s')) (unat (ss_offset session'))"
proof (cases "\<exists>i. action = Continue i \<and> i \<noteq> ch_ciphertext_bytes c")
  case True
  then obtain i where i: "action = Continue i" "i \<noteq> ch_ciphertext_bytes c" by blast
  then have "ss_offset session = i" using step by (simp add: in_step_def)
  then show ?thesis using part_turn_in_step [OF _ _ i(2) len] run step before i by (simp add: stage_turn_def)
next
  case False
  then have "finish_turn net name base t session part_len s = (Inr (Onward action' session' l), s')"
    using run by (auto simp: stage_turn_def split: stage_action.splits if_splits)
  moreover have "ss_offset session = ch_ciphertext_bytes c"
    using False step in_step_full [OF step] by (cases action) (auto simp: in_step_def)
  ultimately show ?thesis
    using finish_turn_in_step [OF _ step] quietD [OF quiet_finish] before
    by (fastforce simp: in_step_def stage_inv_def)
qed

section \<open>A whole stage\<close>

lemma stage_loop_rule:
  assumes "stage_loop net policy c body name base turns action session part_len s = Some (Inr (Inl session'), s')"
    and "I action session s"
    and "\<And>t action session l s action' session' l' s'.
      stage_turn net policy c body name base t (case action of Continue i \<Rightarrow> Some i | _ \<Rightarrow> None) session l s
        = (Inr (Onward action' session' l'), s') \<Longrightarrow> I action session s \<Longrightarrow> I action' session' s'"
  shows "I ActComplete session' s'"
  using assms(1,2)
proof (induction turns arbitrary: action session part_len s)
  case Nil
  then show ?case by (subst (asm) stage_loop.simps) (auto split: stage_action.splits)
next
  case (Cons t ts)
  show ?case
  proof (cases "action = ActComplete")
    case True
    then show ?thesis using Cons.prems by (subst (asm) stage_loop.simps) auto
  next
    case False
    then obtain action1 session1 l s1 where turn:
        "stage_turn net policy c body name base t (case action of Continue i \<Rightarrow> Some i | _ \<Rightarrow> None) session part_len s
          = (Inr (Onward action1 session1 l), s1)"
        and rest: "stage_loop net policy c body name base ts action1 session1 l s1 = Some (Inr (Inl session'), s')"
      using Cons.prems(1)
      by (subst (asm) stage_loop.simps) (auto split: stage_action.splits prod.splits sum.splits stage_next.splits)
    show ?thesis by (rule Cons.IH [OF rest assms(3) [OF turn Cons.prems(2)]])
  qed
qed

lemma stage_loop_in_step:
  assumes run: "stage_loop net policy c body name base turns action session part_len s = Some (Inr (Inl session'), s')"
    and step: "in_step c action session" and len: "unat (ch_ciphertext_bytes c) = length body"
    and "reaches body start (current_parts (us_log s)) (unat (ss_offset session))"
  shows "in_step c ActComplete session' \<and> reaches body start (current_parts (us_log s')) (length body)"
proof -
  have "in_step c ActComplete session' \<and> reaches body start (current_parts (us_log s')) (unat (ss_offset session'))"
    using run by (rule stage_loop_rule [where I = "\<lambda>a ss s. in_step c a ss \<and> reaches body start (current_parts (us_log s)) (unat (ss_offset ss))"])
      (use assms stage_turn_in_step [OF _ _ len] in blast)+
  then show ?thesis using len by (auto simp: in_step_def stage_inv_def)
qed

lemma session_new_fields:
  "session_new i n checksum = Inr session \<Longrightarrow>
     ss_id session = i \<and> ss_ciphertext_bytes session = n \<and> ss_checksum session = checksum \<and> ss_offset session = 0
     \<and> ss_state session = Receiving \<and> ss_resets session = 0"
  by (auto simp: session_new_def split: if_splits)

lemma quiet_identity [quiet_intro]: "quiet (stage_identity net c uuid)"
  unfolding stage_identity_def Let_def by (intro quiet_intro)

lemma stage_begin_in_step:
  assumes "stage_begin net policy c env s = (Inr (action, session, part_len), s1)"
  obtains started where "stage_json net (se_begin env) = Inr started" "ss_offset session = st_offset started"
    "in_step c action session" "ss_resets session = 0" "current_parts (us_log s1) = []"
proof -
  from assms obtain session0 started saved s2 s3 where
    id: "stage_identity net c (se_uuid env) s = (Inr session0, s2)" and
    save: "save_stage net (stage_name c) session0 s2 = (Inr (), s3)" and
    s1: "s1 = s3\<lparr>us_log := us_log s3 @ [StageBegin (stage_url net c (ss_id session0)) (ch_ciphertext_bytes c) (ch_checksum c)]\<rparr>" and
    started: "stage_json net (se_begin env) = Inr started" "Staging.reconcile session0 started = Inr (action, session)"
    unfolding stage_begin_def bind_st_Inr us_log_event_def by auto
  from id obtain i where new: "session_new i (ch_ciphertext_bytes c) (ch_checksum c) = Inr session0"
    unfolding stage_identity_def Let_def bind_st_Inr by auto
  have "in_step c (Continue 0) session0"
    using session_new_inv [OF new] session_new_fields [OF new] by (simp add: in_step_def)
  from in_step_reconcile [OF this started(2)] have "in_step c action session" "ss_resets session = 0"
    using session_new_fields [OF new] by simp_all
  moreover have "ss_offset session = st_offset started" using started(2) by (auto simp: stage_ok)
  ultimately show thesis using that started(1) s1 by simp
qed

text \<open>A stage that ends well ended in the loop of one of its sessions.\<close>

definition last_session ::
  "up_net \<Rightarrow> upload_transport \<Rightarrow> chunk_record \<Rightarrow> u8 list \<Rightarrow> stage_env \<Rightarrow> stage_session \<Rightarrow> up_state \<Rightarrow> bool" where
  "last_session net policy c body env session' s' \<longleftrightarrow>
     (\<exists>earlier s0 action session part_len s1.
        stage_begin net policy (c\<lparr>ch_stage := earlier\<rparr>) env s0 = (Inr (action, session, part_len), s1)
        \<and> stage_loop net policy (c\<lparr>ch_stage := earlier\<rparr>) body (stage_name c) (stage_url net c (ss_id session)) (se_turns env) action
            session part_len s1 = Some (Inr (Inl session'), s'))"

lemma last_session_stage: "last_session net policy (c\<lparr>ch_stage := x\<rparr>) body env session' s' = last_session net policy c body env session' s'"
  by (simp add: last_session_def stage_name_def stage_url_def)

lemma stage_ends:
  "stage net policy c body envs s = Some (Inr c', s') \<Longrightarrow>
     \<exists>env \<in> set envs. \<exists>session. last_session net policy c body env session s' \<and> c' = c\<lparr>ch_stage := Some session\<rparr>"
proof (induction envs arbitrary: c s)
  case (Cons env envs)
  obtain action session part_len s1 where first: "stage_begin net policy c env s = (Inr (action, session, part_len), s1)"
    using Cons.prems by (auto split: prod.splits sum.splits)
  let ?loop = "stage_loop net policy c body (stage_name c) (stage_url net c (ss_id session)) (se_turns env) action session part_len s1"
  from Cons.prems first consider (finished) session' where "?loop = Some (Inr (Inl session'), s')" "c' = c\<lparr>ch_stage := Some session'\<rparr>"
    | (again) session' s2 where "stage net policy (c\<lparr>ch_stage := Some session'\<rparr>) body envs s2 = Some (Inr c', s')"
    by (auto split: option.splits prod.splits sum.splits)
  then show ?case
  proof cases
    case finished
    have "last_session net policy c body env session' s'"
      unfolding last_session_def by (intro exI [of _ "ch_stage c"] exI [of _ s] exI conjI) (use first finished in simp_all)
    then show ?thesis using finished by auto
  next
    case again
    from Cons.IH [OF this] show ?thesis unfolding last_session_stage by auto
  qed
qed simp

lemma last_session_whole:
  assumes "last_session net policy c body env session' s'" and len: "unat (ch_ciphertext_bytes c) = length body"
  obtains started where "stage_json net (se_begin env) = Inr started" "in_step c ActComplete session'"
    and "unat (st_offset started) \<le> length body" "reaches body (unat (st_offset started)) (current_parts (us_log s')) (length body)"
proof -
  from assms(1) obtain x s0 action session part_len s1 where
    first: "stage_begin net policy (c\<lparr>ch_stage := x\<rparr>) env s0 = (Inr (action, session, part_len), s1)" and
    loop: "stage_loop net policy (c\<lparr>ch_stage := x\<rparr>) body (stage_name c) (stage_url net c (ss_id session)) (se_turns env) action
            session part_len s1 = Some (Inr (Inl session'), s')"
    unfolding last_session_def by blast
  from stage_begin_in_step [OF first] obtain started where st: "stage_json net (se_begin env) = Inr started"
      "ss_offset session = st_offset started" "in_step (c\<lparr>ch_stage := x\<rparr>) action session" "current_parts (us_log s1) = []" by blast
  have "reaches body (unat (st_offset started)) (current_parts (us_log s1)) (unat (ss_offset session))" using st by simp
  from stage_loop_in_step [OF loop st(3) _ this] len
  have "in_step c ActComplete session'" "reaches body (unat (st_offset started)) (current_parts (us_log s')) (length body)"
    by (auto simp: in_step_def)
  moreover have "unat (st_offset started) \<le> length body"
    using st(2,3) len by (auto simp: in_step_def stage_inv_def word_le_nat_alt)
  ultimately show thesis using that st(1) by blast
qed


section \<open>Restarts\<close>

definition RESET_LIMIT :: string where "RESET_LIMIT = ''staged upload reset limit exceeded''"

text \<open>An operation that never fails with the limit on restarts.\<close>

definition spares :: "'a us_op \<Rightarrow> bool" where
  "spares m \<longleftrightarrow> (\<forall>s. fst (m s) \<noteq> Inl (DlMsg RESET_LIMIT))"

named_theorems spares_intro \<open>operations that never fail with the limit on restarts\<close>

lemma sparesD: "spares m \<Longrightarrow> m s = (Inl e, s') \<Longrightarrow> e \<noteq> DlMsg RESET_LIMIT"
  unfolding spares_def by (metis fst_conv)

lemma spares_bind [spares_intro]:
  assumes "spares m" "\<And>x s s1. m s = (Inr x, s1) \<Longrightarrow> fst (f x s1) \<noteq> Inl (DlMsg RESET_LIMIT)"
  shows "spares (bind_st m f)"
  using assms unfolding spares_def
  by (auto simp: bind_st_def split: prod.split sum.split) (metis fst_conv)+

lemma spares_at [spares_intro]: "spares m \<Longrightarrow> fst (m s) \<noteq> Inl (DlMsg RESET_LIMIT)"
  unfolding spares_def by blast

lemma spares_lift [spares_intro]: "r \<noteq> Inl (DlMsg RESET_LIMIT) \<Longrightarrow> spares (lift_st r)"
  by (simp add: spares_def lift_st_def)

lemma spares_message [spares_intro]: "r \<noteq> Inl RESET_LIMIT \<Longrightarrow> spares (lift_st (map_err DlMsg r))"
  by (cases r) (simp_all add: spares_def lift_st_def)

lemma spares_infallible [spares_intro]: "spares (us_adapt f)" "spares (us_log_event e)"
  by (simp_all add: spares_def us_adapt_def us_log_event_def)

lemma spares_ck [spares_intro]: "spares (us_dr (dr_ck m))"
  by (auto simp: spares_def us_dr_def dr_ck_def map_err_def split: prod.split sum.split)

lemma spares_phase [spares_intro]: "spares (us_phase ex p)"
  by (auto simp: spares_def us_phase_def us_dr_def dr_phase_def split: sum.split)

lemma spares_store [spares_intro]: "spares (save_stage net name session)" "spares (load_stage net name)"
  by (simp_all add: save_stage_def load_stage_def Let_def spares_ck)

lemma other_messages [spares_intro]:
  "record_retry session \<noteq> Inl RESET_LIMIT" "transport_validate policy \<noteq> Inl RESET_LIMIT"
  "session_new i n checksum \<noteq> Inl RESET_LIMIT" "validate_status session status \<noteq> Inl RESET_LIMIT"
  "validate_stage session c \<noteq> Inl (DlMsg RESET_LIMIT)" "UP_CANCELLED \<noteq> DlMsg RESET_LIMIT"
  by (simp_all add: record_retry_def transport_validate_def session_new_def validate_status_def validate_stage_def UP_CANCELLED_def
      RESET_LIMIT_def)

lemma other_answers [spares_intro]: "Staging.reconcile session status \<noteq> Inl RESET_LIMIT"
  using other_messages(4) [of session status] by (cases "validate_status session status") (simp_all add: reconcile_def)

lemma other_acknowledgements [spares_intro]: "acknowledge_part session i n status \<noteq> Inl RESET_LIMIT"
  using other_messages(4) [of session status]
  by (cases "validate_status session status"; cases "checked_add i n") (simp_all add: acknowledge_part_def RESET_LIMIT_def)

lemma other_counts [spares_intro]: "validate_part_count policy len part_len \<noteq> Inl RESET_LIMIT"
  using other_messages(2) [of policy]
  by (cases "transport_validate policy") (simp_all add: validate_part_count_def RESET_LIMIT_def Let_def)

lemma other_responses [spares_intro]: "stage_json_response net ex r \<noteq> Inl (DlMsg RESET_LIMIT)" "stage_json net ex \<noteq> Inl (DlMsg RESET_LIMIT)"
proof -
  show resp: "stage_json_response net ex r \<noteq> Inl (DlMsg RESET_LIMIT)" for r
    by (auto simp: stage_json_response_def response_json_def RESET_LIMIT_def and_then_def map_err_def ok_or_def
        split: option.splits sum.splits)
  show "stage_json net ex \<noteq> Inl (DlMsg RESET_LIMIT)"
    using resp by (cases "request_headers (ex_sent ex)") (simp_all add: stage_json_def)
qed

lemma spares_retry [spares_intro]: "spares (stage_retry ex after jitter f session)"
  unfolding stage_retry_def cancellable_sleep_def
  by (intro spares_bind spares_at spares_intro) (auto simp: lift_st_def other_messages(6))

lemma other_texts:
  "''staged completion retry limit exceeded'' \<noteq> RESET_LIMIT" "''staged completion failed'' \<noteq> RESET_LIMIT"
  "''staged part upload failed'' \<noteq> RESET_LIMIT"
  by (simp_all add: RESET_LIMIT_def)

lemma spares_again: "spares m \<Longrightarrow> (\<And>x. spares (f x)) \<Longrightarrow> spares (bind_st m f)"
  by (intro spares_bind spares_at)

lemma spares_complete [spares_intro]: "spares (complete_stage_from net base t ks session)"
proof (induction ks arbitrary: session)
  case Nil
  show ?case unfolding complete_stage_from.simps by (rule spares_lift) (simp add: other_texts)
next
  case (Cons k ks)
  have parsed: "and_then (stage_json_response net ex r) (\<lambda>status. Ok (status, session)) \<noteq> Inl (DlMsg RESET_LIMIT)" for ex r
    using other_responses(1) [of net ex r] by (cases "stage_json_response net ex r") simp_all
  have again: "spares (bind_st (stage_retry ex after jitter f session) (complete_stage_from net base t ks))" for ex after jitter f
    by (intro spares_again spares_retry Cons.IH)
  have texts: "spares (lift_st (Inl UP_CANCELLED))" "spares (lift_st (Inl (DlMsg ''staged completion failed'')))"
    "spares (lift_st (Inl (DlMsg ''staged completion retry limit exceeded'')))"
    by (auto intro!: spares_lift simp: other_texts other_messages(6))
  show ?case unfolding complete_stage_from.simps
    by (rule spares_again [OF spares_infallible(2)], cases "ex_sent (t k)")
       (simp_all add: again texts spares_lift [OF parsed])
qed

lemma spares_finish [spares_intro]: "spares (finish_turn net name base t session part_len)"
  unfolding finish_turn_def complete_stage_def by (auto intro!: spares_again spares_intro split: prod.split)

lemma spares_answer:
  assumes "ss_resets session = 0"
  shows "spares (part_answer net policy name ex i n session part_len r)"
proof -
  have "stage_reset session uuid \<noteq> Inl RESET_LIMIT" for uuid
    using assms by (simp add: stage_reset_def MAX_STAGE_RESETS_def RESET_LIMIT_def)
  then show ?thesis unfolding part_answer_def
    by (auto intro!: spares_again spares_intro simp: other_texts split: prod.split)
qed

lemma stage_turn_session:
  assumes "stage_turn net policy c body name base t (case action of Continue i \<Rightarrow> Some i | _ \<Rightarrow> None) session part_len s
        = (Inr (Onward action' session' l), s')" and "in_step c action session"
  shows "in_step c action' session' \<and> ss_resets session' = ss_resets session"
proof (cases "\<exists>i. action = Continue i \<and> i \<noteq> ch_ciphertext_bytes c")
  case True
  then show ?thesis using part_turn_session assms by (fastforce simp: stage_turn_def)
next
  case False
  then have "finish_turn net name base t session part_len s = (Inr (Onward action' session' l), s')"
    using assms(1) by (auto simp: stage_turn_def split: stage_action.splits if_splits)
  from finish_turn_in_step [OF this assms(2)] show ?thesis by auto
qed

lemma spares_turn:
  assumes "ss_resets session = 0"
  shows "spares (stage_turn net policy c body name base t pos session part_len)"
proof -
  have "spares (part_turn net policy c body name base ex i session part_len)" for ex i
    unfolding part_turn_def Let_def using spares_answer [OF assms]
    by (intro spares_again spares_message other_counts spares_infallible)
       (auto intro!: spares_again spares_intro simp: other_messages(6) split: waited.split)
  then show ?thesis unfolding stage_turn_def by (auto intro: spares_finish split: option.split)
qed

lemma stage_loop_spares:
  assumes "in_step c action session" "ss_resets session = 0"
  shows "stage_loop net policy c body name base turns action session part_len s \<noteq> Some (Inl (DlMsg RESET_LIMIT), s')"
  using assms
proof (induction turns arbitrary: action session part_len s)
  case Nil
  show ?case by (subst stage_loop.simps) (simp split: stage_action.split)
next
  case (Cons t ts)
  let ?turn = "stage_turn net policy c body name base t (case action of Continue i \<Rightarrow> Some i | _ \<Rightarrow> None) session part_len s"
  obtain r s1 where turn: "?turn = (r, s1)" by force
  show ?case
  proof (cases "action = ActComplete")
    case True
    then show ?thesis by (subst stage_loop.simps) simp
  next
    case False
    have "stage_loop net policy c body name base (t # ts) action session part_len s =
        (case r of Inl e \<Rightarrow> Some (Err e, s1) | Inr (Restart session') \<Rightarrow> Some (Ok (Inr session'), s1)
         | Inr (Onward action' session' l) \<Rightarrow> stage_loop net policy c body name base ts action' session' l s1)"
      using False turn by (subst stage_loop.simps) (cases action; simp split: sum.split stage_next.split)
    moreover have "stage_loop net policy c body name base ts action' session' l s1 \<noteq> Some (Inl (DlMsg RESET_LIMIT), s')"
      if "r = Inr (Onward action' session' l)" for action' session' l
      using stage_turn_session [OF turn [unfolded that] Cons.prems(1)] Cons.IH Cons.prems(2) by simp
    moreover have "e \<noteq> DlMsg RESET_LIMIT" if "r = Inl e" for e
      using sparesD [OF spares_turn [OF Cons.prems(2)] turn [unfolded that]] .
    ultimately show ?thesis by (simp split: sum.split stage_next.split)
  qed
qed

lemma spares_begin: "spares (stage_begin net policy c env)"
proof -
  have "spares (stage_identity net c uuid)" for uuid
    unfolding stage_identity_def Let_def by (intro spares_again spares_intro)
  then show ?thesis unfolding stage_begin_def
    by (intro spares_again spares_intro) (auto intro!: spares_again spares_intro split: prod.split simp: spares_def)
qed

text \<open>The limit on the restarts of a stage is never reached: every restart builds a new session that keeps only
  the identity, so the count of resets is zero whenever it is compared with the limit. However often the server
  answers that the stage is gone, the upload does not fail with that error.\<close>

theorem reset_limit_never_reached:
  "stage net policy c body envs s \<noteq> Some (Inl (DlMsg ''staged upload reset limit exceeded''), s')"
proof -
  have "stage net policy c body envs s \<noteq> Some (Inl (DlMsg RESET_LIMIT), s')"
  proof (induction envs arbitrary: c s)
    case (Cons env envs)
    obtain r s1 where first: "stage_begin net policy c env s = (r, s1)" by force
    show ?case
    proof (cases r)
      case (Inl e)
      then show ?thesis using first sparesD [OF spares_begin] by fastforce
    next
      case (Inr asp)
      obtain action session part_len where asp: "asp = (action, session, part_len)" by (cases asp)
      from stage_begin_in_step [OF first [unfolded Inr asp]] have "in_step c action session" "ss_resets session = 0" by blast+
      from stage_loop_spares [OF this] show ?thesis using Cons.IH
        by (auto simp: first Inr asp split: option.split prod.split sum.split)
    qed
  qed simp
  then show ?thesis by (simp add: RESET_LIMIT_def)
qed

section \<open>The body of a direct request\<close>

fun body_step :: "upload_event \<Rightarrow> u8 list \<Rightarrow> u8 list" where
  "body_step (DirectPut url n key) acc = []"
| "body_step (BodyPiece key piece) acc = acc @ piece"
| "body_step e acc = acc"

definition current_body :: "upload_event list \<Rightarrow> u8 list" where
  "current_body es = fold body_step es []"

lemma current_body_snoc [simp]: "current_body (es @ [e]) = body_step e (current_body es)"
  by (simp add: current_body_def)

text \<open>What was handed over is the beginning of the file, and a finished body is all of the chunk.\<close>

definition body_inv :: "chunk_record \<Rightarrow> body_state \<times> up_state \<Rightarrow> bool" where
  "body_inv c bs \<longleftrightarrow>
     current_body (us_log (snd bs)) = take (unat (bs_loaded (fst bs))) (bs_file (fst bs))
     \<and> unat (bs_loaded (fst bs)) \<le> length (bs_file (fst bs)) \<and> bs_loaded (fst bs) \<le> ch_ciphertext_bytes c
     \<and> (bs_finished (fst bs) \<longrightarrow> bs_loaded (fst bs) = ch_ciphertext_bytes c)"

lemma body_piece_bounds:
  assumes "bs_loaded b \<le> ch_ciphertext_bytes c"
  shows "unat (bs_loaded b) + length (body_piece c k b) \<le> unat (ch_ciphertext_bytes c)"
    and "body_piece c k b \<noteq> [] \<Longrightarrow> unat (bs_loaded b) + length (body_piece c k b) \<le> length (bs_file b)"
  using assms by (auto simp: body_piece_def saturating_sub_def unat_sub word_le_nat_alt)

lemma hand_piece_inv:
  assumes "body_inv c (b, s)" and piece: "piece = body_piece c k b" "piece \<noteq> []"
  shows "body_inv c (hand_piece c key t piece (b, s))"
proof -
  have le: "bs_loaded b \<le> ch_ciphertext_bytes c" using assms(1) by (simp add: body_inv_def)
  note bounds' = body_piece_bounds [OF le, of k, folded piece(1)]
  have "length piece < 2 ^ 64" using bounds'(1) unsigned_less [of "ch_ciphertext_bytes c", where ?'a = nat] by simp
  then have "unat (of_nat (length piece) :: u64) = length piece" by (simp add: unat_of_nat take_bit_nat_eq_self)
  then have loaded: "unat (bs_loaded b + of_nat (length piece)) = unat (bs_loaded b) + length piece"
    using bounds'(1) unsigned_less [of "ch_ciphertext_bytes c", where ?'a = nat] unat_add_lem [of "bs_loaded b" "of_nat (length piece)"] by simp
  have "piece = take (length piece) (drop (unat (bs_loaded b)) (bs_file b))"
    unfolding piece(1) body_piece_def by (simp add: min_def)
  then have "take (unat (bs_loaded b)) (bs_file b) @ piece = take (unat (bs_loaded b) + length piece) (bs_file b)"
    by (metis take_add)
  then show ?thesis using assms(1) bounds' piece(2) loaded
    by (simp add: hand_piece_def body_inv_def Let_def word_le_nat_alt)
qed

lemma poll_body_inv: "body_inv c bs \<Longrightarrow> body_inv c (poll_body c policy key pl bs)"
proof (cases bs)
  case (Pair b s)
  assume inv: "body_inv c bs"
  have done': "bs_loaded b = ch_ciphertext_bytes c" if "saturating_sub (ch_ciphertext_bytes c) (bs_loaded b) = 0"
    using that inv by (auto simp: Pair body_inv_def saturating_sub_def split: if_splits)
  show ?thesis
  proof (cases "pl_read pl")
    case (Inl e)
    then show ?thesis using inv done' by (auto simp: Pair poll_body_def Let_def body_inv_def)
  next
    case (Inr k)
    have "body_inv c (if body_piece c k b = [] then (b, s) else hand_piece c key (pl_now pl) (body_piece c k b) (b, s))"
      using inv hand_piece_inv [of c b s, OF _ refl] by (simp add: Pair)
    then show ?thesis using inv done' Inr by (auto simp: Pair poll_body_def Let_def body_inv_def)
  qed
qed

lemma poll_body_file: "bs_file (fst (poll_body c policy key pl bs)) = bs_file (fst bs)"
  by (auto simp: poll_body_def hand_piece_def Let_def split: prod.splits sum.splits)

lemma direct_loop_inv:
  "direct_loop c policy key es finished ack bs = Some (r, bs') \<Longrightarrow> body_inv c bs \<Longrightarrow>
     body_inv c bs' \<and> bs_file (fst bs') = bs_file (fst bs)"
proof (induction es arbitrary: finished ack bs)
  case (Cons e es)
  show ?case
  proof (cases e)
    case (Polled pl)
    then show ?thesis using Cons.IH [of _ _ "poll_body c policy key pl bs"] Cons.prems poll_body_inv poll_body_file by fastforce
  next
    case Updated
    have "body_inv c ((fst bs)\<lparr>bs_changed := False\<rparr>, snd bs)" using Cons.prems(2) by (simp add: body_inv_def)
    then show ?thesis using Updated Cons.prems Cons.IH [of _ _ "((fst bs)\<lparr>bs_changed := False\<rparr>, snd bs)"] Cons.IH [of _ _ bs]
      by (auto simp: Let_def split: if_splits)
  qed (use Cons.prems Cons.IH [of finished ack bs] in \<open>auto split: if_splits\<close>)
qed simp

text \<open>Whatever interrupts a direct request, its body was the beginning of the file that was opened, and never longer
  than the chunk.\<close>

theorem direct_body_is_a_prefix:
  "case direct_request net policy c env s of
     None \<Rightarrow> True
   | Some ((r, abandoned), s') \<Rightarrow>
       (case us_dr (dr_ft (fs_io (read_file (ch_artifact c)))) (restart_display c s) of
          (Inl e, _) \<Rightarrow> r = Err e
        | (Inr content, _) \<Rightarrow>
            prefix (current_body (us_log s')) content \<and> length (current_body (us_log s')) \<le> unat (ch_ciphertext_bytes c))"
proof (cases "us_dr (dr_ft (fs_io (read_file (ch_artifact c)))) (restart_display c s)")
  case (Pair r1 s1)
  show ?thesis
  proof (cases r1)
    case (Inr content)
    define b where "b = \<lparr>bs_file = content, bs_loaded = 0, bs_finished = False, bs_changed = False, bs_abandoned = False\<rparr>"
    define s2 where "s2 = s1\<lparr>us_log := us_log s1 @ [DirectPut (direct_url net c) (ch_ciphertext_bytes c) (de_key env)]\<rparr>"
    have "body_inv c (b, s2)" by (simp add: body_inv_def b_def s2_def)
    then have inv: "body_inv c (b', s3) \<and> bs_file b' = content"
      if "direct_loop c policy (de_key env) (de_events env) False False (b, s2) = Some (r, b', s3)" for r b' s3
      using direct_loop_inv [OF that] by (simp add: b_def)
    show ?thesis
    proof (cases "direct_loop c policy (de_key env) (de_events env) False False (b, s2)")
      case None
      then show ?thesis using Pair Inr by (simp add: direct_request_def b_def s2_def)
    next
      case (Some t)
      obtain r b' s3 where t: "t = (r, b', s3)" by (cases t)
      show ?thesis using inv [OF Some [unfolded t]] Pair Inr Some t
        by (auto simp: direct_request_def b_def s2_def body_inv_def take_is_prefix word_le_nat_alt)
    qed
  qed (simp add: Pair direct_request_def)
qed

section \<open>A chunk\<close>

lemma last_session_step:
  assumes "last_session net policy c body env session' s'"
  shows "in_step c ActComplete session'"
proof -
  from assms obtain x s0 action session part_len s1 where
    first: "stage_begin net policy (c\<lparr>ch_stage := x\<rparr>) env s0 = (Inr (action, session, part_len), s1)" and
    loop: "stage_loop net policy (c\<lparr>ch_stage := x\<rparr>) body (stage_name c) (stage_url net c (ss_id session)) (se_turns env) action
            session part_len s1 = Some (Inr (Inl session'), s')"
    unfolding last_session_def by blast
  have "in_step (c\<lparr>ch_stage := x\<rparr>) action session" using stage_begin_in_step [OF first] by blast
  then have "in_step (c\<lparr>ch_stage := x\<rparr>) ActComplete session'"
    using stage_loop_rule [OF loop, of "\<lambda>a ss s. in_step (c\<lparr>ch_stage := x\<rparr>) a ss"] stage_turn_session by blast
  then show ?thesis by (simp add: in_step_def)
qed

lemma in_step_complete: "in_step c ActComplete session \<Longrightarrow> ss_state session = Complete \<and> ss_checksum session = ch_checksum c"
  by (simp add: in_step_def)

lemma retry_direct_Ok: "retry_direct_from net envs ks c s = Some (Inr c', s') \<Longrightarrow> c' = c"
  by (induction ks arbitrary: s) (auto simp: Let_def split: prod.splits sum.splits option.splits if_splits)

text \<open>A chunk that was sent is unchanged but for its stage, and a stage it carries away is complete unless it had it
  before.\<close>

lemma upload_chunk_Ok:
  assumes "upload_chunk net env c s = Some (Inr c', s')"
  shows "c' = c \<or> (\<exists>session. c' = c\<lparr>ch_stage := Some session\<rparr> \<and> ss_state session = Complete \<and> ss_checksum session = ch_checksum c)"
proof -
  have staged: "\<exists>session. c' = c\<lparr>ch_stage := Some session\<rparr> \<and> ss_state session = Complete \<and> ss_checksum session = ch_checksum c"
    if "stage_from_disk net policy env c s1 = Some (Inr c', s')" for policy s1
  proof -
    from that obtain body s2 where "stage net policy c body (ce_stage env) s2 = Some (Inr c', s')"
      by (auto simp: stage_from_disk_def split: prod.splits sum.splits)
    from stage_ends [OF this] show ?thesis by (metis last_session_step in_step_complete)
  qed
  have "fall_back net env c s1 = Some (Inr c', s') \<Longrightarrow> ?thesis" for s1
    using staged retry_direct_Ok by (auto simp: fall_back_def retry_direct_def split: option.splits prod.splits sum.splits)
  then have "upload_direct net env c s = Some (Inr c', s') \<Longrightarrow> ?thesis"
    by (auto simp: upload_direct_def split: option.splits prod.splits sum.splits if_splits)
  then show ?thesis using assms staged by (auto simp: upload_chunk_def split: option.splits if_splits)
qed

end
