(* ===== verification/Upload_Envelope.thy ===== *)
theory Upload_Envelope
  imports Upload_Job Share_Link
begin

text \<open>
  What a sender encrypts beside the chunks, from \<open>crates/transfer-native/src/protocol/upload.rs\<close>: the key of a
  job, the encrypted manifest, the Turbo descriptor, the note that waits in the checkpoint, and the receipt with
  the share link. The JSON writers are parameters beside the readers of the download side. Shown: the envelope a
  sender writes opens at a receiver, with the key the share link carries, to exactly the manifest of the job; a note
  comes back out of its checkpoint; the receipt parses to the transfer and the key.
\<close>

section \<open>Keys\<close>

text \<open>\<open>unlock_job\<close>; a password has at least eight characters here.\<close>

definition unlock_job :: "up_ctx \<Rightarrow> unlock_env \<Rightarrow> upload_job \<Rightarrow> upload_job ct_op" where
  "unlock_job cx env job =
     (if length (uj_master_key job) = 32 then lift_st (Ok job)
      else if length (uj_share_key job) \<noteq> 32 then lift_st (Err (DlMsg ''saved upload has an invalid share key''))
      else case uj_password_salt job of
             None \<Rightarrow> lift_st (Ok (job\<lparr>uj_master_key := uj_share_key job\<rparr>))
           | Some salt \<Rightarrow>
               bind_st (ask_secret Password (ue_password env)) (\<lambda>password.
               if length password < 8 then lift_st (Err (DlMsg ''passwords must contain at least 8 characters''))
               else
                 bind_st (hold_memory PASSWORD_KDF_BYTES (ue_memory env)) (\<lambda>_.
                 lift_st (and_then (ok_or (DlMsg ''invalid base64url data'') (ux_decode cx salt)) (\<lambda>salt_bytes.
                          and_then (map_err DlMsg (derive_password_key (ux_crypto cx) (bytes password) salt_bytes 65536 3 1)) (\<lambda>p.
                          and_then (map_err DlMsg (derive_password_protected_key (ux_crypto cx) (uj_share_key job) p)) (\<lambda>master.
                          Ok (job\<lparr>uj_master_key := master\<rparr>))))))))"

section \<open>Envelopes\<close>

record up_json =
  jx_manifest :: "manifest \<Rightarrow> u8 list option"
  jx_descriptor :: "turbo_descriptor \<Rightarrow> u8 list option"
  jx_note :: "attached_note \<Rightarrow> u8 list option"
  jx_note_of :: "u8 list \<Rightarrow> attached_note option"
  jx_envelope :: "envelope \<Rightarrow> rstr option"
  jx_envelope_of :: "rstr \<Rightarrow> envelope option"

definition bounded_envelope :: "up_json \<Rightarrow> envelope \<Rightarrow> (rstr, dl_error) result" where
  "bounded_envelope jx e =
     and_then (ok_or (DlMsg ''serialize envelope'') (jx_envelope jx e)) (\<lambda>v.
     if 524288 < str_len v then Err (DlMsg ''encrypted transfer metadata exceeds 512 KiB; shorten the note or filenames'')
     else Ok v)"

text \<open>Sealing under a fresh prefix. The \<open>kdf\<close> field that goes with a salt is constant and not read back.\<close>

definition seal_envelope :: "up_ctx \<Rightarrow> u8 list \<Rightarrow> rstr option \<Rightarrow> u8 list \<Rightarrow> rstr \<Rightarrow> (envelope, dl_error) result" where
  "seal_envelope cx key salt content ad =
     and_then (map_err DlMsg (generate_nonce_prefix (ux_rng cx))) (\<lambda>prefix.
     and_then (map_err DlMsg (encrypt_manifest (ux_crypto cx) key prefix content (bytes ad))) (\<lambda>ciphertext.
     Ok \<lparr>ev_v = 1, ev_nonce_prefix = ux_encode cx prefix, ev_salt = salt, ev_ciphertext = ux_encode cx ciphertext\<rparr>))"

section \<open>The note in the checkpoint\<close>

definition note_aad :: "upload_job \<Rightarrow> rstr" where
  "note_aad job = lit ''filebeam:local:v1:'' @ uj_id job @ lit '':attached-note''"

definition open_attached_note :: "up_ctx \<Rightarrow> up_json \<Rightarrow> upload_job \<Rightarrow> (attached_note option, dl_error) result" where
  "open_attached_note cx jx job =
     (case uj_sealed_attached_note job of
        None \<Rightarrow> Ok None
      | Some sealed \<Rightarrow>
          and_then (ok_or (DlMsg ''invalid JSON'') (jx_envelope_of jx sealed)) (\<lambda>e.
          and_then (open_envelope (ux_crypto cx) (ux_decode cx) (uj_master_key job) (bytes (note_aad job)) e) (\<lambda>content.
          and_then (ok_or (DlMsg ''invalid JSON'') (jx_note_of jx content)) (\<lambda>n.
          and_then (map_err DlMsg (note_validate n)) (\<lambda>_. Ok (Some n))))))"

definition seal_attached_note :: "up_ctx \<Rightarrow> up_json \<Rightarrow> attached_note \<Rightarrow> upload_job \<Rightarrow> (upload_job, dl_error) result" where
  "seal_attached_note cx jx n job =
     and_then (map_err DlMsg (note_validate n)) (\<lambda>_.
     and_then (ok_or (DlMsg ''serialize note'') (jx_note jx n)) (\<lambda>content.
     and_then (seal_envelope cx (uj_master_key job) None content (note_aad job)) (\<lambda>e.
     and_then (ok_or (DlMsg ''serialize envelope'') (jx_envelope jx e)) (\<lambda>sealed.
     Ok (job\<lparr>uj_sealed_attached_note := Some sealed\<rparr>)))))"

section \<open>Manifest and descriptor\<close>

definition OCTET_STREAM :: rstr where "OCTET_STREAM = lit ''application/octet-stream''"

definition upload_manifest_item :: "upload_item \<Rightarrow> manifest_item" where
  "upload_manifest_item i =
     \<lparr>mi_id = ui_id i, mi_name = ui_name i, mi_mime = OCTET_STREAM, mi_size = ui_bytes i, mi_nonce_prefix = ui_nonce_prefix i,
      mi_chunk_count = ui_chunk_count i, mi_digest = \<lparr>digest_algorithm = lit ''sha256'', digest_hex = ui_digest i\<rparr>\<rparr>"

definition upload_manifest :: "up_ctx \<Rightarrow> up_json \<Rightarrow> upload_job \<Rightarrow> (manifest, dl_error) result" where
  "upload_manifest cx jx job =
     and_then (open_attached_note cx jx job) (\<lambda>attached.
     and_then (if uj_driver job = lit ''webrtc''
               then and_then (ok_or (DlMsg ''live transfer join token is unavailable'') (uj_join_token job)) (\<lambda>t. Ok (Some t))
               else Ok None) (\<lambda>token.
     Ok \<lparr>mf_attached_note = attached, mf_join_token = token, mf_version = 1, mf_items = map upload_manifest_item (uj_items job)\<rparr>))"

definition encrypted_manifest :: "up_ctx \<Rightarrow> up_json \<Rightarrow> bool \<Rightarrow> upload_job \<Rightarrow> rstr ct_op" where
  "encrypted_manifest cx jx cancelled job =
     bind_st (lift_st (ok_or (DlMsg ''upload was not reserved'') (uj_transfer_id job))) (\<lambda>transfer.
     bind_st (lift_st (upload_manifest cx jx job)) (\<lambda>m.
     bind_st (lift_st (ok_or (DlMsg ''serialize manifest'') (jx_manifest jx m))) (\<lambda>content.
     bind_st (lift_st (manifest_crypto_bytes (length content))) (\<lambda>n.
     bind_st (hold_memory n cancelled) (\<lambda>_.
     lift_st (and_then (seal_envelope cx (uj_master_key job) (uj_password_salt job) content
                (lit ''filebeam:v1:'' @ transfer @ lit '':manifest:manifest'')) (bounded_envelope jx)))))))"

definition upload_descriptor_item :: "upload_item \<Rightarrow> turbo_descriptor_item" where
  "upload_descriptor_item i =
     \<lparr>td_id = ui_id i, td_name = ui_name i, td_mime = OCTET_STREAM, td_size = ui_bytes i, td_nonce_prefix = ui_nonce_prefix i,
      td_chunk_count = ui_chunk_count i\<rparr>"

definition upload_turbo_descriptor :: "up_ctx \<Rightarrow> up_json \<Rightarrow> bool \<Rightarrow> rstr \<Rightarrow> upload_job \<Rightarrow> rstr ct_op" where
  "upload_turbo_descriptor cx jx cancelled transfer job =
     (if uj_driver job \<noteq> lit ''http'' \<or> uj_recipient job \<noteq> None
      then lift_st (Err (DlMsg ''Turbo requires an anonymous HTTP file transfer''))
      else
        bind_st (lift_st (open_attached_note cx jx job)) (\<lambda>attached.
        bind_st (lift_st (ok_or (DlMsg ''serialize descriptor'') (jx_descriptor jx
          \<lparr>td_attached_note = attached, td_version = 1, td_purpose = lit ''turbo-descriptor'', td_chunk_bytes = uj_chunk_bytes job,
           td_items = map upload_descriptor_item (uj_items job)\<rparr>))) (\<lambda>content.
        bind_st (lift_st (manifest_crypto_bytes (length content))) (\<lambda>n.
        bind_st (hold_memory n cancelled) (\<lambda>_.
        lift_st (and_then (seal_envelope cx (uj_master_key job) (uj_password_salt job) content
                   (lit ''filebeam:v1:'' @ transfer @ lit '':descriptor:descriptor'')) (bounded_envelope jx)))))))"

section \<open>Receipt and retention\<close>

definition starts_with_char :: "nat \<Rightarrow> rstr \<Rightarrow> bool" where
  "starts_with_char c s \<longleftrightarrow> (case s of [] \<Rightarrow> False | x # _ \<Rightarrow> x = c)"

text \<open>\<open>split('#').next()\<close> is what precedes the first mark.\<close>

definition share_path :: "rstr \<Rightarrow> rstr" where
  "share_path url = takeWhile (\<lambda>c. c \<noteq> of_char (CHR ''#'')) url"

definition receipt :: "up_ctx \<Rightarrow> upload_job \<Rightarrow> (rstr, dl_error) result" where
  "receipt cx job =
     and_then (ok_or (DlMsg ''transfer share URL is unavailable'') (uj_share_url job)) (\<lambda>url.
     let share = share_path url in
     if \<not> starts_with_char (of_char (CHR ''/'')) share \<or> starts_with share (lit ''//'') \<or> length (uj_share_key job) \<noteq> 32
     then Err (DlMsg ''server returned an invalid transfer share URL'')
     else Ok (trim_end_matches (\<lambda>c. c = of_char (CHR ''/'')) (uj_instance job) @ share @ lit ''#k=v1.'' @ ux_encode cx (uj_share_key job)))"

definition select_retention :: "u64 \<Rightarrow> u64 list \<Rightarrow> u64 option \<Rightarrow> (u64, dl_error) result" where
  "select_retention standard options requested =
     (let retention = (case requested of None \<Rightarrow> standard | Some r \<Rightarrow> r) in
      if retention = 0 \<or> (options \<noteq> [] \<and> retention \<notin> set options) \<or> (options = [] \<and> retention \<noteq> standard)
      then Err (DlMsg ''the selected retention is not available on this instance'') else Ok retention)"

section \<open>Opening what was sealed\<close>

text \<open>The codecs on the two sides belong together.\<close>

definition text_codec :: "up_ctx \<Rightarrow> bool" where
  "text_codec cx \<longleftrightarrow> (\<forall>b. ux_decode cx (ux_encode cx b) = Some b)"

definition json_codecs :: "up_json \<Rightarrow> dl_json \<Rightarrow> bool" where
  "json_codecs jx js \<longleftrightarrow>
     (\<forall>e v. jx_envelope jx e = Some v \<longrightarrow> js_envelope js v = Some e \<and> jx_envelope_of jx v = Some e)
     \<and> (\<forall>m b. jx_manifest jx m = Some b \<longrightarrow> js_manifest js b = Some m)
     \<and> (\<forall>d b. jx_descriptor jx d = Some b \<longrightarrow> js_descriptor js b = Some d)
     \<and> (\<forall>n b. jx_note jx n = Some b \<longrightarrow> jx_note_of jx b = Some n)"

lemma sealed_envelope_opens:
  assumes "aead_correct (ux_crypto cx)" "text_codec cx" "seal_envelope cx key salt content ad = Inr e"
  shows "open_envelope (ux_crypto cx) (ux_decode cx) key (bytes ad) e = Inr content" and "ev_v e = 1" and "ev_salt e = salt"
proof -
  from assms(3) obtain prefix ct where "encrypt_manifest (ux_crypto cx) key prefix content (bytes ad) = Inr ct"
      and e: "e = \<lparr>ev_v = 1, ev_nonce_prefix = ux_encode cx prefix, ev_salt = salt, ev_ciphertext = ux_encode cx ct\<rparr>"
    by (auto simp: seal_envelope_def and_then_eq_Inr)
  then have "decrypt_manifest (ux_crypto cx) key prefix ct (bytes ad) = Inr content"
    using decrypt_encrypted_at_index [OF assms(1)] by (simp add: encrypt_manifest_def decrypt_manifest_def)
  then show "open_envelope (ux_crypto cx) (ux_decode cx) key (bytes ad) e = Inr content"
    using assms(2) by (simp add: open_envelope_def e text_codec_def)
  show "ev_v e = 1" "ev_salt e = salt" by (simp_all add: e)
qed

lemma sealed_note_opens:
  assumes "aead_correct (ux_crypto cx)" "text_codec cx" "json_codecs jx js" "seal_attached_note cx jx n job = Inr job'"
  shows "open_attached_note cx jx job' = Inr (Some n)"
proof -
  from assms(4) obtain content e sealed where s: "note_validate n = Inr ()" "jx_note jx n = Some content"
      "seal_envelope cx (uj_master_key job) None content (note_aad job) = Inr e" "jx_envelope jx e = Some sealed"
      "job' = job\<lparr>uj_sealed_attached_note := Some sealed\<rparr>"
    by (auto simp: seal_attached_note_def and_then_eq_Inr)
  have "note_aad job' = note_aad job" by (simp add: s(5) note_aad_def)
  then show ?thesis
    using assms(3) s sealed_envelope_opens(1) [OF assms(1,2) s(3)] by (auto simp: open_attached_note_def json_codecs_def)
qed

section \<open>A receiver with the link\<close>

text \<open>A prompt that is answered is answered with the reply.\<close>

lemma ask_secret_Ok: "ask_secret kind env c = (Inr v, c') \<Longrightarrow> se_reply env = Some v"
  by (auto simp: ask_secret_def control_secret_def control_ask_def split: sum.splits option.splits if_splits prod.splits)

lemma hold_memory_Ok: "hold_memory n b c = (Inr u, c') \<Longrightarrow> c' = c"
  by (auto simp: hold_memory_def split: if_splits)

text \<open>The keys that the two sides derive, the sender from its job and the receiver from the link and the envelope.\<close>

definition derived_key :: "up_ctx \<Rightarrow> u8 list \<Rightarrow> rstr option \<Rightarrow> rstr option \<Rightarrow> (u8 list, dl_error) result" where
  "derived_key cx share salt password =
     (case salt of
        None \<Rightarrow> Ok share
      | Some salt \<Rightarrow>
          and_then (ok_or (DlMsg ''invalid base64url data'') (ux_decode cx salt)) (\<lambda>salt_bytes.
          and_then (map_err DlMsg (derive_password_key (ux_crypto cx) (bytes (the password)) salt_bytes 65536 3 1)) (\<lambda>p.
          map_err DlMsg (derive_password_protected_key (ux_crypto cx) share p))))"

lemma unlock_job_key:
  assumes "unlock_job cx env job c = (Inr job', c')" "length (uj_master_key job) \<noteq> 32"
  shows "derived_key cx (uj_share_key job) (uj_password_salt job) (se_reply (ue_password env)) = Inr (uj_master_key job')
    \<and> (\<exists>master. job' = job\<lparr>uj_master_key := master\<rparr>)"
proof (cases "uj_password_salt job")
  case None
  then have "job' = job\<lparr>uj_master_key := uj_share_key job\<rparr>" using assms by (auto simp: unlock_job_def split: if_splits)
  then show ?thesis unfolding derived_key_def None option.case by simp blast
next
  case (Some salt)
  then obtain password salt_bytes p master where "se_reply (ue_password env) = Some password" "ux_decode cx salt = Some salt_bytes"
      "derive_password_key (ux_crypto cx) (bytes password) salt_bytes 65536 3 1 = Inr p"
      "derive_password_protected_key (ux_crypto cx) (uj_share_key job) p = Inr master" "job' = job\<lparr>uj_master_key := master\<rparr>"
    using assms by (auto simp: unlock_job_def bind_st_Inr and_then_eq_Inr split: if_splits dest!: ask_secret_Ok)
  then show ?thesis unfolding derived_key_def Some option.case by simp blast
qed

lemma unlock_link_key:
  assumes "unlock_link (ux_crypto cx) (ux_decode cx) js env l text c = (Inr (master, share), c')" "lk_key l = Some key"
    and "js_envelope js text = Some e"
  shows "derived_key cx key (ev_salt e) (se_reply (ue_password env)) = Inr master"
proof (cases "ev_salt e")
  case None
  then show ?thesis using assms by (auto simp: unlock_link_def password_key_def derived_key_def bind_st_Inr split: if_splits)
next
  case (Some salt)
  then show ?thesis using assms
    by (auto simp: unlock_link_def password_key_def derived_key_def bind_st_Inr and_then_eq_Inr split: if_splits dest!: ask_secret_Ok)
qed

lemma encrypted_manifest_Ok:
  assumes "encrypted_manifest cx jx cancelled job c = (Inr text, c')"
  obtains t m content e where "uj_transfer_id job = Some t" "upload_manifest cx jx job = Inr m" "jx_manifest jx m = Some content"
    "seal_envelope cx (uj_master_key job) (uj_password_salt job) content (lit ''filebeam:v1:'' @ t @ lit '':manifest:manifest'') = Inr e"
    "jx_envelope jx e = Some text"
  using assms unfolding encrypted_manifest_def bind_st_Inr bounded_envelope_def
  by (auto simp: and_then_eq_Inr split: if_splits)

lemma manifest_aad: "bytes (lit ''filebeam:v1:'' @ t @ lit '':manifest:manifest'') = chunk_aad t (lit ''manifest'') (lit ''manifest'')"
  by (simp add: chunk_aad_def)

lemma upload_manifest_items: "upload_manifest cx jx job = Inr m \<Longrightarrow> mf_items m = map upload_manifest_item (uj_items job)"
  by (auto simp: upload_manifest_def and_then_eq_Inr)

text \<open>C22. What a sender publishes opens for whoever has the link: when the sender unlocks its job and writes the
  encrypted manifest, and a receiver with the share key of the job, and the same password if there is one, unlocks
  that envelope, then both hold the same key, and opening the envelope gives the manifest that lists the items of
  the job, up to the memory that the receiver can hold and its own validation of the manifest.\<close>

theorem published_manifest_opens_for_link:
  assumes lib: "aead_correct (ux_crypto cx)" "text_codec cx" "json_codecs jx js" and locked: "length (uj_master_key job) \<noteq> 32"
    and sender: "unlock_job cx env job c0 = (Ok job', c0')" "encrypted_manifest cx jx cancelled job' c1 = (Ok sent, c1')"
    and receiver: "unlock_link (ux_crypto cx) (ux_decode cx) js env' l sent c2 = (Ok (master, share), c2')"
    and link: "lk_key l = Some (uj_share_key job)" "se_reply (ue_password env') = se_reply (ue_password env)"
  shows "master = uj_master_key job'
    \<and> (\<exists>t m n. uj_transfer_id job = Some t \<and> mf_items m = map upload_manifest_item (uj_items job)
        \<and> upload_manifest cx jx job' = Ok m
        \<and> (\<forall>stop srv c3. manifest_for (ux_crypto cx) (ux_decode cx) js stop master t sent srv c3 =
            bind_st (lift_st (manifest_crypto_bytes n)) (\<lambda>k. bind_st (hold_memory k stop) (\<lambda>_.
              bind_st (lift_st (validate_download_manifest m srv)) (\<lambda>_. lift_st (Ok m)))) c3))"
proof -
  obtain t m content e where sealed: "uj_transfer_id job' = Some t" "upload_manifest cx jx job' = Inr m" "jx_manifest jx m = Some content"
      "seal_envelope cx (uj_master_key job') (uj_password_salt job') content (lit ''filebeam:v1:'' @ t @ lit '':manifest:manifest'') = Inr e"
      "jx_envelope jx e = Some sent"
    by (rule encrypted_manifest_Ok [OF sender(2)])
  note key = unlock_job_key [OF sender(1) locked]
  obtain mk where "job' = job\<lparr>uj_master_key := mk\<rparr>" using key by blast
  then have same: "uj_transfer_id job = uj_transfer_id job'" "uj_items job = uj_items job'" "uj_password_salt job = uj_password_salt job'"
    by simp_all
  note opens = sealed_envelope_opens [OF lib(1,2) sealed(4), unfolded manifest_aad]
  have read: "js_envelope js sent = Some e" "js_manifest js content = Some m" using lib(3) sealed(3,5) by (auto simp: json_codecs_def)
  have master: "master = uj_master_key job'"
    using unlock_link_key [OF receiver link(1) read(1)] key link(2) opens(3) same(3) by simp
  have "manifest_for (ux_crypto cx) (ux_decode cx) js stop master t sent srv c3 =
      bind_st (lift_st (manifest_crypto_bytes (str_len (ev_ciphertext e)))) (\<lambda>k. bind_st (hold_memory k stop) (\<lambda>_.
        bind_st (lift_st (validate_download_manifest m srv)) (\<lambda>_. lift_st (Ok m)))) c3" for stop srv c3
    unfolding manifest_for_def master read ok_or_simps bind_lift opens(1) by (rule refl)
  then show ?thesis using master sealed(1,2) same upload_manifest_items [OF sealed(2)] by metis
qed

definition example_text_ctx :: up_ctx where
  "example_text_ctx = example_up_ctx\<lparr>ux_decode := \<lambda>s. Some (map of_nat s)\<rparr>"

definition example_manifest :: manifest where
  "example_manifest = \<lparr>mf_attached_note = None, mf_join_token = None, mf_version = 1, mf_items = [upload_manifest_item example_upload_item]\<rparr>"

definition example_envelope :: envelope where
  "example_envelope =
     \<lparr>ev_v = 1, ev_nonce_prefix = map unat (replicate 16 (1 :: u8)), ev_salt = None,
      ev_ciphertext = map unat ([7] @ replicate 16 (0 :: u8))\<rparr>"

definition example_up_json :: up_json where
  "example_up_json =
     \<lparr>jx_manifest = (\<lambda>m. if m = example_manifest then Some [7] else None), jx_descriptor = (\<lambda>_. None), jx_note = (\<lambda>_. None), jx_note_of = (\<lambda>_. None),
      jx_envelope = (\<lambda>e. if e = example_envelope then Some (lit ''e'') else None), jx_envelope_of = (\<lambda>_. Some example_envelope)\<rparr>"

definition example_dl_json :: dl_json where
  "example_dl_json =
     \<lparr>js_transfer = (\<lambda>_. None), js_capabilities = (\<lambda>_. None), js_session = (\<lambda>_. None), js_envelope = (\<lambda>_. Some example_envelope), js_manifest = (\<lambda>_. Some example_manifest), js_descriptor = (\<lambda>_. None)\<rparr>"

definition example_unlock_env :: unlock_env where
  "example_unlock_env =
     (let quiet = \<lparr>se_open = False, se_cancelled = False, se_reply = None\<rparr> in \<lparr>ue_share = quiet, ue_password = quiet, ue_memory = False\<rparr>)"

definition example_locked_job :: upload_job where
  "example_locked_job = example_upload_job\<lparr>uj_master_key := []\<rparr>"

definition example_control :: control where
  "example_control = control_new \<lparr>set_max_concurrency = None, set_memory_budget = 1000, set_client_user_agent = None, set_webrtc_relay_only = False\<rparr>"

lemma example_codecs: "aead_correct (ux_crypto example_text_ctx)" "text_codec example_text_ctx" "json_codecs example_up_json example_dl_json"
  using example_libraries
  by (simp_all add: libraries_ok_def example_text_ctx_def text_codec_def comp_def example_up_ctx_def json_codecs_def example_up_json_def example_dl_json_def)

lemma example_unlocks: "unlock_job example_text_ctx example_unlock_env example_locked_job example_control = (Inr example_upload_job, example_control)"
  by (simp add: unlock_job_def example_locked_job_def example_upload_job_def)

lemma example_publishes:
  "encrypted_manifest example_text_ctx example_up_json False example_upload_job example_control = (Inr (lit ''e''), example_control)"
proof -
  have "upload_manifest example_text_ctx example_up_json example_upload_job = Inr example_manifest"
    by (simp add: upload_manifest_def open_attached_note_def example_upload_job_def example_manifest_def)
  moreover have "seal_envelope example_text_ctx (uj_master_key example_upload_job) (uj_password_salt example_upload_job) [7] ad = Inr example_envelope"
    if "length (bytes ad) \<le> 4096" for ad
    using that by (simp add: random_bytes_def seal_envelope_def example_text_ctx_def example_up_ctx_def generate_nonce_prefix_def example_crypto_def encrypt_manifest_def encrypt_at_index_Ok
        crypto_sizes example_envelope_def example_upload_job_def)
  moreover have "uj_transfer_id example_upload_job = Some (lit ''t'')" by (simp add: example_upload_job_def)
  moreover have "length (bytes (lit ''filebeam:v1:'' @ lit ''t'' @ lit '':manifest:manifest'')) \<le> 4096"
    by (simp add: utf8_char_def)
  ultimately show ?thesis
    unfolding encrypted_manifest_def
    by (simp add: example_up_json_def hold_memory_def manifest_crypto_bytes_def checked_mul_def example_control_def control_new_def memory_new_def
        bounded_envelope_def str_len_def utf8_char_def bind_st_def lift_st_def)
qed

lemma example_link_unlocks:
  "unlock_link (ux_crypto example_text_ctx) (ux_decode example_text_ctx) example_dl_json example_unlock_env
     \<lparr>lk_id = lit ''t'', lk_key = Some (replicate 32 3), lk_instance = []\<rparr> (lit ''e'') example_control
   = (Inr (replicate 32 3, replicate 32 3), example_control)"
  by (simp add: unlock_link_def example_dl_json_def example_envelope_def password_key_def)

theorem published_manifest_opens_for_link_witness:
  "\<exists>m. upload_manifest example_text_ctx example_up_json example_upload_job = Ok m
     \<and> mf_items m = [upload_manifest_item example_upload_item]"
  using published_manifest_opens_for_link [OF example_codecs _ example_unlocks example_publishes example_link_unlocks]
  by (auto simp: example_locked_job_def) (auto simp: example_upload_job_def)

section \<open>The receipt\<close>

text \<open>C35. The receipt of an upload is a link that the clients read back: it names the transfer and carries exactly the
  share key. The server gives the path of the link, which ends in the identifier of the transfer.\<close>

theorem receipt_is_a_share_link:
  assumes "\<And>b. ux_encode cx b = b64_encode (map unat b)" and "length (uj_share_key job) = 32"
    and "uj_share_url job = Some (of_char (CHR ''/'') # path @ tid)" and "list_all scalar tid" and "is_ulid tid"
    and "of_char (CHR ''#'') \<notin> set path" and "of_char (CHR '']'') \<notin> set path" and "of_char (CHR '']'') \<notin> set (uj_instance job)"
    and "path = [] \<or> (last path = of_char (CHR ''/'') \<and> hd path \<noteq> of_char (CHR ''/''))"
  shows "\<exists>url. receipt cx job = Ok url
    \<and> parse_share_link url = Ok \<lparr>link_id = tid, link_key = Some (b64_encode (map unat (uj_share_key job)))\<rparr>"
proof -
  let ?slash = "of_char (CHR ''/'') :: nat"
  let ?pre = "trim_end_matches (\<lambda>c. c = ?slash) (uj_instance job) @ ?slash # path"
  have tid: "length tid = 26" "set tid \<subseteq> set crockford" using is_ulid_chars [OF assms(4,5)] by simp_all
  have no_mark: "of_char (CHR ''#'') \<notin> set (?slash # path @ tid)" using crockford_no_marks [OF tid(2)] assms(6) by auto
  then have share: "share_path (?slash # path @ tid) = ?slash # path @ tid"
    unfolding share_path_def by (intro takeWhile_eq_all_conv [THEN iffD2]) auto
  have "\<not> starts_with (?slash # path @ tid) (lit ''//'')"
  proof (cases "path = []")
    case True
    obtain x xs where x: "tid = x # xs" using tid(1) by (cases tid) auto
    then have "x \<noteq> ?slash" using crockford_no_marks [OF tid(2), of ?slash] by auto
    then show ?thesis by (simp add: starts_with_def True x)
  next
    case False
    then obtain x xs where "path = x # xs" "x \<noteq> ?slash" using assms(9) by (cases path) auto
    then show ?thesis by (simp add: starts_with_def)
  qed
  then have url: "receipt cx job = Inr (?pre @ tid @ lit ''#k=v1.'' @ b64_encode (map unat (uj_share_key job)))"
    unfolding receipt_def assms(3) ok_or_simps and_then_simps Let_def share starts_with_char_def using assms(1,2) by simp
  have "last ?pre = ?slash" using assms(9) by auto
  then have "link_prefix ?pre"
    unfolding link_prefix_def using assms(7,8) by (auto simp: trim_end_matches_def dest: set_dropWhileD)
  from share_link_round_trip [OF this assms(4,5,2) refl] url show ?thesis by blast
qed

theorem receipt_is_a_share_link_witness:
  "\<exists>url. receipt (example_up_ctx\<lparr>ux_encode := \<lambda>b. b64_encode (map unat b)\<rparr>)
       (example_upload_job\<lparr>uj_instance := lit ''https://filebeam.io/'', uj_share_url := Some (lit ''/t/01ARZ3NDEKTSV4RRFFQ69G5FAV'')\<rparr>) = Ok url
     \<and> parse_share_link url = Ok \<lparr>link_id = lit ''01ARZ3NDEKTSV4RRFFQ69G5FAV'',
          link_key = Some (b64_encode (map unat (replicate 32 (3 :: u8))))\<rparr>"
proof -
  have "is_ulid (lit ''01ARZ3NDEKTSV4RRFFQ69G5FAV'')" "list_all scalar (lit ''01ARZ3NDEKTSV4RRFFQ69G5FAV'')"
    by (simp_all add: is_ulid_def str_len_def utf8_char_def ulid_byte_def scalar_def)
  then show ?thesis
    using receipt_is_a_share_link [of "example_up_ctx\<lparr>ux_encode := \<lambda>b. b64_encode (map unat b)\<rparr>"
        "example_upload_job\<lparr>uj_instance := lit ''https://filebeam.io/'', uj_share_url := Some (lit ''/t/01ARZ3NDEKTSV4RRFFQ69G5FAV'')\<rparr>"
        "lit ''t/''" "lit ''01ARZ3NDEKTSV4RRFFQ69G5FAV''"]
    by (simp add: example_upload_job_def)
qed

end
