(* ===== verification/Upload_Run.thy ===== *)
theory Upload_Run
  imports Upload_Stage Upload_Envelope
begin

text \<open>
  A running upload, from \<open>crates/transfer-native/src/protocol/upload.rs\<close>: reconciling a checkpoint with the
  server's ledger, publishing the Turbo descriptor, the loop that overlaps the encryption of one chunk with the
  requests of a bounded window, and finalizing. A turn of the loop names what it wakes up for: a request that
  ended, the producer, a heartbeat or a cancellation; the effects of a request on the shared controller and
  progress are applied when it ends. Shown: a reconciled chunk is one the server published with the same length
  and checksum; the loop ends after twice as many completions as there is work, never has more requests than the
  limit, keeps the checkpoint valid, and when it ends every chunk of every item is recorded once and acknowledged
  and the progress is the size of the transfer.
\<close>

section \<open>Control requests\<close>

definition us_ct :: "'a ct_op \<Rightarrow> 'a us_op" where
  "us_ct m s =
     (case m (os_control (us_open s)) of (r, c) \<Rightarrow> (r, s\<lparr>us_open := (us_open s)\<lparr>os_control := c\<rparr>\<rparr>))"

definition us_control :: "(control \<Rightarrow> control) \<Rightarrow> unit us_op" where
  "us_control f = us_dr (dr_control f)"

definition us_save :: "up_net \<Rightarrow> upload_job \<Rightarrow> unit us_op" where
  "us_save net job = us_dr (save_upload (un_ctx net) job)"

text \<open>\<open>json\<close>: a successful response with a JSON body.\<close>

definition json_response :: "(u8 list \<Rightarrow> 'a option) \<Rightarrow> exchange \<Rightarrow> ('a, dl_error) result" where
  "json_response parse ex =
     and_then (map_err DlHttp (request_headers (ex_sent ex))) (\<lambda>r.
     if \<not> is_success (rs_status r) then Err (DlMsg ''server returned an error'')
     else response_json parse r (ex_body ex))"

fun complete_transfer_from ::
  "rstr \<Rightarrow> rstr \<Rightarrow> rstr option \<Rightarrow> (nat \<Rightarrow> exchange) \<Rightarrow> nat list \<Rightarrow> unit us_op" where
  "complete_transfer_from url manifest key envs [] = lift_st (Err (DlMsg ''could not complete transfer''))"
| "complete_transfer_from url manifest key envs (attempt # rest) =
     (let ex = envs attempt in
      bind_st (us_log_event (CompleteRequest url manifest key)) (\<lambda>_.
      case request_headers (ex_sent ex) of
        Inr r \<Rightarrow>
          if is_success (rs_status r) then lift_st (Ok ())
          else if retryable_status (rs_status r) False then
            bind_st (us_phase ex Retrying) (\<lambda>_.
            bind_st (cancellable_sleep ex (retry_delay_ms (of_nat attempt) (upload_retry_after ex r) (of_nat attempt * 41))) (\<lambda>_.
            complete_transfer_from url manifest key envs rest))
          else lift_st (Err (DlMsg ''could not complete transfer''))
      | Inl e \<Rightarrow>
          if attempt < 4 then
            bind_st (us_phase ex Reconnecting) (\<lambda>_.
            bind_st (cancellable_sleep ex (retry_delay_ms (of_nat attempt) None (of_nat attempt * 41))) (\<lambda>_.
            complete_transfer_from url manifest key envs rest))
          else lift_st (Err (DlHttp e))))"

definition complete_transfer :: "up_net \<Rightarrow> (nat \<Rightarrow> exchange) \<Rightarrow> rstr \<Rightarrow> rstr option \<Rightarrow> unit us_op" where
  "complete_transfer net envs manifest key =
     complete_transfer_from (un_instance net @ lit ''/api/v1/transfers/'' @ un_transfer net @ lit ''/complete'') manifest key envs [0 ..< 5]"

fun publish_descriptor_from :: "rstr \<Rightarrow> rstr \<Rightarrow> (nat \<Rightarrow> exchange) \<Rightarrow> nat list \<Rightarrow> unit us_op" where
  "publish_descriptor_from url descriptor envs [] = lift_st (Err (DlMsg ''could not publish Turbo descriptor''))"
| "publish_descriptor_from url descriptor envs (attempt # rest) =
     (let ex = envs attempt in
      bind_st (us_log_event (DescriptorRequest url descriptor)) (\<lambda>_.
      case request_headers (ex_sent ex) of
        Inr r \<Rightarrow>
          if is_success (rs_status r) then lift_st (Ok ())
          else if retryable_status (rs_status r) False then
            bind_st (us_phase ex Retrying) (\<lambda>_.
            bind_st (cancellable_sleep ex (retry_delay_ms (of_nat attempt) (upload_retry_after ex r) (of_nat attempt * 17))) (\<lambda>_.
            publish_descriptor_from url descriptor envs rest))
          else lift_st (Err (DlMsg ''could not publish Turbo descriptor''))
      | Inl e \<Rightarrow>
          if attempt = 4 then lift_st (Err (DlHttp e))
          else
            bind_st (cancellable_sleep ex (retry_delay_ms (of_nat attempt) None (of_nat attempt * 17))) (\<lambda>_.
            publish_descriptor_from url descriptor envs rest)))"

definition publish_turbo_descriptor :: "up_net \<Rightarrow> (nat \<Rightarrow> exchange) \<Rightarrow> upload_job \<Rightarrow> upload_job us_op" where
  "publish_turbo_descriptor net envs job =
     bind_st (lift_st (ok_or (DlMsg ''Turbo descriptor was not checkpointed'') (uj_encrypted_descriptor job))) (\<lambda>descriptor.
     bind_st (publish_descriptor_from (un_instance net @ lit ''/api/v1/transfers/'' @ un_transfer net @ lit ''/descriptor'')
                descriptor envs [0 ..< 5]) (\<lambda>_.
     lift_st (Ok (job\<lparr>uj_descriptor_published := True\<rparr>))))"

section \<open>The server's ledger\<close>

record published_chunk =
  pb_item_id :: rstr
  pb_position :: u64
  pb_ciphertext_bytes :: u64
  pb_checksum :: rstr

record status_page =
  sg_status :: rstr
  sg_protocol_version :: u8
  sg_chunk_bytes :: u64
  sg_upload_transport :: "upload_transport option"
  sg_chunks :: "published_chunk list"
  sg_next_cursor :: "rstr option"

definition ledger_key :: "chunk_record \<Rightarrow> rstr \<times> u64" where
  "ledger_key c = (ch_item_id c, ch_position c)"

text \<open>Later entries of a map collected from a list win.\<close>

definition expected_chunk :: "upload_job \<Rightarrow> rstr \<times> u64 \<Rightarrow> chunk_record option" where
  "expected_chunk job = map_of (rev (map (\<lambda>c. (ledger_key c, c)) (uj_chunks job)))"

fun adopt_published ::
  "upload_job \<Rightarrow> (rstr \<times> u64) set \<Rightarrow> published_chunk list \<Rightarrow> ((rstr \<times> u64) set, dl_error) result" where
  "adopt_published job published [] = Ok published"
| "adopt_published job published (p # ps) =
     (let key = (pb_item_id p, pb_position p) in
      and_then (ok_or (DlMsg ''server published an unknown upload chunk'') (expected_chunk job key)) (\<lambda>c.
      if pb_ciphertext_bytes p \<noteq> ch_ciphertext_bytes c \<or> pb_checksum p \<noteq> ch_checksum c
      then Err (DlMsg ''server published ciphertext conflicts with local immutable ciphertext'')
      else if key \<in> published then Err (DlMsg ''server upload status repeated a chunk'')
      else adopt_published job (insert key published) ps))"

definition page_differs :: "upload_job \<Rightarrow> status_page \<Rightarrow> bool" where
  "page_differs job page \<longleftrightarrow>
     sg_status page \<noteq> lit ''pending'' \<or> sg_protocol_version page \<noteq> 1 \<or> sg_chunk_bytes page \<noteq> uj_chunk_bytes job"

definition mark_published :: "(rstr \<times> u64) set \<Rightarrow> upload_job \<Rightarrow> upload_job" where
  "mark_published published job =
     (let cs = map (\<lambda>c. if ledger_key c \<in> published then c\<lparr>ch_complete := True, ch_stage := None\<rparr> else c) (uj_chunks job) in
      job\<lparr>uj_chunks := cs, uj_done := completed_bytes cs\<rparr>)"

definition take_transport :: "status_page \<Rightarrow> upload_job \<Rightarrow> upload_job" where
  "take_transport page job = (case sg_upload_transport page of None \<Rightarrow> job | Some t \<Rightarrow> job\<lparr>uj_transport := Some t\<rparr>)"

fun reconcile_pages ::
  "(u8 list \<Rightarrow> status_page option) \<Rightarrow> rstr \<Rightarrow> exchange list \<Rightarrow> rstr option \<Rightarrow> rstr set \<Rightarrow> (rstr \<times> u64) set \<Rightarrow> upload_job \<Rightarrow> up_state
   \<Rightarrow> ((upload_job, dl_error) result \<times> up_state) option" where
  "reconcile_pages parse url exs cursor cursors published job s =
     (if (case cursor of None \<Rightarrow> False | Some after \<Rightarrow> after \<in> cursors)
      then Some (Err (DlMsg ''server upload status pagination repeated a cursor''), s)
      else case exs of
        [] \<Rightarrow> None
      | ex # rest \<Rightarrow>
          (let cursors = cursors \<union> set_option cursor; s1 = s\<lparr>us_log := us_log s @ [StatusRequest url cursor]\<rparr> in
           case json_response parse ex of
             Inl e \<Rightarrow> Some (Err e, s1)
           | Inr page \<Rightarrow>
               if page_differs job page
               then Some (Err (DlMsg ''saved upload no longer matches the pending server transfer''), s1)
               else case adopt_published job published (sg_chunks page) of
                      Inl e \<Rightarrow> Some (Err e, s1)
                    | Inr published' \<Rightarrow>
                        (case sg_next_cursor page of
                           None \<Rightarrow> Some (Ok (mark_published published' (take_transport page job)), s1)
                         | Some c \<Rightarrow> reconcile_pages parse url rest (Some c) cursors published' (take_transport page job) s1)))"

declare reconcile_pages.simps [simp del]

definition reconcile_upload ::
  "(u8 list \<Rightarrow> status_page option) \<Rightarrow> up_net \<Rightarrow> exchange list \<Rightarrow> upload_job \<Rightarrow> up_state \<Rightarrow> ((upload_job, dl_error) result \<times> up_state) option" where
  "reconcile_upload parse net exs job s =
     reconcile_pages parse (uj_instance job @ lit ''/api/v1/transfers/'' @ un_transfer net @ lit ''/upload-status'') exs None {} {} job s"

section \<open>The loop\<close>

datatype upload_wake =
    CancelSeen'
  | Heartbeat "(http_response, http_error) result"
  | Joined nat chunk_env
  | Produced prep_env

record upload_turn =
  ut_check :: bool
  ut_phase :: bool
  ut_wake :: upload_wake

definition pending_chunk :: "upload_job \<Rightarrow> nat list \<Rightarrow> nat \<Rightarrow> bool" where
  "pending_chunk job active i \<longleftrightarrow> \<not> ch_complete (uj_chunks job ! i) \<and> i \<notin> set active"

text \<open>Filling takes the first pending chunks, one after another, while there is room.\<close>

definition fill_window :: "nat \<Rightarrow> upload_job \<Rightarrow> nat list \<Rightarrow> nat list" where
  "fill_window limit job active =
     active @ take (limit - length active) (filter (pending_chunk job active) [0 ..< length (uj_chunks job)])"

definition chunk_ready :: "upload_job \<Rightarrow> nat list \<Rightarrow> bool" where
  "chunk_ready job active \<longleftrightarrow> list_ex (pending_chunk job active) [0 ..< length (uj_chunks job)]"

definition start_producer ::
  "up_net \<Rightarrow> bool \<Rightarrow> upload_turn \<Rightarrow> upload_job \<Rightarrow> nat list \<Rightarrow> prepared_input option \<Rightarrow> prepared_input option us_op" where
  "start_producer net overlap t job active producer =
     (if producer = None \<and> (overlap \<or> active = []) \<and> \<not> chunk_ready job active then
        bind_st (lift_st (next_missing_chunk job)) (\<lambda>found.
        case found of
          None \<Rightarrow> lift_st (Ok None)
        | Some ik \<Rightarrow>
            bind_st (lift_st (chunk_input (un_ctx net) job (un_transfer net) ik)) (\<lambda>input.
            bind_st (if active = [] then us_dr (dr_phase (ut_phase t) Encrypting) else lift_st (Ok ())) (\<lambda>_.
            lift_st (Ok (Some input)))))
      else lift_st (Ok producer))"

definition heartbeat :: "(http_response, http_error) result \<Rightarrow> (unit, dl_error) result" where
  "heartbeat r =
     and_then (map_err DlHttp r) (\<lambda>resp.
     if rs_status resp \<noteq> 204 then Err (DlMsg ''Turbo heartbeat returned an error'') else Ok ())"

definition acknowledge_chunk :: "nat \<Rightarrow> chunk_record \<Rightarrow> upload_job \<Rightarrow> upload_job" where
  "acknowledge_chunk i c job =
     (let cs = (uj_chunks job)[i := c\<lparr>ch_complete := True\<rparr>] in job\<lparr>uj_chunks := cs, uj_done := completed_bytes cs\<rparr>)"

definition show_acknowledged :: "chunk_record \<Rightarrow> upload_job \<Rightarrow> unit us_op" where
  "show_acknowledged c job s =
     (let sending = sp_acknowledged c (us_sending s); os = us_open s in
      (Ok (), s\<lparr>us_sending := sending,
                us_open := os\<lparr>os_control := control_commit (uj_done job) (control_advance (sp_snapshot sending) 0 0 (os_control os))\<rparr>\<rparr>))"

definition finish_chunk :: "up_net \<Rightarrow> nat \<Rightarrow> chunk_record \<Rightarrow> upload_job \<Rightarrow> upload_job us_op" where
  "finish_chunk net i c job =
     (let job = acknowledge_chunk i c job; c = uj_chunks job ! i; cx = un_ctx net in
      bind_st (us_save net job) (\<lambda>_.
      bind_st (show_acknowledged c job) (\<lambda>_.
      bind_st (us_dr (dr_ck (remove_named (ux_store cx) (stage_name c)))) (\<lambda>_.
      bind_st (us_dr (dr_ft (on_fs (ignore (remove_file (ch_artifact c)))))) (\<lambda>_.
      lift_st (Ok job))))))"

definition produce_chunk :: "up_net \<Rightarrow> prep_env \<Rightarrow> prepared_input \<Rightarrow> upload_job \<Rightarrow> upload_job us_op" where
  "produce_chunk net env input job =
     (let cx = un_ctx net in
      bind_st (lift_st (prepare_one (ux_crypto cx) (ux_sha cx) (pe_read env) (pe_metadata env) input)) (\<lambda>pc.
      us_dr (adopt_prepared cx pc job)))"

text \<open>What a turn comes to: the end of the loop, a wake-up that completed nothing, or a completed request or chunk.\<close>

datatype upload_step =
    Ended "(upload_job, dl_error) result" up_state
  | Waiting upload_job "nat list" "prepared_input option" up_state
  | Advanced upload_job "nat list" "prepared_input option" up_state

definition join_chunk ::
  "up_net \<Rightarrow> nat \<Rightarrow> chunk_env \<Rightarrow> upload_job \<Rightarrow> nat list \<Rightarrow> prepared_input option \<Rightarrow> up_state \<Rightarrow> upload_step" where
  "join_chunk net i env job active producer s =
     (case upload_chunk (net\<lparr>un_policy := uj_transport job\<rparr>) env (uj_chunks job ! i) s of
        None \<Rightarrow> Waiting job active producer s
      | Some (Inl e, s1) \<Rightarrow> Ended (Err e) s1
      | Some (Inr c, s1) \<Rightarrow>
          (case finish_chunk net i c job s1 of
             (Inl e, s2) \<Rightarrow> Ended (Err e) s2
           | (Inr job', s2) \<Rightarrow> Advanced job' (remove1 i active) producer s2))"

definition wake_up ::
  "up_net \<Rightarrow> upload_wake \<Rightarrow> upload_job \<Rightarrow> nat list \<Rightarrow> prepared_input option \<Rightarrow> up_state \<Rightarrow> upload_step" where
  "wake_up net w job active producer s =
     (case w of
        CancelSeen' \<Rightarrow> Ended (Err UP_CANCELLED) s
      | Heartbeat r \<Rightarrow>
          (if \<not> uj_turbo job then Waiting job active producer s
           else case heartbeat r of Inl e \<Rightarrow> Ended (Err e) s | Inr _ \<Rightarrow> Waiting job active producer s)
      | Joined k env \<Rightarrow>
          (if length active \<le> k then Waiting job active producer s
           else join_chunk net (active ! k) env job active producer s)
      | Produced env \<Rightarrow>
          (case producer of
             None \<Rightarrow> Waiting job active producer s
           | Some input \<Rightarrow>
               (case produce_chunk net env input job s of
                  (Inl e, s1) \<Rightarrow> Ended (Err e) s1
                | (Inr job', s1) \<Rightarrow> Advanced job' active None s1)))"

definition upload_turn_step ::
  "up_net \<Rightarrow> bool \<Rightarrow> upload_turn \<Rightarrow> upload_job \<Rightarrow> nat list \<Rightarrow> prepared_input option \<Rightarrow> up_state \<Rightarrow> upload_step" where
  "upload_turn_step net overlap t job active producer s =
     (if ut_check t then Ended (Err (DlControl Cancelled)) s
      else
        let active = (if producer = None then fill_window (unat (ac_current (us_adaptive s))) job active else active) in
        case start_producer net overlap t job active producer s of
          (Inl e, s1) \<Rightarrow> Ended (Err e) s1
        | (Inr producer, s1) \<Rightarrow>
            if active = [] \<and> producer = None then Ended (Ok job) s1
            else wake_up net (ut_wake t) job active producer s1)"

fun upload_loop ::
  "up_net \<Rightarrow> bool \<Rightarrow> upload_turn list \<Rightarrow> upload_job \<Rightarrow> nat list \<Rightarrow> prepared_input option \<Rightarrow> up_state
   \<Rightarrow> ((upload_job, dl_error) result \<times> up_state) option" where
  "upload_loop net overlap [] job active producer s = None"
| "upload_loop net overlap (t # ts) job active producer s =
     (case upload_turn_step net overlap t job active producer s of
        Ended r s' \<Rightarrow> Some (r, s')
      | Waiting job' active' producer' s' \<Rightarrow> upload_loop net overlap ts job' active' producer' s'
      | Advanced job' active' producer' s' \<Rightarrow> upload_loop net overlap ts job' active' producer' s')"

text \<open>How many turns completed a request or a chunk.\<close>

fun completions ::
  "up_net \<Rightarrow> bool \<Rightarrow> upload_turn list \<Rightarrow> upload_job \<Rightarrow> nat list \<Rightarrow> prepared_input option \<Rightarrow> up_state \<Rightarrow> nat" where
  "completions net overlap [] job active producer s = 0"
| "completions net overlap (t # ts) job active producer s =
     (case upload_turn_step net overlap t job active producer s of
        Ended r s' \<Rightarrow> 0
      | Waiting job' active' producer' s' \<Rightarrow> completions net overlap ts job' active' producer' s'
      | Advanced job' active' producer' s' \<Rightarrow> Suc (completions net overlap ts job' active' producer' s'))"

section \<open>What the loop keeps\<close>

definition incomplete :: "upload_job \<Rightarrow> nat" where
  "incomplete job = length (filter (\<lambda>c. \<not> ch_complete c) (uj_chunks job))"

definition work_left :: "upload_job \<Rightarrow> nat" where
  "work_left job = 2 * missing_count job + incomplete job"

definition checkpoint_ok :: "up_net \<Rightarrow> upload_job \<Rightarrow> bool" where
  "checkpoint_ok net job \<longleftrightarrow>
     job_valid (ux_decode (un_ctx net)) job \<and> uj_state job \<noteq> lit ''finalizing'' \<and> uj_transfer_id job = Some (un_transfer net)
     \<and> uj_done job = completed_bytes (uj_chunks job)"

definition window_ok :: "upload_job \<Rightarrow> nat list \<Rightarrow> bool" where
  "window_ok job active \<longleftrightarrow>
     distinct active \<and> list_all (\<lambda>i. i < length (uj_chunks job) \<and> \<not> ch_complete (uj_chunks job ! i)) active"

text \<open>The producer works on a chunk that is not recorded yet.\<close>

definition producer_ok :: "up_net \<Rightarrow> upload_job \<Rightarrow> prepared_input option \<Rightarrow> bool" where
  "producer_ok net job producer \<longleftrightarrow>
     (case producer of
        None \<Rightarrow> True
      | Some input \<Rightarrow>
          \<exists>i k. (i, k) \<in> chunk_slots job \<and> (i, k) \<notin> set (map chunk_key (uj_chunks job))
            \<and> chunk_input (un_ctx net) job (un_transfer net) (i, k) = Inr input)"

lemma fill_window_ok: "window_ok job active \<Longrightarrow> window_ok job (fill_window limit job active)"
proof -
  assume ok: "window_ok job active"
  have "set (take n xs) \<subseteq> set xs" for n and xs :: "nat list" by (rule set_take_subset)
  moreover have "distinct (filter (pending_chunk job active) [0 ..< length (uj_chunks job)])" by simp
  ultimately show ?thesis using ok
    unfolding window_ok_def fill_window_def by (fastforce simp: list_all_iff pending_chunk_def distinct_take)
qed

lemma start_producer_Ok:
  assumes "start_producer net overlap t job active producer s = (Inr producer', s')" "producer_ok net job producer"
  shows "producer_ok net job producer'" and "us_log s' = us_log s"
proof -
  show "producer_ok net job producer'"
    using assms next_missing_Some [of job]
    by (auto simp: start_producer_def producer_ok_def chunk_slots_def bind_st_Inr split: if_splits option.splits) blast+
  show "us_log s' = us_log s"
    using assms(1) by (auto simp: start_producer_def bind_st_Inr us_dr_def split: if_splits option.splits prod.splits)
qed

lemma nothing_to_start:
  assumes "start_producer net overlap t job [] None s = (Inr None, s')" "fill_window limit job active = []" "0 < limit"
  shows "next_missing_chunk job = Inr None" and "list_all ch_complete (uj_chunks job)"
proof -
  have active: "active = []" using assms(2) by (simp add: fill_window_def)
  then have "filter (pending_chunk job []) [0 ..< length (uj_chunks job)] = []" using assms(2,3) by (auto simp: fill_window_def)
  then have none: "\<not> pending_chunk job [] i" if "i < length (uj_chunks job)" for i
    using that by (simp add: filter_empty_conv)
  then show "list_all ch_complete (uj_chunks job)" by (auto simp: list_all_length pending_chunk_def)
  have "\<not> chunk_ready job []" using none by (simp add: chunk_ready_def list_ex_iff)
  then show "next_missing_chunk job = Inr None"
    using assms(1) by (auto simp: start_producer_def bind_st_Inr split: option.splits) (metis not_Some_eq surj_pair)
qed

section \<open>The controller stays tuned\<close>

definition tuned :: "u32 \<Rightarrow> up_state \<Rightarrow> bool" where
  "tuned M s \<longleftrightarrow> adaptive_inv (us_adaptive s) \<and> ac_maximum (us_adaptive s) = M"

definition tunes :: "'a us_op \<Rightarrow> bool" where
  "tunes m \<longleftrightarrow> (\<forall>M. keeps (tuned M) m)"

named_theorems tunes_intro \<open>operations that keep the controller in its limits\<close>

lemma tuned_step: "adaptive_inv a \<and> ac_maximum a = M \<Longrightarrow> adaptive_inv (adaptive_step a op) \<and> ac_maximum (adaptive_step a op) = M"
  using ac.step_inv [of a op] adaptive_step_maximum [of a op] by simp

lemma tunesD: "tunes m \<Longrightarrow> m s = (r, s') \<Longrightarrow> tuned M s \<Longrightarrow> tuned M s'"
  unfolding tunes_def using keepsD_run [of "tuned M" m s r s'] by blast

lemma tunes_bind [tunes_intro]: "tunes m \<Longrightarrow> (\<And>x. tunes (f x)) \<Longrightarrow> tunes (bind_st m f)"
  unfolding tunes_def by (intro allI keeps_bind) auto

lemma tunes_lift [tunes_intro]: "tunes (lift_st r)"
  unfolding tunes_def by (simp add: keeps_lift)

lemma tunesI: "(\<And>s. us_adaptive (snd (m s)) = us_adaptive s) \<Longrightarrow> tunes m"
  unfolding tunes_def by (auto intro!: keepsI simp: tuned_def)

lemma tunes_dr [tunes_intro]: "tunes (us_dr m)"
  by (rule tunesI) (simp add: us_dr_def split: prod.split)

lemma tunes_log [tunes_intro]: "tunes (us_log_event e)"
  by (rule tunesI) (simp add: us_log_event_def)

lemma tunes_adapt [tunes_intro]: "tunes (us_adapt (observe n e t))" "tunes (us_adapt (congested t))" "tunes (us_adapt id)"
proof -
  have "keeps (tuned M) (us_adapt f)" if "\<And>a. adaptive_inv a \<and> ac_maximum a = M \<Longrightarrow> adaptive_inv (f a) \<and> ac_maximum (f a) = M" for M f
    using that by (auto intro!: keepsI simp: us_adapt_def tuned_def)
  then show "tunes (us_adapt (observe n e t))" "tunes (us_adapt (congested t))" "tunes (us_adapt id)"
    unfolding tunes_def using tuned_step [of _ _ "Observe n e t"] tuned_step [of _ _ "Congested t"] by auto
qed

lemma tunes_stage_ops [tunes_intro]: "tunes (us_phase ex p)" "tunes (cancellable_sleep ex ms)" "tunes (save_stage net name session)"
    "tunes (load_stage net name)" "tunes (read_artifact net c)"
  unfolding us_phase_def cancellable_sleep_def save_stage_def load_stage_def read_artifact_def Let_def by (intro tunes_intro)+

lemma tunes_retry [tunes_intro]: "tunes (us_adapt f) \<Longrightarrow> tunes (stage_retry ex after jitter f session)"
  unfolding stage_retry_def by (intro tunes_intro)

lemma tunes_complete [tunes_intro]: "tunes (complete_stage_from net base t ks session)"
proof (induction ks arbitrary: session)
  case (Cons k ks)
  show ?case unfolding complete_stage_from.simps
    by (intro tunes_intro) (auto intro!: tunes_intro Cons.IH split: waited.split)
qed (simp add: tunes_lift)

lemma tunes_turn [tunes_intro]: "tunes (stage_turn net policy c body name base t pos session part_len)"
proof -
  have "tunes (finish_turn net name base t session part_len)"
    unfolding finish_turn_def complete_stage_def by (auto intro!: tunes_intro split: prod.split)
  moreover have "tunes (part_answer net policy name ex i n session part_len r)" for ex i n r
    unfolding part_answer_def by (auto intro!: tunes_intro split: prod.split)
  ultimately show ?thesis unfolding stage_turn_def part_turn_def Let_def
    by (auto intro!: tunes_intro split: option.split waited.split)
qed

lemma tunes_begin [tunes_intro]: "tunes (stage_begin net policy c env)"
proof -
  have "tunes (\<lambda>s. (Ok (f s), s))" for f :: "up_state \<Rightarrow> 'a" by (rule tunesI) simp
  then show ?thesis unfolding stage_begin_def stage_identity_def Let_def
    by (intro tunes_intro) (auto intro!: tunes_intro split: prod.split)
qed

lemma stage_loop_tuned:
  "stage_loop net policy c body name base turns action session part_len s = Some (r, s') \<Longrightarrow> tuned M s \<Longrightarrow> tuned M s'"
proof (induction turns arbitrary: action session part_len s)
  case Nil
  then show ?case by (subst (asm) stage_loop.simps) (auto split: stage_action.splits)
next
  case (Cons t ts)
  let ?turn = "stage_turn net policy c body name base t (case action of Continue i \<Rightarrow> Some i | _ \<Rightarrow> None) session part_len s"
  obtain r1 s1 where turn: "?turn = (r1, s1)" by force
  have s1: "tuned M s1" using tunesD [OF tunes_turn turn Cons.prems(2)] .
  show ?case
  proof (cases "action = ActComplete")
    case True
    then show ?thesis using Cons.prems by (subst (asm) stage_loop.simps) auto
  next
    case False
    then have "(case r1 of Inl e \<Rightarrow> Some (Err e, s1) | Inr (Restart session') \<Rightarrow> Some (Ok (Inr session'), s1)
         | Inr (Onward action' session' l) \<Rightarrow> stage_loop net policy c body name base ts action' session' l s1) = Some (r, s')"
      using Cons.prems(1) turn by (subst (asm) stage_loop.simps) (cases action; simp split: sum.splits stage_next.splits)
    then show ?thesis using s1 Cons.IH by (auto split: sum.splits stage_next.splits)
  qed
qed

lemma stage_tuned: "stage net policy c body envs s = Some (r, s') \<Longrightarrow> tuned M s \<Longrightarrow> tuned M s'"
proof (induction envs arbitrary: c s)
  case (Cons env envs)
  obtain r1 s1 where first: "stage_begin net policy c env s = (r1, s1)" by force
  have s1: "tuned M s1" using tunesD [OF tunes_begin first Cons.prems(2)] .
  show ?case
  proof (cases r1)
    case (Inr asp)
    obtain action session part_len where asp: "asp = (action, session, part_len)" by (cases asp)
    show ?thesis using Cons.prems(1) s1 Cons.IH
      by (auto simp: first Inr asp split: option.splits prod.splits sum.splits dest: stage_loop_tuned)
  qed (use Cons.prems(1) s1 first in auto)
qed simp

lemma poll_body_tuned: "tuned M (snd bs) \<Longrightarrow> tuned M (snd (poll_body c policy key pl bs))"
proof -
  assume ok: "tuned M (snd bs)"
  have "tuned M (snd (hand_piece c key t piece bs))" for t piece
    using ok tuned_step [of _ M "Sample key (bs_loaded (fst bs) + of_nat (length piece)) t"]
    by (cases bs) (simp add: hand_piece_def Let_def tuned_def)
  then show ?thesis using ok by (cases bs) (auto simp: poll_body_def Let_def split: option.split sum.split)
qed

lemma direct_loop_tuned:
  "direct_loop c policy key es finished ack bs = Some (r, bs') \<Longrightarrow> tuned M (snd bs) \<Longrightarrow> tuned M (snd bs')"
proof (induction es arbitrary: finished ack bs)
  case (Cons e es)
  show ?case
  proof (cases e)
    case (Polled pl)
    then show ?thesis using Cons.IH [of _ _ "poll_body c policy key pl bs"] Cons.prems poll_body_tuned by simp
  next
    case Updated
    then show ?thesis using Cons.prems Cons.IH [of _ _ "((fst bs)\<lparr>bs_changed := False\<rparr>, snd bs)"] Cons.IH [of _ _ bs]
      by (auto simp: Let_def split: if_splits)
  qed (use Cons.prems Cons.IH [of finished ack bs] in \<open>auto split: if_splits\<close>)
qed simp

lemma direct_done_tuned: "tuned M s \<Longrightarrow> tuned M (s\<lparr>us_adaptive := direct_done c env r (us_adaptive s)\<rparr>)"
  using tuned_step [of "us_adaptive s" M "Forget (de_key env)"]
    tuned_step [of "forget (de_key env) (us_adaptive s)" M "Observe (ch_ciphertext_bytes c) (de_elapsed env) (de_now env)"]
  by (simp add: tuned_def direct_done_def Let_def)

lemma direct_request_tuned:
  assumes "direct_request net policy c env s = Some (r, s')" "tuned M s"
  shows "tuned M s'"
proof -
  have "tuned M (restart_display c s)" using assms(2) by (simp add: restart_display_def Let_def tuned_def)
  moreover obtain r1 s1 where run: "us_dr (dr_ft (fs_io (read_file (ch_artifact c)))) (restart_display c s) = (r1, s1)" by force
  ultimately have "tuned M s1" using tunesD [OF tunes_dr run] by blast
  note read = run this
  show ?thesis
  proof (cases r1)
    case (Inr content)
    let ?b = "\<lparr>bs_file = content, bs_loaded = 0, bs_finished = False, bs_changed = False, bs_abandoned = False\<rparr>"
    let ?s2 = "s1\<lparr>us_log := us_log s1 @ [DirectPut (direct_url net c) (ch_ciphertext_bytes c) (de_key env)]\<rparr>"
    obtain r2 b s3 where loop: "direct_loop c policy (de_key env) (de_events env) False False (?b, ?s2) = Some (r2, b, s3)"
        "s' = s3\<lparr>us_adaptive := direct_done c env r2 (us_adaptive s3)\<rparr>"
      using assms(1) read(1) Inr by (auto simp: direct_request_def Let_def split: option.splits)
    have "tuned M ?s2" using read(2) by (simp add: tuned_def)
    then have "tuned M s3" using direct_loop_tuned [OF loop(1)] by simp
    then show ?thesis unfolding loop(2) by (rule direct_done_tuned)
  qed (use assms(1) read in \<open>auto simp: direct_request_def Let_def\<close>)
qed

lemma retry_direct_tuned: "retry_direct_from net envs ks c s = Some (r, s') \<Longrightarrow> tuned M s \<Longrightarrow> tuned M s'"
proof (induction ks arbitrary: s)
  case (Cons k ks)
  obtain de ex where env: "envs k = (de, ex)" by force
  obtain r1 s1 where phase: "us_phase ex Retrying s = (r1, s1)" by force
  then have s1: "tuned M s1" using tunesD [OF tunes_stage_ops(1)] Cons.prems(2) by blast
  have again: "tuned M s'"
    if "(case bind_st (us_adapt (congested (ex_now ex))) (\<lambda>_. bind_st (us_phase ex Reconnecting) (\<lambda>_. cancellable_sleep ex ms)) s2 of
          (Inl e, s3) \<Rightarrow> Some (Err e, s3) | (Inr _, s3) \<Rightarrow> retry_direct_from net envs ks c s3) = Some (r, s')" "tuned M s2" for ms s2
  proof -
    obtain r3 s3 where wait: "bind_st (us_adapt (congested (ex_now ex))) (\<lambda>_. bind_st (us_phase ex Reconnecting) (\<lambda>_. cancellable_sleep ex ms)) s2 = (r3, s3)"
      by force
    have "tunes (bind_st (us_adapt (congested (ex_now ex))) (\<lambda>_. bind_st (us_phase ex Reconnecting) (\<lambda>_. cancellable_sleep ex ms)))"
      by (intro tunes_intro)
    from tunesD [OF this wait that(2)] show ?thesis using that(1) Cons.IH wait by (auto split: sum.splits)
  qed
  show ?case
  proof (cases r1)
    case (Inr u)
    obtain r2 ab s2 where direct: "direct_request net None c de s1 = Some ((r2, ab), s2)"
      using Cons.prems(1) env phase Inr by (auto split: option.splits)
    note s2 = direct_request_tuned [OF direct s1]
    show ?thesis using Cons.prems(1) env phase Inr direct s2 again [OF _ s2]
      by (auto simp: Let_def split: sum.splits if_splits)
  qed (use Cons.prems(1) env phase s1 in auto)
qed simp

lemma upload_chunk_tuned:
  assumes "upload_chunk net env c s = Some (r, s')" "tuned M s"
  shows "tuned M s'"
proof -
  have disk: "tuned M s'" if "stage_from_disk net policy env c s1 = Some (r, s')" "tuned M s1" for policy s1
  proof -
    obtain r2 s2 where read: "read_artifact net c s1 = (r2, s2)" by force
    with tunesD [OF tunes_stage_ops(5)] that(2) have "tuned M s2" by blast
    then show ?thesis using that(1) read stage_tuned by (auto simp: stage_from_disk_def split: sum.splits)
  qed
  have back': "tuned M s'" if "fall_back net env c s1 = Some (r, s')" "tuned M s1" for s1
  proof (cases "un_policy net")
    case None
    then show ?thesis using that retry_direct_tuned by (simp add: fall_back_def retry_direct_def)
  next
    case (Some policy)
    obtain r2 s2 where phase: "us_phase (ce_fallback env) Reconnecting s1 = (r2, s2)" by force
    with tunesD [OF tunes_stage_ops(1)] that(2) have "tuned M s2" by blast
    moreover from this have "tuned M (restart_display c s2)" by (simp add: restart_display_def Let_def tuned_def)
    ultimately show ?thesis using that(1) Some phase disk by (auto simp: fall_back_def split: sum.splits)
  qed
  have "tuned M s'" if run: "upload_direct net env c s = Some (r, s')"
  proof -
    obtain r2 ab s2 where direct: "direct_request net (un_policy net) c (ce_direct env) s = Some ((r2, ab), s2)"
      using run by (auto simp: upload_direct_def split: option.splits)
    note s2 = direct_request_tuned [OF direct assms(2)]
    show ?thesis using run direct s2 back' by (auto simp: upload_direct_def split: sum.splits if_splits)
  qed
  then show ?thesis using assms disk by (auto simp: upload_chunk_def split: option.splits if_splits)
qed

section \<open>A completed request\<close>

lemma filter_replaced:
  "i < length xs \<Longrightarrow> P (xs ! i) \<Longrightarrow> \<not> P y \<Longrightarrow> length (filter P xs) = Suc (length (filter P (xs[i := y])))"
proof (induction xs arbitrary: i)
  case (Cons x xs)
  then show ?case by (cases i) auto
qed simp

text \<open>A chunk may change its stage and become complete without losing its place.\<close>

definition same_chunk :: "chunk_record \<Rightarrow> chunk_record \<Rightarrow> bool" where
  "same_chunk c c' \<longleftrightarrow> (\<exists>b st. c' = c\<lparr>ch_complete := b, ch_stage := st\<rparr>)"

lemma same_chunk_keeps:
  assumes "same_chunk c c'"
  shows "chunk_key c' = chunk_key c" "ledger_key c' = ledger_key c" "chunk_ok cb items c' = chunk_ok cb items c"
    "ch_plaintext_bytes c' = ch_plaintext_bytes c" "ch_artifact c' = ch_artifact c"
  using assms by (auto simp: same_chunk_def chunk_key_def ledger_key_def chunk_ok_def)

definition with_chunks :: "chunk_record list \<Rightarrow> upload_job \<Rightarrow> upload_job" where
  "with_chunks cs job = job\<lparr>uj_chunks := cs, uj_done := completed_bytes cs\<rparr>"

lemma with_chunks_simps [simp]:
  "uj_chunks (with_chunks cs job) = cs" "uj_done (with_chunks cs job) = completed_bytes cs" "uj_items (with_chunks cs job) = uj_items job"
  "uj_chunk_bytes (with_chunks cs job) = uj_chunk_bytes job" "uj_state (with_chunks cs job) = uj_state job"
  "uj_transfer_id (with_chunks cs job) = uj_transfer_id job" "uj_master_key (with_chunks cs job) = uj_master_key job"
  "uj_total (with_chunks cs job) = uj_total job" "uj_transport (with_chunks cs job) = uj_transport job"
  by (simp_all add: with_chunks_def)

lemma with_chunks_slots [simp]: "chunk_slots (with_chunks cs job) = chunk_slots job"
  by (simp add: chunk_slots_def source_chunks_def)

lemma with_chunks_input [simp]: "chunk_input cx (with_chunks cs job) t ik = chunk_input cx job t ik"
  by (simp add: chunk_input_def)

lemma job_valid_same:
  assumes "job_valid decode job" "uj_state job \<noteq> lit ''finalizing''" "list_all2 same_chunk (uj_chunks job) cs"
  shows "job_valid decode (with_chunks cs job)"
proof -
  have keys: "map chunk_key cs = map chunk_key (uj_chunks job)"
    using assms(3) by (auto simp: list_all2_conv_all_nth list_eq_iff_nth_eq dest: same_chunk_keeps(1))
  have "list_all (chunk_ok (uj_chunk_bytes job) (uj_items job)) cs"
    using assms(1,3) same_chunk_keeps(3) unfolding job_valid_def list_all_length list_all2_conv_all_nth by metis
  then show ?thesis
    using assms(1,2) keys unfolding job_valid_def header_invalid_def secrets_missing_def with_chunks_def by simp
qed

lemma missing_count_same:
  "list_all2 same_chunk (uj_chunks job) cs \<Longrightarrow> missing_count (with_chunks cs job) = missing_count job"
proof -
  assume "list_all2 same_chunk (uj_chunks job) cs"
  then have "map chunk_key cs = map chunk_key (uj_chunks job)"
    by (auto simp: list_all2_conv_all_nth list_eq_iff_nth_eq dest: same_chunk_keeps(1))
  then show ?thesis unfolding missing_count_def with_chunks_slots with_chunks_simps by simp
qed

lemma checkpoint_same:
  assumes "checkpoint_ok net job" "list_all2 same_chunk (uj_chunks job) cs"
  shows "checkpoint_ok net (with_chunks cs job)"
  using job_valid_same [OF _ _ assms(2)] assms(1) unfolding checkpoint_ok_def with_chunks_simps by blast

lemma acknowledge_chunk_with: "acknowledge_chunk i c job = with_chunks ((uj_chunks job)[i := c\<lparr>ch_complete := True\<rparr>]) job"
  by (simp add: acknowledge_chunk_def with_chunks_def Let_def)

lemma same_chunk_refl: "same_chunk c c"
  unfolding same_chunk_def by (rule exI [of _ "ch_complete c"], rule exI [of _ "ch_stage c"]) simp

lemma same_chunk_update:
  assumes "i < length cs" "same_chunk (cs ! i) c"
  shows "list_all2 same_chunk cs (cs[i := c])"
  using assms by (auto simp: list_all2_conv_all_nth nth_list_update same_chunk_refl)

lemma uploaded_same:
  assumes "upload_chunk net env c s = Some (Inr c', s')"
  shows "same_chunk c (c'\<lparr>ch_complete := True\<rparr>)"
proof -
  have "c' = c \<or> (\<exists>session. c' = c\<lparr>ch_stage := Some session\<rparr>)" using upload_chunk_Ok [OF assms] by blast
  then show ?thesis
  proof
    assume "c' = c"
    then have "c'\<lparr>ch_complete := True\<rparr> = c\<lparr>ch_complete := True, ch_stage := ch_stage c\<rparr>" by simp
    then show ?thesis unfolding same_chunk_def by blast
  next
    assume "\<exists>session. c' = c\<lparr>ch_stage := Some session\<rparr>"
    then obtain session where "c'\<lparr>ch_complete := True\<rparr> = c\<lparr>ch_complete := True, ch_stage := Some session\<rparr>" by (cases c) auto
    then show ?thesis unfolding same_chunk_def by blast
  qed
qed

lemma finish_chunk_Ok:
  assumes "finish_chunk net i c job s = (Inr job', s')"
  shows "job' = acknowledge_chunk i c job" and "tuned M s \<Longrightarrow> tuned M s'"
proof -
  show "job' = acknowledge_chunk i c job" using assms by (auto simp: finish_chunk_def Let_def bind_st_Inr)
  have "tunes (show_acknowledged c' job')" for c' job' by (rule tunesI) (simp add: show_acknowledged_def Let_def)
  then have "tunes (finish_chunk net i c job)" unfolding finish_chunk_def us_save_def Let_def by (intro tunes_intro)
  from tunesD [OF this assms] show "tuned M s \<Longrightarrow> tuned M s'" .
qed

lemma joined_ok:
  assumes ok: "checkpoint_ok net job" "window_ok job active" "producer_ok net job producer" and i: "i \<in> set active"
    and same: "same_chunk (uj_chunks job ! i) (c\<lparr>ch_complete := True\<rparr>)" and job': "job' = acknowledge_chunk i c job"
  shows "checkpoint_ok net job'" "window_ok job' (remove1 i active)" "producer_ok net job' producer" "work_left job = Suc (work_left job')"
proof -
  let ?cs = "(uj_chunks job)[i := c\<lparr>ch_complete := True\<rparr>]"
  have bound: "i < length (uj_chunks job)" "\<not> ch_complete (uj_chunks job ! i)" using ok(2) i by (auto simp: window_ok_def list_all_iff)
  have cs: "list_all2 same_chunk (uj_chunks job) ?cs" by (rule same_chunk_update [OF bound(1) same])
  have eq: "job' = with_chunks ?cs job" unfolding job' by (rule acknowledge_chunk_with)
  show "checkpoint_ok net job'" unfolding eq by (rule checkpoint_same [OF ok(1) cs])
  show "window_ok job' (remove1 i active)" using ok(2) unfolding eq
    by (auto simp: window_ok_def list_all_iff nth_list_update distinct_remove1 dest: notin_set_remove1)
  have "map chunk_key ?cs = map chunk_key (uj_chunks job)"
    using cs by (auto simp: list_all2_conv_all_nth list_eq_iff_nth_eq dest: same_chunk_keeps(1))
  then show "producer_ok net job' producer"
    using ok(3) by (simp only: eq producer_ok_def with_chunks_simps with_chunks_slots with_chunks_input)
  have "incomplete job = Suc (incomplete job')" unfolding eq incomplete_def with_chunks_simps
    by (rule filter_replaced) (use bound in simp_all)
  then show "work_left job = Suc (work_left job')" unfolding work_left_def eq missing_count_same [OF cs] by simp
qed

section \<open>A prepared chunk\<close>

lemma produced_ok:
  assumes lib: "libraries_ok (un_ctx net)" and ok: "checkpoint_ok net job" "window_ok job active" "producer_ok net job (Some input)"
    and run: "produce_chunk net env input job s = (Inr job', s')"
  shows "checkpoint_ok net job'" "window_ok job' active" "work_left job = Suc (work_left job')" "tuned M s \<Longrightarrow> tuned M s'"
proof -
  let ?cx = "un_ctx net"
  obtain i k where slot: "(i, k) \<in> chunk_slots job" "(i, k) \<notin> set (map chunk_key (uj_chunks job))"
      "chunk_input ?cx job (un_transfer net) (i, k) = Inr input"
    using ok(3) by (auto simp: producer_ok_def)
  obtain pc where pc: "prepare_one (ux_crypto ?cx) (ux_sha ?cx) (pe_read env) (pe_metadata env) input = Inr pc"
      and adopt: "us_dr (adopt_prepared ?cx pc job) s = (Inr job', s')"
    using run by (auto simp: produce_chunk_def Let_def bind_st_Inr)
  obtain n where n: "i < length (uj_items job)" "source_chunks job i = Inr n" "k < n" using slot(1) by (auto simp: chunk_slots_def)
  have t: "uj_transfer_id job = Some (un_transfer net)" using ok(1) by (simp add: checkpoint_ok_def)
  have l: "aead_correct (ux_crypto ?cx)" "sha_hex (ux_sha ?cx)" using lib by (simp_all add: libraries_ok_def)
  note rec = prepared_record_ok [OF l n t slot(3) pc]
  define c where "c = prepared_record ?cx job pc"
  have fresh: "\<not> ch_complete c" by (simp add: c_def prepared_record_def)
  have job': "job' = job\<lparr>uj_chunks := uj_chunks job @ [c]\<rparr>"
    using adopt by (auto simp: us_dr_def adopt_prepared_def Let_def bind_st_Inr c_def split: prod.splits)
  have key: "chunk_key c \<notin> set (map chunk_key (uj_chunks job))" using slot(2) rec(2) by (simp add: c_def)
  have valid: "job_valid (ux_decode ?cx) job" "uj_state job \<noteq> lit ''finalizing''" using ok(1) unfolding checkpoint_ok_def by blast+
  have "completed_bytes (uj_chunks job @ [c]) = completed_bytes (uj_chunks job)" using fresh by (simp add: completed_bytes_def)
  then show "checkpoint_ok net job'"
    using job_valid_push [OF valid _ key] rec(1) ok(1) unfolding checkpoint_ok_def job' c_def by simp
  show "window_ok job' active" using ok(2) by (auto simp: window_ok_def job' list_all_iff nth_append)
  have "missing_count job = Suc (missing_count job')"
    unfolding job' by (rule missing_count_push [OF slot(1,2)]) (use rec(2) in \<open>simp add: c_def\<close>)
  moreover have "incomplete job' = Suc (incomplete job)" using fresh by (simp add: incomplete_def job')
  ultimately show "work_left job = Suc (work_left job')" by (simp add: work_left_def)
  show "tuned M s \<Longrightarrow> tuned M s'" using tunesD [OF tunes_dr adopt] .
qed

section \<open>All chunks are all bytes\<close>

lemma item_plaintext_sum:
  assumes "upload_chunk_count len cb = Inr n"
  shows "(\<Sum>k \<in> {k. k < n}. plaintext_len len cb k) = len"
proof -
  have n: "0 < unat cb" "unat n = max 1 (ceil_div (unat len) (unat cb))" using assms by (simp_all add: upload_chunk_count_Ok)
  have small: "unat (of_nat k :: u64) = k" if "k < unat n" for k
    using that unsigned_less [of n, where ?'a = nat] by (intro unat_of_nat_less) simp
  have set: "{k. k < n} = of_nat ` {..< unat n}"
  proof
    show "{k. k < n} \<subseteq> of_nat ` {..< unat n}"
    proof
      fix k assume "k \<in> {k. k < n}"
      then show "k \<in> of_nat ` {..< unat n}" by (intro image_eqI [of _ _ "unat k"]) (simp_all add: word_less_nat_alt)
    qed
    show "of_nat ` {..< unat n} \<subseteq> {k. k < n}" by (auto simp: word_less_nat_alt small)
  qed
  have bound: "k < 2 ^ 64" if "k < unat n" for k using that unsigned_less [of n, where ?'a = nat] by simp
  have inj: "inj_on (of_nat :: nat \<Rightarrow> u64) {..< unat n}" by (rule inj_onI) (metis lessThan_iff small)
  have "ceil_div (unat len) (unat cb) \<le> unat n" by (simp add: n(2))
  then have "unat len \<le> unat n * unat cb" using ceil_div_le_iff [OF n(1)] by blast
  have "(\<Sum>k \<in> {k. k < n}. plaintext_len len cb k) = (\<Sum>k < unat n. plaintext_len len cb (of_nat k))"
    unfolding set by (simp add: sum.reindex [OF inj])
  also have "\<dots> = of_nat (\<Sum>k < unat n. unat (plaintext_len len cb (of_nat k)))" by simp
  also have "(\<Sum>k < unat n. unat (plaintext_len len cb (of_nat k))) = (\<Sum>k < unat n. min (unat len - k * unat cb) (unat cb))"
    using plaintext_len_nat [OF bound] by (intro sum.cong) simp_all
  also have "\<dots> = unat len" unfolding chunk_lengths_sum using \<open>unat len \<le> unat n * unat cb\<close> by simp
  finally show ?thesis by simp
qed

lemma all_complete_done:
  assumes "job_valid decode job" "set (map chunk_key (uj_chunks job)) = chunk_slots job" "list_all ch_complete (uj_chunks job)"
  shows "completed_bytes (uj_chunks job) = uj_total job"
proof -
  let ?cb = "uj_chunk_bytes job"
  let ?bytes = "\<lambda>i. src_bytes (ui_source (uj_items job ! i))"
  define n where "n i = (THE n. source_chunks job i = Inr n)" for i
  have counts: "upload_chunk_count (?bytes i) ?cb = Inr (n i)" if "i < length (uj_items job)" for i
    using assms(1) that by (auto simp: job_valid_def item_ok_def n_def source_chunks_def)
  have slots: "chunk_slots job = (SIGMA i : {..< length (uj_items job)}. {k. k < n i})"
    using counts by (auto simp: chunk_slots_def source_chunks_def)
  let ?g = "\<lambda>ik. plaintext_len (?bytes (fst ik)) ?cb (snd ik)"
  have "filter ch_complete (uj_chunks job) = uj_chunks job" using assms(3) by (auto simp: list_all_iff)
  then have "completed_bytes (uj_chunks job) = sum_list (map ch_plaintext_bytes (uj_chunks job))" by (simp add: completed_bytes_def)
  also have "map ch_plaintext_bytes (uj_chunks job) = map ?g (map chunk_key (uj_chunks job))"
    using assms(1) by (auto simp: job_valid_def list_all_iff chunk_ok_def chunk_key_def)
  also have "sum_list (map ?g (map chunk_key (uj_chunks job))) = sum ?g (chunk_slots job)"
    using assms(1) unfolding assms(2) [symmetric] by (intro sum_list_distinct_conv_sum_set) (simp add: job_valid_def)
  also have "\<dots> = (\<Sum>i < length (uj_items job). \<Sum>k \<in> {k. k < n i}. plaintext_len (?bytes i) ?cb k)"
    unfolding slots by (subst sum.Sigma) (simp_all add: case_prod_unfold)
  also have "\<dots> = (\<Sum>i < length (uj_items job). ?bytes i)"
    by (intro sum.cong refl item_plaintext_sum counts) simp
  also have "\<dots> = sum_list (map (\<lambda>item. src_bytes (ui_source item)) (uj_items job))"
    by (simp add: sum_list_sum_nth lessThan_atLeast0)
  also have "\<dots> = uj_total job" using assms(1) by (simp add: job_valid_def header_invalid_def)
  finally show ?thesis .
qed

section \<open>The whole loop\<close>

definition loop_inv :: "up_net \<Rightarrow> u32 \<Rightarrow> upload_job \<Rightarrow> nat list \<Rightarrow> prepared_input option \<Rightarrow> up_state \<Rightarrow> bool" where
  "loop_inv net M job active producer s \<longleftrightarrow>
     checkpoint_ok net job \<and> window_ok job active \<and> producer_ok net job producer \<and> tuned M s \<and> length active \<le> unat M"

lemma join_chunk_inv:
  assumes inv: "loop_inv net M job active producer s" and i: "i \<in> set active"
  shows "case join_chunk net i env job active producer s of
      Ended r s' \<Rightarrow> \<exists>e. r = Inl e
    | Waiting job' active' producer' s' \<Rightarrow> loop_inv net M job' active' producer' s' \<and> job' = job
    | Advanced job' active' producer' s' \<Rightarrow> loop_inv net M job' active' producer' s' \<and> work_left job = Suc (work_left job')"
proof (cases "upload_chunk (net\<lparr>un_policy := uj_transport job\<rparr>) env (uj_chunks job ! i) s")
  case None
  then show ?thesis using inv by (simp add: join_chunk_def)
next
  case (Some rs)
  obtain r s1 where rs: "rs = (r, s1)" by force
  show ?thesis
  proof (cases r)
    case (Inr c)
    note sent = Some [unfolded rs Inr]
    obtain r2 s2 where fin: "finish_chunk net i c job s1 = (r2, s2)" by force
    have ok: "checkpoint_ok net job" "window_ok job active" "producer_ok net job producer" "tuned M s" "length active \<le> unat M"
      using inv by (simp_all add: loop_inv_def)
    show ?thesis
    proof (cases r2)
      case (Inr job')
      note fin' = finish_chunk_Ok [OF fin [unfolded Inr]]
      note next' = joined_ok [OF ok(1-3) i uploaded_same [OF sent] fin'(1)]
      have "tuned M s2" using fin'(2) upload_chunk_tuned [OF sent ok(4)] .
      moreover have "length (remove1 i active) \<le> unat M" using ok(5) by (auto simp: length_remove1)
      ultimately show ?thesis using next' sent fin Inr by (simp add: join_chunk_def loop_inv_def)
    qed (simp add: join_chunk_def sent fin)
  qed (simp add: join_chunk_def Some rs)
qed

lemma wake_up_inv:
  assumes lib: "libraries_ok (un_ctx net)" and inv: "loop_inv net M job active producer s"
  shows "case wake_up net w job active producer s of
      Ended r s' \<Rightarrow> \<exists>e. r = Inl e
    | Waiting job' active' producer' s' \<Rightarrow> loop_inv net M job' active' producer' s' \<and> job' = job
    | Advanced job' active' producer' s' \<Rightarrow> loop_inv net M job' active' producer' s' \<and> work_left job = Suc (work_left job')"
proof (cases w)
  case (Joined k env)
  show ?thesis
  proof (cases "length active \<le> k")
    case False
    then have "active ! k \<in> set active" by simp
    from join_chunk_inv [OF inv this, of env] False Joined show ?thesis by (simp add: wake_up_def)
  qed (use inv Joined in \<open>simp add: wake_up_def\<close>)
next
  case (Produced env)
  show ?thesis
  proof (cases producer)
    case (Some input)
    obtain r s1 where run: "produce_chunk net env input job s = (r, s1)" by force
    show ?thesis
    proof (cases r)
      case (Inr job')
      have ok: "checkpoint_ok net job" "window_ok job active" "producer_ok net job (Some input)" "tuned M s" "length active \<le> unat M"
        using inv Some by (simp_all add: loop_inv_def)
      from produced_ok [OF lib ok(1-3) run [unfolded Inr]] ok(4,5) show ?thesis
        using Produced Some run Inr by (simp add: wake_up_def loop_inv_def producer_ok_def)
    qed (simp add: wake_up_def Produced Some run)
  qed (use inv Produced in \<open>simp add: wake_up_def\<close>)
qed (use inv in \<open>auto simp: wake_up_def split: sum.split\<close>)

lemma fill_window_length:
  "length (fill_window limit job active) \<le> max (length active) limit"
  by (simp add: fill_window_def)

lemma upload_turn_inv:
  assumes lib: "libraries_ok (un_ctx net)" and inv: "loop_inv net M job active producer s"
  shows "case upload_turn_step net overlap t job active producer s of
      Ended r s' \<Rightarrow> (case r of Inl _ \<Rightarrow> True | Inr job' \<Rightarrow>
        job' = job \<and> next_missing_chunk job = Inr None \<and> list_all ch_complete (uj_chunks job))
    | Waiting job' active' producer' s' \<Rightarrow> loop_inv net M job' active' producer' s' \<and> work_left job' = work_left job
    | Advanced job' active' producer' s' \<Rightarrow> loop_inv net M job' active' producer' s' \<and> work_left job = Suc (work_left job')"
proof (cases "ut_check t")
  case False
  let ?limit = "unat (ac_current (us_adaptive s))"
  define active1 where "active1 = (if producer = None then fill_window ?limit job active else active)"
  have ok: "checkpoint_ok net job" "window_ok job active" "producer_ok net job producer" "tuned M s" "length active \<le> unat M"
    using inv by (simp_all add: loop_inv_def)
  have limit: "0 < ?limit" "?limit \<le> unat M"
    using ok(4) by (auto simp: tuned_def adaptive_inv_def limit_ok_def word_le_nat_alt)
  have active1: "window_ok job active1" "length active1 \<le> unat M"
    using ok(2,5) limit fill_window_ok fill_window_length [of ?limit job active] by (auto simp: active1_def max_def split: if_splits)
  obtain r s1 where start: "start_producer net overlap t job active1 producer s = (r, s1)" by force
  have tunes: "tunes (start_producer net overlap t job active1 producer)"
    unfolding start_producer_def by (auto intro!: tunes_intro split: option.split)
  have s1: "tuned M s1" using tunesD [OF tunes start ok(4)] .
  show ?thesis
  proof (cases r)
    case (Inr producer1)
    have p1: "producer_ok net job producer1" using start_producer_Ok(1) [OF start [unfolded Inr] ok(3)] .
    have inv1: "loop_inv net M job active1 producer1 s1" using ok(1) active1 p1 s1 by (simp add: loop_inv_def)
    show ?thesis
    proof (cases "active1 = [] \<and> producer1 = None")
      case True
      then have "producer = None" using start Inr by (auto simp: start_producer_def split: if_splits)
      then have fill: "fill_window ?limit job active = []" using True by (simp add: active1_def)
      have "start_producer net overlap t job [] None s = (Inr None, s1)" using start Inr True \<open>producer = None\<close> by simp
      from nothing_to_start [OF this fill limit(1)] show ?thesis
        using False start Inr True by (simp add: upload_turn_step_def active1_def Let_def)
    next
      case busy: False
      have "upload_turn_step net overlap t job active producer s = wake_up net (ut_wake t) job active1 producer1 s1"
        unfolding upload_turn_step_def Let_def active1_def [symmetric] using False start Inr busy by auto
      then show ?thesis using wake_up_inv [OF lib inv1, of "ut_wake t"] by (auto split: upload_step.splits)
    qed
  qed (use False start in \<open>simp add: upload_turn_step_def active1_def Let_def\<close>)
qed (simp add: upload_turn_step_def)

lemma upload_loop_facts:
  assumes "libraries_ok (un_ctx net)" "loop_inv net M job active producer s"
  shows "completions net overlap ts job active producer s \<le> work_left job
    \<and> (case upload_loop net overlap ts job active producer s of
         Some (Inr job', s') \<Rightarrow> checkpoint_ok net job' \<and> next_missing_chunk job' = Inr None \<and> list_all ch_complete (uj_chunks job')
       | _ \<Rightarrow> True)"
  using assms(2)
proof (induction ts arbitrary: job active producer s)
  case (Cons t ts)
  note turn = upload_turn_inv [OF assms(1) Cons.prems, of overlap t]
  show ?case
  proof (cases "upload_turn_step net overlap t job active producer s")
    case (Ended r s')
    then show ?thesis using turn Cons.prems by (auto simp: loop_inv_def split: sum.splits)
  next
    case (Waiting job' active' producer' s')
    then show ?thesis using turn Cons.IH [of job' active' producer' s'] by simp
  next
    case (Advanced job' active' producer' s')
    then show ?thesis using turn Cons.IH [of job' active' producer' s'] by simp
  qed
qed simp

text \<open>A job with nothing left to do: every chunk of every item is recorded exactly once and acknowledged.\<close>

text \<open>The loop changes nothing of the job but its chunks and its progress.\<close>

lemma finish_chunk_frame: "finish_chunk net i c job s = (Inr job', s') \<Longrightarrow> \<exists>cs n. job' = job\<lparr>uj_chunks := cs, uj_done := n\<rparr>"
  by (auto simp: finish_chunk_def acknowledge_chunk_def Let_def bind_st_Inr)

lemma produce_chunk_frame:
  assumes "produce_chunk net env input job s = (Inr job', s')"
  shows "\<exists>cs n. job' = job\<lparr>uj_chunks := cs, uj_done := n\<rparr>"
proof -
  obtain pc where "us_dr (adopt_prepared (un_ctx net) pc job) s = (Inr job', s')"
    using assms by (auto simp: produce_chunk_def Let_def bind_st_Inr)
  then obtain t t' where "adopt_prepared (un_ctx net) pc job t = (Inr job', t')" by (auto simp: us_dr_def split: prod.splits)
  then obtain cs where "job' = job\<lparr>uj_chunks := cs\<rparr>" unfolding adopt_prepared_def Let_def bind_st_Inr by auto
  then have "job' = job\<lparr>uj_chunks := cs, uj_done := uj_done job\<rparr>" by simp
  then show ?thesis by blast
qed

lemma frame_self: "\<exists>cs n. job = job\<lparr>uj_chunks := cs, uj_done := n\<rparr>"
  by (intro exI [of _ "uj_chunks job"] exI [of _ "uj_done job"]) simp

lemma wake_up_frame:
  "case wake_up net w job active producer s of
     Ended r s' \<Rightarrow> \<exists>e. r = Inl e
   | Waiting job' active' producer' s' \<Rightarrow> job' = job
   | Advanced job' active' producer' s' \<Rightarrow> \<exists>cs n. job' = job\<lparr>uj_chunks := cs, uj_done := n\<rparr>"
proof (cases w)
  case (Joined k env)
  show ?thesis unfolding wake_up_def Joined join_chunk_def
    by (simp split: prod.split sum.split option.split) (blast dest: finish_chunk_frame)
next
  case (Produced env)
  show ?thesis unfolding wake_up_def Produced
    by (simp split: prod.split sum.split option.split) (blast dest: produce_chunk_frame)
qed (simp_all add: wake_up_def split: sum.split)

lemma upload_turn_frame:
  "case upload_turn_step net overlap t job active producer s of
     Ended r s' \<Rightarrow> (case r of Inl e \<Rightarrow> True | Inr job' \<Rightarrow> job' = job)
   | Waiting job' active' producer' s' \<Rightarrow> job' = job
   | Advanced job' active' producer' s' \<Rightarrow> \<exists>cs n. job' = job\<lparr>uj_chunks := cs, uj_done := n\<rparr>"
proof (cases "ut_check t")
  case False
  let ?active = "if producer = None then fill_window (unat (ac_current (us_adaptive s))) job active else active"
  obtain r s1 where start: "start_producer net overlap t job ?active producer s = (r, s1)" by force
  show ?thesis
  proof (cases r)
    case (Inr p)
    show ?thesis
    proof (cases "?active = [] \<and> p = None")
      case True
      then show ?thesis unfolding upload_turn_step_def Let_def start Inr using False by simp
    next
      case more: False
      have step: "upload_turn_step net overlap t job active producer s = wake_up net (ut_wake t) job ?active p s1"
        unfolding upload_turn_step_def Let_def start Inr prod.case sum.case if_not_P [OF False] if_not_P [OF more] by (rule refl)
      show ?thesis unfolding step
        using wake_up_frame [where net = net and w = "ut_wake t" and job = job and active = ?active and producer = p and s = s1]
        by (cases "wake_up net (ut_wake t) job ?active p s1") (simp_all only: upload_step.case, elim exE, simp)
    qed
  qed (use False start in \<open>simp add: upload_turn_step_def Let_def\<close>)
qed (simp add: upload_turn_step_def)

lemma upload_loop_frame:
  "upload_loop net overlap turns job active producer s = Some (Inr job', s') \<Longrightarrow> \<exists>cs n. job' = job\<lparr>uj_chunks := cs, uj_done := n\<rparr>"
proof (induction turns arbitrary: job active producer s)
  case (Cons t ts)
  note frame = upload_turn_frame [where net = net and overlap = overlap and t = t and job = job and active = active and producer = producer and s = s]
  show ?case
  proof (cases "upload_turn_step net overlap t job active producer s")
    case (Ended r s1)
    then have "job' = job" using Cons.prems frame by simp
    then show ?thesis using frame_self by blast
  next
    case (Waiting job1 active1 producer1 s1)
    then show ?thesis using Cons.prems frame Cons.IH by simp
  next
    case (Advanced job1 active1 producer1 s1)
    then obtain cs n where job1: "job1 = job\<lparr>uj_chunks := cs, uj_done := n\<rparr>" using frame by auto
    have "upload_loop net overlap ts job1 active1 producer1 s1 = Some (Inr job', s')" using Cons.prems Advanced by simp
    from Cons.IH [OF this] obtain cs' n' where "job' = job1\<lparr>uj_chunks := cs', uj_done := n'\<rparr>" by (elim exE) (rule that)
    then have "job' = job\<lparr>uj_chunks := cs', uj_done := n'\<rparr>" unfolding job1 by simp
    then show ?thesis by blast
  qed
qed simp

definition whole :: "up_ctx \<Rightarrow> upload_job \<Rightarrow> bool" where
  "whole cx job \<longleftrightarrow>
     validate_job (ux_decode cx) job = Ok ()
     \<and> distinct (map chunk_key (uj_chunks job)) \<and> set (map chunk_key (uj_chunks job)) = chunk_slots job
     \<and> list_all ch_complete (uj_chunks job) \<and> uj_done job = uj_total job"

lemma finished_whole:
  assumes "checkpoint_ok net job" "next_missing_chunk job = Inr None" "list_all ch_complete (uj_chunks job)"
  shows "whole (un_ctx net) job"
proof -
  have valid: "job_valid (ux_decode (un_ctx net)) job" "uj_done job = completed_bytes (uj_chunks job)"
    using assms(1) unfolding checkpoint_ok_def by blast+
  have "distinct (map chunk_key (uj_chunks job))" using valid(1) unfolding job_valid_def by blast
  with next_missing_None [OF valid(1) assms(2)] all_complete_done [OF valid(1) _ assms(3)] valid assms(3)
  show ?thesis unfolding whole_def validate_job_Ok by simp
qed


definition example_up_net :: up_net where
  "example_up_net =
     \<lparr>un_ctx = example_up_ctx, un_instance = [], un_transfer = lit ''t'', un_token = lit ''u'', un_policy = None,
      un_status_of = (\<lambda>_. None)\<rparr>"

definition example_up_state :: up_state where
  "example_up_state =
     \<lparr>us_open = example_open_state, us_adaptive = adaptive_new 4, us_sending = sp_new 0, us_log = []\<rparr>"

lemma example_loop_inv:
  "loop_inv example_up_net (ac_maximum (adaptive_new 4)) example_upload_job [] None example_up_state"
proof -
  have "job_valid (ux_decode example_up_ctx) example_upload_job"
    using example_upload_valid unfolding prepared_so_far_def by blast
  then have "checkpoint_ok example_up_net example_upload_job"
    unfolding checkpoint_ok_def by (simp add: example_up_net_def example_upload_job_def completed_bytes_def)
  then show ?thesis
    unfolding loop_inv_def window_ok_def producer_ok_def tuned_def by (simp add: example_up_state_def adaptive_new_inv)
qed


end
