(* ===== verification/Upload_Finish.thy ===== *)
theory Upload_Finish
  imports Upload_Run
begin

text \<open>
  The phases of an upload around its loop, from \<open>continue_job\<close> in \<open>crates/transfer-native/src/protocol/upload.rs\<close>: the
  Turbo descriptor, the server's ledger and the start before the loop of \<open>Upload_Run\<close>, the memory and the number of
  requests it may use, and the final sizes, the manifest, the completion and the receipt after it. The outcomes of the
  calls are arguments; \<open>None\<close> means that an operation is still running. \<open>Upload_Live\<close> and \<open>Upload_Resume\<close> compose the
  phases and hold what is shown of them.
\<close>

type_synonym 'a us_run = "(up_state, 'a, dl_error) run"

section \<open>Before the loop\<close>

definition net_of :: "up_ctx \<Rightarrow> (u8 list \<Rightarrow> stage_status option) \<Rightarrow> upload_job \<Rightarrow> rstr \<Rightarrow> rstr \<Rightarrow> up_net" where
  "net_of cx status_of job transfer token =
     \<lparr>un_ctx = cx, un_instance = uj_instance job, un_transfer = transfer, un_token = token, un_policy = uj_transport job,
      un_status_of = status_of\<rparr>"

definition build_client :: "bool \<Rightarrow> (unit, dl_error) result" where
  "build_client built = (if built then Ok () else Err (DlMsg ''create HTTP client''))"

definition share_ready :: "rstr \<Rightarrow> unit us_op" where
  "share_ready url = us_control (control_emit (ShareReadyEvent url))"

definition finished_receipt :: "upload_job \<Rightarrow> rstr us_op" where
  "finished_receipt job =
     (case uj_receipt job of
        None \<Rightarrow> lift_st (Err (DlMsg ''completed upload receipt is unavailable''))
      | Some url \<Rightarrow> bind_st (share_ready url) (\<lambda>_. lift_st (Ok url)))"

definition us_prepared :: "up_ctx \<Rightarrow> upload_job \<Rightarrow> bool us_op" where
  "us_prepared cx job = us_dr (dr_ft (on_fs (preparation_complete (ux_sha cx) job)))"

definition check_sources :: "up_ctx \<Rightarrow> (nat \<Rightarrow> fingerprint_env) \<Rightarrow> upload_job \<Rightarrow> unit us_op" where
  "check_sources cx envs job =
     bind_st (us_prepared cx job) (\<lambda>ready.
     lift_st (if ready then Ok () else validate_sources cx envs job))"

definition descriptor_saved :: "up_net \<Rightarrow> up_json \<Rightarrow> bool \<Rightarrow> upload_job \<Rightarrow> upload_job us_op" where
  "descriptor_saved net jx stop job =
     (case uj_encrypted_descriptor job of
        Some _ \<Rightarrow> lift_st (Ok job)
      | None \<Rightarrow>
          bind_st (us_ct (upload_turbo_descriptor (un_ctx net) jx stop (un_transfer net) job)) (\<lambda>d.
          let job = job\<lparr>uj_encrypted_descriptor := Some d\<rparr> in
          bind_st (us_save net job) (\<lambda>_. lift_st (Ok job))))"

definition announce_turbo :: "up_net \<Rightarrow> up_json \<Rightarrow> bool \<Rightarrow> (nat \<Rightarrow> exchange) \<Rightarrow> upload_job \<Rightarrow> upload_job us_op" where
  "announce_turbo net jx stop exs job =
     (if uj_turbo job \<and> \<not> uj_descriptor_published job then
        bind_st (descriptor_saved net jx stop job) (\<lambda>job.
        bind_st (publish_turbo_descriptor net exs job) (\<lambda>job.
        bind_st (us_save net job) (\<lambda>_. lift_st (Ok job))))
      else lift_st (Ok job))"

definition share_turbo :: "up_ctx \<Rightarrow> upload_job \<Rightarrow> unit us_op" where
  "share_turbo cx job =
     (if uj_turbo job \<and> uj_descriptor_published job then bind_st (lift_st (receipt cx job)) share_ready
      else lift_st (Ok ()))"

fun forget_stages :: "up_net \<Rightarrow> chunk_record list \<Rightarrow> unit us_op" where
  "forget_stages net [] = lift_st (Ok ())"
| "forget_stages net (c # cs) =
     bind_st (us_dr (dr_ck (remove_named (ux_store (un_ctx net)) (stage_name c)))) (\<lambda>_. forget_stages net cs)"

definition take_ledger ::
  "(u8 list \<Rightarrow> status_page option) \<Rightarrow> up_net \<Rightarrow> exchange list \<Rightarrow> upload_job \<Rightarrow> upload_job us_run" where
  "take_ledger parse net exs job =
     (if uj_driver job = lit ''http'' \<and> uj_upload_status job then
        and_run (reconcile_upload parse net exs job) (\<lambda>job. at_once (
          bind_st (us_save net job) (\<lambda>_.
          bind_st (forget_stages net (filter ch_complete (uj_chunks job))) (\<lambda>_. lift_st (Ok job)))))
      else at_once (lift_st (Ok job)))"

definition show_start :: "bool \<Rightarrow> upload_job \<Rightarrow> unit us_op" where
  "show_start cancelled job =
     bind_st (us_control (control_totals (uj_total job) (length (uj_items job)))) (\<lambda>_.
     bind_st (us_control (control_advance (uj_done job) 0 0)) (\<lambda>_.
     bind_st (us_control (control_commit (uj_done job))) (\<lambda>_.
     us_dr (dr_phase cancelled Sending))))"

section \<open>The limits of the loop\<close>

definition MEMORY_OVERHEAD_BYTES :: u64 where "MEMORY_OVERHEAD_BYTES = 8 * 1024 * 1024"

definition upload_memory :: "upload_job \<Rightarrow> transfer_settings \<Rightarrow> memory_budget" where
  "upload_memory job settings =
     \<lparr>total_bytes = set_memory_budget settings,
      fixed_overhead_bytes =
        saturating_add MEMORY_OVERHEAD_BYTES (saturating_add (saturating_mul (uj_chunk_bytes job) 2) AEAD_TAG_BYTES),
      plaintext_copies = 1, ciphertext_copies = 1\<rparr>"

definition upload_maximum :: "upload_job \<Rightarrow> transfer_settings \<Rightarrow> u32" where
  "upload_maximum job settings =
     concurrency_limit_with_memory
       (min (case set_max_concurrency settings of None \<Rightarrow> 4 | Some n \<Rightarrow> n) (uj_server_concurrency job))
       (uj_chunk_bytes job) (upload_memory job settings) 8"

definition producer_can_overlap :: "upload_job \<Rightarrow> transfer_settings \<Rightarrow> bool" where
  "producer_can_overlap job settings =
     (let memory = upload_memory job settings in
      case slot_bytes memory (uj_chunk_bytes job) of
        None \<Rightarrow> False
      | Some slot \<Rightarrow> saturating_add (fixed_overhead_bytes memory) slot \<le> total_bytes memory)"

definition send_chunks :: "up_net \<Rightarrow> upload_turn list \<Rightarrow> upload_job \<Rightarrow> upload_job us_run" where
  "send_chunks net turns job s =
     (let settings = ctl_settings (os_control (us_open s)) in
      upload_loop net (producer_can_overlap job settings) turns job [] None
        (s\<lparr>us_adaptive := adaptive_new (upload_maximum job settings), us_sending := sp_new (uj_done job)\<rparr>))"

section \<open>After the loop\<close>

fun settle_items :: "u64 \<Rightarrow> upload_item list \<Rightarrow> (upload_item list, dl_error) result" where
  "settle_items chunk_bytes [] = Ok []"
| "settle_items chunk_bytes (item # rest) =
     (let src = ui_source item in
      and_then (upload_chunk_count (src_bytes src) chunk_bytes) (\<lambda>n.
      and_then (settle_items chunk_bytes rest) (\<lambda>items.
      Ok (item\<lparr>ui_digest := src_digest src, ui_bytes := src_bytes src, ui_chunk_count := n\<rparr> # items))))"

text \<open>The sources are checked again before the items take their final sizes and digests.\<close>

definition settle :: "up_net \<Rightarrow> (nat \<Rightarrow> fingerprint_env) \<Rightarrow> rstr \<Rightarrow> upload_job \<Rightarrow> upload_job us_op" where
  "settle net envs state job =
     bind_st (lift_st (validate_sources (un_ctx net) envs job)) (\<lambda>_.
     bind_st (lift_st (settle_items (uj_chunk_bytes job) (uj_items job))) (\<lambda>items.
     let job = job\<lparr>uj_items := items, uj_state := state\<rparr> in
     bind_st (us_save net job) (\<lambda>_. lift_st (Ok job))))"

definition settle_prepared :: "up_net \<Rightarrow> (nat \<Rightarrow> fingerprint_env) \<Rightarrow> upload_job \<Rightarrow> upload_job us_op" where
  "settle_prepared net envs job =
     (if uj_state job \<noteq> lit ''preparing'' then lift_st (Ok job)
      else
        bind_st (us_prepared (un_ctx net) job) (\<lambda>ready.
        if \<not> ready then lift_st (Err (DlMsg ''ciphertext producer stopped before all chunks were durable''))
        else settle net envs (lit ''sending'') job))"

definition seal_manifest :: "up_net \<Rightarrow> up_json \<Rightarrow> bool \<Rightarrow> upload_job \<Rightarrow> upload_job us_op" where
  "seal_manifest net jx stop job =
     (if uj_state job = lit ''finalizing'' then lift_st (Ok job)
      else
        let job = job\<lparr>uj_state := lit ''finalizing''\<rparr> in
        bind_st (us_ct (encrypted_manifest (un_ctx net) jx stop job)) (\<lambda>m.
        let job = job\<lparr>uj_exact_manifest := Some m\<rparr> in
        bind_st (us_save net job) (\<lambda>_. lift_st (Ok job))))"

definition recipient_key :: "upload_job \<Rightarrow> rstr option" where
  "recipient_key job = Option.bind (uj_recipient job) rc_encrypted_key"

definition request_completion :: "up_net \<Rightarrow> bool \<Rightarrow> (nat \<Rightarrow> exchange) \<Rightarrow> upload_job \<Rightarrow> unit us_op" where
  "request_completion net cancelled exs job =
     bind_st (us_dr (dr_phase cancelled FinalizingPhase)) (\<lambda>_.
     bind_st (lift_st (ok_or (DlMsg ''final upload manifest is unavailable'') (uj_exact_manifest job))) (\<lambda>m.
     complete_transfer net exs m (recipient_key job)))"

definition remove_archive :: "up_net \<Rightarrow> unit us_op" where
  "remove_archive net =
     (let archive = up_dir (un_ctx net) @ [lit ''source.zip''] in
      bind_st (us_dr (dr_ft (on_fs (path_exists archive)))) (\<lambda>found.
      if found then us_dr (dr_ft (fs_io (remove_file archive))) else lift_st (Ok ())))"

definition completed_job :: "rstr \<Rightarrow> upload_job \<Rightarrow> upload_job" where
  "completed_job url job =
     job\<lparr>uj_state := lit ''complete'', uj_receipt := Some url, uj_master_key := [], uj_upload_token := None,
         uj_exact_manifest := None\<rparr>"

definition record_receipt :: "up_net \<Rightarrow> upload_job \<Rightarrow> rstr us_op" where
  "record_receipt net job =
     bind_st (lift_st (receipt (un_ctx net) job)) (\<lambda>url.
     bind_st (us_save net (completed_job url job)) (\<lambda>_.
     bind_st (remove_archive net) (\<lambda>_.
     bind_st (share_ready url) (\<lambda>_. lift_st (Ok url)))))"

end
