(* ===== verification/Upload_Live.thy ===== *)
theory Upload_Live
  imports Upload_Finish Signaling
begin

text \<open>
  Live shares, from \<open>crates/transfer-native/src/protocol/upload.rs\<close>: publishing the manifest of a prepared job and
  \<open>serve_live\<close>, which polls the receiver sessions and answers each of them with a peer of its own. The tasks of the
  peers are in \<open>Signaling\<close> and \<open>Channel\<close>; here a peer is the name of its session until it ends. Shown: there are
  never more than eight peers, no session has two, a session is answered again only after a poll in which it was gone
  or over, and serving ends only with an error.
\<close>

section \<open>Signaling calls\<close>

fun sig_message :: "sig_error \<Rightarrow> string" where
  "sig_message (Msg m) = m"
| "sig_message (Status m _) = m"
| "sig_message (BadDescription _) = ''invalid WebRTC session description''"
| "sig_message (SessionEnded _) = ''WebRTC session ended''"

text \<open>A call with the outcome of its one request.\<close>

definition us_signal :: "Signaling.exchange \<Rightarrow> 'a net_op \<Rightarrow> 'a us_op" where
  "us_signal ex m s =
     (case m \<lparr>net_log = [], net_script = [ex]\<rparr> of
        (r, n) \<Rightarrow> (map_err (\<lambda>e. DlMsg (sig_message e)) r,
                   s\<lparr>us_log := us_log s @ map (\<lambda>q. LiveRequest (rq_url q) (snd (rq_header q))) (net_log n)\<rparr>))"

definition signaling_for :: "upload_job \<Rightarrow> rstr \<Rightarrow> (signaling, dl_error) result" where
  "signaling_for job transfer = map_err (\<lambda>e. DlMsg (sig_message e)) (signaling_new (uj_instance job) transfer)"

section \<open>Serving\<close>

definition WEBRTC_MAX_PEERS :: nat where "WEBRTC_MAX_PEERS = 8"

datatype live_event = Polled "sender_session list" | Spawned rstr

record live_state =
  lv_peers :: "rstr list"
  lv_serving :: "rstr set"
  lv_stopping :: "rstr set"
  lv_answered :: "rstr set"
  lv_stopped :: "rstr set"
  lv_log :: "live_event list"

definition live_start :: live_state where
  "live_start = \<lparr>lv_peers = [], lv_serving = {}, lv_stopping = {}, lv_answered = {}, lv_stopped = {}, lv_log = []\<rparr>"

datatype peer_end = PeerPanicked | PeerServed | PeerBroke

datatype poll_end = PollCancelled | PollElapsed | PollDone Signaling.exchange

record live_round =
  lr_phase :: bool
  lr_poll :: poll_end
  lr_joined :: "(nat \<times> peer_end) list"
  lr_sleep :: bool

definition over :: "sender_session \<Rightarrow> bool" where
  "over session \<longleftrightarrow> Signaling.ss_status session \<in> {lit ''completed'', lit ''cancelled'', lit ''failed''}"

definition listed :: "sender_session list \<Rightarrow> rstr \<Rightarrow> bool" where
  "listed sessions sid \<longleftrightarrow> list_ex (\<lambda>session. Signaling.ss_id session = sid \<and> \<not> over session) sessions"

text \<open>Forgetting the answers of sessions that are gone, and stopping the peers of those that are over.\<close>

definition note_sessions :: "sender_session list \<Rightarrow> live_state \<Rightarrow> live_state" where
  "note_sessions sessions lv =
     lv\<lparr>lv_answered := {i \<in> lv_answered lv. listed sessions i},
        lv_stopped := lv_stopped lv \<union> (lv_stopping lv \<inter> Signaling.ss_id ` set (filter over sessions)),
        lv_log := lv_log lv @ [Polled sessions]\<rparr>"

definition peer_failure :: transfer_event where
  "peer_failure = PeerFailedEvent (lit ''A live receiver disconnected or failed.'')"

text \<open>Joining a task that ended. A task that panicked does not say which session it was for.\<close>

definition reap_peer :: "nat \<times> peer_end \<Rightarrow> live_state \<times> control \<Rightarrow> live_state \<times> control" where
  "reap_peer j lc =
     (let k = fst j; lv = fst lc; c = snd lc in
      if length (lv_peers lv) \<le> k then (lv, c)
      else
        let sid = lv_peers lv ! k;
            left = lv\<lparr>lv_peers := take k (lv_peers lv) @ drop (Suc k) (lv_peers lv)\<rparr>;
            freed = left\<lparr>lv_serving := lv_serving lv - {sid}, lv_stopping := lv_stopping lv - {sid}\<rparr> in
        case snd j of
          PeerPanicked \<Rightarrow> (left, control_emit peer_failure c)
        | PeerServed \<Rightarrow> (freed, c)
        | PeerBroke \<Rightarrow> (freed, control_emit peer_failure c))"

definition passed_over :: "sender_session \<Rightarrow> live_state \<Rightarrow> bool" where
  "passed_over session lv \<longleftrightarrow>
     WEBRTC_MAX_PEERS \<le> length (lv_peers lv) \<or> Signaling.ss_id session \<in> lv_serving lv
     \<or> Signaling.ss_id session \<in> lv_answered lv \<or> ss_offer session = None \<or> over session"

definition spawn_peer :: "rstr \<Rightarrow> live_state \<Rightarrow> live_state" where
  "spawn_peer sid lv =
     lv\<lparr>lv_peers := lv_peers lv @ [sid], lv_serving := insert sid (lv_serving lv), lv_stopping := insert sid (lv_stopping lv),
        lv_answered := insert sid (lv_answered lv), lv_log := lv_log lv @ [Spawned sid]\<rparr>"

fun admit_sessions :: "control \<Rightarrow> ice_server list \<Rightarrow> sender_session list \<Rightarrow> live_state \<Rightarrow> (unit, dl_error) result \<times> live_state" where
  "admit_sessions c servers [] lv = (Ok (), lv)"
| "admit_sessions c servers (session # rest) lv =
     (if passed_over session lv then admit_sessions c servers rest lv
      else case resolve_ice_servers c servers of
             Inl e \<Rightarrow> (Err (DlMsg e), lv)
           | Inr _ \<Rightarrow> admit_sessions c servers rest (spawn_peer (Signaling.ss_id session) lv))"

text \<open>Cancelling stops every peer and waits for all of them.\<close>

definition stop_live_peers :: "live_state \<Rightarrow> live_state" where
  "stop_live_peers lv = lv\<lparr>lv_stopped := lv_stopped lv \<union> lv_stopping lv, lv_peers := [], lv_stopping := {}\<rparr>"

definition live_poll :: "signaling \<Rightarrow> rstr \<Rightarrow> poll_end \<Rightarrow> (sender_session list \<times> ice_server list) us_op" where
  "live_poll sg token p =
     (case p of
        PollCancelled \<Rightarrow> lift_st (Err UP_CANCELLED)
      | PollElapsed \<Rightarrow> lift_st (Err (DlMsg ''timed out polling live receiver sessions''))
      | PollDone ex \<Rightarrow> us_signal ex (sender_sessions sg token))"

definition serve_round ::
  "signaling \<Rightarrow> rstr \<Rightarrow> live_round \<Rightarrow> live_state \<Rightarrow> up_state \<Rightarrow> (unit, dl_error) result \<times> live_state \<times> up_state" where
  "serve_round sg token r lv s =
     (case us_dr (dr_phase (lr_phase r) phase.Waiting) s of
        (Inl e, s1) \<Rightarrow> (Err e, lv, s1)
      | (Inr _, s1) \<Rightarrow>
          (case live_poll sg token (lr_poll r) s1 of
             (Inl e, s2) \<Rightarrow> (Err e, if lr_poll r = PollCancelled then stop_live_peers lv else lv, s2)
           | (Inr (sessions, servers), s2) \<Rightarrow>
               (let c = os_control (us_open s2);
                    (lv1, c1) = fold reap_peer (lr_joined r) (note_sessions sessions lv, c);
                    s3 = s2\<lparr>us_open := (us_open s2)\<lparr>os_control := c1\<rparr>\<rparr> in
                case admit_sessions c1 servers sessions lv1 of
                  (Inl e, lv2) \<Rightarrow> (Err e, lv2, s3)
                | (Inr _, lv2) \<Rightarrow>
                    if lr_sleep r then (Err UP_CANCELLED, stop_live_peers lv2, s3) else (Ok (), lv2, s3))))"

text \<open>\<open>serve_live\<close>; the first component is \<open>None\<close> while it polls.\<close>

fun serve_rounds ::
  "signaling \<Rightarrow> rstr \<Rightarrow> live_round list \<Rightarrow> live_state \<Rightarrow> up_state \<Rightarrow> (rstr, dl_error) result option \<times> live_state \<times> up_state" where
  "serve_rounds sg token [] lv s = (None, lv, s)"
| "serve_rounds sg token (r # rs) lv s =
     (case serve_round sg token r lv s of
        (Inl e, lv', s') \<Rightarrow> (Some (Err e), lv', s')
      | (Inr _, lv', s') \<Rightarrow> serve_rounds sg token rs lv' s')"

definition serve_live :: "upload_job \<Rightarrow> live_round list \<Rightarrow> rstr us_run" where
  "serve_live job rounds s =
     (case and_then (ok_or (DlMsg ''upload was not reserved'') (uj_transfer_id job)) (\<lambda>transfer.
           and_then (ok_or (DlMsg ''upload token is unavailable'') (uj_upload_token job)) (\<lambda>token.
           and_then (signaling_for job transfer) (\<lambda>sg. Ok (sg, token)))) of
        Inl e \<Rightarrow> Some (Err e, s)
      | Inr (sg, token) \<Rightarrow>
          (case serve_rounds sg token rounds live_start s of
             (None, _, _) \<Rightarrow> None
           | (Some r, _, s') \<Rightarrow> Some (r, s')))"

section \<open>The live driver\<close>

record live_env =
  le_prepare :: "prep_env list"
  le_sources :: "nat \<Rightarrow> fingerprint_env"
  le_memory :: bool
  le_publish :: Signaling.exchange
  le_prompts :: bool
  le_consent :: "(bool \<times> recv) list"
  le_rounds :: "live_round list"

definition us_prepare :: "up_ctx \<Rightarrow> prep_env list \<Rightarrow> upload_job \<Rightarrow> upload_job us_run" where
  "us_prepare cx envs job s =
     map_option (\<lambda>(r, t). (r, s\<lparr>us_open := t\<rparr>)) (prepare_live_ciphertext cx envs job (us_open s))"

definition settle_live :: "up_net \<Rightarrow> live_env \<Rightarrow> upload_job \<Rightarrow> upload_job us_op" where
  "settle_live net env job =
     (if uj_state job = lit ''preparing'' then settle net (le_sources env) (lit ''sending'') job else lift_st (Ok job))"

definition exact_manifest :: "up_net \<Rightarrow> up_json \<Rightarrow> bool \<Rightarrow> upload_job \<Rightarrow> upload_job us_op" where
  "exact_manifest net jx stop job =
     (case uj_exact_manifest job of
        Some _ \<Rightarrow> lift_st (Ok job)
      | None \<Rightarrow>
          bind_st (us_ct (encrypted_manifest (un_ctx net) jx stop job)) (\<lambda>m.
          let job = job\<lparr>uj_exact_manifest := Some m\<rparr> in
          bind_st (us_save net job) (\<lambda>_. lift_st (Ok job))))"

definition publish_live :: "up_net \<Rightarrow> up_json \<Rightarrow> live_env \<Rightarrow> upload_job \<Rightarrow> upload_job us_op" where
  "publish_live net jx env job =
     (if uj_state job \<noteq> lit ''sending'' then lift_st (Ok job)
      else
        bind_st (exact_manifest net jx (le_memory env) job) (\<lambda>job.
        bind_st (lift_st (ok_or (DlMsg ''live upload manifest is unavailable'') (uj_exact_manifest job))) (\<lambda>m.
        bind_st (lift_st (signaling_for job (un_transfer net))) (\<lambda>sg.
        bind_st (us_signal (le_publish env) (publish sg (un_token net) m)) (\<lambda>_.
        let job = job\<lparr>uj_state := lit ''serving''\<rparr> in
        bind_st (us_save net job) (\<lambda>_. lift_st (Ok job)))))))"

definition us_consent :: "bool \<Rightarrow> rstr \<Rightarrow> (bool \<times> recv) list \<Rightarrow> unit us_run" where
  "us_consent prompts peer turns s =
     (case request_peer_consent prompts peer turns (os_control (us_open s)) of
        (None, _) \<Rightarrow> None
      | (Some r, c) \<Rightarrow> Some (map_err DlControl r, s\<lparr>us_open := (us_open s)\<lparr>os_control := c\<rparr>\<rparr>))"

definition relay_only :: "up_state \<Rightarrow> bool" where
  "relay_only s = set_webrtc_relay_only (ctl_settings (os_control (us_open s)))"

definition share_live :: "up_net \<Rightarrow> up_json \<Rightarrow> live_env \<Rightarrow> upload_job \<Rightarrow> rstr us_run" where
  "share_live net jx env job =
     and_run (us_prepare (un_ctx net) (le_prepare env) job) (\<lambda>job.
     and_run (at_once (settle_live net env job)) (\<lambda>job.
     and_run (at_once (publish_live net jx env job)) (\<lambda>job.
     and_run (\<lambda>s. if relay_only s then Some (Ok (), s) else us_consent (le_prompts env) (uj_instance job) (le_consent env) s) (\<lambda>_.
     and_run (at_once (bind_st (lift_st (receipt (un_ctx net) job)) share_ready)) (\<lambda>_.
     serve_live job (le_rounds env))))))"

section \<open>Peers\<close>

definition live_ok :: "live_state \<Rightarrow> bool" where
  "live_ok lv \<longleftrightarrow> length (lv_peers lv) \<le> WEBRTC_MAX_PEERS \<and> distinct (lv_peers lv) \<and> set (lv_peers lv) \<subseteq> lv_serving lv"

text \<open>A session that was answered is remembered as long as every later poll lists it.\<close>

definition remembered :: "live_state \<Rightarrow> bool" where
  "remembered lv \<longleftrightarrow>
     (\<forall>i < length (lv_log lv). \<forall>x. lv_log lv ! i = Spawned x
        \<longrightarrow> x \<in> lv_answered lv
          \<or> (\<exists>k. i < k \<and> k < length (lv_log lv) \<and> (\<exists>ss. lv_log lv ! k = Polled ss \<and> \<not> listed ss x)))"

definition answered_once :: "live_event list \<Rightarrow> bool" where
  "answered_once l \<longleftrightarrow>
     (\<forall>i j x. i < j \<and> j < length l \<and> l ! i = Spawned x \<and> l ! j = Spawned x
        \<longrightarrow> (\<exists>k ss. i < k \<and> k < j \<and> l ! k = Polled ss \<and> \<not> listed ss x))"

lemma answered_once_snoc:
  assumes "answered_once l"
    and "\<And>i x. e = Spawned x \<Longrightarrow> i < length l \<Longrightarrow> l ! i = Spawned x \<Longrightarrow> \<exists>k ss. i < k \<and> k < length l \<and> l ! k = Polled ss \<and> \<not> listed ss x"
  shows "answered_once (l @ [e])"
  unfolding answered_once_def
proof (intro allI impI, elim conjE)
  fix i j x assume ij: "i < j" "j < length (l @ [e])" and x: "(l @ [e]) ! i = Spawned x" "(l @ [e]) ! j = Spawned x"
  have i: "i < length l" "l ! i = Spawned x" using ij x(1) by (auto simp: nth_append split: if_splits)
  show "\<exists>k ss. i < k \<and> k < j \<and> (l @ [e]) ! k = Polled ss \<and> \<not> listed ss x"
  proof (cases "j < length l")
    case True
    then obtain k ss where "i < k" "k < j" "l ! k = Polled ss" "\<not> listed ss x"
      using assms(1) ij(1) x(2) i unfolding answered_once_def nth_append if_P [OF True] by blast
    then show ?thesis using True by (intro exI [of _ k] exI [of _ ss]) (simp add: nth_append)
  next
    case False
    then have j: "j = length l" "e = Spawned x" using ij(2) x(2) by (auto simp: nth_append split: if_splits)
    obtain k ss where "i < k" "k < length l" "l ! k = Polled ss" "\<not> listed ss x" using assms(2) [OF j(2) i] by blast
    then show ?thesis using j(1) by (intro exI [of _ k] exI [of _ ss]) (simp add: nth_append)
  qed
qed

lemma remembered_Spawned:
  assumes "remembered lv" "x \<notin> lv_answered lv" "i < length (lv_log lv)" "lv_log lv ! i = Spawned x"
  shows "\<exists>k ss. i < k \<and> k < length (lv_log lv) \<and> lv_log lv ! k = Polled ss \<and> \<not> listed ss x"
  using assms unfolding remembered_def by blast

lemma note_sessions_ok:
  assumes "live_ok lv" "remembered lv" "answered_once (lv_log lv)"
  shows "live_ok (note_sessions ss lv) \<and> remembered (note_sessions ss lv) \<and> answered_once (lv_log (note_sessions ss lv))"
proof -
  have "live_ok (note_sessions ss lv)" using assms(1) by (simp add: live_ok_def note_sessions_def)
  moreover have "remembered (note_sessions ss lv)"
    using assms(2) unfolding remembered_def note_sessions_def
    by (auto simp: nth_append less_Suc_eq)
  moreover have "answered_once (lv_log (note_sessions ss lv))"
    using answered_once_snoc [OF assms(3), of "Polled ss"] by (simp add: note_sessions_def)
  ultimately show ?thesis by blast
qed

lemma spawn_peer_ok:
  assumes "live_ok lv" "remembered lv" "answered_once (lv_log lv)" "\<not> passed_over session lv"
  defines "x \<equiv> Signaling.ss_id session"
  shows "live_ok (spawn_peer x lv) \<and> remembered (spawn_peer x lv) \<and> answered_once (lv_log (spawn_peer x lv))"
proof -
  have "x \<notin> lv_serving lv" "x \<notin> lv_answered lv" "length (lv_peers lv) < WEBRTC_MAX_PEERS"
    using assms(4) by (simp_all add: passed_over_def x_def)
  then have "live_ok (spawn_peer x lv)" using assms(1) by (auto simp: live_ok_def spawn_peer_def)
  moreover have "remembered (spawn_peer x lv)"
    using assms(2) unfolding remembered_def spawn_peer_def
    by (auto simp: nth_append less_Suc_eq split: if_splits)
  moreover have "answered_once (lv_log (spawn_peer x lv))"
    using answered_once_snoc [OF assms(3), of "Spawned x"] remembered_Spawned [OF assms(2) \<open>x \<notin> lv_answered lv\<close>]
    by (simp add: spawn_peer_def)
  ultimately show ?thesis by blast
qed

lemma admit_sessions_ok:
  assumes "live_ok lv" "remembered lv" "answered_once (lv_log lv)" "admit_sessions c servers sessions lv = (r, lv')"
  shows "live_ok lv' \<and> remembered lv' \<and> answered_once (lv_log lv')"
  using assms
proof (induction sessions arbitrary: lv)
  case (Cons session sessions)
  show ?case
  proof (cases "passed_over session lv")
    case True
    then show ?thesis using Cons by simp
  next
    case False
    with spawn_peer_ok [OF Cons.prems(1-3) False] Cons show ?thesis by (auto split: sum.splits)
  qed
qed simp

lemma reap_peers_ok:
  assumes "live_ok lv" "remembered lv" "answered_once (lv_log lv)" "fold reap_peer js (lv, c) = (lv', c')"
  shows "live_ok lv' \<and> remembered lv' \<and> answered_once (lv_log lv')"
  using assms
proof (induction js arbitrary: lv c)
  case (Cons j js)
  obtain lv1 c1 where one: "reap_peer j (lv, c) = (lv1, c1)" by force
  have "live_ok lv1 \<and> lv_answered lv1 = lv_answered lv \<and> lv_log lv1 = lv_log lv"
  proof (cases "length (lv_peers lv) \<le> fst j")
    case False
    define p where "p = lv_peers lv"
    have p: "p = take (fst j) p @ p ! fst j # drop (Suc (fst j)) p" using False by (simp add: p_def id_take_nth_drop)
    have d: "distinct (take (fst j) p @ p ! fst j # drop (Suc (fst j)) p)" using Cons.prems(1) p by (simp add: live_ok_def p_def)
    have "set (take (fst j) p @ drop (Suc (fst j)) p) \<subseteq> lv_serving lv - {p ! fst j}"
      using Cons.prems(1) d set_take_subset [of "fst j" p] set_drop_subset [of "Suc (fst j)" p] by (auto simp: live_ok_def p_def)
    moreover have "length (take (fst j) p @ drop (Suc (fst j)) p) \<le> WEBRTC_MAX_PEERS"
      using Cons.prems(1) by (auto simp: live_ok_def p_def min_def)
    ultimately show ?thesis using one False d
      unfolding p_def by (cases "snd j") (auto simp: reap_peer_def live_ok_def Let_def)
  qed (use one Cons.prems in \<open>simp add: reap_peer_def\<close>)
  then have "live_ok lv1" "remembered lv1" "answered_once (lv_log lv1)" using Cons.prems by (simp_all add: remembered_def)
  from Cons.IH [OF this] Cons.prems(4) one show ?case by simp
qed simp

lemma serve_round_ok:
  assumes "live_ok lv" "remembered lv" "answered_once (lv_log lv)" "serve_round sg token r lv s = (res, lv', s')"
  shows "live_ok lv' \<and> remembered lv' \<and> answered_once (lv_log lv')"
proof -
  have stop: "live_ok (stop_live_peers l) \<and> remembered (stop_live_peers l) \<and> answered_once (lv_log (stop_live_peers l))"
    if "live_ok l" "remembered l" "answered_once (lv_log l)" for l
    using that by (simp add: stop_live_peers_def live_ok_def remembered_def)
  show ?thesis
  proof (cases "us_dr (dr_phase (lr_phase r) phase.Waiting) s")
    case (Pair r1 s1)
    obtain r2 s2 where poll: "live_poll sg token (lr_poll r) s1 = (r2, s2)" by force
    show ?thesis
    proof (cases "is_ok r1 \<and> is_ok r2")
      case True
      then obtain u sessions servers where rs: "r1 = Inr u" "r2 = Inr (sessions, servers)" by (cases r1; cases r2) auto
      obtain lv1 c1 where reap: "fold reap_peer (lr_joined r) (note_sessions sessions lv, os_control (us_open s2)) = (lv1, c1)" by force
      obtain r3 lv2 where admit: "admit_sessions c1 servers sessions lv1 = (r3, lv2)" by force
      note n = note_sessions_ok [OF assms(1-3), of sessions]
      have 1: "live_ok lv1 \<and> remembered lv1 \<and> answered_once (lv_log lv1)" by (rule reap_peers_ok [OF _ _ _ reap]) (use n in simp_all)
      have 2: "live_ok lv2 \<and> remembered lv2 \<and> answered_once (lv_log lv2)" by (rule admit_sessions_ok [OF _ _ _ admit]) (use 1 in simp_all)
      have "lv' = lv2 \<or> lv' = stop_live_peers lv2"
        using assms(4) unfolding serve_round_def Pair poll rs prod.case sum.case Let_def reap admit
        by (auto split: sum.splits if_splits)
      then show ?thesis using 2 stop by blast
    next
      case False
      then have "lv' = lv \<or> lv' = stop_live_peers lv"
        using assms(4) unfolding serve_round_def Pair poll prod.case by (auto split: sum.splits if_splits)
      then show ?thesis using assms(1-3) stop by blast
    qed
  qed
qed

lemma serve_rounds_ok:
  assumes "live_ok lv" "remembered lv" "answered_once (lv_log lv)" "serve_rounds sg token rs lv s = (res, lv', s')"
  shows "live_ok lv' \<and> remembered lv' \<and> answered_once (lv_log lv') \<and> (\<forall>url. res \<noteq> Some (Inr url))"
  using assms
proof (induction rs arbitrary: lv s)
  case (Cons r rs)
  obtain r1 lv1 s1 where one: "serve_round sg token r lv s = (r1, lv1, s1)" by (cases "serve_round sg token r lv s") auto
  note ok = serve_round_ok [OF Cons.prems(1-3) one]
  show ?case
  proof (cases r1)
    case (Inl e)
    then show ?thesis using ok one Cons.prems by auto
  next
    case (Inr u)
    then show ?thesis using ok one Cons.prems Cons.IH [of lv1 s1] by auto
  qed
qed simp

text \<open>C23. Serving a live share, for whatever sessions the polls report and however the peers end: there are never more than
  eight peers, and no two for the same session; when a session is answered a second time, some poll in between did not
  list it as running; and serving ends only with an error, never with a result.\<close>

theorem live_sessions_answered_once:
  "case serve_rounds sg token rounds live_start s of
     (res, lv, _) \<Rightarrow>
       length (lv_peers lv) \<le> 8 \<and> distinct (lv_peers lv)
       \<and> list_all (\<lambda>i. list_all (\<lambda>j. case (lv_log lv ! i, lv_log lv ! j) of
             (Spawned x, Spawned y) \<Rightarrow>
               (if i < j \<and> x = y
                then \<exists>k ss. i < k \<and> k < j \<and> lv_log lv ! k = Polled ss \<and> \<not> listed ss x else True)
           | _ \<Rightarrow> True) [0 ..< length (lv_log lv)]) [0 ..< length (lv_log lv)]
       \<and> (case res of Some (Inr _) \<Rightarrow> False | _ \<Rightarrow> True)"
proof -
  obtain res lv s' where run: "serve_rounds sg token rounds live_start s = (res, lv, s')"
    by (cases "serve_rounds sg token rounds live_start s") auto
  have "live_ok live_start" "remembered live_start" "answered_once (lv_log live_start)"
    by (simp_all add: live_ok_def remembered_def answered_once_def live_start_def)
  note facts = serve_rounds_ok [OF this run]
  then have once: "answered_once (lv_log lv)" by blast
  have "case (lv_log lv ! i, lv_log lv ! j) of
             (Spawned x, Spawned y) \<Rightarrow>
               (if i < j \<and> x = y
                then \<exists>k ss. i < k \<and> k < j \<and> lv_log lv ! k = Polled ss \<and> \<not> listed ss x else True)
           | _ \<Rightarrow> True" if "j < length (lv_log lv)" for i j
    using once that unfolding answered_once_def by (auto split: live_event.split)
  then show ?thesis using facts unfolding run prod.case
    by (auto simp: live_ok_def WEBRTC_MAX_PEERS_def list_all_iff split: option.split sum.split)
qed

end
