(* ===== verification/Upload_Resume.thy ===== *)
theory Upload_Resume
  imports Upload_Live
begin

text \<open>
  Continuing, reconciling, preparing and revoking a saved upload, from
  \<open>crates/transfer-native/src/protocol/upload.rs\<close>: \<open>continue_job\<close> with both drivers, \<open>resume\<close>,
  \<open>prepare_background_job\<close>, \<open>reconcile_background\<close>, \<open>revoke\<close> and \<open>end_live\<close>. Shown: the server's ledger completes only
  chunks it published with the same length and checksum; an upload that returns a link has every chunk of every item
  recorded once and acknowledged, and its completion was requested with the manifest of that job; an upload whose
  completion was accepted but not recorded can never be resumed.
\<close>

section \<open>The store\<close>

text \<open>A store that goes out of scope releases its lock.\<close>

definition drop_store :: "up_ctx \<Rightarrow> up_state \<Rightarrow> up_state" where
  "drop_store cx s =
     (let os = us_open s in s\<lparr>us_open := os\<lparr>os_fs := unlock (up_dir cx @ [LOCK_NAME]) (os_fs os)\<rparr>\<rparr>)"

definition owning :: "up_ctx \<Rightarrow> 'a us_op \<Rightarrow> 'a us_op" where
  "owning cx m s = (case m s of (r, s') \<Rightarrow> (r, drop_store cx s'))"

definition owning_run :: "up_ctx \<Rightarrow> 'a us_run \<Rightarrow> 'a us_run" where
  "owning_run cx m s = map_option (\<lambda>(r, s'). (r, drop_store cx s')) (m s)"

section \<open>Continuing\<close>

record up_parse =
  pr_stage :: "u8 list \<Rightarrow> stage_status option"
  pr_page :: "u8 list \<Rightarrow> status_page option"

record continue_env =
  ce_unlock :: unlock_env
  ce_sources :: "nat \<Rightarrow> fingerprint_env"
  ce_client :: bool
  ce_descriptor_memory :: bool
  ce_descriptor :: "nat \<Rightarrow> Upload_Stage.exchange"
  ce_pages :: "Upload_Stage.exchange list"
  ce_start :: bool
  ce_live :: live_env
  ce_turns :: "upload_turn list"
  ce_sources_again :: "nat \<Rightarrow> fingerprint_env"
  ce_manifest_memory :: bool
  ce_finalizing :: bool
  ce_complete :: "nat \<Rightarrow> Upload_Stage.exchange"

definition reserved :: "upload_job \<Rightarrow> (rstr \<times> rstr, dl_error) result" where
  "reserved job =
     and_then (ok_or (DlMsg ''upload was not reserved yet'') (uj_transfer_id job)) (\<lambda>transfer.
     and_then (ok_or (DlMsg ''upload token is unavailable'') (uj_upload_token job)) (\<lambda>token. Ok (transfer, token)))"

definition open_job :: "up_ctx \<Rightarrow> up_json \<Rightarrow> up_parse \<Rightarrow> continue_env \<Rightarrow> upload_job \<Rightarrow> (up_net \<times> upload_job) us_op" where
  "open_job cx jx pr env job =
     bind_st (us_ct (unlock_job cx (ce_unlock env) job)) (\<lambda>job.
     bind_st (check_sources cx (ce_sources env) job) (\<lambda>_.
     bind_st (lift_st (reserved job)) (\<lambda>(transfer, token).
     bind_st (lift_st (build_client (ce_client env))) (\<lambda>_.
     let net = net_of cx (pr_stage pr) job transfer token in
     bind_st (announce_turbo net jx (ce_descriptor_memory env) (ce_descriptor env) job) (\<lambda>job.
     bind_st (share_turbo cx job) (\<lambda>_. lift_st (Ok (net, job))))))))"

definition finish_upload :: "up_net \<Rightarrow> up_json \<Rightarrow> continue_env \<Rightarrow> upload_job \<Rightarrow> rstr us_op" where
  "finish_upload net jx env job =
     bind_st (settle_prepared net (ce_sources_again env) job) (\<lambda>job.
     bind_st (seal_manifest net jx (ce_manifest_memory env) job) (\<lambda>job.
     bind_st (request_completion net (ce_finalizing env) (ce_complete env) job) (\<lambda>_.
     record_receipt net job)))"

definition run_job :: "up_ctx \<Rightarrow> up_json \<Rightarrow> up_parse \<Rightarrow> continue_env \<Rightarrow> upload_job \<Rightarrow> rstr us_run" where
  "run_job cx jx pr env job =
     and_run (at_once (open_job cx jx pr env job)) (\<lambda>(net, job).
     and_run (take_ledger (pr_page pr) net (ce_pages env) job) (\<lambda>job.
     and_run (at_once (show_start (ce_start env) job)) (\<lambda>_.
     if uj_driver job = lit ''webrtc'' then share_live net jx (ce_live env) job
     else and_run (send_chunks net (ce_turns env) job) (\<lambda>job. at_once (finish_upload net jx env job)))))"

definition continue_job :: "up_ctx \<Rightarrow> up_json \<Rightarrow> up_parse \<Rightarrow> continue_env \<Rightarrow> upload_job \<Rightarrow> rstr us_run" where
  "continue_job cx jx pr env job =
     and_run (at_once (lift_st (validate_job (ux_decode cx) job))) (\<lambda>_.
     if uj_state job = lit ''complete'' then at_once (finished_receipt job)
     else if uj_state job = lit ''ended'' then at_once (lift_st (receipt cx job))
     else run_job cx jx pr env job)"

definition resume_upload :: "up_ctx \<Rightarrow> up_json \<Rightarrow> up_parse \<Rightarrow> continue_env \<Rightarrow> rstr us_run" where
  "resume_upload cx jx pr env = owning_run cx (and_run (at_once (us_dr (load_upload cx))) (continue_job cx jx pr env))"

section \<open>Execution by the host\<close>

definition load_valid :: "up_ctx \<Rightarrow> upload_job us_op" where
  "load_valid cx =
     bind_st (us_dr (load_upload cx)) (\<lambda>job.
     bind_st (lift_st (validate_job (ux_decode cx) job)) (\<lambda>_. lift_st (Ok job)))"

definition announce_background :: "up_net \<Rightarrow> up_json \<Rightarrow> continue_env \<Rightarrow> upload_job \<Rightarrow> upload_job us_op" where
  "announce_background net jx env job =
     (if uj_turbo job \<and> \<not> uj_descriptor_published job then
        bind_st (descriptor_saved net jx (ce_descriptor_memory env) job) (\<lambda>job.
        bind_st (lift_st (build_client (ce_client env))) (\<lambda>_.
        bind_st (publish_turbo_descriptor net (ce_descriptor env) job) (\<lambda>job.
        bind_st (us_save net job) (\<lambda>_.
        bind_st (lift_st (receipt (un_ctx net) job)) (\<lambda>url.
        bind_st (share_ready url) (\<lambda>_. lift_st (Ok job)))))))
      else lift_st (Ok job))"

definition prepare_background_job :: "up_ctx \<Rightarrow> up_json \<Rightarrow> up_parse \<Rightarrow> continue_env \<Rightarrow> upload_job \<Rightarrow> upload_job us_run" where
  "prepare_background_job cx jx pr env job =
     and_run (at_once (bind_st (us_ct (unlock_job cx (ce_unlock env) job)) (\<lambda>job.
       bind_st (lift_st (and_then (ok_or (DlMsg ''background upload was not reserved'') (uj_transfer_id job)) (\<lambda>transfer.
                         and_then (ok_or (DlMsg ''background upload token is unavailable'') (uj_upload_token job)) (\<lambda>token.
                         Ok (transfer, token))))) (\<lambda>(transfer, token).
       let net = net_of cx (pr_stage pr) job transfer token in
       bind_st (announce_background net jx env job) (\<lambda>job.
       bind_st (lift_st (validate_sources cx (ce_sources env) job)) (\<lambda>_. lift_st (Ok (net, job)))))))) (\<lambda>(net, job).
     and_run (us_prepare cx (le_prepare (ce_live env)) job) (\<lambda>job.
     at_once (settle net (ce_sources_again env) (lit ''awaiting-execution'') job)))"

fun drop_artifacts :: "chunk_record list \<Rightarrow> unit us_op" where
  "drop_artifacts [] = lift_st (Ok ())"
| "drop_artifacts (c # cs) =
     bind_st (us_dr (dr_ft (on_fs (ignore (remove_file (ch_artifact c)))))) (\<lambda>_. drop_artifacts cs)"

definition reconcile_background :: "up_ctx \<Rightarrow> up_parse \<Rightarrow> continue_env \<Rightarrow> unit us_run" where
  "reconcile_background cx pr env =
     owning_run cx (and_run (at_once (bind_st (load_valid cx) (\<lambda>job.
       if \<not> upload_eligible job \<or> \<not> uj_upload_status job
       then lift_st (Err (DlMsg ''saved upload cannot reconcile external completion status''))
       else
         bind_st (lift_st (and_then (ok_or (DlMsg ''upload was not reserved'') (uj_transfer_id job)) (\<lambda>transfer.
                           and_then (ok_or (DlMsg ''upload token is unavailable'') (uj_upload_token job)) (\<lambda>token.
                           and_then (build_client (ce_client env)) (\<lambda>_. Ok (transfer, token)))))) (\<lambda>(transfer, token).
         lift_st (Ok (net_of cx (pr_stage pr) job transfer token, job)))))) (\<lambda>(net, job).
     and_run (reconcile_upload (pr_page pr) net (ce_pages env) job) (\<lambda>job.
     at_once (bind_st (us_save net job) (\<lambda>_. drop_artifacts (filter ch_complete (uj_chunks job)))))))"

section \<open>Giving up\<close>

text \<open>\<open>home\<close> is the directory of the jobs and \<open>fresh\<close> the new identifier; the lock goes with the store.\<close>

record revoke_env =
  re_client :: bool
  re_answer :: Upload_Stage.exchange
  re_home :: path
  re_fresh :: rstr

definition discard_revoked :: "up_ctx \<Rightarrow> revoke_env \<Rightarrow> upload_job \<Rightarrow> unit us_op" where
  "discard_revoked cx env job =
     (let directory = up_dir cx;
          discarded = re_home env @ [lit ''.'' @ uj_id job @ lit ''.revoked-'' @ re_fresh env] in
      bind_st (us_dr (dr_ft (fs_io (rename_dir directory discarded)))) (\<lambda>_ s.
      us_dr (dr_ft (fs_io (remove_dir_all discarded))) (drop_store cx s)))"

definition revoke :: "up_ctx \<Rightarrow> revoke_env \<Rightarrow> unit us_op" where
  "revoke cx env =
     owning cx (bind_st (load_valid cx) (\<lambda>job.
     bind_st (lift_st (ok_or (DlMsg ''upload was not reserved yet'') (uj_transfer_id job))) (\<lambda>transfer.
     bind_st (lift_st (ok_or (DlMsg ''delete token is unavailable'') (uj_delete_token job))) (\<lambda>token.
     bind_st (lift_st (build_client (re_client env))) (\<lambda>_.
     bind_st (us_log_event (DeleteRequest (uj_instance job @ lit ''/api/v1/transfers/'' @ transfer) token)) (\<lambda>_.
     bind_st (lift_st (map_err DlHttp (request_headers (ex_sent (re_answer env))))) (\<lambda>r.
     if rs_status r \<noteq> 202 then lift_st (Err (DlMsg ''could not revoke transfer''))
     else discard_revoked cx env job)))))))"

definition end_live :: "up_ctx \<Rightarrow> bool \<Rightarrow> Signaling.exchange \<Rightarrow> unit us_op" where
  "end_live cx built ex =
     owning cx (bind_st (load_valid cx) (\<lambda>job.
     if uj_driver job \<noteq> lit ''webrtc'' then lift_st (Err (DlMsg ''saved transfer is not a live share''))
     else
       bind_st (lift_st (reserved job)) (\<lambda>(transfer, token).
       bind_st (lift_st (build_client built)) (\<lambda>_.
       bind_st (lift_st (signaling_for job transfer)) (\<lambda>sg.
       bind_st (us_signal ex (sig_end sg token)) (\<lambda>_.
       us_dr (save_upload cx (job\<lparr>uj_state := lit ''ended''\<rparr>))))))))"

section \<open>The ledger\<close>

definition matches :: "published_chunk \<Rightarrow> chunk_record \<Rightarrow> bool" where
  "matches p c \<longleftrightarrow>
     ledger_key c = (pb_item_id p, pb_position p) \<and> pb_ciphertext_bytes p = ch_ciphertext_bytes c \<and> pb_checksum p = ch_checksum c"

definition on_page :: "(u8 list \<Rightarrow> status_page option) \<Rightarrow> Upload_Stage.exchange list \<Rightarrow> published_chunk \<Rightarrow> bool" where
  "on_page parse exs p \<longleftrightarrow> (\<exists>ex \<in> set exs. \<exists>page. json_response parse ex = Inr page \<and> p \<in> set (sg_chunks page))"

text \<open>What a set of adopted keys rests on.\<close>

definition ledger_backed :: "(published_chunk \<Rightarrow> bool) \<Rightarrow> upload_job \<Rightarrow> (rstr \<times> u64) set \<Rightarrow> bool" where
  "ledger_backed A job P \<longleftrightarrow> (\<forall>key \<in> P. \<exists>p c. A p \<and> expected_chunk job key = Some c \<and> key = (pb_item_id p, pb_position p)
     \<and> pb_ciphertext_bytes p = ch_ciphertext_bytes c \<and> pb_checksum p = ch_checksum c)"

lemma adopt_published_backed:
  assumes "adopt_published job P ps = Inr P'" "ledger_backed A job P" "\<And>p. p \<in> set ps \<Longrightarrow> A p"
  shows "ledger_backed A job P'"
  using assms
proof (induction ps arbitrary: P)
  case (Cons p ps)
  from Cons.prems(1) obtain c where c: "expected_chunk job (pb_item_id p, pb_position p) = Some c"
      "pb_ciphertext_bytes p = ch_ciphertext_bytes c" "pb_checksum p = ch_checksum c"
      "adopt_published job (insert (pb_item_id p, pb_position p) P) ps = Inr P'"
    by (auto simp: Let_def and_then_eq_Inr split: if_splits)
  have "ledger_backed A job (insert (pb_item_id p, pb_position p) P)"
    unfolding ledger_backed_def
  proof (intro ballI, elim insertE)
    fix key assume "key = (pb_item_id p, pb_position p)"
    then show "\<exists>p c. A p \<and> expected_chunk job key = Some c \<and> key = (pb_item_id p, pb_position p)
        \<and> pb_ciphertext_bytes p = ch_ciphertext_bytes c \<and> pb_checksum p = ch_checksum c"
      by (intro exI [of _ p] exI [of _ c]) (use Cons.prems(3) c in simp)
  qed (use Cons.prems(2) in \<open>auto simp: ledger_backed_def\<close>)
  from Cons.IH [OF c(4) this] Cons.prems(3) show ?case by simp
qed simp

lemma expected_transport: "expected_chunk (job\<lparr>uj_transport := t\<rparr>) = expected_chunk job"
  by (simp add: expected_chunk_def)

lemma take_transport_cases: "\<exists>t. take_transport page job = job\<lparr>uj_transport := t\<rparr>"
  unfolding take_transport_def by (cases "sg_upload_transport page") (auto intro: exI [of _ "uj_transport job"])

lemma reconcile_pages_Cons:
  assumes "reconcile_pages parse url (ex # exs) cursor cursors P job s = Some (Inr job', s')"
  obtains page P1 where "json_response parse ex = Inr page" "adopt_published job P (sg_chunks page) = Inr P1"
    "sg_next_cursor page = None" "job' = mark_published P1 (take_transport page job)"
  | page P1 c cs s1 where "json_response parse ex = Inr page" "adopt_published job P (sg_chunks page) = Inr P1"
    "sg_next_cursor page = Some c" "reconcile_pages parse url exs (Some c) cs P1 (take_transport page job) s1 = Some (Inr job', s')"
proof -
  have "reconcile_pages parse url (ex # exs) cursor cursors P job s =
     (if (case cursor of None \<Rightarrow> False | Some after \<Rightarrow> after \<in> cursors)
      then Some (Err (DlMsg ''server upload status pagination repeated a cursor''), s)
      else
          (let cursors = cursors \<union> set_option cursor; s1 = s\<lparr>us_log := us_log s @ [StatusRequest url cursor]\<rparr> in
           case json_response parse ex of
             Inl e \<Rightarrow> Some (Err e, s1)
           | Inr page \<Rightarrow>
               if page_differs job page
               then Some (Err (DlMsg ''saved upload no longer matches the pending server transfer''), s1)
               else case adopt_published job P (sg_chunks page) of
                      Inl e \<Rightarrow> Some (Err e, s1)
                    | Inr published' \<Rightarrow>
                        (case sg_next_cursor page of
                           None \<Rightarrow> Some (Ok (mark_published published' (take_transport page job)), s1)
                         | Some c \<Rightarrow> reconcile_pages parse url exs (Some c) cursors published' (take_transport page job) s1)))"
    by (subst reconcile_pages.simps) (simp only: list.case)
  with assms show thesis using that by (auto simp: Let_def split: if_splits sum.splits option.splits)
qed

lemma reconcile_pages_Ok:
  assumes "reconcile_pages parse url exs cursor cursors P job s = Some (Inr job', s')" "ledger_backed A job P" "\<And>p. on_page parse exs p \<Longrightarrow> A p"
  shows "\<exists>t P'. job' = mark_published P' (job\<lparr>uj_transport := t\<rparr>) \<and> ledger_backed A job P'"
  using assms
proof (induction exs arbitrary: cursor cursors P job s)
  case Nil
  show ?case using Nil.prems(1) by (subst (asm) reconcile_pages.simps) (simp split: if_splits)
next
  case (Cons ex exs)
  have P1: "ledger_backed A job P1" if "json_response parse ex = Inr page" "adopt_published job P (sg_chunks page) = Inr P1" for page P1
    by (rule adopt_published_backed [OF that(2) Cons.prems(2)]) (use Cons.prems(3) that(1) in \<open>auto simp: on_page_def\<close>)
  from Cons.prems(1) show ?case
  proof (cases rule: reconcile_pages_Cons)
    case (1 page P1)
    then show ?thesis using P1 [OF 1(1,2)] take_transport_cases [of page job] by metis
  next
    case (2 page P1 c cs s1)
    obtain t where t: "take_transport page job = job\<lparr>uj_transport := t\<rparr>" using take_transport_cases by blast
    have same: "ledger_backed A (job\<lparr>uj_transport := t\<rparr>) = ledger_backed A job" unfolding ledger_backed_def expected_transport by (rule refl)
    have "\<exists>t' P'. job' = mark_published P' (job\<lparr>uj_transport := t, uj_transport := t'\<rparr>) \<and> ledger_backed A (job\<lparr>uj_transport := t\<rparr>) P'"
      by (rule Cons.IH [OF 2(4) [unfolded t]]) (use P1 [OF 2(1,2)] same Cons.prems(3) in \<open>auto simp: on_page_def\<close>)
    then show ?thesis unfolding same by simp
  qed
qed

lemma ledger_key_inj:
  assumes "job_valid decode job" "c \<in> set (uj_chunks job)" "c' \<in> set (uj_chunks job)" "ledger_key c = ledger_key c'"
  shows "c = c'"
proof -
  have ok: "ch_item c < length (uj_items job)" "ch_item_id c = ui_id (uj_items job ! ch_item c)"
      "ch_item c' < length (uj_items job)" "ch_item_id c' = ui_id (uj_items job ! ch_item c')"
    using assms(1-3) unfolding job_valid_def list_all_iff chunk_ok_def by blast+
  have "distinct (map ui_id (uj_items job))" using assms(1) unfolding job_valid_def by blast
  then have "ch_item c = ch_item c'" using ok assms(4) by (auto simp: ledger_key_def nth_eq_iff_index_eq distinct_conv_nth)
  then have "chunk_key c = chunk_key c'" using assms(4) by (simp add: chunk_key_def ledger_key_def)
  moreover have "distinct (map chunk_key (uj_chunks job))" using assms(1) unfolding job_valid_def by blast
  ultimately show ?thesis using assms(2,3) by (simp add: distinct_map inj_on_def)
qed

lemma expected_chunk_own:
  assumes "job_valid decode job" "c \<in> set (uj_chunks job)" "expected_chunk job (ledger_key c) = Some c'"
  shows "c' = c"
proof -
  have "(ledger_key c, c') \<in> set (rev (map (\<lambda>c. (ledger_key c, c)) (uj_chunks job)))"
    using assms(3) unfolding expected_chunk_def by (rule map_of_SomeD)
  then have "c' \<in> set (uj_chunks job)" "ledger_key c' = ledger_key c" by auto
  then show ?thesis using ledger_key_inj [OF assms(1) _ assms(2)] by blast
qed

lemma reconcile_upload_Ok:
  assumes "reconcile_upload parse net exs job s = Some (Inr job', s')"
  shows "\<exists>t P. job' = mark_published P (job\<lparr>uj_transport := t\<rparr>) \<and> ledger_backed (on_page parse exs) job P"
  by (rule reconcile_pages_Ok [OF assms [unfolded reconcile_upload_def]]) (simp_all add: ledger_backed_def)



section \<open>From a checkpoint to the loop\<close>

lemma us_ct_Inr: "us_ct m s = (Inr a, s') \<Longrightarrow> \<exists>c c'. m c = (Inr a, c')"
  by (auto simp: us_ct_def split: prod.splits)

lemma unlock_job_same:
  assumes "unlock_job cx env job c = (Inr job', c')"
  shows "\<exists>k. job' = job\<lparr>uj_master_key := k\<rparr>"
proof (cases "length (uj_master_key job) = 32")
  case True
  then have "job' = job\<lparr>uj_master_key := uj_master_key job\<rparr>" using assms by (simp add: unlock_job_def)
  then show ?thesis by blast
qed (use unlock_job_key [OF assms] in blast)

lemma descriptor_saved_same:
  assumes "descriptor_saved net jx stop job s = (Inr job', s')"
  shows "\<exists>d. job' = job\<lparr>uj_encrypted_descriptor := Some d\<rparr>"
proof (cases "uj_encrypted_descriptor job")
  case None
  then obtain d where "job' = job\<lparr>uj_encrypted_descriptor := Some d\<rparr>"
    using assms unfolding descriptor_saved_def None option.case bind_st_Inr Let_def by auto
  then show ?thesis by blast
next
  case (Some d)
  then have "job' = job\<lparr>uj_encrypted_descriptor := Some d\<rparr>" using assms by (simp add: descriptor_saved_def)
  then show ?thesis by blast
qed

lemma announce_turbo_same:
  assumes "announce_turbo net jx stop exs job s = (Inr job', s')"
  shows "job' = job \<or> (\<exists>d. job' = job\<lparr>uj_encrypted_descriptor := Some d, uj_descriptor_published := True\<rparr>)"
proof (cases "uj_turbo job \<and> \<not> uj_descriptor_published job")
  case True
  then obtain job1 s1 s2 where one: "descriptor_saved net jx stop job s = (Inr job1, s1)" "publish_turbo_descriptor net exs job1 s1 = (Inr job', s2)"
    using assms by (auto simp: announce_turbo_def bind_st_Inr)
  obtain d where "job1 = job\<lparr>uj_encrypted_descriptor := Some d\<rparr>" using descriptor_saved_same [OF one(1)] by blast
  moreover from one(2) have "job' = job1\<lparr>uj_descriptor_published := True\<rparr>" by (auto simp: publish_turbo_descriptor_def bind_st_Inr)
  ultimately have "job' = job\<lparr>uj_encrypted_descriptor := Some d, uj_descriptor_published := True\<rparr>" by simp
  then show ?thesis by blast
next
  case False
  then show ?thesis using assms unfolding announce_turbo_def if_not_P [OF False] by simp
qed

lemma job_valid_opened:
  assumes "job_valid decode job"
  shows "job_valid decode (job\<lparr>uj_master_key := k\<rparr>)"
    and "job_valid decode (job\<lparr>uj_encrypted_descriptor := Some d, uj_descriptor_published := True\<rparr>)"
    and "job_valid decode (job\<lparr>uj_transport := t\<rparr>)"
  using assms unfolding job_valid_def header_invalid_def secrets_missing_def by simp_all

text \<open>A checkpoint from which the loop may start.\<close>

definition resumable :: "up_ctx \<Rightarrow> upload_job \<Rightarrow> bool" where
  "resumable cx job \<longleftrightarrow>
     job_valid (ux_decode cx) job \<and> uj_state job \<noteq> lit ''finalizing'' \<and> uj_done job = completed_bytes (uj_chunks job)"

lemma resumable_opened:
  assumes "resumable cx job"
  shows "resumable cx (job\<lparr>uj_master_key := k\<rparr>)"
    and "resumable cx (job\<lparr>uj_encrypted_descriptor := Some d, uj_descriptor_published := True\<rparr>)"
    and "resumable cx (job\<lparr>uj_transport := t\<rparr>)"
  using assms job_valid_opened unfolding resumable_def by simp_all

lemma resumable_checkpoint:
  "checkpoint_ok net job \<longleftrightarrow> resumable (un_ctx net) job \<and> uj_transfer_id job = Some (un_transfer net)"
  unfolding checkpoint_ok_def resumable_def by blast

lemma open_job_ok:
  assumes "open_job cx jx pr env job s = (Inr (net, job'), s')" "resumable cx job"
  shows "checkpoint_ok net job' \<and> un_ctx net = cx \<and> uj_driver job' = uj_driver job \<and> uj_items job' = uj_items job
    \<and> un_instance net = uj_instance job \<and> uj_transfer_id job = Some (un_transfer net)"
proof -
  obtain job1 s1 transfer token s2 s3 where one: "us_ct (unlock_job cx (ce_unlock env) job) s = (Inr job1, s1)" "reserved job1 = Inr (transfer, token)"
      "net = net_of cx (pr_stage pr) job1 transfer token"
      "announce_turbo net jx (ce_descriptor_memory env) (ce_descriptor env) job1 s2 = (Inr job', s3)"
    using assms(1) by (auto simp: open_job_def bind_st_Inr Let_def)
  obtain c c' where "unlock_job cx (ce_unlock env) job c = (Inr job1, c')" using us_ct_Inr [OF one(1)] by blast
  from unlock_job_same [OF this] obtain k where job1: "job1 = job\<lparr>uj_master_key := k\<rparr>" by blast
  have res1: "resumable cx job1" unfolding job1 by (rule resumable_opened(1) [OF assms(2)])
  have t: "uj_transfer_id job1 = Some transfer" using one(2) by (auto simp: reserved_def and_then_eq_Inr)
  from one(4) have "job' = job1 \<or> (\<exists>d. job' = job1\<lparr>uj_encrypted_descriptor := Some d, uj_descriptor_published := True\<rparr>)"
    using announce_turbo_same by blast
  then have "resumable cx job' \<and> uj_transfer_id job' = Some transfer \<and> uj_driver job' = uj_driver job \<and> uj_items job' = uj_items job"
    using res1 resumable_opened(2) t job1 by auto
  then show ?thesis using t job1 unfolding resumable_checkpoint one(3) by (simp add: net_of_def)
qed

lemma mark_published_with:
  "\<exists>cs. mark_published P job = with_chunks cs job \<and> list_all2 same_chunk (uj_chunks job) cs"
proof -
  let ?f = "\<lambda>c. if ledger_key c \<in> P then c\<lparr>ch_complete := True, ch_stage := None\<rparr> else c"
  have "mark_published P job = with_chunks (map ?f (uj_chunks job)) job" by (simp add: mark_published_def with_chunks_def Let_def)
  moreover have "same_chunk c (?f c)" for c
  proof (cases "ledger_key c \<in> P")
    case True
    then show ?thesis unfolding same_chunk_def if_P [OF True] by blast
  qed (simp add: same_chunk_refl)
  then have "list_all2 same_chunk (uj_chunks job) (map ?f (uj_chunks job))" by (simp add: list_all2_conv_all_nth)
  ultimately show ?thesis by blast
qed

lemma take_ledger_ok:
  assumes "take_ledger parse net exs job s = Some (Inr job', s')" "checkpoint_ok net job"
  shows "checkpoint_ok net job' \<and> uj_driver job' = uj_driver job \<and> uj_items job' = uj_items job"
proof (cases "uj_driver job = lit ''http'' \<and> uj_upload_status job")
  case True
  then obtain s1 where "reconcile_upload parse net exs job s = Some (Inr job', s1)"
    using assms(1) unfolding take_ledger_def if_P [OF True] and_run_Inr at_once_Inr by (auto simp: bind_st_Inr)
  from reconcile_upload_Ok [OF this] obtain t P where job': "job' = mark_published P (job\<lparr>uj_transport := t\<rparr>)" by blast
  obtain cs where cs: "job' = with_chunks cs (job\<lparr>uj_transport := t\<rparr>)" "list_all2 same_chunk (uj_chunks (job\<lparr>uj_transport := t\<rparr>)) cs"
    using mark_published_with [of P "job\<lparr>uj_transport := t\<rparr>"] unfolding job' by blast
  have "checkpoint_ok net (job\<lparr>uj_transport := t\<rparr>)" using assms(2) resumable_opened(3) unfolding resumable_checkpoint by simp
  from checkpoint_same [OF this cs(2)] show ?thesis unfolding cs(1) by (simp add: with_chunks_def)
next
  case False
  then have "job' = job" using assms(1) unfolding take_ledger_def if_not_P [OF False] by (simp add: at_once_def)
  then show ?thesis using assms(2) by simp
qed

lemma send_chunks_whole:
  assumes "libraries_ok (un_ctx net)" "checkpoint_ok net job" "send_chunks net turns job s = Some (Inr job', s')"
  shows "whole (un_ctx net) job' \<and> checkpoint_ok net job' \<and> uj_items job' = uj_items job"
proof -
  let ?settings = "ctl_settings (os_control (us_open s))"
  let ?s = "s\<lparr>us_adaptive := adaptive_new (upload_maximum job ?settings), us_sending := sp_new (uj_done job)\<rparr>"
  have "loop_inv net (ac_maximum (us_adaptive ?s)) job [] None ?s"
    using assms(2) unfolding loop_inv_def window_ok_def producer_ok_def tuned_def by (simp add: adaptive_new_inv)
  from upload_loop_facts [OF assms(1) this, of "producer_can_overlap job ?settings" turns] assms(3)
  have "checkpoint_ok net job' \<and> next_missing_chunk job' = Inr None \<and> list_all ch_complete (uj_chunks job')"
    unfolding send_chunks_def Let_def by simp
  moreover obtain cs n where "job' = job\<lparr>uj_chunks := cs, uj_done := n\<rparr>"
    using upload_loop_frame [OF assms(3) [unfolded send_chunks_def Let_def]] by (elim exE) (rule that)
  ultimately show ?thesis using finished_whole by simp
qed

section \<open>From the loop to the receipt\<close>

lemma us_dr_log: "us_dr m s = (r, s') \<Longrightarrow> us_log s' = us_log s"
  by (auto simp: us_dr_def split: prod.splits)

text \<open>What identifies an item: its name and identifier, where it is read and how its chunks are encrypted.\<close>

definition item_identity :: "upload_item \<Rightarrow> rstr \<times> u64 \<times> rstr \<times> source \<times> rstr" where
  "item_identity item = (ui_id item, ui_position item, ui_name item, ui_source item, ui_nonce_prefix item)"

lemma settle_items_sources: "settle_items n items = Inr items' \<Longrightarrow> map item_identity items' = map item_identity items"
  by (induction items arbitrary: items') (auto simp: Let_def and_then_eq_Inr item_identity_def)

lemma settle_prepared_same:
  assumes "settle_prepared net envs job s = (Inr job', s')"
  shows "uj_chunks job' = uj_chunks job \<and> map item_identity (uj_items job') = map item_identity (uj_items job)
    \<and> (uj_state job \<noteq> lit ''finalizing'' \<longrightarrow> uj_state job' \<noteq> lit ''finalizing'')"
proof (cases "uj_state job = lit ''preparing''")
  case True
  then obtain items where "settle_items (uj_chunk_bytes job) (uj_items job) = Inr items"
      "job' = job\<lparr>uj_items := items, uj_state := lit ''sending''\<rparr>"
    using assms by (auto simp: settle_prepared_def settle_def bind_st_Inr Let_def split: if_splits)
  then show ?thesis using settle_items_sources by simp
next
  case False
  then show ?thesis using assms by (simp add: settle_prepared_def)
qed

lemma open_note_frame: "open_attached_note cx jx (job\<lparr>uj_exact_manifest := m\<rparr>) = open_attached_note cx jx job"
  by (cases "uj_sealed_attached_note job") (simp_all add: open_attached_note_def note_aad_def)

lemma encrypted_manifest_frame: "encrypted_manifest cx jx stop (job\<lparr>uj_exact_manifest := m\<rparr>) = encrypted_manifest cx jx stop job"
proof -
  have "upload_manifest cx jx (job\<lparr>uj_exact_manifest := m\<rparr>) = upload_manifest cx jx job"
    unfolding upload_manifest_def open_note_frame by simp
  then show ?thesis unfolding encrypted_manifest_def by simp
qed

lemma seal_manifest_same:
  assumes "seal_manifest net jx stop job s = (Inr job', s')" "uj_state job \<noteq> lit ''finalizing''"
  shows "\<exists>m. uj_exact_manifest job' = Some m \<and> (\<exists>c c'. encrypted_manifest (un_ctx net) jx stop job' c = (Inr m, c'))
    \<and> uj_chunks job' = uj_chunks job \<and> uj_items job' = uj_items job"
proof -
  obtain m s1 where m: "us_ct (encrypted_manifest (un_ctx net) jx stop (job\<lparr>uj_state := lit ''finalizing''\<rparr>)) s = (Inr m, s1)"
      "job' = job\<lparr>uj_state := lit ''finalizing'', uj_exact_manifest := Some m\<rparr>"
    using assms unfolding seal_manifest_def if_not_P [OF assms(2)] Let_def bind_st_Inr by auto
  obtain c c' where "encrypted_manifest (un_ctx net) jx stop job' c = (Inr m, c')"
    using us_ct_Inr [OF m(1)] unfolding m(2) encrypted_manifest_frame by blast
  then show ?thesis using m(2) by (intro exI [of _ m]) auto
qed

lemma complete_transfer_logged:
  "complete_transfer_from url m key envs ks s = (Inr u, s') \<Longrightarrow> CompleteRequest url m key \<in> set (us_log s')"
proof (induction ks arbitrary: s)
  case (Cons k ks)
  let ?s = "s\<lparr>us_log := us_log s @ [CompleteRequest url m key]\<rparr>"
  show ?case
  proof (cases "s' = ?s")
    case False
    then show ?thesis using Cons
      by (auto simp: Let_def bind_st_Inr us_log_event_def split: sum.splits if_splits)
  qed simp
qed simp

lemma finish_upload_Ok:
  assumes "finish_upload net jx env job s = (Inr url, s')" "uj_state job \<noteq> lit ''finalizing''"
  shows "\<exists>job2 m. uj_chunks job2 = uj_chunks job \<and> map item_identity (uj_items job2) = map item_identity (uj_items job)
    \<and> (\<exists>c c'. encrypted_manifest (un_ctx net) jx (ce_manifest_memory env) job2 c = (Inr m, c')) \<and> receipt (un_ctx net) job2 = Inr url
    \<and> CompleteRequest (un_instance net @ lit ''/api/v1/transfers/'' @ un_transfer net @ lit ''/complete'') m (recipient_key job2) \<in> set (us_log s')"
proof -
  obtain job1 s1 job2 s2 s3 u where run: "settle_prepared net (ce_sources_again env) job s = (Inr job1, s1)"
      "seal_manifest net jx (ce_manifest_memory env) job1 s1 = (Inr job2, s2)"
      "request_completion net (ce_finalizing env) (ce_complete env) job2 s2 = (Inr u, s3)" "record_receipt net job2 s3 = (Inr url, s')"
    using assms(1) unfolding finish_upload_def bind_st_Inr by blast
  note settled = settle_prepared_same [OF run(1)]
  obtain m where m: "uj_exact_manifest job2 = Some m" "\<exists>c c'. encrypted_manifest (un_ctx net) jx (ce_manifest_memory env) job2 c = (Inr m, c')"
      "uj_chunks job2 = uj_chunks job1" "uj_items job2 = uj_items job1"
    using seal_manifest_same [OF run(2)] settled assms(2) by blast
  obtain s4 where "complete_transfer net (ce_complete env) m (recipient_key job2) s4 = (Inr u, s3)"
    using run(3) m(1) by (auto simp: request_completion_def bind_st_Inr)
  from complete_transfer_logged [OF this [unfolded complete_transfer_def]]
  have sent: "CompleteRequest (un_instance net @ lit ''/api/v1/transfers/'' @ un_transfer net @ lit ''/complete'') m (recipient_key job2) \<in> set (us_log s3)" .
  have rest: "receipt (un_ctx net) job2 = Inr url" "us_log s' = us_log s3"
    using run(4) unfolding record_receipt_def us_save_def remove_archive_def share_ready_def us_control_def Let_def bind_st_Inr
    by (auto simp: bind_st_Inr split: if_splits dest!: us_dr_log)
  show ?thesis using settled m sent rest by (intro exI [of _ job2] exI [of _ m]) simp
qed

lemma run_job_Ok:
  assumes "libraries_ok cx" "resumable cx job" "uj_driver job = lit ''http''" "run_job cx jx pr env job s = Some (Inr url, s')"
  shows "\<exists>transfer job1 job2 m. uj_transfer_id job = Some transfer \<and> whole cx job1 \<and> uj_chunks job2 = uj_chunks job1
    \<and> uj_items job1 = uj_items job
    \<and> map item_identity (uj_items job2) = map item_identity (uj_items job)
    \<and> (\<exists>c c'. encrypted_manifest cx jx (ce_manifest_memory env) job2 c = (Inr m, c')) \<and> receipt cx job2 = Inr url
    \<and> CompleteRequest (uj_instance job @ lit ''/api/v1/transfers/'' @ transfer @ lit ''/complete'') m (recipient_key job2) \<in> set (us_log s')"
proof -
  obtain net j1 s1 where start: "open_job cx jx pr env job s = (Inr (net, j1), s1)"
      "and_run (take_ledger (pr_page pr) net (ce_pages env) j1) (\<lambda>job.
         and_run (at_once (show_start (ce_start env) job)) (\<lambda>_.
         if uj_driver job = lit ''webrtc'' then share_live net jx (ce_live env) job
         else and_run (send_chunks net (ce_turns env) job) (\<lambda>job. at_once (finish_upload net jx env job)))) s1 = Some (Inr url, s')"
    using and_run_pair [OF assms(4) [unfolded run_job_def]] unfolding at_once_Inr by blast
  obtain j2 s2 s3 where run: "take_ledger (pr_page pr) net (ce_pages env) j1 s1 = Some (Inr j2, s2)"
      "(if uj_driver j2 = lit ''webrtc'' then share_live net jx (ce_live env) j2
        else and_run (send_chunks net (ce_turns env) j2) (\<lambda>job. at_once (finish_upload net jx env job))) s3 = Some (Inr url, s')"
    using start(2) [unfolded and_run_Inr [of "take_ledger (pr_page pr) net (ce_pages env) j1"] and_run_Inr [of "at_once (show_start (ce_start env) j)" for j]]
    by blast
  have opened: "checkpoint_ok net j1" "un_ctx net = cx" "uj_driver j1 = uj_driver job" "uj_items j1 = uj_items job"
      "un_instance net = uj_instance job" "uj_transfer_id job = Some (un_transfer net)" using open_job_ok [OF start(1) assms(2)] by blast+
  have ledger: "checkpoint_ok net j2" "uj_driver j2 = uj_driver j1" "uj_items j2 = uj_items j1" using take_ledger_ok [OF run(1) opened(1)] by blast+
  have "uj_driver j2 \<noteq> lit ''webrtc''" using ledger(2) opened(3) assms(3) by simp
  then obtain j3 s4 where rest: "send_chunks net (ce_turns env) j2 s3 = Some (Inr j3, s4)" "finish_upload net jx env j3 s4 = (Inr url, s')"
    using run(2) unfolding if_not_P [OF \<open>uj_driver j2 \<noteq> lit ''webrtc''\<close>] and_run_Inr at_once_Inr by blast
  have whole: "whole cx j3" "checkpoint_ok net j3" "uj_items j3 = uj_items j2"
    using send_chunks_whole [OF _ ledger(1) rest(1)] assms(1) unfolding opened(2) by blast+
  have "uj_state j3 \<noteq> lit ''finalizing''" using whole(2) unfolding checkpoint_ok_def by blast
  from finish_upload_Ok [OF rest(2) this] obtain job2 m where "uj_chunks job2 = uj_chunks j3"
      "map item_identity (uj_items job2) = map item_identity (uj_items job)"
      "\<exists>c c'. encrypted_manifest cx jx (ce_manifest_memory env) job2 c = (Inr m, c')" "receipt cx job2 = Inr url"
      "CompleteRequest (uj_instance job @ lit ''/api/v1/transfers/'' @ un_transfer net @ lit ''/complete'') m (recipient_key job2) \<in> set (us_log s')"
    unfolding opened(2,5) whole(3) ledger(3) opened(4) by blast
  then show ?thesis using opened(6) whole(1) whole(3) [unfolded ledger(3) opened(4)]
    by - (rule exI [of _ "un_transfer net"], rule exI [of _ j3], rule exI [of _ job2], rule exI [of _ m], blast)
qed


definition example_exchange :: Upload_Stage.exchange where
  "example_exchange =
     \<lparr>ex_sent = Interrupted, ex_body = [], ex_cancelled = False, ex_sleep_cut = False, ex_date = (\<lambda>_. None), ex_uuid = [], ex_elapsed = 0, ex_now = 0\<rparr>"

definition example_continue_env :: continue_env where
  "example_continue_env =
     (let fe = (\<lambda>_ :: nat. \<lparr>fe_metadata = example_world, fe_open = example_world, fe_reads = (\<lambda>_. (False, Ok []))\<rparr>) in
      \<lparr>ce_unlock = example_unlock_env, ce_sources = fe, ce_client = True, ce_descriptor_memory = False, ce_descriptor = (\<lambda>_. example_exchange),
       ce_pages = [example_exchange], ce_start = False,
       ce_live = \<lparr>le_prepare = [], le_sources = fe, le_memory = False, le_publish = SendFailed, le_prompts = False, le_consent = [], le_rounds = []\<rparr>,
       ce_turns = [], ce_sources_again = fe, ce_manifest_memory = False, ce_finalizing = False, ce_complete = (\<lambda>_. example_exchange)\<rparr>)"

definition example_parse :: up_parse where
  "example_parse = \<lparr>pr_stage = (\<lambda>_. None), pr_page = (\<lambda>_. None)\<rparr>"


section \<open>A lost completion\<close>

definition completion_requests :: "upload_event list \<Rightarrow> upload_event list" where
  "completion_requests = filter (\<lambda>e. case e of CompleteRequest _ _ _ \<Rightarrow> True | _ \<Rightarrow> False)"

definition discreet :: "'a us_op \<Rightarrow> bool" where
  "discreet m \<longleftrightarrow> (\<forall>X. keeps (\<lambda>s. completion_requests (us_log s) = X) m)"

named_theorems discreet_intro \<open>operations that request no completion\<close>

lemma discreetI: "(\<And>s. completion_requests (us_log (snd (m s))) = completion_requests (us_log s)) \<Longrightarrow> discreet m"
  unfolding discreet_def by (auto intro: keepsI)

lemma discreetD: "discreet m \<Longrightarrow> m s = (r, s') \<Longrightarrow> completion_requests (us_log s') = completion_requests (us_log s)"
  unfolding discreet_def using keepsD_run [of _ m s r s'] by blast

lemma discreet_bind [discreet_intro]: "discreet m \<Longrightarrow> (\<And>x. discreet (f x)) \<Longrightarrow> discreet (bind_st m f)"
  unfolding discreet_def by (intro allI keeps_bind) auto

lemma discreet_lift [discreet_intro]: "discreet (lift_st r)"
  unfolding discreet_def by (simp add: keeps_lift)

lemma discreet_ops [discreet_intro]: "discreet (us_dr m)" "discreet (us_ct m')" "discreet (us_log_event (DescriptorRequest url d))"
    "discreet (us_log_event (Slept ms))"
  by (auto intro!: discreetI simp: us_dr_def us_ct_def us_log_event_def completion_requests_def split: prod.split)

lemma discreet_sleep [discreet_intro]: "discreet (us_phase ex p)" "discreet (cancellable_sleep ex ms)" "discreet (us_save net job)"
    "discreet (share_ready url)"
  unfolding us_phase_def cancellable_sleep_def us_save_def share_ready_def us_control_def by (intro discreet_intro)+

lemma discreet_publish [discreet_intro]: "discreet (publish_descriptor_from url d envs ks)"
proof (induction ks)
  case (Cons k ks)
  show ?case unfolding publish_descriptor_from.simps Let_def
    by (intro discreet_intro) (auto intro!: discreet_intro Cons.IH split: sum.split)
qed (simp add: discreet_lift)

lemma discreet_open: "discreet (open_job cx jx pr env job)"
proof -
  have "discreet (descriptor_saved net jx stop j)" for net stop j
    unfolding descriptor_saved_def Let_def by (auto intro!: discreet_intro split: option.split)
  moreover have "discreet (publish_turbo_descriptor net exs j)" for net exs j
    unfolding publish_turbo_descriptor_def by (intro discreet_intro)
  ultimately have "discreet (announce_turbo net jx stop exs j)" for net stop exs j
    unfolding announce_turbo_def by (auto intro!: discreet_intro)
  moreover have "discreet (share_turbo cx j)" for j unfolding share_turbo_def by (auto intro!: discreet_intro)
  moreover have "discreet (check_sources cx envs j)" for envs j unfolding check_sources_def us_prepared_def by (intro discreet_intro)
  ultimately show ?thesis unfolding open_job_def Let_def by (auto intro!: discreet_intro split: prod.split)
qed

lemma open_job_keeps:
  assumes "open_job cx jx pr env job s = (Inr (net, job'), s')"
  shows "uj_driver job' = uj_driver job" "uj_upload_status job' = uj_upload_status job"
proof -
  obtain job1 s1 s2 s3 where one: "us_ct (unlock_job cx (ce_unlock env) job) s = (Inr job1, s1)"
      "announce_turbo net jx (ce_descriptor_memory env) (ce_descriptor env) job1 s2 = (Inr job', s3)"
    using assms by (auto simp: open_job_def bind_st_Inr Let_def)
  obtain k where "job1 = job\<lparr>uj_master_key := k\<rparr>" using us_ct_Inr [OF one(1)] unlock_job_same by blast
  with announce_turbo_same [OF one(2)] show "uj_driver job' = uj_driver job" "uj_upload_status job' = uj_upload_status job" by auto
qed

lemma refused_page:
  assumes "json_response parse ex = Inr page" "page_differs job page"
  shows "reconcile_pages parse url (ex # exs) None {} {} job s =
    Some (Inl (DlMsg ''saved upload no longer matches the pending server transfer''), s\<lparr>us_log := us_log s @ [StatusRequest url None]\<rparr>)"
  by (subst reconcile_pages.simps) (simp add: assms)

lemma refused_ledger:
  assumes "uj_driver job = lit ''http''" "uj_upload_status job" "json_response parse ex = Inr page" "page_differs job page"
  shows "\<exists>e s'. take_ledger parse net (ex # exs) job s = Some (Inl e, s') \<and> completion_requests (us_log s') = completion_requests (us_log s)"
  unfolding take_ledger_def reconcile_upload_def and_run_def
  by (simp add: assms(1,2) refused_page [OF assms(3,4)] completion_requests_def)

text \<open>C36. A lost completion cannot be resumed. The server answers the ledger of a completed transfer, and it accepts the
  same completion again, but the resumption refuses every ledger that is not pending: when the first page says
  anything else, continuing a saved HTTP upload fails, in whatever state it was saved, and asks for no completion. The
  link is never recorded.\<close>

theorem lost_completion_cannot_resume:
  assumes "uj_driver job = lit ''http''" and "uj_upload_status job" and "uj_state job \<notin> {lit ''complete'', lit ''ended''}"
    and "ce_pages env = ex # rest" and "json_response (pr_page pr) ex = Ok page" and "sg_status page \<noteq> lit ''pending''"
  shows "\<exists>e s'. continue_job cx jx pr env job s = Some (Err e, s')
    \<and> completion_requests (us_log s') = completion_requests (us_log s)"
proof (cases "validate_job (ux_decode cx) job")
  case (Inl e)
  then show ?thesis by (simp add: continue_job_def and_run_def at_once_def lift_st_def)
next
  case (Inr u)
  have "uj_state job \<noteq> lit ''complete''" "uj_state job \<noteq> lit ''ended''" using assms(3) by blast+
  then have run: "continue_job cx jx pr env job s = run_job cx jx pr env job s"
    unfolding continue_job_def and_run_def at_once_def by (simp add: Inr lift_st_def)
  obtain r s1 where op: "open_job cx jx pr env job s = (r, s1)" by force
  note log1 = discreetD [OF discreet_open op]
  show ?thesis
  proof (cases r)
    case (Inl e)
    then show ?thesis unfolding run run_job_def and_run_def at_once_def op using log1 by simp
  next
    case (Inr p)
    obtain net j1 where p: "p = (net, j1)" by force
    note keep = open_job_keeps [OF op [unfolded Inr p]]
    have "page_differs j1 page" using assms(6) by (simp add: page_differs_def)
    from refused_ledger [OF _ _ assms(5) this, of net rest s1] obtain e s2 where
        "take_ledger (pr_page pr) net (ex # rest) j1 s1 = Some (Inl e, s2)" "completion_requests (us_log s2) = completion_requests (us_log s1)"
      using keep assms(1,2) by auto
    then show ?thesis unfolding run run_job_def and_run_def at_once_def op Inr p using log1 by (simp add: assms(4))
  qed
qed

definition example_page :: status_page where
  "example_page =
     \<lparr>sg_status = lit ''available'', sg_protocol_version = 1, sg_chunk_bytes = 8, sg_upload_transport = None, sg_chunks = [], sg_next_cursor = None\<rparr>"

definition example_answer :: Upload_Stage.exchange where
  "example_answer =
     example_exchange\<lparr>ex_sent := Arrived \<lparr>rs_status = 200, rs_header = (\<lambda>_. None), rs_content_length = None\<rparr>, ex_body := [Arrived None]\<rparr>"

lemma example_page_status: "sg_status example_page = lit ''available''"
  by (simp add: example_page_def)

lemma example_answer_page: "json_response (\<lambda>_. Some example_page) example_answer = Ok example_page"
proof -
  let ?r = "\<lparr>rs_status = 200, rs_header = (\<lambda>_. None), rs_content_length = None\<rparr>"
  have "request_headers (ex_sent example_answer) = Inr ?r" "ex_body example_answer = [Arrived None]"
    by (simp_all add: example_answer_def request_headers_def)
  then show ?thesis
    by (simp add: json_response_def Download_Chunk.is_success_def response_json_def read_limited_def)
qed

theorem lost_completion_cannot_resume_witness:
  "\<exists>e s'. continue_job example_up_ctx example_up_json (example_parse\<lparr>pr_page := \<lambda>_. Some example_page\<rparr>)
      (example_continue_env\<lparr>ce_pages := [example_answer]\<rparr>) (example_upload_job\<lparr>uj_upload_status := True\<rparr>) example_up_state = Some (Err e, s')
    \<and> completion_requests (us_log s') = completion_requests (us_log example_up_state)"
  by (rule lost_completion_cannot_resume [where page = example_page and ex = example_answer and rest = "[]"])
     (simp_all add: example_answer_page example_upload_job_def example_page_status)

end
