(* ===== verification/Upload_Collect.thy ===== *)
theory Upload_Collect
  imports Upload_Job Share_Link "HOL-Library.List_Lexorder"
begin

text \<open>
  What an upload consists of, from \<open>crates/transfer-native/src/uploads.rs\<close> and the snapshots of
  \<open>crates/transfer-native/src/source.rs\<close>: the traversal of the selected paths, the choice between one archive and
  individual files, the names of the items, and the copies kept in the job's directory. The user's files belong to
  somebody else, so the calls on them are outcomes in environment records; the job's directory is the file system of
  \<open>File_System\<close>. The archive is the sequence of entries given to the \<open>zip\<close> crate. \<open>None\<close> means that an operation is
  still running. Shown: the search for a free name ends; the names of the items are distinct and portable, so a
  receiver accepts them; an archive of sources has distinct relative paths that stay inside it, and each entry has
  exactly the declared length.
\<close>

section \<open>Names\<close>

text \<open>\<open>Path::file_stem\<close> and \<open>Path::extension\<close> of a name without separators.\<close>

definition dot :: nat where "dot = of_char (CHR ''.'')"

definition stem_and_extension :: "rstr \<Rightarrow> rstr \<times> rstr" where
  "stem_and_extension name =
     (case rsplit_once dot name of
        None \<Rightarrow> (name, [])
      | Some (before, after) \<Rightarrow> if before = [] then (name, []) else (before, dot # after))"

definition numbered :: "rstr \<times> rstr \<Rightarrow> nat \<Rightarrow> rstr" where
  "numbered se i = fst se @ lit '' ('' @ decimal i @ lit '')'' @ snd se"

text \<open>The search for a free number; \<open>left\<close> bounds it, and one more than the names in use is always enough. Running
  out of it stands for \<open>unreachable!()\<close>.\<close>

fun unique_from :: "nat \<Rightarrow> rstr list \<Rightarrow> rstr \<times> rstr \<Rightarrow> nat \<Rightarrow> rstr option" where
  "unique_from 0 used se i = None"
| "unique_from (Suc left) used se i =
     (if numbered se i \<in> set used then unique_from left used se (Suc i) else Some (numbered se i))"

definition unique_name :: "rstr \<Rightarrow> rstr list \<Rightarrow> rstr option" where
  "unique_name name used =
     (if name \<notin> set used then Some name else unique_from (Suc (length used)) used (stem_and_extension name) 2)"

fun unique_names :: "rstr list \<Rightarrow> rstr list \<Rightarrow> rstr list option" where
  "unique_names used [] = Some []"
| "unique_names used (n # ns) =
     Option.bind (unique_name n used) (\<lambda>u. map_option ((#) u) (unique_names (u # used) ns))"

definition UNREACHABLE :: dl_error where "UNREACHABLE = DlMsg ''internal error: entered unreachable code''"

definition own_name :: "path \<Rightarrow> rstr" where
  "own_name p = download_filename (case file_name p of None \<Rightarrow> [] | Some n \<Rightarrow> n)"

section \<open>What is sent\<close>

datatype directory_mode = AskMode | RequireFlag | ZipMode | IndividualMode

record upload_file =
  uf_path :: path
  uf_name :: rstr
  uf_spec :: source_spec

datatype zip_entry = ZipDirectory rstr | ZipFile rstr "u8 list"

text \<open>\<open>Prepared\<close>, with the entries of the archive it owns.\<close>

record prepared =
  pp_files :: "upload_file list"
  pp_archive :: "zip_entry list option"

section \<open>Archives of sources\<close>

definition slash :: nat where "slash = of_char (CHR ''/'')"

fun join_slash :: "rstr list \<Rightarrow> rstr" where
  "join_slash [] = []"
| "join_slash [p] = p"
| "join_slash (p # ps) = p @ slash # join_slash ps"

definition unsafe_part :: "rstr \<Rightarrow> bool" where
  "unsafe_part part \<longleftrightarrow> part = [] \<or> part = lit ''.'' \<or> part = lit ''..'' \<or> 0x5C \<in> set part"

definition safe_archive_path :: "rstr \<Rightarrow> (rstr, dl_error) result" where
  "safe_archive_path v =
     (let parts = split_char slash v in
      if parts = [] \<or> list_ex unsafe_part parts then Err (DlMsg ''tree entry has an unsafe relative path'')
      else Ok (join_slash (map download_filename parts)))"

text \<open>The outcomes around one entry: whether the host has cancelled, whether the archive accepts the entry, the
  source that is opened, and the reads, each with whether its bytes could be written.\<close>

record entry_env =
  en_cancelled :: bool
  en_start :: bool
  en_world :: source_world
  en_reads :: "(bool \<times> (u8 list, io_error) result \<times> bool) list"

definition ZIP_BUFFER :: nat where "ZIP_BUFFER = 64 * 1024"

definition ZIP_FAILED :: dl_error where "ZIP_FAILED = DlMsg ''write archive''"

fun copy_source :: "(bool \<times> (u8 list, io_error) result \<times> bool) list \<Rightarrow> nat \<Rightarrow> u8 list \<Rightarrow> (u8 list, dl_error) result option" where
  "copy_source reads remaining acc =
     (if remaining = 0 then Some (Ok acc)
      else case reads of
        [] \<Rightarrow> None
      | (cancelled, outcome, written) # rest \<Rightarrow>
          if cancelled then Some (Err (DlControl Cancelled))
          else case outcome of
            Inl e \<Rightarrow> Some (Err (DlIo e))
          | Inr content \<Rightarrow>
              let piece = take (min remaining ZIP_BUFFER) content in
              if piece = [] then Some (Err (DlMsg ''source was truncated while archiving''))
              else if \<not> written then Some (Err ZIP_FAILED)
              else copy_source rest (remaining - length piece) (acc @ piece))"

declare copy_source.simps [simp del]

definition open_source :: "entry_env \<Rightarrow> source_spec \<Rightarrow> (unit, dl_error) result" where
  "open_source en spec = and_then (source_open (en_world en) spec) (\<lambda>_. Ok ())"

fun zip_sources :: "entry_env list \<Rightarrow> rstr set \<Rightarrow> zip_entry list \<Rightarrow> upload_source list \<Rightarrow> (zip_entry list, dl_error) result option" where
  "zip_sources envs paths entries [] = Some (Ok entries)"
| "zip_sources [] paths entries (src # rest) = None"
| "zip_sources (en # envs) paths entries (src # rest) =
     (if en_cancelled en then Some (Err (DlControl Cancelled))
      else case safe_archive_path (up_name src) of
        Inl e \<Rightarrow> Some (Err e)
      | Inr name \<Rightarrow>
          if name \<in> paths then Some (Err (DlMsg ''Two tree entries have the same portable ZIP path''))
          else if \<not> en_start en then Some (Err ZIP_FAILED)
          else case open_source en (up_spec src) of
            Inl e \<Rightarrow> Some (Err e)
          | Inr _ \<Rightarrow>
              (case copy_source (en_reads en) (unat (snd (bounds (up_spec src)))) [] of
                 None \<Rightarrow> None
               | Some (Inl e) \<Rightarrow> Some (Err e)
               | Some (Inr content) \<Rightarrow> zip_sources envs (insert name paths) (entries @ [ZipFile name content]) rest))"

text \<open>The temporary directory, the archive file and its length at the end.\<close>

record zip_env =
  zv_archiving :: bool
  zv_directory :: "(path, io_error) result"
  zv_created :: bool
  zv_entries :: "entry_env list"
  zv_finished :: bool
  zv_preparing :: bool
  zv_length :: "(u64, io_error) result"

type_synonym 'a dr_run = "(open_state, 'a, dl_error) run"

definition awaiting :: "('a, dl_error) result option \<Rightarrow> 'a dr_run" where
  "awaiting r s = map_option (\<lambda>v. (v, s)) r"

definition zip_ok :: "bool \<Rightarrow> unit dr_op" where
  "zip_ok ok = lift_st (if ok then Ok () else Err ZIP_FAILED)"

text \<open>What both kinds of archives share.\<close>

definition build_archive :: "zip_env \<Rightarrow> rstr \<Rightarrow> (zip_entry list, dl_error) result option \<Rightarrow> prepared dr_run" where
  "build_archive zv name content =
     and_run (at_once (lift_st (map_err DlIo (zv_directory zv)))) (\<lambda>directory.
     and_run (at_once (zip_ok (zv_created zv))) (\<lambda>_.
     and_run (awaiting content) (\<lambda>entries.
     at_once (
       bind_st (zip_ok (zv_finished zv)) (\<lambda>_.
       bind_st (dr_phase (zv_preparing zv) Preparing) (\<lambda>_.
       bind_st (lift_st (map_err DlIo (zv_length zv))) (\<lambda>len.
       let p = directory @ [name] in
       lift_st (Ok \<lparr>pp_files = [\<lparr>uf_path = p, uf_name = name, uf_spec = SourcePath p 0 len\<rparr>],
                    pp_archive = Some entries\<rparr>))))))))"

definition TRANSFER_ZIP :: rstr where "TRANSFER_ZIP = lit ''filebeam-transfer.zip''"

definition flat_name :: "rstr \<Rightarrow> rstr" where
  "flat_name v = download_filename (concat (map (\<lambda>c. if c = slash then lit ''__'' else [c]) v))"

definition exceeds :: "nat option \<Rightarrow> nat \<Rightarrow> bool" where
  "exceeds maximum n \<longleftrightarrow> (case maximum of None \<Rightarrow> False | Some m \<Rightarrow> m < n)"

definition from_sources :: "upload_source list \<Rightarrow> directory_mode \<Rightarrow> nat option \<Rightarrow> zip_env \<Rightarrow> prepared dr_run" where
  "from_sources sources mode maximum zv =
     (if exceeds maximum (length sources)
      then at_once (lift_st (Err (DlMsg ''individual files exceed this instance's file limit'')))
      else if mode = ZipMode then
        and_run (at_once (dr_phase (zv_archiving zv) Archiving)) (\<lambda>_.
        build_archive zv TRANSFER_ZIP (zip_sources (zv_entries zv) {} [] sources))
      else at_once (lift_st (
        and_then (ok_or UNREACHABLE (unique_names [] (map (\<lambda>src. flat_name (up_name src)) sources))) (\<lambda>names.
        Ok \<lparr>pp_files = map2 (\<lambda>name src. \<lparr>uf_path = [], uf_name = name, uf_spec = up_spec src\<rparr>) names sources,
            pp_archive = None\<rparr>))))"

section \<open>The traversal of directories\<close>

datatype entry_kind = KindFile | KindDirectory | KindSymlink | KindOther

record tree_entry =
  te_path :: path
  te_name :: rstr
  te_directory :: bool
  te_size :: u64

record visit =
  vi_cancelled :: bool
  vi_metadata :: "(entry_kind \<times> u64, io_error) result"
  vi_children :: "(rstr list, io_error) result"

text \<open>The head of \<open>pending\<close> is the top of the stack; the children are pushed in reverse order.\<close>

fun collect_tree ::
  "visit list \<Rightarrow> (path \<times> rstr) list \<Rightarrow> rstr set \<Rightarrow> tree_entry list \<Rightarrow> (tree_entry list, dl_error) result option" where
  "collect_tree visits [] names entries = Some (Ok entries)"
| "collect_tree [] (t # pending) names entries = None"
| "collect_tree (v # visits) ((p, name) # pending) names entries =
     (if vi_cancelled v then Some (Err (DlControl Cancelled))
      else case vi_metadata v of
        Inl e \<Rightarrow> Some (Err (DlIo e))
      | Inr (kind, len) \<Rightarrow>
          if kind = KindSymlink \<or> kind = KindOther then collect_tree visits pending names entries
          else if name \<in> names then Some (Err (DlMsg ''Two entries have the same portable ZIP path''))
          else
            let directory = (kind = KindDirectory);
                entries = entries @ [\<lparr>te_path = p, te_name = name, te_directory = directory, te_size = if directory then 0 else len\<rparr>] in
            if \<not> directory then collect_tree visits pending (insert name names) entries
            else case vi_children v of
              Inl e \<Rightarrow> Some (Err (DlIo e))
            | Inr children \<Rightarrow>
                collect_tree visits
                  (map (\<lambda>c. (p @ [c], name @ slash # download_filename c)) (sort children) @ pending)
                  (insert name names) entries)"

record root_env =
  rv_cancelled :: bool
  rv_canonical :: "(path, io_error) result"
  rv_metadata :: "(entry_kind, io_error) result"
  rv_visits :: "visit list"

text \<open>The selected paths, each with the outcomes of its calls.\<close>

fun collect_roots ::
  "root_env list \<Rightarrow> path set \<Rightarrow> rstr list \<Rightarrow> bool \<Rightarrow> tree_entry list \<Rightarrow> (tree_entry list \<times> bool, dl_error) result option" where
  "collect_roots [] roots names has_directory entries = Some (Ok (entries, has_directory))"
| "collect_roots (r # rs) roots names has_directory entries =
     (if rv_cancelled r then Some (Err (DlControl Cancelled))
      else case rv_canonical r of
        Inl e \<Rightarrow> Some (Err (DlIo e))
      | Inr p \<Rightarrow>
          if p \<in> roots then collect_roots rs roots names has_directory entries
          else case rv_metadata r of
            Inl e \<Rightarrow> Some (Err (DlIo e))
          | Inr kind \<Rightarrow>
              if kind \<noteq> KindFile \<and> kind \<noteq> KindDirectory then Some (Err (DlMsg ''not a regular file or directory''))
              else case unique_name (own_name p) names of
                None \<Rightarrow> Some (Err UNREACHABLE)
              | Some name \<Rightarrow>
                  (case collect_tree (rv_visits r) [(p, name)] {} entries of
                     None \<Rightarrow> None
                   | Some (Inl e) \<Rightarrow> Some (Err e)
                   | Some (Inr entries') \<Rightarrow>
                       collect_roots rs (insert p roots) (name # names) (has_directory \<or> kind = KindDirectory) entries'))"

fun unique_files :: "path set \<Rightarrow> tree_entry list \<Rightarrow> tree_entry list" where
  "unique_files seen [] = []"
| "unique_files seen (e # es) =
     (if te_directory e \<or> te_path e \<in> seen then unique_files seen es
      else e # unique_files (insert (te_path e) seen) es)"

section \<open>Selected paths\<close>

text \<open>Archiving what was collected: files are read to their end.\<close>

fun copy_file :: "(bool \<times> (u8 list, io_error) result \<times> bool) list \<Rightarrow> u8 list \<Rightarrow> (u8 list, dl_error) result option" where
  "copy_file [] acc = None"
| "copy_file ((cancelled, outcome, written) # rest) acc =
     (if cancelled then Some (Err (DlControl Cancelled))
      else case outcome of
        Inl e \<Rightarrow> Some (Err (DlIo e))
      | Inr content \<Rightarrow>
          let piece = take ZIP_BUFFER content in
          if piece = [] then Some (Ok acc)
          else if \<not> written then Some (Err ZIP_FAILED)
          else copy_file rest (acc @ piece))"

fun zip_tree :: "entry_env list \<Rightarrow> zip_entry list \<Rightarrow> tree_entry list \<Rightarrow> (zip_entry list, dl_error) result option" where
  "zip_tree envs entries [] = Some (Ok entries)"
| "zip_tree [] entries (e # es) = None"
| "zip_tree (en # envs) entries (e # es) =
     (if en_cancelled en then Some (Err (DlControl Cancelled))
      else if \<not> en_start en then Some (Err ZIP_FAILED)
      else if te_directory e then zip_tree envs (entries @ [ZipDirectory (te_name e)]) es
      else case sw_open (en_world en) (te_path e) of
        Inl err \<Rightarrow> Some (Err (DlIo err))
      | Inr _ \<Rightarrow>
          (case copy_file (en_reads en) [] of
             None \<Rightarrow> None
           | Some (Inl err) \<Rightarrow> Some (Err err)
           | Some (Inr content) \<Rightarrow> zip_tree envs (entries @ [ZipFile (te_name e) content]) es))"

record prepare_env =
  pv_cancelled :: bool
  pv_roots :: "root_env list"
  pv_prompts :: bool
  pv_answer :: "(bool \<times> recv) list"
  pv_first :: "(path, io_error) result"
  pv_zip :: zip_env

definition ask_directory :: "prepare_env \<Rightarrow> nat \<Rightarrow> u64 \<Rightarrow> nat option \<Rightarrow> rstr dr_run" where
  "ask_directory pv files all_bytes maximum s =
     (case control_ask (pv_prompts pv) (DirectoryPrompt files all_bytes maximum) (pv_answer pv) (os_control s) of
        (None, _) \<Rightarrow> None
      | (Some r, c) \<Rightarrow> Some (map_err DlControl r, s\<lparr>os_control := c\<rparr>))"

definition chosen_mode :: "rstr \<Rightarrow> (directory_mode, dl_error) result" where
  "chosen_mode answer =
     (if answer = lit ''zip'' then Ok ZipMode else if answer = lit ''individual'' then Ok IndividualMode
      else Err (DlMsg ''Choose ZIP and send or Individual files''))"

definition directory_choice ::
  "prepare_env \<Rightarrow> directory_mode \<Rightarrow> bool \<Rightarrow> nat \<Rightarrow> u64 \<Rightarrow> nat option \<Rightarrow> directory_mode dr_run" where
  "directory_choice pv mode has_directory files all_bytes maximum =
     (if \<not> has_directory \<or> mode = ZipMode \<or> mode = IndividualMode then at_once (lift_st (Ok mode))
      else if mode = RequireFlag
      then at_once (lift_st (Err (DlMsg ''Directory uploads require --zip or --individual in plain or non-interactive mode'')))
      else and_run (ask_directory pv files all_bytes maximum) (\<lambda>answer. at_once (lift_st (chosen_mode answer))))"

definition archive_name :: "prepare_env \<Rightarrow> (rstr, dl_error) result" where
  "archive_name pv =
     (if length (pv_roots pv) = 1
      then and_then (map_err DlIo (pv_first pv)) (\<lambda>p. Ok (own_name p @ lit ''.zip''))
      else Ok TRANSFER_ZIP)"

definition individual_files :: "nat option \<Rightarrow> tree_entry list \<Rightarrow> (prepared, dl_error) result" where
  "individual_files maximum entries =
     (let files = unique_files {} entries in
      if files = [] then Err (DlMsg ''No regular files found; use --zip to send an empty directory'')
      else if exceeds maximum (length files)
      then Err (DlMsg ''individual files exceed this instance's file limit; use --zip to send one archive'')
      else
        and_then (ok_or UNREACHABLE (unique_names [] (map (\<lambda>e. own_name (te_path e)) files))) (\<lambda>names.
        Ok \<lparr>pp_files = map2 (\<lambda>name e. \<lparr>uf_path = te_path e, uf_name = name, uf_spec = SourcePath (te_path e) 0 (te_size e)\<rparr>) names files,
            pp_archive = None\<rparr>))"

definition prepare_paths :: "prepare_env \<Rightarrow> directory_mode \<Rightarrow> nat option \<Rightarrow> prepared dr_run" where
  "prepare_paths pv mode maximum =
     and_run (at_once (dr_phase (pv_cancelled pv) Preparing)) (\<lambda>_.
     and_run (awaiting (collect_roots (pv_roots pv) {} [] False [])) (\<lambda>(entries, has_directory).
     and_run (at_once (lift_st (ok_or (DlMsg ''selected files are too large'') (checked_sum 0 (map te_size entries))))) (\<lambda>all_bytes.
     and_run (directory_choice pv mode has_directory (length (unique_files {} entries)) all_bytes maximum) (\<lambda>mode.
     if mode = ZipMode then
       and_run (at_once (dr_phase (zv_archiving (pv_zip pv)) Archiving)) (\<lambda>_.
       and_run (at_once (lift_st (archive_name pv))) (\<lambda>name.
       and_run (at_once (dr_control (control_item name 1 all_bytes))) (\<lambda>_.
       build_archive (pv_zip pv) name (zip_tree (zv_entries (pv_zip pv)) [] entries))))
     else at_once (lift_st (individual_files maximum entries))))))"

section \<open>Copies in the job\<close>

text \<open>A new owner-only file with the content of another, as both \<open>retain\<close> functions write it. The content is what
  \<open>io::copy\<close> reads.\<close>

definition retain_copy :: "path \<Rightarrow> (u8 list, io_error) result \<Rightarrow> unit dr_op" where
  "retain_copy destination content =
     bind_st (dr_ft (fs_io (open_new destination 0x180))) (\<lambda>_.
     bind_st (lift_st (map_err DlIo content)) (\<lambda>bs.
     bind_st (dr_ft (fs_io (write_all destination bs))) (\<lambda>_.
     dr_ft (fs_io (sync_all destination)))))"

definition file_length :: "path \<Rightarrow> u64 dr_op" where
  "file_length p = bind_st (dr_ft (fs_io (symlink_metadata p))) (\<lambda>n. lift_st (Ok (of_nat (node_len n))))"

definition retained :: "path \<Rightarrow> u64 \<Rightarrow> upload_file \<Rightarrow> upload_file" where
  "retained destination len f = f\<lparr>uf_path := destination, uf_spec := SourcePath destination 0 len\<rparr>"

definition retain_archive :: "path \<Rightarrow> (u8 list, io_error) result \<Rightarrow> prepared \<Rightarrow> prepared dr_op" where
  "retain_archive directory content pp =
     (if pp_archive pp = None then lift_st (Ok pp)
      else case pp_files pp of
        [] \<Rightarrow> lift_st (Err (DlMsg ''generated archive is missing''))
      | f # rest \<Rightarrow>
          let destination = directory @ [lit ''source.zip''] in
          bind_st (retain_copy destination content) (\<lambda>_.
          bind_st (dr_ft (fs_io (sync_all directory))) (\<lambda>_.
          bind_st (file_length destination) (\<lambda>len.
          lift_st (Ok (pp\<lparr>pp_files := retained destination len f # rest, pp_archive := None\<rparr>))))))"

fun retain_from :: "path set \<Rightarrow> path \<Rightarrow> (nat \<Rightarrow> (u8 list, io_error) result) \<Rightarrow> nat \<Rightarrow> upload_file list \<Rightarrow> upload_file list dr_op" where
  "retain_from paths directory contents i [] = lift_st (Ok [])"
| "retain_from paths directory contents i (f # fs) =
     bind_st
       (if uf_path f \<notin> paths then lift_st (Ok f)
        else
          let destination = directory @ [lit ''source-'' @ decimal i] in
          bind_st (retain_copy destination (contents i)) (\<lambda>_.
          bind_st (file_length destination) (\<lambda>len. lift_st (Ok (retained destination len f))))) (\<lambda>f'.
     bind_st (retain_from paths directory contents (Suc i) fs) (\<lambda>fs'. lift_st (Ok (f' # fs'))))"

fun canonical_paths :: "(path, io_error) result list \<Rightarrow> (path set, dl_error) result" where
  "canonical_paths [] = Ok {}"
| "canonical_paths (r # rs) = and_then (map_err DlIo r) (\<lambda>p. and_then (canonical_paths rs) (\<lambda>ps. Ok (insert p ps)))"

definition retain_sources ::
  "(path, io_error) result list \<Rightarrow> path \<Rightarrow> (nat \<Rightarrow> (u8 list, io_error) result) \<Rightarrow> prepared \<Rightarrow> prepared dr_op" where
  "retain_sources snapshots directory contents pp =
     bind_st (lift_st (canonical_paths snapshots)) (\<lambda>paths.
     bind_st (retain_from paths directory contents 0 (pp_files pp)) (\<lambda>files. lift_st (Ok (pp\<lparr>pp_files := files\<rparr>))))"

section \<open>Snapshots of streams\<close>

text \<open>\<open>snapshot_non_seekable\<close>: the copy goes to a partial file that is renamed at the end or removed. \<open>fresh\<close> and
  \<open>fresh'\<close> are the two new identifiers.\<close>

fun snapshot_copy :: "path \<Rightarrow> u64 \<Rightarrow> (u8 list, io_error) result list \<Rightarrow> u64 \<Rightarrow> u64 dr_run" where
  "snapshot_copy partial maximum [] n = (\<lambda>s. None)"
| "snapshot_copy partial maximum (r # rs) n =
     (case r of
        Inl e \<Rightarrow> at_once (lift_st (Err (DlIo e)))
      | Inr content \<Rightarrow>
          let piece = take ZIP_BUFFER content in
          if piece = [] then at_once (bind_st (dr_ft (fs_io (sync_all partial))) (\<lambda>_. lift_st (Ok n)))
          else case checked_add n (of_nat (length piece)) of
            None \<Rightarrow> at_once (lift_st (Err (DlMsg ''snapshot is too large'')))
          | Some n' \<Rightarrow>
              if maximum < n' then at_once (lift_st (Err (DlMsg ''source exceeds the snapshot byte limit'')))
              else and_run (at_once (dr_ft (fs_io (write_all partial piece)))) (\<lambda>_. snapshot_copy partial maximum rs n'))"

definition snapshot_name :: "rstr \<Rightarrow> rstr" where
  "snapshot_name name = (case file_name (filter (\<lambda>p. p \<noteq> [] \<and> p \<noteq> lit ''.'') (split_char slash name)) of None \<Rightarrow> lit ''source'' | Some n \<Rightarrow> n)"

definition snapshot_non_seekable ::
  "path \<Rightarrow> rstr \<Rightarrow> rstr \<Rightarrow> rstr \<Rightarrow> u64 \<Rightarrow> (u8 list, io_error) result list \<Rightarrow> (source_spec \<times> source_handle) dr_run" where
  "snapshot_non_seekable directory name fresh fresh' maximum reads s =
     (let final = directory @ [fresh @ lit ''-'' @ snapshot_name name];
          partial = directory @ [lit ''.'' @ fresh' @ lit ''-'' @ snapshot_name name @ lit ''.part''] in
      case dr_ft (fs_io (create_dir_all [] directory)) s of
        (Inl e, s1) \<Rightarrow> Some (Err e, s1)
      | (Inr _, s1) \<Rightarrow>
          (case and_run (at_once (dr_ft (fs_io (open_new partial 0x1B6)))) (\<lambda>_. snapshot_copy partial maximum reads 0) s1 of
             None \<Rightarrow> None
           | Some (Inl e, s2) \<Rightarrow> Some (Err e, snd (dr_ft (on_fs (ignore (remove_file partial))) s2))
           | Some (Inr len, s2) \<Rightarrow>
               Some (bind_st (dr_ft (fs_io (rename_file partial final))) (\<lambda>_.
                     lift_st (Ok (SourcePath final 0 len, HandlePath final))) s2)))"

section \<open>A free name is found\<close>

lemma numbered_inj: "numbered se i = numbered se j \<longleftrightarrow> i = j"
proof
  assume "numbered se i = numbered se j"
  then have "decimal i @ lit '')'' @ snd se = decimal j @ lit '')'' @ snd se" by (simp add: numbered_def)
  then show "i = j" by (simp add: decimal_inj)
qed simp

lemma unique_from_None: "unique_from n used se i = None \<Longrightarrow> numbered se ` {i ..< i + n} \<subseteq> set used"
proof (induction n arbitrary: i)
  case (Suc n)
  then have "numbered se i \<in> set used" "unique_from n used se (Suc i) = None" by (simp_all split: if_splits)
  then have "numbered se i \<in> set used" "numbered se ` {Suc i ..< Suc i + n} \<subseteq> set used" using Suc.IH by blast+
  moreover have "{i ..< i + Suc n} = insert i {Suc i ..< Suc i + n}" by auto
  ultimately show ?case by simp
qed simp

lemma unique_from_total: "unique_from (Suc (length used)) used se i \<noteq> None"
proof
  assume "unique_from (Suc (length used)) used se i = None"
  from card_mono [OF _ unique_from_None [OF this]]
  have "card (numbered se ` {i ..< i + Suc (length used)}) \<le> card (set used)" by simp
  moreover have "card (numbered se ` {i ..< i + Suc (length used)}) = Suc (length used)"
    by (subst card_image) (auto simp: inj_on_def numbered_inj)
  ultimately show False using card_length [of used] by simp
qed

lemma unique_from_Some: "unique_from n used se i = Some u \<Longrightarrow> u \<notin> set used \<and> (\<exists>k. u = numbered se k)"
  by (induction n arbitrary: i) (auto split: if_splits)

lemma unique_name_total: "\<exists>u. unique_name name used = Some u"
  using unique_from_total [of used "stem_and_extension name" 2] by (auto simp: unique_name_def)

lemma unique_name_fresh: "unique_name name used = Some u \<Longrightarrow> u \<notin> set used"
  using unique_from_Some by (auto simp: unique_name_def split: if_splits simp del: unique_from.simps)

lemma portable_marks: "portable_char (of_char (CHR '' '')) = of_char (CHR '' '')" "portable_char (of_char (CHR ''('')) = of_char (CHR ''('')"
    "portable_char (of_char (CHR '')'')) = of_char (CHR '')'')"
  by (simp_all add: portable_char_def is_control_def)

lemma portable_digits: "list_all (\<lambda>c. portable_char c = c) (decimal n)"
  using decimal_digits [of n] by (auto simp: list_all_iff ascii_digit_def portable_char_def is_control_def)

lemma not_device_long:
  assumes "takeWhile (\<lambda>c. c \<noteq> dot) s = a @ lit '' ('' @ b @ lit '')''" "a \<noteq> []" "b \<noteq> []"
  shows "\<not> is_windows_device_name s"
proof -
  have long: "4 < length (takeWhile (\<lambda>c. c \<noteq> dot) s)" using assms by (cases a; cases b) auto
  have bound: "length t \<le> str_len t" for t
    by (induction t) (auto simp: str_len_def utf8_char_def)
  have "4 < length (to_ascii_uppercase (takeWhile (\<lambda>c. c \<noteq> dot) s))" using long by (simp add: to_ascii_uppercase_def)
  then have "4 < str_len (to_ascii_uppercase (takeWhile (\<lambda>c. c \<noteq> dot) s))" using bound less_le_trans by blast
  then show ?thesis using long unfolding is_windows_device_name_def dot_def [symmetric] Let_def
    by (auto simp: to_ascii_uppercase_def dest: arg_cong [where f = length])
qed

lemma numbered_safe:
  assumes "safe_filename name"
  shows "safe_filename (numbered (stem_and_extension name) k)"
proof -
  let ?mid = "lit '' ('' @ decimal k @ lit '')''"
  have chars: "list_all (\<lambda>c. portable_char c = c) name" and last: "last name \<noteq> dot" "last name \<noteq> of_char (CHR '' '')"
    and ne: "name \<noteq> []" and dev: "\<not> is_windows_device_name name"
    using assms by (auto simp: safe_filename_def dot_def)
  have mid: "list_all (\<lambda>c. portable_char c = c) ?mid" using portable_digits portable_marks by simp
  have digits: "dot \<notin> set (decimal k)" "decimal k \<noteq> []" using decimal_digits [of k] by (auto simp: list_all_iff ascii_digit_def dot_def)
  have mid_dot: "dot \<notin> set ?mid" using digits by (simp add: dot_def)
  show ?thesis
  proof (cases "rsplit_once dot name")
    case None
    then have nodot: "dot \<notin> set name" by (auto simp: rsplit_once_def split_once_None)
    then have n: "numbered (stem_and_extension name) k = name @ ?mid" by (simp add: numbered_def stem_and_extension_def None)
    have "takeWhile (\<lambda>c. c \<noteq> dot) (name @ ?mid) = name @ ?mid"
      by (rule takeWhile_eq_all_conv [THEN iffD2]) (use nodot mid_dot in auto)
    from not_device_long [OF this ne digits(2)] show ?thesis unfolding n using chars mid by (simp add: safe_filename_def dot_def)
  next
    case (Some ab)
    obtain a b where ab: "ab = (a, b)" by force
    have name: "name = a @ dot # b" "dot \<notin> set b" using rsplit_once_Some Some ab by blast+
    have b: "b \<noteq> []" using last(1) name(1) by auto
    show ?thesis
    proof (cases "a = []")
      case True
      then have n: "numbered (stem_and_extension name) k = name @ ?mid" by (simp add: numbered_def stem_and_extension_def Some ab)
      have "takeWhile (\<lambda>c. c \<noteq> dot) (name @ ?mid) = []" using name True by simp
      then have "\<not> is_windows_device_name (name @ ?mid)"
        unfolding is_windows_device_name_def dot_def [symmetric] Let_def by (simp add: to_ascii_uppercase_def str_len_def)
      then show ?thesis unfolding n using chars mid by (simp add: safe_filename_def dot_def)
    next
      case False
      then have n: "numbered (stem_and_extension name) k = a @ ?mid @ dot # b"
        by (simp add: numbered_def stem_and_extension_def Some ab)
      have "\<not> is_windows_device_name (a @ ?mid @ dot # b)"
      proof (cases "dot \<in> set a")
        case True
        then have "takeWhile (\<lambda>c. c \<noteq> dot) (a @ ?mid @ dot # b) = takeWhile (\<lambda>c. c \<noteq> dot) name"
          unfolding name by (simp add: takeWhile_append1)
        then show ?thesis using dev unfolding is_windows_device_name_def dot_def [symmetric] by simp
      next
        case nodot: False
        have "takeWhile (\<lambda>c. c \<noteq> dot) (a @ ?mid @ dot # b) = a @ ?mid" using nodot mid_dot by (simp add: takeWhile_append)
        from not_device_long [OF this \<open>a \<noteq> []\<close> digits(2)] show ?thesis by simp
      qed
      then show ?thesis unfolding n using chars mid last b name by (simp add: safe_filename_def dot_def)
    qed
  qed
qed

lemma unique_name_safe: "unique_name name used = Some u \<Longrightarrow> safe_filename name \<Longrightarrow> safe_filename u"
  using unique_from_Some [of "Suc (length used)" used "stem_and_extension name" 2 u] numbered_safe [of name]
  by (auto simp: unique_name_def split: if_splits simp del: unique_from.simps)

lemma unique_names_total: "\<exists>us. unique_names used ns = Some us"
proof (induction ns arbitrary: used)
  case (Cons n ns)
  obtain u where "unique_name n used = Some u" using unique_name_total by blast
  moreover obtain us where "unique_names (u # used) ns = Some us" using Cons.IH by blast
  ultimately show ?case by simp
qed simp

lemma unique_names_Some:
  assumes "unique_names used ns = Some us" "list_all safe_filename ns"
  shows "length us = length ns \<and> distinct us \<and> set us \<inter> set used = {} \<and> list_all safe_filename us"
  using assms
proof (induction ns arbitrary: used us)
  case (Cons n ns)
  then obtain u vs where u: "unique_name n used = Some u" "unique_names (u # used) ns = Some vs" "us = u # vs"
    by (auto simp: bind_eq_Some_conv)
  from Cons.IH [OF u(2)] Cons.prems(2) unique_name_fresh [OF u(1)] unique_name_safe [OF u(1)] u(3) show ?case by auto
qed simp

section \<open>Names that a receiver accepts\<close>

text \<open>The name checks of \<open>validate_manifest\<close>.\<close>

definition accepted_names :: "rstr list \<Rightarrow> bool" where
  "accepted_names names \<longleftrightarrow> distinct (map portable_filename names) \<and> list_all (\<lambda>n. n \<noteq> []) names"

lemma safe_names_accepted: "distinct names \<Longrightarrow> list_all safe_filename names \<Longrightarrow> accepted_names names"
  by (auto simp: accepted_names_def list_all_iff distinct_map inj_on_def portable_filename_id safe_filename_def)

lemma download_safe: "safe_filename (download_filename v)"
  using portable_filename_safe [of v] by (simp only: portable_filename_def download_filename_def)

lemma unique_names_accepted:
  assumes "unique_names [] (map (\<lambda>x. download_filename (f x)) xs) = Some us"
  shows "length us = length xs" "accepted_names us"
  using unique_names_Some [OF assms] safe_names_accepted by (auto simp: list_all_iff download_safe)

lemma names_of_map2: "length us = length xs \<Longrightarrow> (\<And>n x. uf_name (f n x) = n) \<Longrightarrow> map uf_name (map2 f us xs) = us"
  by (induction us xs rule: list_induct2) auto

lemma build_archive_names:
  assumes "build_archive zv name content s = Some (Inr pp, s')"
  shows "map uf_name (pp_files pp) = [name]"
  using assms unfolding build_archive_def and_run_Inr at_once_Inr bind_st_Inr Let_def by auto

lemma own_name_safe: "safe_filename (own_name p)"
  unfolding own_name_def by (rule download_safe)

lemma single_accepted: "n \<noteq> [] \<Longrightarrow> accepted_names [n]"
  by (simp add: accepted_names_def)

lemma from_sources_accepted:
  assumes "from_sources sources mode maximum zv s = Some (Inr pp, s')"
  shows "accepted_names (map uf_name (pp_files pp))"
proof (cases "mode = ZipMode")
  case True
  then obtain s1 where "build_archive zv TRANSFER_ZIP (zip_sources (zv_entries zv) {} [] sources) s1 = Some (Inr pp, s')"
    using assms by (auto simp: from_sources_def and_run_Inr at_once_Inr split: if_splits)
  from build_archive_names [OF this] single_accepted [of TRANSFER_ZIP] show ?thesis by (simp add: TRANSFER_ZIP_def)
next
  case False
  obtain us where us: "unique_names [] (map (\<lambda>src. flat_name (up_name src)) sources) = Some us" using unique_names_total by blast
  note acc = unique_names_accepted [OF us [unfolded flat_name_def]]
  have "pp_files pp = map2 (\<lambda>name src. \<lparr>uf_path = [], uf_name = name, uf_spec = up_spec src\<rparr>) us sources"
    using assms us False by (auto simp: from_sources_def at_once_Inr split: if_splits)
  then have "map uf_name (pp_files pp) = us" by (simp only:) (rule names_of_map2 [OF acc(1)], simp)
  then show ?thesis using acc(2) by simp
qed

lemma prepare_paths_accepted:
  assumes "prepare_paths pv mode maximum s = Some (Inr pp, s')"
  shows "accepted_names (map uf_name (pp_files pp))"
proof -
  obtain entries s1 where
      "(\<exists>name. archive_name pv = Inr name \<and> build_archive (pv_zip pv) name (zip_tree (zv_entries (pv_zip pv)) [] entries) s1 = Some (Inr pp, s'))
       \<or> individual_files maximum entries = Inr pp"
    using assms unfolding prepare_paths_def and_run_Inr at_once_Inr
    by (auto simp: and_run_Inr at_once_Inr split: if_splits prod.splits)
  then show ?thesis
  proof (elim disjE exE conjE)
    fix name assume name: "archive_name pv = Inr name" and b: "build_archive (pv_zip pv) name (zip_tree (zv_entries (pv_zip pv)) [] entries) s1 = Some (Inr pp, s')"
    have "name \<noteq> []" using name by (auto simp: archive_name_def TRANSFER_ZIP_def and_then_eq_Inr split: if_splits)
    then show ?thesis using build_archive_names [OF b] single_accepted by simp
  next
    assume ind: "individual_files maximum entries = Inr pp"
    then obtain vs where vs: "unique_names [] (map (\<lambda>e. own_name (te_path e)) (unique_files {} entries)) = Some vs"
        "pp_files pp = map2 (\<lambda>name e. \<lparr>uf_path = te_path e, uf_name = name, uf_spec = SourcePath (te_path e) 0 (te_size e)\<rparr>) vs (unique_files {} entries)"
      by (auto simp: individual_files_def Let_def and_then_eq_Inr split: if_splits)
    note acc' = unique_names_accepted [OF vs(1) [unfolded own_name_def]]
    have "map uf_name (pp_files pp) = vs" unfolding vs(2) by (rule names_of_map2 [OF acc'(1)]) simp
    then show ?thesis using acc'(2) by simp
  qed
qed

text \<open>C26. Whatever is selected, a receiver accepts the names: when the items of an upload are taken from sources or from
  paths, as one archive or one by one, no two of their names are the same portable name and none is empty; and for
  sources sent one by one within the limit there always is a result, with one item for each.\<close>

theorem sent_names_are_accepted:
  "(case from_sources sources mode maximum zv s of
      Some (Inr pp, _) \<Rightarrow> accepted_names (map uf_name (pp_files pp)) | _ \<Rightarrow> True)
   \<and> (case prepare_paths pv mode maximum s of
        Some (Inr pp, _) \<Rightarrow> accepted_names (map uf_name (pp_files pp)) | _ \<Rightarrow> True)
   \<and> (if mode = ZipMode \<or> exceeds maximum (length sources) then True
      else \<exists>pp. from_sources sources mode maximum zv s = Some (Ok pp, s) \<and> length (pp_files pp) = length sources)"
proof -
  obtain us where us: "unique_names [] (map (\<lambda>src. flat_name (up_name src)) sources) = Some us" using unique_names_total by blast
  from unique_names_accepted(1) [OF us [unfolded flat_name_def]] us
  have "if mode = ZipMode \<or> exceeds maximum (length sources) then True
      else \<exists>pp. from_sources sources mode maximum zv s = Some (Ok pp, s) \<and> length (pp_files pp) = length sources"
    by (auto simp: from_sources_def at_once_def lift_st_def)
  then show ?thesis using from_sources_accepted prepare_paths_accepted
    by (intro conjI) (auto split: option.split prod.split sum.split)
qed

section \<open>Archives\<close>

lemma copy_source_length: "copy_source reads n acc = Some (Inr content) \<Longrightarrow> length content = length acc + n"
proof (induction reads n acc rule: copy_source.induct)
  case (1 reads n acc)
  show ?case
  proof (cases "n = 0")
    case True
    then show ?thesis using "1.prems" by (simp add: copy_source.simps)
  next
    case False
    then obtain c b w rest where reads: "reads = (c, b, w) # rest" using "1.prems" by (cases reads) (auto simp: copy_source.simps)
    obtain bs where b: "b = Inr bs" "take (min n ZIP_BUFFER) bs \<noteq> []" "\<not> c" "w"
        "copy_source rest (n - length (take (min n ZIP_BUFFER) bs)) (acc @ take (min n ZIP_BUFFER) bs) = Some (Inr content)"
      using "1.prems" False reads by (subst (asm) copy_source.simps) (auto simp: Let_def split: if_splits sum.splits)
    from "1.IH" [OF False reads refl refl b(3,1) refl b(2) _ b(5)] b(4) show ?thesis by simp
  qed
qed

lemma split_join: "ps \<noteq> [] \<Longrightarrow> list_all (\<lambda>p. slash \<notin> set p) ps \<Longrightarrow> split_char slash (join_slash ps) = ps"
proof (induction ps rule: join_slash.induct)
  case (2 p)
  have "slash \<notin> set p \<Longrightarrow> split_char slash p = [p]" by (induction p) auto
  then show ?case using 2 by simp
next
  case (3 p q ps)
  have "slash \<notin> set p \<Longrightarrow> split_char slash (p @ slash # r) = p # split_char slash r" for r by (induction p) auto
  then show ?case using 3 by simp
qed simp

lemma safe_no_slash: "safe_filename n \<Longrightarrow> slash \<notin> set n"
  by (auto simp: safe_filename_def list_all_iff slash_def portable_char_def)

lemma safe_archive_path_parts:
  assumes "safe_archive_path v = Inr name"
  shows "list_all safe_filename (split_char slash name)"
proof -
  let ?ps = "map download_filename (split_char slash v)"
  have "name = join_slash ?ps" "split_char slash v \<noteq> []"
    using assms by (auto simp: safe_archive_path_def Let_def split: if_splits)
  moreover have "list_all safe_filename ?ps" by (simp add: list_all_iff download_safe)
  ultimately show ?thesis using split_join [of ?ps] safe_no_slash by (auto simp: list_all_iff)
qed

fun entry_name :: "zip_entry \<Rightarrow> rstr" where
  "entry_name (ZipDirectory n) = n"
| "entry_name (ZipFile n _) = n"

definition archived :: "upload_source \<Rightarrow> zip_entry \<Rightarrow> bool" where
  "archived src e \<longleftrightarrow>
     (case e of
        ZipDirectory _ \<Rightarrow> False
      | ZipFile name content \<Rightarrow>
          list_all safe_filename (split_char slash name) \<and> length content = unat (snd (bounds (up_spec src))))"

lemma zip_sources_archived:
  assumes "zip_sources envs paths entries sources = Some (Inr es)" "paths = entry_name ` set entries" "distinct (map entry_name entries)"
  shows "\<exists>new. es = entries @ new \<and> list_all2 archived sources new \<and> distinct (map entry_name es)"
  using assms
proof (induction envs paths entries sources rule: zip_sources.induct)
  case (3 en envs paths entries src rest)
  then obtain name content where step: "safe_archive_path (up_name src) = Inr name" "name \<notin> paths"
      "copy_source (en_reads en) (unat (snd (bounds (up_spec src)))) [] = Some (Inr content)"
      "zip_sources envs (insert name paths) (entries @ [ZipFile name content]) rest = Some (Inr es)"
      "\<not> en_cancelled en" "en_start en" "open_source en (up_spec src) = Inr ()"
    by (auto split: if_splits sum.splits option.splits)
  have "\<exists>new. es = (entries @ [ZipFile name content]) @ new \<and> list_all2 archived rest new \<and> distinct (map entry_name es)"
    by (rule "3.IH" [OF step(5,1,2) _ step(7,3) refl step(4)]) (use 3 step in auto)
  moreover have "archived src (ZipFile name content)"
    using safe_archive_path_parts [OF step(1)] copy_source_length [OF step(3)] by (simp add: archived_def)
  ultimately show ?case by auto
qed auto

text \<open>C28. An archive of sources holds exactly them and nothing can leave it: it has one entry for each source, in order,
  with exactly the declared number of bytes; no two entries have the same path; and every part of every path is a
  portable file name, so no path is absolute, climbs to a parent or names a device.\<close>

theorem archive_is_safe_and_whole:
  "case zip_sources envs {} [] sources of
     Some (Inr entries) \<Rightarrow> list_all2 archived sources entries \<and> distinct (map entry_name entries)
   | _ \<Rightarrow> True"
  using zip_sources_archived [of envs "{}" "[]" sources] by (auto split: option.split sum.split)

end
