(* ===== verification/Upload_New.thy ===== *)
theory Upload_New
  imports Upload_Resume Upload_Collect
begin

text \<open>
  Starting an upload, from \<open>crates/transfer-native/src/protocol/upload.rs\<close>: \<open>run_new\<close> asks the instance for its
  limits, collects and measures the sources, fingerprints them, writes a first checkpoint, reserves the transfer,
  stores the credentials and the items with fresh nonce prefixes, and continues or prepares the job for the host. The
  \<open>k\<close>-th random number generator is \<open>ne_rng k\<close>. Shown: a reserved upload has a valid checkpoint with one item for each
  source and names a receiver accepts; a job saved while it was reserving can be neither resumed nor revoked.
\<close>

section \<open>The instance\<close>

record upload_info =
  nf_anonymous_uploads_enabled :: bool
  nf_enabled_drivers :: "rstr list"
  nf_chunk_bytes :: u64
  nf_file_retention_hours :: u64
  nf_file_retention_options :: "u64 list"
  nf_maximum_transfer_bytes :: "u64 option"
  nf_maximum_file_count :: "nat option"
  nf_transport_limits :: "rstr \<rightharpoonup> driver_limits"
  nf_upload_concurrency :: "u32 option"
  nf_upload_status :: bool

record created_item =
  ci_id :: rstr
  ci_position :: u64

record created =
  cr_id :: rstr
  cr_share_url :: rstr
  cr_chunk_bytes :: u64
  cr_upload_transport :: "upload_transport option"
  cr_items :: "created_item list"
  cr_upload_token :: rstr
  cr_monitor_token :: "rstr option"
  cr_delete_token :: rstr
  cr_driver :: rstr
  cr_join_token :: "rstr option"

datatype authentication = Anonymous | Bearer rstr | SessionCookie rstr

record upload_options =
  uo_attached_note :: "attached_note option"
  uo_turbo :: bool
  uo_password :: bool
  uo_retention_hours :: "u64 option"
  uo_authentication :: authentication
  uo_recipient :: "upload_recipient option"

datatype inputs = InputPaths prepare_env | InputSources "upload_source list" zip_env

record new_parse =
  np_info :: "u8 list \<Rightarrow> upload_info option"
  np_created :: "u8 list \<Rightarrow> created option"

record new_env =
  ne_connecting :: bool
  ne_client :: bool
  ne_info :: Upload_Stage.exchange
  ne_inputs :: inputs
  ne_archive :: "(u8 list, io_error) result"
  ne_snapshots :: "(path, io_error) result list"
  ne_contents :: "nat \<Rightarrow> (u8 list, io_error) result"
  ne_metadata :: "nat \<Rightarrow> source_world"
  ne_fingerprints :: "nat \<Rightarrow> fingerprint_env"
  ne_rng :: "nat \<Rightarrow> rng"
  ne_unlock :: unlock_env
  ne_created :: Upload_Stage.exchange
  ne_memory :: bool

primrec traverse :: "('a \<Rightarrow> ('b, 'e) result) \<Rightarrow> 'a list \<Rightarrow> ('b list, 'e) result" where
  "traverse f [] = Ok []"
| "traverse f (x # xs) = and_then (f x) (\<lambda>y. and_then (traverse f xs) (\<lambda>ys. Ok (y # ys)))"

definition ensure_unique_source_names :: "upload_source list \<Rightarrow> (unit, dl_error) result" where
  "ensure_unique_source_names sources =
     (if distinct (map up_name sources) then Ok ()
      else Err (DlMsg ''Two selected sources have the same original name''))"

definition check_instance :: "rstr \<Rightarrow> upload_options \<Rightarrow> upload_info \<Rightarrow> (u64, dl_error) result" where
  "check_instance driver opts info =
     (if \<not> nf_anonymous_uploads_enabled info \<and> uo_authentication opts = Anonymous \<or> driver \<notin> set (nf_enabled_drivers info)
      then Err (DlMsg ''this instance does not allow uploads with this authentication'')
      else if nf_chunk_bytes info = 0 \<or> 24999984 < nf_chunk_bytes info then Err (DlMsg ''server supplied an invalid chunk size'')
      else select_retention (nf_file_retention_hours info) (nf_file_retention_options info) (uo_retention_hours opts))"

definition upload_limits :: "rstr \<Rightarrow> upload_info \<Rightarrow> driver_limits" where
  "upload_limits driver info =
     select_driver_limits driver (nf_transport_limits info) (nf_maximum_transfer_bytes info) (nf_maximum_file_count info)"

section \<open>The sources\<close>

definition us_dr_run :: "'a dr_run \<Rightarrow> 'a us_run" where
  "us_dr_run m s = map_option (\<lambda>(r, t). (r, s\<lparr>us_open := t\<rparr>)) (m (us_open s))"

definition collect_inputs :: "inputs \<Rightarrow> directory_mode \<Rightarrow> nat option \<Rightarrow> prepared dr_run" where
  "collect_inputs inp mode maximum =
     (case inp of InputPaths pv \<Rightarrow> prepare_paths pv mode maximum | InputSources srcs zv \<Rightarrow> from_sources srcs mode maximum zv)"

definition gather :: "up_ctx \<Rightarrow> new_env \<Rightarrow> directory_mode \<Rightarrow> nat option \<Rightarrow> prepared us_run" where
  "gather cx env mode maximum =
     and_run (us_dr_run (collect_inputs (ne_inputs env) mode maximum)) (\<lambda>pp.
     at_once (us_dr (
       bind_st (retain_archive (up_dir cx) (ne_archive env) pp) (\<lambda>pp.
       retain_sources (ne_snapshots env) (up_dir cx) (ne_contents env) pp))))"

definition measured :: "new_env \<Rightarrow> prepared \<Rightarrow> (source list, dl_error) result" where
  "measured env pp = traverse (\<lambda>(i, f). source_metadata (ne_metadata env i) (uf_spec f)) (enumerate 0 (pp_files pp))"

fun declared_bytes :: "u64 \<Rightarrow> u64 \<Rightarrow> source list \<Rightarrow> (u64, dl_error) result" where
  "declared_bytes chunk_bytes n [] = Ok n"
| "declared_bytes chunk_bytes n (src # rest) =
     and_then (estimate_ciphertext_bytes (src_bytes src) chunk_bytes) (\<lambda>sealed.
     and_then (ok_or (DlMsg ''selected files are too large'') (checked_add n sealed)) (\<lambda>n'. declared_bytes chunk_bytes n' rest))"

definition measure_sources :: "new_env \<Rightarrow> u64 option \<Rightarrow> u64 \<Rightarrow> prepared \<Rightarrow> (u64, dl_error) result" where
  "measure_sources env limit chunk_bytes pp =
     and_then (measured env pp) (\<lambda>ms.
     and_then (ok_or (DlMsg ''selected files are too large'') (checked_sum 0 (map src_bytes ms))) (\<lambda>all_bytes.
     and_then (declared_bytes chunk_bytes 0 ms) (\<lambda>declared.
     if (case limit of None \<Rightarrow> False | Some l \<Rightarrow> l < declared)
     then Err (DlMsg ''the encrypted transfer exceeds this instance's size limit'') else Ok all_bytes)))"

definition fingerprint_sources :: "up_ctx \<Rightarrow> new_env \<Rightarrow> u64 \<Rightarrow> prepared \<Rightarrow> (source list, dl_error) result" where
  "fingerprint_sources cx env chunk_bytes pp =
     traverse (\<lambda>(i, f). let fe = ne_fingerprints env i in
       fingerprint (ux_sha cx) (fe_metadata fe) (fe_open fe) (fe_reads fe) (uf_spec f) chunk_bytes) (enumerate 0 (pp_files pp))"

text \<open>The size that the manifest will have, with placeholders for what the server adds.\<close>

definition preview_item :: "u64 \<Rightarrow> upload_file \<times> source \<Rightarrow> manifest_item" where
  "preview_item chunk_bytes fs =
     \<lparr>mi_id = replicate 26 0x30, mi_name = uf_name (fst fs), mi_mime = OCTET_STREAM, mi_size = src_bytes (snd fs),
      mi_nonce_prefix = replicate 22 0x30, mi_chunk_count = max (div_ceil (src_bytes (snd fs)) chunk_bytes) 1,
      mi_digest = \<lparr>digest_algorithm = lit ''sha256'', digest_hex = replicate 64 0x30\<rparr>\<rparr>"

definition note_fits :: "up_json \<Rightarrow> u64 \<Rightarrow> attached_note option \<Rightarrow> upload_file list \<Rightarrow> source list \<Rightarrow> (unit, dl_error) result" where
  "note_fits jx chunk_bytes attached files sources =
     (case attached of
        None \<Rightarrow> Ok ()
      | Some n \<Rightarrow>
          and_then (map_err DlMsg (note_validate n)) (\<lambda>_.
          and_then (ok_or (DlMsg ''serialize manifest'') (jx_manifest jx
            \<lparr>mf_attached_note = Some n, mf_join_token = None, mf_version = 1,
             mf_items = map (preview_item chunk_bytes) (List.zip files sources)\<rparr>)) (\<lambda>content.
          if 524288 < ((length content + 16) * 4 + 2) div 3 + 512
          then Err (DlMsg ''encrypted transfer metadata exceeds 512 KiB; shorten the note or filenames'') else Ok ())))"

section \<open>The first checkpoint\<close>

definition fresh_job ::
  "up_ctx \<Rightarrow> new_env \<Rightarrow> rstr \<Rightarrow> rstr \<Rightarrow> upload_options \<Rightarrow> upload_info \<Rightarrow> u64 \<Rightarrow> (upload_job, dl_error) result" where
  "fresh_job cx env inst driver opts info all_bytes =
     and_then (map_err DlMsg (generate_transfer_key (ne_rng env 0))) (\<lambda>key.
     and_then (if uo_password opts
               then and_then (map_err DlMsg (generate_nonce_prefix (ne_rng env 1))) (\<lambda>salt. Ok (Some (ux_encode cx salt)))
               else Ok None) (\<lambda>salt.
     Ok \<lparr>uj_sealed_attached_note = None, uj_version = 1, uj_id = last (up_dir cx), uj_direction = lit ''upload'',
         uj_state = lit ''reserving'', uj_instance = trim_end_matches (\<lambda>c. c = slash) inst, uj_done = 0, uj_total = all_bytes,
         uj_transfer_id = None, uj_upload_token = None, uj_monitor_token = None, uj_share_url = None, uj_delete_token = None,
         uj_share_key = key, uj_password_salt = salt, uj_master_key = [], uj_chunk_bytes = nf_chunk_bytes info,
         uj_server_concurrency = clamp 1 8 (case nf_upload_concurrency info of None \<Rightarrow> 8 | Some n \<Rightarrow> n),
         uj_upload_status = nf_upload_status info, uj_turbo = uo_turbo opts, uj_descriptor_published = False,
         uj_encrypted_descriptor = None, uj_transport = None, uj_driver = driver, uj_join_token = None,
         uj_exact_manifest = None, uj_receipt = None,
         uj_recipient = map_option (\<lambda>r. r\<lparr>rc_encrypted_key := None\<rparr>) (uo_recipient opts), uj_items = [], uj_chunks = []\<rparr>))"

definition keep_note :: "up_ctx \<Rightarrow> up_json \<Rightarrow> new_env \<Rightarrow> attached_note option \<Rightarrow> upload_job \<Rightarrow> upload_job us_op" where
  "keep_note cx jx env attached job =
     (case attached of
        None \<Rightarrow> lift_st (Ok job)
      | Some n \<Rightarrow>
          bind_st (us_ct (unlock_job cx (ne_unlock env) job)) (\<lambda>job. lift_st (seal_attached_note cx jx n job)))"

section \<open>The reservation\<close>

definition reserved_sizes :: "u64 \<Rightarrow> source list \<Rightarrow> ((u64 \<times> u64) list, dl_error) result" where
  "reserved_sizes chunk_bytes sources =
     traverse (\<lambda>src. and_then (estimate_ciphertext_bytes (src_bytes src) chunk_bytes) (\<lambda>n.
       and_then (upload_chunk_count (src_bytes src) chunk_bytes) (\<lambda>k. Ok (n, k)))) sources"

definition created_invalid :: "rstr \<Rightarrow> upload_job \<Rightarrow> nat \<Rightarrow> created \<Rightarrow> bool" where
  "created_invalid driver job n c \<longleftrightarrow>
     cr_driver c \<noteq> driver \<or> cr_chunk_bytes c \<noteq> uj_chunk_bytes job \<or> length (cr_items c) \<noteq> n
     \<or> list_ex (\<lambda>(i, item). ci_position item \<noteq> of_nat i) (enumerate 0 (cr_items c))"

definition check_created :: "rstr \<Rightarrow> upload_job \<Rightarrow> nat \<Rightarrow> created \<Rightarrow> (unit, dl_error) result" where
  "check_created driver job n c =
     (if created_invalid driver job n c then Err (DlMsg ''server transfer reservation is invalid'')
      else case cr_upload_transport c of None \<Rightarrow> Ok () | Some t \<Rightarrow> map_err DlMsg (transport_validate t))"

definition reserve_transfer ::
  "new_parse \<Rightarrow> new_env \<Rightarrow> rstr \<Rightarrow> source list \<Rightarrow> upload_job \<Rightarrow> created us_op" where
  "reserve_transfer np env driver sources job =
     bind_st (lift_st (reserved_sizes (uj_chunk_bytes job) sources)) (\<lambda>sizes.
     bind_st (us_log_event (ReserveRequest (uj_instance job @ lit ''/api/v1/transfers'') (uj_chunk_bytes job) sizes)) (\<lambda>_.
     bind_st (lift_st (json_response (np_created np) (ne_created env))) (\<lambda>c.
     bind_st (lift_st (check_created driver job (length sources) c)) (\<lambda>_. lift_st (Ok c)))))"

definition seal_recipient :: "up_ctx \<Rightarrow> rstr \<Rightarrow> upload_job \<Rightarrow> (upload_job, dl_error) result" where
  "seal_recipient cx transfer job =
     (case uj_recipient job of
        None \<Rightarrow> Ok job
      | Some r \<Rightarrow>
          and_then (ok_or (DlMsg ''recipient public key is invalid'') (ux_decode cx (rc_public_key r))) (\<lambda>public.
          and_then (map_err DlMsg (seal_key_for_recipient (ux_crypto cx) public (uj_share_key job)
            (bytes (lit ''filebeam:recipient:v1:'' @ transfer @ lit '':'' @ decimal (unat (rc_user_id r)) @ lit '':''
                    @ decimal (unat (rc_account_key_bundle_id r)))))) (\<lambda>sealed.
          Ok (job\<lparr>uj_recipient := Some (r\<lparr>rc_encrypted_key := Some (ux_encode cx sealed)\<rparr>)\<rparr>))))"

definition take_credentials :: "created \<Rightarrow> upload_job \<Rightarrow> upload_job" where
  "take_credentials c job =
     job\<lparr>uj_transfer_id := Some (cr_id c), uj_upload_token := Some (cr_upload_token c), uj_monitor_token := cr_monitor_token c,
         uj_delete_token := Some (cr_delete_token c), uj_share_url := Some (cr_share_url c), uj_transport := cr_upload_transport c,
         uj_join_token := cr_join_token c\<rparr>"

definition new_item :: "up_ctx \<Rightarrow> new_env \<Rightarrow> u64 \<Rightarrow> nat \<times> (upload_file \<times> source) \<times> created_item \<Rightarrow> (upload_item, dl_error) result" where
  "new_item cx env chunk_bytes x =
     (let i = fst x; f = fst (fst (snd x)); src = snd (fst (snd x)); server = snd (snd x) in
      and_then (map_err DlMsg (generate_nonce_prefix (ne_rng env (i + 2)))) (\<lambda>prefix.
      and_then (upload_chunk_count (src_bytes src) chunk_bytes) (\<lambda>n.
      Ok \<lparr>ui_id = ci_id server, ui_position = ci_position server, ui_name = uf_name f, ui_source = src,
          ui_nonce_prefix = ux_encode cx prefix, ui_digest = src_digest src, ui_bytes = src_bytes src, ui_chunk_count = n\<rparr>)))"

definition new_items ::
  "up_ctx \<Rightarrow> new_env \<Rightarrow> u64 \<Rightarrow> upload_file list \<Rightarrow> source list \<Rightarrow> created_item list \<Rightarrow> (upload_item list, dl_error) result" where
  "new_items cx env chunk_bytes files sources servers =
     traverse (new_item cx env chunk_bytes) (enumerate 0 (List.zip (List.zip files sources) servers))"

definition reserve_items ::
  "up_ctx \<Rightarrow> new_env \<Rightarrow> upload_file list \<Rightarrow> source list \<Rightarrow> created \<Rightarrow> upload_job \<Rightarrow> (upload_job, dl_error) result" where
  "reserve_items cx env files sources c job =
     and_then (seal_recipient cx (cr_id c) (take_credentials c job)) (\<lambda>job.
     if uj_driver job = lit ''webrtc'' \<and> blank (uj_join_token job)
     then Err (DlMsg ''server did not provide a live transfer join token'')
     else
       and_then (new_items cx env (uj_chunk_bytes job) files sources (cr_items c)) (\<lambda>items.
       Ok (job\<lparr>uj_items := items\<rparr>)))"

text \<open>The credentials are saved while the job is still reserving; then a note is tried in the manifest.\<close>

definition finish_reservation :: "up_ctx \<Rightarrow> up_json \<Rightarrow> new_env \<Rightarrow> upload_job \<Rightarrow> upload_job us_op" where
  "finish_reservation cx jx env job =
     bind_st (us_dr (save_upload cx job)) (\<lambda>_.
     bind_st (if uj_sealed_attached_note job = None then lift_st (Ok ())
              else bind_st (us_ct (encrypted_manifest cx jx (ne_memory env) job)) (\<lambda>_. lift_st (Ok ()))) (\<lambda>_.
     let job = job\<lparr>uj_state := lit ''preparing''\<rparr> in
     bind_st (us_dr (save_upload cx job)) (\<lambda>_.
     bind_st (us_control (set_checkpoint_id (uj_id job))) (\<lambda>_. lift_st (Ok job)))))"

definition reserve_job ::
  "up_ctx \<Rightarrow> up_json \<Rightarrow> new_parse \<Rightarrow> new_env \<Rightarrow> rstr \<Rightarrow> upload_file list \<Rightarrow> source list \<Rightarrow> upload_job \<Rightarrow> upload_job us_op" where
  "reserve_job cx jx np env driver files sources job =
     bind_st (us_dr (save_upload cx job)) (\<lambda>_.
     bind_st (reserve_transfer np env driver sources job) (\<lambda>c.
     bind_st (lift_st (reserve_items cx env files sources c job)) (finish_reservation cx jx env)))"

section \<open>A new upload\<close>

definition ask_instance :: "new_parse \<Rightarrow> new_env \<Rightarrow> rstr \<Rightarrow> rstr \<Rightarrow> upload_options \<Rightarrow> upload_info us_op" where
  "ask_instance np env inst driver opts =
     bind_st (us_dr (dr_phase (ne_connecting env) Connecting)) (\<lambda>_.
     if uo_recipient opts \<noteq> None \<and> (driver \<noteq> lit ''http'' \<or> uo_password opts)
     then lift_st (Err (DlMsg ''inbox delivery requires HTTP without password protection''))
     else
       bind_st (lift_st (build_client (ne_client env))) (\<lambda>_.
       bind_st (us_log_event (InfoRequest (inst @ lit ''/api/v1/info''))) (\<lambda>_.
       bind_st (lift_st (json_response (np_info np) (ne_info env))) (\<lambda>info.
       bind_st (lift_st (check_instance driver opts info)) (\<lambda>_. lift_st (Ok info))))))"

definition start_job ::
  "up_ctx \<Rightarrow> up_json \<Rightarrow> new_parse \<Rightarrow> new_env \<Rightarrow> rstr \<Rightarrow> rstr \<Rightarrow> upload_options \<Rightarrow> upload_info \<Rightarrow> prepared \<Rightarrow> upload_job us_op" where
  "start_job cx jx np env inst driver opts info pp =
     (let chunk_bytes = nf_chunk_bytes info; files = pp_files pp in
      bind_st (lift_st (measure_sources env (maximum_transfer_bytes (upload_limits driver info)) chunk_bytes pp)) (\<lambda>all_bytes.
      bind_st (lift_st (fingerprint_sources cx env chunk_bytes pp)) (\<lambda>sources.
      bind_st (lift_st (note_fits jx chunk_bytes (uo_attached_note opts) files sources)) (\<lambda>_.
      bind_st (us_control (control_totals all_bytes (length sources))) (\<lambda>_.
      bind_st (lift_st (fresh_job cx env inst driver opts info all_bytes)) (\<lambda>job.
      bind_st (keep_note cx jx env (uo_attached_note opts) job) (\<lambda>job.
      reserve_job cx jx np env driver files sources job)))))))"

definition new_upload ::
  "up_ctx \<Rightarrow> up_json \<Rightarrow> new_parse \<Rightarrow> new_env \<Rightarrow> rstr \<Rightarrow> directory_mode \<Rightarrow> rstr \<Rightarrow> upload_options \<Rightarrow> upload_job us_run" where
  "new_upload cx jx np env inst mode driver opts =
     and_run (at_once (ask_instance np env inst driver opts)) (\<lambda>info.
     and_run (gather cx env mode (maximum_file_count (upload_limits driver info))) (\<lambda>pp.
     at_once (start_job cx jx np env inst driver opts info pp)))"

definition run_new ::
  "up_ctx \<Rightarrow> up_json \<Rightarrow> up_parse \<Rightarrow> new_parse \<Rightarrow> new_env \<Rightarrow> continue_env \<Rightarrow> rstr \<Rightarrow> directory_mode \<Rightarrow> rstr \<Rightarrow> bool \<Rightarrow> upload_options \<Rightarrow> rstr us_run" where
  "run_new cx jx pr np env cenv inst mode driver background opts =
     owning_run cx (and_run (new_upload cx jx np env inst mode driver opts) (\<lambda>job.
     if background then
       and_run (prepare_background_job cx jx pr cenv job) (\<lambda>job. at_once (lift_st (Ok (uj_id job))))
     else continue_job cx jx pr cenv job))"

section \<open>What a reservation holds\<close>

lemma traverse_Inr: "traverse f xs = Inr ys \<longleftrightarrow> list_all2 (\<lambda>x y. f x = Inr y) xs ys"
  by (induction xs arbitrary: ys) (auto simp: and_then_eq_Inr list_all2_Cons1)

lemma traverse_enumerate:
  "traverse f (enumerate 0 xs) = Inr ys \<longleftrightarrow> length xs = length ys \<and> (\<forall>i < length xs. f (i, xs ! i) = Inr (ys ! i))"
  by (auto simp: traverse_Inr list_all2_conv_all_nth nth_enumerate_eq)

lemma checked_sum_Some: "checked_sum n xs = Some m \<Longrightarrow> m = n + sum_list xs"
proof (induction xs arbitrary: n)
  case (Cons x xs)
  then have "checked_sum (n + x) xs = Some m" by (auto simp: bind_eq_Some_conv checked_add_def split: if_splits)
  from Cons.IH [OF this] show ?case by (simp add: add.assoc)
qed simp

lemma fingerprint_fields:
  assumes "fingerprint sha w1 w2 reads spec c = Inr src" "sha_hex sha"
  shows "src_bytes src = snd (bounds spec)" "valid_digest (src_digest src)" "list_all valid_digest (src_chunk_digests src)"
    "upload_chunk_count (src_bytes src) c = Inr (of_nat (length (src_chunk_digests src)))"
proof -
  show "src_bytes src = snd (bounds spec)" "valid_digest (src_digest src)" "list_all valid_digest (src_chunk_digests src)"
    using fingerprint_Ok [OF assms(1)] assms(2) by (auto simp: sha_hex_def list_all_iff)
  show "upload_chunk_count (src_bytes src) c = Inr (of_nat (length (src_chunk_digests src)))"
    using assms(1) by (auto simp: fingerprint_def and_then_eq_Inr Let_def split: if_splits)
qed

lemma gather_accepted:
  assumes "gather cx env mode maximum s = Some (Inr pp, s')"
  shows "accepted_names (map uf_name (pp_files pp))"
proof -
  have retain: "map uf_name fs' = map uf_name fs" if "retain_from paths d contents i fs t = (Inr fs', t')" for paths d contents i fs t fs' t'
    using that
  proof (induction fs arbitrary: i t fs' t')
    case (Cons f fs)
    then show ?case by (fastforce simp: bind_st_Inr retained_def Let_def split: if_splits)
  qed simp
  obtain p1 s1 where start: "us_dr_run (collect_inputs (ne_inputs env) mode maximum) s = Some (Inr p1, s1)"
      and rest: "us_dr (bind_st (retain_archive (up_dir cx) (ne_archive env) p1) (\<lambda>pp.
        retain_sources (ne_snapshots env) (up_dir cx) (ne_contents env) pp)) s1 = (Inr pp, s')"
    using assms unfolding gather_def and_run_Inr at_once_Inr by blast
  obtain t where "collect_inputs (ne_inputs env) mode maximum (us_open s) = Some (Inr p1, t)"
    using start by (auto simp: us_dr_run_def)
  then have acc: "accepted_names (map uf_name (pp_files p1))"
    using from_sources_accepted prepare_paths_accepted by (auto simp: collect_inputs_def split: inputs.splits)
  obtain p2 t1 t2 t3 where run: "retain_archive (up_dir cx) (ne_archive env) p1 t1 = (Inr p2, t2)"
      "retain_sources (ne_snapshots env) (up_dir cx) (ne_contents env) p2 t2 = (Inr pp, t3)"
    using rest by (auto simp: us_dr_def bind_st_Inr split: prod.splits)
  from run(1) have "map uf_name (pp_files p2) = map uf_name (pp_files p1)"
    by (auto simp: retain_archive_def bind_st_Inr Let_def retained_def split: if_splits list.splits)
  moreover from run(2) have "map uf_name (pp_files pp) = map uf_name (pp_files p2)"
    by (auto simp: retain_sources_def bind_st_Inr dest: retain)
  ultimately show ?thesis using acc by simp
qed

lemma keep_note_same:
  assumes "keep_note cx jx env attached job s = (Inr job', s')"
  shows "\<exists>k v. job' = job\<lparr>uj_master_key := k, uj_sealed_attached_note := v\<rparr>"
proof (cases attached)
  case None
  then have "job' = job\<lparr>uj_master_key := uj_master_key job, uj_sealed_attached_note := uj_sealed_attached_note job\<rparr>"
    using assms by (simp add: keep_note_def)
  then show ?thesis by blast
next
  case (Some n)
  then obtain job1 s1 where one: "us_ct (unlock_job cx (ne_unlock env) job) s = (Inr job1, s1)" "seal_attached_note cx jx n job1 = Inr job'"
    using assms by (auto simp: keep_note_def bind_st_Inr)
  obtain k where k: "job1 = job\<lparr>uj_master_key := k\<rparr>" using us_ct_Inr [OF one(1)] unlock_job_same by blast
  obtain v where "job' = job1\<lparr>uj_sealed_attached_note := v\<rparr>" using one(2) by (auto simp: seal_attached_note_def and_then_eq_Inr)
  then show ?thesis unfolding k by blast
qed

lemma seal_recipient_same:
  assumes "seal_recipient cx t job = Inr job'"
  shows "\<exists>r. job' = job\<lparr>uj_recipient := r\<rparr> \<and> (uj_recipient job = None \<longrightarrow> r = None)"
proof (cases "uj_recipient job")
  case None
  then have "job' = job" using assms by (simp add: seal_recipient_def)
  moreover have "job\<lparr>uj_recipient := uj_recipient job\<rparr> = job" by simp
  ultimately show ?thesis unfolding None by (intro exI [of _ None]) simp
next
  case (Some r)
  obtain r' where "job' = job\<lparr>uj_recipient := Some r'\<rparr>"
    using assms unfolding seal_recipient_def Some option.case and_then_eq_Inr sum.inject
    by (elim exE conjE) (rule that, erule sym)
  then show ?thesis unfolding Some by (intro exI [of _ "Some r'"]) simp
qed

lemma bind_Inr_step:
  assumes "bind_st m f s = (Inr y, s')"
  obtains x s1 where "m s = (Inr x, s1)" "f x s1 = (Inr y, s')"
  using assms by (auto simp: bind_st_Inr)

lemma finish_reservation_Ok:
  assumes "finish_reservation cx jx env job s = (Inr job', s')"
  shows "job' = job\<lparr>uj_state := lit ''preparing''\<rparr>"
  using assms unfolding finish_reservation_def Let_def bind_st_Inr lift_st_def prod.inject sum.inject by blast

lemma reserve_items_Ok:
  assumes "reserve_items cx env files sources c job = Inr job'"
  obtains r items where "new_items cx env (uj_chunk_bytes job) files sources (cr_items c) = Inr items"
    "job' = (take_credentials c job)\<lparr>uj_recipient := r, uj_items := items\<rparr>"
    "uj_recipient job = None \<longrightarrow> r = None" "uj_driver job = lit ''webrtc'' \<longrightarrow> \<not> blank (cr_join_token c)"
proof -
  obtain job2 where seal: "seal_recipient cx (cr_id c) (take_credentials c job) = Inr job2"
      and rest: "(if uj_driver job2 = lit ''webrtc'' \<and> blank (uj_join_token job2)
        then Err (DlMsg ''server did not provide a live transfer join token'')
        else and_then (new_items cx env (uj_chunk_bytes job2) files sources (cr_items c)) (\<lambda>items. Ok (job2\<lparr>uj_items := items\<rparr>))) = Inr job'"
    using assms unfolding reserve_items_def and_then_eq_Inr by (elim exE conjE) (rule that)
  obtain r where r: "job2 = (take_credentials c job)\<lparr>uj_recipient := r\<rparr>" "uj_recipient (take_credentials c job) = None \<longrightarrow> r = None"
    using seal_recipient_same [OF seal] by (elim exE conjE) (rule that)
  have same: "uj_driver job2 = uj_driver job" "uj_join_token job2 = cr_join_token c" "uj_chunk_bytes job2 = uj_chunk_bytes job"
      "uj_recipient (take_credentials c job) = uj_recipient job"
    unfolding r(1) take_credentials_def by simp_all
  have live: "\<not> (uj_driver job = lit ''webrtc'' \<and> blank (cr_join_token c))" using rest unfolding same by (cases "uj_driver job = lit ''webrtc'' \<and> blank (cr_join_token c)") simp_all
  obtain items where items: "new_items cx env (uj_chunk_bytes job) files sources (cr_items c) = Inr items" "job2\<lparr>uj_items := items\<rparr> = job'"
    using rest unfolding same if_not_P [OF live] and_then_eq_Inr sum.inject by (elim exE conjE) (rule that)
  show thesis
    by (rule that [OF items(1)]) (use items(2) r live same in simp_all)
qed

lemma json_response_parsed: "json_response parse ex = Inr x \<Longrightarrow> \<exists>body. parse body = Some x"
  by (auto simp: json_response_def response_json_def and_then_eq_Inr split: if_splits option.splits)

lemma lift_step:
  assumes "bind_st (lift_st r) f s = (Inr y, s')"
  obtains x where "r = Inr x" "f x s = (Inr y, s')"
  using assms by (auto simp: bind_st_Inr lift_st_def)

lemma reserve_transfer_Ok:
  assumes "reserve_transfer np env driver sources job s = (Inr c, s')"
  shows "check_created driver job (length sources) c = Inr ()" "\<exists>body. np_created np body = Some c"
  using assms json_response_parsed [of "np_created np"] by (auto simp: reserve_transfer_def bind_st_Inr)

lemma reserve_job_Ok:
  assumes "reserve_job cx jx np env driver files sources job s = (Inr job', s')"
  obtains c r items where "\<exists>body. np_created np body = Some c" "check_created driver job (length sources) c = Inr ()"
    "new_items cx env (uj_chunk_bytes job) files sources (cr_items c) = Inr items"
    "job' = (take_credentials c job)\<lparr>uj_recipient := r, uj_items := items, uj_state := lit ''preparing''\<rparr>"
    "uj_recipient job = None \<longrightarrow> r = None" "uj_driver job = lit ''webrtc'' \<longrightarrow> \<not> blank (cr_join_token c)"
proof -
  from assms [unfolded reserve_job_def] obtain t1 where
    1: "bind_st (reserve_transfer np env driver sources job) (\<lambda>c. bind_st (lift_st (reserve_items cx env files sources c job))
      (finish_reservation cx jx env)) t1 = (Inr job', s')" by (rule bind_Inr_step)
  from 1 obtain c t2 where
    2: "reserve_transfer np env driver sources job t1 = (Inr c, t2)"
      "bind_st (lift_st (reserve_items cx env files sources c job)) (finish_reservation cx jx env) t2 = (Inr job', s')" by (rule bind_Inr_step)
  from 2(2) obtain job1 t3 where
    3: "lift_st (reserve_items cx env files sources c job) t2 = (Inr job1, t3)" "finish_reservation cx jx env job1 t3 = (Inr job', s')"
    by (rule bind_Inr_step)
  from 3(1) have "reserve_items cx env files sources c job = Inr job1" unfolding lift_st_def prod.inject by (rule conjunct1)
  then obtain r items where i: "new_items cx env (uj_chunk_bytes job) files sources (cr_items c) = Inr items"
    "job1 = (take_credentials c job)\<lparr>uj_recipient := r, uj_items := items\<rparr>"
    "uj_recipient job = None \<longrightarrow> r = None" "uj_driver job = lit ''webrtc'' \<longrightarrow> \<not> blank (cr_join_token c)" by (rule reserve_items_Ok)
  show thesis
    by (rule that [OF reserve_transfer_Ok(2,1) [OF 2(1)] i(1) _ i(3,4)]) (unfold finish_reservation_Ok [OF 3(2)] i(2), rule refl)
qed

text \<open>What the libraries and the server promise: the encoding can be read back, a generator fills its buffer, and a
  reservation has an identifier, a token and distinct items.\<close>

definition random_ok :: "rng \<Rightarrow> bool" where
  "random_ok getrandom \<longleftrightarrow> (\<forall>n b. getrandom n = Ok b \<longrightarrow> length b = n)"

definition encoding_ok :: "up_ctx \<Rightarrow> bool" where
  "encoding_ok cx \<longleftrightarrow> (\<forall>b. ux_decode cx (ux_encode cx b) = Some b)"

definition reservation_ok :: "created \<Rightarrow> bool" where
  "reservation_ok c \<longleftrightarrow> cr_id c \<noteq> [] \<and> cr_upload_token c \<noteq> [] \<and> distinct (map ci_id (cr_items c)) \<and> [] \<notin> set (map ci_id (cr_items c))"

definition server_ok :: "new_parse \<Rightarrow> bool" where
  "server_ok np \<longleftrightarrow> (\<forall>body c. np_created np body = Some c \<longrightarrow> reservation_ok c)"

lemma prefix_decodes:
  assumes "map_err f (generate_nonce_prefix g) = Inr b" "random_ok g" "encoding_ok cx"
  shows "decodes_to_16 (ux_decode cx) (ux_encode cx b)"
proof -
  have "g 16 = Inr b" using assms(1) by (cases "g 16") (simp_all add: generate_nonce_prefix_def random_bytes_def NONCE_PREFIX_BYTES_def)
  then have "length b = 16" using assms(2) by (simp add: random_ok_def)
  then show ?thesis using assms(3) by (simp add: decodes_to_16_def encoding_ok_def)
qed

lemma new_item_Ok:
  assumes "new_item cx env cb (i, (f, src), server) = Inr item"
  shows "ui_id item = ci_id server" "ui_position item = ci_position server" "ui_name item = uf_name f"
    "ui_source item = src" "ui_digest item = src_digest src"
    "\<exists>b. map_err DlMsg (generate_nonce_prefix (ne_rng env (i + 2))) = Inr b \<and> ui_nonce_prefix item = ux_encode cx b"
  using assms by (auto simp: new_item_def Let_def and_then_eq_Inr)

lemma new_items_Ok:
  assumes "new_items cx env cb files sources servers = Inr items" "length files = n" "length sources = n" "length servers = n"
  shows "length items = n"
    and "i < n \<Longrightarrow> \<exists>b. map_err DlMsg (generate_nonce_prefix (ne_rng env (i + 2))) = Inr b \<and> ui_nonce_prefix (items ! i) = ux_encode cx b"
    and "map ui_id items = map ci_id servers" "map ui_position items = map ci_position servers" "map ui_name items = map uf_name files"
    "map ui_source items = sources" "map ui_digest items = map src_digest sources"
proof -
  let ?z = "List.zip (List.zip files sources) servers"
  have len: "length ?z = length items" and each: "\<And>i. i < n \<Longrightarrow> new_item cx env cb (i, ?z ! i) = Inr (items ! i)"
    using assms unfolding new_items_def traverse_enumerate by auto
  then show "length items = n" using assms by simp
  have fields: "ui_id (items ! i) = ci_id (servers ! i)" "ui_position (items ! i) = ci_position (servers ! i)" "ui_name (items ! i) = uf_name (files ! i)"
      "ui_source (items ! i) = sources ! i" "ui_digest (items ! i) = src_digest (sources ! i)"
      "\<exists>b. map_err DlMsg (generate_nonce_prefix (ne_rng env (i + 2))) = Inr b \<and> ui_nonce_prefix (items ! i) = ux_encode cx b" if "i < n" for i
  proof -
    have "new_item cx env cb (i, (files ! i, sources ! i), servers ! i) = Inr (items ! i)" using each [OF that] that assms(2-4) by simp
    from new_item_Ok [OF this] show "ui_id (items ! i) = ci_id (servers ! i)" "ui_position (items ! i) = ci_position (servers ! i)" "ui_name (items ! i) = uf_name (files ! i)"
      "ui_source (items ! i) = sources ! i" "ui_digest (items ! i) = src_digest (sources ! i)"
      "\<exists>b. map_err DlMsg (generate_nonce_prefix (ne_rng env (i + 2))) = Inr b \<and> ui_nonce_prefix (items ! i) = ux_encode cx b" .
  qed
  then show "i < n \<Longrightarrow> \<exists>b. map_err DlMsg (generate_nonce_prefix (ne_rng env (i + 2))) = Inr b \<and> ui_nonce_prefix (items ! i) = ux_encode cx b"
    by blast
  show "map ui_id items = map ci_id servers" "map ui_position items = map ci_position servers" "map ui_name items = map uf_name files"
    "map ui_source items = sources" "map ui_digest items = map src_digest sources"
    using len assms(2-4) fields by (auto intro!: nth_equalityI)
qed

lemma measured_total:
  assumes "measure_sources env limit cb pp = Inr n" "fingerprint_sources cx env cb pp = Inr sources" "sha_hex (ux_sha cx)"
  shows "n = sum_list (map src_bytes sources)" "length sources = length (pp_files pp)"
    "list_all (\<lambda>src. valid_digest (src_digest src) \<and> list_all valid_digest (src_chunk_digests src)
      \<and> upload_chunk_count (src_bytes src) cb = Inr (of_nat (length (src_chunk_digests src)))) sources"
proof -
  obtain ms where ms: "measured env pp = Inr ms" "checked_sum 0 (map src_bytes ms) = Some n"
    using assms(1) by (auto simp: measure_sources_def and_then_eq_Inr split: if_splits option.splits)
  let ?l = "length (pp_files pp)"
  have m: "length ms = ?l" "\<And>i. i < ?l \<Longrightarrow> src_bytes (ms ! i) = snd (bounds (uf_spec (pp_files pp ! i)))"
    using ms(1) source_metadata_Ok unfolding measured_def traverse_enumerate by auto
  have f: "length sources = ?l" "\<And>i. i < ?l \<Longrightarrow> \<exists>w1 w2 reads. fingerprint (ux_sha cx) w1 w2 reads (uf_spec (pp_files pp ! i)) cb = Inr (sources ! i)"
    using assms(2) unfolding fingerprint_sources_def traverse_enumerate Let_def prod.case by (simp, blast)
  have b: "src_bytes (sources ! i) = snd (bounds (uf_spec (pp_files pp ! i)))" if "i < ?l" for i
    using f(2) [OF that] fingerprint_fields(1) [OF _ assms(3)] by blast
  have "map src_bytes ms = map src_bytes sources" using m f(1) b by (intro nth_equalityI) simp_all
  then show "n = sum_list (map src_bytes sources)" using checked_sum_Some [OF ms(2)] by simp
  show "length sources = ?l" by (rule f(1))
  show "list_all (\<lambda>src. valid_digest (src_digest src) \<and> list_all valid_digest (src_chunk_digests src)
      \<and> upload_chunk_count (src_bytes src) cb = Inr (of_nat (length (src_chunk_digests src)))) sources"
  proof (rule list_all_length [THEN iffD2], intro allI impI)
    fix i assume "i < length sources"
    then have "i < ?l" using f(1) by simp
    from f(2) [OF this] obtain w1 w2 reads where "fingerprint (ux_sha cx) w1 w2 reads (uf_spec (pp_files pp ! i)) cb = Inr (sources ! i)"
      by blast
    from fingerprint_fields [OF this assms(3)]
    show "valid_digest (src_digest (sources ! i)) \<and> list_all valid_digest (src_chunk_digests (sources ! i))
      \<and> upload_chunk_count (src_bytes (sources ! i)) cb = Inr (of_nat (length (src_chunk_digests (sources ! i))))" by blast
  qed
qed

lemma new_items_valid:
  assumes "new_items cx env cb files sources servers = Inr items" "length files = length sources" "length servers = length sources"
    and src: "list_all (\<lambda>src. valid_digest (src_digest src) \<and> list_all valid_digest (src_chunk_digests src)
      \<and> upload_chunk_count (src_bytes src) cb = Inr (of_nat (length (src_chunk_digests src)))) sources"
    and pos: "\<And>i. i < length servers \<Longrightarrow> ci_position (servers ! i) = of_nat i"
    and ids: "[] \<notin> set (map ci_id servers)" and "\<And>k. random_ok (ne_rng env k)" "encoding_ok cx"
  shows "\<forall>i < length items. item_ok (ux_decode cx) cb i (items ! i)"
proof (intro allI impI)
  fix i assume "i < length items"
  note items = new_items_Ok [OF assms(1,2) refl assms(3)]
  have i: "i < length sources" using \<open>i < length items\<close> items(1) by simp
  obtain b where b: "map_err DlMsg (generate_nonce_prefix (ne_rng env (i + 2))) = Inr b" "ui_nonce_prefix (items ! i) = ux_encode cx b"
    using items(2) [OF i] by blast
  have "ui_source (items ! i) = sources ! i" "ui_digest (items ! i) = src_digest (sources ! i)" "ui_id (items ! i) = ci_id (servers ! i)"
      "ui_position (items ! i) = ci_position (servers ! i)"
    using items(1,3,4,6,7) i assms(3) by (metis nth_map)+
  moreover have "ci_id (servers ! i) \<noteq> []" using ids i assms(3) by (metis length_map nth_map nth_mem)
  moreover have "decodes_to_16 (ux_decode cx) (ui_nonce_prefix (items ! i))" unfolding b(2) by (rule prefix_decodes [OF b(1) assms(7,8)])
  ultimately show "item_ok (ux_decode cx) cb i (items ! i)"
    unfolding item_ok_def using src pos i assms(3) by (simp add: list_all_length)
qed

lemma start_job_Ok:
  assumes "start_job cx jx np env inst driver opts info pp s = (Inr job', s')"
  obtains n sources job k v c r items where
    "measure_sources env (maximum_transfer_bytes (upload_limits driver info)) (nf_chunk_bytes info) pp = Inr n"
    "fingerprint_sources cx env (nf_chunk_bytes info) pp = Inr sources"
    "fresh_job cx env inst driver opts info n = Inr job"
    "\<exists>body. np_created np body = Some c" "check_created driver (job\<lparr>uj_master_key := k, uj_sealed_attached_note := v\<rparr>) (length sources) c = Inr ()"
    "new_items cx env (uj_chunk_bytes job) (pp_files pp) sources (cr_items c) = Inr items"
    "job' = (take_credentials c (job\<lparr>uj_master_key := k, uj_sealed_attached_note := v\<rparr>))
      \<lparr>uj_recipient := r, uj_items := items, uj_state := lit ''preparing''\<rparr>"
    "uj_recipient job = None \<longrightarrow> r = None" "uj_driver job = lit ''webrtc'' \<longrightarrow> \<not> blank (cr_join_token c)"
proof -
  from assms [unfolded start_job_def Let_def] obtain n where
    1: "measure_sources env (maximum_transfer_bytes (upload_limits driver info)) (nf_chunk_bytes info) pp = Inr n"
      "bind_st (lift_st (fingerprint_sources cx env (nf_chunk_bytes info) pp)) (\<lambda>sources.
        bind_st (lift_st (note_fits jx (nf_chunk_bytes info) (uo_attached_note opts) (pp_files pp) sources)) (\<lambda>_.
        bind_st (us_control (control_totals n (length sources))) (\<lambda>_.
        bind_st (lift_st (fresh_job cx env inst driver opts info n)) (\<lambda>job.
        bind_st (keep_note cx jx env (uo_attached_note opts) job) (\<lambda>job.
        reserve_job cx jx np env driver (pp_files pp) sources job))))) s = (Inr job', s')" by (rule lift_step)
  from 1(2) obtain sources where
    2: "fingerprint_sources cx env (nf_chunk_bytes info) pp = Inr sources"
      "bind_st (lift_st (note_fits jx (nf_chunk_bytes info) (uo_attached_note opts) (pp_files pp) sources)) (\<lambda>_.
        bind_st (us_control (control_totals n (length sources))) (\<lambda>_.
        bind_st (lift_st (fresh_job cx env inst driver opts info n)) (\<lambda>job.
        bind_st (keep_note cx jx env (uo_attached_note opts) job) (\<lambda>job.
        reserve_job cx jx np env driver (pp_files pp) sources job)))) s = (Inr job', s')" by (rule lift_step)
  from 2(2) have "bind_st (us_control (control_totals n (length sources))) (\<lambda>_.
        bind_st (lift_st (fresh_job cx env inst driver opts info n)) (\<lambda>job.
        bind_st (keep_note cx jx env (uo_attached_note opts) job) (\<lambda>job.
        reserve_job cx jx np env driver (pp_files pp) sources job))) s = (Inr job', s')" by (rule lift_step)
  then obtain t1 where "bind_st (lift_st (fresh_job cx env inst driver opts info n)) (\<lambda>job.
        bind_st (keep_note cx jx env (uo_attached_note opts) job) (\<lambda>job.
        reserve_job cx jx np env driver (pp_files pp) sources job)) t1 = (Inr job', s')" by (rule bind_Inr_step)
  then obtain job where 3: "fresh_job cx env inst driver opts info n = Inr job"
      "bind_st (keep_note cx jx env (uo_attached_note opts) job) (\<lambda>job.
        reserve_job cx jx np env driver (pp_files pp) sources job) t1 = (Inr job', s')" by (rule lift_step)
  from 3(2) obtain job1 t2 where 4: "keep_note cx jx env (uo_attached_note opts) job t1 = (Inr job1, t2)"
      "reserve_job cx jx np env driver (pp_files pp) sources job1 t2 = (Inr job', s')" by (rule bind_Inr_step)
  from keep_note_same [OF 4(1)] obtain k v where job1: "job1 = job\<lparr>uj_master_key := k, uj_sealed_attached_note := v\<rparr>" by (elim exE) (rule that)
  have same: "uj_chunk_bytes job1 = uj_chunk_bytes job" "uj_recipient job1 = uj_recipient job" "uj_driver job1 = uj_driver job"
    unfolding job1 by simp_all
  from 4(2) show thesis
  proof (rule reserve_job_Ok)
    fix c r items
    assume "\<exists>body. np_created np body = Some c" "check_created driver job1 (length sources) c = Inr ()"
      "new_items cx env (uj_chunk_bytes job1) (pp_files pp) sources (cr_items c) = Inr items"
      "job' = (take_credentials c job1)\<lparr>uj_recipient := r, uj_items := items, uj_state := lit ''preparing''\<rparr>"
      "uj_recipient job1 = None \<longrightarrow> r = None" "uj_driver job1 = lit ''webrtc'' \<longrightarrow> \<not> blank (cr_join_token c)"
    from that [OF 1(1) 2(1) 3(1)] this [unfolded same, unfolded job1] show thesis .
  qed
qed

lemma fresh_job_fields:
  assumes "fresh_job cx env inst driver opts info n = Inr job" "\<And>k. random_ok (ne_rng env k)" "encoding_ok cx"
  shows "uj_version job = 1" "uj_direction job = lit ''upload''" "uj_chunk_bytes job = nf_chunk_bytes info" "uj_total job = n"
    "uj_driver job = driver" "uj_turbo job = uo_turbo opts" "\<not> uj_descriptor_published job" "uj_chunks job = []" "uj_done job = 0"
    "uj_recipient job = None \<longleftrightarrow> uo_recipient opts = None" "length (uj_share_key job) = 32"
    "case uj_password_salt job of None \<Rightarrow> True | Some salt \<Rightarrow> decodes_to_16 (ux_decode cx) salt"
proof -
  obtain key salt where key: "map_err DlMsg (generate_transfer_key (ne_rng env 0)) = Inr key"
      and salt: "(if uo_password opts then and_then (map_err DlMsg (generate_nonce_prefix (ne_rng env 1))) (\<lambda>salt. Ok (Some (ux_encode cx salt)))
        else Ok None) = Inr salt"
      and job: "uj_share_key job = key" "uj_password_salt job = salt"
      and rest: "uj_version job = 1" "uj_direction job = lit ''upload''" "uj_chunk_bytes job = nf_chunk_bytes info" "uj_total job = n"
        "uj_driver job = driver" "uj_turbo job = uo_turbo opts" "\<not> uj_descriptor_published job" "uj_chunks job = []" "uj_done job = 0"
        "uj_recipient job = None \<longleftrightarrow> uo_recipient opts = None"
    using assms(1) unfolding fresh_job_def and_then_eq_Inr by auto
  show "uj_version job = 1" "uj_direction job = lit ''upload''" "uj_chunk_bytes job = nf_chunk_bytes info" "uj_total job = n"
    "uj_driver job = driver" "uj_turbo job = uo_turbo opts" "\<not> uj_descriptor_published job" "uj_chunks job = []" "uj_done job = 0"
    "uj_recipient job = None \<longleftrightarrow> uo_recipient opts = None" by (fact rest)+
  have "ne_rng env 0 32 = Inr key"
    using key by (cases "ne_rng env 0 32") (simp_all add: generate_transfer_key_def random_bytes_def KEY_BYTES_def)
  then show "length (uj_share_key job) = 32" using assms(2) [of 0] unfolding job(1) random_ok_def by blast
  show "case uj_password_salt job of None \<Rightarrow> True | Some salt \<Rightarrow> decodes_to_16 (ux_decode cx) salt"
    using salt prefix_decodes [OF _ assms(2,3)] unfolding job(2) by (auto simp: and_then_eq_Inr split: if_splits)
qed

lemma check_created_Ok:
  assumes "check_created driver job n c = Inr ()"
  shows "length (cr_items c) = n" "\<And>i. i < n \<Longrightarrow> ci_position (cr_items c ! i) = of_nat i"
  using assms unfolding check_created_def created_invalid_def
  by (auto simp: list_ex_iff in_set_enumerate_eq split: if_splits)

lemma new_upload_runs:
  assumes "new_upload cx jx np env inst mode driver opts s = Some (Inr job', s')"
  obtains info pp s1 where "nf_chunk_bytes info \<noteq> 0" "nf_chunk_bytes info \<le> 24999984" "accepted_names (map uf_name (pp_files pp))"
    "start_job cx jx np env inst driver opts info pp s1 = (Inr job', s')"
proof -
  obtain info pp s1 s2 where run: "ask_instance np env inst driver opts s = (Inr info, s1)"
      "gather cx env mode (maximum_file_count (upload_limits driver info)) s1 = Some (Inr pp, s2)"
      "start_job cx jx np env inst driver opts info pp s2 = (Inr job', s')"
    using assms unfolding new_upload_def and_run_Inr at_once_Inr by blast
  have "nf_chunk_bytes info \<noteq> 0" "nf_chunk_bytes info \<le> 24999984"
    using run(1) by (auto simp: ask_instance_def check_instance_def bind_st_Inr split: if_splits)
  then show thesis using that gather_accepted [OF run(2)] run(3) by blast
qed

lemma start_job_valid:
  assumes sha: "sha_hex (ux_sha cx)" and enc: "encoding_ok cx" and rand: "\<And>k. random_ok (ne_rng env k)" and server: "server_ok np"
    and driver: "driver = lit ''http'' \<or> driver = lit ''webrtc''"
    and turbo: "uo_turbo opts \<Longrightarrow> driver = lit ''http'' \<and> uo_recipient opts = None"
    and cb: "nf_chunk_bytes info \<noteq> 0" "nf_chunk_bytes info \<le> 24999984"
    and start: "start_job cx jx np env inst driver opts info pp s = (Inr job', s')"
  shows "validate_job (ux_decode cx) job' = Ok ()" "uj_state job' = lit ''preparing''" "uj_chunks job' = []" "uj_done job' = 0"
    "map ui_name (uj_items job') = map uf_name (pp_files pp)"
    "fingerprint_sources cx env (uj_chunk_bytes job') pp = Ok (map ui_source (uj_items job'))" "uj_driver job' = driver"
proof -
  from start obtain n sources job k v c r items where
      measure: "measure_sources env (maximum_transfer_bytes (upload_limits driver info)) (nf_chunk_bytes info) pp = Inr n"
      and finger: "fingerprint_sources cx env (nf_chunk_bytes info) pp = Inr sources" and fresh: "fresh_job cx env inst driver opts info n = Inr job"
      and answer: "\<exists>body. np_created np body = Some c"
      and created: "check_created driver (job\<lparr>uj_master_key := k, uj_sealed_attached_note := v\<rparr>) (length sources) c = Inr ()"
      and items: "new_items cx env (uj_chunk_bytes job) (pp_files pp) sources (cr_items c) = Inr items"
      and job': "job' = (take_credentials c (job\<lparr>uj_master_key := k, uj_sealed_attached_note := v\<rparr>))
        \<lparr>uj_recipient := r, uj_items := items, uj_state := lit ''preparing''\<rparr>"
      and r: "uj_recipient job = None \<longrightarrow> r = None" and live: "uj_driver job = lit ''webrtc'' \<longrightarrow> \<not> blank (cr_join_token c)"
    by (rule start_job_Ok)
  note f = fresh_job_fields [OF fresh rand enc]
  note m = measured_total [OF measure finger sha]
  note it = new_items_Ok [OF items m(2) [symmetric] refl check_created_Ok(1) [OF created]]
  have ok: "reservation_ok c" using answer server unfolding server_ok_def by blast
  have fields: "uj_items job' = items" "uj_state job' = lit ''preparing''" "uj_chunks job' = []" "uj_done job' = 0"
      "uj_chunk_bytes job' = nf_chunk_bytes info"
    unfolding job' using f by (simp_all add: take_credentials_def)
  have "\<forall>i < length items. item_ok (ux_decode cx) (uj_chunk_bytes job') i (items ! i)"
    unfolding fields using new_items_valid [OF items m(2) [symmetric] check_created_Ok(1) [OF created]]
      m(3) check_created_Ok [OF created] ok enc rand f(3) by (simp add: reservation_ok_def)
  moreover have "distinct (map ui_id items)" unfolding it(3) using ok unfolding reservation_ok_def by blast
  moreover have "\<not> header_invalid job'"
  proof -
    have "uj_version job' = 1" "uj_direction job' = lit ''upload''" "uj_total job' = sum_list (map src_bytes sources)" "uj_driver job' = driver"
        "uj_join_token job' = cr_join_token c" "uj_turbo job' = uo_turbo opts" "\<not> uj_descriptor_published job'" "uj_recipient job' = r"
      unfolding job' using f m(1) by (simp_all add: take_credentials_def)
    moreover have "sum_list (map (\<lambda>item. src_bytes (ui_source item)) items) = sum_list (map src_bytes sources)"
      unfolding it(6) [symmetric] by (simp add: comp_def)
    moreover have "uo_turbo opts \<longrightarrow> driver = lit ''http'' \<and> r = None" using turbo r f(10) by auto
    ultimately show ?thesis
      unfolding header_invalid_def fields using cb driver live f(5) by (auto simp: upload_states_def)
  qed
  moreover have "\<not> secrets_missing (ux_decode cx) job'"
  proof -
    have "uj_share_key job' = uj_share_key job" "uj_password_salt job' = uj_password_salt job" "uj_transfer_id job' = Some (cr_id c)"
        "uj_upload_token job' = Some (cr_upload_token c)"
      unfolding job' by (simp_all add: take_credentials_def)
    then show ?thesis unfolding secrets_missing_def using f(11,12) ok by (simp add: blank_def reservation_ok_def split: option.splits)
  qed
  ultimately show "validate_job (ux_decode cx) job' = Ok ()" unfolding validate_job_Ok job_valid_def fields by simp
  show "uj_state job' = lit ''preparing''" "uj_chunks job' = []" "uj_done job' = 0" by (fact fields)+
  show "uj_driver job' = driver" unfolding job' using f(5) by (simp add: take_credentials_def)
  show "map ui_name (uj_items job') = map uf_name (pp_files pp)" unfolding fields by (rule it(5))
  show "fingerprint_sources cx env (uj_chunk_bytes job') pp = Ok (map ui_source (uj_items job'))" unfolding fields it(6) by (rule finger)
qed

lemma run_new_http:
  assumes "run_new cx jx pr np env cenv inst mode driver False opts s = Some (Inr url, s')" "driver = lit ''http''"
    and "libraries_ok cx" "encoding_ok cx" "\<And>k. random_ok (ne_rng env k)" "server_ok np"
    and "uo_turbo opts \<longrightarrow> uo_recipient opts = None"
  shows "\<exists>job s1 s2. new_upload cx jx np env inst mode driver opts s = Some (Inr job, s1) \<and> resumable cx job \<and> uj_driver job = driver
    \<and> run_job cx jx pr cenv job s1 = Some (Inr url, s2) \<and> us_log s' = us_log s2
    \<and> accepted_names (map ui_name (uj_items job))
    \<and> (\<exists>pp. fingerprint_sources cx env (uj_chunk_bytes job) pp = Ok (map ui_source (uj_items job))
          \<and> map uf_name (pp_files pp) = map ui_name (uj_items job))"
proof -
  obtain s2 where s2: "and_run (new_upload cx jx np env inst mode driver opts) (continue_job cx jx pr cenv) s = Some (Inr url, s2)" "s' = drop_store cx s2"
    using assms(1) by (auto simp: run_new_def owning_run_def)
  obtain job s1 where job: "new_upload cx jx np env inst mode driver opts s = Some (Inr job, s1)" "continue_job cx jx pr cenv job s1 = Some (Inr url, s2)"
    using s2(1) unfolding and_run_Inr by (elim exE conjE) (rule that)
  from job(1) obtain info pp t where cb: "nf_chunk_bytes info \<noteq> 0" "nf_chunk_bytes info \<le> 24999984"
      and names: "accepted_names (map uf_name (pp_files pp))" and start: "start_job cx jx np env inst driver opts info pp t = (Inr job, s1)"
    by (rule new_upload_runs)
  have sha: "sha_hex (ux_sha cx)" using assms(3) by (simp add: libraries_ok_def)
  have turbo: "driver = lit ''http'' \<and> uo_recipient opts = None" if "uo_turbo opts" using assms(2,7) that by blast
  note valid = start_job_valid [OF sha assms(4-6) disjI1 [OF assms(2)] turbo cb start]
  have "run_job cx jx pr cenv job s1 = Some (Inr url, s2)"
    using job(2) unfolding continue_job_def and_run_Inr at_once_Inr by (auto simp: valid(2))
  moreover have "resumable cx job" using valid(1-4) by (simp add: resumable_def validate_job_Ok completed_bytes_def)
  moreover have "us_log s' = us_log s2" unfolding s2(2) by (simp add: drop_store_def Let_def)
  ultimately show ?thesis using job(1) valid(6,7) names unfolding valid(5) [symmetric]
    by - (rule exI [of _ job], rule exI [of _ s1], rule exI [of _ s2], metis valid(5))
qed


definition example_created :: created where
  "example_created =
     \<lparr>cr_id = lit ''t'', cr_share_url = lit ''s'', cr_chunk_bytes = 8, cr_upload_transport = None,
      cr_items = [\<lparr>ci_id = lit ''i'', ci_position = 0\<rparr>], cr_upload_token = lit ''u'', cr_monitor_token = None, cr_delete_token = lit ''d'',
      cr_driver = lit ''http'', cr_join_token = None\<rparr>"

definition example_new_parse :: new_parse where
  "example_new_parse = \<lparr>np_info = (\<lambda>_. None), np_created = (\<lambda>_. Some example_created)\<rparr>"

definition example_new_ctx :: up_ctx where
  "example_new_ctx = example_up_ctx\<lparr>ux_encode := map unat, ux_decode := \<lambda>r. Some (map of_nat r)\<rparr>"

definition example_new_env :: new_env where
  "example_new_env =
     \<lparr>ne_connecting = False, ne_client = True, ne_info = example_answer,
      ne_inputs = InputSources [] \<lparr>zv_archiving = False, zv_directory = Ok [], zv_created = True, zv_entries = [], zv_finished = True,
        zv_preparing = False, zv_length = Ok 0\<rparr>,
      ne_archive = Ok [], ne_snapshots = [], ne_contents = (\<lambda>_. Ok []), ne_metadata = (\<lambda>_. example_world),
      ne_fingerprints = ce_sources example_continue_env, ne_rng = (\<lambda>_ n. Ok (replicate n 7)), ne_unlock = example_unlock_env,
      ne_created = example_answer, ne_memory = False\<rparr>"

definition example_options :: upload_options where
  "example_options =
     \<lparr>uo_attached_note = None, uo_turbo = True, uo_password = False, uo_retention_hours = None, uo_authentication = Anonymous, uo_recipient = None\<rparr>"

lemma example_new_ok: "encoding_ok example_new_ctx" "random_ok (ne_rng example_new_env k)" "server_ok example_new_parse"
  by (simp_all add: encoding_ok_def example_new_ctx_def comp_def random_ok_def example_new_env_def server_ok_def example_new_parse_def
      example_created_def reservation_ok_def)


section \<open>A reservation that did not finish\<close>

lemma reserving_invalid: "uj_state job = lit ''reserving'' \<Longrightarrow> \<exists>e. validate_job decode job = Inl e"
  by (simp add: validate_job_def header_invalid_def upload_states_def)


end
