(* ===== verification/Spec2Isabelle.thy ===== *)
theory Spec2Isabelle
  imports Signaling Managed_Job Loopback Browser Download_Resume Upload_New
begin

text \<open>
  Verification of the Filebeam transfer clients.

  \<^bold>\<open>The program.\<close> Filebeam sends end-to-end encrypted files. A sender collects and fingerprints its sources, reserves a
  transfer, encrypts each item in chunks, uploads the ciphertext to a server (directly or as a staged, resumable upload)
  or serves it to a receiver over a WebRTC data channel; a share link carries the transfer id and the key; the receiver
  validates the decrypted manifest, fetches chunks (by HTTP ranges or over the data channel), decrypts and stores them,
  and publishes the files. Both sides keep a checkpoint on disk, so that a transfer survives a crash. The Rust crates
  under \<open>src/crates\<close> are layered: \<open>transfer\<close> is the platform-independent policy and wire format, \<open>encryption\<close> the
  cryptographic protocol, \<open>transfer-native\<close> the native transfer engine, \<open>transfer-wasm\<close> the browser's adapter to
  \<open>transfer\<close>, \<open>client-core\<close> the ownership of jobs for native hosts. The command line, the desktop and mobile
  applications, the web front end and the PHP server are built on them.

  \<^bold>\<open>Theories and the code they model: foundations.\<close>

  \<^item> \<open>Beam_Prelude\<close>: Rust's integers, results, strings (lists of Unicode scalar values) and bytes; operations with state
    and errors (\<open>st\<close>) and operations that may still be running (\<open>run\<close>); the interfaces \<open>guarded_machine\<close> (operations
    that keep an invariant), \<open>step_refinement\<close> (a component that only makes steps of another) and \<open>partial_codec\<close>.
  \<^item> \<open>F64\<close>: doubles as rationals with correct rounding, for the policy's rates.
  \<^item> \<open>File_System\<close>: the calls of \<open>std::fs\<close> the engine uses, over a tree of nodes, each of which may fail.

  \<^bold>\<open>The policy, \<open>crates/transfer/src\<close> and \<open>crates/encryption/src\<close>.\<close>

  \<^item> \<open>Adaptive\<close> (\<open>lib.rs\<close>): \<open>AdaptiveConcurrency\<close> as the record \<open>adaptive\<close>, with \<open>sample\<close>, \<open>forget\<close>, \<open>observe\<close> and
    \<open>congested\<close>, and \<open>TransferMemoryBudget\<close>.
  \<^item> \<open>Transport\<close> (\<open>lib.rs\<close>): \<open>UploadTransport\<close>, part sizes and counts, retry decisions, the chunk layout.
  \<^item> \<open>Staging\<close> (\<open>lib.rs\<close>): \<open>StageSession\<close>, which reconciles an upload with the server's statuses, and
    \<open>TransferProgress\<close>.
  \<^item> \<open>Wire\<close> (\<open>lib.rs\<close>): control messages and binary frames of the data channel.
  \<^item> \<open>Share_Link\<close>, \<open>Manifest\<close> (\<open>link.rs\<close>, \<open>manifest.rs\<close>, \<open>capabilities.rs\<close>).
  \<^item> \<open>Encryption\<close> (\<open>lib.rs\<close> of \<open>encryption\<close>): nonces, chunk and manifest encryption, key derivation, recipient
    envelopes.

  \<^bold>\<open>The engine, \<open>crates/transfer-native/src\<close>.\<close>

  \<^item> \<open>Http_Range\<close> (\<open>http.rs\<close>, \<open>runtime.rs\<close>): bounded bodies, continuation ranges, the retry loop.
  \<^item> \<open>Control\<close> (\<open>control.rs\<close>): memory permits, progress, prompts and peer consent; the interface \<open>memory_pool\<close>.
  \<^item> \<open>Checkpoint\<close> (\<open>checkpoint.rs\<close>): \<open>Store\<close>, its lock, the sealed records and their atomic replacement.
  \<^item> \<open>Channel\<close>, \<open>Ice\<close>, \<open>Signaling\<close>, \<open>Loopback\<close> (\<open>webrtc.rs\<close>, \<open>ice.rs\<close>): the chunk exchange, ICE policy, session
    descriptions, the signaling client, \<open>connect_receiver\<close> and \<open>connect_sender\<close>, and the self test.
  \<^item> \<open>Download_Chunk\<close> (\<open>protocol/download.rs\<close>): one record, from \<open>fetch_chunk\<close> to \<open>authenticate_and_write\<close>.
  \<^item> \<open>Download_Job\<close>: \<open>DownloadJob\<close>, its checks and the publication of files; \<open>Download_Queue\<close>: the loop \<open>download\<close>.
  \<^item> \<open>Download_Open\<close>, \<open>Download_Resume\<close>: opening a transfer, \<open>async_run\<close>, \<open>async_resume\<close>, Turbo, execution by the host.
  \<^item> \<open>Upload_Source\<close> (\<open>source.rs\<close>, \<open>protocol/upload.rs\<close>): sources, fingerprints and \<open>prepare_one\<close>; \<open>Upload_Collect\<close>
    (\<open>uploads.rs\<close>): traversal, archives, names, copies and snapshots.
  \<^item> \<open>Upload_Job\<close> (\<open>protocol/upload.rs\<close>): \<open>UploadJob\<close>, \<open>validate_job\<close> and the preparation of ciphertext;
    \<open>Upload_Envelope\<close>: the manifest, the note, the descriptor and the receipt.
  \<^item> \<open>Upload_Stage\<close>: sending one chunk, directly or staged; \<open>Upload_Run\<close>: reconciliation with the server's ledger and
    the loop of \<open>continue_job\<close>.
  \<^item> \<open>Upload_Finish\<close>, \<open>Upload_Live\<close>, \<open>Upload_Resume\<close>: the phases around the loop, live shares, and \<open>continue_job\<close>,
    \<open>resume\<close>, \<open>revoke\<close>, \<open>end_live\<close> and the background operations; \<open>Upload_New\<close>: \<open>run_new\<close>.

  \<^bold>\<open>The hosts.\<close>

  \<^item> \<open>Scheduler\<close>, \<open>Managed_Job\<close> (\<open>scheduler.rs\<close>, \<open>managed.rs\<close>, parts of \<open>lib.rs\<close> and \<open>error.rs\<close> of
    \<open>crates/client-core/src\<close>): admission under shared limits, and the facade hosts poll.
  \<^item> \<open>Browser\<close> (\<open>crates/transfer-wasm/src/lib.rs\<close>): every exported function.

  \<^bold>\<open>How state and effects correspond.\<close> A struct is a record and an enum a datatype. A method with \<open>&mut self\<close> maps the
  record to its successor; where it can fail after a write, it is a function in the state-and-result monad of the
  prelude, so an error keeps the state the code leaves behind. Errors are the left injection of a sum; messages that the
  code builds from data are shortened to their fixed part. The state of an upload or a download holds the file system, the
  shared control and a log of the requests sent. Code outside the repository enters as arguments: JSON, the
  cryptographic primitives, JavaScript values, the random source, and, for the network, the user's files, the archive
  library and threads, the outcome of every call and wait, in records named \<open>env\<close>. What is needed of them is a named
  hypothesis: \<open>json_faithful\<close> and \<open>carried\<close>, \<open>aead_correct\<close>, \<open>hpke_correct\<close>, \<open>sha_hex\<close>, \<open>encoding_ok\<close>, \<open>random_ok\<close>,
  \<open>server_ok\<close>. Each has a concrete instance in its theory, used by the witnesses. Concurrency is interleaving: the
  scheduler, the memory pool, the transfer loops and the peers of a live share are machines whose operations are the
  critical sections or the wake-ups of the code, and theorems hold for all sequences of them.

  \<^bold>\<open>What is shown.\<close> The policy keeps its limits under every sequence of calls (\<open>Adaptive\<close>, \<open>Transport\<close>); a staged upload
  stays well formed and gives up after bounded recovery against any server (\<open>Staging\<close>); the frame codec is exact and
  the control parser enforces the protocol's bounds against any peer (\<open>Wire\<close>); a requested chunk is whole or refused,
  and the two ends deliver the ciphertext (\<open>Channel\<close>), also from plaintext to plaintext (below); nonces never repeat and
  what is sealed opens (\<open>Encryption\<close>); links and manifests are accepted exactly when they are canonical and match
  (\<open>Share_Link\<close>, \<open>Manifest\<close>); ranges are accepted exactly when they are the requested slice, and retries end
  (\<open>Http_Range\<close>); memory and worker accounting is exact under every interleaving (\<open>Control\<close>, \<open>Scheduler\<close>); checkpoints
  are replaced atomically whatever call fails, ciphertext is written once, and saved records load (\<open>Checkpoint\<close>); a
  fetched record is whole and of one entity, only authenticated plaintext is written, published files have the manifest's
  digest and replace nothing, the download loop ends, and a resumed download counts only records that authenticate
  (the \<open>Download\<close> theories); a nonce is reused only for the same bytes, preparation records every chunk, a staged chunk
  arrives whole, the upload loop ends, the published manifest opens for whoever has the link, the ledger completes only
  what the server holds, and a new upload that comes back with a link is whole (the \<open>Upload\<close> theories and below); the
  browser's controllers refine the core (\<open>Browser\<close>). Some theorems state behaviour the code should not have: an upload
  whose completion was accepted but not recorded, a job saved while it was reserving and a Turbo download interrupted
  while it publishes can never be resumed, the limit on the restarts of a stage is never reached, a lowered scheduler
  limit starves a waiting call, an answer of the wrong kind strands a prompt, and the browser boundary lets \<open>2 ^ 64\<close>
  through.

  \<^bold>\<open>Bounds and fuel.\<close> Loops that read from the network, wait for a lock or wait for a task recurse over the list of
  outcomes; an exhausted list is either the closed stream, where the code has that case, or a wait still going on
  (\<open>None\<close>), and theorems about results say which. That the transfer loops end is shown by counting the wake-ups that
  complete something. Retries recurse over the attempts left. The searches for a free name (\<open>unique_from\<close>,
  \<open>collision_free_from\<close>) are bounded by one more than the names in use, which is shown to be enough. Machine integers
  keep their width; lengths of in-memory data are \<open>nat\<close>, and where the code casts them the bound that makes the cast
  exact is proved or assumed explicitly.

  \<^bold>\<open>Not modelled.\<close> The session reports and reconnections of live downloads, inbox staging and activity reports, the
  dispatch of requests and the list of saved transfers in \<open>protocol/mod.rs\<close>, which forward to the modelled operations;
  checkpoints on Windows and Android; of \<open>client-core\<close> the application runtime, link presentation and account services;
  the command line, FFI, updater and configuration crates, the desktop application; everything that is not Rust (server,
  web front end, mobile shells). They are input or output around the modelled parts, clients of the server's interface,
  or user interface.
\<close>

section \<open>Properties that span components\<close>

lemma ciphertext_bytes_single:
  assumes "0 < unat c" "unat c + 16 \<le> 25000000"
  shows "ciphertext_bytes c c = Ok (c + 16)"
proof -
  have "ceil_div (unat c) (unat c) = 1"
    using assms(1) div_mult_self1 [of "unat c" "unat c - 1" 1] by (simp add: ceil_div_def add.commute)
  then have "chunk_count c c = Ok 1" using assms by (simp add: chunk_count_Ok)
  moreover have "checked_mul 1 AEAD_TAG_BYTES = Some 16" by (simp add: checked_mul_def AEAD_TAG_BYTES_def)
  moreover have "checked_add c 16 = Some (c + 16)" using assms by (simp add: checked_add_def)
  ultimately show ?thesis by (simp add: ciphertext_bytes_def)
qed

text \<open>C2. From plaintext to plaintext across encryption, the sending and the receiving end: a chunk
  encrypted by the sender and stored for serving, requested over a reliable ordered channel, is
  served without error, arrives as the stored ciphertext and decrypts, under the same key, prefix,
  index and associated data, to the plaintext. Its ciphertext is as long as the layout of
  \<open>ciphertext_bytes\<close> says for one chunk.\<close>

theorem encrypted_chunk_crosses_channel:
  assumes "aead_correct cr" "encrypt_chunk cr key pre k plaintext ad = Ok cs"
    and "chunks (item_id, index) = Some cs"
    and "carried api (Request seq item_id index) treq"
    and "carried api (Chunk seq item_id index (of_nat (length cs))) tchunk"
    and "carried api (Ack seq) tack"
    and "chunk_bytes = of_nat (length plaintext)" "0 < length plaintext"
  shows "let (served, sender) = serve_channel api chunks
               [Event (OnMessage (text_message treq)), Event (OnMessage (text_message tack))] open_chan;
             received = fst (request_chunk api seq item_id index (of_nat (length cs))
               (map (Event \<circ> OnMessage) (sent sender)) open_chan)
         in served = Ok ()
            \<and> and_then received (\<lambda>c. decrypt_chunk cr key pre k c ad) = Ok plaintext
            \<and> ciphertext_bytes chunk_bytes chunk_bytes = Ok (of_nat (length cs))"
proof -
  have len: "length cs = length plaintext + 16" "length cs \<le> 25000000"
    using encrypted_chunk_decrypts [OF assms(1,2)] by simp_all
  have "ciphertext_bytes chunk_bytes chunk_bytes = Ok (of_nat (length cs))"
    using ciphertext_bytes_single [of chunk_bytes] len assms(7,8) unat_of_nat_less [of "length plaintext", where 'a = 64]
    by simp
  then show ?thesis
    using encrypted_exchange_run [of cr key pre k plaintext ad cs chunks item_id index, OF assms(1-6)] by auto
qed

theorem encrypted_chunk_crosses_channel_witness:
  "let (served, sender) = serve_channel example_json [(lit ''probe'', 0) \<mapsto> 5 # replicate 16 0]
           [Event (OnMessage (text_message
              (lit ''{\"type\":\"request\",\"seq\":1,\"itemId\":\"probe\",\"index\":0}''))),
            Event (OnMessage (text_message (lit ''{\"type\":\"ack\",\"seq\":1}'')))] open_chan;
       received = fst (request_chunk example_json 1 (lit ''probe'') 0 (of_nat (length (5 # replicate 16 (0 :: u8))))
           (map (Event \<circ> OnMessage) (sent sender)) open_chan)
   in served = Ok ()
      \<and> and_then received (\<lambda>c. decrypt_chunk example_crypto (replicate 32 7) (replicate 16 3) 0 c [9]) = Ok [5]
      \<and> ciphertext_bytes 1 1 = Ok (of_nat (length (5 # replicate 16 (0 :: u8))))"
proof -
  have len: "length (replicate 17 (5 :: u8)) = length (5 # replicate 16 (0 :: u8))" by simp
  show ?thesis
    by (rule encrypted_chunk_crosses_channel [OF example_aead_correct _ _ example_carried(1)
          example_carried(2) [unfolded len] example_carried(3)])
       (simp_all add: encrypt_chunk_def encrypt_at_index_Ok example_crypto_def crypto_sizes)
qed



end
